(* ===== verification/Saccade_Prelude.thy ===== *)
theory Saccade_Prelude
  imports Main "HOL-Library.Word" "HOL-Library.Multiset"
begin

unbundle bit_operations_syntax

text \<open>
  Shared vocabulary of the development: the machine integers of the C++ sources, the
  result codes of \<open>include/saccade/saccade.h\<close>, bounded search, little-endian byte access
  for the packet formats, and the interface \<open>invariant_machine\<close> that every stateful
  component of the program instantiates.

  Conventions used by every theory:
  \<^item> unsigned integers are words of their width, so \<open>+\<close>, \<open>-\<close>, \<open>*\<close> wrap as in C++;
  \<^item> a signed \<open>int32_t\<close> is a 32-bit word read with \<open>sint\<close>; \<open>int64_t\<close> arithmetic on such
    values never leaves 64 bits and is written on \<open>int\<close>;
  \<^item> \<open>static_cast<int32_t>\<close> of a wider value is \<open>word_of_int\<close>;
  \<^item> an output pointer is a Boolean argument (\<open>True\<close> when it is not null) and the value it
    receives is a component of the result; nullable input pointers are options.
\<close>

type_synonym u8 = "8 word"
type_synonym u16 = "16 word"
type_synonym u32 = "32 word"
type_synonym u64 = "64 word"
type_synonym i32 = "32 word"

abbreviation uint32_max :: u32 where "uint32_max \<equiv> 0xFFFFFFFF"
abbreviation uint64_max :: u64 where "uint64_max \<equiv> 0xFFFFFFFFFFFFFFFF"
abbreviation int32_min :: int where "int32_min \<equiv> - 2147483648"
abbreviation int32_max :: int where "int32_max \<equiv> 2147483647"

datatype saccade_result =
    SACCADE_OK
  | SACCADE_ERROR_INVALID_ARGUMENT
  | SACCADE_ERROR_VERSION
  | SACCADE_ERROR_CAPACITY
  | SACCADE_ERROR_STALE_HANDLE
  | SACCADE_ERROR_UNSUPPORTED
  | SACCADE_ERROR_BACKEND
  | SACCADE_ERROR_STATE
  | SACCADE_ERROR_NOT_FOUND
  | SACCADE_ERROR_TIMEOUT
  | SACCADE_ERROR_CANCELLED
  | SACCADE_ERROR_BUSY
  | SACCADE_ERROR_ALREADY_EXISTS
  | SACCADE_ERROR_PERMISSION

named_theorems op_defs "definitions of the operations of the components"
named_theorems inv_defs "definitions of the component invariants"

subsection \<open>Search loops\<close>

text \<open>The index of the first element a scan accepts.\<close>

fun first_index :: "('a \<Rightarrow> bool) \<Rightarrow> 'a list \<Rightarrow> nat option" where
  "first_index P [] = None"
| "first_index P (x # xs) = (if P x then Some 0 else map_option Suc (first_index P xs))"

lemma first_index_Some:
  "first_index P xs = Some i \<Longrightarrow> i < length xs \<and> P (xs ! i) \<and> (\<forall>j < i. \<not> P (xs ! j))"
  by (induction xs arbitrary: i) (auto split: if_splits simp: less_Suc_eq_0_disj)

lemma first_index_None: "first_index P xs = None \<longleftrightarrow> (\<forall>x \<in> set xs. \<not> P x)"
  by (induction xs) auto

lemma first_index_SomeI:
  "i < length xs \<Longrightarrow> P (xs ! i) \<Longrightarrow> \<forall>j < i. \<not> P (xs ! j) \<Longrightarrow> first_index P xs = Some i"
proof (induction xs arbitrary: i)
  case Nil
  then show ?case by simp
next
  case (Cons x xs)
  show ?case
  proof (cases i)
    case 0
    with Cons.prems show ?thesis by simp
  next
    case (Suc k)
    have "\<not> P x" using Cons.prems(3) Suc by force
    moreover have "first_index P xs = Some k"
      using Cons.prems Suc by (intro Cons.IH) auto
    ultimately show ?thesis using Suc by simp
  qed
qed

lemma find_Some_iff_hd: "List.find P xs = Some x \<Longrightarrow> x \<in> set xs \<and> P x"
  by (induction xs) (auto split: if_splits)

lemma find_None_iff_all [simp]: "List.find P xs = None \<longleftrightarrow> (\<forall>x \<in> set xs. \<not> P x)"
  by (induction xs) auto

lemma length_filter_update:
  "i < length xs \<Longrightarrow> length (filter P (xs[i := y])) + (if P (xs ! i) then 1 else 0) =
     length (filter P xs) + (if P y then 1 else 0)"
proof (induction xs arbitrary: i)
  case Nil
  then show ?case by simp
next
  case (Cons x xs)
  show ?case
  proof (cases i)
    case 0
    then show ?thesis by simp
  next
    case (Suc k)
    with Cons.prems have "k < length xs" by simp
    from Cons.IH [OF this] Suc show ?thesis by (simp split: if_splits)
  qed
qed

subsection \<open>In-place insertion sort\<close>

text \<open>
  Several components sort a small array in place: the new element starts behind a sorted
  prefix and moves left while it comes before its left neighbour.
\<close>

fun shift_left :: "('a \<Rightarrow> 'a \<Rightarrow> bool) \<Rightarrow> 'a \<Rightarrow> 'a list \<Rightarrow> 'a list" where
  "shift_left before c [] = [c]"
| "shift_left before c (x # xs) = (if before c x then x # shift_left before c xs else c # x # xs)"

definition insert_back :: "('a \<Rightarrow> 'a \<Rightarrow> bool) \<Rightarrow> 'a list \<Rightarrow> 'a \<Rightarrow> 'a list" where
  "insert_back before xs c = rev (shift_left before c (rev xs))"

definition loop_sort :: "('a \<Rightarrow> 'a \<Rightarrow> bool) \<Rightarrow> 'a list \<Rightarrow> 'a list" where
  "loop_sort before xs = foldl (insert_back before) [] xs"

lemma mset_shift_left: "mset (shift_left before c xs) = add_mset c (mset xs)"
  by (induction xs) auto

lemma set_shift_left [simp]: "set (shift_left before c xs) = insert c (set xs)"
  by (induction xs) auto

lemma mset_insert_back [simp]: "mset (insert_back before xs c) = add_mset c (mset xs)"
  by (simp add: insert_back_def mset_shift_left)

lemma length_insert_back [simp]: "length (insert_back before xs c) = Suc (length xs)"
  by (metis mset_insert_back size_add_mset size_mset)

lemma mset_foldl_insert_back: "mset (foldl (insert_back before) acc xs) = mset acc + mset xs"
  by (induction xs arbitrary: acc) auto

lemma mset_loop_sort [simp]: "mset (loop_sort before xs) = mset xs"
  by (simp add: loop_sort_def mset_foldl_insert_back)

lemma set_loop_sort [simp]: "set (loop_sort before xs) = set xs"
  by (metis mset_loop_sort set_mset_mset)

lemma length_loop_sort [simp]: "length (loop_sort before xs) = length xs"
  by (metis mset_loop_sort size_mset)

text \<open>The order is a strict weak order given by a key; the result is sorted by that key.\<close>

lemma sorted_shift_left:
  assumes "\<And>x y. before x y \<longleftrightarrow> (key x :: 'k::linorder) < key y"
    and "sorted_wrt (\<lambda>x y. key y \<le> key x) xs"
  shows "sorted_wrt (\<lambda>x y. key y \<le> key x) (shift_left before c xs)"
  using assms(2)
proof (induction xs)
  case Nil
  then show ?case by simp
next
  case (Cons x xs)
  then show ?case
    by (cases "before c x") (auto simp: assms(1) not_less intro: order_trans)
qed

lemma sorted_loop_sort:
  assumes "\<And>x y. before x y \<longleftrightarrow> (key x :: 'k::linorder) < key y"
  shows "sorted_wrt (\<lambda>x y. key x \<le> key y) (loop_sort before xs)"
proof -
  have "sorted_wrt (\<lambda>x y. key x \<le> key y) acc \<Longrightarrow>
      sorted_wrt (\<lambda>x y. key x \<le> key y) (foldl (insert_back before) acc xs)" for acc
  proof (induction xs arbitrary: acc)
    case Nil
    then show ?case by simp
  next
    case (Cons x xs)
    have "sorted_wrt (\<lambda>x y. key x \<le> key y) (insert_back before acc x)"
      using sorted_shift_left [of before key "rev acc" x] Cons.prems assms
      by (simp add: insert_back_def sorted_wrt_rev)
    then show ?case using Cons.IH by simp
  qed
  then show ?thesis by (simp add: loop_sort_def)
qed

subsection \<open>Signed reads of words\<close>

lemma sint32_bounds [simp]:
  "int32_min \<le> sint (w :: i32)" "sint (w :: i32) \<le> int32_max"
  using sint_ge [of w] sint_lt [of w] by simp_all

lemma sint32_lt [simp]: "sint (w :: i32) < 2147483648"
  using sint32_bounds(2) [of w] by linarith

lemma sint_word_of_int32 [simp]:
  "int32_min \<le> i \<Longrightarrow> i \<le> int32_max \<Longrightarrow> sint (word_of_int i :: i32) = i"
  by (simp add: signed_take_bit_int_eq_self sint_sbintrunc')

lemma unat32_lt [simp]: "unat (w :: u32) < 4294967296"
  using unsigned_less [of w] by simp

lemma unat64_lt [simp]: "unat (w :: u64) < 18446744073709551616"
  using unsigned_less [of w] by simp

lemma unat8_lt [simp]: "unat (w :: u8) < 256"
  using unsigned_less [of w] by simp

lemma unat16_lt [simp]: "unat (w :: u16) < 65536"
  using unsigned_less [of w] by simp

lemma unat_Suc_word: "unat (w + 1 :: 'a::len word) = Suc (unat w) mod 2 ^ LENGTH('a)"
  by (simp add: unat_word_ariths)

lemma unat_widen:
  "LENGTH('a::len) \<le> LENGTH('b::len) \<Longrightarrow> unat (ucast (x :: 'a word) :: 'b word) = unat x"
  by (simp add: unsigned_ucast_eq take_bit_nat_eq_self order_less_le_trans [OF unsigned_less power_increasing])

lemma unat_widen_words [simp]:
  "unat (ucast (b :: u8) :: u32) = unat b" "unat (ucast (h :: u16) :: u32) = unat h"
  "unat (ucast (h :: u16) :: u64) = unat h" "unat (ucast (w :: u32) :: u64) = unat w"
  by (simp_all add: unat_widen)

lemma unat_narrow_u32: "unat (x :: u64) < 4294967296 \<Longrightarrow> unat (ucast x :: u32) = unat x"
  by (simp add: unsigned_ucast_eq take_bit_eq_mod)

text \<open>Two 32-bit halves packed into one 64-bit word.\<close>

lemma take_bit32_small: "unat (w :: u64) < 2 ^ 32 \<Longrightarrow> take_bit 32 w = w"
  by (simp add: word_unat_eq_iff unsigned_take_bit_eq take_bit_eq_mod unat_mod_distrib)

lemma pack32_low:
  assumes "unat (w :: u64) < 2 ^ 32"
  shows "ucast ((push_bit 32 (ucast (g :: u32)) OR w) AND 0xFFFFFFFF) = (ucast w :: u32)"
proof -
  have m: "(0xFFFFFFFF :: u64) = mask 32" by (simp add: mask_eq_exp_minus_1)
  show ?thesis unfolding m
    by (rule bit_word_eqI) (auto simp: bit_simps)
qed

lemma pack32_high:
  assumes "unat (w :: u64) < 2 ^ 32"
  shows "ucast (drop_bit 32 (push_bit 32 (ucast (g :: u32)) OR w)) = g"
proof -
  have "take_bit 32 w = w" using assms by (rule take_bit32_small)
  then have "\<not> bit w (32 + n)" for n
    by (metis bit_take_bit_iff not_add_less1)
  then show ?thesis
    by (intro bit_word_eqI) (auto simp: bit_simps)
qed

lemma low_bits_small:
  assumes "unat (w :: 'a::len word) < 2 ^ k"
  shows "bit w n \<Longrightarrow> n < k"
proof -
  assume b: "bit w n"
  show "n < k"
  proof (rule ccontr)
    assume "\<not> n < k"
    then have "unat w < 2 ^ n" using assms by (metis le_less_trans not_less one_le_numeral order_less_le_trans power_increasing)
    then have "\<not> bit (unat w) n" by (simp add: bit_iff_odd)
    with b show False by (simp add: bit_unsigned_iff)
  qed
qed

lemma mask_numerals:
  "(0xFF :: u64) = mask 8" "(0xFFFFFFFF :: u64) = mask 32"
  by (simp_all add: mask_eq_exp_minus_1)

lemma unat_of_nat_small: "n < 18446744073709551616 \<Longrightarrow> unat (word_of_nat n :: u64) = n"
  by (simp add: unat_of_nat)

lemma unat_word_of_int64: "0 \<le> i \<Longrightarrow> i < 18446744073709551616 \<Longrightarrow> unat (word_of_int i :: u64) = nat i"
  by (simp add: unsigned_of_int take_bit_int_eq_self)

subsection \<open>Little-endian byte access\<close>

text \<open>
  The packet formats are plain structs without padding, read with \<open>reinterpret_cast\<close> on
  little-endian targets (\<open>abi/layout-v1.def\<close>). A struct is read and written field by
  field, in declaration order.
\<close>

fun le_bytes :: "nat \<Rightarrow> nat \<Rightarrow> u8 list" where
  "le_bytes 0 x = []"
| "le_bytes (Suc n) x = word_of_nat (x mod 256) # le_bytes n (x div 256)"

fun le_value :: "u8 list \<Rightarrow> nat" where
  "le_value [] = 0"
| "le_value (b # bs) = unat b + 256 * le_value bs"

definition put_word :: "nat \<Rightarrow> 'a::len word \<Rightarrow> u8 list" where
  "put_word n w = le_bytes n (unat w)"

definition get_word :: "nat \<Rightarrow> u8 list \<Rightarrow> 'a::len word \<times> u8 list" where
  "get_word n bs = (word_of_nat (le_value (take n bs)), drop n bs)"

abbreviation put_u16 :: "u16 \<Rightarrow> u8 list" where "put_u16 \<equiv> put_word 2"
abbreviation put_u32 :: "u32 \<Rightarrow> u8 list" where "put_u32 \<equiv> put_word 4"
abbreviation put_u64 :: "u64 \<Rightarrow> u8 list" where "put_u64 \<equiv> put_word 8"
abbreviation get_u16 :: "u8 list \<Rightarrow> u16 \<times> u8 list" where "get_u16 \<equiv> get_word 2"
abbreviation get_u32 :: "u8 list \<Rightarrow> u32 \<times> u8 list" where "get_u32 \<equiv> get_word 4"
abbreviation get_u64 :: "u8 list \<Rightarrow> u64 \<times> u8 list" where "get_u64 \<equiv> get_word 8"

lemma length_le_bytes [simp]: "length (le_bytes n x) = n"
  by (induction n arbitrary: x) auto

lemma length_put_word [simp]: "length (put_word n w) = n"
  by (simp add: put_word_def)

lemma le_value_le_bytes: "le_value (le_bytes n x) = x mod 256 ^ n"
proof (induction n arbitrary: x)
  case 0
  then show ?case by simp
next
  case (Suc n)
  have "le_value (le_bytes (Suc n) x) = x mod 256 + 256 * (x div 256 mod 256 ^ n)"
    using Suc.IH [of "x div 256"] by (simp add: unat_of_nat)
  also have "\<dots> = x mod (256 * 256 ^ n)"
    by (simp add: mod_mult2_eq)
  finally show ?case by simp
qed

lemma get_put_word:
  assumes "8 * n = LENGTH('a::len)"
  shows "get_word n (put_word n (w :: 'a word) @ rest) = (w, rest)"
proof -
  have "(256::nat) ^ n = 2 ^ LENGTH('a)"
    using power_mult [of "2::nat" 8 n] assms by simp
  moreover have "unat w < 2 ^ LENGTH('a)" by simp
  ultimately show ?thesis
    by (simp add: get_word_def put_word_def le_value_le_bytes)
qed

lemma get_put_words [simp]:
  "get_u16 (put_u16 a @ rest) = (a, rest)"
  "get_u32 (put_u32 b @ rest) = (b, rest)"
  "get_u64 (put_u64 c @ rest) = (c, rest)"
  by (simp_all add: get_put_word)

lemma get_put_words_end [simp]:
  "get_u16 (put_u16 a) = (a, [])"
  "get_u32 (put_u32 b) = (b, [])"
  "get_u64 (put_u64 c) = (c, [])"
  using get_put_words(1) [of a "[]"] get_put_words(2) [of b "[]"] get_put_words(3) [of c "[]"]
  by simp_all

text \<open>Writing a word that was read gives the bytes it was read from.\<close>

lemma le_bytes_le_value: "le_bytes (length bs) (le_value bs) = bs"
  by (induction bs) (simp_all add: unat8_lt mod_mult_self2 div_mult_self2 del: of_nat_add)

lemma le_value_less: "le_value bs < 256 ^ length bs"
proof (induction bs)
  case Nil
  then show ?case by simp
next
  case (Cons b bs)
  have "unat b + 256 * le_value bs < 256 + 256 * le_value bs" by simp
  also have "\<dots> \<le> 256 * 256 ^ length bs" using Cons by simp
  finally show ?case by simp
qed

lemma put_get_word:
  assumes "8 * n = LENGTH('a::len)" "k + n \<le> length bs"
  shows "put_word n (word_of_nat (le_value (take n (drop k bs))) :: 'a word) = take n (drop k bs)"
proof -
  have l: "length (take n (drop k bs)) = n" using assms(2) by simp
  have "(256::nat) ^ n = 2 ^ LENGTH('a)" using power_mult [of "2::nat" 8 n] assms(1) by simp
  then have "unat (word_of_nat (le_value (take n (drop k bs))) :: 'a word) = le_value (take n (drop k bs))"
    using le_value_less [of "take n (drop k bs)"] l by (simp add: unat_of_nat)
  then show ?thesis using le_bytes_le_value [of "take n (drop k bs)"] l by (simp add: put_word_def)
qed

lemma put_get_word0:
  assumes "8 * n = LENGTH('a::len)" "n \<le> length bs"
  shows "put_word n (word_of_nat (le_value (take n bs)) :: 'a word) = take n (drop 0 bs)"
  using put_get_word [of n 0 bs, where 'a = 'a] assms by simp

lemma take_drop_append: "m = n + k \<Longrightarrow> take n (drop k bs) @ drop m bs = drop k bs"
  by (metis append_take_drop_id drop_drop)

text \<open>
  A record format of fixed size: its writer and its reader undo each other. Its clients are the
  tables of such records inside the packets.
\<close>

fun get_table :: "(u8 list \<Rightarrow> 'r \<times> u8 list) \<Rightarrow> nat \<Rightarrow> u8 list \<Rightarrow> 'r list \<times> u8 list" where
  "get_table get 0 bs = ([], bs)"
| "get_table get (Suc n) bs = (let (r, rest) = get bs; (rs, rest') = get_table get n rest in (r # rs, rest'))"

locale record_codec =
  fixes put :: "'r \<Rightarrow> u8 list"
    and get :: "u8 list \<Rightarrow> 'r \<times> u8 list"
    and record_size :: nat
  assumes get_put: "get (put r @ rest) = (r, rest)"
    and length_put: "length (put r) = record_size"
    and put_get: "record_size \<le> length bs \<Longrightarrow> put (fst (get bs)) = take record_size bs \<and> snd (get bs) = drop record_size bs"
begin

lemma get_put_table: "get_table get (length rs) (concat (map put rs) @ rest) = (rs, rest)"
  by (induction rs) (simp_all add: get_put)

lemma length_put_table: "length (concat (map put rs)) = length rs * record_size"
  by (induction rs) (simp_all add: length_put)

lemma put_get_table:
  assumes "n * record_size \<le> length bs" "get_table get n bs = (rs, rest)"
  shows "length rs = n \<and> concat (map put rs) @ rest = bs"
  using assms
proof (induction n arbitrary: bs rs rest)
  case 0
  then show ?case by simp
next
  case (Suc n)
  obtain r b1 where r: "get bs = (r, b1)" by fastforce
  obtain rs1 b2 where t: "get_table get n b1 = (rs1, b2)" by fastforce
  have l: "record_size \<le> length bs" using Suc.prems(1) by simp
  have h: "put r = take record_size bs" "b1 = drop record_size bs" using put_get [OF l] r by simp_all
  have "n * record_size \<le> length b1" using Suc.prems(1) h(2) by simp
  from Suc.IH [OF this t] have "length rs1 = n" "concat (map put rs1) @ b2 = b1" by auto
  then show ?case using Suc.prems(2) r t h by auto
qed

lemma table_inject:
  assumes "concat (map put rs) @ rest = concat (map put rs') @ rest'" "length rs = length rs'"
  shows "rs = rs' \<and> rest = rest'"
  using get_put_table [of rs rest] get_put_table [of rs' rest'] unfolding assms by simp

end

subsection \<open>The interface of a stateful component\<close>

text \<open>
  A component is a start state, a step per operation and an invariant. Its provider proves
  that the start state satisfies the invariant and that every operation keeps it; a client
  gets the invariant after every sequence of operations.
\<close>

locale invariant_machine =
  fixes start :: 's
    and step :: "'s \<Rightarrow> 'e \<Rightarrow> 's"
    and inv :: "'s \<Rightarrow> bool"
  assumes inv_start: "inv start"
    and inv_step: "inv s \<Longrightarrow> inv (step s e)"
begin

lemma inv_run_from: "inv s \<Longrightarrow> inv (foldl step s es)"
  by (induction es arbitrary: s) (auto intro: inv_step)

lemma inv_run: "inv (foldl step start es)"
  by (rule inv_run_from [OF inv_start])

end

text \<open>
  A component that hands out handles adds a lookup and a set of dead handles: handles that
  were released once. The provider proves that no operation revives a dead handle and that
  a dead handle resolves to nothing; the client gets that a released handle is stale for
  ever, whatever is stored later in the same slot.
\<close>

locale handle_space = invariant_machine start step inv
  for start :: 's and step :: "'s \<Rightarrow> 'e \<Rightarrow> 's" and inv :: "'s \<Rightarrow> bool" +
  fixes lookup :: "'s \<Rightarrow> u64 \<Rightarrow> 'v option"
    and dead :: "'s \<Rightarrow> u64 \<Rightarrow> bool"
  assumes dead_step: "inv s \<Longrightarrow> dead s h \<Longrightarrow> dead (step s e) h"
    and dead_lookup: "inv s \<Longrightarrow> dead s h \<Longrightarrow> lookup s h = None"
begin

lemma dead_run: "inv s \<Longrightarrow> dead s h \<Longrightarrow> dead (foldl step s es) h"
  by (induction es arbitrary: s) (auto intro: inv_step dead_step)

lemma stale_forever: "inv s \<Longrightarrow> dead s h \<Longrightarrow> lookup (foldl step s es) h = None"
  by (blast intro: dead_lookup dead_run inv_run_from)

end

end
