(* ===== verification/Handle_Table.thy ===== *)
theory Handle_Table
  imports Saccade_Prelude
begin

text \<open>
  The generation-checked handle table of \<open>src/core/handle_table.hpp\<close>: a fixed array of
  slots, each with a generation that advances when its value is destroyed. A handle packs
  the generation and the slot number; a handle of an older generation is stale. A slot whose
  generation can advance no further is retired instead of being reused.
\<close>

subsection \<open>State\<close>

text \<open>The template parameter \<open>Generation\<close>: an unsigned type of at most four bytes.\<close>

datatype generation_type = Gen_uint8 | Gen_uint16 | Gen_uint32

fun generation_max :: "generation_type \<Rightarrow> u32" where
  "generation_max Gen_uint8 = 0xFF"
| "generation_max Gen_uint16 = 0xFFFF"
| "generation_max Gen_uint32 = 0xFFFFFFFF"

record metadata =
  md_sequence :: u64
  md_generation :: u32
  md_occupied :: bool
  md_retired :: bool

record 'v handle_table =
  ht_storage :: "'v option list"
  ht_metadata :: "metadata list"
  ht_size :: nat
  ht_next_sequence :: u64
  ht_generation_type :: generation_type

definition initial_metadata :: metadata where
  "initial_metadata = \<lparr>md_sequence = 0, md_generation = 1, md_occupied = False, md_retired = False\<rparr>"

text \<open>A table of \<open>Capacity\<close> slots; the capacity is at most \<open>UINT32_MAX\<close>.\<close>

definition empty_table :: "generation_type \<Rightarrow> u32 \<Rightarrow> 'v handle_table" where
  "empty_table w capacity =
     \<lparr>ht_storage = replicate (unat capacity) None,
      ht_metadata = replicate (unat capacity) initial_metadata,
      ht_size = 0, ht_next_sequence = 0, ht_generation_type = w\<rparr>"

subsection \<open>Handles\<close>

definition encode_handle :: "nat \<Rightarrow> u32 \<Rightarrow> u64" where
  "encode_handle index generation = push_bit 32 (ucast generation) OR (word_of_nat index + 1)"

definition decode_handle :: "nat \<Rightarrow> u64 \<Rightarrow> (nat \<times> u32) option" where
  "decode_handle capacity handle =
     (let slot = ucast (handle AND 0xFFFFFFFF) :: u32;
          generation = ucast (drop_bit 32 handle) :: u32
      in if slot = 0 \<or> generation = 0 \<or> unat slot > capacity then None
         else Some (unat (slot - 1), generation))"

subsection \<open>Operations\<close>

definition advance_generation :: "generation_type \<Rightarrow> metadata \<Rightarrow> metadata" where
  "advance_generation w m =
     (if md_generation m = generation_max w then m\<lparr>md_retired := True\<rparr>
      else m\<lparr>md_generation := md_generation m + 1\<rparr>)"

definition next_sequence :: "u64 \<Rightarrow> u64" where
  "next_sequence sequence = (if sequence + 1 = 0 then 1 else sequence + 1)"

definition slot_free :: "metadata \<Rightarrow> bool" where
  "slot_free m \<longleftrightarrow> \<not> (md_retired m \<or> md_occupied m)"

definition emplace :: "bool \<Rightarrow> 'v \<Rightarrow> 'v handle_table \<Rightarrow> saccade_result \<times> 'v handle_table \<times> u64" where
  "emplace out_handle v t =
     (if \<not> out_handle then (SACCADE_ERROR_INVALID_ARGUMENT, t, 0)
      else case first_index slot_free (ht_metadata t) of
        None \<Rightarrow> (SACCADE_ERROR_CAPACITY, t, 0)
      | Some index \<Rightarrow>
          let sequence = next_sequence (ht_next_sequence t);
              m = ht_metadata t ! index
          in (SACCADE_OK,
              t\<lparr>ht_storage := (ht_storage t)[index := Some v],
                ht_metadata := (ht_metadata t)[index := m\<lparr>md_sequence := sequence, md_occupied := True\<rparr>],
                ht_next_sequence := sequence,
                ht_size := ht_size t + 1\<rparr>,
              encode_handle index (md_generation m)))"

definition resolve :: "'v handle_table \<Rightarrow> u64 \<Rightarrow> nat option" where
  "resolve t handle =
     (case decode_handle (length (ht_metadata t)) handle of
        None \<Rightarrow> None
      | Some (index, generation) \<Rightarrow>
          let m = ht_metadata t ! index
          in if \<not> md_occupied m \<or> md_generation m \<noteq> generation then None else Some index)"

definition get :: "'v handle_table \<Rightarrow> u64 \<Rightarrow> 'v option" where
  "get t handle = (case resolve t handle of None \<Rightarrow> None | Some index \<Rightarrow> ht_storage t ! index)"

definition destroy_slot :: "'v handle_table \<Rightarrow> nat \<Rightarrow> 'v handle_table" where
  "destroy_slot t index =
     t\<lparr>ht_storage := (ht_storage t)[index := None],
       ht_metadata := (ht_metadata t)[index :=
         advance_generation (ht_generation_type t)
           ((ht_metadata t ! index)\<lparr>md_occupied := False, md_sequence := 0\<rparr>)]\<rparr>"

definition erase :: "u64 \<Rightarrow> 'v handle_table \<Rightarrow> saccade_result \<times> 'v handle_table" where
  "erase handle t =
     (case resolve t handle of
        None \<Rightarrow> (SACCADE_ERROR_STALE_HANDLE, t)
      | Some index \<Rightarrow> (SACCADE_OK, (destroy_slot t index)\<lparr>ht_size := ht_size t - 1\<rparr>))"

definition occupied_indices :: "'v handle_table \<Rightarrow> nat list" where
  "occupied_indices t = filter (\<lambda>i. md_occupied (ht_metadata t ! i)) [0..<length (ht_metadata t)]"

text \<open>The calls a visitor receives, in slot order.\<close>

definition for_each :: "'v handle_table \<Rightarrow> (u64 \<times> 'v option) list" where
  "for_each t =
     map (\<lambda>i. (encode_handle i (md_generation (ht_metadata t ! i)), ht_storage t ! i)) (occupied_indices t)"

definition clear_order :: "'v handle_table \<Rightarrow> nat list" where
  "clear_order t =
     loop_sort (\<lambda>candidate left. md_sequence (ht_metadata t ! left) < md_sequence (ht_metadata t ! candidate))
       (occupied_indices t)"

text \<open>The calls of \<open>before_destroy\<close>, in order, and the emptied table.\<close>

definition clear_reverse :: "'v handle_table \<Rightarrow> (u64 \<times> 'v option) list \<times> 'v handle_table" where
  "clear_reverse t =
     (map (\<lambda>i. (encode_handle i (md_generation (ht_metadata t ! i)), ht_storage t ! i)) (clear_order t),
      (foldl destroy_slot t (clear_order t))\<lparr>ht_size := 0\<rparr>)"

lemmas [op_defs] = emplace_def resolve_def get_def erase_def clear_reverse_def

subsection \<open>Handles decode to the slot and generation they were made from\<close>

lemma decode_encode_handle:
  assumes "i < capacity" "capacity < 2 ^ 32" "g \<noteq> 0"
  shows "decode_handle capacity (encode_handle i g) = Some (i, g)"
proof -
  let ?w = "word_of_nat i + 1 :: u64"
  have w: "unat ?w = Suc i"
    using assms by (simp add: unat_word_ariths unat_of_nat)
  then have small: "unat ?w < 2 ^ 32" using assms by simp
  have slot: "unat (ucast ?w :: u32) = Suc i"
    using w small take_bit32_small [OF small] by (simp add: unsigned_ucast_eq take_bit_eq_mod)
  then have slot': "(ucast ?w :: u32) \<noteq> 0" by auto
  then have "unat ((ucast ?w :: u32) - 1) = i"
    using slot by (simp add: unat_minus_one)
  then show ?thesis
    unfolding decode_handle_def encode_handle_def pack32_low [OF small] pack32_high [OF small] Let_def
    using assms slot slot' by simp
qed

lemma decode_handle_bounds:
  assumes "decode_handle capacity h = Some (i, g)"
  shows "i < capacity" "g \<noteq> 0"
proof -
  let ?s = "ucast (h AND 0xFFFFFFFF) :: u32"
  have d: "?s \<noteq> 0" "unat ?s \<le> capacity" "i = unat (?s - 1)" "g \<noteq> 0"
    using assms by (simp_all add: decode_handle_def Let_def split: if_splits)
  moreover from d(1) have "unat ?s \<noteq> 0" by (simp add: unat_eq_zero)
  ultimately show "i < capacity" "g \<noteq> 0"
    by (simp_all add: unat_minus_one)
qed

subsection \<open>The invariant\<close>

text \<open>
  A slot holds a value exactly when it is occupied, its generation is never zero, and a
  retired slot is empty; the size counts the occupied slots.
\<close>

definition slot_ok :: "generation_type \<Rightarrow> metadata \<Rightarrow> 'v option \<Rightarrow> bool" where
  "slot_ok w m v \<longleftrightarrow> md_generation m \<noteq> 0 \<and> md_generation m \<le> generation_max w \<and>
     (md_occupied m \<longleftrightarrow> v \<noteq> None) \<and> \<not> (md_occupied m \<and> md_retired m)"


definition slots_inv :: "'v handle_table \<Rightarrow> bool" where
  "slots_inv t \<longleftrightarrow>
     length (ht_metadata t) < 2 ^ 32 \<and>
     list_all2 (slot_ok (ht_generation_type t)) (ht_metadata t) (ht_storage t)"

definition table_inv :: "'v handle_table \<Rightarrow> bool" where
  "table_inv t \<longleftrightarrow> slots_inv t \<and> ht_size t = length (filter md_occupied (ht_metadata t))"

lemmas [inv_defs] = table_inv_def slots_inv_def slot_ok_def

lemma table_inv_empty: "table_inv (empty_table w capacity)"
  using unat32_lt [of capacity]
  by (cases w) (auto simp: inv_defs empty_table_def initial_metadata_def list_all2_conv_all_nth)

lemma slots_inv_update:
  assumes "slots_inv t" "i < length (ht_metadata t)" "slot_ok (ht_generation_type t) m v"
  shows "slots_inv (t\<lparr>ht_storage := (ht_storage t)[i := v], ht_metadata := (ht_metadata t)[i := m]\<rparr>)"
  using assms by (auto simp: slots_inv_def intro: list_all2_update_cong)

lemma slots_inv_more [simp]:
  "slots_inv (t\<lparr>ht_size := n\<rparr>) = slots_inv t"
  "slots_inv (t\<lparr>ht_next_sequence := q\<rparr>) = slots_inv t"
  by (simp_all add: slots_inv_def)

lemma slot_okD:
  assumes "slots_inv t" "i < length (ht_metadata t)"
  shows "slot_ok (ht_generation_type t) (ht_metadata t ! i) (ht_storage t ! i)"
  using assms by (auto simp: slots_inv_def list_all2_conv_all_nth)

lemma advance_generation_ok:
  assumes "slot_ok w m v"
  shows "slot_ok w (advance_generation w (m\<lparr>md_occupied := False, md_sequence := q\<rparr>)) (None :: 'b option)"
proof (cases "md_generation m = generation_max w")
  case True
  with assms show ?thesis by (simp add: slot_ok_def advance_generation_def)
next
  case False
  with assms have lt: "md_generation m < generation_max w"
    by (simp add: slot_ok_def order.not_eq_order_implies_strict)
  have "md_generation m + 1 \<noteq> 0" "md_generation m + 1 \<le> generation_max w"
    using lt by (cases w; unat_arith)+
  with False show ?thesis by (simp add: slot_ok_def advance_generation_def)
qed

lemma destroy_slot_lengths [simp]:
  "length (ht_metadata (destroy_slot t i)) = length (ht_metadata t)"
  "ht_generation_type (destroy_slot t i) = ht_generation_type t"
  by (simp_all add: destroy_slot_def)

lemma slots_inv_destroy:
  "slots_inv t \<Longrightarrow> i < length (ht_metadata t) \<Longrightarrow> slots_inv (destroy_slot t i)"
  unfolding destroy_slot_def by (rule slots_inv_update) (auto intro: advance_generation_ok [OF slot_okD])

lemma resolve_Some:
  assumes "resolve t h = Some i"
  obtains g where "decode_handle (length (ht_metadata t)) h = Some (i, g)"
    "i < length (ht_metadata t)" "md_occupied (ht_metadata t ! i)" "md_generation (ht_metadata t ! i) = g"
  using assms by (auto simp: resolve_def Let_def split: option.splits if_splits dest: decode_handle_bounds(1))

lemma not_occupied_advance [simp]:
  "md_occupied (advance_generation w m) = md_occupied m"
  by (simp add: advance_generation_def)

lemma emplace_OK:
  assumes "emplace out v t = (SACCADE_OK, t', h)"
  obtains i where "i < length (ht_metadata t)" "\<not> md_retired (ht_metadata t ! i)"
    "\<not> md_occupied (ht_metadata t ! i)"
    "h = encode_handle i (md_generation (ht_metadata t ! i))"
    "t' = t\<lparr>ht_storage := (ht_storage t)[i := Some v],
       ht_metadata := (ht_metadata t)[i := (ht_metadata t ! i)
         \<lparr>md_sequence := next_sequence (ht_next_sequence t), md_occupied := True\<rparr>],
       ht_next_sequence := next_sequence (ht_next_sequence t), ht_size := ht_size t + 1\<rparr>"
proof -
  from assms obtain i where
    i: "first_index slot_free (ht_metadata t) = Some i"
    by (auto simp: emplace_def Let_def split: if_splits option.splits)
  show thesis
    by (rule that [of i]) (use assms i first_index_Some [OF i] in
        \<open>auto simp: emplace_def slot_free_def Let_def split: if_splits\<close>)
qed

lemma emplace_fail: "fst (emplace out v t) \<noteq> SACCADE_OK \<Longrightarrow> snd (emplace out v t) = (t, 0)"
  by (auto simp: emplace_def Let_def split: if_splits option.splits)

lemma table_inv_emplace: "table_inv t \<Longrightarrow> table_inv (fst (snd (emplace out v t)))"
proof (cases "fst (emplace out v t) = SACCADE_OK")
  case False
  then show "table_inv t \<Longrightarrow> ?thesis" using emplace_fail [of out v t] by simp
next
  case True
  assume inv: "table_inv t"
  obtain t' h where e: "emplace out v t = (SACCADE_OK, t', h)"
    using True by (metis prod.collapse)
  then obtain i where i: "i < length (ht_metadata t)" "\<not> md_retired (ht_metadata t ! i)"
      "\<not> md_occupied (ht_metadata t ! i)"
    and t': "t' = t\<lparr>ht_storage := (ht_storage t)[i := Some v],
       ht_metadata := (ht_metadata t)[i := (ht_metadata t ! i)
         \<lparr>md_sequence := next_sequence (ht_next_sequence t), md_occupied := True\<rparr>],
       ht_next_sequence := next_sequence (ht_next_sequence t), ht_size := ht_size t + 1\<rparr>"
    by (rule emplace_OK)
  let ?m = "(ht_metadata t ! i)\<lparr>md_sequence := next_sequence (ht_next_sequence t), md_occupied := True\<rparr>"
  have "slot_ok (ht_generation_type t) ?m (Some v)"
    using i inv slot_okD [of t i] by (simp add: table_inv_def slot_ok_def)
  with i inv have "slots_inv (t\<lparr>ht_storage := (ht_storage t)[i := Some v], ht_metadata := (ht_metadata t)[i := ?m]\<rparr>)"
    by (intro slots_inv_update) (simp_all add: table_inv_def)
  then show ?thesis
    using e t' inv i length_filter_update [OF i(1), of md_occupied ?m]
    by (simp add: table_inv_def slots_inv_def)
qed

lemma table_inv_erase: "table_inv t \<Longrightarrow> table_inv (snd (erase h t))"
proof (cases "resolve t h")
  case None
  then show "table_inv t \<Longrightarrow> ?thesis" by (simp add: erase_def)
next
  case (Some i)
  assume inv: "table_inv t"
  from Some obtain i: "i < length (ht_metadata t)" "md_occupied (ht_metadata t ! i)" by (rule resolve_Some)
  have "slots_inv (destroy_slot t i)"
    using inv i by (intro slots_inv_destroy) (simp_all add: table_inv_def)
  then show ?thesis
    using Some i inv length_filter_update [OF i(1), of md_occupied "advance_generation (ht_generation_type t) ((ht_metadata t ! i)\<lparr>md_occupied := False, md_sequence := 0\<rparr>)"]
    by (simp add: erase_def table_inv_def destroy_slot_def)
qed

lemma destroy_all:
  assumes "slots_inv t" "set is \<subseteq> {..<length (ht_metadata t)}"
  shows "slots_inv (foldl destroy_slot t is) \<and>
    length (ht_metadata (foldl destroy_slot t is)) = length (ht_metadata t) \<and>
    (\<forall>j < length (ht_metadata t). md_occupied (ht_metadata (foldl destroy_slot t is) ! j) \<longleftrightarrow>
       md_occupied (ht_metadata t ! j) \<and> j \<notin> set is)"
  using assms
proof (induction "is" arbitrary: t)
  case Nil
  then show ?case by simp
next
  case (Cons i "is")
  then show ?case
    using Cons.IH [of "destroy_slot t i"] slots_inv_destroy [of t i]
    by (auto simp: destroy_slot_def nth_list_update)
qed

lemma set_clear_order: "set (clear_order t) = {i. i < length (ht_metadata t) \<and> md_occupied (ht_metadata t ! i)}"
  by (auto simp: clear_order_def occupied_indices_def)

lemma table_inv_clear: "table_inv t \<Longrightarrow> table_inv (snd (clear_reverse t))"
proof -
  assume inv: "table_inv t"
  let ?t = "foldl destroy_slot t (clear_order t)"
  have sub: "set (clear_order t) \<subseteq> {..<length (ht_metadata t)}" by (auto simp: set_clear_order)
  have all: "slots_inv ?t" "\<forall>j < length (ht_metadata ?t). \<not> md_occupied (ht_metadata ?t ! j)"
    using destroy_all [OF _ sub] inv by (auto simp: table_inv_def set_clear_order)
  then have "filter md_occupied (ht_metadata ?t) = []"
    by (auto simp: filter_empty_conv in_set_conv_nth)
  with all(1) show ?thesis by (simp add: clear_reverse_def table_inv_def)
qed


subsection \<open>Released handles stay dead\<close>

text \<open>
  A handle is dead when its slot has moved on to a later generation, or is retired in that
  generation, or when it never was a handle of this table.
\<close>

definition dead_handle :: "'v handle_table \<Rightarrow> u64 \<Rightarrow> bool" where
  "dead_handle t h =
     (case decode_handle (length (ht_metadata t)) h of
        None \<Rightarrow> True
      | Some (i, g) \<Rightarrow>
          g < md_generation (ht_metadata t ! i) \<or>
          md_generation (ht_metadata t ! i) = g \<and> md_retired (ht_metadata t ! i))"

text \<open>The life of a slot: its generation never decreases, and retirement is final.\<close>

definition slot_later :: "metadata \<Rightarrow> metadata \<Rightarrow> bool" where
  "slot_later m m' \<longleftrightarrow> md_generation m < md_generation m' \<and> \<not> md_retired m \<or>
     md_generation m = md_generation m' \<and> (md_retired m \<longrightarrow> md_retired m')"

lemma slot_later_refl [simp]: "slot_later m m"
  by (simp add: slot_later_def)

lemma slot_later_trans: "slot_later a b \<Longrightarrow> slot_later b c \<Longrightarrow> slot_later a c"
  by (auto simp: slot_later_def)

definition table_later :: "'v handle_table \<Rightarrow> 'v handle_table \<Rightarrow> bool" where
  "table_later t t' \<longleftrightarrow> list_all2 slot_later (ht_metadata t) (ht_metadata t')"

lemma table_later_refl [simp]: "table_later t t"
  by (simp add: table_later_def list_all2_same)

lemma table_later_trans: "table_later a b \<Longrightarrow> table_later b c \<Longrightarrow> table_later a c"
  unfolding table_later_def list_all2_conv_all_nth by (metis slot_later_trans)

lemma table_later_update:
  assumes "slot_later (ht_metadata t ! i) m" "ht_metadata t' = (ht_metadata t)[i := m]"
  shows "table_later t t'"
proof (cases "i < length (ht_metadata t)")
  case True
  with assms show ?thesis
    by (auto simp: table_later_def list_all2_conv_all_nth nth_list_update)
next
  case False
  with assms(2) show ?thesis
    by (simp add: table_later_def list_update_beyond list_all2_same)
qed

lemma dead_later:
  assumes "table_later t t'" "dead_handle t h"
  shows "dead_handle t' h"
proof -
  have len: "length (ht_metadata t') = length (ht_metadata t)"
    using assms(1) by (simp add: table_later_def list_all2_lengthD)
  have later: "i < length (ht_metadata t) \<Longrightarrow> slot_later (ht_metadata t ! i) (ht_metadata t' ! i)" for i
    using assms(1) by (simp add: table_later_def list_all2_conv_all_nth)
  show ?thesis
    using assms(2) later
    by (force simp: dead_handle_def len slot_later_def split: option.splits dest: decode_handle_bounds(1))
qed

lemma dead_get: "table_inv t \<Longrightarrow> dead_handle t h \<Longrightarrow> get t h = None"
  by (auto simp: get_def resolve_def dead_handle_def Let_def table_inv_def slot_ok_def
      split: option.splits dest: decode_handle_bounds(1) slot_okD)

lemma destroy_later:
  assumes "slots_inv t" "i < length (ht_metadata t)" "md_occupied (ht_metadata t ! i)"
  shows "slot_later (ht_metadata t ! i) (ht_metadata (destroy_slot t i) ! i)"
    "md_generation (ht_metadata t ! i) < md_generation (ht_metadata (destroy_slot t i) ! i) \<or>
     md_generation (ht_metadata t ! i) = md_generation (ht_metadata (destroy_slot t i) ! i) \<and>
     md_retired (ht_metadata (destroy_slot t i) ! i)"
proof -
  let ?m = "ht_metadata t ! i" and ?w = "ht_generation_type t"
  have ok: "md_generation ?m \<le> generation_max ?w" "\<not> md_retired ?m"
    using slot_okD [OF assms(1,2)] assms(3) by (auto simp: slot_ok_def)
  have lt: "md_generation ?m < md_generation ?m + 1" if "md_generation ?m \<noteq> generation_max ?w"
  proof -
    have "md_generation ?m < generation_max ?w"
      using ok(1) that by (simp add: order.not_eq_order_implies_strict)
    then show ?thesis by (cases ?w; unat_arith)
  qed
  show "slot_later ?m (ht_metadata (destroy_slot t i) ! i)"
    using assms ok lt by (simp add: destroy_slot_def slot_later_def advance_generation_def)
  show "md_generation ?m < md_generation (ht_metadata (destroy_slot t i) ! i) \<or>
     md_generation ?m = md_generation (ht_metadata (destroy_slot t i) ! i) \<and>
     md_retired (ht_metadata (destroy_slot t i) ! i)"
    using assms ok lt by (simp add: destroy_slot_def advance_generation_def)
qed

lemma emplace_later: "table_later t (fst (snd (emplace out v t)))"
proof (cases "fst (emplace out v t) = SACCADE_OK")
  case False
  then show ?thesis using emplace_fail [of out v t] by simp
next
  case True
  then obtain t' h where e: "emplace out v t = (SACCADE_OK, t', h)"
    by (metis prod.collapse)
  then obtain i where t': "ht_metadata t' = (ht_metadata t)[i := (ht_metadata t ! i)
         \<lparr>md_sequence := next_sequence (ht_next_sequence t), md_occupied := True\<rparr>]"
    by (rule emplace_OK) auto
  have "table_later t t'"
    by (rule table_later_update [OF _ t']) (simp add: slot_later_def)
  then show ?thesis by (simp add: e)
qed

lemma destroy_slot_metadata:
  "ht_metadata (destroy_slot t i) = (ht_metadata t)[i := ht_metadata (destroy_slot t i) ! i]"
  by (cases "i < length (ht_metadata t)") (simp_all add: destroy_slot_def list_update_beyond)

lemma destroy_slot_later:
  assumes "slots_inv t" "i < length (ht_metadata t)" "md_occupied (ht_metadata t ! i)"
  shows "table_later t (destroy_slot t i)"
  by (rule table_later_update [OF destroy_later(1) [OF assms] destroy_slot_metadata])

lemma table_later_size [simp]: "table_later t (t'\<lparr>ht_size := n\<rparr>) = table_later t t'"
  by (simp add: table_later_def)

lemma erase_later: "table_inv t \<Longrightarrow> table_later t (snd (erase h t))"
  by (cases "resolve t h") (auto simp: erase_def table_inv_def elim!: resolve_Some intro: destroy_slot_later)

lemma destroy_all_later:
  assumes "slots_inv t" "distinct is" "\<forall>i \<in> set is. i < length (ht_metadata t) \<and> md_occupied (ht_metadata t ! i)"
  shows "table_later t (foldl destroy_slot t is)"
  using assms
proof (induction "is" arbitrary: t)
  case Nil
  then show ?case by simp
next
  case (Cons i "is")
  have "table_later t (destroy_slot t i)"
    using Cons.prems by (intro destroy_slot_later) auto
  moreover have "table_later (destroy_slot t i) (foldl destroy_slot (destroy_slot t i) is)"
    using Cons.prems
    by (intro Cons.IH slots_inv_destroy) (auto simp: destroy_slot_def nth_list_update)
  ultimately show ?case by (auto intro: table_later_trans)
qed

lemma distinct_clear_order: "distinct (clear_order t)"
proof -
  have "mset (clear_order t) = mset (occupied_indices t)" by (simp add: clear_order_def)
  moreover have "distinct (occupied_indices t)" by (simp add: occupied_indices_def)
  ultimately show ?thesis by (metis mset_eq_imp_distinct_iff)
qed

lemma clear_later: "table_inv t \<Longrightarrow> table_later t (snd (clear_reverse t))"
  using destroy_all_later [of t "clear_order t"] distinct_clear_order [of t]
  by (simp add: clear_reverse_def table_inv_def set_clear_order)

text \<open>Erasing a live handle kills it.\<close>

lemma erase_kills:
  assumes "table_inv t" "fst (erase h t) = SACCADE_OK"
  shows "dead_handle (snd (erase h t)) h"
proof -
  obtain i where r: "resolve t h = Some i" using assms(2) by (auto simp: erase_def split: option.splits)
  then obtain g where g: "decode_handle (length (ht_metadata t)) h = Some (i, g)"
    and i: "i < length (ht_metadata t)" "md_occupied (ht_metadata t ! i)" "md_generation (ht_metadata t ! i) = g"
    by (rule resolve_Some)
  show ?thesis
    using destroy_later(2) [of t i] assms(1) i g r
    by (auto simp: erase_def dead_handle_def table_inv_def)
qed

lemma get_clear:
  assumes "table_inv t"
  shows "get (snd (clear_reverse t)) = Map.empty"
proof -
  let ?t = "foldl destroy_slot t (clear_order t)"
  have sub: "set (clear_order t) \<subseteq> {..<length (ht_metadata t)}" by (auto simp: set_clear_order)
  have "\<forall>i < length (ht_metadata t). \<not> md_occupied (ht_metadata ?t ! i)"
    "length (ht_metadata ?t) = length (ht_metadata t)"
    using destroy_all [OF _ sub] assms by (auto simp: table_inv_def set_clear_order)
  then have "get (snd (clear_reverse t)) h = None" for h
    by (auto simp: clear_reverse_def get_def resolve_def Let_def split: option.splits
        dest: decode_handle_bounds(1))
  then show ?thesis by blast
qed

subsection \<open>The table as a handle space\<close>

datatype 'v table_op = Emplace 'v | Erase u64 | Clear_reverse

fun table_step :: "'v handle_table \<Rightarrow> 'v table_op \<Rightarrow> 'v handle_table" where
  "table_step t (Emplace v) = fst (snd (emplace True v t))"
| "table_step t (Erase h) = snd (erase h t)"
| "table_step t Clear_reverse = snd (clear_reverse t)"

lemma table_step_inv: "table_inv t \<Longrightarrow> table_inv (table_step t e)"
  by (cases e) (auto intro: table_inv_emplace table_inv_erase table_inv_clear)

lemma table_step_later: "table_inv t \<Longrightarrow> table_later t (table_step t e)"
  by (cases e) (auto intro: emplace_later erase_later clear_later)

interpretation table: handle_space "empty_table w capacity" table_step table_inv get dead_handle
  for w capacity
  by unfold_locales
    (auto intro: table_inv_empty table_step_inv dead_later table_step_later dead_get)

subsection \<open>Functional behaviour\<close>

lemma get_emplace:
  assumes "table_inv t" "emplace True v t = (SACCADE_OK, t', h)"
  shows "get t' h = Some v"
proof -
  obtain i where i: "i < length (ht_metadata t)"
    and h: "h = encode_handle i (md_generation (ht_metadata t ! i))"
    and t': "ht_storage t' = (ht_storage t)[i := Some v]" "ht_metadata t' = (ht_metadata t)[i := (ht_metadata t ! i)
         \<lparr>md_sequence := next_sequence (ht_next_sequence t), md_occupied := True\<rparr>]"
    using assms(2) by (rule emplace_OK) auto
  have "md_generation (ht_metadata t ! i) \<noteq> 0" "length (ht_metadata t) < 2 ^ 32"
    "length (ht_storage t) = length (ht_metadata t)"
    using assms(1) i slot_okD [of t i]
    by (auto simp: table_inv_def slots_inv_def slot_ok_def list_all2_lengthD)
  with i h t' show ?thesis
    by (simp add: get_def resolve_def decode_encode_handle)
qed

lemma encode_decode_handle:
  assumes "decode_handle capacity h = Some (i, g)"
  shows "encode_handle i g = h"
proof -
  let ?s = "ucast (h AND 0xFFFFFFFF) :: u32"
  have d: "?s \<noteq> 0" "i = unat (?s - 1)" "g = ucast (drop_bit 32 h)"
    using assms by (simp_all add: decode_handle_def Let_def split: if_splits)
  have m: "(0xFFFFFFFF :: u64) = mask 32" by (simp add: mask_eq_exp_minus_1)
  have "unat ?s \<noteq> 0" using d(1) by (simp add: unat_eq_zero)
  then have "Suc i = unat ?s" using d(1,2) by (simp add: unat_minus_one)
  then have "word_of_nat (Suc i) = (ucast ?s :: u64)" by (simp only: of_nat_unat)
  then have "word_of_nat i + 1 = (ucast ?s :: u64)" by (simp add: add.commute)
  moreover have "push_bit 32 (ucast g) OR (ucast ?s :: u64) = h"
    unfolding d(3) m by (rule bit_word_eqI) (auto simp: bit_simps)
  ultimately show ?thesis by (simp add: encode_handle_def)
qed

lemma get_slot:
  assumes "table_inv t" "i < length (ht_metadata t)"
  shows "get t h = (case decode_handle (length (ht_metadata t)) h of None \<Rightarrow> None
    | Some (j, g) \<Rightarrow> if md_generation (ht_metadata t ! j) = g then ht_storage t ! j else None)"
  using assms(1) slot_okD [of t]
  by (force simp: get_def resolve_def Let_def table_inv_def slot_ok_def split: option.splits dest: decode_handle_bounds(1))

text \<open>
  The abstract view of a table is the finite map from live handles to values: a successful
  \<open>emplace\<close> is an update at a fresh handle and a successful \<open>erase\<close> is a deletion.
\<close>

lemma get_emplace_map:
  assumes "table_inv t" "emplace True v t = (SACCADE_OK, t', h)"
  shows "get t' = (get t)(h \<mapsto> v) \<and> get t h = None"
proof -
  obtain i where i: "i < length (ht_metadata t)" "\<not> md_occupied (ht_metadata t ! i)"
    and h: "h = encode_handle i (md_generation (ht_metadata t ! i))"
    and t': "ht_storage t' = (ht_storage t)[i := Some v]" "ht_metadata t' = (ht_metadata t)[i := (ht_metadata t ! i)
         \<lparr>md_sequence := next_sequence (ht_next_sequence t), md_occupied := True\<rparr>]"
    using assms(2) by (rule emplace_OK) auto
  have ok: "md_generation (ht_metadata t ! i) \<noteq> 0" "length (ht_metadata t) < 2 ^ 32"
    "length (ht_storage t) = length (ht_metadata t)" "ht_storage t ! i = None"
    using assms(1) i slot_okD [of t i]
    by (auto simp: table_inv_def slots_inv_def slot_ok_def list_all2_lengthD)
  have dec: "decode_handle (length (ht_metadata t)) h = Some (i, md_generation (ht_metadata t ! i))"
    unfolding h using i ok by (intro decode_encode_handle) auto
  have inv': "table_inv t'" using table_inv_emplace [OF assms(1), of True v] assms(2) by simp
  have st: "length (ht_metadata t') = length (ht_metadata t)"
    "\<And>j. j \<noteq> i \<Longrightarrow> ht_metadata t' ! j = ht_metadata t ! j"
    "md_generation (ht_metadata t' ! i) = md_generation (ht_metadata t ! i)"
    using i by (simp_all add: t')
  have "get t' h' = ((get t)(h \<mapsto> v)) h'" for h'
  proof (cases "decode_handle (length (ht_metadata t)) h'")
    case None
    then show ?thesis using dec by (auto simp: get_def resolve_def st)
  next
    case (Some p)
    then obtain j g' where p: "decode_handle (length (ht_metadata t)) h' = Some (j, g')" by (cases p) auto
    have eq: "h' = h" if "j = i" "g' = md_generation (ht_metadata t ! i)"
      using encode_decode_handle [OF p] h that by simp
    have "get t' h' = (if md_generation (ht_metadata t' ! j) = g' then ht_storage t' ! j else None)"
      using get_slot [OF inv', of i h'] i p st by simp
    moreover have "get t h' = (if md_generation (ht_metadata t ! j) = g' then ht_storage t ! j else None)"
      using get_slot [OF assms(1) i(1), of h'] p by simp
    ultimately show ?thesis
      using p i ok dec eq st t' by (cases "j = i") auto
  qed
  moreover have "get t h = None" using dec i by (simp add: get_def resolve_def)
  ultimately show ?thesis by blast
qed

lemma get_erase_map:
  assumes "table_inv t" "erase h t = (SACCADE_OK, t')"
  shows "get t' = (get t)(h := None) \<and> get t h \<noteq> None"
proof -
  obtain i where r: "resolve t h = Some i" and t': "t' = (destroy_slot t i)\<lparr>ht_size := ht_size t - 1\<rparr>"
    using assms(2) by (auto simp: erase_def split: option.splits)
  from r obtain g where dec: "decode_handle (length (ht_metadata t)) h = Some (i, g)"
    and i: "i < length (ht_metadata t)" "md_occupied (ht_metadata t ! i)" "md_generation (ht_metadata t ! i) = g"
    by (rule resolve_Some)
  have ok: "ht_storage t ! i \<noteq> None" "length (ht_storage t) = length (ht_metadata t)"
    using assms(1) i slot_okD [of t i]
    by (auto simp: table_inv_def slots_inv_def slot_ok_def list_all2_lengthD)
  have inv': "table_inv t'" using table_inv_erase [OF assms(1), of h] assms(2) by simp
  have st: "ht_storage t' = (ht_storage t)[i := None]" "length (ht_metadata t') = length (ht_metadata t)"
    "\<And>j. j \<noteq> i \<Longrightarrow> ht_metadata t' ! j = ht_metadata t ! j"
    by (simp_all add: t' destroy_slot_def)
  have "get t' h' = ((get t)(h := None)) h'" for h'
  proof (cases "decode_handle (length (ht_metadata t)) h'")
    case None
    then show ?thesis using dec by (auto simp: get_def resolve_def st)
  next
    case (Some p)
    then obtain j g' where p: "decode_handle (length (ht_metadata t)) h' = Some (j, g')" by (cases p) auto
    have eq: "h' = h" if "j = i" "g' = g"
      using encode_decode_handle [OF p] encode_decode_handle [OF dec] that by simp
    show ?thesis
      using p i ok dec st eq inv' get_slot [OF inv', of i h'] get_slot [OF assms(1) i(1), of h']
      by (auto simp: nth_list_update)
  qed
  moreover have "get t h \<noteq> None" using r ok by (auto simp: get_def)
  ultimately show ?thesis by blast
qed

lemma sorted_clear_order:
  "sorted_wrt (\<lambda>i j. md_sequence (ht_metadata t ! j) \<le> md_sequence (ht_metadata t ! i)) (clear_order t)"
proof -
  have "sorted_wrt (\<lambda>i j. - uint (md_sequence (ht_metadata t ! i)) \<le> - uint (md_sequence (ht_metadata t ! j))) (clear_order t)"
    unfolding clear_order_def by (rule sorted_loop_sort) (simp add: word_less_def)
  then show ?thesis by (simp add: word_le_def)
qed

lemma mset_clear_calls: "mset (fst (clear_reverse t)) = mset (for_each t)"
  by (simp add: clear_reverse_def for_each_def clear_order_def)

subsection \<open>Properties\<close>

text \<open>C19. A handle that was erased once never resolves again: whatever is stored, erased or
  cleared afterwards, in whatever order and in the same slot, looking it up gives nothing
  (no reuse of a handle value for a later object).\<close>

theorem erased_handle_stale_forever:
  assumes "fst (erase h (foldl table_step (empty_table w c) before)) = SACCADE_OK"
  shows "get (foldl table_step (snd (erase h (foldl table_step (empty_table w c) before))) after) h = None"
  by (intro table.stale_forever table_inv_erase table.inv_run erase_kills assms)

theorem erased_handle_stale_forever_witness:
  "fst (erase 0x100000001 (foldl table_step (empty_table Gen_uint8 1) [Emplace (7::nat)])) = SACCADE_OK \<and>
   get (foldl table_step (snd (erase 0x100000001 (foldl table_step (empty_table Gen_uint8 1) [Emplace (7::nat)])))
     [Emplace 8]) 0x100000001 = None"
proof -
  have h: "fst (erase 0x100000001 (foldl table_step (empty_table Gen_uint8 1) [Emplace (7::nat)])) = SACCADE_OK"
    by code_simp
  show ?thesis using h erased_handle_stale_forever [OF h, of "[Emplace 8]"] by blast
qed

text \<open>C28. In every reachable state the table implements a finite map from handles to values:
  a successful \<open>emplace\<close> returns a handle that resolved to nothing and adds exactly that
  binding, a successful \<open>erase\<close> removes exactly the binding it names, and a failing call
  changes nothing.\<close>

theorem table_refines_map:
  "let t = foldl table_step (empty_table w c) ops in
     (case emplace True v t of (r, t', h) \<Rightarrow>
        if r = SACCADE_OK then get t h = None \<and> get t' = (get t)(h \<mapsto> v) else t' = t) \<and>
     (case erase h t of (r, t') \<Rightarrow>
        if r = SACCADE_OK then get t h \<noteq> None \<and> get t' = (get t)(h := None) else t' = t)"
proof -
  let ?t = "foldl table_step (empty_table w c) ops"
  have inv: "table_inv ?t" by (rule table.inv_run)
  have "case emplace True v ?t of (r, t', h) \<Rightarrow>
      if r = SACCADE_OK then get ?t h = None \<and> get t' = (get ?t)(h \<mapsto> v) else t' = ?t"
    using get_emplace_map [OF inv] emplace_fail [of True v ?t] by (auto split: prod.splits)
  moreover have "case erase h ?t of (r, t') \<Rightarrow>
      if r = SACCADE_OK then get ?t h \<noteq> None \<and> get t' = (get ?t)(h := None) else t' = ?t"
    using get_erase_map [OF inv, of h] by (auto simp: erase_def split: prod.splits option.splits)
  ultimately show ?thesis by (simp add: Let_def)
qed

text \<open>Clearing visits every live object exactly once, the most recently created first,
  and afterwards no handle resolves.\<close>

theorem clear_reverse_order:
  "let t = foldl table_step (empty_table w c) ops in
     mset (fst (clear_reverse t)) = mset (for_each t) \<and>
     sorted_wrt (\<lambda>i j. md_sequence (ht_metadata t ! j) \<le> md_sequence (ht_metadata t ! i)) (clear_order t) \<and>
     get (snd (clear_reverse t)) = Map.empty"
  by (simp only: Let_def mset_clear_calls sorted_clear_order get_clear [OF table.inv_run] simp_thms)

end
