(* ===== verification/Frame_Lease.thy ===== *)
theory Frame_Lease
  imports Handle_Table
begin

text \<open>
  Leased frames: the validation of host frames (\<open>src/core/frame_validation.hpp\<close>) and the
  pool of leases (\<open>src/core/frame_lease.hpp\<close>), a handle table whose values are shared by
  up to three owners. A lease is destroyed, and its native resources released, when its last
  owner leaves. Pool handles carry the domain of the pool, so that a handle of one runtime is
  rejected by another.
\<close>

subsection \<open>Host frames\<close>

record host_frame_desc =
  hf_data :: u64
  hf_data_size :: u64
  hf_width :: u32
  hf_height :: u32
  hf_row_stride_bytes :: u32
  hf_pixel_format :: u32
  hf_frame_id :: u64
  hf_transform_epoch :: u64

definition host_frame_bytes_per_pixel :: "u32 \<Rightarrow> u64" where
  "host_frame_bytes_per_pixel pixel_format =
     (if pixel_format = 1 \<or> pixel_format = 2 \<or> pixel_format = 4 then 4
      else if pixel_format = 8 then 1
      else if pixel_format = 16 then 6
      else 0)"

definition valid_host_frame :: "host_frame_desc \<Rightarrow> bool" where
  "valid_host_frame desc =
     (if hf_data desc = 0 \<or> hf_width desc = 0 \<or> hf_height desc = 0 then False
      else let bytes_per_pixel = host_frame_bytes_per_pixel (hf_pixel_format desc);
               width = ucast (hf_width desc) :: u64
      in if bytes_per_pixel = 0 \<or> width > uint64_max div bytes_per_pixel then False
      else let row_bytes = width * bytes_per_pixel;
               row_stride = ucast (hf_row_stride_bytes desc) :: u64
      in if row_stride < row_bytes then False
      else let rows_before_last = ucast (hf_height desc - 1) :: u64
      in if rows_before_last > (uint64_max - row_bytes) div row_stride then False
      else hf_data_size desc \<ge> rows_before_last * row_stride + row_bytes)"

subsection \<open>Leases\<close>

text \<open>Pointers are addresses, 0 is null; a release callback is present or not.\<close>

datatype lease_owner = Owner_caller | Owner_mailbox | Owner_worker | Owner_other u8

datatype frame_storage = Storage_host | Storage_iosurface | Storage_win32_capture

record native_frame_resource =
  nf_resource :: u64
  nf_release :: bool
  nf_ready_fence :: u64
  nf_release_ready_fence :: bool
  nf_ready_value :: u64
  nf_native_id :: u64
  nf_plane_index :: u32
  nf_pixel_format :: u32
  nf_width :: u32
  nf_height :: u32
  nf_frame_id :: u64
  nf_transform_epoch :: u64
  nf_storage :: frame_storage

record frame_lease =
  fl_data :: u64
  fl_byte_size :: u64
  fl_resource :: u64
  fl_release :: bool
  fl_ready_fence :: u64
  fl_release_ready_fence :: bool
  fl_ready_value :: u64
  fl_native_id :: u64
  fl_width :: u32
  fl_height :: u32
  fl_row_stride_bytes :: u32
  fl_pixel_format :: u32
  fl_frame_id :: u64
  fl_transform_epoch :: u64
  fl_plane_index :: u32
  fl_storage :: frame_storage
  fl_owners :: u8

fun owner_bit :: "lease_owner \<Rightarrow> u8" where
  "owner_bit Owner_caller = 1"
| "owner_bit Owner_mailbox = 2"
| "owner_bit Owner_worker = 4"
| "owner_bit (Owner_other b) = b"

fun valid_owner :: "lease_owner \<Rightarrow> bool" where
  "valid_owner (Owner_other b) = False"
| "valid_owner _ = True"

definition host_lease :: "host_frame_desc \<Rightarrow> frame_lease" where
  "host_lease desc =
     \<lparr>fl_data = hf_data desc, fl_byte_size = hf_data_size desc, fl_resource = 0, fl_release = False,
      fl_ready_fence = 0, fl_release_ready_fence = False, fl_ready_value = 0, fl_native_id = 0,
      fl_width = hf_width desc, fl_height = hf_height desc,
      fl_row_stride_bytes = hf_row_stride_bytes desc, fl_pixel_format = hf_pixel_format desc,
      fl_frame_id = hf_frame_id desc, fl_transform_epoch = hf_transform_epoch desc,
      fl_plane_index = 0, fl_storage = Storage_host, fl_owners = owner_bit Owner_caller\<rparr>"

definition native_lease :: "native_frame_resource \<Rightarrow> frame_lease" where
  "native_lease desc =
     \<lparr>fl_data = 0, fl_byte_size = 0, fl_resource = nf_resource desc, fl_release = nf_release desc,
      fl_ready_fence = nf_ready_fence desc, fl_release_ready_fence = nf_release_ready_fence desc,
      fl_ready_value = nf_ready_value desc, fl_native_id = nf_native_id desc,
      fl_width = nf_width desc, fl_height = nf_height desc,
      fl_row_stride_bytes = 0, fl_pixel_format = nf_pixel_format desc,
      fl_frame_id = nf_frame_id desc, fl_transform_epoch = nf_transform_epoch desc,
      fl_plane_index = nf_plane_index desc, fl_storage = nf_storage desc,
      fl_owners = owner_bit Owner_caller\<rparr>"

text \<open>The addresses the destructor hands to the release callbacks.\<close>

definition lease_destructor :: "frame_lease \<Rightarrow> u64 list" where
  "lease_destructor l =
     (if fl_resource l \<noteq> 0 \<and> fl_release l then [fl_resource l] else []) @
     (if fl_ready_fence l \<noteq> 0 \<and> fl_release_ready_fence l then [fl_ready_fence l] else [])"

definition has_owner :: "frame_lease \<Rightarrow> lease_owner \<Rightarrow> bool" where
  "has_owner l owner \<longleftrightarrow> fl_owners l AND owner_bit owner \<noteq> 0"

definition lease_add_owner :: "lease_owner \<Rightarrow> frame_lease \<Rightarrow> frame_lease option" where
  "lease_add_owner owner l =
     (let b = owner_bit owner
      in if fl_owners l AND b \<noteq> 0 then None else Some (l\<lparr>fl_owners := fl_owners l OR b\<rparr>))"

definition lease_remove_owner :: "lease_owner \<Rightarrow> frame_lease \<Rightarrow> frame_lease option" where
  "lease_remove_owner owner l =
     (let b = owner_bit owner
      in if fl_owners l AND b = 0 then None else Some (l\<lparr>fl_owners := fl_owners l AND NOT b\<rparr>))"

subsection \<open>The pool\<close>

record lease_pool =
  lp_leases :: "frame_lease handle_table"
  lp_domain :: u32

definition max_domain :: u32 where "max_domain = 0x00FFFFFF"

definition new_pool :: "u32 \<Rightarrow> u8 \<Rightarrow> lease_pool" where
  "new_pool domain capacity = \<lparr>lp_leases = empty_table Gen_uint32 (ucast capacity), lp_domain = domain\<rparr>"

definition encode_frame :: "u32 \<Rightarrow> u64 \<Rightarrow> u64" where
  "encode_frame domain local_frame =
     (let slot = local_frame AND 0xFFFFFFFF;
          generation = drop_bit 32 local_frame
      in (push_bit 40 (ucast domain) OR push_bit 8 generation) OR slot)"

definition decode_frame :: "u32 \<Rightarrow> u64 \<Rightarrow> u64" where
  "decode_frame pool_domain frame =
     (let domain = ucast (drop_bit 40 frame) :: u32
      in if domain = 0 \<or> domain \<noteq> pool_domain then 0
      else let slot = frame AND 0xFF;
               generation = drop_bit 8 frame AND 0xFFFFFFFF
      in if slot = 0 \<or> generation = 0 then 0
      else push_bit 32 generation OR slot)"

definition pool_emplace :: "lease_pool \<Rightarrow> frame_lease \<Rightarrow> saccade_result \<times> lease_pool \<times> u64" where
  "pool_emplace p l =
     (case emplace True l (lp_leases p) of
        (result, leases, local_frame) \<Rightarrow>
          (result, p\<lparr>lp_leases := leases\<rparr>,
           if result = SACCADE_OK then encode_frame (lp_domain p) local_frame else 0))"

definition import_host :: "bool \<Rightarrow> host_frame_desc \<Rightarrow> lease_pool \<Rightarrow> saccade_result \<times> lease_pool \<times> u64" where
  "import_host out_frame desc p =
     (if \<not> out_frame then (SACCADE_ERROR_INVALID_ARGUMENT, p, 0)
      else if lp_domain p = 0 \<or> lp_domain p > max_domain \<or> \<not> valid_host_frame desc then
        (SACCADE_ERROR_INVALID_ARGUMENT, p, 0)
      else pool_emplace p (host_lease desc))"

definition import_native ::
  "bool \<Rightarrow> native_frame_resource \<Rightarrow> lease_pool \<Rightarrow> saccade_result \<times> lease_pool \<times> u64" where
  "import_native out_frame desc p =
     (if \<not> out_frame then (SACCADE_ERROR_INVALID_ARGUMENT, p, 0)
      else if lp_domain p = 0 \<or> lp_domain p > max_domain \<or> nf_resource desc = 0 \<or> \<not> nf_release desc \<or>
        nf_native_id desc = 0 \<or> nf_width desc = 0 \<or> nf_height desc = 0 \<or> nf_pixel_format desc = 0 \<or>
        (nf_ready_fence desc = 0) \<noteq> (nf_ready_value desc = 0) \<or>
        (nf_ready_fence desc \<noteq> 0 \<and> \<not> nf_release_ready_fence desc) \<or>
        (nf_storage desc \<noteq> Storage_iosurface \<and> nf_storage desc \<noteq> Storage_win32_capture) then
        (SACCADE_ERROR_INVALID_ARGUMENT, p, 0)
      else pool_emplace p (native_lease desc))"

text \<open>Writing through the pointer \<open>get\<close> returned.\<close>

definition store_value :: "u64 \<Rightarrow> 'v \<Rightarrow> 'v handle_table \<Rightarrow> 'v handle_table" where
  "store_value handle v t =
     (case resolve t handle of None \<Rightarrow> t
      | Some i \<Rightarrow> t\<lparr>ht_storage := (ht_storage t)[i := Some v]\<rparr>)"

definition pool_get :: "lease_pool \<Rightarrow> u64 \<Rightarrow> frame_lease option" where
  "pool_get p frame = get (lp_leases p) (decode_frame (lp_domain p) frame)"

definition add_owner :: "u64 \<Rightarrow> lease_owner \<Rightarrow> lease_pool \<Rightarrow> saccade_result \<times> lease_pool" where
  "add_owner frame owner p =
     (if \<not> valid_owner owner then (SACCADE_ERROR_INVALID_ARGUMENT, p)
      else case get (lp_leases p) (decode_frame (lp_domain p) frame) of
        None \<Rightarrow> (SACCADE_ERROR_STALE_HANDLE, p)
      | Some lease \<Rightarrow>
          (case lease_add_owner owner lease of
             None \<Rightarrow> (SACCADE_ERROR_ALREADY_EXISTS, p)
           | Some lease' \<Rightarrow>
               (SACCADE_OK, p\<lparr>lp_leases := store_value (decode_frame (lp_domain p) frame) lease' (lp_leases p)\<rparr>)))"

text \<open>The last component is the list of addresses released by the lease's destructor.\<close>

definition release_owner :: "u64 \<Rightarrow> lease_owner \<Rightarrow> lease_pool \<Rightarrow> saccade_result \<times> lease_pool \<times> u64 list" where
  "release_owner frame owner p =
     (if \<not> valid_owner owner then (SACCADE_ERROR_INVALID_ARGUMENT, p, [])
      else let local_frame = decode_frame (lp_domain p) frame
      in case get (lp_leases p) local_frame of
        None \<Rightarrow> (SACCADE_ERROR_STALE_HANDLE, p, [])
      | Some lease \<Rightarrow>
          (case lease_remove_owner owner lease of
             None \<Rightarrow> (SACCADE_ERROR_STALE_HANDLE, p, [])
           | Some lease' \<Rightarrow>
               let leases = store_value local_frame lease' (lp_leases p)
               in if fl_owners lease' \<noteq> 0 then (SACCADE_OK, p\<lparr>lp_leases := leases\<rparr>, [])
                  else case erase local_frame leases of
                    (result, leases') \<Rightarrow> (result, p\<lparr>lp_leases := leases'\<rparr>, lease_destructor lease')))"

definition pool_clear :: "lease_pool \<Rightarrow> lease_pool \<times> u64 list" where
  "pool_clear p =
     (case clear_reverse (lp_leases p) of
        (calls, leases) \<Rightarrow>
          (p\<lparr>lp_leases := leases\<rparr>,
           concat (map (\<lambda>(h, v). case v of None \<Rightarrow> [] | Some l \<Rightarrow> lease_destructor l) calls)))"

subsection \<open>Frame handles\<close>

lemma decode_encode_frame:
  assumes d: "d \<noteq> 0" "d \<le> max_domain" and i: "i < 255" and g: "g \<noteq> (0 :: u32)"
  shows "decode_frame d (encode_frame d (encode_handle i g)) = encode_handle i g"
    "d' \<noteq> d \<Longrightarrow> decode_frame d' (encode_frame d (encode_handle i g)) = 0"
proof -
  let ?w = "word_of_nat i + 1 :: u64" and ?h = "encode_handle i g"
  let ?f = "encode_frame d ?h"
  have w: "unat ?w = Suc i" using i by (simp add: unat_word_ariths unat_of_nat)
  then have w8: "8 \<le> n \<Longrightarrow> \<not> bit ?w n" for n using i low_bits_small [of ?w 8 n] by fastforce
  have "unat d < 2 ^ 24" using d by (simp add: max_domain_def word_le_nat_alt)
  then have d24: "24 \<le> n \<Longrightarrow> \<not> bit d n" for n using low_bits_small [of d 24 n] by fastforce
  obtain w where wdef: "w = ?w" by blast
  have g32: "\<not> bit g (32 + n)" for n by (auto dest: bit_imp_le_length)
  have d24d: "bit d n \<Longrightarrow> n < 24" for n using d24 not_le by blast
  have w8d: "bit ?w n \<Longrightarrow> n < 8" for n using w8 not_le by blast
  have low: "?h AND 0xFFFFFFFF = ?w"
    unfolding encode_handle_def mask_numerals
    by (rule bit_word_eqI) (auto simp: bit_simps dest: w8d bit_imp_le_length)
  have high: "drop_bit 32 ?h = ucast g"
    unfolding encode_handle_def by (rule bit_word_eqI) (auto simp: bit_simps w8 dest: bit_imp_le_length)
  have f: "?f = push_bit 40 (ucast d) OR push_bit 8 (ucast g) OR ?w"
    by (simp add: encode_frame_def low high Let_def or.assoc)
  have dom: "ucast (drop_bit 40 ?f) = d"
    unfolding f by (rule bit_word_eqI) (auto simp: bit_simps w8 g32 dest: d24d)
  have slot: "?f AND 0xFF = ?w"
    unfolding f mask_numerals by (rule bit_word_eqI) (auto simp: bit_simps w8 dest: w8d bit_imp_le_length)
  have gen: "drop_bit 8 ?f AND 0xFFFFFFFF = ucast g"
    unfolding f mask_numerals by (rule bit_word_eqI) (auto simp: bit_simps w8 dest: w8d bit_imp_le_length)
  have "?w \<noteq> 0" using w by auto
  moreover have "(ucast g :: u64) \<noteq> 0"
  proof
    assume "(ucast g :: u64) = 0"
    moreover have "ucast (ucast g :: u64) = g" by (rule bit_word_eqI) (auto simp: bit_simps)
    ultimately show False using g by simp
  qed
  ultimately show "decode_frame d ?f = ?h" using d dom slot gen by (simp add: decode_frame_def encode_handle_def Let_def)
  show "d' \<noteq> d \<Longrightarrow> decode_frame d' ?f = 0" using dom by (simp add: decode_frame_def Let_def)
qed

lemma encode_decode_frame:
  assumes "decode_frame d f \<noteq> 0"
  shows "encode_frame d (decode_frame d f) = f"
proof -
  let ?s = "f AND 0xFF" and ?g = "drop_bit 8 f AND 0xFFFFFFFF"
  have d: "d = ucast (drop_bit 40 f)" and l: "decode_frame d f = push_bit 32 ?g OR ?s"
    using assms by (auto simp: decode_frame_def Let_def split: if_splits)
  have "decode_frame d f AND 0xFFFFFFFF = ?s"
    unfolding l mask_numerals by (rule bit_word_eqI) (auto simp: bit_simps)
  moreover have "drop_bit 32 (decode_frame d f) = ?g"
    unfolding l mask_numerals by (rule bit_word_eqI) (auto simp: bit_simps)
  moreover have "push_bit 40 (ucast d) OR push_bit 8 ?g OR ?s = f"
  proof (rule bit_word_eqI, goal_cases)
    case (1 n)
    then show ?case
      unfolding d mask_numerals by (cases "n < 40"; cases "n < 8") (auto simp: bit_simps)
  qed
  ultimately show ?thesis by (simp add: encode_frame_def Let_def or.assoc)
qed

lemma decode_frame_inj:
  "decode_frame d f = decode_frame d f' \<Longrightarrow> decode_frame d f \<noteq> 0 \<Longrightarrow> f = f'"
  by (metis encode_decode_frame)

lemma get_null [simp]: "get t 0 = None"
  by (simp add: get_def resolve_def decode_handle_def)

lemma store_value_metadata [simp]:
  "ht_metadata (store_value h v t) = ht_metadata t"
  "ht_generation_type (store_value h v t) = ht_generation_type t"
  "ht_size (store_value h v t) = ht_size t"
  by (simp_all add: store_value_def split: option.split)

lemma resolve_store [simp]: "resolve (store_value h v t) h' = resolve t h'"
  by (simp add: resolve_def split: option.split)

lemma table_inv_store: "table_inv t \<Longrightarrow> table_inv (store_value h v t)"
proof (cases "resolve t h")
  case None
  then show "table_inv t \<Longrightarrow> ?thesis" by (simp add: store_value_def)
next
  case (Some i)
  assume inv: "table_inv t"
  from Some have i: "i < length (ht_metadata t)" "md_occupied (ht_metadata t ! i)"
    by (auto elim: resolve_Some)
  have "slot_ok (ht_generation_type t) (ht_metadata t ! i) (Some v)"
    using inv i slot_okD [of t i] by (simp add: table_inv_def slot_ok_def)
  then have "slots_inv (t\<lparr>ht_storage := (ht_storage t)[i := Some v],
      ht_metadata := (ht_metadata t)[i := ht_metadata t ! i]\<rparr>)"
    using inv i by (intro slots_inv_update) (simp_all add: table_inv_def)
  then show ?thesis using inv Some by (simp add: table_inv_def store_value_def)
qed

lemma storage_length: "table_inv t \<Longrightarrow> length (ht_storage t) = length (ht_metadata t)"
  unfolding table_inv_def slots_inv_def by (metis list_all2_lengthD)

lemma get_store:
  assumes "table_inv t" "get t h \<noteq> None"
  shows "get (store_value h v t) = (get t)(h \<mapsto> v)"
proof -
  obtain i where r: "resolve t h = Some i" using assms(2) by (auto simp: get_def split: option.splits)
  then obtain g where h: "decode_handle (length (ht_metadata t)) h = Some (i, g)" "i < length (ht_metadata t)"
    "md_generation (ht_metadata t ! i) = g" by (rule resolve_Some)
  have len: "length (ht_storage t) = length (ht_metadata t)"
    using assms(1) by (rule storage_length)
  have same: "h' = h" if r': "resolve t h' = Some i" for h'
  proof -
    from r' obtain g' where "decode_handle (length (ht_metadata t)) h' = Some (i, g')"
      "md_generation (ht_metadata t ! i) = g'" by (rule resolve_Some)
    with h show ?thesis by (metis encode_decode_handle)
  qed
  have st: "ht_storage (store_value h v t) = (ht_storage t)[i := Some v]"
    using r by (simp add: store_value_def)
  have "get (store_value h v t) h' = ((get t)(h \<mapsto> v)) h'" for h'
  proof (cases "h' = h")
    case True
    then show ?thesis using r h len by (simp add: get_def st)
  next
    case False
    then have "resolve t h' \<noteq> Some i" using same by blast
    with False show ?thesis by (auto simp: get_def st split: option.splits)
  qed
  then show ?thesis by blast
qed

lemma store_later [simp]: "table_later t (store_value h v t)"
  by (simp add: table_later_def list_all2_same)

subsection \<open>The invariant of the pool\<close>

text \<open>Every live lease has at least one owner.\<close>

definition pool_inv :: "lease_pool \<Rightarrow> bool" where
  "pool_inv p \<longleftrightarrow> table_inv (lp_leases p) \<and> length (ht_metadata (lp_leases p)) \<le> 255 \<and>
     (\<forall>h l. get (lp_leases p) h = Some l \<longrightarrow> fl_owners l \<noteq> 0)"

definition dead_frame :: "lease_pool \<Rightarrow> u64 \<Rightarrow> bool" where
  "dead_frame p f = dead_handle (lp_leases p) (decode_frame (lp_domain p) f)"

lemma get_empty_table: "get (empty_table w c) = Map.empty"
  by (auto simp: fun_eq_iff get_def resolve_def empty_table_def initial_metadata_def Let_def
      split: option.splits dest: decode_handle_bounds(1))

lemma length_empty_table: "length (ht_metadata (empty_table w c)) = unat c"
  by (simp add: empty_table_def)

lemma pool_inv_new: "pool_inv (new_pool domain capacity)"
proof -
  have "unat capacity \<le> 255" using unat8_lt [of capacity] by linarith
  then have "unat (ucast capacity :: u32) \<le> 255" by simp
  then show ?thesis
    by (simp add: pool_inv_def new_pool_def table_inv_empty get_empty_table length_empty_table)
qed

lemma erase_length: "length (ht_metadata (snd (erase h t))) = length (ht_metadata t)"
  by (auto simp: erase_def split: option.split)

lemma emplace_length: "length (ht_metadata (fst (snd (emplace out v t)))) = length (ht_metadata t)"
  by (auto simp: emplace_def Let_def split: option.split)

lemma pool_emplace_inv:
  assumes "pool_inv p" "fl_owners l \<noteq> 0"
  shows "pool_inv (fst (snd (pool_emplace p l)))"
proof -
  obtain r t h where e: "emplace True l (lp_leases p) = (r, t, h)" by (cases "emplace True l (lp_leases p)")
  have inv: "table_inv (lp_leases p)" using assms(1) by (simp add: pool_inv_def)
  have "table_inv t" "length (ht_metadata t) = length (ht_metadata (lp_leases p))"
    using table_inv_emplace [OF inv, of True l] emplace_length [of True l "lp_leases p"] e by auto
  moreover have "get t h' = Some l' \<Longrightarrow> fl_owners l' \<noteq> 0" for h' l'
    using get_emplace_map [OF inv] emplace_fail [of True l "lp_leases p"] e assms
    by (cases "r = SACCADE_OK") (auto simp: pool_inv_def split: if_splits)
  ultimately show ?thesis using assms(1) e by (simp add: pool_inv_def pool_emplace_def)
qed

lemma pool_store_inv:
  assumes "pool_inv p" "fl_owners l \<noteq> 0"
  shows "pool_inv (p\<lparr>lp_leases := store_value h l (lp_leases p)\<rparr>)"
proof (cases "get (lp_leases p) h")
  case None
  then have "get (store_value h l (lp_leases p)) = get (lp_leases p)"
    using assms(1) slot_okD [of "lp_leases p"]
    by (force simp: get_def store_value_def pool_inv_def table_inv_def slot_ok_def elim!: resolve_Some split: option.splits)
  then show ?thesis using assms table_inv_store [of "lp_leases p" h l] by (simp add: pool_inv_def)
next
  case (Some l0)
  then show ?thesis
    using assms table_inv_store [of "lp_leases p" h l] get_store [of "lp_leases p" h l]
    by (auto simp: pool_inv_def split: if_splits)
qed

lemma pool_erase_inv:
  assumes "pool_inv p"
  shows "pool_inv (p\<lparr>lp_leases := snd (erase h (lp_leases p))\<rparr>)"
proof -
  have inv: "table_inv (lp_leases p)" using assms by (simp add: pool_inv_def)
  have "get (snd (erase h (lp_leases p))) h' = Some l \<Longrightarrow> fl_owners l \<noteq> 0" for h' l
  proof (cases "fst (erase h (lp_leases p)) = SACCADE_OK")
    case True
    then have "get (snd (erase h (lp_leases p))) = (get (lp_leases p))(h := None)"
      using get_erase_map [OF inv] by (metis prod.collapse)
    then show "get (snd (erase h (lp_leases p))) h' = Some l \<Longrightarrow> fl_owners l \<noteq> 0"
      using assms by (auto simp: pool_inv_def split: if_splits)
  next
    case False
    then have "snd (erase h (lp_leases p)) = lp_leases p"
      by (auto simp: erase_def split: option.splits)
    then show "get (snd (erase h (lp_leases p))) h' = Some l \<Longrightarrow> fl_owners l \<noteq> 0"
      using assms by (auto simp: pool_inv_def)
  qed
  then show ?thesis
    using assms table_inv_erase [OF inv] by (auto simp: pool_inv_def erase_length)
qed

lemma owner_bit_add_nonzero: "lease_add_owner owner l = Some l' \<Longrightarrow> fl_owners l \<noteq> 0 \<Longrightarrow> fl_owners l' \<noteq> 0"
  by (auto simp: lease_add_owner_def Let_def or_eq_0_iff split: if_splits)

lemma add_owner_inv: "pool_inv p \<Longrightarrow> pool_inv (snd (add_owner f owner p))"
  by (auto simp: add_owner_def split: option.split intro!: pool_store_inv dest!: owner_bit_add_nonzero)
    (auto simp: pool_inv_def)

lemma store_then_erase:
  assumes "table_inv t" "get t h \<noteq> None"
  shows "erase h (store_value h v t) = (SACCADE_OK, snd (erase h t))"
proof -
  obtain i where r: "resolve t h = Some i" using assms(2) by (auto simp: get_def split: option.splits)
  have "store_value h v t = t\<lparr>ht_storage := (ht_storage t)[i := Some v]\<rparr>"
    using r by (simp add: store_value_def)
  moreover have "resolve (store_value h v t) h = Some i" using r by simp
  ultimately show ?thesis
    using r by (simp add: erase_def destroy_slot_def)
qed

text \<open>The effect of \<open>release_owner\<close>, one equation per branch.\<close>

lemma release_owner_cases:
  assumes "pool_inv p"
  shows "release_owner f owner p =
    (let h = decode_frame (lp_domain p) f in
     if \<not> valid_owner owner then (SACCADE_ERROR_INVALID_ARGUMENT, p, [])
     else case get (lp_leases p) h of
       None \<Rightarrow> (SACCADE_ERROR_STALE_HANDLE, p, [])
     | Some l \<Rightarrow>
         if \<not> has_owner l owner then (SACCADE_ERROR_STALE_HANDLE, p, [])
         else let l' = l\<lparr>fl_owners := fl_owners l AND NOT (owner_bit owner)\<rparr>
         in if fl_owners l' \<noteq> 0 then (SACCADE_OK, p\<lparr>lp_leases := store_value h l' (lp_leases p)\<rparr>, [])
            else (SACCADE_OK, p\<lparr>lp_leases := snd (erase h (lp_leases p))\<rparr>, lease_destructor l))"
  using assms store_then_erase [of "lp_leases p" "decode_frame (lp_domain p) f"]
  by (auto simp: release_owner_def lease_remove_owner_def has_owner_def Let_def pool_inv_def
      lease_destructor_def split: option.split)

lemma release_owner_inv: "pool_inv p \<Longrightarrow> pool_inv (fst (snd (release_owner f owner p)))"
  by (auto simp: release_owner_cases Let_def split: option.split intro: pool_store_inv pool_erase_inv)

lemma pool_clear_inv: "pool_inv p \<Longrightarrow> pool_inv (fst (pool_clear p))"
proof -
  assume inv: "pool_inv p"
  have "length (ht_metadata (snd (clear_reverse t))) = length (ht_metadata t)" if "table_inv t" for t :: "frame_lease handle_table"
    using clear_later [OF that] by (simp add: table_later_def list_all2_lengthD)
  with inv show ?thesis
    using get_clear [of "lp_leases p"] table_inv_clear [of "lp_leases p"]
    by (simp add: pool_clear_def pool_inv_def split: prod.split) (metis option.distinct(1) snd_conv)
qed

subsection \<open>The pool as a handle space\<close>

datatype pool_op =
    Import_host host_frame_desc
  | Import_native native_frame_resource
  | Add_owner u64 lease_owner
  | Release_owner u64 lease_owner
  | Clear_pool

fun pool_step :: "lease_pool \<Rightarrow> pool_op \<Rightarrow> lease_pool" where
  "pool_step p (Import_host desc) = fst (snd (import_host True desc p))"
| "pool_step p (Import_native desc) = fst (snd (import_native True desc p))"
| "pool_step p (Add_owner f owner) = snd (add_owner f owner p)"
| "pool_step p (Release_owner f owner) = fst (snd (release_owner f owner p))"
| "pool_step p Clear_pool = fst (pool_clear p)"

lemma pool_step_inv: "pool_inv p \<Longrightarrow> pool_inv (pool_step p e)"
  by (cases e)
    (auto simp: import_host_def import_native_def host_lease_def native_lease_def
      intro: pool_emplace_inv add_owner_inv release_owner_inv pool_clear_inv)

lemma pool_step_later:
  assumes "pool_inv p"
  shows "table_later (lp_leases p) (lp_leases (pool_step p e)) \<and> lp_domain (pool_step p e) = lp_domain p"
proof -
  have inv: "table_inv (lp_leases p)" using assms by (simp add: pool_inv_def)
  have e: "table_later (lp_leases p) (lp_leases (fst (snd (pool_emplace p l)))) \<and>
      lp_domain (fst (snd (pool_emplace p l))) = lp_domain p" for l
    using emplace_later [of "lp_leases p" True l]
    by (cases "emplace True l (lp_leases p)") (simp add: pool_emplace_def)
  show ?thesis
    using e erase_later [OF inv] clear_later [OF inv] assms
    by (cases e) (auto simp: import_host_def import_native_def add_owner_def release_owner_cases Let_def
        pool_clear_def split: option.split prod.split)
qed

lemma dead_frame_step: "pool_inv p \<Longrightarrow> dead_frame p f \<Longrightarrow> dead_frame (pool_step p e) f"
  using pool_step_later [of p e] by (auto simp: dead_frame_def intro: dead_later)

lemma dead_frame_get: "pool_inv p \<Longrightarrow> dead_frame p f \<Longrightarrow> pool_get p f = None"
  by (simp add: dead_frame_def pool_get_def pool_inv_def dead_get)

interpretation pool: handle_space "new_pool domain capacity" pool_step pool_inv pool_get dead_frame
  for domain capacity
  by unfold_locales (auto intro: pool_inv_new pool_step_inv dead_frame_step dead_frame_get)

lemma pool_domain_run: "pool_inv p \<Longrightarrow> lp_domain (foldl pool_step p ops) = lp_domain p"
  by (induction ops arbitrary: p) (simp_all add: pool_step_inv pool_step_later)

lemma release_last_kills:
  assumes "pool_inv p" "release_owner f owner p = (SACCADE_OK, p', released)" "pool_get p' f = None"
  shows "dead_frame p' f"
proof -
  let ?h = "decode_frame (lp_domain p) f"
  have inv: "table_inv (lp_leases p)" using assms(1) by (simp add: pool_inv_def)
  obtain l where l: "get (lp_leases p) ?h = Some l"
    using assms(1,2) by (auto simp: release_owner_cases Let_def split: if_splits option.splits)
  have dom: "lp_domain p' = lp_domain p"
    using assms(1,2) by (auto simp: release_owner_cases Let_def split: if_splits option.splits)
  have ok: "fst (erase ?h (lp_leases p)) = SACCADE_OK"
    using l by (auto simp: erase_def get_def split: option.splits)
  have "lp_leases p' = snd (erase ?h (lp_leases p))"
    using assms dom l get_store [OF inv, of ?h]
    by (auto simp: release_owner_cases Let_def pool_get_def split: if_splits option.splits)
  then show ?thesis
    using erase_kills [OF inv ok] by (simp add: dead_frame_def dom)
qed


text \<open>Where a lease comes from: up to its owners it is what some import of the run handed over, and
  a native import hands over only resources with their release callbacks.\<close>

definition handed_over :: "pool_op \<Rightarrow> frame_lease \<Rightarrow> bool" where
  "handed_over e l \<longleftrightarrow> (case e of
     Import_host d \<Rightarrow> l\<lparr>fl_owners := 1\<rparr> = host_lease d
   | Import_native r \<Rightarrow> l\<lparr>fl_owners := 1\<rparr> = native_lease r \<and> nf_resource r \<noteq> 0 \<and> nf_release r \<and>
       (nf_ready_fence r = 0 \<or> nf_release_ready_fence r)
   | _ \<Rightarrow> False)"

abbreviation all_leases :: "(frame_lease \<Rightarrow> bool) \<Rightarrow> lease_pool \<Rightarrow> bool" where
  "all_leases Q p \<equiv> \<forall>h l. get (lp_leases p) h = Some l \<longrightarrow> Q l"

lemma emplace_all_leases:
  "pool_inv p \<Longrightarrow> all_leases Q p \<Longrightarrow> Q l \<Longrightarrow> all_leases Q (fst (snd (pool_emplace p l)))"
proof -
  assume a: "pool_inv p" "all_leases Q p" "Q l"
  obtain r t h where e: "emplace True l (lp_leases p) = (r, t, h)" by (cases "emplace True l (lp_leases p)")
  have inv: "table_inv (lp_leases p)" using a(1) by (simp add: pool_inv_def)
  show ?thesis
    using get_emplace_map [OF inv] emplace_fail [of True l "lp_leases p"] e a
    by (cases "r = SACCADE_OK") (auto simp: pool_emplace_def split: if_splits)
qed

lemma store_all_leases:
  assumes "pool_inv p" "all_leases Q p" "get (lp_leases p) h = Some l0" "Q l"
  shows "all_leases Q (p\<lparr>lp_leases := store_value h l (lp_leases p)\<rparr>)"
  using assms get_store [of "lp_leases p" h l] by (auto simp: pool_inv_def split: if_splits)

lemma erase_all_leases:
  assumes "pool_inv p" "all_leases Q p"
  shows "all_leases Q (p\<lparr>lp_leases := snd (erase h (lp_leases p))\<rparr>)"
proof (cases "fst (erase h (lp_leases p)) = SACCADE_OK")
  case True
  have "table_inv (lp_leases p)" using assms(1) by (simp add: pool_inv_def)
  then have "get (snd (erase h (lp_leases p))) = (get (lp_leases p))(h := None)"
    using get_erase_map [of "lp_leases p" h] True by (metis prod.collapse)
  then show ?thesis using assms(2) by (auto split: if_splits)
next
  case False
  then have "snd (erase h (lp_leases p)) = lp_leases p" by (auto simp: erase_def split: option.splits)
  then show ?thesis using assms(2) by simp
qed

lemma handed_over_owners [simp]: "handed_over e (l\<lparr>fl_owners := b\<rparr>) \<longleftrightarrow> handed_over e l"
  by (cases e) (simp_all add: handed_over_def)

lemma handed_over_step:
  assumes "pool_inv p" "all_leases (\<lambda>l. list_ex (\<lambda>e. handed_over e l) ops) p"
  shows "all_leases (\<lambda>l. list_ex (\<lambda>e. handed_over e l) (ops @ [e])) (pool_step p e)"
proof -
  let ?Q = "\<lambda>l. list_ex (\<lambda>e. handed_over e l) (ops @ [e])"
  have Q: "all_leases ?Q p" using assms(2) by simp
  show ?thesis
  proof (cases e)
    case (Import_host desc)
    have "?Q (host_lease desc)" unfolding Import_host by (simp add: handed_over_def host_lease_def)
    then show ?thesis using emplace_all_leases [OF assms(1) Q] Q unfolding Import_host by (simp add: import_host_def)
  next
    case (Import_native r)
    show ?thesis
    proof (cases "import_native True r p = pool_emplace p (native_lease r) \<and> nf_resource r \<noteq> 0 \<and> nf_release r \<and>
        (nf_ready_fence r = 0 \<or> nf_release_ready_fence r)")
      case True
      then have "?Q (native_lease r)" unfolding Import_native by (simp add: handed_over_def native_lease_def)
      then show ?thesis using emplace_all_leases [OF assms(1) Q] True unfolding Import_native by simp
    next
      case False
      then have "import_native True r p = (SACCADE_ERROR_INVALID_ARGUMENT, p, 0)"
        by (auto simp: import_native_def split: if_splits)
      then show ?thesis using Q unfolding Import_native by simp
    qed
  next
    case (Add_owner f owner)
    let ?h = "decode_frame (lp_domain p) f"
    show ?thesis
    proof (cases "get (lp_leases p) ?h")
      case None
      then show ?thesis using Q unfolding Add_owner by (simp add: add_owner_def)
    next
      case (Some l)
      then have "?Q l" using Q by blast
      then have "?Q (l\<lparr>fl_owners := b\<rparr>)" for b by simp
      from store_all_leases [OF assms(1) Q Some this]
      show ?thesis using Q Some unfolding Add_owner by (simp add: add_owner_def lease_add_owner_def Let_def)
    qed
  next
    case (Release_owner f owner)
    let ?h = "decode_frame (lp_domain p) f"
    show ?thesis
    proof (cases "get (lp_leases p) ?h")
      case None
      then show ?thesis using Q unfolding Release_owner by (simp add: release_owner_def)
    next
      case (Some l)
      then have "?Q l" using Q by blast
      then have "?Q (l\<lparr>fl_owners := b\<rparr>)" for b by simp
      from store_all_leases [OF assms(1) Q Some this] erase_all_leases [OF assms(1) Q, of ?h]
      show ?thesis using Q Some unfolding Release_owner by (simp add: release_owner_cases [OF assms(1)] Let_def)
    qed
  next
    case Clear_pool
    have "table_inv (lp_leases p)" using assms(1) by (simp add: pool_inv_def)
    from get_clear [OF this] show ?thesis
      unfolding Clear_pool by (cases "clear_reverse (lp_leases p)") (simp add: pool_clear_def)
  qed
qed

lemma leases_handed_over:
  "all_leases (\<lambda>l. list_ex (\<lambda>e. handed_over e l) ops) (foldl pool_step (new_pool d c) ops)"
proof (induction ops rule: rev_induct)
  case Nil
  then show ?case by (simp add: new_pool_def get_empty_table)
next
  case (snoc e ops)
  from handed_over_step [OF pool.inv_run snoc] show ?case by simp
qed

lemma handed_over_release:
  assumes "handed_over e l"
  shows "case e of
      Import_native r \<Rightarrow> lease_destructor l = nf_resource r # (if nf_ready_fence r = 0 then [] else [nf_ready_fence r])
    | Import_host _ \<Rightarrow> lease_destructor l = []
    | _ \<Rightarrow> False"
proof -
  have d: "lease_destructor (l\<lparr>fl_owners := 1\<rparr>) = lease_destructor l" by (simp add: lease_destructor_def)
  show ?thesis using assms d [symmetric]
    by (cases e) (auto simp: handed_over_def lease_destructor_def host_lease_def native_lease_def)
qed

subsection \<open>Properties\<close>

text \<open>Frame handles decode to the table handle they were made from in the pool that made
  them, and to nothing in a pool of any other domain.\<close>

theorem frame_handle_roundtrip:
  assumes "d \<noteq> 0" "d \<le> max_domain" "i < 255" "g \<noteq> 0"
  shows "decode_frame d (encode_frame d (encode_handle i g)) = encode_handle i g \<and>
    (if d' = d then True else decode_frame d' (encode_frame d (encode_handle i g)) = 0)"
  using decode_encode_frame [OF assms] by auto

theorem frame_handle_roundtrip_witness:
  "(3 :: u32) \<noteq> 0 \<and> 3 \<le> max_domain \<and> (2 :: nat) < 255 \<and> (5 :: u32) \<noteq> 0 \<and>
   decode_frame 3 (encode_frame 3 (encode_handle 2 5)) = encode_handle 2 5 \<and>
   (if (4 :: u32) = 3 then True else decode_frame 4 (encode_frame 3 (encode_handle 2 5)) = 0)"
proof -
  have h: "(3 :: u32) \<noteq> 0" "3 \<le> max_domain" "(2 :: nat) < 255" "(5 :: u32) \<noteq> 0"
    by (simp_all add: max_domain_def)
  show ?thesis using h frame_handle_roundtrip [OF h, of 4] by blast
qed

text \<open>C25. Releasing an owner of a frame removes that owner and releases nothing, as long as another
  owner is left. When none is left the lease goes, the frame handle never resolves again, and
  exactly what was imported is released: for a native frame its resource and then its fence, if it
  has one, for a host frame nothing.\<close>

theorem release_owner_last:
  assumes "release_owner f owner (foldl pool_step (new_pool d c) ops) = (SACCADE_OK, p', released)"
  shows "\<exists>l. pool_get (foldl pool_step (new_pool d c) ops) f = Some l \<and> has_owner l owner \<and>
    (if fl_owners l AND NOT (owner_bit owner) = 0
     then (\<forall>later. pool_get (foldl pool_step p' later) f = None) \<and>
       list_ex (\<lambda>e. handed_over e l \<and>
         (case e of
            Import_native r \<Rightarrow> released = nf_resource r # (if nf_ready_fence r = 0 then [] else [nf_ready_fence r])
          | Import_host _ \<Rightarrow> released = []
          | _ \<Rightarrow> False)) ops
     else released = [] \<and>
       pool_get p' f = Some (l\<lparr>fl_owners := fl_owners l AND NOT (owner_bit owner)\<rparr>))"
proof -
  let ?p = "foldl pool_step (new_pool d c) ops"
  let ?h = "decode_frame (lp_domain ?p) f"
  have inv: "pool_inv ?p" by (rule pool.inv_run)
  then have tinv: "table_inv (lp_leases ?p)" by (simp add: pool_inv_def)
  obtain l where l: "get (lp_leases ?p) ?h = Some l" "has_owner l owner"
    using assms inv by (auto simp: release_owner_cases Let_def split: if_splits option.splits)
  have inv': "pool_inv p'" using release_owner_inv [OF inv, of f owner] assms by simp
  show ?thesis
  proof (cases "fl_owners l AND NOT (owner_bit owner) = 0")
    case True
    then have p': "p' = ?p\<lparr>lp_leases := snd (erase ?h (lp_leases ?p))\<rparr>" "released = lease_destructor l"
      using assms l inv by (auto simp: release_owner_cases Let_def split: if_splits)
    have "fst (erase ?h (lp_leases ?p)) = SACCADE_OK"
      using l by (auto simp: erase_def get_def split: option.splits)
    then have "pool_get p' f = None"
      using get_erase_map [OF tinv, of ?h "snd (erase ?h (lp_leases ?p))"] p'
      by (simp add: pool_get_def prod_eq_iff)
    note dead = release_last_kills [OF inv assms this]
    have "list_ex (\<lambda>e. handed_over e l) ops" using leases_handed_over l(1) by blast
    then have "list_ex (\<lambda>e. handed_over e l \<and>
         (case e of
            Import_native r \<Rightarrow> released = nf_resource r # (if nf_ready_fence r = 0 then [] else [nf_ready_fence r])
          | Import_host _ \<Rightarrow> released = []
          | _ \<Rightarrow> False)) ops"
      unfolding p'(2) list_ex_iff using handed_over_release by blast
    with dead show ?thesis
      using True l p' pool.stale_forever [OF inv'] by (auto simp: pool_get_def)
  next
    case False
    then show ?thesis
      using assms l inv get_store [OF tinv, of ?h]
      by (auto simp: release_owner_cases Let_def pool_get_def split: if_splits)
  qed
qed

definition sample_resource :: native_frame_resource where
  "sample_resource = \<lparr>nf_resource = 0x1000, nf_release = True, nf_ready_fence = 0,
     nf_release_ready_fence = False, nf_ready_value = 0, nf_native_id = 9, nf_plane_index = 0,
     nf_pixel_format = 1, nf_width = 64, nf_height = 32, nf_frame_id = 1, nf_transform_epoch = 1,
     nf_storage = Storage_iosurface\<rparr>"

theorem release_owner_last_witness:
  "\<exists>p' released.
    release_owner 0x30000000101 Owner_caller (foldl pool_step (new_pool 3 2) [Import_native sample_resource]) =
      (SACCADE_OK, p', released) \<and>
    (\<exists>l. pool_get (foldl pool_step (new_pool 3 2) [Import_native sample_resource]) 0x30000000101 = Some l \<and>
      has_owner l Owner_caller \<and>
      (if fl_owners l AND NOT (owner_bit Owner_caller) = 0
       then (\<forall>later. pool_get (foldl pool_step p' later) 0x30000000101 = None) \<and>
         list_ex (\<lambda>e. handed_over e l \<and>
           (case e of
              Import_native r \<Rightarrow> released = nf_resource r # (if nf_ready_fence r = 0 then [] else [nf_ready_fence r])
            | Import_host _ \<Rightarrow> released = []
            | _ \<Rightarrow> False)) [Import_native sample_resource]
       else released = [] \<and>
         pool_get p' 0x30000000101 = Some (l\<lparr>fl_owners := fl_owners l AND NOT (owner_bit Owner_caller)\<rparr>)))"
proof -
  let ?r = "release_owner 0x30000000101 Owner_caller (foldl pool_step (new_pool 3 2) [Import_native sample_resource])"
  have "fst ?r = SACCADE_OK" by code_simp
  then have r: "?r = (SACCADE_OK, fst (snd ?r), snd (snd ?r))" by (metis prod.collapse)
  from r release_owner_last [OF r] show ?thesis by blast
qed

end
