(* ===== verification/Mailbox.thy ===== *)
theory Mailbox
  imports Saccade_Prelude
begin

text \<open>
  The newest-frame mailbox of \<open>src/core/newest_frame_mailbox.hpp\<close>: one pending frame
  handle, exchanged atomically by a producer (\<open>replace\<close>), a consumer (\<open>take\<close>) and, while
  both are quiescent, by the control path. Each operation is one atomic exchange followed by
  updates of counters only that side writes, so an execution is a sequence of operations.
\<close>

record mailbox =
  mb_frame :: u64
  mb_published :: u64
  mb_replaced :: u64
  mb_consumed :: u64
  mb_discarded :: u64

definition empty_mailbox :: mailbox where
  "empty_mailbox = \<lparr>mb_frame = 0, mb_published = 0, mb_replaced = 0, mb_consumed = 0, mb_discarded = 0\<rparr>"

definition mailbox_replace :: "u64 \<Rightarrow> mailbox \<Rightarrow> mailbox \<times> u64" where
  "mailbox_replace frame s =
     (if frame = 0 then (s, 0)
      else let replaced = mb_frame s;
               s1 = s\<lparr>mb_frame := frame, mb_published := mb_published s + 1\<rparr>
      in (if replaced \<noteq> 0 then s1\<lparr>mb_replaced := mb_replaced s1 + 1\<rparr> else s1, replaced))"

definition mailbox_take :: "mailbox \<Rightarrow> mailbox \<times> u64" where
  "mailbox_take s =
     (let frame = mb_frame s; s1 = s\<lparr>mb_frame := 0\<rparr>
      in (if frame \<noteq> 0 then s1\<lparr>mb_consumed := mb_consumed s1 + 1\<rparr> else s1, frame))"

definition remove_quiescent :: "u64 \<Rightarrow> mailbox \<Rightarrow> mailbox \<times> bool" where
  "remove_quiescent frame s =
     (if frame = 0 then (s, False)
      else if mb_frame s \<noteq> frame then (s, False)
      else (s\<lparr>mb_frame := 0, mb_discarded := mb_discarded s + 1\<rparr>, True))"

definition clear_quiescent :: "mailbox \<Rightarrow> mailbox \<times> u64" where
  "clear_quiescent s =
     (let frame = mb_frame s; s1 = s\<lparr>mb_frame := 0\<rparr>
      in (if frame \<noteq> 0 then s1\<lparr>mb_discarded := mb_discarded s1 + 1\<rparr> else s1, frame))"

lemmas [op_defs] = mailbox_replace_def mailbox_take_def remove_quiescent_def clear_quiescent_def

subsection \<open>Executions\<close>

text \<open>
  An execution records, beside the mailbox, where every handle went: the handles published,
  those handed back to the producer, those the consumer took and those discarded.
\<close>

datatype mailbox_op = Replace u64 | Take | Remove_quiescent u64 | Clear_quiescent

record mailbox_run =
  run_mailbox :: mailbox
  run_published :: "u64 multiset"
  run_replaced :: "u64 multiset"
  run_consumed :: "u64 multiset"
  run_discarded :: "u64 multiset"

definition initial_run :: mailbox_run where
  "initial_run = \<lparr>run_mailbox = empty_mailbox, run_published = {#}, run_replaced = {#},
     run_consumed = {#}, run_discarded = {#}\<rparr>"

definition frame_bag :: "u64 \<Rightarrow> u64 multiset" where
  "frame_bag frame = (if frame = 0 then {#} else {#frame#})"

fun run_step :: "mailbox_run \<Rightarrow> mailbox_op \<Rightarrow> mailbox_run" where
  "run_step r (Replace frame) =
     (case mailbox_replace frame (run_mailbox r) of (s, back) \<Rightarrow>
        r\<lparr>run_mailbox := s, run_published := run_published r + frame_bag frame,
          run_replaced := run_replaced r + frame_bag back\<rparr>)"
| "run_step r Take =
     (case mailbox_take (run_mailbox r) of (s, frame) \<Rightarrow>
        r\<lparr>run_mailbox := s, run_consumed := run_consumed r + frame_bag frame\<rparr>)"
| "run_step r (Remove_quiescent frame) =
     (case remove_quiescent frame (run_mailbox r) of (s, removed) \<Rightarrow>
        r\<lparr>run_mailbox := s, run_discarded := run_discarded r + (if removed then frame_bag frame else {#})\<rparr>)"
| "run_step r Clear_quiescent =
     (case clear_quiescent (run_mailbox r) of (s, frame) \<Rightarrow>
        r\<lparr>run_mailbox := s, run_discarded := run_discarded r + frame_bag frame\<rparr>)"

definition mailbox_inv :: "mailbox_run \<Rightarrow> bool" where
  "mailbox_inv r \<longleftrightarrow>
     run_published r = run_replaced r + run_consumed r + run_discarded r + frame_bag (mb_frame (run_mailbox r)) \<and>
     mb_published (run_mailbox r) = word_of_nat (size (run_published r)) \<and>
     mb_replaced (run_mailbox r) = word_of_nat (size (run_replaced r)) \<and>
     mb_consumed (run_mailbox r) = word_of_nat (size (run_consumed r)) \<and>
     mb_discarded (run_mailbox r) = word_of_nat (size (run_discarded r))"

interpretation mailbox: invariant_machine initial_run run_step mailbox_inv
proof unfold_locales
  show "mailbox_inv initial_run"
    by (simp add: mailbox_inv_def initial_run_def empty_mailbox_def frame_bag_def)
  show "mailbox_inv (run_step r e)" if "mailbox_inv r" for r e
    using that by (cases e) (auto simp: mailbox_inv_def op_defs frame_bag_def Let_def)
qed

subsection \<open>Properties\<close>

text \<open>C30. Every frame handle published to the mailbox is accounted for exactly once: it was
  handed back to the producer as replaced, taken by the consumer, discarded by the control
  path, or is the one still pending; and the statistics count these sets.\<close>

theorem mailbox_conserves_frames:
  "let r = foldl run_step initial_run ops in
     run_published r = run_replaced r + run_consumed r + run_discarded r + frame_bag (mb_frame (run_mailbox r)) \<and>
     mb_published (run_mailbox r) = mb_replaced (run_mailbox r) + mb_consumed (run_mailbox r) +
       mb_discarded (run_mailbox r) + (if mb_frame (run_mailbox r) = 0 then 0 else 1)"
  using mailbox.inv_run [of ops] by (auto simp: mailbox_inv_def Let_def frame_bag_def)

end
