(* ===== verification/Recovery_Schedule.thy ===== *)
theory Recovery_Schedule
  imports Saccade_Prelude
begin

text \<open>
  The bounded exponential backoff of \<open>src/application/recovery_schedule.hpp\<close>.
\<close>

record recovery_schedule =
  rs_next_attempt_ns :: u64
  rs_attempt :: u32
  rs_pending :: bool

definition recovery_initial_delay_ns :: u64 where "recovery_initial_delay_ns = 250000000"
definition recovery_maximum_delay_ns :: u64 where "recovery_maximum_delay_ns = 8000000000"
definition recovery_maximum_backoff_shift :: u32 where "recovery_maximum_backoff_shift = 5"

definition idle_schedule :: recovery_schedule where
  "idle_schedule = \<lparr>rs_next_attempt_ns = 0, rs_attempt = 0, rs_pending = False\<rparr>"

definition schedule :: "u64 \<Rightarrow> recovery_schedule \<Rightarrow> recovery_schedule" where
  "schedule now_ns s =
     (let delay = min (push_bit (unat (rs_attempt s)) recovery_initial_delay_ns) recovery_maximum_delay_ns
      in s\<lparr>rs_next_attempt_ns := if now_ns > uint64_max - delay then uint64_max else now_ns + delay,
           rs_pending := True\<rparr>)"

definition recovery_start :: "u64 \<Rightarrow> recovery_schedule \<Rightarrow> recovery_schedule" where
  "recovery_start now_ns s = schedule now_ns (s\<lparr>rs_attempt := 0\<rparr>)"

definition recovery_retry :: "u64 \<Rightarrow> recovery_schedule \<Rightarrow> recovery_schedule" where
  "recovery_retry now_ns s =
     schedule now_ns (s\<lparr>rs_attempt := min (rs_attempt s + 1) recovery_maximum_backoff_shift\<rparr>)"

definition recovery_complete :: "recovery_schedule \<Rightarrow> recovery_schedule" where
  "recovery_complete s = s\<lparr>rs_next_attempt_ns := 0, rs_attempt := 0, rs_pending := False\<rparr>"

definition due :: "u64 \<Rightarrow> recovery_schedule \<Rightarrow> bool" where
  "due now_ns s \<longleftrightarrow> rs_pending s \<and> now_ns \<ge> rs_next_attempt_ns s"

datatype recovery_op = Start u64 | Retry u64 | Complete_recovery

fun recovery_step :: "recovery_schedule \<Rightarrow> recovery_op \<Rightarrow> recovery_schedule" where
  "recovery_step s (Start now) = recovery_start now s"
| "recovery_step s (Retry now) = recovery_retry now s"
| "recovery_step s Complete_recovery = recovery_complete s"

definition recovery_inv :: "recovery_schedule \<Rightarrow> bool" where
  "recovery_inv s \<longleftrightarrow> rs_attempt s \<le> recovery_maximum_backoff_shift"

interpretation recovery: invariant_machine idle_schedule recovery_step recovery_inv
proof unfold_locales
  show "recovery_inv idle_schedule" by (simp add: recovery_inv_def idle_schedule_def)
  show "recovery_inv (recovery_step s e)" if "recovery_inv s" for s e
    by (cases e) (simp_all add: recovery_inv_def recovery_start_def recovery_retry_def
        recovery_complete_def schedule_def Let_def)
qed

lemma backoff_delay:
  assumes "a \<le> recovery_maximum_backoff_shift"
  shows "unat (min (push_bit (unat a) recovery_initial_delay_ns) recovery_maximum_delay_ns) =
    250000000 * 2 ^ unat a"
proof -
  have "unat a \<le> 5" using assms by (simp add: recovery_maximum_backoff_shift_def word_le_nat_alt)
  then have "unat a \<in> {0, 1, 2, 3, 4, 5}" by auto
  then show ?thesis
    by (auto simp: recovery_initial_delay_ns_def recovery_maximum_delay_ns_def min_def)
qed

lemma saturating_add:
  "unat (if now > uint64_max - d then uint64_max else now + d) = min (unat now + unat d) (unat uint64_max)"
proof -
  have "d \<le> uint64_max" by (simp add: word_le_nat_alt less_Suc_eq_le [symmetric])
  then have "unat (uint64_max - d) = 18446744073709551615 - unat d" by (simp add: unat_sub)
  moreover have "unat d \<le> 18446744073709551615" by (simp add: less_Suc_eq_le [symmetric])
  ultimately show ?thesis
    by (auto simp: word_less_nat_alt unat_word_ariths not_less min_def)
qed

text \<open>After every sequence of starts, retries and completions a retry schedules the next
  attempt at the current time plus 250 ms doubled once per attempt, at most five times, and
  saturates at the end of the clock; the attempt is due exactly from then on.\<close>

theorem recovery_backoff:
  "let s = foldl recovery_step idle_schedule ops; s' = recovery_retry now s;
       k = min (Suc (unat (rs_attempt s))) 5
   in unat (rs_attempt s') = k \<and> rs_pending s' \<and>
      unat (rs_next_attempt_ns s') = min (unat now + 250000000 * 2 ^ k) (unat uint64_max) \<and>
      due t s' = (rs_next_attempt_ns s' \<le> t)"
proof -
  let ?s = "foldl recovery_step idle_schedule ops"
  let ?a = "min (rs_attempt ?s + 1) recovery_maximum_backoff_shift"
  let ?d = "min (push_bit (unat ?a) recovery_initial_delay_ns) recovery_maximum_delay_ns"
  have "recovery_inv ?s" by (rule recovery.inv_run)
  then have le: "unat (rs_attempt ?s) \<le> 5"
    by (simp add: recovery_inv_def recovery_maximum_backoff_shift_def word_le_nat_alt)
  then have a: "unat ?a = min (Suc (unat (rs_attempt ?s))) 5"
    by (auto simp: recovery_maximum_backoff_shift_def min_def word_le_nat_alt unat_word_ariths)
  have d: "unat ?d = 250000000 * 2 ^ min (Suc (unat (rs_attempt ?s))) 5"
    by (rule trans [OF backoff_delay]) (simp_all add: a)
  let ?s' = "recovery_retry now ?s"
  have attempt: "unat (rs_attempt ?s') = min (Suc (unat (rs_attempt ?s))) 5" and pending: "rs_pending ?s'"
    and "next": "rs_next_attempt_ns ?s' = (if now > uint64_max - ?d then uint64_max else now + ?d)"
    using a by (simp_all add: recovery_retry_def schedule_def Let_def)
  have "unat (rs_next_attempt_ns ?s') =
      min (unat now + 250000000 * 2 ^ min (Suc (unat (rs_attempt ?s))) 5) (unat uint64_max)"
    by (simp only: "next" saturating_add d)
  moreover have "due t ?s' = (rs_next_attempt_ns ?s' \<le> t)" using pending by (simp add: due_def)
  ultimately show ?thesis using attempt pending by (simp only: Let_def simp_thms)
qed

end
