(* ===== verification/Dual_Rate_Scheduler.thy ===== *)
theory Dual_Rate_Scheduler
  imports Saccade_Prelude
begin

text \<open>
  The two-clock scheduler of \<open>src/scheduler/dual_rate_scheduler.cpp\<close>: an interaction clock
  that ticks at most once per wake, and a scene clock that admits one running item and one
  newest pending deadline.
\<close>

record dual_rate_config =
  dc_interaction_period_ns :: u64
  dc_scene_period_ns :: u64

record scheduled_work =
  sw_interaction_due :: bool
  sw_scene_start :: bool
  sw_interaction_time_ns :: u64
  sw_scene_time_ns :: u64

record dual_rate_stats =
  ds_interaction_deadlines :: u64
  ds_interaction_ticks :: u64
  ds_interaction_skipped :: u64
  ds_scene_deadlines :: u64
  ds_scene_started :: u64
  ds_scene_completed :: u64
  ds_scene_replaced :: u64
  ds_time_regressions :: u64

record dual_rate_scheduler =
  dr_config :: dual_rate_config
  dr_stats :: dual_rate_stats
  dr_last_now_ns :: u64
  dr_next_interaction_ns :: u64
  dr_next_scene_ns :: u64
  dr_pending_scene_ns :: u64
  dr_initialized :: bool
  dr_scene_running :: bool
  dr_scene_pending :: bool

definition no_work :: scheduled_work where
  "no_work = \<lparr>sw_interaction_due = False, sw_scene_start = False, sw_interaction_time_ns = 0, sw_scene_time_ns = 0\<rparr>"

definition zero_stats :: dual_rate_stats where
  "zero_stats = \<lparr>ds_interaction_deadlines = 0, ds_interaction_ticks = 0, ds_interaction_skipped = 0,
     ds_scene_deadlines = 0, ds_scene_started = 0, ds_scene_completed = 0, ds_scene_replaced = 0,
     ds_time_regressions = 0\<rparr>"

definition default_config :: dual_rate_config where
  "default_config = \<lparr>dc_interaction_period_ns = 8333333, dc_scene_period_ns = 33333333\<rparr>"

definition fresh_scheduler :: dual_rate_scheduler where
  "fresh_scheduler = \<lparr>dr_config = default_config, dr_stats = zero_stats, dr_last_now_ns = 0,
     dr_next_interaction_ns = 0, dr_next_scene_ns = 0, dr_pending_scene_ns = 0,
     dr_initialized = False, dr_scene_running = False, dr_scene_pending = False\<rparr>"

record due_set =
  due_count :: u64
  due_newest_ns :: u64

text \<open>The deadlines due by \<open>now_ns\<close>, and the next deadline.\<close>

definition consume_due :: "u64 \<Rightarrow> u64 \<Rightarrow> u64 \<Rightarrow> due_set \<times> u64" where
  "consume_due now_ns period_ns next_ns =
     (if now_ns < next_ns then (\<lparr>due_count = 0, due_newest_ns = 0\<rparr>, next_ns)
      else let count = (now_ns - next_ns) div period_ns + 1;
               newest = next_ns + (count - 1) * period_ns;
               maximum = uint64_max;
               next' = (if count > (maximum - next_ns) div period_ns then maximum
                        else next_ns + count * period_ns)
      in (\<lparr>due_count = count, due_newest_ns = newest\<rparr>, next'))"

definition scheduler_initialize ::
  "u64 \<Rightarrow> dual_rate_config \<Rightarrow> dual_rate_scheduler \<Rightarrow> saccade_result \<times> dual_rate_scheduler" where
  "scheduler_initialize now_ns config s =
     (if dr_initialized s then (SACCADE_ERROR_ALREADY_EXISTS, s)
      else if dc_interaction_period_ns config = 0 \<or> dc_scene_period_ns config = 0 then
        (SACCADE_ERROR_INVALID_ARGUMENT, s)
      else (SACCADE_OK, s\<lparr>dr_config := config, dr_last_now_ns := now_ns,
              dr_next_interaction_ns := now_ns, dr_next_scene_ns := now_ns, dr_initialized := True\<rparr>))"

text \<open>The interaction half of \<open>advance\<close>.\<close>

definition advance_interaction ::
  "u64 \<Rightarrow> dual_rate_scheduler \<Rightarrow> scheduled_work \<Rightarrow> dual_rate_scheduler \<times> scheduled_work" where
  "advance_interaction now_ns s work =
     (case consume_due now_ns (dc_interaction_period_ns (dr_config s)) (dr_next_interaction_ns s) of
        (interaction, next') \<Rightarrow>
          let s1 = s\<lparr>dr_next_interaction_ns := next'\<rparr>; st = dr_stats s1
          in if due_count interaction \<noteq> 0 then
               (s1\<lparr>dr_stats := st\<lparr>
                  ds_interaction_deadlines := ds_interaction_deadlines st + due_count interaction,
                  ds_interaction_ticks := ds_interaction_ticks st + 1,
                  ds_interaction_skipped := ds_interaction_skipped st + (due_count interaction - 1)\<rparr>\<rparr>,
                work\<lparr>sw_interaction_due := True, sw_interaction_time_ns := due_newest_ns interaction\<rparr>)
             else (s1, work))"

text \<open>The scene half: start at once when nothing runs, else replace the pending deadline.\<close>

definition advance_scene ::
  "u64 \<Rightarrow> dual_rate_scheduler \<Rightarrow> scheduled_work \<Rightarrow> dual_rate_scheduler \<times> scheduled_work" where
  "advance_scene now_ns s work =
     (case consume_due now_ns (dc_scene_period_ns (dr_config s)) (dr_next_scene_ns s) of
        (scene, next') \<Rightarrow>
          let s1 = s\<lparr>dr_next_scene_ns := next'\<rparr>
          in if due_count scene = 0 then (s1, work)
          else let st = (dr_stats s1)\<lparr>ds_scene_deadlines := ds_scene_deadlines (dr_stats s1) + due_count scene\<rparr>
          in if \<not> dr_scene_running s1 then
               (s1\<lparr>dr_scene_running := True,
                   dr_stats := st\<lparr>ds_scene_started := ds_scene_started st + 1,
                                  ds_scene_replaced := ds_scene_replaced st + (due_count scene - 1)\<rparr>\<rparr>,
                work\<lparr>sw_scene_start := True, sw_scene_time_ns := due_newest_ns scene\<rparr>)
             else
               let replaced = ds_scene_replaced st + (due_count scene - 1)
               in (s1\<lparr>dr_stats := st\<lparr>ds_scene_replaced :=
                        if dr_scene_pending s1 then replaced + 1 else replaced\<rparr>,
                      dr_pending_scene_ns := due_newest_ns scene,
                      dr_scene_pending := True\<rparr>, work))"

definition scheduler_advance ::
  "bool \<Rightarrow> u64 \<Rightarrow> dual_rate_scheduler \<Rightarrow> saccade_result \<times> dual_rate_scheduler \<times> scheduled_work" where
  "scheduler_advance output now_ns s =
     (if \<not> output then (SACCADE_ERROR_INVALID_ARGUMENT, s, no_work)
      else if \<not> dr_initialized s then (SACCADE_ERROR_STATE, s, no_work)
      else if now_ns < dr_last_now_ns s then
        (SACCADE_ERROR_INVALID_ARGUMENT,
         s\<lparr>dr_stats := (dr_stats s)\<lparr>ds_time_regressions := ds_time_regressions (dr_stats s) + 1\<rparr>\<rparr>, no_work)
      else case advance_interaction now_ns (s\<lparr>dr_last_now_ns := now_ns\<rparr>) no_work of
        (s1, work1) \<Rightarrow>
          (case advance_scene now_ns s1 work1 of (s2, work2) \<Rightarrow> (SACCADE_OK, s2, work2)))"

definition complete_scene ::
  "bool \<Rightarrow> dual_rate_scheduler \<Rightarrow> saccade_result \<times> dual_rate_scheduler \<times> scheduled_work" where
  "complete_scene output s =
     (if \<not> output then (SACCADE_ERROR_INVALID_ARGUMENT, s, no_work)
      else if \<not> dr_initialized s \<or> \<not> dr_scene_running s then (SACCADE_ERROR_STATE, s, no_work)
      else let st = (dr_stats s)\<lparr>ds_scene_completed := ds_scene_completed (dr_stats s) + 1\<rparr>
      in if dr_scene_pending s then
           (SACCADE_OK,
            s\<lparr>dr_scene_pending := False, dr_stats := st\<lparr>ds_scene_started := ds_scene_started st + 1\<rparr>\<rparr>,
            no_work\<lparr>sw_scene_start := True, sw_scene_time_ns := dr_pending_scene_ns s\<rparr>)
         else (SACCADE_OK, s\<lparr>dr_scene_running := False, dr_stats := st\<rparr>, no_work))"

definition cancel_scene ::
  "bool \<Rightarrow> bool \<Rightarrow> dual_rate_scheduler \<Rightarrow> saccade_result \<times> dual_rate_scheduler \<times> scheduled_work" where
  "cancel_scene discard_pending output s =
     (if \<not> output then (SACCADE_ERROR_INVALID_ARGUMENT, s, no_work)
      else if \<not> dr_initialized s \<or> \<not> dr_scene_running s then (SACCADE_ERROR_STATE, s, no_work)
      else if discard_pending \<or> \<not> dr_scene_pending s then
        (SACCADE_OK, s\<lparr>dr_scene_running := False, dr_scene_pending := False\<rparr>, no_work)
      else (SACCADE_OK,
            s\<lparr>dr_scene_pending := False,
              dr_stats := (dr_stats s)\<lparr>ds_scene_started := ds_scene_started (dr_stats s) + 1\<rparr>\<rparr>,
            no_work\<lparr>sw_scene_start := True, sw_scene_time_ns := dr_pending_scene_ns s\<rparr>))"

lemmas [op_defs] = scheduler_initialize_def advance_interaction_def advance_scene_def
  scheduler_advance_def complete_scene_def cancel_scene_def

subsection \<open>Executions\<close>

text \<open>
  The statistics leave two events uncounted: a cancellation, and a pending deadline that a
  cancellation discards. An execution records both beside the scheduler, and the time at which
  the clocks were started and whether they were advanced since.
\<close>

datatype scheduler_op =
    Initialize u64 dual_rate_config | Advance u64 | Complete_scene | Cancel_scene bool

record scheduler_run =
  sr_scheduler :: dual_rate_scheduler
  sr_cancelled :: u64
  sr_discarded :: u64
  sr_start_ns :: u64
  sr_advanced :: bool

definition initial_scheduler_run :: scheduler_run where
  "initial_scheduler_run = \<lparr>sr_scheduler = fresh_scheduler, sr_cancelled = 0, sr_discarded = 0, sr_start_ns = 0,
     sr_advanced = False\<rparr>"

fun scheduler_step :: "scheduler_run \<Rightarrow> scheduler_op \<Rightarrow> scheduler_run" where
  "scheduler_step r (Initialize now config) =
     (let (result, s') = scheduler_initialize now config (sr_scheduler r)
      in r\<lparr>sr_scheduler := s', sr_start_ns := (if result = SACCADE_OK then now else sr_start_ns r)\<rparr>)"
| "scheduler_step r (Advance now) =
     (let (result, s', work) = scheduler_advance True now (sr_scheduler r)
      in r\<lparr>sr_scheduler := s', sr_advanced := (result = SACCADE_OK \<or> sr_advanced r)\<rparr>)"
| "scheduler_step r Complete_scene = r\<lparr>sr_scheduler := fst (snd (complete_scene True (sr_scheduler r)))\<rparr>"
| "scheduler_step r (Cancel_scene discard) =
     (let s = sr_scheduler r; (result, s', work) = cancel_scene discard True s
      in r\<lparr>sr_scheduler := s',
           sr_cancelled := sr_cancelled r + (if result = SACCADE_OK then 1 else 0),
           sr_discarded := sr_discarded r +
             (if result = SACCADE_OK \<and> dr_scene_pending s \<and> discard then 1 else 0)\<rparr>)"

definition bit_of :: "bool \<Rightarrow> u64" where
  "bit_of b = (if b then 1 else 0)"

definition scheduler_inv :: "scheduler_run \<Rightarrow> bool" where
  "scheduler_inv r \<longleftrightarrow> (let s = sr_scheduler r; st = dr_stats s in
     (dr_scene_pending s \<longrightarrow> dr_scene_running s) \<and>
     ds_interaction_deadlines st = ds_interaction_ticks st + ds_interaction_skipped st \<and>
     ds_scene_started st = ds_scene_completed st + sr_cancelled r + bit_of (dr_scene_running s) \<and>
     ds_scene_deadlines st = ds_scene_started st + ds_scene_replaced st + bit_of (dr_scene_pending s) + sr_discarded r)"

lemma scheduler_inv_start: "scheduler_inv initial_scheduler_run"
  by (simp add: scheduler_inv_def initial_scheduler_run_def fresh_scheduler_def zero_stats_def bit_of_def)

lemma advance_interaction_inv:
  "scheduler_inv r \<Longrightarrow> scheduler_inv (r\<lparr>sr_scheduler := fst (advance_interaction now (sr_scheduler r) work)\<rparr>)"
  by (auto simp: scheduler_inv_def advance_interaction_def Let_def split: prod.split)

lemma advance_scene_inv:
  "scheduler_inv r \<Longrightarrow> scheduler_inv (r\<lparr>sr_scheduler := fst (advance_scene now (sr_scheduler r) work)\<rparr>)"
  by (auto simp: scheduler_inv_def advance_scene_def bit_of_def Let_def split: prod.split)

lemma scheduler_inv_ghost [simp]:
  "scheduler_inv (r\<lparr>sr_scheduler := s, sr_advanced := b\<rparr>) \<longleftrightarrow> scheduler_inv (r\<lparr>sr_scheduler := s\<rparr>)"
  by (simp add: scheduler_inv_def)

lemma scheduler_step_inv: "scheduler_inv r \<Longrightarrow> scheduler_inv (scheduler_step r e)"
proof (cases e)
  case (Initialize now config)
  then show "scheduler_inv r \<Longrightarrow> ?thesis"
    by (auto simp: scheduler_inv_def scheduler_initialize_def Let_def split: prod.split)
next
  case (Advance now)
  assume inv: "scheduler_inv r"
  let ?s = "(sr_scheduler r)\<lparr>dr_last_now_ns := now\<rparr>"
  let ?p = "advance_interaction now ?s no_work"
  have "scheduler_inv (r\<lparr>sr_scheduler := ?s\<rparr>)" using inv by (simp add: scheduler_inv_def Let_def)
  from advance_interaction_inv [OF this, of now no_work]
  have "scheduler_inv (r\<lparr>sr_scheduler := fst ?p\<rparr>)" by simp
  from advance_scene_inv [OF this, of now "snd ?p"]
  have "scheduler_inv (r\<lparr>sr_scheduler := fst (advance_scene now (fst ?p) (snd ?p))\<rparr>)" by simp
  moreover have "scheduler_inv (r\<lparr>sr_scheduler := (sr_scheduler r)\<lparr>dr_stats := (dr_stats (sr_scheduler r))
      \<lparr>ds_time_regressions := n\<rparr>\<rparr>\<rparr>)" for n
    using inv by (simp add: scheduler_inv_def Let_def)
  ultimately show ?thesis
    using inv Advance by (simp add: scheduler_advance_def case_prod_beta)
next
  case Complete_scene
  then show "scheduler_inv r \<Longrightarrow> ?thesis"
    by (auto simp: scheduler_inv_def complete_scene_def bit_of_def Let_def)
next
  case (Cancel_scene discard)
  then show "scheduler_inv r \<Longrightarrow> ?thesis"
    by (auto simp: scheduler_inv_def cancel_scene_def bit_of_def Let_def)
qed

interpretation scheduler: invariant_machine initial_scheduler_run scheduler_step scheduler_inv
  by unfold_locales (auto intro: scheduler_inv_start scheduler_step_inv)

subsection \<open>Deadlines\<close>

text \<open>The word computation of \<open>consume_due\<close>, read as natural numbers.\<close>

lemma consume_due_nat:
  assumes "period \<noteq> 0" "next_ns \<le> now" "period \<noteq> 1 \<or> now \<noteq> uint64_max"
  defines "q \<equiv> (unat now - unat next_ns) div unat period"
  shows "unat (due_count (fst (consume_due now period next_ns))) = Suc q"
    "unat (due_newest_ns (fst (consume_due now period next_ns))) = unat next_ns + q * unat period"
    "unat (snd (consume_due now period next_ns)) =
       (if Suc q * unat period \<le> unat uint64_max - unat next_ns then unat next_ns + Suc q * unat period
        else unat uint64_max)"
proof -
  let ?c = "(now - next_ns) div period + 1"
  have p: "0 < unat period" using assms(1) by (simp add: unat_gt_0)
  have le: "unat next_ns \<le> unat now" using assms(2) by (simp add: word_le_nat_alt)
  have nl: "\<not> now < next_ns" using assms(2) by simp
  have quot: "unat ((now - next_ns) div period) = q"
    using assms(2) by (simp add: q_def unat_div unat_sub)
  have small: "Suc q < 18446744073709551616"
  proof (cases "period = 1")
    case True
    then have "unat now \<noteq> 18446744073709551615" using assms(3) by (auto simp: word_unat_eq_iff)
    then have "unat now < 18446744073709551615" using unat64_lt [of now] by linarith
    then have "unat now - unat next_ns < 18446744073709551615" by linarith
    then show ?thesis using True by (simp add: q_def)
  next
    case False
    then have "unat period \<noteq> 1" by (metis unat_1 unsigned_word_eqI)
    then have "2 \<le> unat period" using p by linarith
    then have "2 * q \<le> unat period * q" by (rule mult_le_mono1)
    also have "\<dots> \<le> unat now - unat next_ns" unfolding q_def by (rule times_div_less_eq_dividend)
    finally show ?thesis using unat64_lt [of now] by linarith
  qed
  have c: "unat ?c = Suc q"
    using small unat_Suc_word [of "(now - next_ns) div period"] unfolding quot by simp
  show "unat (due_count (fst (consume_due now period next_ns))) = Suc q"
    using nl c by (simp add: consume_due_def Let_def)
  have mul: "q * unat period \<le> unat now - unat next_ns" unfolding q_def by (rule div_times_less_eq_dividend)
  have "unat (next_ns + (?c - 1) * period) = unat next_ns + q * unat period"
  proof -
    have s1: "q * unat period < 18446744073709551616" using mul unat64_lt [of now] by linarith
    have s2: "unat next_ns + q * unat period < 18446744073709551616"
      using mul le unat64_lt [of now] by linarith
    have "unat ((?c - 1) * period) = q * unat period"
      using s1 quot unat_word_ariths(2) [of "(now - next_ns) div period" period]
      by (simp del: unat_div unat_div_distrib add: mod_less)
    then show ?thesis
      using s2 unat_word_ariths(1) [of next_ns "(?c - 1) * period"] by simp
  qed
  then show "unat (due_newest_ns (fst (consume_due now period next_ns))) = unat next_ns + q * unat period"
    using nl by (simp add: consume_due_def Let_def)
  have m: "unat (uint64_max - next_ns) = unat uint64_max - unat next_ns"
    by (rule unat_sub) (simp add: word_le_nat_alt less_Suc_eq_le [symmetric])
  have big: "?c > (uint64_max - next_ns) div period \<longleftrightarrow> \<not> Suc q * unat period \<le> unat uint64_max - unat next_ns"
    using c p by (simp add: word_less_nat_alt unat_div m div_less_iff_less_mult not_le mult.commute)
  have sum: "unat (next_ns + ?c * period) = unat next_ns + Suc q * unat period"
    if "Suc q * unat period \<le> unat uint64_max - unat next_ns"
  proof -
    have room: "unat (uint64_max :: u64) = 18446744073709551615" by simp
    have le': "unat next_ns \<le> 18446744073709551615" using unat64_lt [of next_ns] by linarith
    have s2: "unat next_ns + Suc q * unat period < 18446744073709551616"
      using that le' unfolding room by linarith
    then have s1: "Suc q * unat period < 18446744073709551616" by linarith
    have "unat (?c * period) = Suc q * unat period"
      using s1 c unat_word_ariths(2) [of ?c period] by (simp only: mod_less) (simp add: mod_less)
    then show ?thesis
      using s2 unat_word_ariths(1) [of next_ns "?c * period"] by simp
  qed
  show "unat (snd (consume_due now period next_ns)) =
       (if Suc q * unat period \<le> unat uint64_max - unat next_ns then unat next_ns + Suc q * unat period
        else unat uint64_max)"
    using nl big sum by (simp add: consume_due_def Let_def)
qed

text \<open>A clock that was started and advanced without running against the end of the clock has counted
  every deadline up to the last time it saw, once.\<close>

lemma clock_consume:
  fixes period start last now n next_ns :: u64
  assumes period: "period \<noteq> 0" and order: "start \<le> last" "last \<le> now"
    and room: "unat now + unat period \<le> unat uint64_max"
    and n: "unat n = (if advanced then (unat last - unat start) div unat period + 1 else 0)"
    and next': "unat next_ns = unat start + unat n * unat period"
  defines "d \<equiv> consume_due now period next_ns"
  shows "unat (n + due_count (fst d)) = (unat now - unat start) div unat period + 1 \<and>
    unat (snd d) = unat start + unat (n + due_count (fst d)) * unat period"
proof -
  have p: "0 < unat period" using period by (simp add: unat_gt_0)
  have le: "unat start \<le> unat last" "unat last \<le> unat now" using order by (simp_all add: word_le_nat_alt)
  show ?thesis
  proof (cases "now < next_ns")
    case True
    then have "unat now < unat start + unat n * unat period" unfolding next' [symmetric] by (simp add: word_less_nat_alt)
    then have "unat now - unat start < unat n * unat period" "unat n \<noteq> 0" using le by (auto intro: ccontr)
    then have "(unat now - unat start) div unat period < unat n" "advanced" using n p
      by (simp_all add: less_mult_imp_div_less split: if_splits)
    moreover have "(unat last - unat start) div unat period \<le> (unat now - unat start) div unat period"
      using le by (intro div_le_mono) simp
    ultimately have "unat n = (unat now - unat start) div unat period + 1" using n by simp
    then show ?thesis using True next' by (simp add: d_def consume_due_def)
  next
    case False
    then have due: "next_ns \<le> now" by simp
    let ?q = "(unat now - unat next_ns) div unat period"
    have "period \<noteq> 1 \<or> now \<noteq> uint64_max" using room by auto
    note c = consume_due_nat [OF period due this, folded d_def]
    have nn: "unat next_ns \<le> unat now" using due by (simp add: word_le_nat_alt)
    have split: "unat now - unat start = (unat now - unat next_ns) + unat n * unat period" using nn unfolding next' by simp
    have quot: "(unat now - unat start) div unat period = unat n + ?q" unfolding split using p by simp
    have mul: "?q * unat period \<le> unat now - unat next_ns" by (rule div_times_less_eq_dividend)
    have "Suc ?q * unat period \<le> unat uint64_max - unat next_ns"
      using mul room nn unfolding mult_Suc by linarith
    then have nx: "unat (snd d) = unat next_ns + Suc ?q * unat period" using c(3) by simp
    have sum: "unat start + (unat n + Suc ?q) * unat period = unat (snd d)" unfolding nx next' by (simp add: algebra_simps)
    have "unat n + Suc ?q \<le> (unat n + Suc ?q) * unat period"
      using mult_le_mono2 [OF Suc_leI [OF p], of "unat n + Suc ?q"] by simp
    then have "unat n + Suc ?q < 18446744073709551616" using sum unat64_lt [of "snd d"] by linarith
    then have "unat (n + due_count (fst d)) = unat n + Suc ?q"
      using c(1) unat_add_lem [of n "due_count (fst d)"] by simp
    then show ?thesis using quot sum by simp
  qed
qed

definition clock_exact :: "scheduler_run \<Rightarrow> u64 \<Rightarrow> u64 \<Rightarrow> u64 \<Rightarrow> bool" where
  "clock_exact r period next_ns deadlines \<longleftrightarrow>
     (let last = unat (dr_last_now_ns (sr_scheduler r)); start = unat (sr_start_ns r) in
      if last + unat period \<le> unat uint64_max
      then unat deadlines = (if sr_advanced r then (last - start) div unat period + 1 else 0) \<and>
        unat next_ns = start + unat deadlines * unat period
      else True)"

definition scheduler_clocks :: "scheduler_run \<Rightarrow> bool" where
  "scheduler_clocks r \<longleftrightarrow> (let s = sr_scheduler r; c = dr_config s; st = dr_stats s in
     if dr_initialized s
     then dc_interaction_period_ns c \<noteq> 0 \<and> dc_scene_period_ns c \<noteq> 0 \<and> sr_start_ns r \<le> dr_last_now_ns s \<and>
       clock_exact r (dc_interaction_period_ns c) (dr_next_interaction_ns s) (ds_interaction_deadlines st) \<and>
       clock_exact r (dc_scene_period_ns c) (dr_next_scene_ns s) (ds_scene_deadlines st)
     else \<not> sr_advanced r \<and> ds_interaction_deadlines st = 0 \<and> ds_scene_deadlines st = 0)"

lemma scheduler_advance_clocks:
  assumes "scheduler_advance True now s = (SACCADE_OK, s', work)"
  defines "i \<equiv> consume_due now (dc_interaction_period_ns (dr_config s)) (dr_next_interaction_ns s)"
    and "c \<equiv> consume_due now (dc_scene_period_ns (dr_config s)) (dr_next_scene_ns s)"
  shows "dr_initialized s \<and> dr_last_now_ns s \<le> now \<and> dr_config s' = dr_config s \<and> dr_initialized s' \<and> dr_last_now_ns s' = now \<and>
    dr_next_interaction_ns s' = snd i \<and> dr_next_scene_ns s' = snd c \<and>
    ds_interaction_deadlines (dr_stats s') = ds_interaction_deadlines (dr_stats s) + due_count (fst i) \<and>
    ds_scene_deadlines (dr_stats s') = ds_scene_deadlines (dr_stats s) + due_count (fst c)"
  using assms(1) unfolding i_def c_def scheduler_advance_def advance_interaction_def advance_scene_def Let_def
  by (auto simp: not_less split: if_splits prod.splits)

lemma clock_exact_advance:
  assumes "clock_exact r period next_ns n" "period \<noteq> 0" "sr_start_ns r \<le> dr_last_now_ns (sr_scheduler r)"
    "dr_last_now_ns (sr_scheduler r) \<le> now" "dr_last_now_ns s' = now" "d = consume_due now period next_ns"
  shows "clock_exact (r\<lparr>sr_scheduler := s', sr_advanced := True\<rparr>) period (snd d) (n + due_count (fst d))"
proof (cases "unat now + unat period \<le> unat uint64_max")
  case True
  have "unat (dr_last_now_ns (sr_scheduler r)) \<le> unat now" using assms(4) by (simp add: word_le_nat_alt)
  then have "unat (dr_last_now_ns (sr_scheduler r)) + unat period \<le> unat uint64_max" using True by linarith
  with assms(1) have "unat n = (if sr_advanced r
      then (unat (dr_last_now_ns (sr_scheduler r)) - unat (sr_start_ns r)) div unat period + 1 else 0)"
    "unat next_ns = unat (sr_start_ns r) + unat n * unat period" unfolding clock_exact_def Let_def by metis+
  from clock_consume [OF assms(2-4) True this] show ?thesis
    using True assms(5,6) by (simp add: clock_exact_def Let_def)
next
  case False
  then show ?thesis using assms(5) by (simp add: clock_exact_def Let_def)
qed

lemma scheduler_clocks_start: "scheduler_clocks initial_scheduler_run"
  by (simp add: scheduler_clocks_def initial_scheduler_run_def fresh_scheduler_def zero_stats_def)

lemma scheduler_clocks_frame:
  assumes "scheduler_clocks r" "dr_initialized s' = dr_initialized (sr_scheduler r)" "dr_config s' = dr_config (sr_scheduler r)"
    "dr_last_now_ns s' = dr_last_now_ns (sr_scheduler r)" "dr_next_interaction_ns s' = dr_next_interaction_ns (sr_scheduler r)"
    "dr_next_scene_ns s' = dr_next_scene_ns (sr_scheduler r)"
    "ds_interaction_deadlines (dr_stats s') = ds_interaction_deadlines (dr_stats (sr_scheduler r))"
    "ds_scene_deadlines (dr_stats s') = ds_scene_deadlines (dr_stats (sr_scheduler r))"
    "sr_scheduler r' = s'" "sr_start_ns r' = sr_start_ns r" "sr_advanced r' = sr_advanced r"
  shows "scheduler_clocks r'"
  using assms unfolding scheduler_clocks_def clock_exact_def Let_def by simp

lemma scheduler_clocks_step: "scheduler_clocks r \<Longrightarrow> scheduler_clocks (scheduler_step r e)"
proof (cases e)
  case (Initialize now config)
  assume inv: "scheduler_clocks r"
  show ?thesis
  proof (cases "dr_initialized (sr_scheduler r) \<or> dc_interaction_period_ns config = 0 \<or> dc_scene_period_ns config = 0")
    case True
    then have "fst (scheduler_initialize now config (sr_scheduler r)) \<noteq> SACCADE_OK"
      "snd (scheduler_initialize now config (sr_scheduler r)) = sr_scheduler r" by (auto simp: scheduler_initialize_def)
    then show ?thesis using inv Initialize by (simp add: split_beta Let_def)
  next
    case False
    then show ?thesis using inv Initialize
      by (simp add: scheduler_initialize_def scheduler_clocks_def clock_exact_def Let_def)
  qed
next
  case (Advance now)
  assume inv: "scheduler_clocks r"
  obtain result s' work where a: "scheduler_advance True now (sr_scheduler r) = (result, s', work)" by (metis prod_cases3)
  show ?thesis
  proof (cases "result = SACCADE_OK")
    case True
    note f = scheduler_advance_clocks [OF a [unfolded True]]
    have i: "dc_interaction_period_ns (dr_config (sr_scheduler r)) \<noteq> 0" "dc_scene_period_ns (dr_config (sr_scheduler r)) \<noteq> 0"
      "sr_start_ns r \<le> dr_last_now_ns (sr_scheduler r)"
      "clock_exact r (dc_interaction_period_ns (dr_config (sr_scheduler r))) (dr_next_interaction_ns (sr_scheduler r))
        (ds_interaction_deadlines (dr_stats (sr_scheduler r)))"
      "clock_exact r (dc_scene_period_ns (dr_config (sr_scheduler r))) (dr_next_scene_ns (sr_scheduler r))
        (ds_scene_deadlines (dr_stats (sr_scheduler r)))"
      using inv f by (simp_all add: scheduler_clocks_def Let_def)
    have le: "dr_last_now_ns (sr_scheduler r) \<le> now" "dr_last_now_ns s' = now" using f by simp_all
    have "sr_start_ns r \<le> now" using i(3) le(1) by (rule order_trans)
    then show ?thesis
      using f clock_exact_advance [OF i(4,1,3) le refl] clock_exact_advance [OF i(5,2,3) le refl] i(1,2)
      unfolding Advance scheduler_step.simps a Let_def prod.case True by (simp add: scheduler_clocks_def Let_def)
  next
    case False
    then have same: "s' = sr_scheduler r \<or> s' = (sr_scheduler r)\<lparr>dr_stats := (dr_stats (sr_scheduler r))\<lparr>ds_time_regressions :=
        ds_time_regressions (dr_stats (sr_scheduler r)) + 1\<rparr>\<rparr>"
      using a by (auto simp: scheduler_advance_def split: if_splits prod.splits)
    show ?thesis by (rule scheduler_clocks_frame [OF inv, of s']) (use same False in \<open>auto simp: Advance a\<close>)
  qed
next
  case Complete_scene
  assume inv: "scheduler_clocks r"
  show ?thesis by (rule scheduler_clocks_frame [OF inv, of "fst (snd (complete_scene True (sr_scheduler r)))"])
      (simp_all add: Complete_scene complete_scene_def Let_def)
next
  case (Cancel_scene discard)
  assume inv: "scheduler_clocks r"
  show ?thesis by (rule scheduler_clocks_frame [OF inv, of "fst (snd (cancel_scene discard True (sr_scheduler r)))"])
      (simp_all add: Cancel_scene cancel_scene_def Let_def)
qed

interpretation scheduler_clock: invariant_machine initial_scheduler_run scheduler_step scheduler_clocks
  by unfold_locales (auto intro: scheduler_clocks_start scheduler_clocks_step)

subsection \<open>Properties\<close>

text \<open>C29. In every execution of the scheduler each interaction deadline is either ticked or
  counted as skipped, each scene deadline was started, counted as replaced, discarded by a
  cancellation, or is the one pending; a pending scene waits only behind a running one; and
  the scenes started exceed those completed or cancelled by exactly the one that is running:
  at most one scene runs at any time. The deadlines counted are all there were: on each clock, as
  long as the last time seen is one period from the end of the 64-bit clock, they are the
  multiples of the period from the start up to that time, each counted once, and the next deadline
  is the one after them; none is counted before the first advance.\<close>

theorem scheduler_accounting:
  "let r = foldl scheduler_step initial_scheduler_run ops; s = sr_scheduler r; st = dr_stats s;
       last = unat (dr_last_now_ns s); start = unat (sr_start_ns r);
       exact = (\<lambda>period next_ns deadlines.
         0 < unat period \<and>
         (if last + unat period \<le> unat uint64_max
          then unat deadlines = (if sr_advanced r then (last - start) div unat period + 1 else 0) \<and>
            unat next_ns = start + unat deadlines * unat period
          else True)) in
     ds_interaction_deadlines st = ds_interaction_ticks st + ds_interaction_skipped st \<and>
     ds_scene_deadlines st = ds_scene_started st + ds_scene_replaced st + bit_of (dr_scene_pending s) + sr_discarded r \<and>
     ds_scene_started st = ds_scene_completed st + sr_cancelled r + bit_of (dr_scene_running s) \<and>
     (dr_scene_running s \<or> dr_scene_pending s = False) \<and>
     (if dr_initialized s
      then start \<le> last \<and>
        exact (dc_interaction_period_ns (dr_config s)) (dr_next_interaction_ns s) (ds_interaction_deadlines st) \<and>
        exact (dc_scene_period_ns (dr_config s)) (dr_next_scene_ns s) (ds_scene_deadlines st)
      else ds_interaction_deadlines st = 0 \<and> ds_scene_deadlines st = 0)"
proof -
  define r where "r = foldl scheduler_step initial_scheduler_run ops"
  note i = scheduler.inv_run [of ops, folded r_def] scheduler_clock.inv_run [of ops, folded r_def]
  have "(dr_scene_running (sr_scheduler r) \<or> dr_scene_pending (sr_scheduler r) = False)"
    using i(1) unfolding scheduler_inv_def Let_def by blast
  with i show ?thesis unfolding r_def [symmetric] scheduler_inv_def scheduler_clocks_def clock_exact_def Let_def
    unat_gt_0 word_le_nat_alt [symmetric]
    by (cases "dr_initialized (sr_scheduler r)") (simp_all only: if_True if_False, blast+)
qed


text \<open>When a deadline is due, \<open>consume_due\<close> reports the newest one: it lies on the period
  grid, not after the current time and less than one period before it; the count covers every
  deadline passed; and the next deadline lies strictly in the future, or the clock has no room
  for another one.\<close>

theorem consume_due_newest:
  assumes "1 < period" "next_ns \<le> now" "consume_due now period next_ns = (d, next')"
  shows "unat (due_newest_ns d) = unat next_ns + (unat (due_count d) - 1) * unat period \<and>
    unat (due_newest_ns d) \<le> unat now \<and> unat now < unat (due_newest_ns d) + unat period \<and>
    0 < due_count d \<and> (now < next' \<or> next' = uint64_max)"
proof -
  let ?q = "(unat now - unat next_ns) div unat period"
  have le: "unat next_ns \<le> unat now" using assms(2) by (simp add: word_le_nat_alt)
  have p: "0 < unat period" using assms(1) by (simp add: word_less_nat_alt)
  have "period \<noteq> 0" "period \<noteq> 1 \<or> now \<noteq> uint64_max" using assms(1) by auto
  note n = consume_due_nat [OF this(1) assms(2) this(2)]
  have c: "unat (due_count d) = Suc ?q" and newest: "unat (due_newest_ns d) = unat next_ns + ?q * unat period"
    and nx: "unat next' = (if Suc ?q * unat period \<le> unat uint64_max - unat next_ns
      then unat next_ns + Suc ?q * unat period else unat uint64_max)"
    using n assms(3) by simp_all
  have lo: "?q * unat period \<le> unat now - unat next_ns" by (rule div_times_less_eq_dividend)
  have hi: "unat now - unat next_ns < Suc ?q * unat period"
    using p by (metis dividend_less_div_times mult_Suc add.commute)
  have "now < next' \<or> next' = uint64_max"
    using nx hi le by (auto simp: word_less_nat_alt unsigned_word_eqI split: if_splits)
  moreover have "0 < due_count d" using c by (simp add: word_less_nat_alt)
  moreover have "unat (due_newest_ns d) \<le> unat now" unfolding newest using lo le by linarith
  moreover have "unat now < unat (due_newest_ns d) + unat period"
    unfolding newest using hi le by simp
  moreover have "unat (due_newest_ns d) = unat next_ns + (unat (due_count d) - 1) * unat period"
    unfolding newest c by simp
  ultimately show ?thesis by blast
qed

theorem consume_due_newest_witness:
  "(1 :: u64) < 10 \<and> (100 :: u64) \<le> 137 \<and>
   consume_due 137 10 100 = (\<lparr>due_count = 4, due_newest_ns = 130\<rparr>, 140) \<and>
   unat (130 :: u64) \<le> unat (137 :: u64) \<and> (137 :: u64) < 140"
proof -
  have h: "(1 :: u64) < 10" "(100 :: u64) \<le> 137"
    "consume_due 137 10 100 = (\<lparr>due_count = 4, due_newest_ns = 130\<rparr>, 140)"
    by (simp, simp, code_simp)
  show ?thesis using h consume_due_newest [OF h] by simp
qed

end
