(* ===== verification/Utf8.thy ===== *)
theory Utf8
  imports Saccade_Prelude
begin

text \<open>
  The two UTF-8 readers of the program: the cursor decoder of \<open>src/input/utf8.hpp\<close>, which
  the input executors step through a text payload, and the whole-text check of
  \<open>src/scene/packet.cpp\<close>, which guards the text lane of a target packet. The reference is the
  encoder of one Unicode scalar value.
\<close>

text \<open>The lead byte: payload bits, smallest code point of the length, continuation bytes.\<close>

definition utf8_lead :: "u8 \<Rightarrow> (u32 \<times> u32 \<times> nat) option" where
  "utf8_lead first =
     (if first AND 0xE0 = 0xC0 then Some (ucast (first AND 0x1F), 0x80, 1)
      else if first AND 0xF0 = 0xE0 then Some (ucast (first AND 0x0F), 0x800, 2)
      else if first AND 0xF8 = 0xF0 then Some (ucast (first AND 0x07), 0x10000, 3)
      else None)"

text \<open>The continuation loop; the cursor stops behind the first byte that does not continue.\<close>

fun utf8_continue :: "nat \<Rightarrow> u32 \<Rightarrow> u8 list \<Rightarrow> u32 option \<times> u8 list" where
  "utf8_continue 0 v bs = (Some v, bs)"
| "utf8_continue (Suc n) v [] = (None, [])"
| "utf8_continue (Suc n) v (b # bs) =
     (if b AND 0xC0 \<noteq> 0x80 then (None, bs)
      else utf8_continue n (push_bit 6 v OR ucast (b AND 0x3F)) bs)"

definition utf8_rejected :: "u32 \<Rightarrow> u32 \<Rightarrow> bool" where
  "utf8_rejected v minimum \<longleftrightarrow> v < minimum \<or> v > 0x10FFFF \<or> (v \<ge> 0xD800 \<and> v \<le> 0xDFFF)"

text \<open>\<open>decode_utf8\<close>: the code point, or nothing, and the bytes behind the cursor.\<close>

fun decode_utf8 :: "u8 list \<Rightarrow> u32 option \<times> u8 list" where
  "decode_utf8 [] = (None, [])"
| "decode_utf8 (first # bs) =
     (if first < 0x80 then (Some (ucast first), bs)
      else case utf8_lead first of
        None \<Rightarrow> (None, bs)
      | Some (v, minimum, n) \<Rightarrow>
          if length bs < n then (None, bs)
          else case utf8_continue n v bs of
            (None, rest) \<Rightarrow> (None, rest)
          | (Some c, rest) \<Rightarrow> if utf8_rejected c minimum then (None, rest) else (Some c, rest))"

lemma utf8_continue_length: "length (snd (utf8_continue n v bs)) \<le> length bs"
  by (induction n v bs rule: utf8_continue.induct) auto

text \<open>\<open>valid_utf8\<close> of the packet reader: the same decoding, and no NUL byte.\<close>

function valid_utf8 :: "u8 list \<Rightarrow> bool" where
  "valid_utf8 [] = True"
| "valid_utf8 (first # bs) =
     (if first = 0 then False
      else if first < 0x80 then valid_utf8 bs
      else case utf8_lead first of
        None \<Rightarrow> False
      | Some (v, minimum, n) \<Rightarrow>
          if n > length bs then False
          else case utf8_continue n v bs of
            (None, rest) \<Rightarrow> False
          | (Some c, rest) \<Rightarrow> if utf8_rejected c minimum then False else valid_utf8 rest)"
  by pat_completeness auto
termination
proof (relation "measure length")
  show "((bs, first # bs) \<in> measure length)" for bs :: "u8 list" and first by simp
next
  fix first :: u8 and bs x2 x xa y xb ya y' x2'
  assume "(xb :: u32 option, ya) = utf8_continue y xa bs"
  then show "(ya, first # bs) \<in> measure length"
    using utf8_continue_length [of y xa bs] by (simp add: less_Suc_eq_le) (metis snd_conv)
qed auto

subsection \<open>Bytes\<close>

text \<open>A fact about one byte is checked on all 256 of them.\<close>

lemma byte_cases:
  assumes "list_all (\<lambda>n. P (word_of_nat n)) [0..<256]"
  shows "P (w :: u8)"
proof -
  have "unat w \<in> set [0..<256]" using unsigned_less [of w] by simp
  then have "P (word_of_nat (unat w))" using assms by (simp only: list_all_iff)
  then show ?thesis by simp
qed

lemma byte_and: "unat (b AND 0xC0 :: u8) = unat b div 64 * 64"
 "unat (b AND 0x3F :: u8) = unat b mod 64"
proof -
  show "unat (b AND 0xC0 :: u8) = unat b div 64 * 64"
    by (rule byte_cases [of "\<lambda>b. unat (b AND 0xC0 :: u8) = unat b div 64 * 64"]) code_simp
  show "unat (b AND 0x3F :: u8) = unat b mod 64"
    by (rule byte_cases [of "\<lambda>b. unat (b AND 0x3F :: u8) = unat b mod 64"]) code_simp
qed

lemma utf8_lead_nat: 
  "utf8_lead b = (if unat b < 0xC0 then None
     else if unat b < 0xE0 then Some (word_of_nat (unat b - 0xC0), 0x80, 1)
     else if unat b < 0xF0 then Some (word_of_nat (unat b - 0xE0), 0x800, 2)
     else if unat b < 0xF8 then Some (word_of_nat (unat b - 0xF0), 0x10000, 3)
     else None)"
  by (rule byte_cases [of "\<lambda>b. utf8_lead b = (if unat b < 0xC0 then None
     else if unat b < 0xE0 then Some (word_of_nat (unat b - 0xC0), 0x80, 1)
     else if unat b < 0xF0 then Some (word_of_nat (unat b - 0xE0), 0x800, 2)
     else if unat b < 0xF8 then Some (word_of_nat (unat b - 0xF0), 0x10000, 3)
     else None)"]) code_simp

lemma utf8_shift:
  assumes "unat (v :: u32) < 2 ^ 26" 
  shows "unat (push_bit 6 v OR ucast (b AND 0x3F :: u8)) = unat v * 64 + unat b mod 64"
proof -
  have "push_bit 6 v OR ucast (b AND 0x3F :: u8) = push_bit 6 v + (ucast (b AND 0x3F :: u8) :: u32)"
  proof (rule disjunctive_add_eq_or [symmetric], rule bit_word_eqI)
    fix n show "bit (push_bit 6 v AND ucast (b AND 0x3F :: u8)) n = bit (0 :: u32) n"
      using low_bits_small [of "b AND 0x3F" 6 n] byte_and(2) [of b] by (auto simp: bit_simps)
  qed
  moreover have "unat (push_bit 6 v) = unat v * 64"
    using assms by (simp add: push_bit_eq_mult unat_word_ariths)
  moreover have "unat (ucast (b AND 0x3F :: u8) :: u32) = unat b mod 64"
    using byte_and(2) [of b] by (simp add: unsigned_ucast_eq take_bit_eq_mod)
  ultimately show ?thesis using assms by (simp add: unat_word_ariths)
qed

subsection \<open>The reference encoder\<close>

text \<open>One Unicode scalar value as its shortest byte sequence.\<close>

fun utf8_tail :: "nat \<Rightarrow> nat \<Rightarrow> u8 list" where
  "utf8_tail 0 c = []"
| "utf8_tail (Suc n) c = word_of_nat (0x80 + c div 64 ^ n mod 64) # utf8_tail n c"

definition utf8_encode :: "nat \<Rightarrow> u8 list" where
  "utf8_encode c =
     (if c < 0x80 then [word_of_nat c]
      else if c < 0x800 then word_of_nat (0xC0 + c div 64) # utf8_tail 1 c
      else if c < 0x10000 then word_of_nat (0xE0 + c div 64 ^ 2) # utf8_tail 2 c
      else word_of_nat (0xF0 + c div 64 ^ 3) # utf8_tail 3 c)"

definition unicode_scalar :: "nat \<Rightarrow> bool" where
  "unicode_scalar c \<longleftrightarrow> c < 0xD800 \<or> (0xE000 \<le> c \<and> c < 0x110000)"

lemma length_utf8_tail [simp]: "length (utf8_tail n c) = n"
  by (induction n) auto

lemma continuation_byte: "b AND 0xC0 = (0x80 :: u8) \<longleftrightarrow> 0x80 \<le> unat b \<and> unat b < 0xC0"
  by (rule byte_cases [of "\<lambda>b. b AND 0xC0 = (0x80 :: u8) \<longleftrightarrow> 0x80 \<le> unat b \<and> unat b < 0xC0"]) code_simp

lemma continuation_value:
  "128 \<le> (k :: nat) \<Longrightarrow> k < 192 \<Longrightarrow> 128 + (v * 64 + k mod 64) mod 64 = k"
proof -
  assume "128 \<le> k" "k < 192"
  then have "k mod 64 = (k - 128 + 64 * 2) mod 64" by simp
  also have "\<dots> = k - 128" using \<open>128 \<le> k\<close> \<open>k < 192\<close> by (simp only: mod_mult_self2 mod_less)
  finally have "k mod 64 = k - 128" .
  moreover have "(v * 64 + k mod 64) mod 64 = k mod 64" by simp
  ultimately show ?thesis using \<open>128 \<le> k\<close> by linarith
qed

lemma utf8_continue_step:
  assumes "(unat (v :: u32) + 1) * 64 ^ Suc n \<le> 2 ^ 32"
  shows "unat (push_bit 6 v OR ucast (b AND 0x3F :: u8)) = unat v * 64 + unat b mod 64"
    "(unat (push_bit 6 v OR ucast (b AND 0x3F :: u8)) + 1) * 64 ^ n \<le> 2 ^ 32"
proof -
  have "(unat v + 1) * 64 \<le> (unat v + 1) * 64 ^ Suc n" by (intro mult_le_mono2) simp
  then have "(unat v + 1) * 64 \<le> 2 ^ 32" using assms by (rule le_trans)
  then have "unat v < 2 ^ 26" by simp
  then show eq: "unat (push_bit 6 v OR ucast (b AND 0x3F :: u8)) = unat v * 64 + unat b mod 64"
    by (rule utf8_shift)
  have "unat v * 64 + unat b mod 64 + 1 \<le> (unat v + 1) * 64" by simp
  then have "(unat v * 64 + unat b mod 64 + 1) * 64 ^ n \<le> (unat v + 1) * 64 * 64 ^ n"
    by (rule mult_le_mono1)
  then show "(unat (push_bit 6 v OR ucast (b AND 0x3F :: u8)) + 1) * 64 ^ n \<le> 2 ^ 32"
    unfolding eq using assms unfolding power_Suc mult.assoc by (rule le_trans)
qed

lemma utf8_continue_tail:
  assumes "(unat v + 1) * 64 ^ n \<le> 2 ^ 32"  "c div 64 ^ n = unat v"
  shows "utf8_continue n v (utf8_tail n c @ rest) = (Some (word_of_nat c), rest)"
  using assms
proof (induction n arbitrary: v)
  case 0
  then show ?case by simp
next
  case (Suc n)
  let ?b = "word_of_nat (128 + c div 64 ^ n mod 64) :: u8"
  have "128 + c div 64 ^ n mod 64 < 256" using mod_less_divisor [of 64 "c div 64 ^ n"] by linarith
  then have b: "unat ?b = 128 + c div 64 ^ n mod 64" by (simp add: unat_of_nat del: of_nat_add)
  note step = utf8_continue_step [OF Suc.prems(1), of ?b]
  have m: "unat ?b mod 64 = c div 64 ^ n mod 64" unfolding b by (simp add: mod_simps mod_add_left_eq [symmetric] numeral_mod_numeral)
  have "c div 64 ^ n div 64 = unat v"
    unfolding Suc.prems(2) [symmetric] power_Suc by (metis div_mult2_eq mult.commute)
  then have "c div 64 ^ n = unat (push_bit 6 v OR ucast (?b AND 0x3F))"
    unfolding step(1) m by (metis div_mult_mod_eq)
  from Suc.IH [OF step(2) this]
  have "utf8_continue n (push_bit 6 v OR ucast (?b AND 0x3F)) (utf8_tail n c @ rest) = (Some (word_of_nat c), rest)" .
  moreover have "?b AND 0xC0 = 0x80"
    unfolding continuation_byte b using mod_less_divisor [of 64 "c div 64 ^ n"] by linarith
  ultimately show ?case by (simp only: utf8_tail.simps append_Cons utf8_continue.simps if_False simp_thms)
qed

lemma utf8_continue_Some:
  assumes "(unat v + 1) * 64 ^ n \<le> 2 ^ 32" "utf8_continue n v bs = (Some c, rest)"
  shows "bs = utf8_tail n (unat c) @ rest \<and> unat c div 64 ^ n = unat v"
  using assms
proof (induction n arbitrary: v bs)
  case 0
  then show ?case by simp
next
  case (Suc n)
  from Suc.prems(2) obtain b bs' where bs: "bs = b # bs'" and b: "b AND 0xC0 = 0x80"
    and go: "utf8_continue n (push_bit 6 v OR ucast (b AND 0x3F)) bs' = (Some c, rest)"
  proof (cases bs)
    case Nil
    with Suc.prems(2) show ?thesis by simp
  next
    case (Cons b bs')
    then show ?thesis using that Suc.prems(2) by (simp only: utf8_continue.simps split: if_splits) simp_all
  qed
  note step = utf8_continue_step [OF Suc.prems(1), of b]
  from Suc.IH [OF step(2) go] have tl: "bs' = utf8_tail n (unat c) @ rest"
    and q: "unat c div 64 ^ n = unat v * 64 + unat b mod 64" using step(1) by auto
  have "128 + (unat v * 64 + unat b mod 64) mod 64 = unat b"
    using b unfolding continuation_byte by (blast intro: continuation_value)
  then have "word_of_nat (128 + unat c div 64 ^ n mod 64) = b"
    unfolding q by (simp only: of_nat_unat ucast_id)
  moreover have "unat c div 64 ^ Suc n = unat v"
  proof -
    have "unat c div 64 ^ Suc n = unat c div 64 ^ n div 64"
      unfolding power_Suc by (metis div_mult2_eq mult.commute)
    then show ?thesis unfolding q by simp
  qed
  ultimately show ?case unfolding bs tl by (simp only: utf8_tail.simps append_Cons simp_thms)
qed

lemma utf8_rejected_nat:
  "utf8_rejected c m \<longleftrightarrow> unat c < unat m \<or> \<not> unicode_scalar (unat c)"
  by (auto simp: utf8_rejected_def unicode_scalar_def word_less_nat_alt word_le_nat_alt)

lemma ascii_byte: "(b :: u8) < 0x80 \<longleftrightarrow> unat b < 0x80"
  by (simp add: word_less_nat_alt)

lemma unat_byte_diff: "unat (word_of_nat (unat (b :: u8) - k) :: u32) = unat b - k"
proof -
  have "unat b - k < 2 ^ 32" by (rule le_less_trans [of _ "unat b"]) (simp_all add: less_trans [OF unat8_lt])
  then show ?thesis by (simp add: unat_of_nat del: of_nat_diff)
qed

text \<open>The lead byte of a well-formed sequence of each length.\<close>

lemma decode_lead:
  assumes "utf8_lead first = Some (v, m, n)"
  shows "(unat v + 1) * 64 ^ n \<le> 2 ^ 32 \<and> 0x80 \<le> unat first \<and>
    ((n = 1 \<and> unat m = 0x80 \<and> unat v < 0x20 \<and> unat first = 0xC0 + unat v) \<or>
     (n = 2 \<and> unat m = 0x800 \<and> unat v < 0x10 \<and> unat first = 0xE0 + unat v) \<or>
     (n = 3 \<and> unat m = 0x10000 \<and> unat v < 8 \<and> unat first = 0xF0 + unat v))"
  using assms unfolding utf8_lead_nat
  by (auto simp: unat_byte_diff simp del: of_nat_diff split: if_splits)

lemma decode_utf8_sound:
  assumes "decode_utf8 bs = (Some c, rest)"
  shows "unicode_scalar (unat c) \<and> bs = utf8_encode (unat c) @ rest"
proof (cases bs)
  case Nil
  with assms show ?thesis by simp
next
  case (Cons first tl)
  show ?thesis
  proof (cases "first < 0x80")
    case True
    then have "c = ucast first" "rest = tl" using assms Cons by simp_all
    then show ?thesis using True Cons by (simp add: ascii_byte utf8_encode_def unicode_scalar_def)
  next
    case False
    with assms Cons obtain v m n where l: "utf8_lead first = Some (v, m, n)"
      and k: "utf8_continue n v tl = (Some c, rest)" and ok: "\<not> utf8_rejected c m"
      by (simp split: option.splits prod.splits if_splits)
    note f = decode_lead [OF l]
    from utf8_continue_Some [OF conjunct1 [OF f] k]
    have tl: "tl = utf8_tail n (unat c) @ rest" and q: "unat c div 64 ^ n = unat v" by auto
    from ok have s: "unicode_scalar (unat c)" and min: "unat m \<le> unat c" by (auto simp: utf8_rejected_nat)
    have max: "unat c < 0x110000" using s by (auto simp: unicode_scalar_def)
    have b: "first = word_of_nat (unat first)" by simp
    consider "n = 1" | "n = 2" | "n = 3" using f by blast
    then have "utf8_encode (unat c) = first # utf8_tail n (unat c)"
    proof cases
      case 1
      then have "unat c div 64 < 0x20" "unat first = 0xC0 + unat c div 64" "0x80 \<le> unat c" using f q min by auto
      moreover have "unat c < 0x800" using \<open>unat c div 64 < 0x20\<close> by (simp add: div_less_iff_less_mult)
      ultimately show ?thesis using 1 b by (simp add: utf8_encode_def)
    next
      case 2
      then have "unat c div 64 ^ 2 < 0x10" "unat first = 0xE0 + unat c div 64 ^ 2" "0x800 \<le> unat c" using f q min by auto
      moreover have "unat c < 0x10000" using \<open>unat c div 64 ^ 2 < 0x10\<close> by (simp add: div_less_iff_less_mult)
      ultimately show ?thesis using 2 b by (simp add: utf8_encode_def)
    next
      case 3
      then have "unat first = 0xF0 + unat c div 64 ^ 3" "0x10000 \<le> unat c" using f q min by auto
      with 3 b show ?thesis by (simp add: utf8_encode_def)
    qed
    then show ?thesis using s tl Cons by simp
  qed
qed

lemma decode_utf8_complete:
  assumes "unicode_scalar c"
  shows "decode_utf8 (utf8_encode c @ rest) = (Some (word_of_nat c), rest)"
proof -
  have c: "c < 0x110000" using assms by (auto simp: unicode_scalar_def)
  have uc: "unat (word_of_nat c :: u32) = c" using c by (simp add: unat_of_nat)
  have long: ?thesis
    if e: "utf8_encode c = word_of_nat (base + c div 64 ^ n) # utf8_tail n c"
      and l: "utf8_lead (word_of_nat (base + c div 64 ^ n)) = Some (word_of_nat (c div 64 ^ n), word_of_nat m, n)"
      and b: "\<not> (word_of_nat (base + c div 64 ^ n) :: u8) < 0x80"
      and v: "c div 64 ^ n < 2 ^ 20" "m \<le> c"
    for base n m
  proof -
    let ?v = "word_of_nat (c div 64 ^ n) :: u32"
    have uv: "unat ?v = c div 64 ^ n" using v(1) by (simp add: unat_of_nat)
    have "(unat ?v + 1) * 64 ^ n \<le> 2 ^ 32" using decode_lead [OF l] by blast
    from utf8_continue_tail [OF this] uv
    have "utf8_continue n ?v (utf8_tail n c @ rest) = (Some (word_of_nat c), rest)" by metis
    moreover have "\<not> utf8_rejected (word_of_nat c) (word_of_nat m)"
      using assms v(2) c by (simp add: utf8_rejected_nat uc unat_of_nat)
    ultimately show ?thesis using e l b by (simp del: of_nat_add)
  qed
  consider "c < 0x80" | "0x80 \<le> c" "c < 0x800" | "0x800 \<le> c" "c < 0x10000" | "0x10000 \<le> c"
    by linarith
  then show ?thesis
  proof cases
    case 1
    then show ?thesis by (simp add: utf8_encode_def word_less_nat_alt unat_of_nat word_unat_eq_iff)
  next
    case 2
    then have q: "c div 64 < 0x20" by simp
    with 2 show ?thesis
      by (intro long [where base = "0xC0" and n = 1 and m = "0x80"])
         (simp_all add: utf8_encode_def utf8_lead_nat word_less_nat_alt unat_of_nat del: of_nat_add)
  next
    case 3
    then have q: "c div 64 ^ 2 < 0x10" by simp
    with 3 show ?thesis
      by (intro long [where base = "0xE0" and n = 2 and m = "0x800"])
         (simp_all add: utf8_encode_def utf8_lead_nat word_less_nat_alt unat_of_nat del: of_nat_add)
  next
    case 4
    then have q: "c div 64 ^ 3 < 8" using c by simp
    with 4 show ?thesis
      by (intro long [where base = "0xF0" and n = 3 and m = "0x10000"])
         (simp_all add: utf8_encode_def utf8_lead_nat word_less_nat_alt unat_of_nat del: of_nat_add)
  qed
qed

text \<open>The whole-text check takes the decoder's step until the text ends.\<close>

lemma valid_utf8_step:
  "valid_utf8 (first # bs) \<longleftrightarrow> first \<noteq> 0 \<and>
     (case decode_utf8 (first # bs) of (Some c, rest) \<Rightarrow> valid_utf8 rest | (None, rest) \<Rightarrow> False)"
  by (simp split: option.split prod.split)

declare valid_utf8.simps(2) [simp del]

lemma utf8_encode_nonempty: "\<exists>b bs. utf8_encode c = b # bs"
  by (simp add: utf8_encode_def)

lemma utf8_encode_nul:
  assumes "unicode_scalar c" "utf8_encode c = b # bs"
  shows "b = 0 \<longleftrightarrow> c = 0"
proof
  assume "b = 0"
  with assms have "decode_utf8 (0 # bs) = (Some (word_of_nat c), [])"
    using decode_utf8_complete [OF assms(1), of "[]"] by simp
  then have "(word_of_nat c :: u32) = 0" by simp
  then have "unat (word_of_nat c :: u32) = 0" by simp
  moreover have "c < 2 ^ 32" using assms(1) by (auto simp: unicode_scalar_def)
  ultimately show "c = 0" by (simp add: unat_of_nat)
next
  assume "c = 0"
  then show "b = 0" using assms by (simp add: utf8_encode_def)
qed

text \<open>The cursor decoder accepts exactly the encodings of Unicode scalar values: it returns
  \<open>c\<close> and leaves the cursor at \<open>rest\<close> if and only if \<open>c\<close> is a scalar value (no surrogate, at
  most U+10FFFF) and the text starts with the shortest encoding of \<open>c\<close>, followed by \<open>rest\<close>.\<close>

theorem decode_utf8_exact:
  "decode_utf8 bs = (Some c, rest) \<longleftrightarrow> unicode_scalar (unat c) \<and> bs = utf8_encode (unat c) @ rest"
  using decode_utf8_sound [of bs c rest] decode_utf8_complete [of "unat c" rest] by auto

text \<open>The packet reader's text check accepts exactly the encodings of sequences of Unicode
  scalar values without NUL, so it agrees with the executors' decoder on every text.\<close>

theorem valid_utf8_exact:
  "valid_utf8 bs \<longleftrightarrow>
     (\<exists>cs. list_all (\<lambda>c. unicode_scalar c \<and> c \<noteq> 0) cs \<and> bs = concat (map utf8_encode cs))"
proof
  assume "valid_utf8 bs"
  then show "\<exists>cs. list_all (\<lambda>c. unicode_scalar c \<and> c \<noteq> 0) cs \<and> bs = concat (map utf8_encode cs)"
  proof (induction "length bs" arbitrary: bs rule: less_induct)
    case less
    show ?case
    proof (cases bs)
      case Nil
      then have "list_all (\<lambda>c. unicode_scalar c \<and> c \<noteq> 0) [] \<and> bs = concat (map utf8_encode [])" by simp
      then show ?thesis by blast
    next
      case (Cons first tl)
      with less.prems obtain c rest where nz: "first \<noteq> 0" and d: "decode_utf8 bs = (Some c, rest)"
        and v: "valid_utf8 rest"
        by (auto simp: valid_utf8_step simp del: decode_utf8.simps split: prod.splits option.splits)
      from decode_utf8_sound [OF d] have s: "unicode_scalar (unat c)" and bs: "bs = utf8_encode (unat c) @ rest" by auto
      obtain b0 bs0 where e: "utf8_encode (unat c) = b0 # bs0" using utf8_encode_nonempty by blast
      then have "b0 = first" using bs Cons by simp
      then have "unat c \<noteq> 0" using utf8_encode_nul [OF s e] nz by simp
      moreover have "length rest < length bs" using bs e by simp
      from less.hyps [OF this v] obtain cs where
        "list_all (\<lambda>c. unicode_scalar c \<and> c \<noteq> 0) cs" "rest = concat (map utf8_encode cs)" by blast
      ultimately have "list_all (\<lambda>c. unicode_scalar c \<and> c \<noteq> 0) (unat c # cs) \<and>
          bs = concat (map utf8_encode (unat c # cs))" using s bs by simp
      then show ?thesis by blast
    qed
  qed
next
  assume "\<exists>cs. list_all (\<lambda>c. unicode_scalar c \<and> c \<noteq> 0) cs \<and> bs = concat (map utf8_encode cs)"
  then obtain cs where "list_all (\<lambda>c. unicode_scalar c \<and> c \<noteq> 0) cs" and bs: "bs = concat (map utf8_encode cs)"
    by blast
  then show "valid_utf8 bs" unfolding bs
  proof (induction cs)
    case Nil
    then show ?case by simp
  next
    case (Cons c cs)
    then have s: "unicode_scalar c" and nz: "c \<noteq> 0" and v: "valid_utf8 (concat (map utf8_encode cs))" by auto
    obtain b0 bs0 where e: "utf8_encode c = b0 # bs0" using utf8_encode_nonempty by blast
    have "b0 \<noteq> 0" using utf8_encode_nul [OF s e] nz by simp
    moreover have "decode_utf8 (b0 # bs0 @ concat (map utf8_encode cs)) = (Some (word_of_nat c), concat (map utf8_encode cs))"
      using decode_utf8_complete [OF s] e by (metis append_Cons)
    ultimately show ?case using v e by (simp add: valid_utf8_step del: decode_utf8.simps)
  qed
qed

end
