(* ===== verification/Scene_Packet.thy ===== *)
theory Scene_Packet
  imports Utf8
begin

text \<open>
  The target packet of \<open>include/saccade/saccade_scene.h\<close> and its reader,
  \<open>src/scene/packet.cpp\<close>: a header, a table of target records and a text lane, each target
  referring to its own part of the lane. Every producer of scenes (grid, windows, fusion,
  neural models) writes this format and every consumer reads it through \<open>validate_packet\<close>.
\<close>

subsection \<open>Constants\<close>

abbreviation TARGET_PACKET_VERSION :: u32 where "TARGET_PACKET_VERSION \<equiv> 0x00010002"
abbreviation TARGET_PACKET_MAX_TARGETS :: u32 where "TARGET_PACKET_MAX_TARGETS \<equiv> 10000"
abbreviation TARGET_PACKET_MAX_TEXT_BYTES :: u64 where "TARGET_PACKET_MAX_TEXT_BYTES \<equiv> 16384"
abbreviation TARGET_PACKET_INCOMPLETE :: u32 where "TARGET_PACKET_INCOMPLETE \<equiv> 1"
abbreviation TARGET_PACKET_TEXT_TRUNCATED :: u32 where "TARGET_PACKET_TEXT_TRUNCATED \<equiv> 2"

abbreviation SPACE_MODEL_Q8 :: u32 where "SPACE_MODEL_Q8 \<equiv> 1"
abbreviation SPACE_SOURCE_Q8 :: u32 where "SPACE_SOURCE_Q8 \<equiv> 2"
abbreviation SPACE_DESKTOP_Q8 :: u32 where "SPACE_DESKTOP_Q8 \<equiv> 3"

abbreviation ROLE_UNKNOWN :: u16 where "ROLE_UNKNOWN \<equiv> 0"
abbreviation ROLE_BUTTON :: u16 where "ROLE_BUTTON \<equiv> 1"
abbreviation ROLE_LINK :: u16 where "ROLE_LINK \<equiv> 2"
abbreviation ROLE_TEXT :: u16 where "ROLE_TEXT \<equiv> 3"
abbreviation ROLE_TEXT_FIELD :: u16 where "ROLE_TEXT_FIELD \<equiv> 4"
abbreviation ROLE_CHECKBOX :: u16 where "ROLE_CHECKBOX \<equiv> 5"
abbreviation ROLE_RADIO :: u16 where "ROLE_RADIO \<equiv> 6"
abbreviation ROLE_MENU_ITEM :: u16 where "ROLE_MENU_ITEM \<equiv> 7"
abbreviation ROLE_SLIDER :: u16 where "ROLE_SLIDER \<equiv> 8"
abbreviation ROLE_IMAGE :: u16 where "ROLE_IMAGE \<equiv> 9"
abbreviation ROLE_WINDOW :: u16 where "ROLE_WINDOW \<equiv> 10"

abbreviation SOURCE_NEURAL :: u16 where "SOURCE_NEURAL \<equiv> 1"
abbreviation SOURCE_ACCESSIBILITY :: u16 where "SOURCE_ACCESSIBILITY \<equiv> 2"
abbreviation SOURCE_PIXEL :: u16 where "SOURCE_PIXEL \<equiv> 4"
abbreviation SOURCE_GRID :: u16 where "SOURCE_GRID \<equiv> 8"

abbreviation TARGET_ACTIONABLE :: u32 where "TARGET_ACTIONABLE \<equiv> 1"
abbreviation TARGET_DISABLED :: u32 where "TARGET_DISABLED \<equiv> 2"
abbreviation TARGET_OCCLUDED :: u32 where "TARGET_OCCLUDED \<equiv> 4"
abbreviation TARGET_SECURE :: u32 where "TARGET_SECURE \<equiv> 8"
abbreviation TARGET_APPROXIMATE :: u32 where "TARGET_APPROXIMATE \<equiv> 16"
abbreviation TARGET_TEXT_REDACTED :: u32 where "TARGET_TEXT_REDACTED \<equiv> 32"
abbreviation TARGET_TEXT_TRUNCATED :: u32 where "TARGET_TEXT_TRUNCATED \<equiv> 64"

abbreviation CAPABILITY_POINTER_MOVE :: u32 where "CAPABILITY_POINTER_MOVE \<equiv> 1"
abbreviation CAPABILITY_BUTTON :: u32 where "CAPABILITY_BUTTON \<equiv> 2"
abbreviation CAPABILITY_SCROLL :: u32 where "CAPABILITY_SCROLL \<equiv> 4"
abbreviation CAPABILITY_DRAG_SOURCE :: u32 where "CAPABILITY_DRAG_SOURCE \<equiv> 8"
abbreviation CAPABILITY_DROP_TARGET :: u32 where "CAPABILITY_DROP_TARGET \<equiv> 16"
abbreviation CAPABILITY_TEXT :: u32 where "CAPABILITY_TEXT \<equiv> 32"
abbreviation CAPABILITY_INVOKE :: u32 where "CAPABILITY_INVOKE \<equiv> 64"
abbreviation CAPABILITY_WINDOW_ACTIVATE :: u32 where "CAPABILITY_WINDOW_ACTIVATE \<equiv> 128"
abbreviation CAPABILITY_TEXT_SELECT :: u32 where "CAPABILITY_TEXT_SELECT \<equiv> 256"

definition source_mask :: u16 where
  "source_mask = SOURCE_NEURAL OR SOURCE_ACCESSIBILITY OR SOURCE_PIXEL OR SOURCE_GRID"

definition target_flag_mask :: u32 where
  "target_flag_mask = TARGET_ACTIONABLE OR TARGET_DISABLED OR TARGET_OCCLUDED OR TARGET_SECURE OR
     TARGET_APPROXIMATE OR TARGET_TEXT_REDACTED OR TARGET_TEXT_TRUNCATED"

definition target_capability_mask :: u32 where
  "target_capability_mask = CAPABILITY_POINTER_MOVE OR CAPABILITY_BUTTON OR CAPABILITY_SCROLL OR
     CAPABILITY_DRAG_SOURCE OR CAPABILITY_DROP_TARGET OR CAPABILITY_TEXT OR CAPABILITY_INVOKE OR
     CAPABILITY_WINDOW_ACTIVATE OR CAPABILITY_TEXT_SELECT"

definition packet_flag_mask :: u32 where
  "packet_flag_mask = TARGET_PACKET_INCOMPLETE OR TARGET_PACKET_TEXT_TRUNCATED"

subsection \<open>Data\<close>

record packet_header =
  ph_struct_size :: u32
  ph_packet_version :: u32
  ph_target_count :: u32
  ph_target_stride :: u32
  ph_flags :: u32
  ph_coordinate_space :: u32
  ph_scene_epoch :: u64
  ph_frame_id :: u64
  ph_capture_time_ns :: u64
  ph_model_epoch :: u64
  ph_session_epoch :: u64
  ph_transform_epoch :: u64
  ph_topology_epoch :: u64
  ph_source_id :: u64
  ph_targets_offset :: u64
  ph_total_size :: u64

record target_text_ref =
  tx_offset :: u16
  tx_size :: u16

record target_record =
  tr_target_id :: u64
  tr_parent_id :: u64
  tr_window_id :: u64
  tr_display_id :: u64
  tr_x_q8 :: i32
  tr_y_q8 :: i32
  tr_width_q8 :: i32
  tr_height_q8 :: i32
  tr_safe_x_q8 :: i32
  tr_safe_y_q8 :: i32
  tr_confidence_q16 :: u32
  tr_role :: u16
  tr_source_bits :: u16
  tr_capability_bits :: u32
  tr_flags :: u32
  tr_order :: u32
  tr_text :: target_text_ref

text \<open>A value-initialised record: every field zero.\<close>

definition no_text :: target_text_ref where
  "no_text = \<lparr>tx_offset = 0, tx_size = 0\<rparr>"

definition zero_target :: target_record where
  "zero_target = \<lparr>tr_target_id = 0, tr_parent_id = 0, tr_window_id = 0, tr_display_id = 0,
     tr_x_q8 = 0, tr_y_q8 = 0, tr_width_q8 = 0, tr_height_q8 = 0, tr_safe_x_q8 = 0, tr_safe_y_q8 = 0,
     tr_confidence_q16 = 0, tr_role = 0, tr_source_bits = 0, tr_capability_bits = 0, tr_flags = 0,
     tr_order = 0, tr_text = no_text\<rparr>"

definition zero_header :: packet_header where
  "zero_header = \<lparr>ph_struct_size = 0, ph_packet_version = 0, ph_target_count = 0, ph_target_stride = 0,
     ph_flags = 0, ph_coordinate_space = 0, ph_scene_epoch = 0, ph_frame_id = 0, ph_capture_time_ns = 0,
     ph_model_epoch = 0, ph_session_epoch = 0, ph_transform_epoch = 0, ph_topology_epoch = 0,
     ph_source_id = 0, ph_targets_offset = 0, ph_total_size = 0\<rparr>"

text \<open>
  A view of a packet. A default-constructed view, whose pointers are null, is \<open>None\<close> of type
  \<open>packet_view option\<close>; only \<open>validate_packet\<close> makes another one.
\<close>

record packet_view =
  pv_header :: packet_header
  pv_targets :: "target_record list"
  pv_byte_size :: nat
  pv_text :: "u8 list"
  pv_text_size :: u32

definition target_text :: "packet_view \<Rightarrow> nat \<Rightarrow> u8 list" where
  "target_text v index = (let ref = tr_text (pv_targets v ! index)
     in if tx_size ref = 0 then [] else take (unat (tx_size ref)) (drop (unat (tx_offset ref)) (pv_text v)))"

subsection \<open>The byte layout\<close>

definition header_size :: nat where "header_size = 104"
definition target_size :: nat where "target_size = 80"

definition put_header :: "packet_header \<Rightarrow> u8 list" where
  "put_header h = put_u32 (ph_struct_size h) @ put_u32 (ph_packet_version h) @ put_u32 (ph_target_count h) @
     put_u32 (ph_target_stride h) @ put_u32 (ph_flags h) @ put_u32 (ph_coordinate_space h) @
     put_u64 (ph_scene_epoch h) @ put_u64 (ph_frame_id h) @ put_u64 (ph_capture_time_ns h) @
     put_u64 (ph_model_epoch h) @ put_u64 (ph_session_epoch h) @ put_u64 (ph_transform_epoch h) @
     put_u64 (ph_topology_epoch h) @ put_u64 (ph_source_id h) @ put_u64 (ph_targets_offset h) @
     put_u64 (ph_total_size h)"

definition get_header :: "u8 list \<Rightarrow> packet_header \<times> u8 list" where
  "get_header b0 = (let
     (struct_size, b1) = get_u32 b0; (packet_version, b2) = get_u32 b1; (target_count, b3) = get_u32 b2;
     (target_stride, b4) = get_u32 b3; (flags, b5) = get_u32 b4; (coordinate_space, b6) = get_u32 b5;
     (scene_epoch, b7) = get_u64 b6; (frame_id, b8) = get_u64 b7; (capture_time_ns, b9) = get_u64 b8;
     (model_epoch, b10) = get_u64 b9; (session_epoch, b11) = get_u64 b10;
     (transform_epoch, b12) = get_u64 b11; (topology_epoch, b13) = get_u64 b12;
     (source_id, b14) = get_u64 b13; (targets_offset, b15) = get_u64 b14; (total_size, b16) = get_u64 b15
     in (\<lparr>ph_struct_size = struct_size, ph_packet_version = packet_version, ph_target_count = target_count,
       ph_target_stride = target_stride, ph_flags = flags, ph_coordinate_space = coordinate_space,
       ph_scene_epoch = scene_epoch, ph_frame_id = frame_id, ph_capture_time_ns = capture_time_ns,
       ph_model_epoch = model_epoch, ph_session_epoch = session_epoch, ph_transform_epoch = transform_epoch,
       ph_topology_epoch = topology_epoch, ph_source_id = source_id, ph_targets_offset = targets_offset,
       ph_total_size = total_size\<rparr>, b16))"

definition put_target :: "target_record \<Rightarrow> u8 list" where
  "put_target t = put_u64 (tr_target_id t) @ put_u64 (tr_parent_id t) @ put_u64 (tr_window_id t) @
     put_u64 (tr_display_id t) @ put_u32 (tr_x_q8 t) @ put_u32 (tr_y_q8 t) @ put_u32 (tr_width_q8 t) @
     put_u32 (tr_height_q8 t) @ put_u32 (tr_safe_x_q8 t) @ put_u32 (tr_safe_y_q8 t) @
     put_u32 (tr_confidence_q16 t) @ put_u16 (tr_role t) @ put_u16 (tr_source_bits t) @
     put_u32 (tr_capability_bits t) @ put_u32 (tr_flags t) @ put_u32 (tr_order t) @
     put_u16 (tx_offset (tr_text t)) @ put_u16 (tx_size (tr_text t))"

definition get_target :: "u8 list \<Rightarrow> target_record \<times> u8 list" where
  "get_target b0 = (let
     (target_id, b1) = get_u64 b0; (parent_id, b2) = get_u64 b1; (window_id, b3) = get_u64 b2;
     (display_id, b4) = get_u64 b3; (x, b5) = get_u32 b4; (y, b6) = get_u32 b5; (width, b7) = get_u32 b6;
     (height, b8) = get_u32 b7; (safe_x, b9) = get_u32 b8; (safe_y, b10) = get_u32 b9;
     (confidence, b11) = get_u32 b10; (role, b12) = get_u16 b11; (source_bits, b13) = get_u16 b12;
     (capability_bits, b14) = get_u32 b13; (flags, b15) = get_u32 b14; (order, b16) = get_u32 b15;
     (offset, b17) = get_u16 b16; (sz, b18) = get_u16 b17
     in (\<lparr>tr_target_id = target_id, tr_parent_id = parent_id, tr_window_id = window_id,
       tr_display_id = display_id, tr_x_q8 = x, tr_y_q8 = y, tr_width_q8 = width, tr_height_q8 = height,
       tr_safe_x_q8 = safe_x, tr_safe_y_q8 = safe_y, tr_confidence_q16 = confidence, tr_role = role,
       tr_source_bits = source_bits, tr_capability_bits = capability_bits, tr_flags = flags,
       tr_order = order, tr_text = \<lparr>tx_offset = offset, tx_size = sz\<rparr>\<rparr>, b18))"

definition get_targets :: "nat \<Rightarrow> u8 list \<Rightarrow> target_record list \<times> u8 list" where
  "get_targets = get_table get_target"

definition put_packet :: "packet_header \<Rightarrow> target_record list \<Rightarrow> u8 list \<Rightarrow> u8 list" where
  "put_packet h ts text = put_header h @ concat (map put_target ts) @ text"

subsection \<open>Validation\<close>

text \<open>A byte span: a null pointer with some size, or readable bytes.\<close>

datatype span_u8 = Null_span u64 | Span "u8 list"

fun span_size :: "span_u8 \<Rightarrow> nat" where
  "span_size (Null_span n) = unat n"
| "span_size (Span bytes) = length bytes"

fun span_bytes :: "span_u8 \<Rightarrow> u8 list" where
  "span_bytes (Null_span n) = []"
| "span_bytes (Span bytes) = bytes"

text \<open>\<open>valid_utf8\<close> of a span: a null pointer only with size zero.\<close>

fun span_valid_utf8 :: "span_u8 \<Rightarrow> bool" where
  "span_valid_utf8 (Null_span n) = (n = 0)"
| "span_valid_utf8 (Span bytes) = valid_utf8 bytes"

lemma span_valid_utf8_bytes:
  "span_valid_utf8 sp \<Longrightarrow> valid_utf8 (span_bytes sp) \<and> span_size sp = length (span_bytes sp)"
  by (cases sp) auto

definition valid_coordinate_space :: "u32 \<Rightarrow> bool" where
  "valid_coordinate_space v \<longleftrightarrow> v = SPACE_MODEL_Q8 \<or> v = SPACE_SOURCE_Q8 \<or> v = SPACE_DESKTOP_Q8"

definition valid_target :: "target_record \<Rightarrow> bool" where
  "valid_target t \<longleftrightarrow>
     (if sint (tr_width_q8 t) \<le> 0 \<or> sint (tr_height_q8 t) \<le> 0 \<or> tr_confidence_q16 t > 0xFFFF \<or>
         tr_role t > ROLE_WINDOW \<or> tr_source_bits t AND NOT source_mask \<noteq> 0 \<or>
         tr_capability_bits t AND NOT target_capability_mask \<noteq> 0 \<or> tr_flags t AND NOT target_flag_mask \<noteq> 0 \<or>
         tr_target_id t = 0 \<or> tr_parent_id t = tr_target_id t \<or>
         (tr_flags t AND TARGET_ACTIONABLE \<noteq> 0) \<noteq> (tr_capability_bits t \<noteq> 0) \<or>
         (tr_flags t AND (TARGET_DISABLED OR TARGET_SECURE) \<noteq> 0 \<and> tr_capability_bits t \<noteq> 0) \<or>
         (tr_flags t AND TARGET_SECURE \<noteq> 0 \<and> tx_size (tr_text t) \<noteq> 0) \<or>
         (tr_flags t AND (TARGET_TEXT_REDACTED OR TARGET_TEXT_TRUNCATED) \<noteq> 0 \<and> tx_size (tr_text t) \<noteq> 0) \<or>
         (tr_flags t AND TARGET_TEXT_REDACTED \<noteq> 0 \<and> tr_flags t AND TARGET_TEXT_TRUNCATED \<noteq> 0) \<or>
         (tx_size (tr_text t) = 0 \<and> tx_offset (tr_text t) \<noteq> 0)
      then False
      else let right = sint (tr_x_q8 t) + sint (tr_width_q8 t);
               bottom = sint (tr_y_q8 t) + sint (tr_height_q8 t)
      in sint (tr_safe_x_q8 t) \<ge> sint (tr_x_q8 t) \<and> sint (tr_safe_y_q8 t) \<ge> sint (tr_y_q8 t) \<and>
         sint (tr_safe_x_q8 t) < right \<and> sint (tr_safe_y_q8 t) < bottom)"

text \<open>The header part of \<open>validate_packet\<close>, up to the computation of the text offset.\<close>

definition header_accepted :: "packet_header \<Rightarrow> nat \<Rightarrow> bool" where
  "header_accepted h byte_size \<longleftrightarrow>
     \<not> (ph_struct_size h \<noteq> word_of_nat header_size \<or> ph_packet_version h \<noteq> TARGET_PACKET_VERSION \<or>
        ph_target_count h > TARGET_PACKET_MAX_TARGETS \<or> ph_target_stride h \<noteq> word_of_nat target_size \<or>
        ph_flags h AND NOT packet_flag_mask \<noteq> 0 \<or> \<not> valid_coordinate_space (ph_coordinate_space h) \<or>
        ph_frame_id h = 0 \<or> ph_model_epoch h = 0 \<or> ph_session_epoch h = 0 \<or> ph_transform_epoch h = 0 \<or>
        ph_topology_epoch h = 0 \<or> ph_source_id h = 0 \<or> ph_targets_offset h \<noteq> word_of_nat header_size \<or>
        unat (ph_total_size h) > byte_size) \<and>
     (ph_coordinate_space h = SPACE_DESKTOP_Q8) = (ph_scene_epoch h \<noteq> 0)"

text \<open>The loop over the targets: \<open>text\<close> starts at the text lane, \<open>lane\<close> is its size and
  \<open>expected\<close> the text offset so far.\<close>

fun check_targets :: "u8 list \<Rightarrow> u64 \<Rightarrow> u32 \<Rightarrow> target_record list \<Rightarrow> u32 option" where
  "check_targets text lane expected [] = Some expected"
| "check_targets text lane expected (t # ts) =
     (let ref = tr_text t in
      if \<not> valid_target t \<or> (tx_size ref \<noteq> 0 \<and> ucast (tx_offset ref) \<noteq> expected) \<or>
         ucast (tx_size ref) > lane - ucast expected \<or>
         \<not> valid_utf8 (take (unat (tx_size ref)) (drop (unat (tx_offset ref)) text))
      then None
      else check_targets text lane (expected + ucast (tx_size ref)) ts)"

definition validate_packet :: "span_u8 \<Rightarrow> bool \<Rightarrow> bool \<Rightarrow> saccade_result \<times> packet_view option" where
  "validate_packet span aligned output =
     (if \<not> output then (SACCADE_ERROR_INVALID_ARGUMENT, None)
      else case span of
        Null_span _ \<Rightarrow> (SACCADE_ERROR_INVALID_ARGUMENT, None)
      | Span bytes \<Rightarrow>
          if length bytes < header_size \<or> \<not> aligned then (SACCADE_ERROR_INVALID_ARGUMENT, None)
          else let (h, after_header) = get_header bytes in
            if \<not> header_accepted h (length bytes) then (SACCADE_ERROR_INVALID_ARGUMENT, None)
            else let target_bytes = (ucast (ph_target_count h) * ucast (ph_target_stride h) :: u64) in
            if target_bytes > uint64_max - ph_targets_offset h then (SACCADE_ERROR_INVALID_ARGUMENT, None)
            else let text_offset = ph_targets_offset h + target_bytes in
            if text_offset > ph_total_size h \<or> ph_total_size h - text_offset > TARGET_PACKET_MAX_TEXT_BYTES
            then (SACCADE_ERROR_INVALID_ARGUMENT, None)
            else let (targets, text) = get_targets (unat (ph_target_count h)) after_header in
            case check_targets text (ph_total_size h - text_offset) 0 targets of
              None \<Rightarrow> (SACCADE_ERROR_INVALID_ARGUMENT, None)
            | Some text_size \<Rightarrow>
                if ph_total_size h \<noteq> text_offset + ucast text_size then (SACCADE_ERROR_INVALID_ARGUMENT, None)
                else (SACCADE_OK, Some \<lparr>pv_header = h, pv_targets = targets,
                       pv_byte_size = unat (ph_total_size h), pv_text = take (unat text_size) text,
                       pv_text_size = text_size\<rparr>))"

lemma get_put_target [simp]: "get_target (put_target t @ rest) = (t, rest)"
  by (simp add: get_target_def put_target_def no_text_def)

lemma get_put_header [simp]: "get_header (put_header h @ rest) = (h, rest)"
  by (simp add: get_header_def put_header_def)

lemma length_put_target [simp]: "length (put_target t) = target_size"
  by (simp add: put_target_def target_size_def)

lemma length_put_header [simp]: "length (put_header t) = header_size"
  by (simp add: put_header_def header_size_def)

lemma put_get_target:
  assumes "target_size \<le> length bs"
  shows "put_target (fst (get_target bs)) = take target_size bs \<and> snd (get_target bs) = drop target_size bs"
proof -
  have l: "80 \<le> length bs" using assms by (simp add: target_size_def)
  have s: "snd (get_target bs) = drop target_size bs"
    by (simp add: get_target_def get_word_def target_size_def)
  have "put_target (fst (get_target bs)) @ drop 80 bs = drop 0 bs"
    using l by (simp add: get_target_def put_target_def get_word_def put_get_word put_get_word0 take_drop_append del: drop_0)
  then have "put_target (fst (get_target bs)) = take 80 bs" using l
    by (metis append_eq_conv_conj drop_0 length_put_target target_size_def)
  then show ?thesis using s by (simp add: target_size_def)
qed

lemma put_get_header:
  assumes "header_size \<le> length bs"
  shows "put_header (fst (get_header bs)) = take header_size bs \<and> snd (get_header bs) = drop header_size bs"
proof -
  have l: "104 \<le> length bs" using assms by (simp add: header_size_def)
  have s: "snd (get_header bs) = drop header_size bs"
    by (simp add: get_header_def get_word_def header_size_def)
  have "put_header (fst (get_header bs)) @ drop 104 bs = drop 0 bs"
    using l by (simp add: get_header_def put_header_def get_word_def put_get_word put_get_word0 take_drop_append del: drop_0)
  then have "put_header (fst (get_header bs)) = take 104 bs" using l
    by (metis append_eq_conv_conj drop_0 length_put_header header_size_def)
  then show ?thesis using s by (simp add: header_size_def)
qed

interpretation target_codec: record_codec put_target get_target target_size
  by unfold_locales (auto simp: put_get_target)

interpretation header_codec: record_codec put_header get_header header_size
  by unfold_locales (auto simp: put_get_header)

lemma get_put_targets [simp]:
  "get_targets (length ts) (concat (map put_target ts) @ rest) = (ts, rest)"
  unfolding get_targets_def by (rule target_codec.get_put_table)

lemma put_get_targets:
  assumes "n * target_size \<le> length bs" "get_targets n bs = (ts, rest)"
  shows "length ts = n \<and> concat (map put_target ts) @ rest = bs"
  using target_codec.put_get_table [OF assms [unfolded get_targets_def]] .

subsection \<open>The format as a declarative specification\<close>

text \<open>The targets' texts tile the lane in target order, each of them valid UTF-8.\<close>

fun text_lane :: "u8 list \<Rightarrow> nat \<Rightarrow> target_record list \<Rightarrow> bool" where
  "text_lane text off [] = (off = length text)"
| "text_lane text off (t # ts) =
     (let size = unat (tx_size (tr_text t)) in
      valid_target t \<and> (size = 0 \<or> unat (tx_offset (tr_text t)) = off) \<and> off + size \<le> length text \<and>
      valid_utf8 (take size (drop off text)) \<and> text_lane text (off + size) ts)"

text \<open>What a packet must be: the specification the reader implements.\<close>

definition packet_wf :: "packet_view \<Rightarrow> bool" where
  "packet_wf v \<longleftrightarrow> (let h = pv_header v; n = length (pv_targets v) in
     header_accepted h (unat (ph_total_size h)) \<and> unat (ph_target_count h) = n \<and>
     length (pv_text v) \<le> 16384 \<and> text_lane (pv_text v) 0 (pv_targets v) \<and>
     unat (ph_total_size h) = header_size + n * target_size + length (pv_text v) \<and>
     pv_byte_size v = unat (ph_total_size h) \<and> unat (pv_text_size v) = length (pv_text v))"

lemma check_targets_lane:
  assumes "unat lane \<le> 16384" "unat lane \<le> length text" "unat e \<le> unat lane"
  shows "check_targets text lane e ts = Some (ucast lane) \<longleftrightarrow> text_lane (take (unat lane) text) (unat e) ts"
  using assms(3)
proof (induction ts arbitrary: e)
  case Nil
  have "unat (ucast lane :: u32) = unat lane" using assms(1) using assms(1) by (simp add: unat_narrow_u32)
  then have "e = ucast lane \<longleftrightarrow> unat e = unat lane" by (metis word_unat_eq_iff)
  then show ?case using assms(2) by simp
next
  case (Cons t ts)
  let ?size = "tx_size (tr_text t)" let ?off = "tx_offset (tr_text t)"
  have "(ucast e :: u64) \<le> lane" using Cons.prems by (simp add: word_le_nat_alt)
  then have over: "ucast ?size > lane - ucast e \<longleftrightarrow> \<not> unat e + unat ?size \<le> unat lane"
    using Cons.prems by (auto simp: word_less_nat_alt unat_sub)
  have off: "ucast ?off \<noteq> e \<longleftrightarrow> unat ?off \<noteq> unat e" by (simp add: word_unat_eq_iff)
  have zero: "?size = 0 \<longleftrightarrow> unat ?size = 0" by (simp add: unat_eq_0)
  show ?case
  proof (cases "valid_target t \<and> (unat ?size = 0 \<or> unat ?off = unat e) \<and> unat e + unat ?size \<le> unat lane")
    case False
    then have "check_targets text lane e (t # ts) = None"
      using over off zero by (auto simp: Let_def)
    moreover have "\<not> text_lane (take (unat lane) text) (unat e) (t # ts)"
      using False assms(2) by (auto simp: Let_def)
    ultimately show ?thesis by simp
  next
    case True
    have next_e: "unat (e + ucast ?size) = unat e + unat ?size"
      using True assms(1) by (simp add: unat_word_ariths)
    have slice: "take (unat ?size) (drop (unat ?off) text) =
        take (unat ?size) (drop (unat e) (take (unat lane) text))"
      using True by (cases "unat ?size = 0") (auto simp: drop_take)
    have "check_targets text lane e (t # ts) =
        (if valid_utf8 (take (unat ?size) (drop (unat e) (take (unat lane) text)))
         then check_targets text lane (e + ucast ?size) ts else None)"
      using True over off zero slice by (auto simp: Let_def)
    moreover have "text_lane (take (unat lane) text) (unat e) (t # ts) \<longleftrightarrow>
        valid_utf8 (take (unat ?size) (drop (unat e) (take (unat lane) text))) \<and>
        text_lane (take (unat lane) text) (unat e + unat ?size) ts"
      using True assms(2) by (simp add: Let_def)
    moreover have "unat (e + ucast ?size) \<le> unat lane" using next_e True by simp
    note Cons.IH [OF this]
    ultimately show ?thesis unfolding next_e by simp
  qed
qed

text \<open>What a header that is accepted fixes.\<close>

lemma header_accepted_fields:
  assumes "header_accepted h n"
  shows "ph_targets_offset h = 104" "ph_target_stride h = 80" "unat (ph_target_count h) \<le> 10000"
    "unat (ph_total_size h) \<le> n" "header_accepted h m \<longleftrightarrow> unat (ph_total_size h) \<le> m"
  using assms by (auto simp: header_accepted_def header_size_def target_size_def word_le_nat_alt not_less)

lemma text_offset_nat:
  assumes "unat (c :: u32) \<le> 10000"
  shows "unat ((104 :: u64) + ucast c * 80) = header_size + unat c * target_size"
    "\<not> ucast c * 80 > uint64_max - (104 :: u64)"
proof -
  have m: "unat (ucast c * 80 :: u64) = unat c * 80" using assms by (simp add: unat_word_ariths)
  then show "unat ((104 :: u64) + ucast c * 80) = header_size + unat c * target_size"
    using assms by (simp add: unat_word_ariths header_size_def target_size_def)
  show "\<not> ucast c * 80 > uint64_max - (104 :: u64)"
    unfolding word_less_nat_alt m using assms by simp
qed

text \<open>Behind an accepted header, validation is the check of the target table and the lane.\<close>

lemma validate_packet_accepted:
  assumes "header_size \<le> length bytes" "get_header bytes = (h, rest)" "header_accepted h (length bytes)"
    "get_targets (unat (ph_target_count h)) rest = (ts, body)"
  defines "off \<equiv> (104 :: u64) + ucast (ph_target_count h) * 80"
  shows "validate_packet (Span bytes) True True =
    (if ph_total_size h < off \<or> 16384 < ph_total_size h - off then (SACCADE_ERROR_INVALID_ARGUMENT, None)
     else case check_targets body (ph_total_size h - off) 0 ts of
       None \<Rightarrow> (SACCADE_ERROR_INVALID_ARGUMENT, None)
     | Some n \<Rightarrow> if ph_total_size h \<noteq> off + ucast n then (SACCADE_ERROR_INVALID_ARGUMENT, None)
         else (SACCADE_OK, Some \<lparr>pv_header = h, pv_targets = ts, pv_byte_size = unat (ph_total_size h),
                pv_text = take (unat n) body, pv_text_size = n\<rparr>))"
proof -
  note f = header_accepted_fields [OF assms(3)]
  have stride: "(ucast (80 :: u32) :: u64) = 80" by simp
  have "\<not> length bytes < header_size" using assms(1) by simp
  with text_offset_nat(2) [OF f(3)] show ?thesis
    by (simp only: validate_packet_def assms(2-4) f(1,2) stride off_def Let_def span_u8.case prod.case
        if_True if_False simp_thms)
qed

lemma validate_packet_sound:
  assumes ok: "validate_packet (Span bytes) True True = (SACCADE_OK, Some v)"
  shows "packet_wf v \<and> (\<exists>slack. bytes = put_packet (pv_header v) (pv_targets v) (pv_text v) @ slack)"
proof -
  obtain h rest where h: "get_header bytes = (h, rest)" by fastforce
  have long: "header_size \<le> length bytes" using ok by (auto simp: validate_packet_def not_less split: if_splits)
  have acc: "header_accepted h (length bytes)"
    using ok h long by (simp add: validate_packet_def split: if_splits)
  note f = header_accepted_fields [OF acc]
  let ?n = "unat (ph_target_count h)"
  let ?off = "(104 :: u64) + ucast (ph_target_count h) * 80"
  note o = text_offset_nat [OF f(3)]
  obtain ts body where g: "get_targets ?n rest = (ts, body)" by fastforce
  note eq = ok [unfolded validate_packet_accepted [OF long h acc g]]
  have size: "\<not> ph_total_size h < ?off" "\<not> ph_total_size h - ?off > 16384"
    using eq by (simp_all only: prod.inject saccade_result.distinct simp_thms de_Morgan_disj split: if_splits)
  have eq2: "(case check_targets body (ph_total_size h - ?off) 0 ts of
       None \<Rightarrow> (SACCADE_ERROR_INVALID_ARGUMENT, None)
     | Some n \<Rightarrow> if ph_total_size h \<noteq> ?off + ucast n then (SACCADE_ERROR_INVALID_ARGUMENT, None)
         else (SACCADE_OK, Some \<lparr>pv_header = h, pv_targets = ts, pv_byte_size = unat (ph_total_size h),
                pv_text = take (unat n) body, pv_text_size = n\<rparr>)) = (SACCADE_OK, Some v)"
    using eq size by (simp only: simp_thms if_False)
  then obtain tsz where c: "check_targets body (ph_total_size h - ?off) 0 ts = Some tsz"
    and tot: "ph_total_size h = ?off + ucast tsz"
    and v: "\<lparr>pv_header = h, pv_targets = ts, pv_byte_size = unat (ph_total_size h),
                 pv_text = take (unat tsz) body, pv_text_size = tsz\<rparr> = v"
    by (cases "check_targets body (ph_total_size h - ?off) 0 ts") (simp_all split: if_splits)
  let ?lane = "ph_total_size h - ?off"
  have lane: "unat ?lane = unat (ph_total_size h) - unat ?off" using size(1) by (simp add: unat_sub)
  have lane16: "unat ?lane \<le> 16384" using size(2) by (simp add: word_less_nat_alt not_less)
  have tsz: "tsz = ucast ?lane"
  proof -
    have "ucast tsz = ?lane" using tot by simp
    then have "unat tsz = unat ?lane" by (metis unat_widen_words(4))
    then show ?thesis using lane16 by (simp add: word_unat_eq_iff unat_narrow_u32)
  qed
  have utsz: "unat tsz = unat ?lane" unfolding tsz using lane16 by (simp add: unat_narrow_u32)
  have total: "unat (ph_total_size h) = header_size + ?n * target_size + unat tsz"
    using lane o(1) size(1) utsz by (simp add: word_less_nat_alt)
  have rest: "bytes = put_header h @ rest"
    using put_get_header [OF long] h by (metis append_take_drop_id fst_conv snd_conv)
  have "length bytes = header_size + length rest" using arg_cong [OF rest, of length] by simp
  then have "?n * target_size \<le> length rest" using total f(4) by linarith
  from put_get_targets [OF this g] have ts: "length ts = ?n" "concat (map put_target ts) @ body = rest" by auto
  have "length bytes = header_size + ?n * target_size + length body"
    unfolding rest ts(2) [symmetric] using ts(1) by (simp add: length_concat comp_def sum_list_triv)
  then have fits: "unat tsz \<le> length body" using total f(4) by simp
  have "text_lane (take (unat ?lane) body) (unat (0 :: u32)) ts"
    using check_targets_lane [of ?lane body 0 ts] c lane16 fits utsz unfolding tsz by simp
  then have "packet_wf v"
    unfolding packet_wf_def v [symmetric] using total ts(1) fits lane16 utsz f(4) f(5) [of "unat (ph_total_size h)"]
    by (simp add: Let_def)
  moreover have "bytes = put_packet h ts (take (unat tsz) body) @ drop (unat tsz) body"
    unfolding rest ts(2) [symmetric] put_packet_def by simp
  then have "bytes = put_packet (pv_header v) (pv_targets v) (pv_text v) @ drop (unat tsz) body"
    by (simp add: v [symmetric])
  ultimately show ?thesis by blast
qed

lemma validate_packet_complete:
  assumes wf: "packet_wf v"
    and put: "bytes = put_packet (pv_header v) (pv_targets v) (pv_text v) @ slack"
  shows "validate_packet (Span bytes) True True = (SACCADE_OK, Some v)"
proof -
  have bytes: "bytes = put_header (pv_header v) @ concat (map put_target (pv_targets v)) @ pv_text v @ slack"
    using put by (simp add: put_packet_def)
  let ?h = "pv_header v" let ?ts = "pv_targets v" let ?text = "pv_text v"
  let ?off = "(104 :: u64) + ucast (ph_target_count ?h) * 80"
  have acc: "header_accepted ?h (unat (ph_total_size ?h))" and n: "unat (ph_target_count ?h) = length ?ts"
    and tl: "length ?text \<le> 16384" and lane: "text_lane ?text 0 ?ts"
    and total: "unat (ph_total_size ?h) = header_size + length ?ts * target_size + length ?text"
    and size: "pv_byte_size v = unat (ph_total_size ?h)" "unat (pv_text_size v) = length ?text"
    using wf unfolding packet_wf_def Let_def by blast+
  note f = header_accepted_fields [OF acc]
  note o = text_offset_nat [OF f(3)]
  have len: "length bytes = unat (ph_total_size ?h) + length slack"
    unfolding bytes total by (simp add: length_concat comp_def sum_list_triv)
  have acc': "header_accepted ?h (length bytes)" using f(5) len by simp
  have le: "?off \<le> ph_total_size ?h" using o(1) n total by (simp add: word_le_nat_alt)
  have ulane: "unat (ph_total_size ?h - ?off) = length ?text"
    using unat_sub [OF le] o(1) n total by simp
  have sz: "ucast (ph_total_size ?h - ?off) = pv_text_size v"
    using ulane tl size(2) by (simp add: word_unat_eq_iff unat_narrow_u32)
  have chk: "check_targets (?text @ slack) (ph_total_size ?h - ?off) 0 ?ts = Some (pv_text_size v)"
    using check_targets_lane [of "ph_total_size ?h - ?off" "?text @ slack" 0 ?ts] ulane tl lane sz by simp
  have tot: "ph_total_size ?h = ?off + ucast (pv_text_size v)"
  proof -
    have "unat (ucast (pv_text_size v) :: u64) = unat (ph_total_size ?h - ?off)" using ulane size(2) by simp
    then have "ucast (pv_text_size v) = ph_total_size ?h - ?off" by (simp only: word_unat_eq_iff)
    then show ?thesis by simp
  qed
  have gh: "get_header bytes = (?h, concat (map put_target ?ts) @ ?text @ slack)"
    unfolding bytes by simp
  have gt: "get_targets (unat (ph_target_count ?h)) (concat (map put_target ?ts) @ ?text @ slack) = (?ts, ?text @ slack)"
    unfolding n by simp
  have hs: "header_size \<le> length bytes" using len total by simp
  have lt: "\<not> (ph_total_size ?h < ?off \<or> 16384 < ph_total_size ?h - ?off)"
    using le tl unfolding word_less_nat_alt [of 16384] ulane by simp
  have v: "\<lparr>pv_header = ?h, pv_targets = ?ts, pv_byte_size = unat (ph_total_size ?h),
      pv_text = take (unat (pv_text_size v)) (?text @ slack), pv_text_size = pv_text_size v\<rparr> = v"
    using size by simp
  have tot': "\<not> ph_total_size ?h \<noteq> ?off + ucast (pv_text_size v)" using tot by simp
  have "validate_packet (Span bytes) True True =
      (SACCADE_OK, Some \<lparr>pv_header = ?h, pv_targets = ?ts, pv_byte_size = unat (ph_total_size ?h),
         pv_text = take (unat (pv_text_size v)) (?text @ slack), pv_text_size = pv_text_size v\<rparr>)"
    by (subst validate_packet_accepted [OF hs gh acc' gt], subst if_not_P [OF lt], subst chk,
        subst option.case, subst if_not_P [OF tot']) (rule refl)
  then show ?thesis by (simp only: v)
qed
lemma text_lane_valid: "text_lane lane off ts \<Longrightarrow> list_all valid_target ts"
  by (induction ts arbitrary: off) (auto simp: Let_def)

lemma packet_wf_targets: "packet_wf v \<Longrightarrow> list_all valid_target (pv_targets v)"
  unfolding packet_wf_def Let_def by (blast intro: text_lane_valid)

subsection \<open>What producers write\<close>

definition packet_of :: "packet_header \<Rightarrow> target_record list \<Rightarrow> u8 list \<Rightarrow> packet_view" where
  "packet_of h ts lane = \<lparr>pv_header = h, pv_targets = ts, pv_byte_size = unat (ph_total_size h),
     pv_text = lane, pv_text_size = word_of_nat (length lane)\<rparr>"

lemma put_packet_inject:
  assumes "put_packet h ts lane @ slack = put_packet h' ts' lane' @ slack'" "length ts = length ts'"
  shows "h = h' \<and> ts = ts' \<and> lane @ slack = lane' @ slack'"
proof -
  have "get_header (put_packet h ts lane @ slack) = get_header (put_packet h' ts' lane' @ slack')"
    using assms(1) by simp
  then have h: "h = h'" and r: "concat (map put_target ts) @ lane @ slack = concat (map put_target ts') @ lane' @ slack'"
    by (simp_all add: put_packet_def)
  have "(ts, lane @ slack) = (ts', lane' @ slack')"
    using get_put_targets [of ts "lane @ slack"] get_put_targets [of ts' "lane' @ slack'"]
    unfolding r assms(2) by simp
  then show ?thesis using h by simp
qed

text \<open>A producer whose header fits its table and lane writes a packet the reader accepts
  exactly when the targets are valid and tile the lane.\<close>

lemma validate_produced:
  assumes acc: "header_accepted h (unat (ph_total_size h))"
    and n: "unat (ph_target_count h) = length ts"
    and total: "unat (ph_total_size h) = header_size + length ts * target_size + length lane"
    and lane: "length lane \<le> 16384"
  shows "validate_packet (Span (put_packet h ts lane)) True True = (SACCADE_OK, Some v) \<longleftrightarrow>
    text_lane lane 0 ts \<and> v = packet_of h ts lane"
proof
  assume "validate_packet (Span (put_packet h ts lane)) True True = (SACCADE_OK, Some v)"
  from validate_packet_sound [OF this] obtain slack where wf: "packet_wf v"
    and put: "put_packet h ts lane = put_packet (pv_header v) (pv_targets v) (pv_text v) @ slack" by blast
  then have "get_header (put_packet h ts lane) = get_header (put_packet (pv_header v) (pv_targets v) (pv_text v) @ slack)"
    by simp
  then have "h = pv_header v" by (simp add: put_packet_def)
  then have "length ts = length (pv_targets v)" and tot: "unat (ph_total_size h) = header_size + length (pv_targets v) * target_size + length (pv_text v)"
    using wf n unfolding packet_wf_def Let_def by simp_all
  with put_packet_inject [of h ts lane "[]" "pv_header v" "pv_targets v" "pv_text v" slack] put
  have eq: "ts = pv_targets v" "lane = pv_text v @ slack" by simp_all
  with tot total have "lane = pv_text v" by simp
  moreover have "pv_text_size v = word_of_nat (length (pv_text v))" "pv_byte_size v = unat (ph_total_size (pv_header v))"
    using wf unfolding packet_wf_def Let_def by (simp_all, metis of_nat_unat ucast_id)
  ultimately show "text_lane lane 0 ts \<and> v = packet_of h ts lane"
    using wf eq \<open>h = pv_header v\<close> unfolding packet_wf_def Let_def packet_of_def by simp
next
  assume "text_lane lane 0 ts \<and> v = packet_of h ts lane"
  then have "packet_wf v" using assms by (simp add: packet_wf_def packet_of_def unat_of_nat)
  moreover have "put_packet h ts lane = put_packet (pv_header v) (pv_targets v) (pv_text v) @ []"
    using \<open>text_lane lane 0 ts \<and> v = packet_of h ts lane\<close> by (simp add: packet_of_def)
  ultimately show "validate_packet (Span (put_packet h ts lane)) True True = (SACCADE_OK, Some v)"
    by (rule validate_packet_complete)
qed

lemma length_put_packet [simp]:
  "length (put_packet h ts lane) = header_size + length ts * target_size + length lane"
  by (simp add: put_packet_def length_concat comp_def sum_list_triv)

lemma validate_packet_ok:
  "fst (validate_packet sp aligned output) = SACCADE_OK \<longleftrightarrow>
     (\<exists>v. validate_packet sp aligned output = (SACCADE_OK, Some v))"
  by (auto simp: validate_packet_def Let_def split: prod.split option.split span_u8.split)

lemma read_view_ok:
  "snd (validate_packet sp aligned out) = Some v \<longleftrightarrow> validate_packet sp aligned out = (SACCADE_OK, Some v)"
  by (auto simp: validate_packet_def Let_def split: prod.split option.split span_u8.split)

lemma read_view_wf:
  assumes "snd (validate_packet s True True) = Some v"
  shows "packet_wf v"
proof (cases s)
  case (Null_span n)
  then show ?thesis using assms by (simp add: validate_packet_def)
next
  case (Span bytes)
  then show ?thesis using assms validate_packet_sound [of bytes v] unfolding read_view_ok by simp
qed

lemma read_view_count:
  "case snd (validate_packet s True True) of None \<Rightarrow> True | Some v \<Rightarrow> length (pv_targets v) \<le> 10000"
proof (cases "snd (validate_packet s True True)")
  case (Some v)
  then have "header_accepted (pv_header v) (unat (ph_total_size (pv_header v)))"
    "unat (ph_target_count (pv_header v)) = length (pv_targets v)"
    using read_view_wf unfolding packet_wf_def Let_def by blast+
  then show ?thesis using header_accepted_fields(3) Some by fastforce
qed simp

lemma text_lane_empty:
  "text_lane [] 0 ts \<longleftrightarrow> list_all (\<lambda>t. valid_target t \<and> tx_size (tr_text t) = 0) ts"
  by (induction ts) (auto simp: Let_def unat_eq_0)

subsection \<open>Property\<close>

text \<open>C9. The reader accepts a byte span with a view if and only if the view satisfies the
  declarative specification of the format (header fields, every target valid, texts tiling the
  lane as valid UTF-8, sizes adding up) and the bytes are the encoding of that view, followed
  by bytes the packet does not claim: decoding loses nothing and accepts nothing else.\<close>

theorem validate_packet_exact:
  "validate_packet (Span bytes) True True = (SACCADE_OK, Some v) \<longleftrightarrow>
     packet_wf v \<and> (\<exists>slack. bytes = put_packet (pv_header v) (pv_targets v) (pv_text v) @ slack)"
  using validate_packet_sound validate_packet_complete by blast

end
