(* ===== verification/Coordinate_Transform.thy ===== *)
theory Coordinate_Transform
  imports Saccade_Prelude
begin

text \<open>
  The fixed-point geometry of \<open>src/geometry/coordinate_transform.cpp\<close>: rectangles in 1/256
  pixels, and the transform between two of them by a quarter turn and a scale in 32.32 fixed
  point, for points (nearest) and clipped rectangles (floor of the near edges, ceiling of the
  far ones).
\<close>

datatype transform_space = Space_capture | Space_desktop | Space_surface | Space_window | Space_other u32

datatype quarter_turn = Clockwise_0 | Clockwise_90 | Clockwise_180 | Clockwise_270 | Clockwise_other u32

record point_q8 =
  pt_x :: i32
  pt_y :: i32

record rect_q8 =
  rc_x :: i32
  rc_y :: i32
  rc_width :: i32
  rc_height :: i32

record transform_desc =
  td_source :: rect_q8
  td_destination :: rect_q8
  td_epoch :: u64
  td_source_space :: transform_space
  td_destination_space :: transform_space
  td_rotation :: quarter_turn
  td_flags :: u32
  td_reserved :: u64

record transform_scale =
  sc_floor_q32 :: u64
  sc_ceil_q32 :: u64
  sc_nearest_q32 :: u64
  sc_source_extent :: i32
  sc_destination_extent :: i32

record coordinate_transform =
  ct_desc :: transform_desc
  ct_x_scale :: transform_scale
  ct_y_scale :: transform_scale
  ct_valid :: bool

definition zero_rect :: rect_q8 where
  "zero_rect = \<lparr>rc_x = 0, rc_y = 0, rc_width = 0, rc_height = 0\<rparr>"

definition default_desc :: transform_desc where
  "default_desc = \<lparr>td_source = zero_rect, td_destination = zero_rect, td_epoch = 0,
     td_source_space = Space_capture, td_destination_space = Space_desktop, td_rotation = Clockwise_0,
     td_flags = 0, td_reserved = 0\<rparr>"

definition zero_scale :: transform_scale where
  "zero_scale = \<lparr>sc_floor_q32 = 0, sc_ceil_q32 = 0, sc_nearest_q32 = 0, sc_source_extent = 0,
     sc_destination_extent = 0\<rparr>"

definition fresh_transform :: coordinate_transform where
  "fresh_transform = \<lparr>ct_desc = default_desc, ct_x_scale = zero_scale, ct_y_scale = zero_scale, ct_valid = False\<rparr>"

definition space_valid :: "transform_space \<Rightarrow> bool" where
  "space_valid s \<longleftrightarrow> s = Space_capture \<or> s = Space_desktop \<or> s = Space_surface \<or> s = Space_window"

definition rotation_valid :: "quarter_turn \<Rightarrow> bool" where
  "rotation_valid r \<longleftrightarrow> r = Clockwise_0 \<or> r = Clockwise_90 \<or> r = Clockwise_180 \<or> r = Clockwise_270"

text \<open>The right and bottom edges of a rectangle that has an area and stays in 32 bits.\<close>

definition rect_edges :: "rect_q8 \<Rightarrow> (int \<times> int) option" where
  "rect_edges r =
     (if sint (rc_width r) \<le> 0 \<or> sint (rc_height r) \<le> 0 then None
      else let right = sint (rc_x r) + sint (rc_width r); bottom = sint (rc_y r) + sint (rc_height r)
      in if right \<le> int32_max \<and> right \<ge> int32_min \<and> bottom \<le> int32_max \<and> bottom \<ge> int32_min
         then Some (right, bottom) else None)"

definition rect_valid :: "rect_q8 \<Rightarrow> bool" where
  "rect_valid r \<longleftrightarrow> rect_edges r \<noteq> None"

definition rect_contains :: "rect_q8 \<Rightarrow> rect_q8 \<Rightarrow> bool" where
  "rect_contains outer inner \<longleftrightarrow>
     (case rect_edges outer of None \<Rightarrow> False
      | Some (outer_right, outer_bottom) \<Rightarrow>
          (case rect_edges inner of None \<Rightarrow> False
           | Some (inner_right, inner_bottom) \<Rightarrow>
               sint (rc_x inner) \<ge> sint (rc_x outer) \<and> sint (rc_y inner) \<ge> sint (rc_y outer) \<and>
               inner_right \<le> outer_right \<and> inner_bottom \<le> outer_bottom))"

fun rotate_point :: "quarter_turn \<Rightarrow> u32 \<Rightarrow> u32 \<Rightarrow> u32 \<Rightarrow> u32 \<Rightarrow> u32 \<times> u32" where
  "rotate_point Clockwise_0 source_width source_height x y = (x, y)"
| "rotate_point Clockwise_90 source_width source_height x y = (source_height - y, x)"
| "rotate_point Clockwise_180 source_width source_height x y = (source_width - x, source_height - y)"
| "rotate_point Clockwise_270 source_width source_height x y = (y, source_width - x)"
| "rotate_point (Clockwise_other _) source_width source_height x y = (0, 0)"

text \<open>The rotated left, upper, right and bottom.\<close>

fun rotate_rect :: "quarter_turn \<Rightarrow> u32 \<Rightarrow> u32 \<Rightarrow> u32 \<Rightarrow> u32 \<Rightarrow> u32 \<Rightarrow> u32 \<Rightarrow> u32 \<times> u32 \<times> u32 \<times> u32" where
  "rotate_rect Clockwise_0 source_width source_height left upper right bottom = (left, upper, right, bottom)"
| "rotate_rect Clockwise_90 source_width source_height left upper right bottom =
     (source_height - bottom, left, source_height - upper, right)"
| "rotate_rect Clockwise_180 source_width source_height left upper right bottom =
     (source_width - right, source_height - bottom, source_width - left, source_height - upper)"
| "rotate_rect Clockwise_270 source_width source_height left upper right bottom =
     (upper, source_width - right, bottom, source_width - left)"
| "rotate_rect (Clockwise_other _) source_width source_height left upper right bottom = (0, 0, 0, 0)"

definition make_scale :: "i32 \<Rightarrow> i32 \<Rightarrow> transform_scale" where
  "make_scale source_extent destination_extent =
     (let source = scast source_extent :: u64;
          numerator = push_bit 32 (scast destination_extent :: u64)
      in \<lparr>sc_floor_q32 = numerator div source, sc_ceil_q32 = (numerator + source - 1) div source,
          sc_nearest_q32 = (numerator + source div 2) div source,
          sc_source_extent = source_extent, sc_destination_extent = destination_extent\<rparr>)"

definition scaled_floor :: "u32 \<Rightarrow> transform_scale \<Rightarrow> u32" where
  "scaled_floor v sc =
     (if v = 0 then 0
      else if v \<ge> sc_source_extent sc then sc_destination_extent sc
      else ucast (drop_bit 32 ((ucast v :: u64) * sc_floor_q32 sc)))"

definition scaled_ceil :: "u32 \<Rightarrow> transform_scale \<Rightarrow> u32" where
  "scaled_ceil v sc =
     (if v = 0 then 0
      else if v \<ge> sc_source_extent sc then sc_destination_extent sc
      else let product = (ucast v :: u64) * sc_ceil_q32 sc;
               rounded = drop_bit 32 (product + 0xFFFFFFFF)
      in ucast (min rounded (scast (sc_destination_extent sc))))"

definition scaled_nearest :: "u32 \<Rightarrow> transform_scale \<Rightarrow> u32" where
  "scaled_nearest v sc =
     (if v = 0 then 0
      else if v \<ge> sc_source_extent sc then sc_destination_extent sc
      else let product = (ucast v :: u64) * sc_nearest_q32 sc;
               rounded = drop_bit 32 (product + push_bit 31 1)
      in ucast (min rounded (scast (sc_destination_extent sc))))"

text \<open>\<open>initialize\<close>: a failure leaves the transform reset.\<close>

definition transform_initialize ::
  "transform_desc \<Rightarrow> coordinate_transform \<Rightarrow> saccade_result \<times> coordinate_transform" where
  "transform_initialize desc t =
     (let t = t\<lparr>ct_valid := False, ct_desc := default_desc, ct_x_scale := zero_scale, ct_y_scale := zero_scale\<rparr>
      in if \<not> rect_valid (td_source desc) \<or> \<not> rect_valid (td_destination desc) \<or>
            \<not> space_valid (td_source_space desc) \<or> \<not> space_valid (td_destination_space desc) \<or>
            \<not> rotation_valid (td_rotation desc) \<or> td_flags desc \<noteq> 0 \<or> td_reserved desc \<noteq> 0
         then (SACCADE_ERROR_INVALID_ARGUMENT, t)
         else let swaps_axes = td_rotation desc = Clockwise_90 \<or> td_rotation desc = Clockwise_270;
                  rotated_width = (if swaps_axes then rc_height (td_source desc) else rc_width (td_source desc));
                  rotated_height = (if swaps_axes then rc_width (td_source desc) else rc_height (td_source desc))
         in (SACCADE_OK, t\<lparr>ct_desc := desc,
               ct_x_scale := make_scale rotated_width (rc_width (td_destination desc)),
               ct_y_scale := make_scale rotated_height (rc_height (td_destination desc)),
               ct_valid := True\<rparr>))"

definition map_point :: "coordinate_transform \<Rightarrow> point_q8 \<Rightarrow> bool \<Rightarrow> saccade_result \<times> point_q8 option" where
  "map_point t source destination =
     (if \<not> ct_valid t \<or> \<not> destination then (SACCADE_ERROR_INVALID_ARGUMENT, None)
      else let from = td_source (ct_desc t); to = td_destination (ct_desc t);
               local_x = sint (pt_x source) - sint (rc_x from);
               local_y = sint (pt_y source) - sint (rc_y from)
      in if local_x < 0 \<or> local_y < 0 \<or> local_x > sint (rc_width from) \<or> local_y > sint (rc_height from)
         then (SACCADE_ERROR_INVALID_ARGUMENT, None)
         else let (rotated_x, rotated_y) = rotate_point (td_rotation (ct_desc t)) (rc_width from) (rc_height from)
                    (word_of_int local_x) (word_of_int local_y);
                  output_x = sint (rc_x to) + uint (scaled_nearest rotated_x (ct_x_scale t));
                  output_y = sint (rc_y to) + uint (scaled_nearest rotated_y (ct_y_scale t))
         in if output_x < int32_min \<or> output_x > int32_max \<or> output_y < int32_min \<or> output_y > int32_max
            then (SACCADE_ERROR_STATE, None)
            else (SACCADE_OK, Some \<lparr>pt_x = word_of_int output_x, pt_y = word_of_int output_y\<rparr>))"

definition map_rect_clipped :: "coordinate_transform \<Rightarrow> rect_q8 \<Rightarrow> bool \<Rightarrow> saccade_result \<times> rect_q8 option" where
  "map_rect_clipped t source destination =
     (if \<not> ct_valid t \<or> \<not> destination \<or> \<not> rect_valid source then (SACCADE_ERROR_INVALID_ARGUMENT, None)
      else let from = td_source (ct_desc t); to = td_destination (ct_desc t);
               source_right = sint (rc_x source) + sint (rc_width source);
               source_bottom = sint (rc_y source) + sint (rc_height source);
               transform_right = sint (rc_x from) + sint (rc_width from);
               transform_bottom = sint (rc_y from) + sint (rc_height from);
               clipped_left = max (sint (rc_x source)) (sint (rc_x from));
               clipped_top = max (sint (rc_y source)) (sint (rc_y from));
               clipped_right = min source_right transform_right;
               clipped_bottom = min source_bottom transform_bottom
      in if clipped_left \<ge> clipped_right \<or> clipped_top \<ge> clipped_bottom then (SACCADE_ERROR_NOT_FOUND, None)
         else let (left, upper, right, bottom) = rotate_rect (td_rotation (ct_desc t)) (rc_width from) (rc_height from)
                    (word_of_int (clipped_left - sint (rc_x from))) (word_of_int (clipped_top - sint (rc_y from)))
                    (word_of_int (clipped_right - sint (rc_x from))) (word_of_int (clipped_bottom - sint (rc_y from)));
                  output_left = uint (scaled_floor left (ct_x_scale t));
                  output_top = uint (scaled_floor upper (ct_y_scale t));
                  output_right = uint (scaled_ceil right (ct_x_scale t));
                  output_bottom = uint (scaled_ceil bottom (ct_y_scale t));
                  x = sint (rc_x to) + output_left; y = sint (rc_y to) + output_top;
                  width = output_right - output_left; height = output_bottom - output_top
         in if x < int32_min \<or> x > int32_max \<or> y < int32_min \<or> y > int32_max \<or> width \<le> 0 \<or>
               width > int32_max \<or> height \<le> 0 \<or> height > int32_max
            then (SACCADE_ERROR_STATE, None)
            else (SACCADE_OK, Some \<lparr>rc_x = word_of_int x, rc_y = word_of_int y,
                   rc_width = word_of_int width, rc_height = word_of_int height\<rparr>))"

text \<open>\<open>inverse\<close>; the rotation is computed on its code.\<close>

fun turn_code :: "quarter_turn \<Rightarrow> u32" where
  "turn_code Clockwise_0 = 0"
| "turn_code Clockwise_90 = 1"
| "turn_code Clockwise_180 = 2"
| "turn_code Clockwise_270 = 3"
| "turn_code (Clockwise_other c) = c"

definition turn_of_code :: "u32 \<Rightarrow> quarter_turn" where
  "turn_of_code c = (if c = 0 then Clockwise_0 else if c = 1 then Clockwise_90 else if c = 2 then Clockwise_180
     else if c = 3 then Clockwise_270 else Clockwise_other c)"

definition transform_inverse ::
  "coordinate_transform \<Rightarrow> bool \<Rightarrow> coordinate_transform \<Rightarrow> saccade_result \<times> coordinate_transform" where
  "transform_inverse t destination old =
     (if \<not> ct_valid t \<or> \<not> destination then (SACCADE_ERROR_INVALID_ARGUMENT, old)
      else let d = ct_desc t; rotation = turn_code (td_rotation d) in
        transform_initialize (default_desc\<lparr>td_source := td_destination d, td_destination := td_source d,
          td_epoch := td_epoch d, td_source_space := td_destination_space d,
          td_destination_space := td_source_space d, td_rotation := turn_of_code ((4 - rotation) AND 3)\<rparr>) old)"

lemma unat_positive:
  assumes "0 < sint (w :: i32)"
  shows "0 < unat w" "unat w < 2147483648" "int (unat w) = sint w" "unat (scast w :: u64) = unat w"
proof -
  have "uint w = take_bit 32 (sint w)" using uint_word_of_int [of "sint w", where 'a = 32]
    by (simp add: take_bit_eq_mod)
  then have u: "uint w = sint w" using assms sint32_lt [of w] by (simp add: take_bit_int_eq_self)
  show 3: "int (unat w) = sint w" using u by simp
  show "unat w < 2147483648" using 3 sint32_lt [of w] by linarith
  show "0 < unat w" using 3 assms by linarith
  have "(scast w :: u64) = word_of_int (sint w)" by simp
  then have "uint (scast w :: u64) = sint w mod 2 ^ 64" by (simp only: uint_word_of_int word_size len_of_numeral_defs) simp
  then have "uint (scast w :: u64) = uint w" using u sint32_lt [of w] assms by simp
  then show "unat (scast w :: u64) = unat w" by (metis nat_uint_eq)
qed

text \<open>The fixed-point quotients, on natural numbers.\<close>

lemma scale_quotients:
  fixes S D v :: nat
  assumes S: "0 < S" and v: "v \<le> S"
  defines "F \<equiv> D * 2 ^ 32 div S" and "C \<equiv> (D * 2 ^ 32 + S - 1) div S" and "N \<equiv> (D * 2 ^ 32 + S div 2) div S"
  shows "v * F div 2 ^ 32 * S \<le> v * D" "v * D \<le> (v * C + (2 ^ 32 - 1)) div 2 ^ 32 * S"
    "v * F \<le> D * 2 ^ 32" "v * C \<le> D * 2 ^ 32 + S" "v * N \<le> D * 2 ^ 32 + S"
proof -
  have FS: "F * S \<le> D * 2 ^ 32" unfolding F_def by (rule div_times_less_eq_dividend)
  have CS: "D * 2 ^ 32 \<le> C * S"
  proof -
    have "D * 2 ^ 32 + S - 1 < S + C * S"
      unfolding C_def using S by (metis dividend_less_div_times)
    then show ?thesis using S by simp
  qed
  have "v * F div 2 ^ 32 * 2 ^ 32 \<le> v * F" by (rule div_times_less_eq_dividend)
  then have "v * F div 2 ^ 32 * 2 ^ 32 * S \<le> v * F * S" by (rule mult_le_mono1)
  also have "\<dots> \<le> v * (D * 2 ^ 32)" using FS by (simp only: mult.assoc mult_le_mono2)
  finally show "v * F div 2 ^ 32 * S \<le> v * D" by simp
  have "v * C \<le> (v * C + (2 ^ 32 - 1)) div 2 ^ 32 * 2 ^ 32"
    using dividend_less_div_times [of "2 ^ 32" "v * C + (2 ^ 32 - 1)"] by simp
  then have "v * C * S \<le> (v * C + (2 ^ 32 - 1)) div 2 ^ 32 * 2 ^ 32 * S" by (rule mult_le_mono1)
  moreover have "v * (D * 2 ^ 32) \<le> v * C * S" using CS by (simp only: mult.assoc mult_le_mono2)
  ultimately have "v * (D * 2 ^ 32) \<le> (v * C + (2 ^ 32 - 1)) div 2 ^ 32 * 2 ^ 32 * S" by linarith
  then show "v * D \<le> (v * C + (2 ^ 32 - 1)) div 2 ^ 32 * S" by simp
  have bound: "v * (x div S) \<le> x" for x
  proof -
    have "v * (x div S) \<le> S * (x div S)" using v by (rule mult_le_mono1)
    also have "\<dots> \<le> x" by (simp add: mult.commute)
    finally show ?thesis .
  qed
  show "v * F \<le> D * 2 ^ 32" unfolding F_def by (rule bound)
  show "v * C \<le> D * 2 ^ 32 + S" unfolding C_def by (rule le_trans [OF bound]) simp
  show "v * N \<le> D * 2 ^ 32 + S" unfolding N_def by (rule le_trans [OF bound]) simp
qed

lemma scale_nearest_error:
  fixes S D v :: nat
  assumes S: "0 < S" "S < 2 ^ 31" and v: "v \<le> S"
  defines "N \<equiv> (D * 2 ^ 32 + S div 2) div S"
  defines "n \<equiv> (v * N + 2 ^ 31) div 2 ^ 32"
  shows "4 * (n * S) \<le> 4 * (v * D) + 3 * S" "4 * (v * D) \<le> 4 * (n * S) + 3 * S"
proof -
  have N1: "N * S \<le> D * 2 ^ 32 + S div 2" unfolding N_def by (rule div_times_less_eq_dividend)
  have N2: "D * 2 ^ 32 + S div 2 < S + N * S" unfolding N_def using S(1) by (rule dividend_less_div_times)
  have n1: "n * 2 ^ 32 \<le> v * N + 2 ^ 31" unfolding n_def by (rule div_times_less_eq_dividend)
  have n2: "v * N + 2 ^ 31 < 2 ^ 32 + n * 2 ^ 32" unfolding n_def by (rule dividend_less_div_times) simp
  have vS: "2 * (v * (S div 2)) \<le> 2 ^ 31 * S"
  proof -
    have "2 * (v * (S div 2)) \<le> v * S" by (simp add: mult.left_commute)
    also have "\<dots> \<le> 2 ^ 31 * S" using v S(2) by (intro mult_le_mono1) simp
    finally show ?thesis .
  qed
  have vS2: "2 * (v * (S - S div 2)) \<le> 2 ^ 31 * S"
  proof -
    have "2 * (S - S div 2) \<le> S + 1" by simp
    then have "v * (2 * (S - S div 2)) \<le> v * (S + 1)" by (rule mult_le_mono2)
    also have "\<dots> \<le> S * 2 ^ 31" using v S(2) by (intro mult_le_mono) simp_all
    finally show ?thesis by (simp only: mult.left_commute [of 2] mult.commute [of S])
  qed
  show "4 * (n * S) \<le> 4 * (v * D) + 3 * S"
  proof -
    have "n * 2 ^ 32 * S \<le> (v * N + 2 ^ 31) * S" using n1 by (rule mult_le_mono1)
    also have "\<dots> = v * (N * S) + 2 ^ 31 * S" by (simp add: algebra_simps)
    also have "\<dots> \<le> v * (D * 2 ^ 32 + S div 2) + 2 ^ 31 * S" using N1 by (intro add_le_mono1 mult_le_mono2)
    finally have "n * 2 ^ 32 * S \<le> v * D * 2 ^ 32 + v * (S div 2) + 2 ^ 31 * S" by (simp add: algebra_simps)
    then have "2 ^ 30 * (4 * (n * S)) \<le> 2 ^ 30 * (4 * (v * D) + 3 * S)" using vS by simp
    then show ?thesis by simp
  qed
  show "4 * (v * D) \<le> 4 * (n * S) + 3 * S"
  proof -
    have "D * 2 ^ 32 \<le> N * S + (S - S div 2)" using N2 by linarith
    then have "v * (D * 2 ^ 32) \<le> v * (N * S + (S - S div 2))" by (rule mult_le_mono2)
    also have "\<dots> = v * N * S + v * (S - S div 2)" by (simp add: algebra_simps)
    also have "\<dots> \<le> (2 ^ 31 + n * 2 ^ 32) * S + v * (S - S div 2)"
      using n2 by (intro add_le_mono1 mult_le_mono1) simp
    finally have "v * D * 2 ^ 32 \<le> 2 ^ 31 * S + n * 2 ^ 32 * S + v * (S - S div 2)" by (simp add: algebra_simps)
    then have "2 ^ 30 * (4 * (v * D)) \<le> 2 ^ 30 * (4 * (n * S) + 3 * S)" using vS2 by simp
    then show ?thesis by simp
  qed
qed

lemma make_scale_nat:
  assumes s: "0 < sint s" and d: "0 < sint d"
  shows "unat (sc_floor_q32 (make_scale s d)) = unat d * 2 ^ 32 div unat s"
    "unat (sc_ceil_q32 (make_scale s d)) = (unat d * 2 ^ 32 + unat s - 1) div unat s"
    "unat (sc_nearest_q32 (make_scale s d)) = (unat d * 2 ^ 32 + unat s div 2) div unat s"
    "sc_source_extent (make_scale s d) = s" "sc_destination_extent (make_scale s d) = d"
proof -
  note S = unat_positive [OF s] and D = unat_positive [OF d]
  let ?n = "push_bit 32 (scast d :: u64)"
  have n: "unat ?n = unat d * 2 ^ 32" using D by (simp add: push_bit_eq_mult unat_word_ariths)
  have add: "unat (?n + x) = unat d * 2 ^ 32 + unat x" if "unat x < 2 ^ 32" for x
    using n that D(2) by (simp add: unat_word_ariths)
  have c: "unat (?n + scast s - 1) = unat d * 2 ^ 32 + unat s - 1"
  proof -
    have "unat (?n + scast s) = unat d * 2 ^ 32 + unat s" using add [of "scast s"] S by simp
    moreover have "(1 :: u64) \<le> ?n + scast s" unfolding word_le_nat_alt using calculation S(1) by simp
    ultimately show ?thesis using unat_sub [of 1 "?n + scast s"] by simp
  qed
  have h: "unat (scast s div 2 :: u64) = unat s div 2" using S(4) by (simp add: unat_div)
  have "unat s div 2 < 2 ^ 32" using S(2) by simp
  then have k: "unat (?n + scast s div 2) = unat d * 2 ^ 32 + unat s div 2" using add h by metis
  show "unat (sc_floor_q32 (make_scale s d)) = unat d * 2 ^ 32 div unat s"
    using n S(4) by (simp add: make_scale_def Let_def unat_div)
  show "unat (sc_ceil_q32 (make_scale s d)) = (unat d * 2 ^ 32 + unat s - 1) div unat s"
    using c S(4) by (simp add: make_scale_def Let_def unat_div)
  show "unat (sc_nearest_q32 (make_scale s d)) = (unat d * 2 ^ 32 + unat s div 2) div unat s"
    using k S(4) by (simp add: make_scale_def Let_def unat_div)
qed (simp_all add: make_scale_def Let_def)

text \<open>Reading the high half of a product that does not overflow.\<close>

lemma high_half:
  assumes "unat (v :: u32) * unat q + k < 2 ^ 64"
  shows "unat (drop_bit 32 ((ucast v :: u64) * q + word_of_nat k)) = (unat v * unat q + k) div 2 ^ 32"
proof -
  have "unat ((ucast v :: u64) * q) = unat v * unat q" using assms by (simp add: unat_word_ariths)
  moreover have "unat (word_of_nat k :: u64) = k" using assms by (simp add: unat_of_nat)
  ultimately have "unat ((ucast v :: u64) * q + word_of_nat k) = unat v * unat q + k"
    using assms by (simp add: unat_word_ariths)
  then show ?thesis by (simp add: drop_bit_eq_div unat_div)
qed

lemma unat_min_narrow:
  assumes "0 < sint (d :: i32)"
  shows "unat (ucast (min r (scast d :: u64)) :: u32) = min (unat r) (unat d)"
proof -
  note D = unat_positive [OF assms]
  have "unat (min r (scast d :: u64)) = min (unat r) (unat d)"
    using D(4) by (auto simp: min_def word_le_nat_alt)
  then show ?thesis using D(2) by (simp add: unat_narrow_u32)
qed

lemma powers:
  "(2 :: nat) ^ 31 = 2147483648" "(2 :: nat) ^ 32 = 4294967296"
  "(2 :: nat) ^ 63 = 9223372036854775808" "(2 :: nat) ^ 64 = 18446744073709551616"
  by simp_all

lemma scaled_floor_bounds:
  assumes s: "0 < sint (s :: i32)" and d: "0 < sint (d :: i32)" and v: "(v :: u32) \<le> s"
  shows
  "unat (scaled_floor v (make_scale s d)) * unat s \<le> unat v * unat d \<and> unat (scaled_floor v (make_scale s d)) \<le> unat d"
proof -
  note S = unat_positive [OF s] and D = unat_positive [OF d] and sc = make_scale_nat [OF s d]
  have vS: "unat v \<le> unat s" using v by (simp add: word_le_nat_alt)
  note q = scale_quotients [OF S(1) vS, of "unat d"]
  have q3: "unat v * (unat d * 2 ^ 32 div unat s) < 2 ^ 63" using q(3) D(2) unfolding powers by linarith
  have h: "unat (drop_bit 32 ((ucast v :: u64) * sc_floor_q32 (make_scale s d))) =
      unat v * (unat d * 2 ^ 32 div unat s) div 2 ^ 32"
    using high_half [of v "sc_floor_q32 (make_scale s d)" 0] q3 sc(1) by simp
  have "unat v * (unat d * 2 ^ 32 div unat s) div 2 ^ 32 \<le> unat d"
    using div_le_mono [OF q(3), of "2 ^ 32"] by simp
  then have "unat (scaled_floor v (make_scale s d)) =
      (if v = 0 then 0 else if s \<le> v then unat d else unat v * (unat d * 2 ^ 32 div unat s) div 2 ^ 32)"
    unfolding scaled_floor_def sc(4,5) using h D(2) by (simp add: unat_narrow_u32)
  then show ?thesis using q(1) v div_le_mono [OF q(3), of "2 ^ 32"] by (auto simp: mult.commute)
qed

lemma scaled_ceil_bounds:
  assumes s: "0 < sint (s :: i32)" and d: "0 < sint (d :: i32)" and v: "(v :: u32) \<le> s"
  shows
  "unat v * unat d \<le> unat (scaled_ceil v (make_scale s d)) * unat s \<and> unat (scaled_ceil v (make_scale s d)) \<le> unat d"
proof -
  note S = unat_positive [OF s] and D = unat_positive [OF d] and sc = make_scale_nat [OF s d]
  have vS: "unat v \<le> unat s" using v by (simp add: word_le_nat_alt)
  note q = scale_quotients [OF S(1) vS, of "unat d"]
  let ?c = "(unat v * ((unat d * 2 ^ 32 + unat s - 1) div unat s) + (2 ^ 32 - 1)) div 2 ^ 32"
  have "unat v * ((unat d * 2 ^ 32 + unat s - 1) div unat s) + (2 ^ 32 - 1) < 2 ^ 64"
    using q(4) D(2) S(2) unfolding powers by linarith
  then have h: "unat (drop_bit 32 ((ucast v :: u64) * sc_ceil_q32 (make_scale s d) + 0xFFFFFFFF)) = ?c"
    using high_half [of v "sc_ceil_q32 (make_scale s d)" "2 ^ 32 - 1"] sc(2) by simp
  have e: "unat (scaled_ceil v (make_scale s d)) =
      (if v = 0 then 0 else if s \<le> v then unat d else min ?c (unat d))"
    unfolding scaled_ceil_def sc(4,5) Let_def by (cases "v = 0"; cases "s \<le> v") (simp_all only: unat_min_narrow [OF d] h unat_0 if_True if_False simp_thms)
  have "unat v * unat d \<le> min ?c (unat d) * unat s"
    using q(2) mult_le_mono [OF vS le_refl, of "unat d"] by (simp add: min_def mult.commute)
  then show ?thesis unfolding e using v by (auto simp: mult.commute)
qed

lemma scaled_nearest_bounds:
  assumes s: "0 < sint (s :: i32)" and d: "0 < sint (d :: i32)" and v: "(v :: u32) \<le> s"
  shows
  "4 * (unat (scaled_nearest v (make_scale s d)) * unat s) \<le> 4 * (unat v * unat d) + 3 * unat s \<and>
   4 * (unat v * unat d) \<le> 4 * (unat (scaled_nearest v (make_scale s d)) * unat s) + 3 * unat s \<and>
   unat (scaled_nearest v (make_scale s d)) \<le> unat d"
proof -
  note S = unat_positive [OF s] and D = unat_positive [OF d] and sc = make_scale_nat [OF s d]
  have vS: "unat v \<le> unat s" using v by (simp add: word_le_nat_alt)
  note q = scale_quotients [OF S(1) vS, of "unat d"]
  have S31: "unat s < 2 ^ 31" using S(2) by simp
  note near = scale_nearest_error [OF S(1) S31 vS, of "unat d"]
  let ?n = "(unat v * ((unat d * 2 ^ 32 + unat s div 2) div unat s) + 2 ^ 31) div 2 ^ 32"
  have "unat v * ((unat d * 2 ^ 32 + unat s div 2) div unat s) + 2 ^ 31 < 2 ^ 64"
    using q(5) D(2) S(2) unfolding powers by linarith
  then have h: "unat (drop_bit 32 ((ucast v :: u64) * sc_nearest_q32 (make_scale s d) + push_bit 31 1)) = ?n"
    using high_half [of v "sc_nearest_q32 (make_scale s d)" "2 ^ 31"] sc(3) by simp
  have e: "unat (scaled_nearest v (make_scale s d)) =
      (if v = 0 then 0 else if s \<le> v then unat d else min ?n (unat d))"
    unfolding scaled_nearest_def sc(4,5) Let_def by (cases "v = 0"; cases "s \<le> v") (simp_all only: unat_min_narrow [OF d] h unat_0 if_True if_False simp_thms)
  have top: "unat v * unat d \<le> unat d * unat s" using vS by (simp add: mult.commute)
  have "4 * (min ?n (unat d) * unat s) \<le> 4 * (unat v * unat d) + 3 * unat s \<and>
      4 * (unat v * unat d) \<le> 4 * (min ?n (unat d) * unat s) + 3 * unat s"
  proof (cases "?n \<le> unat d")
    case True
    then show ?thesis using near by (simp only: min_absorb1)
  next
    case False
    then have "min ?n (unat d) = unat d" by (simp only: min_def if_False)
    moreover have "unat d * unat s \<le> ?n * unat s" using False by (intro mult_le_mono1) linarith
    ultimately show ?thesis using near(1) top by linarith
  qed
  then show ?thesis unfolding e using v by (auto simp: mult.commute)
qed

lemma axis_nonempty:
  assumes "0 < sint s" "0 < sint d" "l < r" "r \<le> s"
  shows "uint (scaled_floor l (make_scale s d)) < uint (scaled_ceil r (make_scale s d))"
    "uint (scaled_ceil r (make_scale s d)) \<le> sint d" "0 \<le> uint (scaled_floor l (make_scale s d))"
proof -
  note D = unat_positive [OF assms(2)]
  have l: "l \<le> s" using assms(3,4) by simp
  have "unat l * unat d < unat r * unat d" using assms(3) D(1) by (simp add: word_less_nat_alt)
  then have "unat (scaled_floor l (make_scale s d)) * unat s < unat (scaled_ceil r (make_scale s d)) * unat s"
    using scaled_floor_bounds [OF assms(1,2) l] scaled_ceil_bounds [OF assms(1,2,4)] by linarith
  then have "unat (scaled_floor l (make_scale s d)) < unat (scaled_ceil r (make_scale s d))" by simp
  then show "uint (scaled_floor l (make_scale s d)) < uint (scaled_ceil r (make_scale s d))"
    by (simp add: word_less_nat_alt [symmetric] word_less_def)
  have "scaled_ceil r (make_scale s d) \<le> d"
    using scaled_ceil_bounds [OF assms(1,2,4)] by (simp add: word_le_nat_alt)
  then show "uint (scaled_ceil r (make_scale s d)) \<le> sint d" using D(3) by (simp add: word_le_def)
qed simp

text \<open>What \<open>initialize\<close> establishes.\<close>

definition transform_wf :: "coordinate_transform \<Rightarrow> bool" where
  "transform_wf t \<longleftrightarrow> ct_valid t \<longrightarrow> (let d = ct_desc t; from = td_source d; to = td_destination d;
       swaps = td_rotation d = Clockwise_90 \<or> td_rotation d = Clockwise_270 in
     rect_valid from \<and> rect_valid to \<and> space_valid (td_source_space d) \<and> space_valid (td_destination_space d) \<and>
     rotation_valid (td_rotation d) \<and> td_flags d = 0 \<and> td_reserved d = 0 \<and>
     ct_x_scale t = make_scale (if swaps then rc_height from else rc_width from) (rc_width to) \<and>
     ct_y_scale t = make_scale (if swaps then rc_width from else rc_height from) (rc_height to))"

lemma transform_wf_initialize: "transform_wf (snd (transform_initialize desc t))"
  by (simp add: transform_initialize_def transform_wf_def Let_def)

lemma transform_initialize_ok:
  "fst (transform_initialize desc t) = SACCADE_OK \<or>
     fst (transform_initialize desc t) = SACCADE_ERROR_INVALID_ARGUMENT"
  "ct_valid (snd (transform_initialize desc t)) \<longleftrightarrow> fst (transform_initialize desc t) = SACCADE_OK"
  "fst (transform_initialize desc t) = SACCADE_OK \<Longrightarrow> ct_desc (snd (transform_initialize desc t)) = desc"
  by (auto simp: transform_initialize_def Let_def)

lemma rect_valid_bounds:
  "rect_valid r \<longleftrightarrow> 0 < sint (rc_width r) \<and> 0 < sint (rc_height r) \<and>
     sint (rc_x r) + sint (rc_width r) \<le> int32_max \<and> sint (rc_y r) + sint (rc_height r) \<le> int32_max"
proof -
  have "\<not> sint (x :: i32) + w < int32_min" if "0 < w" for x w
    using that sint32_bounds(1) [of x] by linarith
  then show ?thesis by (auto simp: rect_valid_def rect_edges_def Let_def not_le)
qed

lemma rect_edges_valid:
  "rect_valid r \<Longrightarrow> rect_edges r = Some (sint (rc_x r) + sint (rc_width r), sint (rc_y r) + sint (rc_height r))"
  by (simp add: rect_valid_def rect_edges_def Let_def split: if_splits)

text \<open>A turned rectangle inside the source stays a rectangle inside the turned source.\<close>

lemma rotate_rect_inside:
  assumes "rotation_valid rot" "l < r" "r \<le> w" "t < b" "b \<le> h"
    "rotate_rect rot w h l t r b = (l', t', r', b')"
  shows "l' < r' \<and> r' \<le> (if rot = Clockwise_90 \<or> rot = Clockwise_270 then h else w) \<and>
    t' < b' \<and> b' \<le> (if rot = Clockwise_90 \<or> rot = Clockwise_270 then w else h)"
proof -
  have flip: "e - y < e - x \<and> e - x \<le> e" if "x < y" "y \<le> e" for x y e :: u32
    using that by (auto simp: word_less_nat_alt word_le_nat_alt unat_sub)
  show ?thesis using assms flip [OF assms(2,3)] flip [OF assms(4,5)]
    by (cases rot) (auto simp: rotation_valid_def)
qed

lemma local_word:
  assumes "0 \<le> a" "a < b" "b \<le> sint w"
  shows "word_of_int a < (word_of_int b :: u32)" "word_of_int b \<le> (w :: u32)"
proof -
  have "0 < sint w" using assms by linarith
  then have w: "uint w = sint w" "sint w < 2 ^ 31" using unat_positive [of w] sint32_lt [of w] by auto
  have u: "uint (word_of_int k :: u32) = k" if "0 \<le> k" "k \<le> b" for k
  proof -
    have "k < 4294967296" using that assms w sint32_lt [of w] by linarith
    then show ?thesis using that by (simp add: uint_word_of_int)
  qed
  show "word_of_int a < (word_of_int b :: u32)" using u [of a] u [of b] assms by (simp add: word_less_def)
  show "word_of_int b \<le> w" using u [of b] assms w by (simp add: word_le_def)
qed

text \<open>A rectangle placed by offsets inside the extents of another one.\<close>

lemma placed_inside:
  assumes "rect_valid to" "0 \<le> L" "L < R" "R \<le> sint (rc_width to)" "0 \<le> U" "U < B" "B \<le> sint (rc_height to)"
  shows "\<not> (sint (rc_x to) + L < int32_min \<or> sint (rc_x to) + L > int32_max \<or> sint (rc_y to) + U < int32_min \<or>
      sint (rc_y to) + U > int32_max \<or> R - L \<le> 0 \<or> R - L > int32_max \<or> B - U \<le> 0 \<or> B - U > int32_max)"
    "rect_contains to \<lparr>rc_x = word_of_int (sint (rc_x to) + L), rc_y = word_of_int (sint (rc_y to) + U),
       rc_width = word_of_int (R - L), rc_height = word_of_int (B - U)\<rparr>" (is "rect_contains to ?out")
proof -
  have b: "sint (rc_x to) + sint (rc_width to) \<le> int32_max" "sint (rc_y to) + sint (rc_height to) \<le> int32_max"
    using assms(1) by (simp_all add: rect_valid_bounds)
  note lo = sint32_bounds(1) [of "rc_x to"] sint32_bounds(1) [of "rc_y to"]
  note hi = sint32_bounds(2) [of "rc_width to"] sint32_bounds(2) [of "rc_height to"]
  show "\<not> (sint (rc_x to) + L < int32_min \<or> sint (rc_x to) + L > int32_max \<or> sint (rc_y to) + U < int32_min \<or>
      sint (rc_y to) + U > int32_max \<or> R - L \<le> 0 \<or> R - L > int32_max \<or> B - U \<le> 0 \<or> B - U > int32_max)"
    using assms(2-7) b lo hi by linarith
  have f: "sint (rc_x ?out) = sint (rc_x to) + L" "sint (rc_width ?out) = R - L"
    "sint (rc_y ?out) = sint (rc_y to) + U" "sint (rc_height ?out) = B - U"
    unfolding rect_q8.select_convs using assms(2-7) b lo hi by (intro sint_word_of_int32; linarith)+
  have "rect_valid ?out"
    unfolding rect_valid_bounds f using assms(2-7) b by linarith
  note e = rect_edges_valid [OF assms(1)] rect_edges_valid [OF this]
  show "rect_contains to ?out"
    unfolding rect_contains_def e option.case prod.case f using assms(2-7) by linarith
qed

lemma rotate_point_inside:
  assumes "rotation_valid rot" "x \<le> w" "y \<le> h" "rotate_point rot w h x y = (x', y')"
  shows "x' \<le> (if rot = Clockwise_90 \<or> rot = Clockwise_270 then h else w) \<and>
    y' \<le> (if rot = Clockwise_90 \<or> rot = Clockwise_270 then w else h)"
proof -
  have flip: "e - y \<le> e" if "y \<le> e" for y e :: u32
    using that by (auto simp: word_le_nat_alt unat_sub)
  show ?thesis using assms flip [OF assms(2)] flip [OF assms(3)]
    by (cases rot) (auto simp: rotation_valid_def)
qed

lemma local_word_le:
  assumes "0 \<le> a" "a \<le> sint w" "0 < sint w"
  shows "word_of_int a \<le> (w :: u32)"
proof -
  have "a < 4294967296" using assms sint32_lt [of w] by linarith
  then have "uint (word_of_int a :: u32) = a" using assms by (simp add: uint_word_of_int)
  moreover have "uint w = sint w" using unat_positive(3) [OF assms(3)] by simp
  ultimately show ?thesis using assms by (simp add: word_le_def)
qed

lemma axis_point:
  assumes "0 < sint s" "0 < sint d" "v \<le> s"
  shows "uint (scaled_nearest v (make_scale s d)) \<le> sint d"
proof -
  have "scaled_nearest v (make_scale s d) \<le> d"
    using scaled_nearest_bounds [OF assms] by (simp add: word_le_nat_alt)
  then show ?thesis using unat_positive(3) [OF assms(2)] by (simp add: word_le_def)
qed

text \<open>Turning back: the inverse's descriptor.\<close>

lemma turn_inverse:
  "rotation_valid r \<Longrightarrow> rotation_valid (turn_of_code ((4 - turn_code r) AND 3)) \<and>
     turn_of_code ((4 - turn_code (turn_of_code ((4 - turn_code r) AND 3))) AND 3) = r"
  by (cases r) (simp_all add: rotation_valid_def turn_of_code_def)

lemma transform_initialize_valid:
  assumes "ct_valid t" "transform_wf t"
  shows "transform_initialize (ct_desc t) u = (SACCADE_OK, t)"
  using assms by (simp add: transform_initialize_def transform_wf_def Let_def)

subsection \<open>Properties\<close>

text \<open>The three fixed-point scalings of an offset \<open>v\<close> on an axis from \<open>s\<close> to \<open>d\<close> units never
  overflow and bracket the exact value \<open>v * d / s\<close>: the floor is not above it, the ceiling not
  below it, the nearest differs from it by at most 3/4 of a unit; all stay within \<open>d\<close>.\<close>

theorem scale_brackets:
  assumes "0 < sint (s :: i32)" "0 < sint (d :: i32)" "(v :: u32) \<le> s"
  shows "unat (scaled_floor v (make_scale s d)) * unat s \<le> unat v * unat d \<and>
    unat v * unat d \<le> unat (scaled_ceil v (make_scale s d)) * unat s \<and>
    4 * (unat (scaled_nearest v (make_scale s d)) * unat s) \<le> 4 * (unat v * unat d) + 3 * unat s \<and>
    4 * (unat v * unat d) \<le> 4 * (unat (scaled_nearest v (make_scale s d)) * unat s) + 3 * unat s \<and>
    unat (scaled_floor v (make_scale s d)) \<le> unat d \<and> unat (scaled_ceil v (make_scale s d)) \<le> unat d \<and>
    unat (scaled_nearest v (make_scale s d)) \<le> unat d"
  using scaled_floor_bounds [OF assms] scaled_ceil_bounds [OF assms] scaled_nearest_bounds [OF assms] by blast

theorem scale_brackets_witness:
  "scaled_floor 500 (make_scale 1000 333) = 166 \<and> scaled_ceil 500 (make_scale 1000 333) = 167 \<and>
   unat (scaled_nearest 500 (make_scale 1000 333)) * 4000 \<le> 4 * (500 * 333) + 3000 \<and>
   166 * 1000 \<le> (500 * 333 :: nat)"
proof -
  have "scaled_floor 500 (make_scale 1000 333) = 166" "scaled_ceil 500 (make_scale 1000 333) = 167" by code_simp+
  moreover have h: "0 < sint (1000 :: i32)" "0 < sint (333 :: i32)" "(500 :: u32) \<le> 1000" by simp_all
  ultimately show ?thesis using scale_brackets [OF h] by simp
qed

text \<open>A mapped rectangle is inside the destination.\<close>

lemma clipped_inside:
  "case map_rect_clipped (snd (transform_initialize desc t0)) source True of
     (SACCADE_OK, Some r) \<Rightarrow> rect_contains (td_destination desc) r
   | (result, out) \<Rightarrow> out = None \<and> result \<in> {SACCADE_ERROR_INVALID_ARGUMENT, SACCADE_ERROR_NOT_FOUND}"
proof -
  let ?t = "snd (transform_initialize desc t0)"
  let ?from = "td_source desc" let ?to = "td_destination desc"
  let ?cl = "max (sint (rc_x source)) (sint (rc_x ?from)) - sint (rc_x ?from)"
  let ?ct = "max (sint (rc_y source)) (sint (rc_y ?from)) - sint (rc_y ?from)"
  let ?cr = "min (sint (rc_x source) + sint (rc_width source)) (sint (rc_x ?from) + sint (rc_width ?from)) - sint (rc_x ?from)"
  let ?cb = "min (sint (rc_y source) + sint (rc_height source)) (sint (rc_y ?from) + sint (rc_height ?from)) - sint (rc_y ?from)"
  show ?thesis
  proof (cases "ct_valid ?t \<and> rect_valid source \<and> ?cl < ?cr \<and> ?ct < ?cb")
    case False
    then show ?thesis
      using transform_initialize_ok(2,3) [of desc t0] by (auto simp: map_rect_clipped_def Let_def)
  next
    case True
    then have d: "ct_desc ?t = desc" using transform_initialize_ok [of desc t0] by blast
    let ?swaps = "td_rotation desc = Clockwise_90 \<or> td_rotation desc = Clockwise_270"
    let ?sx = "if ?swaps then rc_height ?from else rc_width ?from"
    let ?sy = "if ?swaps then rc_width ?from else rc_height ?from"
    have wf: "rect_valid ?from" "rect_valid ?to" "rotation_valid (td_rotation desc)"
      "ct_x_scale ?t = make_scale ?sx (rc_width ?to)" "ct_y_scale ?t = make_scale ?sy (rc_height ?to)"
      using transform_wf_initialize [of desc t0] True unfolding transform_wf_def Let_def d by blast+
    obtain l u r b where rot: "rotate_rect (td_rotation desc) (rc_width ?from) (rc_height ?from)
        (word_of_int ?cl) (word_of_int ?ct) (word_of_int ?cr) (word_of_int ?cb) = (l, u, r, b)"
      by (metis prod_cases4)
    have "0 \<le> ?cl" "?cl < ?cr" "?cr \<le> sint (rc_width ?from)" using True by linarith+
    note in_x = local_word [OF this]
    have "0 \<le> ?ct" "?ct < ?cb" "?cb \<le> sint (rc_height ?from)" using True by linarith+
    note in_y = local_word [OF this]
    note rin = rotate_rect_inside [OF wf(3) in_x in_y rot]
    have pos: "0 < sint ?sx" "0 < sint ?sy" "0 < sint (rc_width ?to)" "0 < sint (rc_height ?to)"
      using wf(1,2) by (simp_all add: rect_valid_bounds)
    note ax = axis_nonempty [OF pos(1,3), of l r] and ay = axis_nonempty [OF pos(2,4), of u b]
    have lt: "l < r" "r \<le> ?sx" "u < b" "b \<le> ?sy" using rin by simp_all
    let ?L = "uint (scaled_floor l (make_scale ?sx (rc_width ?to)))" let ?R = "uint (scaled_ceil r (make_scale ?sx (rc_width ?to)))"
    let ?U = "uint (scaled_floor u (make_scale ?sy (rc_height ?to)))" let ?B = "uint (scaled_ceil b (make_scale ?sy (rc_height ?to)))"
    let ?out = "\<lparr>rc_x = word_of_int (sint (rc_x ?to) + ?L), rc_y = word_of_int (sint (rc_y ?to) + ?U),
        rc_width = word_of_int (?R - ?L), rc_height = word_of_int (?B - ?U)\<rparr>"
    note x = ax(1,2) [OF lt(1,2)] and y = ay(1,2) [OF lt(3,4)]
    note place = placed_inside [OF wf(2) ax(3) [OF lt(1,2)] x ay(3) [OF lt(3,4)] y]
    have overlap: "\<not> (max (sint (rc_x source)) (sint (rc_x ?from)) \<ge>
          min (sint (rc_x source) + sint (rc_width source)) (sint (rc_x ?from) + sint (rc_width ?from)) \<or>
        max (sint (rc_y source)) (sint (rc_y ?from)) \<ge>
          min (sint (rc_y source) + sint (rc_height source)) (sint (rc_y ?from) + sint (rc_height ?from)))"
      using True by linarith
    have "map_rect_clipped ?t source True = (SACCADE_OK, Some ?out)"
      unfolding map_rect_clipped_def d wf(4,5) rot Let_def prod.case if_not_P [OF overlap] if_not_P [OF place(1)]
      by (simp only: True if_False simp_thms)
    then show ?thesis using place(2) by simp
  qed
qed

text \<open>C33. A clipped rectangle mapped through any initialized transform lies inside the
  destination rectangle. The state error of the code is unreachable: the only failures are an
  invalid argument (an uninitialized transform or an empty or overflowing source rectangle) and
  a source rectangle that does not meet the transform's source.\<close>

theorem map_rect_clipped_contained:
  "case map_rect_clipped (snd (transform_initialize desc t0)) source True of
     (SACCADE_OK, Some r) \<Rightarrow> rect_contains (td_destination desc) r
   | (result, out) \<Rightarrow> out = None \<and> result \<in> {SACCADE_ERROR_INVALID_ARGUMENT, SACCADE_ERROR_NOT_FOUND}"
  by (rule clipped_inside)

text \<open>A point mapped through any initialized transform lies in the closed destination
  rectangle; the only failure is an invalid argument, the state error is unreachable.\<close>

theorem map_point_inside:
  "case map_point (snd (transform_initialize desc t0)) p True of
     (SACCADE_OK, Some q) \<Rightarrow>
       sint (rc_x (td_destination desc)) \<le> sint (pt_x q) \<and>
       sint (pt_x q) \<le> sint (rc_x (td_destination desc)) + sint (rc_width (td_destination desc)) \<and>
       sint (rc_y (td_destination desc)) \<le> sint (pt_y q) \<and>
       sint (pt_y q) \<le> sint (rc_y (td_destination desc)) + sint (rc_height (td_destination desc))
   | (result, out) \<Rightarrow> out = None \<and> result = SACCADE_ERROR_INVALID_ARGUMENT"
proof -
  let ?t = "snd (transform_initialize desc t0)"
  let ?from = "td_source desc" let ?to = "td_destination desc"
  let ?lx = "sint (pt_x p) - sint (rc_x ?from)" let ?ly = "sint (pt_y p) - sint (rc_y ?from)"
  show ?thesis
  proof (cases "ct_valid ?t \<and> 0 \<le> ?lx \<and> 0 \<le> ?ly \<and> ?lx \<le> sint (rc_width ?from) \<and> ?ly \<le> sint (rc_height ?from)")
    case False
    then show ?thesis
      using transform_initialize_ok(2,3) [of desc t0] by (auto simp: map_point_def Let_def)
  next
    case True
    then have d: "ct_desc ?t = desc" using transform_initialize_ok [of desc t0] by blast
    let ?swaps = "td_rotation desc = Clockwise_90 \<or> td_rotation desc = Clockwise_270"
    let ?sx = "if ?swaps then rc_height ?from else rc_width ?from"
    let ?sy = "if ?swaps then rc_width ?from else rc_height ?from"
    have wf: "rect_valid ?from" "rect_valid ?to" "rotation_valid (td_rotation desc)"
      "ct_x_scale ?t = make_scale ?sx (rc_width ?to)" "ct_y_scale ?t = make_scale ?sy (rc_height ?to)"
      using transform_wf_initialize [of desc t0] True unfolding transform_wf_def Let_def d by blast+
    obtain x y where rot: "rotate_point (td_rotation desc) (rc_width ?from) (rc_height ?from)
        (word_of_int ?lx) (word_of_int ?ly) = (x, y)" by fastforce
    have pos: "0 < sint ?sx" "0 < sint ?sy" "0 < sint (rc_width ?to)" "0 < sint (rc_height ?to)"
      and w: "0 < sint (rc_width ?from)" "0 < sint (rc_height ?from)"
      using wf(1,2) by (simp_all add: rect_valid_bounds)
    have "word_of_int ?lx \<le> rc_width ?from" "word_of_int ?ly \<le> rc_height ?from"
      using True w by (auto intro: local_word_le simp del: of_int_diff)
    note rin = rotate_point_inside [OF wf(3) this rot]
    let ?X = "uint (scaled_nearest x (make_scale ?sx (rc_width ?to)))"
    let ?Y = "uint (scaled_nearest y (make_scale ?sy (rc_height ?to)))"
    have X: "0 \<le> ?X" "?X \<le> sint (rc_width ?to)" "0 \<le> ?Y" "?Y \<le> sint (rc_height ?to)"
      using axis_point [OF pos(1,3)] axis_point [OF pos(2,4)] rin by (auto split: if_splits)
    have b: "sint (rc_x ?to) + sint (rc_width ?to) \<le> int32_max" "sint (rc_y ?to) + sint (rc_height ?to) \<le> int32_max"
      using wf(2) by (simp_all add: rect_valid_bounds)
    note lo = sint32_bounds(1) [of "rc_x ?to"] sint32_bounds(1) [of "rc_y ?to"]
    have place: "\<not> (sint (rc_x ?to) + ?X < int32_min \<or> sint (rc_x ?to) + ?X > int32_max \<or>
        sint (rc_y ?to) + ?Y < int32_min \<or> sint (rc_y ?to) + ?Y > int32_max)"
      using X b lo by linarith
    have within: "\<not> (?lx < 0 \<or> ?ly < 0 \<or> ?lx > sint (rc_width ?from) \<or> ?ly > sint (rc_height ?from))"
      using True by linarith
    have "map_point ?t p True = (SACCADE_OK, Some \<lparr>pt_x = word_of_int (sint (rc_x ?to) + ?X),
        pt_y = word_of_int (sint (rc_y ?to) + ?Y)\<rparr>)"
      unfolding map_point_def d wf(4,5) rot Let_def prod.case if_not_P [OF within] if_not_P [OF place]
      by (simp only: True if_False simp_thms)
    moreover have "sint (word_of_int (sint (rc_x ?to) + ?X) :: i32) = sint (rc_x ?to) + ?X"
      "sint (word_of_int (sint (rc_y ?to) + ?Y) :: i32) = sint (rc_y ?to) + ?Y"
      using place by (intro sint_word_of_int32; linarith)+
    ultimately show ?thesis using X by simp
  qed
qed

text \<open>Inverting a transform twice gives back exactly the same transform, and both
  inversions succeed: every initialized transform, whatever its turn and scale, has an inverse.\<close>

theorem inverse_roundtrip:
  "let (result, t) = transform_initialize desc t0; (result1, t1) = transform_inverse t True u;
       (result2, t2) = transform_inverse t1 True w
   in if result = SACCADE_OK then result1 = SACCADE_OK \<and> result2 = SACCADE_OK \<and> t2 = t
      else \<not> ct_valid t \<and> t1 = u"
proof -
  obtain result t where i: "transform_initialize desc t0 = (result, t)" by fastforce
  show ?thesis
  proof (cases "result = SACCADE_OK")
    case False
    then show ?thesis using i transform_initialize_ok(2) [of desc t0]
      by (simp add: transform_inverse_def split: prod.split)
  next
    case True
    have v: "ct_valid t" and wf: "transform_wf t"
      using i True transform_initialize_ok(2) [of desc t0] transform_wf_initialize [of desc t0] by auto
    let ?d = "ct_desc t"
    let ?d1 = "default_desc\<lparr>td_source := td_destination ?d, td_destination := td_source ?d,
          td_epoch := td_epoch ?d, td_source_space := td_destination_space ?d,
          td_destination_space := td_source_space ?d, td_rotation := turn_of_code ((4 - turn_code (td_rotation ?d)) AND 3)\<rparr>"
    have rot: "rotation_valid (td_rotation ?d)" and z: "td_flags ?d = 0" "td_reserved ?d = 0"
      using v wf by (simp_all add: transform_wf_def Let_def)
    obtain r1 t1 where one: "transform_initialize ?d1 u = (r1, t1)" by fastforce
    have "fst (transform_initialize ?d1 u) = SACCADE_OK"
      using v wf turn_inverse [OF rot] by (simp add: transform_initialize_def transform_wf_def Let_def default_desc_def)
    then have ok: "r1 = SACCADE_OK" "ct_valid t1" "ct_desc t1 = ?d1"
      using one transform_initialize_ok(2,3) [of ?d1 u] by auto
    have "transform_inverse t True u = (SACCADE_OK, t1)"
      using v one ok(1) by (simp add: transform_inverse_def Let_def)
    moreover have "transform_inverse t1 True w = transform_initialize ?d w"
    proof -
      have "default_desc\<lparr>td_source := td_destination ?d1, td_destination := td_source ?d1,
          td_epoch := td_epoch ?d1, td_source_space := td_destination_space ?d1,
          td_destination_space := td_source_space ?d1, td_rotation := turn_of_code ((4 - turn_code (td_rotation ?d1)) AND 3)\<rparr> = ?d"
        using turn_inverse [OF rot] z by (simp add: default_desc_def)
      then show ?thesis unfolding transform_inverse_def ok(3) Let_def using ok(2) by (simp only: simp_thms if_False)
    qed
    ultimately show ?thesis
      using i True transform_initialize_valid [OF v wf] by simp
  qed
qed

end
