(* ===== verification/Scene_Grid.thy ===== *)
theory Scene_Grid
  imports Scene_Packet Coordinate_Transform
begin

text \<open>
  The grid producer of \<open>src/scene/grid.cpp\<close>: it cuts a rectangle, less its margins, into rows
  and columns and writes one target per cell.
\<close>

record grid_scene_config =
  gc_scope :: rect_q8
  gc_scene_epoch :: u64
  gc_frame_id :: u64
  gc_model_epoch :: u64
  gc_session_epoch :: u64
  gc_transform_epoch :: u64
  gc_topology_epoch :: u64
  gc_source_id :: u64
  gc_display_id :: u64
  gc_rows :: u16
  gc_columns :: u16
  gc_reserved0 :: u16
  gc_reserved1 :: u16
  gc_margin_x_q8 :: i32
  gc_margin_y_q8 :: i32

definition grid_target_prefix :: u64 where "grid_target_prefix = 0x4752494400000000"

definition grid_capabilities :: u32 where
  "grid_capabilities = CAPABILITY_POINTER_MOVE OR CAPABILITY_BUTTON OR CAPABILITY_SCROLL OR
     CAPABILITY_DRAG_SOURCE OR CAPABILITY_DROP_TARGET OR CAPABILITY_TEXT OR CAPABILITY_TEXT_SELECT"

definition config_valid :: "grid_scene_config \<Rightarrow> bool" where
  "config_valid c \<longleftrightarrow>
     (let count = (ucast (gc_rows c) :: u32) * ucast (gc_columns c);
          horizontal_margins = sint (gc_margin_x_q8 c) * 2;
          vertical_margins = sint (gc_margin_y_q8 c) * 2
      in rect_valid (gc_scope c) \<and> gc_scene_epoch c \<noteq> 0 \<and> gc_frame_id c \<noteq> 0 \<and> gc_model_epoch c \<noteq> 0 \<and>
         gc_session_epoch c \<noteq> 0 \<and> gc_transform_epoch c \<noteq> 0 \<and> gc_topology_epoch c \<noteq> 0 \<and>
         gc_source_id c \<noteq> 0 \<and> gc_rows c \<noteq> 0 \<and> gc_columns c \<noteq> 0 \<and> count \<le> TARGET_PACKET_MAX_TARGETS \<and>
         gc_reserved0 c = 0 \<and> gc_reserved1 c = 0 \<and> sint (gc_margin_x_q8 c) \<ge> 0 \<and>
         sint (gc_margin_y_q8 c) \<ge> 0 \<and> horizontal_margins < sint (rc_width (gc_scope c)) \<and>
         vertical_margins < sint (rc_height (gc_scope c)))"

definition grid_header :: "grid_scene_config \<Rightarrow> u32 \<Rightarrow> nat \<Rightarrow> packet_header" where
  "grid_header c target_count required = zero_header\<lparr>
     ph_struct_size := word_of_nat header_size, ph_packet_version := TARGET_PACKET_VERSION,
     ph_target_count := target_count, ph_target_stride := word_of_nat target_size,
     ph_coordinate_space := SPACE_DESKTOP_Q8, ph_scene_epoch := gc_scene_epoch c,
     ph_frame_id := gc_frame_id c, ph_model_epoch := gc_model_epoch c, ph_session_epoch := gc_session_epoch c,
     ph_transform_epoch := gc_transform_epoch c, ph_topology_epoch := gc_topology_epoch c,
     ph_source_id := gc_source_id c, ph_targets_offset := word_of_nat header_size,
     ph_total_size := word_of_nat required\<rparr>"

definition grid_left :: "grid_scene_config \<Rightarrow> int" where
  "grid_left c = sint (rc_x (gc_scope c)) + sint (gc_margin_x_q8 c)"
definition grid_top :: "grid_scene_config \<Rightarrow> int" where
  "grid_top c = sint (rc_y (gc_scope c)) + sint (gc_margin_y_q8 c)"
definition grid_width :: "grid_scene_config \<Rightarrow> int" where
  "grid_width c = sint (rc_width (gc_scope c)) - sint (gc_margin_x_q8 c) * 2"
definition grid_height :: "grid_scene_config \<Rightarrow> int" where
  "grid_height c = sint (rc_height (gc_scope c)) - sint (gc_margin_y_q8 c) * 2"

text \<open>The edge lines of the grid, and the body of the inner loop.\<close>

definition column_edge :: "grid_scene_config \<Rightarrow> nat \<Rightarrow> int" where
  "column_edge c column = grid_left c + grid_width c * int column div uint (gc_columns c)"
definition row_edge :: "grid_scene_config \<Rightarrow> nat \<Rightarrow> int" where
  "row_edge c row = grid_top c + grid_height c * int row div uint (gc_rows c)"

definition grid_target :: "grid_scene_config \<Rightarrow> nat \<Rightarrow> nat \<Rightarrow> u32 \<Rightarrow> target_record" where
  "grid_target c row column target_index =
     (let y0 = row_edge c row; y1 = row_edge c (row + 1);
          x0 = column_edge c column; x1 = column_edge c (column + 1)
      in zero_target\<lparr>
        tr_target_id := grid_target_prefix OR ucast (target_index + 1), tr_display_id := gc_display_id c,
        tr_x_q8 := word_of_int x0, tr_y_q8 := word_of_int y0,
        tr_width_q8 := word_of_int (x1 - x0), tr_height_q8 := word_of_int (y1 - y0),
        tr_safe_x_q8 := word_of_int (x0 + (x1 - x0) div 2), tr_safe_y_q8 := word_of_int (y0 + (y1 - y0) div 2),
        tr_confidence_q16 := 0xFFFF, tr_role := ROLE_UNKNOWN, tr_source_bits := SOURCE_GRID,
        tr_capability_bits := grid_capabilities, tr_flags := TARGET_ACTIONABLE OR TARGET_APPROXIMATE,
        tr_order := target_index\<rparr>)"

text \<open>The two loops; the running \<open>target_index\<close> is \<open>row * columns + column\<close>.\<close>

definition grid_targets :: "grid_scene_config \<Rightarrow> target_record list" where
  "grid_targets c = concat (map (\<lambda>row. map (\<lambda>column.
       grid_target c row column (word_of_nat (row * unat (gc_columns c) + column)))
     [0..<unat (gc_columns c)]) [0..<unat (gc_rows c)])"

text \<open>
  \<open>build_grid_scene\<close>: the result, the value stored to \<open>byte_size\<close>, and the bytes written to the
  output. The output span is its capacity, \<open>None\<close> for a null pointer.
\<close>

definition build_grid_scene ::
  "grid_scene_config \<Rightarrow> nat option \<Rightarrow> bool \<Rightarrow> saccade_result \<times> nat option \<times> u8 list option" where
  "build_grid_scene c output byte_size =
     (if \<not> byte_size \<or> \<not> config_valid c then (SACCADE_ERROR_INVALID_ARGUMENT, None, None)
      else let target_count = (ucast (gc_rows c) :: u32) * ucast (gc_columns c);
               required = header_size + unat target_count * target_size
      in case output of
           None \<Rightarrow> (SACCADE_ERROR_CAPACITY, Some required, None)
         | Some capacity \<Rightarrow>
             if capacity < required then (SACCADE_ERROR_CAPACITY, Some required, None)
             else (SACCADE_OK, Some required,
                   Some (put_packet (grid_header c target_count required) (grid_targets c) [])))"

subsection \<open>The cells\<close>

lemma grid_target_nth:
  assumes "row < unat (gc_rows c)" "column < unat (gc_columns c)"
  shows "grid_targets c ! (row * unat (gc_columns c) + column) =
    grid_target c row column (word_of_nat (row * unat (gc_columns c) + column))"
proof -
  have nth: "concat (map (\<lambda>i. map (f i) [0..<n]) [0..<m]) ! (i * n + j) = f i j"
    if "i < m" "j < n" for f :: "nat \<Rightarrow> nat \<Rightarrow> 'z" and i j m n
    using that
  proof (induction m)
    case 0
    then show ?case by simp
  next
    case (Suc m)
    have len: "length (concat (map (\<lambda>i. map (f i) [0..<n]) [0..<m])) = m * n"
      by (simp add: length_concat comp_def sum_list_triv)
    show ?case
    proof (cases "i < m")
      case True
      then have "i * n + j < m * n"
        using Suc.prems by (metis add.commute less_le_trans mult_Suc mult_le_mono1 nat_add_left_cancel_less Suc_leI)
      then show ?thesis using Suc.IH True Suc.prems len by (simp add: nth_append)
    next
      case False
      then have "i = m" using Suc.prems by simp
      then show ?thesis using Suc.prems len by (simp add: nth_append)
    qed
  qed
  show ?thesis unfolding grid_targets_def by (rule nth [OF assms])
qed

lemma length_grid_targets: "length (grid_targets c) = unat (gc_rows c) * unat (gc_columns c)"
  by (simp add: grid_targets_def length_concat comp_def sum_list_triv)

lemma edge_step:
  fixes w n i :: int
  assumes "0 < n" "0 \<le> i" "0 \<le> w"
  shows "w * i div n \<le> w * (i + 1) div n" "n \<le> w \<Longrightarrow> w * i div n < w * (i + 1) div n"
proof -
  show "w * i div n \<le> w * (i + 1) div n" using assms by (intro zdiv_mono1 mult_left_mono) simp_all
  assume "n \<le> w"
  then have "w * i + n \<le> w * (i + 1)" by (simp add: algebra_simps)
  then have "(w * i + n) div n \<le> w * (i + 1) div n" using assms(1) by (rule zdiv_mono1)
  moreover have "(w * i + n) div n = w * i div n + 1" using assms(1) by (intro div_add_self2) simp
  ultimately show "w * i div n < w * (i + 1) div n" by linarith
qed

lemma edge_bounds:
  fixes w n i :: int
  assumes "0 < n" "0 \<le> i" "i \<le> n" "0 \<le> w"
  shows "0 \<le> w * i div n" "w * i div n \<le> w"
proof -
  show "0 \<le> w * i div n" using assms by (simp add: pos_imp_zdiv_nonneg_iff)
  have "w * i div n \<le> w * n div n" using assms by (intro zdiv_mono1 mult_left_mono) simp_all
  then show "w * i div n \<le> w" using assms(1) by simp
qed

text \<open>What a valid configuration fixes: the inner rectangle lies in 32 bits.\<close>

lemma config_valid_bounds:
  assumes "config_valid c"
  shows "0 < grid_width c" "0 < grid_height c" "int32_min \<le> grid_left c" "int32_min \<le> grid_top c"
    "grid_left c + grid_width c \<le> int32_max" "grid_top c + grid_height c \<le> int32_max"
    "0 < uint (gc_columns c)" "0 < uint (gc_rows c)"
    "grid_width c \<le> int32_max" "grid_height c \<le> int32_max"
proof -
  have v: "rect_valid (gc_scope c)" "0 \<le> sint (gc_margin_x_q8 c)" "0 \<le> sint (gc_margin_y_q8 c)"
    "sint (gc_margin_x_q8 c) * 2 < sint (rc_width (gc_scope c))" "sint (gc_margin_y_q8 c) * 2 < sint (rc_height (gc_scope c))"
    and n: "gc_rows c \<noteq> 0" "gc_columns c \<noteq> 0"
    using assms by (simp_all add: config_valid_def Let_def)
  note b = v(1) [unfolded rect_valid_bounds]
  note lo = sint32_bounds(1) [of "rc_x (gc_scope c)"] sint32_bounds(1) [of "rc_y (gc_scope c)"]
    sint32_bounds(2) [of "rc_width (gc_scope c)"] sint32_bounds(2) [of "rc_height (gc_scope c)"]
  show "0 < grid_width c" "0 < grid_height c" "int32_min \<le> grid_left c" "int32_min \<le> grid_top c"
    "grid_left c + grid_width c \<le> int32_max" "grid_top c + grid_height c \<le> int32_max"
    "grid_width c \<le> int32_max" "grid_height c \<le> int32_max"
    unfolding grid_left_def grid_top_def grid_width_def grid_height_def using v b lo by linarith+
  have "uint (w :: u16) \<noteq> 0 \<longleftrightarrow> w \<noteq> 0" for w by (simp add: uint_0_iff)
  then show "0 < uint (gc_columns c)" "0 < uint (gc_rows c)"
    using n unsigned_greater_eq [of "gc_columns c"] unsigned_greater_eq [of "gc_rows c"]
    by (simp_all add: order.strict_iff_order del: unsigned_greater_eq)
qed

lemma column_edges:
  assumes "config_valid c" "column < unat (gc_columns c)"
  shows "grid_left c \<le> column_edge c column" "column_edge c (column + 1) \<le> grid_left c + grid_width c"
    "column_edge c column \<le> column_edge c (column + 1)"
    "uint (gc_columns c) \<le> grid_width c \<Longrightarrow> column_edge c column < column_edge c (column + 1)"
proof -
  note b = config_valid_bounds [OF assms(1)]
  have "int (Suc column) \<le> int (unat (gc_columns c))" using assms(2) by (simp only: of_nat_le_iff Suc_le_eq)
  then have i: "0 \<le> int column" "int column + 1 \<le> uint (gc_columns c)" by simp_all
  show "grid_left c \<le> column_edge c column" "column_edge c (column + 1) \<le> grid_left c + grid_width c"
    "column_edge c column \<le> column_edge c (column + 1)"
    "uint (gc_columns c) \<le> grid_width c \<Longrightarrow> column_edge c column < column_edge c (column + 1)"
    using edge_bounds(1) [of "uint (gc_columns c)" "int column" "grid_width c"]
      edge_bounds(2) [of "uint (gc_columns c)" "int column + 1" "grid_width c"]
      edge_step [of "uint (gc_columns c)" "int column" "grid_width c"] b i
    by (simp_all add: column_edge_def add.commute)
qed

lemma row_edges:
  assumes "config_valid c" "row < unat (gc_rows c)"
  shows "grid_top c \<le> row_edge c row" "row_edge c (row + 1) \<le> grid_top c + grid_height c"
    "row_edge c row \<le> row_edge c (row + 1)"
    "uint (gc_rows c) \<le> grid_height c \<Longrightarrow> row_edge c row < row_edge c (row + 1)"
proof -
  note b = config_valid_bounds [OF assms(1)]
  have "int (Suc row) \<le> int (unat (gc_rows c))" using assms(2) by (simp only: of_nat_le_iff Suc_le_eq)
  then have i: "0 \<le> int row" "int row + 1 \<le> uint (gc_rows c)" by simp_all
  show "grid_top c \<le> row_edge c row" "row_edge c (row + 1) \<le> grid_top c + grid_height c"
    "row_edge c row \<le> row_edge c (row + 1)"
    "uint (gc_rows c) \<le> grid_height c \<Longrightarrow> row_edge c row < row_edge c (row + 1)"
    using edge_bounds(1) [of "uint (gc_rows c)" "int row" "grid_height c"]
      edge_bounds(2) [of "uint (gc_rows c)" "int row + 1" "grid_height c"]
      edge_step [of "uint (gc_rows c)" "int row" "grid_height c"] b i
    by (simp_all add: row_edge_def add.commute)
qed

text \<open>A cell, read back as integers.\<close>

lemma grid_target_words:
  "tr_x_q8 (grid_target c row column i) = word_of_int (column_edge c column)"
  "tr_y_q8 (grid_target c row column i) = word_of_int (row_edge c row)"
  "tr_width_q8 (grid_target c row column i) = word_of_int (column_edge c (column + 1) - column_edge c column)"
  "tr_height_q8 (grid_target c row column i) = word_of_int (row_edge c (row + 1) - row_edge c row)"
  "tr_safe_x_q8 (grid_target c row column i) =
     word_of_int (column_edge c column + (column_edge c (column + 1) - column_edge c column) div 2)"
  "tr_safe_y_q8 (grid_target c row column i) =
     word_of_int (row_edge c row + (row_edge c (row + 1) - row_edge c row) div 2)"
  by (simp_all add: grid_target_def Let_def zero_target_def del: of_int_diff of_int_add)

lemma half_bounds: "0 \<le> (d :: int) \<Longrightarrow> 0 \<le> d div 2 \<and> d div 2 \<le> d"
  by simp

lemma grid_target_fields:
  assumes "config_valid c" "row < unat (gc_rows c)" "column < unat (gc_columns c)"
  shows "sint (tr_x_q8 (grid_target c row column i)) = column_edge c column"
    "sint (tr_y_q8 (grid_target c row column i)) = row_edge c row"
    "sint (tr_width_q8 (grid_target c row column i)) = column_edge c (column + 1) - column_edge c column"
    "sint (tr_height_q8 (grid_target c row column i)) = row_edge c (row + 1) - row_edge c row"
    "sint (tr_safe_x_q8 (grid_target c row column i)) =
       column_edge c column + (column_edge c (column + 1) - column_edge c column) div 2"
    "sint (tr_safe_y_q8 (grid_target c row column i)) =
       row_edge c row + (row_edge c (row + 1) - row_edge c row) div 2"
proof -
  note b = config_valid_bounds [OF assms(1)] and x = column_edges(1-3) [OF assms(1,3)] and y = row_edges(1-3) [OF assms(1,2)]
  have hx: "0 \<le> (column_edge c (column + 1) - column_edge c column) div 2 \<and>
      (column_edge c (column + 1) - column_edge c column) div 2 \<le> column_edge c (column + 1) - column_edge c column"
    using x by (intro half_bounds) simp
  have hy: "0 \<le> (row_edge c (row + 1) - row_edge c row) div 2 \<and>
      (row_edge c (row + 1) - row_edge c row) div 2 \<le> row_edge c (row + 1) - row_edge c row"
    using y by (intro half_bounds) simp
  show "sint (tr_x_q8 (grid_target c row column i)) = column_edge c column"
    "sint (tr_y_q8 (grid_target c row column i)) = row_edge c row"
    "sint (tr_width_q8 (grid_target c row column i)) = column_edge c (column + 1) - column_edge c column"
    "sint (tr_height_q8 (grid_target c row column i)) = row_edge c (row + 1) - row_edge c row"
    "sint (tr_safe_x_q8 (grid_target c row column i)) =
       column_edge c column + (column_edge c (column + 1) - column_edge c column) div 2"
    "sint (tr_safe_y_q8 (grid_target c row column i)) =
       row_edge c row + (row_edge c (row + 1) - row_edge c row) div 2"
    unfolding grid_target_words using b x y hx hy by (intro sint_word_of_int32; linarith)+
qed

text \<open>The cell is a valid target exactly when it has an area.\<close>

lemma grid_target_id:
  "grid_target_prefix OR w \<noteq> 0"
  by (simp add: grid_target_prefix_def or_eq_0_iff)

lemma grid_target_valid:
  assumes "config_valid c" "row < unat (gc_rows c)" "column < unat (gc_columns c)"
  shows "valid_target (grid_target c row column i) \<longleftrightarrow>
    column_edge c column < column_edge c (column + 1) \<and> row_edge c row < row_edge c (row + 1)"
proof -
  note f = grid_target_fields [OF assms]
  have g: "tr_confidence_q16 (grid_target c row column i) = 0xFFFF" "tr_role (grid_target c row column i) = 0"
    "tr_source_bits (grid_target c row column i) = 8" "tr_capability_bits (grid_target c row column i) = 0x13F"
    "tr_flags (grid_target c row column i) = 0x11" "tr_target_id (grid_target c row column i) \<noteq> 0"
    "tr_parent_id (grid_target c row column i) = 0" "tr_text (grid_target c row column i) = no_text"
    by (simp_all add: grid_target_def Let_def zero_target_def grid_capabilities_def grid_target_id)
  have d: "(d :: int) div 2 < d" "0 \<le> d div 2" if "0 < d" for d using that by simp_all
  show ?thesis
    using g(6) d [of "column_edge c (column + 1) - column_edge c column"] d [of "row_edge c (row + 1) - row_edge c row"]
    unfolding valid_target_def f g Let_def
    by (auto simp: source_mask_def target_capability_mask_def target_flag_mask_def no_text_def)
qed

lemma column_edge_ends:
  assumes "config_valid c"
  shows "column_edge c 0 = grid_left c" "column_edge c (unat (gc_columns c)) = grid_left c + grid_width c"
    "row_edge c 0 = grid_top c" "row_edge c (unat (gc_rows c)) = grid_top c + grid_height c"
  using config_valid_bounds [OF assms] by (simp_all add: column_edge_def row_edge_def)

lemma first_cell_empty:
  assumes "config_valid c"
  shows "grid_width c < uint (gc_columns c) \<Longrightarrow> column_edge c 1 = column_edge c 0"
    "grid_height c < uint (gc_rows c) \<Longrightarrow> row_edge c 1 = row_edge c 0"
  using config_valid_bounds [OF assms] by (simp_all add: column_edge_def row_edge_def)

lemma grid_count:
  assumes "config_valid c"
  shows "unat ((ucast (gc_rows c) :: u32) * ucast (gc_columns c)) = length (grid_targets c)"
    "length (grid_targets c) \<le> 10000"
proof -
  have "unat (gc_rows c) \<le> 65535" "unat (gc_columns c) \<le> 65535"
    using unat16_lt [of "gc_rows c"] unat16_lt [of "gc_columns c"] by linarith+
  then have "unat (gc_rows c) * unat (gc_columns c) \<le> 65535 * 65535" by (rule mult_le_mono)
  then show e: "unat ((ucast (gc_rows c) :: u32) * ucast (gc_columns c)) = length (grid_targets c)"
    by (simp add: unat_word_ariths length_grid_targets)
  have "(ucast (gc_rows c) :: u32) * ucast (gc_columns c) \<le> 10000"
    using assms by (simp add: config_valid_def Let_def)
  then show "length (grid_targets c) \<le> 10000" using e by (simp add: word_le_nat_alt)
qed

lemma grid_header_accepted:
  assumes "config_valid c"
  defines "n \<equiv> header_size + length (grid_targets c) * target_size"
  defines "h \<equiv> grid_header c ((ucast (gc_rows c) :: u32) * ucast (gc_columns c)) n"
  shows "unat (ph_total_size h) = n" "unat (ph_target_count h) = length (grid_targets c)"
    "header_accepted h (unat (ph_total_size h))"
proof -
  have "n < 2 ^ 64" using grid_count(2) [OF assms(1)] by (simp add: n_def header_size_def target_size_def)
  then show "unat (ph_total_size h) = n" by (simp add: h_def grid_header_def zero_header_def unat_of_nat)
  show "unat (ph_target_count h) = length (grid_targets c)"
    using grid_count(1) [OF assms(1)] by (simp add: h_def grid_header_def zero_header_def)
  show "header_accepted h (unat (ph_total_size h))"
    using assms(1) by (simp add: h_def grid_header_def zero_header_def header_accepted_def config_valid_def
        Let_def valid_coordinate_space_def header_size_def target_size_def not_less)
qed

lemma grid_targets_valid:
  assumes "config_valid c"
  shows "list_all (\<lambda>t. valid_target t \<and> tx_size (tr_text t) = 0) (grid_targets c) \<longleftrightarrow>
    uint (gc_columns c) \<le> grid_width c \<and> uint (gc_rows c) \<le> grid_height c"
proof -
  have no_lane: "tx_size (tr_text (grid_target c row column i)) = 0" for row column i
    by (simp add: grid_target_def Let_def zero_target_def no_text_def)
  have pos: "0 < unat (gc_columns c)" "0 < unat (gc_rows c)"
    using config_valid_bounds(7,8) [OF assms] by (simp_all add: unat_gt_0 uint_0_iff [symmetric])
  show ?thesis
  proof
    assume "list_all (\<lambda>t. valid_target t \<and> tx_size (tr_text t) = 0) (grid_targets c)"
    then have "valid_target (grid_targets c ! (0 * unat (gc_columns c) + 0))"
      using pos by (simp add: list_all_length length_grid_targets)
    then have "valid_target (grid_target c 0 0 0)"
      unfolding grid_target_nth [OF pos(2,1)] by simp
    then have "column_edge c 0 < column_edge c 1 \<and> row_edge c 0 < row_edge c 1"
      using grid_target_valid [OF assms pos(2,1)] by simp
    then show "uint (gc_columns c) \<le> grid_width c \<and> uint (gc_rows c) \<le> grid_height c"
      using first_cell_empty [OF assms] by force
  next
    assume "uint (gc_columns c) \<le> grid_width c \<and> uint (gc_rows c) \<le> grid_height c"
    then have "valid_target (grid_target c row column i)"
      if "row < unat (gc_rows c)" "column < unat (gc_columns c)" for row column i
      using grid_target_valid [OF assms that] column_edges(4) [OF assms that(2)] row_edges(4) [OF assms that(1)] by simp
    then show "list_all (\<lambda>t. valid_target t \<and> tx_size (tr_text t) = 0) (grid_targets c)"
      using no_lane by (auto simp: grid_targets_def list_all_iff)
  qed
qed

subsection \<open>Property\<close>

text \<open>C40. Whenever the grid builder succeeds, the rectangles it wrote are, row by row, the cells
  between consecutive edge lines that run from the left to the right and from the top to the
  bottom of the inner rectangle: the cells tile it without gap or overlap. The packet passes
  validation if and only if the inner rectangle has at least one unit per column and per row;
  below that the builder still reports success and writes a packet every reader rejects. On
  every other result it writes nothing.\<close>

theorem grid_scene_tiles:
  "case build_grid_scene c output byte_size of
     (SACCADE_OK, required, Some bytes) \<Rightarrow>
       bytes = put_packet (grid_header c (ucast (gc_rows c) * ucast (gc_columns c)) (length bytes)) (grid_targets c) [] \<and>
       required = Some (length bytes) \<and>
       map (\<lambda>t. (sint (tr_x_q8 t), sint (tr_y_q8 t), sint (tr_width_q8 t), sint (tr_height_q8 t))) (grid_targets c) =
         concat (map (\<lambda>row. map (\<lambda>column. (column_edge c column, row_edge c row,
             column_edge c (column + 1) - column_edge c column, row_edge c (row + 1) - row_edge c row))
           [0..<unat (gc_columns c)]) [0..<unat (gc_rows c)]) \<and>
       column_edge c 0 = grid_left c \<and> column_edge c (unat (gc_columns c)) = grid_left c + grid_width c \<and>
       row_edge c 0 = grid_top c \<and> row_edge c (unat (gc_rows c)) = grid_top c + grid_height c \<and>
       ((fst (validate_packet (Span bytes) True True) = SACCADE_OK) \<longleftrightarrow>
          uint (gc_columns c) \<le> grid_width c \<and> uint (gc_rows c) \<le> grid_height c)
   | (result, required, bytes) \<Rightarrow> bytes = None \<and> result \<noteq> SACCADE_OK"
proof (cases "fst (build_grid_scene c output byte_size) = SACCADE_OK")
  case False
  then show ?thesis by (auto simp: build_grid_scene_def Let_def split: option.splits if_splits)
next
  case True
  let ?n = "(ucast (gc_rows c) :: u32) * ucast (gc_columns c)"
  let ?required = "header_size + length (grid_targets c) * target_size"
  have cv: "config_valid c" using True by (auto simp: build_grid_scene_def split: if_splits)
  note cnt = grid_count(1) [OF cv]
  let ?bytes = "put_packet (grid_header c ?n ?required) (grid_targets c) []"
  have b: "build_grid_scene c output byte_size = (SACCADE_OK, Some ?required, Some ?bytes)"
    using True by (auto simp: build_grid_scene_def cnt Let_def split: option.splits if_splits)
  note h = grid_header_accepted [OF cv]
  have v: "validate_packet (Span ?bytes) True True = (SACCADE_OK, Some v) \<longleftrightarrow>
      text_lane [] 0 (grid_targets c) \<and> v = packet_of (grid_header c ?n ?required) (grid_targets c) []" for v
    using h by (intro validate_produced) simp_all
  have cells: "map (\<lambda>t. (sint (tr_x_q8 t), sint (tr_y_q8 t), sint (tr_width_q8 t), sint (tr_height_q8 t))) (grid_targets c) =
         concat (map (\<lambda>row. map (\<lambda>column. (column_edge c column, row_edge c row,
             column_edge c (column + 1) - column_edge c column, row_edge c (row + 1) - row_edge c row))
           [0..<unat (gc_columns c)]) [0..<unat (gc_rows c)])"
    unfolding grid_targets_def map_concat map_map comp_def
    using grid_target_fields [OF cv] by (intro arg_cong [where f = concat] map_cong refl) simp
  show ?thesis
    unfolding b using cells column_edge_ends [OF cv] v grid_targets_valid [OF cv]
    by (simp add: text_lane_empty validate_packet_ok)
qed

end
