(* ===== verification/Scene_Windows.thy ===== *)
theory Scene_Windows
  imports Scene_Packet
begin

text \<open>
  The window producer of \<open>src/scene/windows.cpp\<close>: one activatable target per window, its title
  in the text lane while the lane has room.
\<close>

record rect_i32 =
  ri_x :: i32
  ri_y :: i32
  ri_width :: i32
  ri_height :: i32

record window_info =
  wi_struct_size :: u32
  wi_api_version :: u32
  wi_stable_id :: u64
  wi_process_id :: u64
  wi_desktop_bounds :: rect_i32
  wi_flags :: u32
  wi_reserved0 :: u32
  wi_title :: span_u8

record window_scene_config =
  wc_scene_epoch :: u64
  wc_frame_id :: u64
  wc_model_epoch :: u64
  wc_session_epoch :: u64
  wc_transform_epoch :: u64
  wc_topology_epoch :: u64
  wc_source_id :: u64

definition q8 :: "i32 \<Rightarrow> i32 option" where
  "q8 v = (let scaled = sint v * 256 in
     if scaled < int32_min \<or> scaled > int32_max then None else Some (word_of_int scaled))"

text \<open>The first loop: the titles that fit, and the packet flags.\<close>

fun measure_titles :: "window_info list \<Rightarrow> u32 \<Rightarrow> u32 \<Rightarrow> (u32 \<times> u32) option" where
  "measure_titles [] text_size packet_flags = Some (text_size, packet_flags)"
| "measure_titles (w # ws) text_size packet_flags =
     (let title = wi_title w in
      if span_size title > 0xFFFF \<or> \<not> span_valid_utf8 title then None
      else if span_size title \<le> unat (16384 - text_size)
      then measure_titles ws (text_size + word_of_nat (span_size title)) packet_flags
      else measure_titles ws text_size (packet_flags OR TARGET_PACKET_TEXT_TRUNCATED))"

definition window_header :: "window_scene_config \<Rightarrow> nat \<Rightarrow> u32 \<Rightarrow> nat \<Rightarrow> packet_header" where
  "window_header c n_windows packet_flags required = zero_header\<lparr>
     ph_struct_size := word_of_nat header_size, ph_packet_version := TARGET_PACKET_VERSION,
     ph_target_count := word_of_nat n_windows, ph_target_stride := word_of_nat target_size,
     ph_flags := packet_flags, ph_coordinate_space := SPACE_DESKTOP_Q8,
     ph_scene_epoch := wc_scene_epoch c, ph_frame_id := wc_frame_id c, ph_model_epoch := wc_model_epoch c,
     ph_session_epoch := wc_session_epoch c, ph_transform_epoch := wc_transform_epoch c,
     ph_topology_epoch := wc_topology_epoch c, ph_source_id := wc_source_id c,
     ph_targets_offset := word_of_nat header_size, ph_total_size := word_of_nat required\<rparr>"

text \<open>One target of the second loop, without its text.\<close>

definition window_target :: "nat \<Rightarrow> window_info \<Rightarrow> target_record option" where
  "window_target index w =
     (let b = wi_desktop_bounds w in
      if wi_stable_id w = 0 \<or> wi_process_id w = 0 \<or> sint (ri_width b) \<le> 0 \<or> sint (ri_height b) \<le> 0 then None
      else case q8 (ri_x b) of None \<Rightarrow> None | Some x \<Rightarrow>
        (case q8 (ri_y b) of None \<Rightarrow> None | Some y \<Rightarrow>
          (case q8 (ri_width b) of None \<Rightarrow> None | Some width \<Rightarrow>
            (case q8 (ri_height b) of None \<Rightarrow> None | Some height \<Rightarrow>
              Some (zero_target\<lparr>tr_x_q8 := x, tr_y_q8 := y, tr_width_q8 := width, tr_height_q8 := height,
                tr_target_id := wi_stable_id w, tr_window_id := wi_stable_id w,
                tr_safe_x_q8 := x + word_of_int (sint width div 2),
                tr_safe_y_q8 := y + word_of_int (sint height div 2),
                tr_confidence_q16 := 0xFFFF, tr_role := ROLE_WINDOW, tr_source_bits := SOURCE_ACCESSIBILITY,
                tr_capability_bits := CAPABILITY_WINDOW_ACTIVATE, tr_flags := TARGET_ACTIONABLE,
                tr_order := word_of_nat index\<rparr>)))))"

text \<open>The second loop: the target table and the bytes copied to the text lane.\<close>

fun write_windows :: "u32 \<Rightarrow> nat \<Rightarrow> u32 \<Rightarrow> window_info list \<Rightarrow> (target_record list \<times> u8 list) option" where
  "write_windows text_size index text_offset [] = Some ([], [])"
| "write_windows text_size index text_offset (w # ws) =
     (case window_target index w of
        None \<Rightarrow> None
      | Some t \<Rightarrow>
          let n = span_size (wi_title w) in
          if n \<noteq> 0 \<and> n \<le> unat (text_size - text_offset) then
            map_option (\<lambda>(ts, lane).
                (t\<lparr>tr_text := \<lparr>tx_offset = ucast text_offset, tx_size = word_of_nat n\<rparr>\<rparr> # ts,
                 span_bytes (wi_title w) @ lane))
              (write_windows text_size (index + 1) (text_offset + word_of_nat n) ws)
          else
            map_option (\<lambda>(ts, lane).
                ((if n \<noteq> 0 then t\<lparr>tr_flags := tr_flags t OR TARGET_TEXT_TRUNCATED\<rparr> else t) # ts, lane))
              (write_windows text_size (index + 1) text_offset ws))"

text \<open>
  \<open>build_window_scene\<close>: the result, the value stored to \<open>byte_size\<close>, and the packet written. The
  window array is a list, \<open>None\<close> for a null pointer; \<open>count\<close> is its length. A failure of the
  second loop leaves a partly written output, which is no packet.
\<close>

definition build_window_scene ::
  "window_scene_config \<Rightarrow> window_info list option \<Rightarrow> nat option \<Rightarrow> bool \<Rightarrow>
     saccade_result \<times> nat option \<times> u8 list option" where
  "build_window_scene c windows output byte_size =
     (case windows of
        None \<Rightarrow> (SACCADE_ERROR_INVALID_ARGUMENT, None, None)
      | Some ws \<Rightarrow>
          if \<not> byte_size \<or> length ws = 0 \<or> length ws > unat TARGET_PACKET_MAX_TARGETS \<or>
             wc_scene_epoch c = 0 \<or> wc_frame_id c = 0 \<or> wc_model_epoch c = 0 \<or> wc_session_epoch c = 0 \<or>
             wc_transform_epoch c = 0 \<or> wc_topology_epoch c = 0 \<or> wc_source_id c = 0
          then (SACCADE_ERROR_INVALID_ARGUMENT, None, None)
          else case measure_titles ws 0 0 of
            None \<Rightarrow> (SACCADE_ERROR_INVALID_ARGUMENT, None, None)
          | Some (text_size, packet_flags) \<Rightarrow>
              let required = header_size + length ws * target_size + unat text_size in
              (case output of
                 None \<Rightarrow> (SACCADE_ERROR_CAPACITY, Some required, None)
               | Some capacity \<Rightarrow>
                   if capacity < required then (SACCADE_ERROR_CAPACITY, Some required, None)
                   else case write_windows text_size 0 0 ws of
                     None \<Rightarrow> (SACCADE_ERROR_INVALID_ARGUMENT, Some required, None)
                   | Some (targets, lane) \<Rightarrow>
                       (SACCADE_OK, Some required,
                        Some (put_packet (window_header c (length ws) packet_flags required) targets lane))))"

subsection \<open>The two passes agree\<close>

lemma measure_titles_bound:
  assumes "measure_titles ws used flags = Some (tot, flags')" "unat used \<le> 16384"
  shows "unat used \<le> unat tot \<and> unat tot \<le> 16384"
  using assms
proof (induction ws used flags rule: measure_titles.induct)
  case (1 used flags)
  then show ?case by simp
next
  case (2 w ws used flags)
  let ?n = "span_size (wi_title w)"
  have room: "unat (16384 - used) = 16384 - unat used"
    using 2(4) by (simp add: unat_sub word_le_nat_alt)
  have ok: "\<not> (0xFFFF < ?n \<or> \<not> span_valid_utf8 (wi_title w))" using 2(3) by (auto simp: Let_def split: if_splits)
  show ?case
  proof (cases "?n \<le> unat (16384 - used)")
    case True
    then have sum: "unat (used + word_of_nat ?n) = unat used + ?n"
      using room 2(4) by (simp add: unat_word_ariths unat_of_nat)
    have le: "unat used + ?n \<le> 16384" using True room 2(4) by simp
    have "measure_titles ws (used + word_of_nat ?n) flags = Some (tot, flags')"
      using 2(3) ok True by (simp add: Let_def)
    then show ?thesis using 2(1) [OF refl ok True] sum le by simp
  next
    case False
    show ?thesis using 2(2) [OF refl ok False] 2(3) ok False 2(4) by (simp add: Let_def)
  qed
qed

text \<open>A target of the second pass is valid exactly when its safe point did not overflow.\<close>

definition centre_fits :: "window_info \<Rightarrow> bool" where
  "centre_fits w \<longleftrightarrow> (let b = wi_desktop_bounds w in
     sint (ri_x b) * 256 + sint (ri_width b) * 128 \<le> int32_max \<and>
     sint (ri_y b) * 256 + sint (ri_height b) * 128 \<le> int32_max)"

lemma q8_Some: "q8 v = Some s \<longleftrightarrow> int32_min \<le> sint v * 256 \<and> sint v * 256 \<le> int32_max \<and> s = word_of_int (sint v * 256)"
  by (auto simp: q8_def Let_def)

lemma sint_q8: "q8 v = Some s \<Longrightarrow> sint s = sint v * 256 \<and> int32_min \<le> sint v * 256 \<and> sint v * 256 \<le> int32_max"
  by (simp add: q8_Some del: of_int_mult)

lemma sint_add32:
  assumes "0 \<le> h" "h \<le> int32_max"
  shows "sint ((x :: i32) + word_of_int h) = (if sint x + h \<le> int32_max then sint x + h else sint x + h - 2 ^ 32)"
proof -
  have e: "x + word_of_int h = word_of_int (sint x + h)" by simp
  have "(word_of_int (k - 2 ^ 32) :: i32) = word_of_int k" for k
    unfolding word_of_int_eq_iff take_bit_eq_mod by simp
  then have "sint (word_of_int (k - 2 ^ 32) :: i32) = sint (word_of_int k :: i32)" for k
    by (simp only:)
  note wrap = this [of "sint x + h"]
  show ?thesis
  proof (cases "sint x + h \<le> int32_max")
    case True
    then show ?thesis unfolding e using sint32_bounds(1) [of x] assms
      by (simp only: if_True) (intro sint_word_of_int32; linarith)
  next
    case False
    have p: "(2 :: int) ^ 32 = 4294967296" by simp
    have "sint (word_of_int (sint x + h - 2 ^ 32) :: i32) = sint x + h - 2 ^ 32"
      using sint32_bounds [of x] assms False unfolding p by (intro sint_word_of_int32; linarith)
    then show ?thesis unfolding e using wrap False by (simp only: if_False)
  qed
qed

lemma window_target_geometry:
  assumes "window_target index w = Some t"
  shows "valid_target t \<longleftrightarrow> centre_fits w"
    "valid_target (t\<lparr>tr_flags := TARGET_ACTIONABLE OR TARGET_TEXT_TRUNCATED\<rparr>) \<longleftrightarrow> centre_fits w"
    "n \<noteq> 0 \<Longrightarrow> valid_target (t\<lparr>tr_text := \<lparr>tx_offset = off, tx_size = n\<rparr>\<rparr>) \<longleftrightarrow> centre_fits w"
    "tr_flags t = TARGET_ACTIONABLE" "tr_text t = no_text"
proof -
  let ?b = "wi_desktop_bounds w"
  from assms obtain x y wd ht where id: "wi_stable_id w \<noteq> 0" "0 < sint (ri_width ?b)" "0 < sint (ri_height ?b)"
    and q: "q8 (ri_x ?b) = Some x" "q8 (ri_y ?b) = Some y" "q8 (ri_width ?b) = Some wd" "q8 (ri_height ?b) = Some ht"
    and t: "t = zero_target\<lparr>tr_x_q8 := x, tr_y_q8 := y, tr_width_q8 := wd, tr_height_q8 := ht,
                tr_target_id := wi_stable_id w, tr_window_id := wi_stable_id w,
                tr_safe_x_q8 := x + word_of_int (sint wd div 2),
                tr_safe_y_q8 := y + word_of_int (sint ht div 2),
                tr_confidence_q16 := 0xFFFF, tr_role := ROLE_WINDOW, tr_source_bits := SOURCE_ACCESSIBILITY,
                tr_capability_bits := CAPABILITY_WINDOW_ACTIVATE, tr_flags := TARGET_ACTIONABLE,
                tr_order := word_of_nat index\<rparr>"
    by (auto simp: window_target_def Let_def split: if_splits option.splits)
  note s = q [THEN sint_q8]
  have h: "sint wd div 2 = sint (ri_width ?b) * 128" "sint ht div 2 = sint (ri_height ?b) * 128" using s by simp_all
  have sx: "sint (x + word_of_int (sint wd div 2)) =
      (if sint x + sint wd div 2 \<le> int32_max then sint x + sint wd div 2 else sint x + sint wd div 2 - 2 ^ 32)"
    using id s by (intro sint_add32) auto
  have sy: "sint (y + word_of_int (sint ht div 2)) =
      (if sint y + sint ht div 2 \<le> int32_max then sint y + sint ht div 2 else sint y + sint ht div 2 - 2 ^ 32)"
    using id s by (intro sint_add32) auto
  have fits: "centre_fits w \<longleftrightarrow> sint x + sint wd div 2 \<le> int32_max \<and> sint y + sint ht div 2 \<le> int32_max"
    unfolding centre_fits_def Let_def h using s by simp
  have geo: "(sint x \<le> sint (x + word_of_int (sint wd div 2)) \<and> sint y \<le> sint (y + word_of_int (sint ht div 2)) \<and>
      sint (x + word_of_int (sint wd div 2)) < sint x + sint wd \<and>
      sint (y + word_of_int (sint ht div 2)) < sint y + sint ht) \<longleftrightarrow> centre_fits w"
    unfolding sx sy fits using id s h by (auto split: if_splits)
  have pos: "\<not> sint wd \<le> 0" "\<not> sint ht \<le> 0" using id s by auto
  show "valid_target t \<longleftrightarrow> centre_fits w"
    unfolding geo [symmetric] using pos id by (simp add: t valid_target_def zero_target_def no_text_def
        source_mask_def target_capability_mask_def target_flag_mask_def Let_def del: of_int_mult)
  show "valid_target (t\<lparr>tr_flags := TARGET_ACTIONABLE OR TARGET_TEXT_TRUNCATED\<rparr>) \<longleftrightarrow> centre_fits w"
    unfolding geo [symmetric] using pos id by (simp add: t valid_target_def zero_target_def no_text_def
        source_mask_def target_capability_mask_def target_flag_mask_def Let_def del: of_int_mult)
  show "n \<noteq> 0 \<Longrightarrow> valid_target (t\<lparr>tr_text := \<lparr>tx_offset = off, tx_size = n\<rparr>\<rparr>) \<longleftrightarrow> centre_fits w"
    unfolding geo [symmetric] using pos id by (simp add: t valid_target_def zero_target_def no_text_def
        source_mask_def target_capability_mask_def target_flag_mask_def Let_def del: of_int_mult)
qed (use assms in \<open>auto simp: window_target_def zero_target_def Let_def split: if_splits option.splits\<close>)

text \<open>The second pass keeps the titles the first one measured, and its texts tile the lane.\<close>

lemma write_windows_lane:
  assumes "measure_titles ws used flags = Some (tot, flags')" "unat used \<le> 16384" "length pre = unat used"
    "write_windows tot i used ws = Some (ts, lane)"
  shows "unat used + length lane = unat tot \<and> length ts = length ws \<and>
    (text_lane (pre @ lane) (length pre) ts \<longleftrightarrow> list_all centre_fits ws)"
  using assms
proof (induction ws arbitrary: used flags pre i ts lane)
  case Nil
  then show ?case by simp
next
  case (Cons w ws)
  let ?n = "span_size (wi_title w)" let ?t = "span_bytes (wi_title w)"
  have ok: "\<not> (0xFFFF < ?n \<or> \<not> span_valid_utf8 (wi_title w))"
    using Cons.prems(1) by (auto simp: Let_def split: if_splits)
  then have u: "valid_utf8 ?t" "?n = length ?t" using span_valid_utf8_bytes by blast+
  have room: "unat (16384 - used) = 16384 - unat used"
    using Cons.prems(2) by (simp add: unat_sub word_le_nat_alt)
  obtain t where t: "window_target i w = Some t" using Cons.prems(4) by (cases "window_target i w") auto
  note geo = window_target_geometry [OF t]
  show ?case
  proof (cases "?n \<le> unat (16384 - used)")
    case True
    have m: "measure_titles ws (used + word_of_nat ?n) flags = Some (tot, flags')"
      using Cons.prems(1) ok True by (simp add: Let_def)
    have le: "unat used + ?n \<le> 16384" using True room Cons.prems(2) by simp
    have sum: "unat (used + word_of_nat ?n) = unat used + ?n"
      using le by (simp add: unat_word_ariths unat_of_nat)
    have tot: "unat used + ?n \<le> unat tot" using measure_titles_bound [OF m] le sum by simp
    then have fit: "?n \<le> unat (tot - used)" by (simp add: unat_sub word_le_nat_alt)
    show ?thesis
    proof (cases "?n = 0")
      case True
      then have z: "used + word_of_nat ?n = used" by simp
      obtain ts' where w: "write_windows tot (i + 1) used ws = Some (ts', lane)" and ts: "ts = t # ts'"
        using Cons.prems(4) t True by (auto simp: Let_def)
      show ?thesis
        using Cons.IH [OF m [unfolded z] Cons.prems(2,3) w] geo ts by (simp add: Let_def no_text_def)
    next
      case False
      obtain ts' lane' where w: "write_windows tot (i + 1) (used + word_of_nat ?n) ws = Some (ts', lane')"
        and ts: "ts = t\<lparr>tr_text := \<lparr>tx_offset = ucast used, tx_size = word_of_nat ?n\<rparr>\<rparr> # ts'"
        and lane: "lane = ?t @ lane'"
        using Cons.prems(4) t False fit by (auto simp: Let_def)
      have size: "unat (word_of_nat ?n :: u16) = ?n" using ok by (simp add: unat_of_nat)
      have off: "unat (ucast used :: u16) = unat used"
        using le by (simp add: unsigned_ucast_eq take_bit_eq_mod)
      have nz: "(word_of_nat ?n :: u16) \<noteq> 0" using size False by (metis unat_0)
      have len: "length (pre @ ?t) = unat (used + word_of_nat ?n)" using Cons.prems(3) sum u(2) by simp
      have bound: "unat (used + word_of_nat ?n) \<le> 16384" using sum le by simp
      note IH = Cons.IH [OF m bound len w]
      show ?thesis unfolding ts lane
        using IH geo(3) [OF nz] sum size off Cons.prems(3) u by (simp add: Let_def)
    qed
  next
    case False
    have m: "measure_titles ws used (flags OR TARGET_PACKET_TEXT_TRUNCATED) = Some (tot, flags')"
      using Cons.prems(1) ok False by (simp add: Let_def)
    have "unat tot \<le> 16384" "unat used \<le> unat tot" using measure_titles_bound [OF m Cons.prems(2)] by auto
    then have "unat (tot - used) \<le> 16384 - unat used" by (simp add: unat_sub word_le_nat_alt)
    then have nofit: "\<not> ?n \<le> unat (tot - used)" "?n \<noteq> 0" using False room by auto
    obtain ts' where w: "write_windows tot (i + 1) used ws = Some (ts', lane)"
      and ts: "ts = t\<lparr>tr_flags := tr_flags t OR TARGET_TEXT_TRUNCATED\<rparr> # ts'"
      using Cons.prems(4) t nofit by (auto simp: Let_def)
    show ?thesis unfolding ts
      using Cons.IH [OF m Cons.prems(2,3) w] geo by (simp add: Let_def no_text_def)
  qed
qed

lemma measure_titles_flags:
  assumes "measure_titles ws used flags = Some (tot, flags')" "flags AND NOT packet_flag_mask = 0"
  shows "flags' AND NOT packet_flag_mask = 0"
  using assms
proof (induction ws used flags rule: measure_titles.induct)
  case (1 used flags)
  then show ?case by simp
next
  case (2 w ws used flags)
  have "(flags OR 2) AND NOT packet_flag_mask = 0"
    using 2(4) by (simp add: packet_flag_mask_def bit.conj_disj_distrib2)
  then show ?case using 2 by (auto simp: Let_def split: if_splits)
qed

lemma window_header_accepted:
  assumes "n \<le> 10000" "k \<le> 16384" "flags AND NOT packet_flag_mask = 0"
    "wc_scene_epoch c \<noteq> 0" "wc_frame_id c \<noteq> 0" "wc_model_epoch c \<noteq> 0" "wc_session_epoch c \<noteq> 0"
    "wc_transform_epoch c \<noteq> 0" "wc_topology_epoch c \<noteq> 0" "wc_source_id c \<noteq> 0"
  shows "unat (ph_total_size (window_header c n flags (header_size + n * target_size + k))) =
      header_size + n * target_size + k"
    "unat (ph_target_count (window_header c n flags r)) = n"
    "header_accepted (window_header c n flags r) (unat (ph_total_size (window_header c n flags r)))"
proof -
  have "header_size + n * target_size + k < 18446744073709551616"
    using assms(1,2) by (simp add: header_size_def target_size_def)
  from unat_of_nat_small [OF this] show "unat (ph_total_size (window_header c n flags (header_size + n * target_size + k))) =
      header_size + n * target_size + k"
    by (simp add: window_header_def del: of_nat_add of_nat_mult)
qed (use assms in \<open>simp_all add: window_header_def zero_header_def unat_of_nat header_accepted_def
      valid_coordinate_space_def header_size_def target_size_def not_less word_le_nat_alt\<close>)

subsection \<open>Property\<close>

text \<open>Whenever the window builder succeeds, the packet it wrote passes validation if and only
  if no window's centre leaves the 32-bit coordinate range: the two passes over the titles agree
  on which titles fit, so the texts tile the lane and the sizes add up. A window whose centre
  overflows gets a wrapped safe point outside its own bounds, and every reader rejects the
  packet. On every other result no packet is written.\<close>

theorem window_scene_valid:
  "case build_window_scene c windows output byte_size of
     (SACCADE_OK, required, Some bytes) \<Rightarrow>
       required = Some (length bytes) \<and>
       ((fst (validate_packet (Span bytes) True True) = SACCADE_OK) \<longleftrightarrow> list_all centre_fits (the windows))
   | (result, required, bytes) \<Rightarrow> bytes = None \<and> result \<noteq> SACCADE_OK"
proof (cases "fst (build_window_scene c windows output byte_size) = SACCADE_OK")
  case False
  then show ?thesis
    by (auto simp: build_window_scene_def Let_def split: option.splits if_splits prod.splits)
next
  case True
  then obtain ws tot flags ts lane where ws: "windows = Some ws" "length ws \<le> 10000"
    and ep: "wc_scene_epoch c \<noteq> 0" "wc_frame_id c \<noteq> 0" "wc_model_epoch c \<noteq> 0" "wc_session_epoch c \<noteq> 0"
      "wc_transform_epoch c \<noteq> 0" "wc_topology_epoch c \<noteq> 0" "wc_source_id c \<noteq> 0"
    and m: "measure_titles ws 0 0 = Some (tot, flags)" and w: "write_windows tot 0 0 ws = Some (ts, lane)"
    and b: "build_window_scene c windows output byte_size = (SACCADE_OK,
        Some (header_size + length ws * target_size + unat tot),
        Some (put_packet (window_header c (length ws) flags (header_size + length ws * target_size + unat tot)) ts lane))"
    by (auto simp: build_window_scene_def Let_def split: option.splits if_splits prod.splits)
  have lane: "length lane = unat tot" "length ts = length ws" "text_lane lane 0 ts \<longleftrightarrow> list_all centre_fits ws"
    using write_windows_lane [OF m _ _ w, of "[]"] by simp_all
  have tot: "unat tot \<le> 16384" using measure_titles_bound [OF m] by simp
  have fl: "flags AND NOT packet_flag_mask = 0" using measure_titles_flags [OF m] by simp
  let ?h = "window_header c (length ws) flags (header_size + length ws * target_size + unat tot)"
  note h = window_header_accepted [OF ws(2) tot fl ep]
  have v: "validate_packet (Span (put_packet ?h ts lane)) True True = (SACCADE_OK, Some v) \<longleftrightarrow>
      text_lane lane 0 ts \<and> v = packet_of ?h ts lane" for v
    by (rule validate_produced [OF h(3)]) (use h(1,2) tot lane in simp_all)
  show ?thesis unfolding b using v lane ws(1) by (simp add: validate_packet_ok)
qed

end
