(* ===== verification/Scene_Store.thy ===== *)
theory Scene_Store
  imports Scene_Packet
begin

text \<open>
  The scene store of \<open>src/scene/store.cpp\<close>: three packet slots handed between one producer and
  one consumer without locks. A slot is free, being written, published and pending, active (the
  consumer reads it), retired (the consumer may still hold a view of it) or returned. The two
  atomics \<open>pending\<close> and \<open>returned\<close> are the only state both sides touch, so each side's
  call is split at its atomic operations and executions interleave the pieces.
\<close>

definition target_packet_max_bytes :: nat where
  "target_packet_max_bytes = header_size + 10000 * target_size + 16384"

record scene_slot =
  sl_bytes :: "nat \<Rightarrow> u8"
  sl_byte_size :: nat

text \<open>The pointer of a mutable packet is the number of the slot whose bytes it addresses, 0 for
  a null pointer.\<close>

record mutable_scene_packet =
  mp_data :: nat
  mp_capacity :: nat
  mp_slot :: u32

record scene_store_stats =
  ss_write_begins :: u64
  ss_published :: u64
  ss_replaced :: u64
  ss_producer_busy :: u64
  ss_copied_bytes :: u64
  ss_acquired :: u64
  ss_reused_active :: u64
  ss_returned :: u64

record scene_store =
  st_slots :: "scene_slot list"
  st_pending :: u32
  st_returned :: u32
  st_producer_stats :: scene_store_stats
  st_consumer_stats :: scene_store_stats
  st_free_mask :: u32
  st_writing_slot :: u32
  st_active_slot :: u32
  st_retired_slot :: u32
  st_initialized :: bool

definition zero_store_stats :: scene_store_stats where
  "zero_store_stats = \<lparr>ss_write_begins = 0, ss_published = 0, ss_replaced = 0, ss_producer_busy = 0,
     ss_copied_bytes = 0, ss_acquired = 0, ss_reused_active = 0, ss_returned = 0\<rparr>"

definition fresh_store :: scene_store where
  "fresh_store = \<lparr>st_slots = [], st_pending = 0, st_returned = 0, st_producer_stats = zero_store_stats,
     st_consumer_stats = zero_store_stats, st_free_mask = 0, st_writing_slot = 0, st_active_slot = 0,
     st_retired_slot = 0, st_initialized = False\<rparr>"

definition empty_slot :: scene_slot where
  "empty_slot = \<lparr>sl_bytes = (\<lambda>i. 0), sl_byte_size = 0\<rparr>"

definition no_packet :: mutable_scene_packet where
  "no_packet = \<lparr>mp_data = 0, mp_capacity = 0, mp_slot = 0\<rparr>"

text \<open>The slot with number \<open>n\<close>, counted from 1, and the bytes of a prefix of it.\<close>

abbreviation slot_at :: "scene_store \<Rightarrow> nat \<Rightarrow> scene_slot" where
  "slot_at s n \<equiv> st_slots s ! (n - 1)"

definition slot_prefix :: "scene_slot \<Rightarrow> nat \<Rightarrow> nat \<Rightarrow> u8 list" where
  "slot_prefix slot from n = map (sl_bytes slot) [from..<from + n]"

definition write_slot :: "nat \<Rightarrow> u8 list \<Rightarrow> scene_store \<Rightarrow> scene_store" where
  "write_slot n bytes s = s\<lparr>st_slots := (st_slots s)[n - 1 := (slot_at s n)\<lparr>sl_bytes :=
     (\<lambda>i. if i < length bytes then bytes ! i else sl_bytes (slot_at s n) i)\<rparr>]\<rparr>"

text \<open>\<open>initialize\<close>: the caller's storage is the slot list, \<open>None\<close> for a null pointer.\<close>

definition store_initialize :: "scene_slot list option \<Rightarrow> scene_store \<Rightarrow> saccade_result \<times> scene_store" where
  "store_initialize storage s =
     (if st_initialized s then (SACCADE_ERROR_ALREADY_EXISTS, s)
      else case storage of
        None \<Rightarrow> (SACCADE_ERROR_INVALID_ARGUMENT, s)
      | Some slots \<Rightarrow> (SACCADE_OK, s\<lparr>st_slots := map (\<lambda>slot. slot\<lparr>sl_byte_size := 0\<rparr>) slots,
          st_free_mask := 7, st_initialized := True\<rparr>))"

definition drain_returned :: "scene_store \<Rightarrow> scene_store" where
  "drain_returned s = (let slot = st_returned s; s = s\<lparr>st_returned := 0\<rparr>
     in if slot \<noteq> 0 then s\<lparr>st_free_mask := st_free_mask s OR push_bit (unat (slot - 1)) 1\<rparr> else s)"

text \<open>\<open>std::countr_zero\<close>.\<close>

definition countr_zero :: "u32 \<Rightarrow> nat" where
  "countr_zero w = (case first_index (bit w) [0..<32] of None \<Rightarrow> 32 | Some n \<Rightarrow> n)"

definition producer_busy :: "scene_store \<Rightarrow> scene_store" where
  "producer_busy s = s\<lparr>st_producer_stats := (st_producer_stats s)\<lparr>
     ss_producer_busy := ss_producer_busy (st_producer_stats s) + 1\<rparr>\<rparr>"

definition begin_write :: "bool \<Rightarrow> scene_store \<Rightarrow> saccade_result \<times> scene_store \<times> mutable_scene_packet" where
  "begin_write output s =
     (if \<not> st_initialized s \<or> \<not> output then (SACCADE_ERROR_INVALID_ARGUMENT, s, no_packet)
      else if st_writing_slot s \<noteq> 0 then (SACCADE_ERROR_BUSY, producer_busy s, no_packet)
      else let s = drain_returned s
      in if st_free_mask s = 0 then (SACCADE_ERROR_BUSY, producer_busy s, no_packet)
      else let n = countr_zero (st_free_mask s); slot = word_of_nat n + 1
      in (SACCADE_OK,
          s\<lparr>st_writing_slot := slot, st_free_mask := st_free_mask s AND NOT (push_bit n 1),
            st_producer_stats := (st_producer_stats s)\<lparr>ss_write_begins := ss_write_begins (st_producer_stats s) + 1\<rparr>\<rparr>,
          \<lparr>mp_data = n + 1, mp_capacity = target_packet_max_bytes, mp_slot = slot\<rparr>))"

definition abort_write :: "mutable_scene_packet \<Rightarrow> scene_store \<Rightarrow> saccade_result \<times> scene_store" where
  "abort_write packet s =
     (if \<not> st_initialized s \<or> mp_slot packet = 0 \<or> mp_slot packet \<noteq> st_writing_slot s then (SACCADE_ERROR_STATE, s)
      else (SACCADE_OK, s\<lparr>st_free_mask := st_free_mask s OR push_bit (unat (st_writing_slot s - 1)) 1,
                          st_writing_slot := 0\<rparr>))"

definition packet_span :: "mutable_scene_packet \<Rightarrow> nat \<Rightarrow> scene_store \<Rightarrow> span_u8" where
  "packet_span packet byte_size s =
     (if mp_data packet = 0 then Null_span (word_of_nat byte_size)
      else Span (slot_prefix (slot_at s (mp_data packet)) 0 byte_size))"

definition store_commit ::
  "mutable_scene_packet \<Rightarrow> nat \<Rightarrow> bool \<Rightarrow> scene_store \<Rightarrow> saccade_result \<times> scene_store" where
  "store_commit packet byte_size checked s =
     (if \<not> st_initialized s \<or> mp_slot packet = 0 \<or> mp_slot packet \<noteq> st_writing_slot s \<or>
         byte_size < header_size \<or> byte_size > target_packet_max_bytes then (SACCADE_ERROR_STATE, s)
      else if checked \<and> (case validate_packet (packet_span packet byte_size s) True True of
             (SACCADE_OK, Some view) \<Rightarrow> ph_coordinate_space (pv_header view) \<noteq> SPACE_DESKTOP_Q8
           | _ \<Rightarrow> True)
      then (SACCADE_ERROR_INVALID_ARGUMENT, s)
      else let slot = mp_slot packet;
               s = s\<lparr>st_slots := (st_slots s)[unat slot - 1 := (slot_at s (unat slot))\<lparr>sl_byte_size := byte_size\<rparr>]\<rparr>;
               replaced = st_pending s; s = s\<lparr>st_pending := slot\<rparr>;
               s = (if replaced \<noteq> 0 then s\<lparr>st_free_mask := st_free_mask s OR push_bit (unat (replaced - 1)) 1,
                      st_producer_stats := (st_producer_stats s)\<lparr>ss_replaced := ss_replaced (st_producer_stats s) + 1\<rparr>\<rparr>
                    else s)
           in (SACCADE_OK, s\<lparr>st_writing_slot := 0, st_producer_stats := (st_producer_stats s)\<lparr>
                 ss_published := ss_published (st_producer_stats s) + 1\<rparr>\<rparr>))"

definition commit_checked :: "mutable_scene_packet \<Rightarrow> nat \<Rightarrow> scene_store \<Rightarrow> saccade_result \<times> scene_store" where
  "commit_checked packet byte_size s = store_commit packet byte_size True s"

definition commit_trusted :: "mutable_scene_packet \<Rightarrow> nat \<Rightarrow> scene_store \<Rightarrow> saccade_result \<times> scene_store" where
  "commit_trusted packet byte_size s = store_commit packet byte_size False s"

definition publish_copy :: "span_u8 \<Rightarrow> scene_store \<Rightarrow> saccade_result \<times> scene_store" where
  "publish_copy span s = (case span of
       Null_span _ \<Rightarrow> (SACCADE_ERROR_INVALID_ARGUMENT, s)
     | Span bytes \<Rightarrow>
         if length bytes > target_packet_max_bytes then (SACCADE_ERROR_INVALID_ARGUMENT, s)
         else case begin_write True s of
           (begun, s, packet) \<Rightarrow>
             if begun \<noteq> SACCADE_OK then (begun, s)
             else let s = write_slot (mp_data packet) bytes s;
                      s = s\<lparr>st_producer_stats := (st_producer_stats s)\<lparr>
                            ss_copied_bytes := ss_copied_bytes (st_producer_stats s) + word_of_nat (length bytes)\<rparr>\<rparr>
                  in case commit_checked packet (length bytes) s of
                    (committed, s) \<Rightarrow>
                      if committed \<noteq> SACCADE_OK then (committed, snd (abort_write packet s)) else (committed, s))"

text \<open>
  \<open>acquire_latest\<close> has two halves at different atomics: handing back the retired slot, which
  fails while the producer has not drained the last one, and taking the pending slot.
\<close>

definition acquire_return :: "scene_store \<Rightarrow> saccade_result \<times> scene_store" where
  "acquire_return s =
     (if st_retired_slot s \<noteq> 0 then
        if st_returned s \<noteq> 0 then (SACCADE_ERROR_STATE, s)
        else (SACCADE_OK, s\<lparr>st_returned := st_retired_slot s, st_retired_slot := 0,
               st_consumer_stats := (st_consumer_stats s)\<lparr>ss_returned := ss_returned (st_consumer_stats s) + 1\<rparr>\<rparr>)
      else (SACCADE_OK, s))"

definition acquire_take :: "scene_store \<Rightarrow> scene_store" where
  "acquire_take s =
     (let latest = st_pending s; s = s\<lparr>st_pending := 0\<rparr>; st = st_consumer_stats s
      in if latest \<noteq> 0 then s\<lparr>st_retired_slot := st_active_slot s, st_active_slot := latest,
           st_consumer_stats := st\<lparr>ss_acquired := ss_acquired st + 1\<rparr>\<rparr>
         else if st_active_slot s \<noteq> 0 then s\<lparr>st_consumer_stats := st\<lparr>ss_reused_active := ss_reused_active st + 1\<rparr>\<rparr>
         else s)"

text \<open>The output view: header, targets and size come from the slot; the text fields keep what the
  caller's view held, null for a default view.\<close>

definition active_view :: "packet_view option \<Rightarrow> scene_store \<Rightarrow> packet_view" where
  "active_view old s =
     (let slot = slot_at s (unat (st_active_slot s)); h = fst (get_header (slot_prefix slot 0 header_size)) in
      \<lparr>pv_header = h,
       pv_targets = fst (get_targets (unat (ph_target_count h))
         (slot_prefix slot (unat (ph_targets_offset h)) (unat (ph_target_count h) * target_size))),
       pv_byte_size = sl_byte_size slot,
       pv_text = (case old of None \<Rightarrow> [] | Some v \<Rightarrow> pv_text v),
       pv_text_size = (case old of None \<Rightarrow> 0 | Some v \<Rightarrow> pv_text_size v)\<rparr>)"

definition acquire_latest ::
  "bool \<Rightarrow> packet_view option \<Rightarrow> scene_store \<Rightarrow> saccade_result \<times> scene_store \<times> packet_view option" where
  "acquire_latest output old s =
     (if \<not> st_initialized s \<or> \<not> output then (SACCADE_ERROR_INVALID_ARGUMENT, s, old)
      else case acquire_return s of
        (r, s) \<Rightarrow>
          if r \<noteq> SACCADE_OK then (r, s, old)
          else let s = acquire_take s
               in if st_active_slot s = 0 then (SACCADE_ERROR_NOT_FOUND, s, None)
                  else (SACCADE_OK, s, Some (active_view old s)))"

definition store_stats :: "scene_store \<Rightarrow> scene_store_stats" where
  "store_stats s = (st_producer_stats s)\<lparr>ss_acquired := ss_acquired (st_consumer_stats s),
     ss_reused_active := ss_reused_active (st_consumer_stats s), ss_returned := ss_returned (st_consumer_stats s)\<rparr>"

lemmas [op_defs] = store_initialize_def drain_returned_def producer_busy_def begin_write_def abort_write_def
  store_commit_def commit_checked_def commit_trusted_def publish_copy_def acquire_return_def acquire_take_def

subsection \<open>Executions\<close>

text \<open>
  The producer's calls are one step each: apart from the slot's bytes they touch the shared
  state at a single atomic exchange. The producer fills the bytes of the slot it is writing.
  The consumer's call is two steps, so the producer may run in between; the second one follows
  a successful first one, after which nothing is retired.
\<close>

datatype store_op =
    Store_initialize scene_slot scene_slot scene_slot
  | Begin_write
  | Fill "u8 list"
  | Abort_write mutable_scene_packet
  | Commit mutable_scene_packet nat bool
  | Publish_copy span_u8
  | Acquire_return
  | Acquire_take

fun store_step :: "scene_store \<Rightarrow> store_op \<Rightarrow> scene_store" where
  "store_step s (Store_initialize a b c) = snd (store_initialize (Some [a, b, c]) s)"
| "store_step s Begin_write = fst (snd (begin_write True s))"
| "store_step s (Fill bytes) = (if st_writing_slot s = 0 then s else write_slot (unat (st_writing_slot s)) bytes s)"
| "store_step s (Abort_write packet) = snd (abort_write packet s)"
| "store_step s (Commit packet byte_size checked) = snd (store_commit packet byte_size checked s)"
| "store_step s (Publish_copy span) = snd (publish_copy span s)"
| "store_step s Acquire_return = (if st_initialized s then snd (acquire_return s) else s)"
| "store_step s Acquire_take = (if st_initialized s \<and> st_retired_slot s = 0 then acquire_take s else s)"

text \<open>How often slot \<open>k\<close> is held: in the free mask or by one of the five owners.\<close>

definition held_by :: "u32 \<Rightarrow> nat \<Rightarrow> nat" where
  "held_by owner k = (if unat owner = k then 1 else 0)"

definition free_slot :: "u32 \<Rightarrow> nat \<Rightarrow> nat" where
  "free_slot free k = (if bit free (k - 1) then 1 else 0)"

definition holders :: "scene_store \<Rightarrow> nat \<Rightarrow> nat" where
  "holders s k = free_slot (st_free_mask s) k + held_by (st_writing_slot s) k + held_by (st_pending s) k +
     held_by (st_returned s) k + held_by (st_active_slot s) k + held_by (st_retired_slot s) k"

definition bit64 :: "u32 \<Rightarrow> u64" where
  "bit64 owner = (if owner = 0 then 0 else 1)"

text \<open>Setting and clearing the bit of a slot in the free mask moves the slot.\<close>

lemma pred_slot: "(w :: u32) \<noteq> 0 \<Longrightarrow> unat (w - 1) = unat w - 1"
  by (simp add: unat_sub word_le_nat_alt unat_gt_0 Suc_le_eq)

lemma unit_bit: "n < 32 \<Longrightarrow> bit (push_bit n (1 :: u32)) i \<longleftrightarrow> i = n"
  by (auto simp: bit_simps)

lemma free_move:
  assumes "w \<noteq> 0" "unat (w :: u32) \<le> 3" "k \<noteq> 0" "free_slot m k + held_by w k \<le> 1"
  shows "free_slot (m OR push_bit (unat (w - 1)) 1) k = free_slot m k + held_by w k"
proof -
  have w: "unat w \<noteq> 0" using assms(1) by (simp add: unat_eq_0)
  have "bit (m OR push_bit (unat (w - 1)) 1) (k - 1) \<longleftrightarrow> bit m (k - 1) \<or> k = unat w"
    unfolding bit_or_iff pred_slot [OF assms(1)] using w assms(2,3) by (subst unit_bit) auto
  then show ?thesis using assms(4) by (auto simp: free_slot_def held_by_def split: if_splits)
qed

lemma free_take:
  assumes "n < 3" "bit m n" "k \<noteq> 0"
  shows "free_slot (m AND NOT (push_bit n 1)) k + held_by (word_of_nat n + 1) k = free_slot m k"
proof -
  have "unat (word_of_nat n + 1 :: u32) = Suc n" using assms(1) by (simp add: unat_word_ariths unat_of_nat)
  moreover have "bit (m AND NOT (push_bit n 1)) (k - 1) \<longleftrightarrow> bit m (k - 1) \<and> k \<noteq> Suc n"
  proof -
    have "bit (push_bit n (1 :: u32)) (k - 1) \<longleftrightarrow> k - 1 = n" using assms(1) by (subst unit_bit) auto
    then show ?thesis using assms(3) bit_imp_le_length [of m "k - 1"] by (auto simp: bit_and_iff bit_not_iff)
  qed
  ultimately show ?thesis using assms(2) by (auto simp: free_slot_def held_by_def)
qed

lemma set_bit_high:
  assumes "w \<noteq> 0" "unat (w :: u32) \<le> 3" "3 \<le> n"
  shows "bit (m OR push_bit (unat (w - 1)) 1 :: u32) n = bit m n"
proof -
  have "unat w \<noteq> 0" using assms(1) by (simp add: unat_eq_0)
  then show ?thesis unfolding bit_or_iff pred_slot [OF assms(1)] using assms(2,3) by (subst unit_bit) auto
qed

lemma countr_zero_bit:
  assumes "m \<noteq> (0 :: u32)" "\<forall>n \<ge> 3. \<not> bit m n"
  shows "countr_zero m < 3" "bit m (countr_zero m)"
proof -
  from assms(1) obtain n where n: "bit m n" by (metis bit_0_eq bit_eq_iff bot_apply bot_bool_def)
  then have "n < 32" using bit_imp_le_length by fastforce
  then obtain i where i: "first_index (bit m) [0..<32] = Some i"
    using n first_index_None [of "bit m" "[0..<32]"] by (cases "first_index (bit m) [0..<32]") auto
  have len: "length [0..<32] = 32" by (simp only: length_upt diff_zero)
  from first_index_Some [OF i, unfolded len] have lt: "i < 32" and "bit m ([0..<32] ! i)" by blast+
  moreover have "[0..<32] ! i = i" using nth_upt [of 0 i 32] lt by (simp only: add_0)
  ultimately have "bit m i" by (simp only:)
  then show "bit m (countr_zero m)" "countr_zero m < 3"
    using i assms(2) by (auto simp: countr_zero_def not_le [symmetric])
qed

lemma held_by_0 [simp]: "k \<noteq> 0 \<Longrightarrow> held_by 0 k = 0"
  by (simp add: held_by_def)

lemma bit64_simps [simp]: "bit64 0 = 0" "w \<noteq> 0 \<Longrightarrow> bit64 w = 1"
  by (simp_all add: bit64_def)

text \<open>The parts of the invariant of a running store.\<close>

definition slots_held :: "scene_store \<Rightarrow> bool" where
  "slots_held s \<longleftrightarrow> (\<forall>k. k \<noteq> 0 \<and> k \<le> 3 \<longrightarrow> holders s k = 1)"

definition owners_small :: "scene_store \<Rightarrow> bool" where
  "owners_small s \<longleftrightarrow> (\<forall>n \<ge> 3. \<not> bit (st_free_mask s) n) \<and> unat (st_writing_slot s) \<le> 3 \<and>
     unat (st_pending s) \<le> 3 \<and> unat (st_returned s) \<le> 3 \<and> unat (st_active_slot s) \<le> 3 \<and>
     unat (st_retired_slot s) \<le> 3"

definition store_counts :: "scene_store \<Rightarrow> bool" where
  "store_counts s \<longleftrightarrow>
     ss_published (st_producer_stats s) =
       ss_replaced (st_producer_stats s) + ss_acquired (st_consumer_stats s) + bit64 (st_pending s) \<and>
     ss_acquired (st_consumer_stats s) =
       ss_returned (st_consumer_stats s) + bit64 (st_active_slot s) + bit64 (st_retired_slot s)"

definition store_inv :: "scene_store \<Rightarrow> bool" where
  "store_inv s \<longleftrightarrow>
     (if st_initialized s then length (st_slots s) = 3 \<and> slots_held s \<and> owners_small s \<and> store_counts s
      else s = fresh_store)"

lemma slots_heldD: "slots_held s \<Longrightarrow> k \<noteq> 0 \<Longrightarrow> k \<le> 3 \<Longrightarrow> holders s k = 1"
  by (simp add: slots_held_def)

lemma slots_heldI: "slots_held s \<Longrightarrow> (\<And>k. k \<noteq> 0 \<Longrightarrow> k \<le> 3 \<Longrightarrow> holders s k = 1 \<Longrightarrow> holders s' k = 1) \<Longrightarrow> slots_held s'"
  by (simp add: slots_held_def)

lemma drain_returned_inv:
  assumes "store_inv s" "st_initialized s"
  shows "store_inv (drain_returned s)"
proof (cases "st_returned s = 0")
  case True
  then have "drain_returned s = s" by (cases s) (simp add: drain_returned_def)
  then show ?thesis using assms by simp
next
  case False
  have o: "owners_small s" and h: "slots_held s" using assms by (simp_all add: store_inv_def)
  have r: "unat (st_returned s) \<le> 3" using o by (simp add: owners_small_def)
  have "slots_held (drain_returned s)"
    using h
  proof (rule slots_heldI)
    fix k assume k: "k \<noteq> 0" "k \<le> (3 :: nat)" and one: "holders s k = 1"
    have "free_slot (st_free_mask s OR push_bit (unat (st_returned s - 1)) 1) k =
        free_slot (st_free_mask s) k + held_by (st_returned s) k"
      using one by (intro free_move False r k) (simp add: holders_def)
    then show "holders (drain_returned s) k = 1" using one False k by (simp add: drain_returned_def Let_def holders_def)
  qed
  moreover have "owners_small (drain_returned s)"
    using o False set_bit_high [OF False r] by (simp add: owners_small_def drain_returned_def Let_def)
  ultimately show ?thesis using assms False by (simp add: store_inv_def drain_returned_def store_counts_def Let_def)
qed

lemma producer_busy_inv: "store_inv s \<Longrightarrow> st_initialized s \<Longrightarrow> store_inv (producer_busy s)"
  by (simp add: store_inv_def producer_busy_def slots_held_def holders_def owners_small_def store_counts_def)

lemma abort_write_inv:
  assumes "store_inv s"
  shows "store_inv (snd (abort_write p s))"
proof (cases "st_initialized s \<and> mp_slot p \<noteq> 0 \<and> mp_slot p = st_writing_slot s")
  case False
  then show ?thesis using assms by (auto simp: abort_write_def)
next
  case True
  then have init: "st_initialized s" and w: "st_writing_slot s \<noteq> 0" by auto
  have o: "owners_small s" and h: "slots_held s" using assms init by (simp_all add: store_inv_def)
  have r: "unat (st_writing_slot s) \<le> 3" using o by (simp add: owners_small_def)
  have e: "snd (abort_write p s) = s\<lparr>st_free_mask := st_free_mask s OR push_bit (unat (st_writing_slot s - 1)) 1,
                          st_writing_slot := 0\<rparr>" using True by (auto simp: abort_write_def)
  have "slots_held (snd (abort_write p s))"
    using h
  proof (rule slots_heldI)
    fix k assume k: "k \<noteq> 0" "k \<le> (3 :: nat)" and one: "holders s k = 1"
    have "free_slot (st_free_mask s OR push_bit (unat (st_writing_slot s - 1)) 1) k =
        free_slot (st_free_mask s) k + held_by (st_writing_slot s) k"
      using one by (intro free_move w r k) (simp add: holders_def)
    then show "holders (snd (abort_write p s)) k = 1" unfolding e using one k by (simp add: holders_def)
  qed
  moreover have "owners_small (snd (abort_write p s))"
    unfolding e using o set_bit_high [OF w r] by (simp add: owners_small_def)
  ultimately show ?thesis using assms init unfolding e by (simp add: store_inv_def store_counts_def)
qed

lemma acquire_return_inv: "store_inv s \<Longrightarrow> st_initialized s \<Longrightarrow> store_inv (snd (acquire_return s))"
  by (auto simp: store_inv_def acquire_return_def slots_held_def holders_def owners_small_def store_counts_def)

lemma acquire_take_inv: "store_inv s \<Longrightarrow> st_initialized s \<Longrightarrow> st_retired_slot s = 0 \<Longrightarrow> store_inv (acquire_take s)"
  by (auto simp: store_inv_def acquire_take_def Let_def slots_held_def holders_def owners_small_def store_counts_def)

lemma begin_write_inv:
  assumes "store_inv s"
  shows "store_inv (fst (snd (begin_write output s)))"
proof (cases "st_initialized s \<and> output \<and> st_writing_slot s = 0 \<and> st_free_mask (drain_returned s) \<noteq> 0")
  case False
  have d: "st_initialized (drain_returned s) = st_initialized s" by (simp add: drain_returned_def Let_def)
  show ?thesis using assms False drain_returned_inv producer_busy_inv d
    by (auto simp: begin_write_def Let_def)
next
  case True
  let ?d = "drain_returned s" let ?n = "countr_zero (st_free_mask (drain_returned s))"
  let ?s = "fst (snd (begin_write output s))"
  have d: "st_initialized ?d" "st_writing_slot ?d = 0" using True by (simp_all add: drain_returned_def Let_def)
  have inv: "store_inv ?d" using drain_returned_inv [OF assms] True by simp
  then have o: "owners_small ?d" and h: "slots_held ?d" using d(1) by (simp_all add: store_inv_def)
  note n = countr_zero_bit [of "st_free_mask ?d"]
  have n: "?n < 3" "bit (st_free_mask ?d) ?n" using n True o by (auto simp: owners_small_def)
  have e: "?s = ?d\<lparr>st_writing_slot := word_of_nat ?n + 1, st_free_mask := st_free_mask ?d AND NOT (push_bit ?n 1),
            st_producer_stats := (st_producer_stats ?d)\<lparr>ss_write_begins := ss_write_begins (st_producer_stats ?d) + 1\<rparr>\<rparr>"
    using True by (simp add: begin_write_def Let_def)
  have "slots_held ?s"
    using h
  proof (rule slots_heldI)
    fix k assume k: "k \<noteq> 0" "k \<le> (3 :: nat)" and one: "holders ?d k = 1"
    show "holders ?s k = 1" unfolding e using one free_take [OF n k(1)] d(2) k by (simp add: holders_def)
  qed
  moreover have "owners_small ?s"
    unfolding e using o n(1) by (simp add: owners_small_def bit_and_iff unat_word_ariths unat_of_nat)
  ultimately show ?thesis using inv d(1) unfolding e by (simp add: store_inv_def store_counts_def)
qed

lemma commit_inv:
  assumes "store_inv s"
  shows "store_inv (snd (store_commit p n checked s))"
proof (cases "fst (store_commit p n checked s) = SACCADE_OK")
  case False
  then have "snd (store_commit p n checked s) = s" by (auto simp: store_commit_def Let_def split: if_splits)
  then show ?thesis using assms by simp
next
  case True
  let ?w = "st_writing_slot s"
  have c: "st_initialized s" "?w \<noteq> 0" "mp_slot p = ?w"
    using True by (auto simp: store_commit_def split: if_splits)
  let ?slots = "(st_slots s)[unat ?w - 1 := (slot_at s (unat ?w))\<lparr>sl_byte_size := n\<rparr>]"
  have o: "owners_small s" and h: "slots_held s" using assms c by (simp_all add: store_inv_def)
  show ?thesis
  proof (cases "st_pending s = 0")
    case pending: True
    have e: "snd (store_commit p n checked s) = s\<lparr>st_slots := ?slots, st_pending := ?w, st_writing_slot := 0,
        st_producer_stats := (st_producer_stats s)\<lparr>ss_published := ss_published (st_producer_stats s) + 1\<rparr>\<rparr>"
      using True c pending by (auto simp: store_commit_def Let_def split: if_splits)
    show ?thesis unfolding e using assms c pending o h
      by (simp add: store_inv_def store_counts_def owners_small_def slots_held_def holders_def)
  next
    case pending: False
    have e: "snd (store_commit p n checked s) = s\<lparr>st_slots := ?slots, st_pending := ?w, st_writing_slot := 0,
        st_free_mask := st_free_mask s OR push_bit (unat (st_pending s - 1)) 1,
        st_producer_stats := (st_producer_stats s)\<lparr>ss_replaced := ss_replaced (st_producer_stats s) + 1,
          ss_published := ss_published (st_producer_stats s) + 1\<rparr>\<rparr>"
      using True c pending by (auto simp: store_commit_def Let_def split: if_splits)
    have r: "unat (st_pending s) \<le> 3" using o by (simp add: owners_small_def)
    have "slots_held (snd (store_commit p n checked s))"
      using h
    proof (rule slots_heldI)
      fix k assume k: "k \<noteq> 0" "k \<le> (3 :: nat)" and one: "holders s k = 1"
      have "free_slot (st_free_mask s OR push_bit (unat (st_pending s - 1)) 1) k =
          free_slot (st_free_mask s) k + held_by (st_pending s) k"
        using one by (intro free_move pending r k) (simp add: holders_def)
      then show "holders (snd (store_commit p n checked s)) k = 1" unfolding e using one k by (simp add: holders_def)
    qed
    moreover have "owners_small (snd (store_commit p n checked s))"
      unfolding e using o set_bit_high [OF pending r] by (simp add: owners_small_def)
    ultimately show ?thesis using assms c pending unfolding e by (simp add: store_inv_def store_counts_def)
  qed
qed

lemma write_slot_inv: "store_inv s \<Longrightarrow> st_initialized s \<Longrightarrow> store_inv (write_slot n bytes s)"
  by (simp add: store_inv_def write_slot_def slots_held_def holders_def owners_small_def store_counts_def)

lemma copied_inv: "store_inv s \<Longrightarrow> st_initialized s \<Longrightarrow>
  store_inv (s\<lparr>st_producer_stats := (st_producer_stats s)\<lparr>ss_copied_bytes := c\<rparr>\<rparr>)"
  by (simp add: store_inv_def slots_held_def holders_def owners_small_def store_counts_def)

lemma begin_write_ok:
  "begin_write output s = (SACCADE_OK, s', p) \<Longrightarrow> st_initialized s \<and> st_initialized s'"
  by (auto simp: begin_write_def drain_returned_def Let_def split: if_splits)

lemma publish_copy_inv:
  assumes "store_inv s"
  shows "store_inv (snd (publish_copy span s))"
proof -
  obtain r s1 p where b: "begin_write True s = (r, s1, p)" by (cases "begin_write True s") auto
  have i1: "store_inv s1" using begin_write_inv [OF assms, of True] b by simp
  show ?thesis
  proof (cases "r = SACCADE_OK")
    case False
    then show ?thesis using assms b i1 by (auto simp: publish_copy_def split: span_u8.split)
  next
    case True
    then have init: "st_initialized s1" using begin_write_ok b by blast
    have i2: "store_inv (snd (commit_checked p n ((write_slot m bs s1)\<lparr>st_producer_stats :=
        (st_producer_stats (write_slot m bs s1))\<lparr>ss_copied_bytes := c\<rparr>\<rparr>)))" for m bs c n
      unfolding commit_checked_def
      by (intro commit_inv copied_inv write_slot_inv i1) (simp_all add: init write_slot_def)
    show ?thesis using assms True b i2 abort_write_inv
      by (auto simp: publish_copy_def Let_def split: span_u8.split prod.split) (metis snd_conv)+
  qed
qed

lemma store_inv_start: "store_inv fresh_store"
  by (simp add: store_inv_def fresh_store_def)

lemma store_initialize_inv: "store_inv s \<Longrightarrow> store_inv (snd (store_initialize (Some [a, b, c]) s))"
proof (cases "st_initialized s")
  case True
  then show "store_inv s \<Longrightarrow> ?thesis" by (simp add: store_initialize_def)
next
  case False
  assume "store_inv s"
  then have s: "s = fresh_store" using False by (simp add: store_inv_def)
  have "(7 :: u32) = mask 3" by (simp add: mask_eq_exp_minus_1)
  then have seven: "bit (7 :: u32) n \<longleftrightarrow> n < 3" for n
    by (simp only: bit_mask_iff) auto
  let ?s = "snd (store_initialize (Some [a, b, c]) s)"
  have e: "?s = fresh_store\<lparr>st_slots := map (\<lambda>slot. slot\<lparr>sl_byte_size := 0\<rparr>) [a, b, c],
      st_free_mask := 7, st_initialized := True\<rparr>"
    unfolding s by (simp add: store_initialize_def fresh_store_def)
  have "slots_held ?s"
  proof -
    have "holders ?s k = 1" if "k \<noteq> 0" "k \<le> 3" for k
    proof -
      have "k - 1 < 3" using that by linarith
      then have "free_slot 7 k = 1" unfolding free_slot_def seven by (simp only: if_True)
      then show ?thesis unfolding e holders_def using that by (simp add: fresh_store_def)
    qed
    then show ?thesis by (simp only: slots_held_def) blast
  qed
  moreover have "\<forall>n \<ge> 3. \<not> bit (7 :: u32) n" by (simp only: seven not_less simp_thms)
  then have "owners_small ?s" unfolding e owners_small_def by (simp add: fresh_store_def)
  moreover have "store_counts ?s" "st_initialized ?s" "length (st_slots ?s) = 3"
    unfolding e by (simp_all add: store_counts_def fresh_store_def zero_store_stats_def)
  ultimately show ?thesis by (simp add: store_inv_def)
qed

lemma store_step_inv: "store_inv s \<Longrightarrow> store_inv (store_step s e)"
proof (cases e)
  case (Fill bytes)
  assume inv: "store_inv s"
  show ?thesis
  proof (cases "st_writing_slot s = 0")
    case True
    then show ?thesis using inv Fill by simp
  next
    case False
    then have "st_initialized s" using inv by (auto simp: store_inv_def fresh_store_def split: if_splits)
    then show ?thesis using inv Fill False write_slot_inv by simp
  qed
qed (auto intro: store_initialize_inv begin_write_inv abort_write_inv commit_inv publish_copy_inv
      acquire_return_inv acquire_take_inv)

interpretation store: invariant_machine fresh_store store_step store_inv
  by unfold_locales (auto intro: store_inv_start store_step_inv)

subsection \<open>What the reader sees\<close>

text \<open>A slot's contents.\<close>

definition same_contents :: "scene_store \<Rightarrow> scene_store \<Rightarrow> nat \<Rightarrow> bool" where
  "same_contents s s' n \<longleftrightarrow> slot_at s n = slot_at s' n"

text \<open>The slots the producer's calls may change: what it writes, or what is free before the call.\<close>

lemma held_apart:
  assumes "store_inv s" "st_initialized s" "0 < n" "n \<le> 3"
    "held_by (st_active_slot s) n + held_by (st_retired_slot s) n \<noteq> 0"
  shows "unat (st_writing_slot s) \<noteq> n" "unat (st_returned s) \<noteq> n" "\<not> bit (st_free_mask s) (n - 1)"
proof -
  have "holders s n = 1" using assms by (intro slots_heldD) (simp_all add: store_inv_def)
  then show "unat (st_writing_slot s) \<noteq> n" "unat (st_returned s) \<noteq> n" "\<not> bit (st_free_mask s) (n - 1)"
    using assms(5) by (auto simp: holders_def held_by_def free_slot_def split: if_splits)
qed

lemma drain_returned_apart:
  assumes "store_inv s" "st_initialized s" "0 < n" "n \<le> 3"
    "held_by (st_active_slot s) n + held_by (st_retired_slot s) n \<noteq> 0"
  shows "\<not> bit (st_free_mask (drain_returned s)) (n - 1)"
  using held_apart(3) [OF drain_returned_inv [OF assms(1,2)], of n] assms
  by (simp add: drain_returned_def Let_def)

lemma begin_write_contents:
  assumes "begin_write output s = (r, s', p)"
  shows "st_slots s' = st_slots s \<and> st_active_slot s' = st_active_slot s \<and> st_retired_slot s' = st_retired_slot s"
  using assms by (auto simp: begin_write_def producer_busy_def drain_returned_def Let_def split: if_splits)

lemma begin_write_slot:
  assumes "store_inv s" "begin_write output s = (SACCADE_OK, s', p)" "0 < n" "n \<le> 3"
    "held_by (st_active_slot s) n + held_by (st_retired_slot s) n \<noteq> 0"
  shows "mp_data p \<noteq> n \<and> 0 < mp_data p \<and> mp_data p \<le> 3"
proof -
  have init: "st_initialized s" using begin_write_ok assms(2) by blast
  let ?d = "drain_returned s"
  have p: "mp_data p = countr_zero (st_free_mask ?d) + 1" and nz: "st_free_mask ?d \<noteq> 0"
    using assms(2) by (auto simp: begin_write_def Let_def split: if_splits)
  have "owners_small ?d" using drain_returned_inv [OF assms(1) init] init
    by (simp add: store_inv_def drain_returned_def Let_def split: if_splits)
  then have b: "countr_zero (st_free_mask ?d) < 3" "bit (st_free_mask ?d) (countr_zero (st_free_mask ?d))"
    using countr_zero_bit [OF nz] by (auto simp: owners_small_def)
  have "countr_zero (st_free_mask ?d) \<noteq> n - 1"
    using b(2) drain_returned_apart [OF assms(1) init assms(3-5)] by metis
  then show ?thesis using p b(1) assms(3) by auto
qed

lemma commit_contents:
  assumes "store_inv s" "st_initialized s" "0 < n" "n \<le> 3" "unat (st_writing_slot s) \<noteq> n"
  shows "same_contents s (snd (store_commit p k checked s)) n \<and>
    st_active_slot (snd (store_commit p k checked s)) = st_active_slot s \<and>
    st_retired_slot (snd (store_commit p k checked s)) = st_retired_slot s"
proof -
  have "unat (st_writing_slot s) - 1 \<noteq> n - 1" if "st_writing_slot s \<noteq> 0"
    using assms(3,5) that by (metis One_nat_def Suc_pred neq0_conv unat_eq_0)
  then show ?thesis
    by (auto simp: store_commit_def same_contents_def Let_def split: if_splits)
qed

lemma write_slot_contents: "m - 1 \<noteq> n - 1 \<Longrightarrow> same_contents s (write_slot m bs s) n"
  by (simp add: same_contents_def write_slot_def)

lemma same_contents_trans:
  "same_contents s s1 n \<Longrightarrow> same_contents s1 s2 n \<Longrightarrow> same_contents s s2 n"
  by (simp add: same_contents_def)

lemma same_slots: "st_slots s = st_slots s' \<Longrightarrow> same_contents s s' n"
  by (simp add: same_contents_def)

lemma begin_write_ok_slot:
  assumes "store_inv s" "begin_write output s = (SACCADE_OK, s', p)"
  shows "unat (mp_slot p) = mp_data p \<and> st_writing_slot s' = mp_slot p \<and> mp_slot p \<noteq> 0 \<and> mp_data p \<le> 3"
proof -
  have init: "st_initialized s" using begin_write_ok assms(2) by blast
  let ?n = "countr_zero (st_free_mask (drain_returned s))"
  have p: "mp_data p = ?n + 1" "mp_slot p = word_of_nat ?n + 1" "st_writing_slot s' = mp_slot p"
    and nz: "st_free_mask (drain_returned s) \<noteq> 0"
    using assms(2) by (auto simp: begin_write_def Let_def split: if_splits)
  have "owners_small (drain_returned s)" using drain_returned_inv [OF assms(1) init] init
    by (simp add: store_inv_def drain_returned_def Let_def split: if_splits)
  then have "?n < 3" using countr_zero_bit(1) [OF nz] by (simp add: owners_small_def)
  then have "unat (word_of_nat ?n + 1 :: u32) = ?n + 1" by (simp add: unat_word_ariths unat_of_nat)
  then show ?thesis using p \<open>?n < 3\<close> by (simp, metis unat_0 Suc_neq_Zero)
qed

lemma abort_write_same:
  "st_slots (snd (abort_write p s)) = st_slots s"
  by (simp add: abort_write_def)

lemma publish_copy_contents:
  assumes "store_inv s" "st_initialized s" "0 < n" "n \<le> 3"
    "held_by (st_active_slot s) n + held_by (st_retired_slot s) n \<noteq> 0"
  shows "same_contents s (snd (publish_copy span s)) n"
proof -
  obtain r s1 p where b: "begin_write True s = (r, s1, p)" by (cases "begin_write True s") auto
  note bc = begin_write_contents [OF b]
  then have s1: "same_contents s s1 n" by (intro same_slots) simp
  show ?thesis
  proof (cases "r = SACCADE_OK")
    case False
    then show ?thesis using b s1 by (auto simp: publish_copy_def same_contents_def split: span_u8.split)
  next
    case True
    note b = b [unfolded True]
    have i1: "store_inv s1" using begin_write_inv [OF assms(1), of True] b by simp
    have init: "st_initialized s1" using begin_write_ok [OF b] by blast
    have p: "mp_data p \<noteq> n" "0 < mp_data p" using begin_write_slot [OF assms(1) b assms(3-5)] by auto
    have w1: "unat (st_writing_slot s1) \<noteq> n" using begin_write_ok_slot [OF assms(1) b] p(1) by simp
    have step: "same_contents s (snd (commit_checked p k ((write_slot (mp_data p) bs s1)\<lparr>st_producer_stats :=
        (st_producer_stats (write_slot (mp_data p) bs s1))\<lparr>ss_copied_bytes := c\<rparr>\<rparr>))) n" for bs c k
    proof -
      let ?s2 = "(write_slot (mp_data p) bs s1)\<lparr>st_producer_stats :=
        (st_producer_stats (write_slot (mp_data p) bs s1))\<lparr>ss_copied_bytes := c\<rparr>\<rparr>"
      have "mp_data p - 1 \<noteq> n - 1" using p assms(3) by linarith
      then have "same_contents s1 ?s2 n" using write_slot_contents [of "mp_data p" n s1 bs] by (simp add: same_contents_def)
      moreover have "store_inv ?s2" by (intro copied_inv write_slot_inv i1) (simp_all add: init write_slot_def)
      then have "same_contents ?s2 (snd (store_commit p k True ?s2)) n"
        by (rule conjunct1 [OF commit_contents]) (simp_all add: init assms w1 write_slot_def)
      ultimately show ?thesis using s1 unfolding commit_checked_def by (blast intro: same_contents_trans)
    qed
    show ?thesis
      using b step s1 abort_write_same
      by (auto simp: publish_copy_def Let_def same_contents_def split: span_u8.split prod.split) (metis snd_conv)+
  qed
qed

text \<open>Reading a written slot back.\<close>

lemma slot_prefix_write:
  assumes "from + n \<le> length bytes"
  shows "map (\<lambda>i. if i < length bytes then bytes ! i else f i) [from..<from + n] = take n (drop from bytes)"
  using assms by (intro nth_equalityI) auto

lemma view_of_packet:
  assumes ok: "validate_packet (Span bytes) True True = (SACCADE_OK, Some v)"
    and sl: "\<And>i. i < length bytes \<Longrightarrow> sl_bytes slot i = bytes ! i"
  shows "fst (get_header (slot_prefix slot 0 header_size)) = pv_header v"
    "fst (get_targets (unat (ph_target_count (pv_header v)))
       (slot_prefix slot (unat (ph_targets_offset (pv_header v))) (unat (ph_target_count (pv_header v)) * target_size))) =
     pv_targets v"
proof -
  from validate_packet_sound [OF ok] obtain slack where wf: "packet_wf v"
    and put: "bytes = put_packet (pv_header v) (pv_targets v) (pv_text v) @ slack" by blast
  let ?n = "unat (ph_target_count (pv_header v))"
  have n: "?n = length (pv_targets v)" and off: "unat (ph_targets_offset (pv_header v)) = header_size"
    using wf header_accepted_fields(1) by (auto simp: packet_wf_def Let_def header_size_def)
  have len: "header_size + ?n * target_size \<le> length bytes" unfolding put by (simp add: n)
  have part: "slot_prefix slot b k = take k (drop b bytes)" if "b + k \<le> length bytes" for b k
    unfolding slot_prefix_def using that sl by (intro nth_equalityI) auto
  have "slot_prefix slot 0 header_size = put_header (pv_header v)"
    using part [of 0 header_size] len unfolding put put_packet_def by simp
  then show "fst (get_header (slot_prefix slot 0 header_size)) = pv_header v"
    using get_put_header [of "pv_header v" "[]"] by simp
  have "slot_prefix slot header_size (?n * target_size) = concat (map put_target (pv_targets v))"
  proof -
    have "length (concat (map put_target (pv_targets v))) = ?n * target_size"
      by (simp add: n length_concat comp_def sum_list_triv)
    then show ?thesis using part [of header_size "?n * target_size"] len unfolding put put_packet_def by simp
  qed
  then show "fst (get_targets ?n (slot_prefix slot (unat (ph_targets_offset (pv_header v))) (?n * target_size))) = pv_targets v"
    using get_put_targets [of "pv_targets v" "[]"] unfolding off n by simp
qed

lemma acquire_latest_ok:
  assumes "st_initialized s" "acquire_return s = (SACCADE_OK, s1)" "st_active_slot (acquire_take s1) \<noteq> 0"
  shows "acquire_latest True old s = (SACCADE_OK, acquire_take s1, Some (active_view old (acquire_take s1)))"
  using assms by (simp add: acquire_latest_def Let_def)

text \<open>A successful copy leaves its bytes in the pending slot and nothing waiting to be returned.\<close>

lemma publish_copy_ok:
  assumes inv: "store_inv s" and ok: "publish_copy (Span bytes) s = (SACCADE_OK, s')"
  shows "\<exists>v. validate_packet (Span bytes) True True = (SACCADE_OK, Some v) \<and> st_pending s' \<noteq> 0 \<and>
    st_returned s' = 0 \<and> st_initialized s' \<and> sl_byte_size (slot_at s' (unat (st_pending s'))) = length bytes \<and>
    (\<forall>i < length bytes. sl_bytes (slot_at s' (unat (st_pending s'))) i = bytes ! i)"
proof -
  obtain r s1 p where b: "begin_write True s = (r, s1, p)" by (cases "begin_write True s") auto
  let ?w = "write_slot (mp_data p) bytes s1"
  let ?s2 = "?w\<lparr>st_producer_stats := (st_producer_stats ?w)\<lparr>
      ss_copied_bytes := ss_copied_bytes (st_producer_stats ?w) + word_of_nat (length bytes)\<rparr>\<rparr>"
  have r: "r = SACCADE_OK" and c: "store_commit p (length bytes) True ?s2 = (SACCADE_OK, s')"
    using ok b by (auto simp: publish_copy_def commit_checked_def Let_def split: if_splits prod.splits)
  note b = b [unfolded r]
  note slot = begin_write_ok_slot [OF inv b]
  have init: "st_initialized s1" using begin_write_ok [OF b] by blast
  have i1: "store_inv s1" using begin_write_inv [OF inv, of True] b by simp
  have len: "length (st_slots s1) = 3" using i1 init by (simp add: store_inv_def)
  have ret: "st_returned s1 = 0" using b by (auto simp: begin_write_def drain_returned_def Let_def split: if_splits)
  have d: "mp_data p \<noteq> 0" "mp_data p - 1 < 3" using slot by (metis neq0_conv unat_eq_0, linarith)
  have "packet_span p (length bytes) ?s2 = Span bytes"
    using d len slot_prefix_write [of 0 "length bytes" bytes "sl_bytes (slot_at s1 (mp_data p))"]
    by (simp add: packet_span_def slot_prefix_def write_slot_def)
  then obtain v where "validate_packet (Span bytes) True True = (SACCADE_OK, Some v)"
    using c by (auto simp: store_commit_def split: if_splits prod.splits saccade_result.splits option.splits)
  moreover have "st_pending s' = mp_slot p" "st_returned s' = 0" "st_initialized s'"
    "st_slots s' = (st_slots ?w)[unat (mp_slot p) - 1 := (slot_at ?w (unat (mp_slot p)))\<lparr>sl_byte_size := length bytes\<rparr>]"
    using c init ret by (auto simp: store_commit_def Let_def write_slot_def split: if_splits)
  ultimately show ?thesis using slot d len by (auto simp: write_slot_def)
qed

subsection \<open>Properties\<close>

text \<open>C6. In every interleaving of producer and consumer steps each of the three slots has exactly
  one owner: it is free, being written, pending, returned, active or retired. So the producer
  never writes a slot the consumer reads. Every published packet is replaced, acquired or still
  pending, and every acquired one is returned, active or retired.\<close>

theorem store_slots_partitioned:
  "let s = foldl store_step fresh_store ops; p = st_producer_stats s; c = st_consumer_stats s in
   if st_initialized s
   then holders s 1 = 1 \<and> holders s 2 = 1 \<and> holders s 3 = 1 \<and>
     ss_published p = ss_replaced p + ss_acquired c + bit64 (st_pending s) \<and>
     ss_acquired c = ss_returned c + bit64 (st_active_slot s) + bit64 (st_retired_slot s)
   else s = fresh_store"
  using store.inv_run [of ops] by (auto simp: store_inv_def slots_held_def store_counts_def Let_def)

text \<open>C18. No step of either side, in any interleaving, changes the contents of the slot the consumer
  reads or of the one it read before: views of the last two acquired packets stay intact.\<close>

theorem store_snapshot_stable:
  "let s = foldl store_step fresh_store ops; a = unat (st_active_slot s); r = unat (st_retired_slot s) in
     (if a = 0 then True else slot_at (store_step s e) a = slot_at s a) \<and>
     (if r = 0 then True else slot_at (store_step s e) r = slot_at s r)"
proof -
  let ?s = "foldl store_step fresh_store ops"
  have inv: "store_inv ?s" by (rule store.inv_run)
  have main: "slot_at (store_step ?s e) n = slot_at ?s n"
    if n: "0 < n" "held_by (st_active_slot ?s) n + held_by (st_retired_slot ?s) n \<noteq> 0" for n
  proof -
    have init: "st_initialized ?s"
      using n inv by (auto simp: store_inv_def fresh_store_def held_by_def split: if_splits)
    then have le: "n \<le> 3" using n inv by (auto simp: store_inv_def owners_small_def held_by_def split: if_splits)
    note apart = held_apart [OF inv init n(1) le n(2)]
    have m: "same_contents ?s (store_step ?s e) n"
    proof (cases e)
      case (Store_initialize a b c)
      then show ?thesis using init by (simp add: store_initialize_def same_slots)
    next
      case Begin_write
      then show ?thesis using begin_write_contents [of True ?s] by (cases "begin_write True ?s") (auto intro: same_slots)
    next
      case (Fill bytes)
      have "unat (st_writing_slot ?s) - 1 \<noteq> n - 1" if "st_writing_slot ?s \<noteq> 0"
        using apart(1) n(1) that by (metis One_nat_def Suc_pred neq0_conv unat_eq_0)
      then show ?thesis using Fill by (auto simp: same_slots intro: write_slot_contents)
    next
      case (Commit p k checked)
      then show ?thesis using commit_contents [OF inv init n(1) le apart(1)] by simp
    next
      case (Publish_copy span)
      then show ?thesis using publish_copy_contents [OF inv init n(1) le n(2)] by simp
    qed (auto simp: abort_write_same acquire_return_def acquire_take_def Let_def intro: same_slots)
    then show ?thesis by (simp add: same_contents_def)
  qed
  have h: "held_by w (unat w) = 1" for w by (simp add: held_by_def)
  show ?thesis unfolding Let_def
    using main [of "unat (st_active_slot ?s)"] main [of "unat (st_retired_slot ?s)"] h by (simp add: neq0_conv)
qed

text \<open>C34. A copy that succeeds published a valid desktop packet, and the next acquisition succeeds
  with a view of exactly that packet's header, targets and size; but the view of a default
  argument has no text, whatever text the published packet carries.\<close>

theorem publish_then_acquire:
  "let s = foldl store_step fresh_store ops; (published, s1) = publish_copy (Span bytes) s;
       (acquired, s2, view) = acquire_latest True None s1
   in if published = SACCADE_OK
      then acquired = SACCADE_OK \<and>
        (\<exists>v out. validate_packet (Span bytes) True True = (SACCADE_OK, Some v) \<and> view = Some out \<and>
          pv_header out = pv_header v \<and> pv_targets out = pv_targets v \<and> pv_byte_size out = length bytes \<and>
          pv_text out = [])
      else st_pending s1 = st_pending s \<and> st_active_slot s1 = st_active_slot s"
proof -
  let ?s = "foldl store_step fresh_store ops"
  have inv: "store_inv ?s" by (rule store.inv_run)
  obtain r s1 where p: "publish_copy (Span bytes) ?s = (r, s1)" by fastforce
  obtain a s2 view where a: "acquire_latest True None s1 = (a, s2, view)" by (cases "acquire_latest True None s1") auto
  show ?thesis
  proof (cases "r = SACCADE_OK")
    case False
    have "st_pending s1 = st_pending ?s \<and> st_active_slot s1 = st_active_slot ?s"
      using p False by (auto simp: publish_copy_def begin_write_def producer_busy_def drain_returned_def commit_checked_def
          store_commit_def abort_write_def write_slot_def Let_def split: if_splits prod.splits)
    then show ?thesis using False p a by simp
  next
    case True
    from publish_copy_ok [OF inv p [unfolded True]] obtain v where v: "validate_packet (Span bytes) True True = (SACCADE_OK, Some v)"
      and s1: "st_pending s1 \<noteq> 0" "st_returned s1 = 0" "st_initialized s1"
      and slot: "sl_byte_size (slot_at s1 (unat (st_pending s1))) = length bytes"
        "\<And>i. i < length bytes \<Longrightarrow> sl_bytes (slot_at s1 (unat (st_pending s1))) i = bytes ! i" by blast
    let ?t = "acquire_take (snd (acquire_return s1))"
    have t: "st_active_slot ?t = st_pending s1" "st_slots ?t = st_slots s1"
      using s1 by (auto simp: acquire_take_def acquire_return_def Let_def)
    have "acquire_return s1 = (SACCADE_OK, snd (acquire_return s1))" using s1(2) by (simp add: acquire_return_def)
    then have "acquire_latest True None s1 = (SACCADE_OK, ?t, Some (active_view None ?t))"
      using s1 t(1) by (intro acquire_latest_ok) simp_all
    moreover have "pv_header (active_view None ?t) = pv_header v" "pv_targets (active_view None ?t) = pv_targets v"
      "pv_byte_size (active_view None ?t) = length bytes" "pv_text (active_view None ?t) = []"
      unfolding active_view_def Let_def t using view_of_packet [OF v slot(2)] slot(1) by simp_all
    ultimately show ?thesis using True p a v by auto
  qed
qed

text \<open>Three rounds of publish and acquire: the third acquisition hands one slot back and keeps
  another retired.\<close>

definition publish_acquire_round :: "nat \<Rightarrow> store_op list" where
  "publish_acquire_round n = [Begin_write,
     Commit \<lparr>mp_data = n, mp_capacity = target_packet_max_bytes, mp_slot = word_of_nat n\<rparr> header_size False,
     Acquire_return, Acquire_take]"

definition three_rounds :: "store_op list" where
  "three_rounds = Store_initialize empty_slot empty_slot empty_slot # publish_acquire_round 1 @
     publish_acquire_round 2 @ publish_acquire_round 3"

lemma acquire_blocked:
  assumes "st_initialized s" "st_retired_slot s \<noteq> 0" "st_returned s \<noteq> 0"
  shows "acquire_latest True old s = (SACCADE_ERROR_STATE, s, old)" "store_step s Acquire_return = s"
  using assms by (simp_all add: acquire_latest_def acquire_return_def)

lemma countr_zero_small: "countr_zero 7 = 0" "countr_zero 6 = 1" "countr_zero 4 = 2"
  by code_simp+

lemma three_rounds_state:
  "(let s = foldl store_step fresh_store three_rounds in
     (st_initialized s, st_active_slot s, st_retired_slot s, st_returned s, st_pending s, st_writing_slot s)) =
   (True, 3, 2, 1, 0, 0)"
  by (simp add: three_rounds_def publish_acquire_round_def fresh_store_def op_defs Let_def countr_zero_small
      header_size_def target_packet_max_bytes_def target_size_def)

lemma three_rounds_blocked:
  "acquire_latest True old (foldl store_step fresh_store three_rounds) =
     (SACCADE_ERROR_STATE, foldl store_step fresh_store three_rounds, old)"
  using three_rounds_state by (intro acquire_blocked(1)) (simp_all add: Let_def)

text \<open>A slot is retired only behind an active one.\<close>

abbreviation serving :: "scene_store \<Rightarrow> u32 \<times> u32" where
  "serving s \<equiv> (st_active_slot s, st_retired_slot s)"

lemma commit_serving: "serving (snd (store_commit p n checked s)) = serving s"
  by (auto simp: store_commit_def Let_def split: if_splits)

lemma abort_serving: "serving (snd (abort_write p s)) = serving s"
  by (simp add: abort_write_def)

lemma publish_copy_serving: "serving (snd (publish_copy span s)) = serving s"
proof (cases span)
  case (Span bytes)
  obtain r t pk where b: "begin_write True s = (r, t, pk)" by (metis prod_cases3)
  have same: "serving t = serving s" using begin_write_contents [OF b] by simp
  let ?w = "(write_slot (mp_data pk) bytes t)\<lparr>st_producer_stats := (st_producer_stats (write_slot (mp_data pk) bytes t))\<lparr>
      ss_copied_bytes := ss_copied_bytes (st_producer_stats (write_slot (mp_data pk) bytes t)) + word_of_nat (length bytes)\<rparr>\<rparr>"
  obtain r' u where c: "commit_checked pk (length bytes) ?w = (r', u)" by fastforce
  have "serving u = serving ?w" using commit_serving [of pk "length bytes" True ?w] c by (simp add: commit_checked_def)
  then have u: "serving u = serving s" using same by (simp add: write_slot_def)
  have "snd (publish_copy span s) \<in> {s, t, u, snd (abort_write pk u)}"
    unfolding Span publish_copy_def span_u8.case b prod.case Let_def c by simp
  then show ?thesis using same u abort_serving [of pk u] by auto
qed (simp add: publish_copy_def)

lemma retired_behind_active:
  assumes "st_retired_slot s = 0 \<or> st_active_slot s \<noteq> 0"
  shows "st_retired_slot (store_step s e) = 0 \<or> st_active_slot (store_step s e) \<noteq> 0"
proof -
  have keep: ?thesis if "serving (store_step s e) = serving s" using that assms by simp
  show ?thesis
  proof (cases e)
    case Begin_write
    then show ?thesis using begin_write_contents [of True s] by (intro keep) (cases "begin_write True s", auto)
  next
    case (Abort_write packet)
    show ?thesis by (rule keep) (unfold Abort_write store_step.simps, rule abort_serving)
  next
    case (Commit packet byte_size checked)
    show ?thesis by (rule keep) (unfold Commit store_step.simps, rule commit_serving)
  next
    case (Publish_copy span)
    show ?thesis by (rule keep) (unfold Publish_copy store_step.simps, rule publish_copy_serving)
  qed (use assms in \<open>auto simp: store_initialize_def write_slot_def acquire_return_def acquire_take_def Let_def\<close>)
qed

interpretation store_retired: invariant_machine fresh_store store_step "\<lambda>s. st_retired_slot s = 0 \<or> st_active_slot s \<noteq> 0"
  by unfold_locales (simp add: fresh_store_def, rule retired_behind_active)

text \<open>With one slot active, one retired and one returned, no slot is left for the producer.\<close>

lemma blocked_slots:
  assumes "store_inv s" "st_retired_slot s \<noteq> 0" "st_returned s \<noteq> 0" "st_active_slot s \<noteq> 0"
  shows "st_initialized s" "st_pending s = 0" "st_writing_slot s = 0" "st_free_mask s = 0"
proof -
  show init: "st_initialized s" using assms(1,2) by (auto simp: store_inv_def fresh_store_def split: if_splits)
  have held: "holders s k = 1" if "k \<noteq> 0" "k \<le> 3" for k
    using assms(1) init that by (intro slots_heldD) (simp_all add: store_inv_def)
  have small: "owners_small s" using assms(1) init by (simp add: store_inv_def)
  let ?o = "{unat (st_retired_slot s), unat (st_returned s), unat (st_active_slot s)}"
  have in3: "?o \<subseteq> {1, 2, 3}" using small assms(2-4) by (auto simp: owners_small_def unat_eq_0 le_Suc_eq numeral_eq_Suc)
  have apart: "unat (st_retired_slot s) \<noteq> unat (st_returned s)" "unat (st_retired_slot s) \<noteq> unat (st_active_slot s)"
    "unat (st_returned s) \<noteq> unat (st_active_slot s)"
    using held [of "unat (st_retired_slot s)"] held [of "unat (st_returned s)"] small assms(2-4)
    by (auto simp: owners_small_def holders_def held_by_def unat_eq_0 split: if_splits)
  then have "card ?o = card {1, 2, 3 :: nat}" by simp
  then have all: "?o = {1, 2, 3}" using in3 by (intro card_subset_eq) simp_all
  have none: "unat (st_pending s) \<noteq> k \<and> unat (st_writing_slot s) \<noteq> k \<and> \<not> bit (st_free_mask s) (k - 1)" if "k \<in> {1, 2, 3}" for k
  proof -
    have "k \<in> ?o" using that all by simp
    then show ?thesis using held [of k] that by (auto simp: holders_def held_by_def free_slot_def split: if_splits)
  qed
  have le: "unat (st_pending s) \<le> 3" "unat (st_writing_slot s) \<le> 3" using small by (simp_all add: owners_small_def)
  have "unat (st_pending s) = 0" "unat (st_writing_slot s) = 0"
    using none [of 1] none [of 2] none [of 3] le by (auto simp: le_Suc_eq numeral_eq_Suc)
  then show "st_pending s = 0" "st_writing_slot s = 0" by (simp_all add: unat_eq_0)
  have "\<not> bit (st_free_mask s) n" for n
  proof (cases "n < 3")
    case True
    then have "n + 1 \<in> {1, 2, 3}" by auto
    from none [OF this] show ?thesis by simp
  next
    case False
    then show ?thesis using small by (simp add: owners_small_def)
  qed
  then show "st_free_mask s = 0" by (simp add: bit_eq_iff)
qed

text \<open>The calls by which the producer claims a slot.\<close>

definition claims_slot :: "store_op \<Rightarrow> bool" where
  "claims_slot e \<longleftrightarrow> (case e of Begin_write \<Rightarrow> True | Publish_copy _ \<Rightarrow> True | _ \<Rightarrow> False)"

lemma blocked_step:
  assumes "st_initialized s" "st_retired_slot s \<noteq> 0" "st_returned s \<noteq> 0" "st_writing_slot s = 0" "\<not> claims_slot e"
  shows "store_step s e = s"
  using assms by (cases e) (auto simp: claims_slot_def store_initialize_def abort_write_def store_commit_def acquire_return_def)

lemma blocked_run:
  assumes "st_initialized s" "st_retired_slot s \<noteq> 0" "st_returned s \<noteq> 0" "st_writing_slot s = 0"
  shows "foldl store_step s (filter (\<lambda>e. \<not> claims_slot e) later) = s"
  using blocked_step [OF assms] by (induction later) simp_all

text \<open>C35. When the reader is served, in every interleaving: it gets the state error exactly while the
  slot it retired cannot be handed back because the one before it was not drained, no packet exactly
  when none was ever pending, and its packet otherwise. The state error changes nothing, although
  the reader holds an active packet; then active, retired and returned packet fill the store, and
  every call of either side leaves it as it is, except those by which the producer claims a slot
  for writing. The first such call succeeds, and the reader is served again the packet it has: with
  an idle producer a polling reader is refused for ever.\<close>

theorem reader_starves_without_producer:
  "let s = foldl store_step fresh_store ops; (result, s', out) = acquire_latest True old s;
       blocked = (st_retired_slot s \<noteq> 0 \<and> st_returned s \<noteq> 0);
       (begun, claimed, packet) = begin_write True s; (again, s'', out'') = acquire_latest True old claimed in
   result = (if st_initialized s
     then if blocked then SACCADE_ERROR_STATE
       else if st_active_slot s = 0 \<and> st_pending s = 0 then SACCADE_ERROR_NOT_FOUND else SACCADE_OK
     else SACCADE_ERROR_INVALID_ARGUMENT) \<and>
   (if blocked
    then s' = s \<and> out = old \<and> st_active_slot s \<noteq> 0 \<and> (st_pending s, st_writing_slot s, st_free_mask s) = (0, 0, 0) \<and>
      foldl store_step s (filter (\<lambda>e. \<not> claims_slot e) later) = s \<and>
      begun = SACCADE_OK \<and> again = SACCADE_OK \<and> st_active_slot s'' = st_active_slot s
    else True)"
proof -
  define s where "s = foldl store_step fresh_store ops"
  note inv = store.inv_run [of ops, folded s_def]
  note behind = store_retired.inv_run [of ops, folded s_def]
  have ne: "m OR push_bit n (1 :: u32) \<noteq> 0" if "n < 32" for m n
    using that unit_bit [of n n] by (auto simp: or_eq_0_iff)
  show ?thesis
  proof (cases "st_retired_slot s \<noteq> 0 \<and> st_returned s \<noteq> 0")
    case True
    then have active: "st_active_slot s \<noteq> 0" using behind by blast
    note slots = blocked_slots [OF inv _ _ active]
    have b: "st_initialized s" "st_pending s = 0" "st_writing_slot s = 0" "st_free_mask s = 0" using True slots by blast+
    have acquire: "acquire_latest True old s = (SACCADE_ERROR_STATE, s, old)" using acquire_blocked(1) b(1) True by blast
    have "unat (st_returned s) \<le> 3" using inv b(1) by (simp add: store_inv_def owners_small_def)
    then have "unat (st_returned s - 1) < 32" using True by (simp add: pred_slot)
    then have "push_bit (unat (st_returned s - 1)) (1 :: u32) \<noteq> 0" using ne [of _ 0] by simp
    then obtain claimed packet where c: "begin_write True s = (SACCADE_OK, claimed, packet)"
      "st_initialized claimed" "st_returned claimed = 0" "st_active_slot claimed = st_active_slot s" "st_pending claimed = 0"
      using b True by (auto simp: begin_write_def drain_returned_def Let_def)
    have "\<exists>s'' out''. acquire_latest True old claimed = (SACCADE_OK, s'', out'') \<and> st_active_slot s'' = st_active_slot s"
      using c(2-5) active by (simp add: acquire_latest_def acquire_return_def acquire_take_def Let_def)
    then obtain s'' out'' where "acquire_latest True old claimed = (SACCADE_OK, s'', out'')" "st_active_slot s'' = st_active_slot s"
      by blast
    then show ?thesis unfolding s_def [symmetric] Let_def acquire c(1) prod.case
      using b active True blocked_run [of s later] by simp
  next
    case False
    then show ?thesis unfolding s_def [symmetric]
      by (auto simp: acquire_latest_def acquire_return_def acquire_take_def Let_def split: prod.split)
  qed
qed

end
