(* ===== verification/Display_Catalog.thy ===== *)
theory Display_Catalog
  imports Coordinate_Transform
begin

text \<open>
  The display topology of \<open>src/geometry/display_catalog.cpp\<close>: a snapshot of at most 16
  validated displays sorted by id, with an epoch that moves when the topology changes, and the
  transform from the desktop to a display's backing surface.
\<close>

definition display_capacity :: nat where "display_capacity = 16"

abbreviation DISPLAY_SURFACE_MAIN :: u32 where "DISPLAY_SURFACE_MAIN \<equiv> 1"
abbreviation DISPLAY_SURFACE_BUILTIN :: u32 where "DISPLAY_SURFACE_BUILTIN \<equiv> 2"
abbreviation DISPLAY_SURFACE_ACTIVE :: u32 where "DISPLAY_SURFACE_ACTIVE \<equiv> 4"
abbreviation DISPLAY_SURFACE_ASLEEP :: u32 where "DISPLAY_SURFACE_ASLEEP \<equiv> 8"
abbreviation DISPLAY_SURFACE_MIRRORED :: u32 where "DISPLAY_SURFACE_MIRRORED \<equiv> 16"
abbreviation DISPLAY_TOPOLOGY_SEPARATE_SPACES :: u32 where "DISPLAY_TOPOLOGY_SEPARATE_SPACES \<equiv> 1"

record insets_q8 =
  in_top :: i32
  in_left :: i32
  in_bottom :: i32
  in_right :: i32

record display_surface =
  di_display_id :: u64
  di_desktop_bounds :: rect_q8
  di_work_bounds :: rect_q8
  di_safe_insets :: insets_q8
  di_backing_width :: u32
  di_backing_height :: u32
  di_maximum_fps :: u32
  di_rotation :: quarter_turn
  di_flags :: u32
  di_reserved :: u32

text \<open>The first \<open>cnt\<close> entries of the snapshot's array; \<open>cnt\<close> is the length.\<close>

record display_snapshot =
  sn_epoch :: u64
  sn_flags :: u32
  sn_displays :: "display_surface list"

record display_catalog =
  dc_snapshot :: display_snapshot
  dc_next_epoch :: u64

definition fresh_catalog :: display_catalog where
  "fresh_catalog = \<lparr>dc_snapshot = \<lparr>sn_epoch = 0, sn_flags = 0, sn_displays = []\<rparr>, dc_next_epoch = 1\<rparr>"

definition surface_flag_mask :: u32 where
  "surface_flag_mask = DISPLAY_SURFACE_MAIN OR DISPLAY_SURFACE_BUILTIN OR DISPLAY_SURFACE_ACTIVE OR
     DISPLAY_SURFACE_ASLEEP OR DISPLAY_SURFACE_MIRRORED"

definition topology_flag_mask :: u32 where
  "topology_flag_mask = DISPLAY_TOPOLOGY_SEPARATE_SPACES"

definition maximum_backing_extent :: u32 where
  "maximum_backing_extent = drop_bit 8 0x7FFFFFFF"

definition surface_valid :: "display_surface \<Rightarrow> bool" where
  "surface_valid d \<longleftrightarrow> di_display_id d \<noteq> 0 \<and> rect_valid (di_desktop_bounds d) \<and> rect_valid (di_work_bounds d) \<and>
     rect_contains (di_desktop_bounds d) (di_work_bounds d) \<and>
     (let i = di_safe_insets d in sint (in_top i) \<ge> 0 \<and> sint (in_left i) \<ge> 0 \<and> sint (in_bottom i) \<ge> 0 \<and>
        sint (in_right i) \<ge> 0 \<and>
        sint (in_left i) + sint (in_right i) \<le> sint (rc_width (di_desktop_bounds d)) \<and>
        sint (in_top i) + sint (in_bottom i) \<le> sint (rc_height (di_desktop_bounds d))) \<and>
     di_backing_width d \<noteq> 0 \<and> di_backing_height d \<noteq> 0 \<and> di_backing_width d \<le> maximum_backing_extent \<and>
     di_backing_height d \<le> maximum_backing_extent \<and> di_maximum_fps d \<noteq> 0 \<and> rotation_valid (di_rotation d) \<and>
     di_flags d AND NOT surface_flag_mask = 0 \<and> di_reserved d = 0"

text \<open>\<open>sort_displays\<close>: in place, by display id.\<close>

definition sort_displays :: "display_surface list \<Rightarrow> display_surface list" where
  "sort_displays ds = loop_sort (\<lambda>value left. di_display_id left > di_display_id value) ds"

definition is_main :: "display_surface \<Rightarrow> bool" where
  "is_main d \<longleftrightarrow> di_flags d AND DISPLAY_SURFACE_MAIN \<noteq> 0"

fun adjacent_equal_ids :: "display_surface list \<Rightarrow> bool" where
  "adjacent_equal_ids (a # b # ds) = (di_display_id a = di_display_id b \<or> adjacent_equal_ids (b # ds))"
| "adjacent_equal_ids _ = False"

definition catalog_publish ::
  "display_surface list option \<Rightarrow> u32 \<Rightarrow> display_catalog \<Rightarrow> saccade_result \<times> display_catalog" where
  "catalog_publish displays flags c =
     (if (case displays of None \<Rightarrow> False | Some ds \<Rightarrow> length ds > display_capacity) then (SACCADE_ERROR_CAPACITY, c)
      else case displays of
        None \<Rightarrow> (SACCADE_ERROR_INVALID_ARGUMENT, c)
      | Some ds \<Rightarrow>
          if length ds = 0 \<or> flags AND NOT topology_flag_mask \<noteq> 0 then (SACCADE_ERROR_INVALID_ARGUMENT, c)
          else if \<not> list_all surface_valid ds \<or> length (filter is_main ds) \<noteq> 1 then (SACCADE_ERROR_INVALID_ARGUMENT, c)
          else let sorted = sort_displays ds in
            if adjacent_equal_ids sorted then (SACCADE_ERROR_INVALID_ARGUMENT, c)
            else if sn_displays (dc_snapshot c) = sorted \<and> sn_flags (dc_snapshot c) = flags then (SACCADE_OK, c)
            else if dc_next_epoch c = 0 then (SACCADE_ERROR_STATE, c)
            else (SACCADE_OK, c\<lparr>dc_snapshot := \<lparr>sn_epoch = dc_next_epoch c, sn_flags = flags, sn_displays = sorted\<rparr>,
                               dc_next_epoch := dc_next_epoch c + 1\<rparr>))"

text \<open>The binary search of \<open>find\<close>.\<close>

function catalog_search :: "u64 \<Rightarrow> display_surface list \<Rightarrow> nat \<Rightarrow> nat \<Rightarrow> display_surface option" where
  "catalog_search display_id ds first cnt =
     (if cnt = 0 then None
      else let step = cnt div 2; index = first + step; candidate = di_display_id (ds ! index)
      in if candidate < display_id then catalog_search display_id ds (index + 1) (cnt - (step + 1))
         else if candidate > display_id then catalog_search display_id ds first step
         else Some (ds ! index))"
  by pat_completeness auto
termination by (relation "measure (\<lambda>(i, ds, first, cnt). cnt)") auto

declare catalog_search.simps [simp del]

definition catalog_find :: "u64 \<Rightarrow> display_catalog \<Rightarrow> display_surface option" where
  "catalog_find display_id c =
     catalog_search display_id (sn_displays (dc_snapshot c)) 0 (length (sn_displays (dc_snapshot c)))"

definition make_desktop_to_surface_transform ::
  "display_surface \<Rightarrow> u64 \<Rightarrow> bool \<Rightarrow> coordinate_transform \<Rightarrow> saccade_result \<times> coordinate_transform" where
  "make_desktop_to_surface_transform display epoch output old =
     (if \<not> surface_valid display \<or> epoch = 0 \<or> \<not> output then (SACCADE_ERROR_INVALID_ARGUMENT, old)
      else transform_initialize (default_desc\<lparr>td_source := di_desktop_bounds display,
          td_destination := \<lparr>rc_x = 0, rc_y = 0, rc_width = push_bit 8 (di_backing_width display),
                             rc_height = push_bit 8 (di_backing_height display)\<rparr>,
          td_epoch := epoch, td_source_space := Space_desktop, td_destination_space := Space_surface,
          td_rotation := Clockwise_0\<rparr>) old)"

subsection \<open>Executions\<close>

fun catalog_step :: "display_catalog \<Rightarrow> display_surface list option \<times> u32 \<Rightarrow> display_catalog" where
  "catalog_step c (displays, flags) = snd (catalog_publish displays flags c)"

definition strictly_sorted_ids :: "display_surface list \<Rightarrow> bool" where
  "strictly_sorted_ids ds \<longleftrightarrow> sorted_wrt (\<lambda>a b. di_display_id a < di_display_id b) ds"

definition catalog_inv :: "display_catalog \<Rightarrow> bool" where
  "catalog_inv c \<longleftrightarrow> (let s = dc_snapshot c in
     strictly_sorted_ids (sn_displays s) \<and> length (sn_displays s) \<le> display_capacity \<and>
     list_all surface_valid (sn_displays s) \<and> dc_next_epoch c = sn_epoch s + 1 \<and>
     (if sn_displays s = [] then c = fresh_catalog
      else length (filter is_main (sn_displays s)) = 1))"

lemma adjacent_sorted:
  "sorted_wrt (\<lambda>a b. di_display_id a \<le> di_display_id b) ds \<Longrightarrow> \<not> adjacent_equal_ids ds \<Longrightarrow> strictly_sorted_ids ds"
  unfolding strictly_sorted_ids_def
proof (induction ds rule: adjacent_equal_ids.induct)
  case (1 a b ds)
  then have s: "sorted_wrt (\<lambda>a b. di_display_id a < di_display_id b) (b # ds)" by simp
  have "di_display_id a < di_display_id b" using 1 by (auto simp: order.strict_iff_order)
  then show ?case using s by auto
qed simp_all

lemma catalog_publish_inv: "catalog_inv c \<Longrightarrow> catalog_inv (snd (catalog_publish displays flags c))"
proof (cases "snd (catalog_publish displays flags c) = c")
  case False
  then obtain ds where ds: "displays = Some ds" "length ds \<le> display_capacity" "length ds \<noteq> 0" "list_all surface_valid ds"
    "length (filter is_main ds) = 1" "\<not> adjacent_equal_ids (sort_displays ds)"
    and c: "snd (catalog_publish displays flags c) = c\<lparr>dc_snapshot :=
        \<lparr>sn_epoch = dc_next_epoch c, sn_flags = flags, sn_displays = sort_displays ds\<rparr>, dc_next_epoch := dc_next_epoch c + 1\<rparr>"
    by (auto simp: catalog_publish_def Let_def split: option.splits if_splits)
  have "sorted_wrt (\<lambda>a b. di_display_id a \<le> di_display_id b) (sort_displays ds)"
    unfolding sort_displays_def by (rule sorted_loop_sort) simp
  then have "strictly_sorted_ids (sort_displays ds)" using ds(6) by (rule adjacent_sorted)
  moreover have "mset (filter is_main (sort_displays ds)) = mset (filter is_main ds)"
    by (simp add: sort_displays_def)
  then have "length (filter is_main (sort_displays ds)) = 1" using ds(5) by (metis size_mset)
  ultimately show ?thesis using ds unfolding c catalog_inv_def Let_def
    by (auto simp: sort_displays_def list_all_iff)
qed simp

lemma catalog_inv_start: "catalog_inv fresh_catalog"
  by (simp add: catalog_inv_def fresh_catalog_def strictly_sorted_ids_def Let_def)

lemma catalog_step_inv: "catalog_inv c \<Longrightarrow> catalog_inv (catalog_step c e)"
  by (cases e) (simp add: catalog_publish_inv)

interpretation catalog: invariant_machine fresh_catalog catalog_step catalog_inv
  by unfold_locales (auto intro: catalog_inv_start catalog_step_inv)

subsection \<open>Search\<close>

lemma find_sorted_unique:
  assumes "strictly_sorted_ids ds" "i < length ds" "di_display_id (ds ! i) = k"
  shows "List.find (\<lambda>d. di_display_id d = k) ds = Some (ds ! i)"
proof -
  have "di_display_id (ds ! j) \<noteq> k" if "j < i" for j
    using assms that unfolding strictly_sorted_ids_def sorted_wrt_iff_nth_less by (metis less_irrefl)
  then show ?thesis using assms(2,3) unfolding find_Some_iff by (intro exI [of _ i]) simp
qed

text \<open>The search window covers every index that can hold the id.\<close>

lemma catalog_search_correct:
  assumes "strictly_sorted_ids ds" "first + cnt \<le> length ds"
    "\<forall>j < first. di_display_id (ds ! j) < k"
    "\<forall>j. first + cnt \<le> j \<and> j < length ds \<longrightarrow> k < di_display_id (ds ! j)"
  shows "catalog_search k ds first cnt = List.find (\<lambda>d. di_display_id d = k) ds"
  using assms(2-)
proof (induction cnt arbitrary: first rule: less_induct)
  case (less cnt)
  note less_id = assms(1) [unfolded strictly_sorted_ids_def sorted_wrt_iff_nth_less, rule_format]
  show ?case
  proof (cases "cnt = 0")
    case True
    have "\<forall>j < length ds. di_display_id (ds ! j) \<noteq> k"
    proof (intro allI impI)
      fix j assume "j < length ds"
      then show "di_display_id (ds ! j) \<noteq> k"
        using less.prems True by (cases "j < first") (auto simp: not_less)
    qed
    then have "List.find (\<lambda>d. di_display_id d = k) ds = None"
      by (auto simp: in_set_conv_nth)
    moreover have "catalog_search k ds first cnt = None" using True by (simp add: catalog_search.simps)
    ultimately show ?thesis by (simp only:)
  next
    case False
    define index where "index = first + cnt div 2"
    have step: "cnt div 2 < cnt" "cnt - (cnt div 2 + 1) < cnt" using False by simp_all
    have i: "index < length ds" "first \<le> index" using less.prems(1) step by (simp_all add: index_def)
    show ?thesis
    proof (cases "di_display_id (ds ! index)" k rule: linorder_cases)
      case less
      have "catalog_search k ds (index + 1) (cnt - (cnt div 2 + 1)) = List.find (\<lambda>d. di_display_id d = k) ds"
      proof (rule less.IH [OF step(2)])
        show "index + 1 + (cnt - (cnt div 2 + 1)) \<le> length ds" using less.prems(1) step by (simp add: index_def)
        show "\<forall>j < index + 1. di_display_id (ds ! j) < k"
        proof (intro allI impI)
          fix j assume "j < index + 1"
          then show "di_display_id (ds ! j) < k"
            using less less_id [of j index] i by (cases "j = index") auto
        qed
        show "\<forall>j. index + 1 + (cnt - (cnt div 2 + 1)) \<le> j \<and> j < length ds \<longrightarrow> k < di_display_id (ds ! j)"
          using less.prems(3) step by (auto simp: index_def)
      qed
      then show ?thesis using less False by (subst catalog_search.simps) (simp add: index_def Let_def)
    next
      case equal
      then show ?thesis using False find_sorted_unique [OF assms(1) i(1) equal]
        by (subst catalog_search.simps) (simp add: index_def Let_def)
    next
      case greater
      have "catalog_search k ds first (cnt div 2) = List.find (\<lambda>d. di_display_id d = k) ds"
      proof (rule less.IH [OF step(1)])
        show "first + cnt div 2 \<le> length ds" using less.prems(1) step by simp
        show "\<forall>j < first. di_display_id (ds ! j) < k" by (rule less.prems(2))
        show "\<forall>j. first + cnt div 2 \<le> j \<and> j < length ds \<longrightarrow> k < di_display_id (ds ! j)"
        proof (intro allI impI)
          fix j assume "first + cnt div 2 \<le> j \<and> j < length ds"
          then show "k < di_display_id (ds ! j)"
            using greater less_id [of index j] by (cases "j = index") (auto simp: index_def)
        qed
      qed
      moreover have "\<not> di_display_id (ds ! index) < k" using greater by (rule less_not_sym)
      ultimately show ?thesis using greater False by (subst catalog_search.simps) (simp add: index_def Let_def)
    qed
  qed
qed

lemma desktop_surface_rect:
  assumes "surface_valid d"
  shows "rect_valid \<lparr>rc_x = 0, rc_y = 0, rc_width = push_bit 8 (di_backing_width d), rc_height = push_bit 8 (di_backing_height d)\<rparr>"
proof -
  have "0 < sint (push_bit 8 w :: i32)" if "w \<noteq> 0" "w \<le> maximum_backing_extent" for w :: u32
  proof -
    have le: "unat w \<le> 8388607" using that(2) by (simp add: maximum_backing_extent_def word_le_nat_alt)
    have "push_bit 8 w = word_of_int (int (unat w * 256))" by (simp add: push_bit_eq_mult)
    moreover have "sint (word_of_int (int (unat w * 256)) :: i32) = int (unat w * 256)"
      using le by (intro sint_word_of_int32) linarith+
    moreover have "0 < uint w" using that(1) by (metis uint_0_iff uint_ge_0 order_le_less)
    ultimately show ?thesis by simp
  qed
  then show ?thesis using assms by (simp add: rect_valid_bounds surface_valid_def)
qed

subsection \<open>Properties\<close>

text \<open>In every execution the binary search of the catalog agrees with a linear search of the
  snapshot: it finds the display with the id if there is one, and nothing otherwise. It
  terminates, and reads only entries of the snapshot.\<close>

theorem catalog_find_exact:
  "catalog_find k (foldl catalog_step fresh_catalog ops) =
     List.find (\<lambda>d. di_display_id d = k) (sn_displays (dc_snapshot (foldl catalog_step fresh_catalog ops)))"
  using catalog.inv_run [of ops] unfolding catalog_find_def catalog_inv_def Let_def
  by (intro catalog_search_correct) auto

text \<open>C37. Publishing either leaves the catalog as it was, or succeeds with a different topology and
  the next epoch: epochs never repeat or run backwards, and every published snapshot holds
  between one and 16 valid displays with distinct ascending ids and exactly one main display.\<close>

theorem catalog_epochs_increase:
  "let c = foldl catalog_step fresh_catalog ops; (result, c') = catalog_publish displays flags c;
       s = dc_snapshot c; s' = dc_snapshot c' in
   if c' = c then True else
   (result = SACCADE_OK \<and> unat (sn_epoch s') = unat (sn_epoch s) + 1 \<and>
    (sn_displays s', sn_flags s') \<noteq> (sn_displays s, sn_flags s) \<and>
    0 < length (sn_displays s') \<and> length (sn_displays s') \<le> display_capacity \<and>
    list_all surface_valid (sn_displays s') \<and> strictly_sorted_ids (sn_displays s') \<and>
    length (filter is_main (sn_displays s')) = 1)"
proof -
  let ?c = "foldl catalog_step fresh_catalog ops"
  obtain result c' where p: "catalog_publish displays flags ?c = (result, c')" by fastforce
  have inv: "catalog_inv ?c" by (rule catalog.inv_run)
  have inv': "catalog_inv c'" using catalog_publish_inv [OF inv, of displays flags] p by simp
  show ?thesis
  proof (cases "c' = ?c")
    case True
    then show ?thesis using p by simp
  next
    case False
    have r: "result = SACCADE_OK" "dc_next_epoch ?c \<noteq> 0" "sn_epoch (dc_snapshot c') = dc_next_epoch ?c"
      "sn_displays (dc_snapshot c') \<noteq> []"
      "sn_displays (dc_snapshot c') \<noteq> sn_displays (dc_snapshot ?c) \<or> sn_flags (dc_snapshot c') \<noteq> sn_flags (dc_snapshot ?c)"
      using p False by (auto simp: catalog_publish_def Let_def sort_displays_def split: option.splits if_splits
          dest: arg_cong [of _ "[]" length])
    have "dc_next_epoch ?c = sn_epoch (dc_snapshot ?c) + 1" using inv by (simp add: catalog_inv_def Let_def)
    then have "unat (sn_epoch (dc_snapshot c')) = unat (sn_epoch (dc_snapshot ?c)) + 1"
      using r(2,3) by (metis Suc_eq_plus1 unat_word_ariths(1) add.commute unatSuc)
    then show ?thesis using p False r inv' by (simp add: catalog_inv_def Let_def)
  qed
qed

text \<open>Every display the catalog finds, in any execution, has a transform from the desktop to its
  backing surface for every nonzero epoch, and rectangles mapped through it stay inside the
  backing surface.\<close>

theorem found_display_transforms:
  "case catalog_find k (foldl catalog_step fresh_catalog ops) of
     None \<Rightarrow> True
   | Some d \<Rightarrow>
       di_display_id d = k \<and>
       (let (result, t) = make_desktop_to_surface_transform d epoch True fresh_transform in
        if epoch = 0 then result = SACCADE_ERROR_INVALID_ARGUMENT
        else result = SACCADE_OK \<and>
          (case map_rect_clipped t source True of
             (SACCADE_OK, Some r) \<Rightarrow> rect_contains \<lparr>rc_x = 0, rc_y = 0, rc_width = push_bit 8 (di_backing_width d),
                 rc_height = push_bit 8 (di_backing_height d)\<rparr> r
           | (result, out) \<Rightarrow> out = None))"
proof (cases "catalog_find k (foldl catalog_step fresh_catalog ops)")
  case None
  then show ?thesis by simp
next
  case (Some d)
  let ?c = "foldl catalog_step fresh_catalog ops"
  have "catalog_inv ?c" by (rule catalog.inv_run)
  moreover have d: "d \<in> set (sn_displays (dc_snapshot ?c))" "di_display_id d = k"
    using Some \<open>catalog_inv ?c\<close> find_Some_iff_hd unfolding catalog_find_def catalog_inv_def Let_def
    by (subst (asm) catalog_search_correct; fastforce)+
  ultimately have v: "surface_valid d" by (simp add: catalog_inv_def Let_def list_all_iff)
  show ?thesis
  proof (cases "epoch = 0")
    case True
    then show ?thesis using Some d(2) by (simp add: make_desktop_to_surface_transform_def)
  next
    case False
    let ?b = "\<lparr>rc_x = 0, rc_y = 0, rc_width = push_bit 8 (di_backing_width d), rc_height = push_bit 8 (di_backing_height d)\<rparr>"
    let ?desc = "default_desc\<lparr>td_source := di_desktop_bounds d, td_destination := ?b, td_epoch := epoch,
        td_source_space := Space_desktop, td_destination_space := Space_surface, td_rotation := Clockwise_0\<rparr>"
    have t: "make_desktop_to_surface_transform d epoch True fresh_transform = transform_initialize ?desc fresh_transform"
      using v False by (simp add: make_desktop_to_surface_transform_def)
    have ok: "fst (transform_initialize ?desc fresh_transform) = SACCADE_OK"
      using v desktop_surface_rect [OF v]
      by (simp add: transform_initialize_def surface_valid_def space_valid_def rotation_valid_def default_desc_def)
    show ?thesis using Some d(2) False ok clipped_inside [of ?desc fresh_transform source]
      by (simp add: t split_beta split: prod.splits saccade_result.splits option.splits)
  qed
qed

end
