(* ===== verification/Scope_Atlas.thy ===== *)
theory Scope_Atlas
  imports Display_Catalog
begin

text \<open>
  The atlas layout of \<open>src/geometry/scope_atlas.cpp\<close>: the part of the desktop in scope is fitted
  into an output image, and every surface that meets the scope gets the part of its image that
  is visible and the place of that part in the output.
\<close>

record pixel_rect =
  px_x :: u32
  px_y :: u32
  px_width :: u32
  px_height :: u32

record atlas_surface =
  as_desktop_bounds :: rect_q8
  as_image_width :: u32
  as_image_height :: u32

record atlas_placement =
  ap_source :: pixel_rect
  ap_destination :: pixel_rect
  ap_surface_index :: u32

text \<open>The first \<open>count\<close> entries of the array of placements.\<close>

record scope_atlas_layout =
  sl_content :: pixel_rect
  sl_placements :: "atlas_placement list"

definition atlas_scaled_floor :: "u64 \<Rightarrow> u32 \<Rightarrow> u32 \<Rightarrow> u32" where
  "atlas_scaled_floor v destination_extent source_extent =
     ucast ((v * ucast destination_extent) div (ucast source_extent :: u64))"

definition atlas_scaled_ceil :: "u64 \<Rightarrow> u32 \<Rightarrow> u32 \<Rightarrow> u32" where
  "atlas_scaled_ceil v destination_extent source_extent =
     (let product = v * ucast destination_extent
      in ucast ((product + ucast source_extent - 1) div (ucast source_extent :: u64)))"

definition content_rect :: "rect_q8 \<Rightarrow> u32 \<Rightarrow> u32 \<Rightarrow> pixel_rect" where
  "content_rect scope output_width output_height =
     (let scope_width = ucast (rc_width scope) :: u64; scope_height = ucast (rc_height scope) :: u64;
          (content_width, content_height) =
            (if scope_width * ucast output_height > scope_height * ucast output_width
             then (output_width, max 1 (ucast ((scope_height * ucast output_width) div scope_width)))
             else (max 1 (ucast ((scope_width * ucast output_height) div scope_height)), output_height))
      in \<lparr>px_x = (output_width - content_width) div 2, px_y = (output_height - content_height) div 2,
          px_width = content_width, px_height = content_height\<rparr>)"

definition intersection :: "rect_q8 \<Rightarrow> rect_q8 \<Rightarrow> rect_q8 option" where
  "intersection left right =
     (let left_right = sint (rc_x left) + sint (rc_width left);
          left_bottom = sint (rc_y left) + sint (rc_height left);
          right_right = sint (rc_x right) + sint (rc_width right);
          right_bottom = sint (rc_y right) + sint (rc_height right);
          x = max (sint (rc_x left)) (sint (rc_x right));
          y = max (sint (rc_y left)) (sint (rc_y right));
          edge_x = min left_right right_right;
          edge_y = min left_bottom right_bottom
      in if x \<ge> edge_x \<or> y \<ge> edge_y then None
         else Some \<lparr>rc_x = word_of_int x, rc_y = word_of_int y,
                    rc_width = word_of_int (edge_x - x), rc_height = word_of_int (edge_y - y)\<rparr>)"

definition atlas_map_rect :: "rect_q8 \<Rightarrow> rect_q8 \<Rightarrow> pixel_rect \<Rightarrow> pixel_rect" where
  "atlas_map_rect rect source destination =
     (let relative_left = word_of_int (sint (rc_x rect) - sint (rc_x source)) :: u64;
          relative_top = word_of_int (sint (rc_y rect) - sint (rc_y source)) :: u64;
          relative_right = relative_left + ucast (rc_width rect);
          relative_bottom = relative_top + ucast (rc_height rect);
          left = atlas_scaled_floor relative_left (px_width destination) (rc_width source);
          upper = atlas_scaled_floor relative_top (px_height destination) (rc_height source);
          right = atlas_scaled_ceil relative_right (px_width destination) (rc_width source);
          bottom = atlas_scaled_ceil relative_bottom (px_height destination) (rc_height source)
      in \<lparr>px_x = px_x destination + left, px_y = px_y destination + upper,
          px_width = right - left, px_height = bottom - upper\<rparr>)"

text \<open>The loop over the surfaces; \<open>None\<close> is the early return with an invalid argument.\<close>

fun place_surfaces :: "rect_q8 \<Rightarrow> pixel_rect \<Rightarrow> u32 \<Rightarrow> atlas_surface list \<Rightarrow> atlas_placement list option" where
  "place_surfaces scope content index [] = Some []"
| "place_surfaces scope content index (surface # surfaces) =
     (if \<not> rect_valid (as_desktop_bounds surface) \<or> as_image_width surface = 0 \<or> as_image_height surface = 0 then None
      else case intersection scope (as_desktop_bounds surface) of
        None \<Rightarrow> place_surfaces scope content (index + 1) surfaces
      | Some visible \<Rightarrow>
          map_option (Cons \<lparr>ap_source = atlas_map_rect visible (as_desktop_bounds surface)
                              \<lparr>px_x = 0, px_y = 0, px_width = as_image_width surface, px_height = as_image_height surface\<rparr>,
                            ap_destination = atlas_map_rect visible scope content,
                            ap_surface_index = index\<rparr>)
            (place_surfaces scope content (index + 1) surfaces))"

definition make_scope_atlas_layout ::
  "rect_q8 \<Rightarrow> u32 \<Rightarrow> u32 \<Rightarrow> atlas_surface list option \<Rightarrow> bool \<Rightarrow> saccade_result \<times> scope_atlas_layout option" where
  "make_scope_atlas_layout scope output_width output_height surfaces output =
     (if \<not> rect_valid scope \<or> output_width = 0 \<or> output_height = 0 \<or>
         output_width > maximum_backing_extent \<or> output_height > maximum_backing_extent \<or>
         surfaces = None \<or> length (the surfaces) = 0 \<or> length (the surfaces) > display_capacity \<or> \<not> output
      then (SACCADE_ERROR_INVALID_ARGUMENT, None)
      else let content = content_rect scope output_width output_height in
        case place_surfaces scope content 0 (the surfaces) of
          None \<Rightarrow> (SACCADE_ERROR_INVALID_ARGUMENT, None)
        | Some placements \<Rightarrow>
            if length placements = 0 then (SACCADE_ERROR_NOT_FOUND, None)
            else (SACCADE_OK, Some \<lparr>sl_content = content, sl_placements = placements\<rparr>))"

subsection \<open>Bounds\<close>

text \<open>A nonempty rectangle of pixels inside another, on unbounded coordinates.\<close>

definition pixel_inside :: "pixel_rect \<Rightarrow> pixel_rect \<Rightarrow> bool" where
  "pixel_inside inner outer \<longleftrightarrow> 0 < px_width inner \<and> 0 < px_height inner \<and>
     px_x outer \<le> px_x inner \<and> px_y outer \<le> px_y inner \<and>
     unat (px_x inner) + unat (px_width inner) \<le> unat (px_x outer) + unat (px_width outer) \<and>
     unat (px_y inner) + unat (px_height inner) \<le> unat (px_y outer) + unat (px_height outer)"

lemma atlas_product:
  assumes "unat (v :: u64) \<le> unat (s :: u32)"
  shows "unat v * unat (d :: u32) + unat s < 18446744073709551616"
proof -
  have "unat v * unat d \<le> 4294967295 * 4294967295"
    using assms unat32_lt [of s] unat32_lt [of d] by (intro mult_le_mono) linarith+
  then show ?thesis using unat32_lt [of s] by linarith
qed

lemma atlas_scaled_floor_nat:
  assumes "unat v \<le> unat s" "0 < s"
  shows "unat (atlas_scaled_floor v d s) = unat v * unat d div unat s" "unat v * unat d div unat s \<le> unat d"
proof -
  have s: "0 < unat s" using assms(2) by (simp add: word_less_nat_alt)
  show le: "unat v * unat d div unat s \<le> unat d"
    using div_le_mono [OF mult_le_mono1 [OF assms(1)], of "unat d" "unat s"] s by simp
  have "unat (v * ucast d) = unat v * unat d"
    using atlas_product [OF assms(1), of d] by (simp add: unat_word_ariths)
  then have "unat ((v * ucast d) div (ucast s :: u64)) = unat v * unat d div unat s"
    by (simp add: unat_div)
  then show "unat (atlas_scaled_floor v d s) = unat v * unat d div unat s"
    unfolding atlas_scaled_floor_def using le unat32_lt [of d] by (subst unat_narrow_u32) linarith+
qed

lemma atlas_scaled_ceil_nat:
  assumes "unat v \<le> unat s" "0 < s"
  shows "unat (atlas_scaled_ceil v d s) = (unat v * unat d + unat s - 1) div unat s"
    "(unat v * unat d + unat s - 1) div unat s \<le> unat d"
proof -
  have s: "0 < unat s" using assms(2) by (simp add: word_less_nat_alt)
  have "unat v * unat d + unat s - 1 \<le> unat s * unat d + (unat s - 1)"
    using mult_le_mono1 [OF assms(1), of "unat d"] s by linarith
  then have "(unat v * unat d + unat s - 1) div unat s \<le> (unat s * unat d + (unat s - 1)) div unat s"
    by (rule div_le_mono)
  then show le: "(unat v * unat d + unat s - 1) div unat s \<le> unat d"
    using div_nat_eqI [of "unat s" "unat d" "unat s * unat d + (unat s - 1)"] s by simp
  note p = atlas_product [OF assms(1), of d]
  have m: "unat (v * ucast d) = unat v * unat d" using p by (simp add: unat_word_ariths)
  have a: "unat (v * ucast d + ucast s) = unat v * unat d + unat s"
    using p by (subst unat_add_lem [THEN iffD1]) (simp_all add: m)
  have "unat (v * ucast d + ucast s - 1) = unat v * unat d + unat s - 1"
    using a s by (subst unat_sub) (simp_all add: word_le_nat_alt)
  then have "unat ((v * ucast d + ucast s - 1) div (ucast s :: u64)) = (unat v * unat d + unat s - 1) div unat s"
    by (simp add: unat_div)
  then show "unat (atlas_scaled_ceil v d s) = (unat v * unat d + unat s - 1) div unat s"
    unfolding atlas_scaled_ceil_def Let_def using le unat32_lt [of d] by (subst unat_narrow_u32) linarith+
qed

lemma ceil_covers: "0 < (s :: nat) \<Longrightarrow> p \<le> (p + s - 1) div s * s"
  using div_mult_mod_eq [of "p + s - 1" s] mod_less_divisor [of s "p + s - 1"] by linarith

text \<open>One axis: an interval inside the source maps to a nonempty interval inside the destination.\<close>

lemma atlas_axis:
  fixes x w sx sw :: i32 and dx dw :: u32
  defines "l \<equiv> word_of_int (sint x - sint sx) :: u64"
  defines "left \<equiv> atlas_scaled_floor l dw sw" and "right \<equiv> atlas_scaled_ceil (l + ucast w) dw sw"
  assumes "0 < sint w" "0 < sint sw" "sint sx \<le> sint x" "sint x + sint w \<le> sint sx + sint sw"
    and d: "0 < dw" "unat dx + unat dw < 4294967296"
  shows "0 < right - left" "dx \<le> dx + left" "unat (dx + left) + unat (right - left) \<le> unat dx + unat dw"
proof -
  note W = unat_positive [OF assms(4)] and S = unat_positive [OF assms(5)]
  have l: "unat l = nat (sint x - sint sx)"
    using assms(4,6,7) S sint32_bounds(2) [of sw] unfolding l_def by (intro unat_word_of_int64; linarith)
  then have lw: "unat l + unat w \<le> unat sw" using assms(6,7) W(3) S(3) by linarith
  have r: "unat (l + ucast w) = unat l + unat w"
  proof -
    have "unat l + unat w < 18446744073709551616" using lw unat32_lt [of sw] by linarith
    then show ?thesis by (subst unat_add_lem [THEN iffD1]) simp_all
  qed
  have sw: "0 < sw" using S(1) by (simp add: word_less_nat_alt)
  have fl: "unat left = unat l * unat dw div unat sw"
    unfolding left_def using lw sw by (intro atlas_scaled_floor_nat) simp_all
  have ri: "unat right = ((unat l + unat w) * unat dw + unat sw - 1) div unat sw" "unat right \<le> unat dw"
    unfolding right_def using atlas_scaled_ceil_nat [of "l + ucast w" sw dw] lw sw by (simp_all only: r)
  have "unat left * unat sw \<le> unat l * unat dw" unfolding fl by (rule div_times_less_eq_dividend)
  also have "\<dots> < (unat l + unat w) * unat dw" using W(1) d(1) by (simp add: word_less_nat_alt)
  also have "\<dots> \<le> unat right * unat sw" unfolding ri(1) by (rule ceil_covers [OF S(1)])
  finally have lt: "unat left < unat right" by simp
  have le: "left \<le> right" using lt by (simp add: word_le_nat_alt)
  have sub: "unat (right - left) = unat right - unat left" using le by (rule unat_sub)
  then show "0 < right - left" using lt by (simp add: word_less_nat_alt)
  have add: "unat (dx + left) = unat dx + unat left"
    using d(2) lt ri(2) by (subst unat_add_lem [THEN iffD1]) simp_all
  show "dx \<le> dx + left" using add by (simp add: word_le_nat_alt)
  show "unat (dx + left) + unat (right - left) \<le> unat dx + unat dw" using add sub lt ri(2) by linarith
qed

lemma intersection_inside:
  assumes "intersection a b = Some v" "rect_valid a" "rect_valid b"
  shows "rect_valid v" "rect_contains a v" "rect_contains b v"
proof -
  let ?x = "max (sint (rc_x a)) (sint (rc_x b))" and ?y = "max (sint (rc_y a)) (sint (rc_y b))"
  let ?ex = "min (sint (rc_x a) + sint (rc_width a)) (sint (rc_x b) + sint (rc_width b))"
  let ?ey = "min (sint (rc_y a) + sint (rc_height a)) (sint (rc_y b) + sint (rc_height b))"
  have A: "0 < sint (rc_width a)" "0 < sint (rc_height a)" using assms(2) by (simp_all add: rect_valid_bounds)
  have lt: "?x < ?ex" "?y < ?ey"
    and v: "v = \<lparr>rc_x = word_of_int ?x, rc_y = word_of_int ?y,
                 rc_width = word_of_int (?ex - ?x), rc_height = word_of_int (?ey - ?y)\<rparr>"
    using assms(1) by (simp_all add: intersection_def Let_def not_le split: if_splits del: min_less_iff_conj max_less_iff_conj)
  have s: "sint (word_of_int ?x :: i32) = ?x" "sint (word_of_int ?y :: i32) = ?y"
    using sint32_bounds [of "rc_x a"] sint32_bounds [of "rc_x b"] sint32_bounds [of "rc_y a"] sint32_bounds [of "rc_y b"]
    by (intro sint_word_of_int32; linarith)+
  have e: "sint (word_of_int (?ex - ?x) :: i32) = ?ex - ?x" "sint (word_of_int (?ey - ?y) :: i32) = ?ey - ?y"
    using lt sint32_bounds(2) [of "rc_width a"] sint32_bounds(2) [of "rc_height a"]
    by (intro sint_word_of_int32; linarith)+
  show valid: "rect_valid v" using lt assms(2) unfolding v rect_valid_bounds rect_q8.select_convs s e by linarith
  show "rect_contains a v" "rect_contains b v"
    unfolding rect_contains_def rect_edges_valid [OF assms(2)] rect_edges_valid [OF assms(3)] rect_edges_valid [OF valid]
      option.case prod.case unfolding v rect_q8.select_convs s e by linarith+
qed

lemma atlas_map_rect_inside:
  assumes "rect_valid r" "rect_valid source" "rect_contains source r"
    and "0 < px_width d" "0 < px_height d" "unat (px_x d) + unat (px_width d) < 4294967296"
    "unat (px_y d) + unat (px_height d) < 4294967296"
  shows "pixel_inside (atlas_map_rect r source d) d"
proof -
  have v: "0 < sint (rc_width r)" "0 < sint (rc_height r)" "0 < sint (rc_width source)" "0 < sint (rc_height source)"
    using assms(1,2) by (simp_all add: rect_valid_bounds)
  have c: "sint (rc_x source) \<le> sint (rc_x r)" "sint (rc_y source) \<le> sint (rc_y r)"
    "sint (rc_x r) + sint (rc_width r) \<le> sint (rc_x source) + sint (rc_width source)"
    "sint (rc_y r) + sint (rc_height r) \<le> sint (rc_y source) + sint (rc_height source)"
    using assms(3) rect_edges_valid [OF assms(1)] rect_edges_valid [OF assms(2)] by (simp_all add: rect_contains_def)
  show ?thesis
    using atlas_axis [OF v(1,3) c(1,3) assms(4,6)] atlas_axis [OF v(2,4) c(2,4) assms(5,7)]
    by (simp add: pixel_inside_def atlas_map_rect_def Let_def)
qed

text \<open>The content keeps the aspect ratio of the scope and is centred in the output.\<close>

lemma fitted_extent:
  fixes a b :: i32 and w h :: u32
  assumes "0 < sint a" "0 < sint b" "\<not> (ucast a :: u64) * ucast h < ucast b * ucast w" "0 < h"
  shows "0 < max 1 (ucast ((ucast b * ucast w) div (ucast a :: u64)) :: u32)"
    "max 1 (ucast ((ucast b * ucast w) div (ucast a :: u64)) :: u32) \<le> h"
proof -
  note A = unat_positive [OF assms(1)] and B = unat_positive [OF assms(2)]
  have m: "unat ((ucast x :: u64) * ucast (y :: u32)) = unat (x :: u32) * unat y" for x y
    using atlas_product [of "ucast x" x y] by (simp add: unat_word_ariths)
  have "unat b * unat w \<le> unat a * unat h" using assms(3) by (simp add: word_less_nat_alt m not_less)
  then have "unat b * unat w div unat a \<le> unat h"
    using div_le_mono [of "unat b * unat w" "unat a * unat h" "unat a"] A(1) by simp
  then have "unat (ucast ((ucast b * ucast w) div (ucast a :: u64)) :: u32) \<le> unat h"
    using unat_narrow_u32 [of "(ucast b * ucast w) div (ucast a :: u64)"] unat32_lt [of h]
    unfolding unat_div m unat_widen_words by linarith
  then show "max 1 (ucast ((ucast b * ucast w) div (ucast a :: u64)) :: u32) \<le> h"
    using assms(4) by (auto simp: max_def word_le_nat_alt word_less_nat_alt)
  show "0 < max 1 (ucast ((ucast b * ucast w) div (ucast a :: u64)) :: u32)"
    by (simp add: less_max_iff_disj)
qed

lemma centred:
  assumes "c \<le> (w :: u32)"
  shows "unat ((w - c) div 2) + unat c \<le> unat w"
  using assms by (simp add: unat_div unat_sub word_le_nat_alt)

lemma content_rect_inside:
  assumes "rect_valid scope" "0 < w" "0 < h"
  shows "pixel_inside (content_rect scope w h) \<lparr>px_x = 0, px_y = 0, px_width = w, px_height = h\<rparr>"
proof -
  have s: "0 < sint (rc_width scope)" "0 < sint (rc_height scope)" using assms(1) by (simp_all add: rect_valid_bounds)
  show ?thesis
  proof (cases "(ucast (rc_width scope) :: u64) * ucast h > ucast (rc_height scope) * ucast w")
    case True
    then show ?thesis
      using fitted_extent [OF s less_not_sym [OF True] assms(3)] assms centred
      by (auto simp: content_rect_def pixel_inside_def Let_def)
  next
    case False
    have "\<not> (ucast (rc_height scope) :: u64) * ucast w < ucast (rc_width scope) * ucast h" using False .
    then show ?thesis
      using fitted_extent [OF s(2,1) _ assms(2)] False assms centred
      by (auto simp: content_rect_def pixel_inside_def Let_def)
  qed
qed

text \<open>Which surfaces get a placement: those that meet the scope, in order.\<close>

definition in_scope :: "rect_q8 \<Rightarrow> atlas_surface \<Rightarrow> bool" where
  "in_scope scope surface \<longleftrightarrow> intersection scope (as_desktop_bounds surface) \<noteq> None"

definition placement_fits :: "pixel_rect \<Rightarrow> atlas_surface list \<Rightarrow> atlas_placement \<Rightarrow> bool" where
  "placement_fits content surfaces p \<longleftrightarrow>
     unat (ap_surface_index p) < length surfaces \<and> pixel_inside (ap_destination p) content \<and>
     (let surface = surfaces ! unat (ap_surface_index p) in
      pixel_inside (ap_source p)
        \<lparr>px_x = 0, px_y = 0, px_width = as_image_width surface, px_height = as_image_height surface\<rparr>)"

lemma place_surfaces_indices:
  "place_surfaces scope content (word_of_nat k) surfaces = Some ps \<Longrightarrow>
     map ap_surface_index ps = map word_of_nat (filter (\<lambda>i. in_scope scope (surfaces ! (i - k))) [k..<k + length surfaces])"
proof (induction surfaces arbitrary: k ps)
  case Nil
  then show ?case by simp
next
  case (Cons surface surfaces)
  have up: "[k..<k + length (surface # surfaces)] = k # [Suc k..<Suc k + length surfaces]"
    by (simp add: upt_conv_Cons del: upt_Suc)
  have shift: "filter (\<lambda>i. in_scope scope ((surface # surfaces) ! (i - k))) [Suc k..<Suc k + length surfaces] =
      filter (\<lambda>i. in_scope scope (surfaces ! (i - Suc k))) [Suc k..<Suc k + length surfaces]"
    by (rule filter_cong) (auto simp: nth_Cons' Suc_diff_le)
  obtain tail where t: "place_surfaces scope content (word_of_nat (Suc k)) surfaces = Some tail"
    and ps: "map ap_surface_index ps =
        (if in_scope scope surface then [word_of_nat k] else []) @ map ap_surface_index tail"
    using Cons.prems by (auto simp: in_scope_def add.commute split: if_splits option.splits)
  show ?case unfolding ps Cons.IH [OF t] up by (simp only: filter.simps shift) simp
qed

lemma place_surfaces_fit:
  assumes "rect_valid scope" "pixel_inside content \<lparr>px_x = 0, px_y = 0, px_width = w, px_height = h\<rparr>"
    and "place_surfaces scope content (word_of_nat k) surfaces = Some ps" "k + length surfaces < 4294967296"
    "surfaces = drop k all" "k \<le> length all"
  shows "list_all (placement_fits content all) ps"
  using assms(3-)
proof (induction surfaces arbitrary: k ps)
  case Nil
  then show ?case by simp
next
  case (Cons surface surfaces)
  have C: "0 < px_width content" "0 < px_height content" "unat (px_x content) + unat (px_width content) < 4294967296"
    "unat (px_y content) + unat (px_height content) < 4294967296"
    using assms(2) unat32_lt [of w] unat32_lt [of h]
    unfolding pixel_inside_def pixel_rect.select_convs unat_0 by linarith+
  have k: "k < length all" "all ! k = surface" "drop (Suc k) all = surfaces"
    using Cons.prems(3,4) by (metis drop_eq_Nil list.distinct(1) not_le, metis nth_via_drop, metis drop_Suc list.sel(3) tl_drop)
  have valid: "rect_valid (as_desktop_bounds surface)" "as_image_width surface \<noteq> 0" "as_image_height surface \<noteq> 0"
    using Cons.prems(1) by (simp_all split: if_splits)
  have "Suc k + length surfaces < 4294967296" "Suc k \<le> length all" using Cons.prems(2) k(1) by simp_all
  then have tail: "place_surfaces scope content (word_of_nat (Suc k)) surfaces = Some tail \<Longrightarrow>
      list_all (placement_fits content all) tail" for tail
    using k(3) by (intro Cons.IH [of "Suc k"]) simp_all
  show ?case
  proof (cases "intersection scope (as_desktop_bounds surface)")
    case None
    then show ?thesis using Cons.prems(1) valid tail by (simp add: add.commute)
  next
    case (Some v)
    note v = intersection_inside [OF Some assms(1) valid(1)]
    let ?image = "\<lparr>px_x = 0, px_y = 0, px_width = as_image_width surface, px_height = as_image_height surface\<rparr>"
    obtain rest where rest: "place_surfaces scope content (word_of_nat (Suc k)) surfaces = Some rest"
      and ps: "ps = \<lparr>ap_source = atlas_map_rect v (as_desktop_bounds surface) ?image,
          ap_destination = atlas_map_rect v scope content, ap_surface_index = word_of_nat k\<rparr> # rest"
      using Cons.prems(1) valid Some by (auto simp: add.commute)
    have "pixel_inside (atlas_map_rect v (as_desktop_bounds surface) ?image) ?image"
      using valid v by (intro atlas_map_rect_inside) (simp_all add: word_neq_0_conv)
    moreover have "pixel_inside (atlas_map_rect v scope content) content"
      using v assms(1) C by (intro atlas_map_rect_inside)
    moreover have "unat (word_of_nat k :: u32) = k" using Cons.prems(2) by (simp add: unat_of_nat)
    ultimately show ?thesis using k tail [OF rest] unfolding ps by (simp add: placement_fits_def [of _ _ "\<lparr>ap_source = _, ap_destination = _, ap_surface_index = _\<rparr>"])
  qed
qed

subsection \<open>Property\<close>

text \<open>A successful layout keeps the content inside the output image, and every placement reads a
  nonempty part of its surface's image and writes a nonempty part of the content. There is at
  least one placement and the placements are those of the surfaces that meet the scope, in order.
  The only failures are an invalid argument and a scope that no surface meets.\<close>

theorem scope_atlas_contained:
  "case make_scope_atlas_layout scope w h surfaces output of
     (SACCADE_OK, Some l) \<Rightarrow>
       pixel_inside (sl_content l) \<lparr>px_x = 0, px_y = 0, px_width = w, px_height = h\<rparr> \<and>
       sl_placements l \<noteq> [] \<and> list_all (placement_fits (sl_content l) (the surfaces)) (sl_placements l) \<and>
       map ap_surface_index (sl_placements l) =
         map word_of_nat (filter (\<lambda>i. in_scope scope (the surfaces ! i)) [0..<length (the surfaces)])
   | (result, out) \<Rightarrow> out = None \<and> result \<in> {SACCADE_ERROR_INVALID_ARGUMENT, SACCADE_ERROR_NOT_FOUND}"
proof (cases "snd (make_scope_atlas_layout scope w h surfaces output)")
  case None
  then have "fst (make_scope_atlas_layout scope w h surfaces output) \<in> {SACCADE_ERROR_INVALID_ARGUMENT, SACCADE_ERROR_NOT_FOUND}"
    by (auto simp: make_scope_atlas_layout_def Let_def split: if_splits option.splits)
  then show ?thesis using None by (cases "make_scope_atlas_layout scope w h surfaces output") auto
next
  case (Some l)
  let ?c = "content_rect scope w h"
  have g: "rect_valid scope" "0 < w" "0 < h" "length (the surfaces) \<le> display_capacity"
    and p: "place_surfaces scope ?c (word_of_nat 0) (the surfaces) = Some (sl_placements l)" "sl_placements l \<noteq> []"
    and l: "sl_content l = ?c" "make_scope_atlas_layout scope w h surfaces output = (SACCADE_OK, Some l)"
    using Some by (auto simp: make_scope_atlas_layout_def Let_def word_neq_0_conv split: if_splits option.splits)
  have c: "pixel_inside ?c \<lparr>px_x = 0, px_y = 0, px_width = w, px_height = h\<rparr>"
    by (rule content_rect_inside [OF g(1-3)])
  have "list_all (placement_fits ?c (the surfaces)) (sl_placements l)"
    using g(4) by (intro place_surfaces_fit [OF g(1) c p(1)]) (simp_all add: display_capacity_def)
  then show ?thesis using place_surfaces_indices [OF p(1)] c p(2) by (simp add: l)
qed

end
