(* ===== verification/Scene_Fusion.thy ===== *)
theory Scene_Fusion
  imports Scene_Packet "HOL-Library.Signed_Division" "HOL-Library.Sublist"
begin

text \<open>
  Scene fusion, \<open>src/scene/fusion.cpp\<close>: up to four packets of target candidates are merged into
  one packet. A hash grid over size levels finds the target a candidate duplicates; duplicates
  are merged with safety dominance, other candidates are appended until the target limit, and
  the texts are copied at the end.
\<close>

subsection \<open>Data\<close>

record fusion_config =
  fc_maximum_targets :: u32
  fc_iou_threshold_q16 :: u16
  fc_containment_threshold_q16 :: u16
  fc_maximum_area_ratio_q8 :: u16
  fc_merge_duplicates :: bool
  fc_reserved :: u8

definition default_fusion_config :: fusion_config where
  "default_fusion_config = \<lparr>fc_maximum_targets = TARGET_PACKET_MAX_TARGETS, fc_iou_threshold_q16 = 32768,
     fc_containment_threshold_q16 = 58982, fc_maximum_area_ratio_q8 = 1024, fc_merge_duplicates = True,
     fc_reserved = 0\<rparr>"

record fusion_epochs =
  fe_scene_epoch :: u64
  fe_frame_id :: u64
  fe_capture_time_ns :: u64
  fe_model_epoch :: u64
  fe_session_epoch :: u64
  fe_transform_epoch :: u64
  fe_topology_epoch :: u64
  fe_source_id :: u64

record fusion_stats =
  fs_packets_read :: u64
  fs_candidates_read :: u64
  fs_bucket_visits :: u64
  fs_overlap_tests :: u64
  fs_duplicates_merged :: u64
  fs_safety_merges :: u64
  fs_capacity_drops :: u64
  fs_targets_written :: u32

definition zero_fusion_stats :: fusion_stats where
  "zero_fusion_stats = \<lparr>fs_packets_read = 0, fs_candidates_read = 0, fs_bucket_visits = 0, fs_overlap_tests = 0,
     fs_duplicates_merged = 0, fs_safety_merges = 0, fs_capacity_drops = 0, fs_targets_written = 0\<rparr>"

record fusion_node =
  nd_next :: u32
  nd_target_index :: u16
  nd_level :: u8

text \<open>The workspace: the array of bucket heads as a function of the masked bucket index, and the
  nodes in use, \<open>node_count\<close> of them.\<close>

record fusion_workspace =
  fw_heads :: "u32 \<Rightarrow> u32"
  fw_nodes :: "fusion_node list"

definition fusion_bucket_count :: u32 where "fusion_bucket_count = 32768"
definition fusion_nodes_per_target :: nat where "fusion_nodes_per_target = 5"
definition fusion_node_count :: nat where "fusion_node_count = unat TARGET_PACKET_MAX_TARGETS * fusion_nodes_per_target"

abbreviation empty_node :: u32 where "empty_node \<equiv> uint32_max"

definition bucket_mask :: u32 where "bucket_mask = fusion_bucket_count - 1"
definition minimum_level :: nat where "minimum_level = 12"
definition maximum_level :: nat where "maximum_level = 30"

subsection \<open>Classification\<close>

definition role_group :: "u16 \<Rightarrow> u8" where
  "role_group role =
     (if role = ROLE_BUTTON \<or> role = ROLE_LINK \<or> role = ROLE_CHECKBOX \<or> role = ROLE_RADIO \<or> role = ROLE_MENU_ITEM then 1
      else if role = ROLE_TEXT \<or> role = ROLE_TEXT_FIELD then 2
      else if role = ROLE_SLIDER then 3
      else if role = ROLE_IMAGE then 4
      else if role = ROLE_WINDOW then 5
      else 0)"

text \<open>\<open>std::bit_width\<close>.\<close>

fun bit_width :: "nat \<Rightarrow> nat" where
  "bit_width n = (if n = 0 then 0 else Suc (bit_width (n div 2)))"

declare bit_width.simps [simp del]

definition signed_max :: "i32 \<Rightarrow> i32 \<Rightarrow> i32" where
  "signed_max a b = (if sint a < sint b then b else a)"

definition target_level :: "target_record \<Rightarrow> nat" where
  "target_level t =
     (let extent = signed_max (tr_width_q8 t) (tr_height_q8 t); level = bit_width (unat (extent - 1))
      in min (max level minimum_level) maximum_level)"

text \<open>C++ division truncates; the code moves the quotient of a negative coordinate down.\<close>

definition floor_cell :: "i32 \<Rightarrow> nat \<Rightarrow> int" where
  "floor_cell coordinate level =
     (let divisor = 2 ^ level; value = sint coordinate; quotient = value sdiv divisor
      in if value < 0 \<and> value smod divisor \<noteq> 0 then quotient - 1 else quotient)"

definition bucket_for :: "int \<Rightarrow> int \<Rightarrow> nat \<Rightarrow> u32" where
  "bucket_for x y level =
     (let hash = ucast (word_of_int x :: u32) :: u64;
          hash = hash XOR ucast (word_of_int y :: u32) * 0x9E3779B185EBCA87;
          hash = hash XOR word_of_nat level * 0xC2B2AE3D27D4EB4F;
          hash = hash XOR drop_bit 33 hash;
          hash = hash * 0xFF51AFD7ED558CCD;
          hash = hash XOR drop_bit 33 hash
      in ucast hash AND bucket_mask)"

definition compatible_window :: "target_record \<Rightarrow> target_record \<Rightarrow> bool" where
  "compatible_window left right \<longleftrightarrow>
     (tr_window_id left = 0 \<or> tr_window_id right = 0 \<or> tr_window_id left = tr_window_id right) \<and>
     (tr_display_id left = 0 \<or> tr_display_id right = 0 \<or> tr_display_id left = tr_display_id right)"

definition compatible_role :: "target_record \<Rightarrow> target_record \<Rightarrow> bool" where
  "compatible_role left right \<longleftrightarrow>
     (let left_group = role_group (tr_role left); right_group = role_group (tr_role right)
      in left_group = 0 \<or> right_group = 0 \<or> left_group = right_group)"

definition area :: "target_record \<Rightarrow> u64" where
  "area t = scast (tr_width_q8 t) * scast (tr_height_q8 t)"

definition ratio_at_least :: "u64 \<Rightarrow> u64 \<Rightarrow> u16 \<Rightarrow> bool" where
  "ratio_at_least numerator denominator threshold_q16 =
     (let quotient = denominator div 65535; remainder = denominator mod 65535;
          required = quotient * ucast threshold_q16 + (remainder * ucast threshold_q16 + 65535 - 1) div 65535
      in numerator \<ge> required)"

definition area_ratio_allowed :: "u64 \<Rightarrow> u64 \<Rightarrow> u16 \<Rightarrow> bool" where
  "area_ratio_allowed smaller larger maximum_ratio_q8 =
     (let quotient = larger div smaller; remainder = larger mod smaller;
          integer_limit = ucast maximum_ratio_q8 div 256
      in if quotient < integer_limit then True
         else if quotient > integer_limit then False
         else let fraction = ucast maximum_ratio_q8 mod 256;
                  allowed_remainder = (smaller div 256) * fraction + ((smaller mod 256) * fraction) div 256
         in remainder \<le> allowed_remainder)"

text \<open>The overlap test: the answer and the counted statistics.\<close>

definition duplicate ::
  "target_record \<Rightarrow> target_record \<Rightarrow> fusion_config \<Rightarrow> fusion_stats \<Rightarrow> bool \<times> fusion_stats" where
  "duplicate left right config stats =
     (if \<not> compatible_role left right \<or> \<not> compatible_window left right then (False, stats)
      else let stats = stats\<lparr>fs_overlap_tests := fs_overlap_tests stats + 1\<rparr>;
               left_right = sint (tr_x_q8 left) + sint (tr_width_q8 left);
               right_right = sint (tr_x_q8 right) + sint (tr_width_q8 right);
               left_bottom = sint (tr_y_q8 left) + sint (tr_height_q8 left);
               right_bottom = sint (tr_y_q8 right) + sint (tr_height_q8 right);
               width = min left_right right_right - max (sint (tr_x_q8 left)) (sint (tr_x_q8 right));
               height = min left_bottom right_bottom - max (sint (tr_y_q8 left)) (sint (tr_y_q8 right))
      in if width \<le> 0 \<or> height \<le> 0 then (False, stats)
         else let intersection = word_of_int width * word_of_int height;
                  left_area = area left; right_area = area right;
                  smaller = min left_area right_area; larger = max left_area right_area;
                  union_area = left_area + right_area - intersection
         in (ratio_at_least intersection union_area (fc_iou_threshold_q16 config) \<or>
             (area_ratio_allowed smaller larger (fc_maximum_area_ratio_q8 config) \<and>
              ratio_at_least intersection smaller (fc_containment_threshold_q16 config)), stats))"

subsection \<open>Merging\<close>

definition semantic :: "target_record \<Rightarrow> bool" where
  "semantic t \<longleftrightarrow> tr_source_bits t AND SOURCE_ACCESSIBILITY \<noteq> 0 \<and> tr_role t \<noteq> ROLE_UNKNOWN"

text \<open>The fields filled before the safety decision.\<close>

definition merge_fields :: "target_record \<Rightarrow> target_record \<Rightarrow> target_record" where
  "merge_fields t c = t\<lparr>
     tr_source_bits := tr_source_bits t OR tr_source_bits c,
     tr_confidence_q16 := max (tr_confidence_q16 t) (tr_confidence_q16 c),
     tr_role := (if tr_role t = ROLE_UNKNOWN then tr_role c else tr_role t),
     tr_parent_id := (if tr_parent_id t = 0 then tr_parent_id c else tr_parent_id t),
     tr_window_id := (if tr_window_id t = 0 then tr_window_id c else tr_window_id t),
     tr_display_id := (if tr_display_id t = 0 then tr_display_id c else tr_display_id t),
     tr_text := (if tx_size (tr_text t) = 0 \<and> tx_size (tr_text c) \<noteq> 0 then tr_text c else tr_text t)\<rparr>"

definition merge_target :: "target_record \<Rightarrow> target_record \<Rightarrow> fusion_stats \<Rightarrow> target_record \<times> fusion_stats" where
  "merge_target target candidate stats =
     (let target_semantic = semantic target; candidate_semantic = semantic candidate;
          t = merge_fields target candidate;
          safety = TARGET_DISABLED OR TARGET_SECURE;
          safety_flags = (tr_flags t OR tr_flags candidate) AND safety
      in if safety_flags \<noteq> 0 then
           (let t = t\<lparr>tr_flags := (tr_flags t OR safety_flags) AND NOT TARGET_ACTIONABLE, tr_capability_bits := 0\<rparr>;
                t = (if safety_flags AND TARGET_SECURE \<noteq> 0
                     then t\<lparr>tr_text := no_text,
                            tr_flags := (tr_flags t OR TARGET_TEXT_REDACTED) AND NOT TARGET_TEXT_TRUNCATED\<rparr>
                     else t)
            in (t, stats\<lparr>fs_safety_merges := fs_safety_merges stats + 1\<rparr>))
         else
           (let t = (if candidate_semantic then t\<lparr>tr_capability_bits := tr_capability_bits candidate\<rparr>
                     else if \<not> target_semantic
                     then t\<lparr>tr_capability_bits := tr_capability_bits t OR tr_capability_bits candidate\<rparr> else t);
                t = t\<lparr>tr_flags := tr_flags t OR (tr_flags candidate AND
                       (TARGET_OCCLUDED OR TARGET_APPROXIMATE OR TARGET_TEXT_REDACTED OR TARGET_TEXT_TRUNCATED))\<rparr>
            in (if tr_capability_bits t \<noteq> 0 then t\<lparr>tr_flags := tr_flags t OR TARGET_ACTIONABLE\<rparr> else t, stats)))"

subsection \<open>The hash grid\<close>

definition matching_node :: "fusion_node \<Rightarrow> int \<Rightarrow> int \<Rightarrow> nat \<Rightarrow> target_record list \<Rightarrow> bool" where
  "matching_node node x y level output \<longleftrightarrow>
     unat (nd_level node) = level \<and>
     floor_cell (tr_safe_x_q8 (output ! unat (nd_target_index node))) level = x \<and>
     floor_cell (tr_safe_y_q8 (output ! unat (nd_target_index node))) level = y"

text \<open>The walk along one bucket; \<open>None\<close> stands for a walk that does not end.\<close>

partial_function (option) walk_chain ::
  "target_record list \<Rightarrow> fusion_node list \<Rightarrow> fusion_config \<Rightarrow> target_record \<Rightarrow> int \<Rightarrow> int \<Rightarrow> nat \<Rightarrow> u32 \<Rightarrow>
     fusion_stats \<Rightarrow> (u32 \<times> fusion_stats) option" where
  "walk_chain output nodes config candidate x y level node_index stats =
     (if node_index = empty_node then Some (empty_node, stats)
      else let node = nodes ! unat node_index in
        if matching_node node x y level output then
          (let hit = duplicate (output ! unat (nd_target_index node)) candidate config stats in
           if fst hit then Some (ucast (nd_target_index node), snd hit)
           else walk_chain output nodes config candidate x y level (nd_next node) (snd hit))
        else walk_chain output nodes config candidate x y level (nd_next node) stats)"

text \<open>The nine cells around the candidate's own, row by row.\<close>

definition neighbour_cells :: "int \<Rightarrow> int \<Rightarrow> (int \<times> int) list" where
  "neighbour_cells center_x center_y =
     concat (map (\<lambda>y. map (\<lambda>x. (x, y)) [center_x - 1, center_x, center_x + 1]) [center_y - 1, center_y, center_y + 1])"

fun walk_cells ::
  "target_record list \<Rightarrow> fusion_workspace \<Rightarrow> fusion_config \<Rightarrow> target_record \<Rightarrow> nat \<Rightarrow> (int \<times> int) list \<Rightarrow>
     fusion_stats \<Rightarrow> (u32 \<times> fusion_stats) option" where
  "walk_cells output w config candidate level [] stats = Some (empty_node, stats)"
| "walk_cells output w config candidate level ((x, y) # cells) stats =
     (case walk_chain output (fw_nodes w) config candidate x y level (fw_heads w (bucket_for x y level))
             (stats\<lparr>fs_bucket_visits := fs_bucket_visits stats + 1\<rparr>) of
        None \<Rightarrow> None
      | Some (match, stats) \<Rightarrow>
          if match \<noteq> empty_node then Some (match, stats)
          else walk_cells output w config candidate level cells stats)"

definition find_duplicate ::
  "target_record \<Rightarrow> target_record list \<Rightarrow> fusion_config \<Rightarrow> fusion_workspace \<Rightarrow> fusion_stats \<Rightarrow>
     (u32 \<times> fusion_stats) option" where
  "find_duplicate candidate output config w stats =
     (let own_level = target_level candidate
      in walk_cells output w config candidate own_level
           (neighbour_cells (floor_cell (tr_safe_x_q8 candidate) own_level) (floor_cell (tr_safe_y_q8 candidate) own_level))
           stats)"

definition node_levels :: "target_record \<Rightarrow> nat list" where
  "node_levels t = (let own_level = target_level t;
       first_level = (if own_level > minimum_level + 1 then own_level - 2 else minimum_level);
       last_level = min (own_level + 2) maximum_level
     in [first_level..<Suc last_level])"

definition insert_node :: "nat \<Rightarrow> target_record \<Rightarrow> nat \<Rightarrow> fusion_workspace \<Rightarrow> fusion_workspace" where
  "insert_node target_index t level w =
     (let bucket = bucket_for (floor_cell (tr_safe_x_q8 t) level) (floor_cell (tr_safe_y_q8 t) level) level
      in \<lparr>fw_heads = (fw_heads w)(bucket := word_of_nat (length (fw_nodes w))),
          fw_nodes = fw_nodes w @ [\<lparr>nd_next = fw_heads w bucket, nd_target_index = word_of_nat target_index,
                                    nd_level = word_of_nat level\<rparr>]\<rparr>)"

definition insert_nodes :: "nat \<Rightarrow> target_record \<Rightarrow> fusion_workspace \<Rightarrow> fusion_workspace" where
  "insert_nodes target_index t w = fold (insert_node target_index t) (node_levels t) w"

subsection \<open>The fusion of the packets\<close>

record fusion_state =
  fu_targets :: "target_record list"
  fu_workspace :: fusion_workspace
  fu_stats :: fusion_stats

definition empty_workspace :: fusion_workspace where
  "empty_workspace = \<lparr>fw_heads = (\<lambda>bucket. empty_node), fw_nodes = []\<rparr>"

definition start_fusion :: fusion_state where
  "start_fusion = \<lparr>fu_targets = [], fu_workspace = empty_workspace, fu_stats = zero_fusion_stats\<rparr>"

text \<open>A candidate's text is its packet and its index, both counted from one, until the end.\<close>

definition candidate_of :: "nat \<Rightarrow> nat \<Rightarrow> target_record \<Rightarrow> target_record" where
  "candidate_of packet_index index t =
     t\<lparr>tr_text := (if tx_size (tr_text t) = 0 then no_text
        else \<lparr>tx_offset = word_of_nat (packet_index + 1), tx_size = word_of_nat (index + 1)\<rparr>)\<rparr>"

definition fuse_candidate :: "fusion_config \<Rightarrow> target_record \<Rightarrow> fusion_state \<Rightarrow> fusion_state option" where
  "fuse_candidate config candidate s =
     (let stats = (fu_stats s)\<lparr>fs_candidates_read := fs_candidates_read (fu_stats s) + 1\<rparr>
      in case (if fc_merge_duplicates config
               then find_duplicate candidate (fu_targets s) config (fu_workspace s) stats
               else Some (empty_node, stats)) of
           None \<Rightarrow> None
         | Some (match, stats) \<Rightarrow>
             if match \<noteq> empty_node then
               (let (merged, stats) = merge_target (fu_targets s ! unat match) candidate stats
                in Some (s\<lparr>fu_targets := (fu_targets s)[unat match := merged],
                           fu_stats := stats\<lparr>fs_duplicates_merged := fs_duplicates_merged stats + 1\<rparr>\<rparr>))
             else if length (fu_targets s) = unat (fc_maximum_targets config) then
               Some (s\<lparr>fu_stats := stats\<lparr>fs_capacity_drops := fs_capacity_drops stats + 1\<rparr>\<rparr>)
             else
               Some (s\<lparr>fu_targets := fu_targets s @ [candidate],
                       fu_workspace := insert_nodes (length (fu_targets s)) candidate (fu_workspace s),
                       fu_stats := stats\<rparr>))"

fun fuse_candidates :: "fusion_config \<Rightarrow> nat \<Rightarrow> nat \<Rightarrow> target_record list \<Rightarrow> fusion_state \<Rightarrow> fusion_state option" where
  "fuse_candidates config packet_index index [] s = Some s"
| "fuse_candidates config packet_index index (t # ts) s =
     (case fuse_candidate config (candidate_of packet_index index t) s of
        None \<Rightarrow> None
      | Some s \<Rightarrow> fuse_candidates config packet_index (index + 1) ts s)"

fun fuse_packets :: "fusion_config \<Rightarrow> nat \<Rightarrow> packet_view list \<Rightarrow> fusion_state \<Rightarrow> fusion_state option" where
  "fuse_packets config packet_index [] s = Some s"
| "fuse_packets config packet_index (p # ps) s =
     (case fuse_candidates config packet_index 0 (pv_targets p)
             (s\<lparr>fu_stats := (fu_stats s)\<lparr>fs_packets_read := fs_packets_read (fu_stats s) + 1\<rparr>\<rparr>) of
        None \<Rightarrow> None
      | Some s \<Rightarrow> fuse_packets config (packet_index + 1) ps s)"

definition merged_packet_flags :: "packet_view list \<Rightarrow> u32" where
  "merged_packet_flags ps = foldl (\<lambda>flags p. flags OR ph_flags (pv_header p)) 0 ps"

text \<open>The last loop resolves the references: the targets, the text lane and the packet flags.\<close>

fun copy_texts :: "packet_view list \<Rightarrow> u32 \<Rightarrow> u32 \<Rightarrow> target_record list \<Rightarrow> target_record list \<times> u8 list \<times> u32" where
  "copy_texts ps text_size packet_flags [] = ([], [], packet_flags)"
| "copy_texts ps text_size packet_flags (t # ts) =
     (let source = tr_text t; t = t\<lparr>tr_text := no_text\<rparr> in
      if tx_offset source = 0 \<or> tx_size source = 0 then
        (let (ts, lane, flags) = copy_texts ps text_size packet_flags ts in (t # ts, lane, flags))
      else let bytes = target_text (ps ! (unat (tx_offset source) - 1)) (unat (tx_size source) - 1) in
        if length bytes > unat (ucast TARGET_PACKET_MAX_TEXT_BYTES - text_size) then
          (let (ts, lane, flags) = copy_texts ps text_size (packet_flags OR TARGET_PACKET_TEXT_TRUNCATED) ts
           in (t\<lparr>tr_flags := tr_flags t OR TARGET_TEXT_TRUNCATED\<rparr> # ts, lane, flags))
        else
          (let (ts, lane, flags) = copy_texts ps (text_size + word_of_nat (length bytes)) packet_flags ts
           in (t\<lparr>tr_text := \<lparr>tx_offset = ucast text_size, tx_size = word_of_nat (length bytes)\<rparr>\<rparr> # ts,
               bytes @ lane, flags)))"

definition fusion_header :: "fusion_epochs \<Rightarrow> nat \<Rightarrow> u32 \<Rightarrow> nat \<Rightarrow> packet_header" where
  "fusion_header e target_count packet_flags total_size = zero_header\<lparr>
     ph_struct_size := word_of_nat header_size, ph_packet_version := TARGET_PACKET_VERSION,
     ph_target_count := word_of_nat target_count, ph_target_stride := word_of_nat target_size,
     ph_flags := packet_flags, ph_coordinate_space := SPACE_DESKTOP_Q8, ph_scene_epoch := fe_scene_epoch e,
     ph_frame_id := fe_frame_id e, ph_capture_time_ns := fe_capture_time_ns e, ph_model_epoch := fe_model_epoch e,
     ph_session_epoch := fe_session_epoch e, ph_transform_epoch := fe_transform_epoch e,
     ph_topology_epoch := fe_topology_epoch e, ph_source_id := fe_source_id e,
     ph_targets_offset := word_of_nat header_size, ph_total_size := word_of_nat total_size\<rparr>"

definition epochs_match :: "packet_view option \<Rightarrow> fusion_epochs \<Rightarrow> bool" where
  "epochs_match packet e =
     (case packet of None \<Rightarrow> False
      | Some p \<Rightarrow> (let h = pv_header p in
          ph_coordinate_space h = SPACE_DESKTOP_Q8 \<and> ph_frame_id h = fe_frame_id e \<and>
          ph_session_epoch h = fe_session_epoch e \<and> ph_transform_epoch h = fe_transform_epoch e \<and>
          ph_topology_epoch h = fe_topology_epoch e))"

definition fusion_arguments_valid :: "nat \<Rightarrow> fusion_config \<Rightarrow> fusion_epochs \<Rightarrow> bool" where
  "fusion_arguments_valid packet_count c e \<longleftrightarrow>
     \<not> (packet_count = 0 \<or> packet_count > 4 \<or> fc_maximum_targets c = 0 \<or>
        fc_maximum_targets c > TARGET_PACKET_MAX_TARGETS \<or> fc_iou_threshold_q16 c = 0 \<or>
        fc_containment_threshold_q16 c = 0 \<or> fc_maximum_area_ratio_q8 c < 256 \<or> fc_reserved c \<noteq> 0 \<or>
        fe_scene_epoch e = 0 \<or> fe_frame_id e = 0 \<or> fe_model_epoch e = 0 \<or> fe_session_epoch e = 0 \<or>
        fe_transform_epoch e = 0 \<or> fe_topology_epoch e = 0 \<or> fe_source_id e = 0)"

text \<open>
  \<open>fuse\<close>: the result, the value stored to \<open>required\<close>, the statistics and the packet written.
  \<open>pointers\<close> says that the workspace, \<open>required\<close> and \<open>stats\<close> are not null; \<open>output\<close> is the
  capacity of an aligned buffer, which does not overlap the packets, or \<open>None\<close>. \<open>None\<close> stands
  for a call that does not return.
\<close>

type_synonym fusion_result = "saccade_result \<times> nat option \<times> fusion_stats option \<times> u8 list option"

definition fuse ::
  "packet_view option list option \<Rightarrow> fusion_config \<Rightarrow> fusion_epochs \<Rightarrow> bool \<Rightarrow> nat option \<Rightarrow> fusion_result option" where
  "fuse packets config epochs pointers output =
     (case packets of
        None \<Rightarrow> Some (SACCADE_ERROR_INVALID_ARGUMENT, None, None, None)
      | Some packets \<Rightarrow>
          if \<not> pointers \<or> \<not> fusion_arguments_valid (length packets) config epochs
          then Some (SACCADE_ERROR_INVALID_ARGUMENT, None, None, None)
          else let maximum_size = header_size + unat (fc_maximum_targets config) * target_size +
                     unat TARGET_PACKET_MAX_TEXT_BYTES in
            if output = None \<or> the output < maximum_size
            then Some (SACCADE_ERROR_CAPACITY, Some maximum_size, None, None)
            else if \<not> list_all (\<lambda>p. epochs_match p epochs) packets
            then Some (SACCADE_ERROR_STALE_HANDLE, Some maximum_size, None, None)
            else let views = map the packets in
              case fuse_packets config 0 views start_fusion of
                None \<Rightarrow> None
              | Some s \<Rightarrow>
                  let target_count = length (fu_targets s);
                      (targets, lane, packet_flags) = copy_texts views 0 (merged_packet_flags views) (fu_targets s);
                      total_size = header_size + target_count * target_size + length lane
                  in Some (SACCADE_OK, Some total_size,
                       Some ((fu_stats s)\<lparr>fs_targets_written := word_of_nat target_count\<rparr>),
                       Some (put_packet (fusion_header epochs target_count packet_flags total_size) targets lane)))"

subsection \<open>The grid\<close>

text \<open>The bucket a node hangs in, and the chain that starts at a node index.\<close>

definition node_bucket :: "target_record list \<Rightarrow> fusion_node \<Rightarrow> u32" where
  "node_bucket ts n = (let t = ts ! unat (nd_target_index n); level = unat (nd_level n)
     in bucket_for (floor_cell (tr_safe_x_q8 t) level) (floor_cell (tr_safe_y_q8 t) level) level)"

inductive chain :: "fusion_node list \<Rightarrow> u32 \<Rightarrow> nat list \<Rightarrow> bool" for nodes where
  chain_end: "chain nodes empty_node []"
| chain_link: "i < length nodes \<Longrightarrow> unat h = i \<Longrightarrow> h \<noteq> empty_node \<Longrightarrow> chain nodes (nd_next (nodes ! i)) ix \<Longrightarrow> chain nodes h (i # ix)"

lemma chain_more: "chain nodes h ix \<Longrightarrow> chain (nodes @ extra) h ix"
  by (induction rule: chain.induct) (auto intro: chain.intros simp: nth_append)

text \<open>Every node describes a target at one of its levels, and every bucket's chain lists exactly
  the nodes of that bucket.\<close>

definition bucket_nodes :: "target_record list \<Rightarrow> fusion_node list \<Rightarrow> u32 \<Rightarrow> nat list" where
  "bucket_nodes ts nodes b = rev (filter (\<lambda>i. node_bucket ts (nodes ! i) = b) [0..<length nodes])"

definition grid_inv :: "target_record list \<Rightarrow> fusion_workspace \<Rightarrow> bool" where
  "grid_inv ts w \<longleftrightarrow> list_all (\<lambda>n. unat (nd_target_index n) < length ts) (fw_nodes w) \<and>
     length (fw_nodes w) \<le> fusion_nodes_per_target * length ts \<and>
     (\<forall>b. chain (fw_nodes w) (fw_heads w b) (bucket_nodes ts (fw_nodes w) b))"

text \<open>What the walk along a chain computes.\<close>

fun search_nodes ::
  "target_record list \<Rightarrow> fusion_node list \<Rightarrow> fusion_config \<Rightarrow> target_record \<Rightarrow> int \<Rightarrow> int \<Rightarrow> nat \<Rightarrow> nat list \<Rightarrow>
     fusion_stats \<Rightarrow> u32 \<times> fusion_stats" where
  "search_nodes ts nodes c t x y level [] stats = (empty_node, stats)"
| "search_nodes ts nodes c t x y level (i # ix) stats =
     (if matching_node (nodes ! i) x y level ts then
        (let hit = duplicate (ts ! unat (nd_target_index (nodes ! i))) t c stats in
         if fst hit then (ucast (nd_target_index (nodes ! i)), snd hit)
         else search_nodes ts nodes c t x y level ix (snd hit))
      else search_nodes ts nodes c t x y level ix stats)"

lemma walk_chain_search:
  "chain nodes h ix \<Longrightarrow> walk_chain ts nodes c t x y level h stats = Some (search_nodes ts nodes c t x y level ix stats)"
proof (induction arbitrary: stats rule: chain.induct)
  case chain_end
  then show ?case by (simp add: walk_chain.simps)
next
  case (chain_link i h ix)
  then show ?case by (subst walk_chain.simps) (simp add: Let_def)
qed

text \<open>The answer of the overlap test does not depend on the statistics.\<close>

lemma duplicate_stats: "fst (duplicate l r c stats) = fst (duplicate l r c zero_fusion_stats)"
  by (simp add: duplicate_def Let_def)

definition node_matches :: "target_record list \<Rightarrow> fusion_config \<Rightarrow> target_record \<Rightarrow> int \<Rightarrow> int \<Rightarrow> nat \<Rightarrow> fusion_node \<Rightarrow> bool" where
  "node_matches ts c t x y level n \<longleftrightarrow> matching_node n x y level ts \<and>
     fst (duplicate (ts ! unat (nd_target_index n)) t c zero_fusion_stats)"

lemma search_nodes_result:
  "fst (search_nodes ts nodes c t x y level ix stats) =
    (case List.find (\<lambda>i. node_matches ts c t x y level (nodes ! i)) ix of
       None \<Rightarrow> empty_node | Some i \<Rightarrow> ucast (nd_target_index (nodes ! i)))"
proof (induction ix arbitrary: stats)
  case Nil
  then show ?case by simp
next
  case (Cons i ix)
  then show ?case
    by (simp add: Let_def node_matches_def duplicate_stats [of _ _ _ stats])
qed

lemma target_level_bounds: "12 \<le> target_level t" "target_level t \<le> 30"
  by (simp_all add: target_level_def minimum_level_def maximum_level_def Let_def)

lemma node_levels_bounds:
  "level \<in> set (node_levels t) \<Longrightarrow> 12 \<le> level \<and> level \<le> 30" "length (node_levels t) \<le> 5"
  "distinct (node_levels t)"
  "level \<in> set (node_levels t) \<longleftrightarrow> 12 \<le> level \<and> level \<le> 30 \<and> level \<le> target_level t + 2 \<and> target_level t \<le> level + 2"
proof -
  obtain l where l: "target_level t = l" "12 \<le> l" "l \<le> 30" using target_level_bounds by blast
  then show "level \<in> set (node_levels t) \<Longrightarrow> 12 \<le> level \<and> level \<le> 30" "length (node_levels t) \<le> 5"
    "distinct (node_levels t)"
    "level \<in> set (node_levels t) \<longleftrightarrow> 12 \<le> level \<and> level \<le> 30 \<and> level \<le> target_level t + 2 \<and> target_level t \<le> level + 2"
    unfolding node_levels_def l(1) Let_def minimum_level_def maximum_level_def set_upt length_upt
    by (auto simp: min_def simp del: upt_Suc split: if_splits)
qed

lemma insert_node_inv:
  assumes "list_all (\<lambda>n. unat (nd_target_index n) < length ts) (fw_nodes w)"
    "\<forall>b. chain (fw_nodes w) (fw_heads w b) (bucket_nodes ts (fw_nodes w) b)"
    "length (fw_nodes w) < 4294967295" "k < length ts" "length ts \<le> 10000" "12 \<le> level" "level \<le> 30"
  shows "list_all (\<lambda>n. unat (nd_target_index n) < length ts) (fw_nodes (insert_node k (ts ! k) level w)) \<and>
    (\<forall>b. chain (fw_nodes (insert_node k (ts ! k) level w)) (fw_heads (insert_node k (ts ! k) level w) b)
       (bucket_nodes ts (fw_nodes (insert_node k (ts ! k) level w)) b))"
proof -
  let ?n = "length (fw_nodes w)"
  let ?b = "bucket_for (floor_cell (tr_safe_x_q8 (ts ! k)) level) (floor_cell (tr_safe_y_q8 (ts ! k)) level) level"
  let ?node = "\<lparr>nd_next = fw_heads w ?b, nd_target_index = word_of_nat k, nd_level = word_of_nat level\<rparr> :: fusion_node"
  have u: "unat (word_of_nat k :: u16) = k" "unat (word_of_nat level :: u8) = level"
    using assms(4-7) by (simp_all add: unat_of_nat)
  have n: "unat (word_of_nat ?n :: u32) = ?n" using assms(3) by (simp add: unat_of_nat)
  have ne: "(word_of_nat ?n :: u32) \<noteq> empty_node" using n assms(3) by auto
  have nb: "node_bucket ts ?node = ?b" by (simp add: node_bucket_def u Let_def)
  have old: "filter (\<lambda>i. node_bucket ts ((fw_nodes w @ [?node]) ! i) = b) [0..<?n] =
      filter (\<lambda>i. node_bucket ts (fw_nodes w ! i) = b) [0..<?n]" for b
    by (rule filter_cong) (auto simp: nth_append)
  have bn: "bucket_nodes ts (fw_nodes w @ [?node]) b =
      (if b = ?b then [?n] else []) @ bucket_nodes ts (fw_nodes w) b" for b
    unfolding bucket_nodes_def using old nb by simp
  have "chain (fw_nodes w @ [?node]) (((fw_heads w)(?b := word_of_nat ?n)) b) (bucket_nodes ts (fw_nodes w @ [?node]) b)" for b
  proof (cases "b = ?b")
    case True
    have "chain (fw_nodes w @ [?node]) (word_of_nat ?n) (?n # bucket_nodes ts (fw_nodes w) ?b)"
      using n ne assms(2) by (intro chain_link) (auto intro: chain_more)
    then show ?thesis unfolding bn True by simp
  next
    case False
    then show ?thesis unfolding bn using assms(2) by (auto intro: chain_more)
  qed
  then show ?thesis using assms(1,4) u by (simp add: insert_node_def Let_def)
qed

text \<open>Where a target is: all the grid knows of it.\<close>

definition same_place :: "target_record \<Rightarrow> target_record \<Rightarrow> bool" where
  "same_place t u \<longleftrightarrow> tr_x_q8 t = tr_x_q8 u \<and> tr_y_q8 t = tr_y_q8 u \<and> tr_width_q8 t = tr_width_q8 u \<and>
     tr_height_q8 t = tr_height_q8 u \<and> tr_safe_x_q8 t = tr_safe_x_q8 u \<and> tr_safe_y_q8 t = tr_safe_y_q8 u"

definition indexed :: "target_record list \<Rightarrow> fusion_workspace \<Rightarrow> bool" where
  "indexed ts w \<longleftrightarrow> (\<forall>k < length ts. \<forall>level \<in> set (node_levels (ts ! k)).
     \<exists>n \<in> set (fw_nodes w). unat (nd_target_index n) = k \<and> unat (nd_level n) = level)"

lemma same_place_levels: "same_place t u \<Longrightarrow> node_levels t = node_levels u"
  by (simp add: same_place_def node_levels_def target_level_def)

lemma grid_inv_empty: "grid_inv [] empty_workspace" "indexed [] empty_workspace"
  by (auto simp: grid_inv_def empty_workspace_def bucket_nodes_def indexed_def intro: chain_end)

lemma insert_fold_inv:
  assumes "list_all (\<lambda>n. unat (nd_target_index n) < length ts) (fw_nodes w)"
    "\<forall>b. chain (fw_nodes w) (fw_heads w b) (bucket_nodes ts (fw_nodes w) b)"
    "length (fw_nodes w) + length levels \<le> 50000" "k < length ts" "length ts \<le> 10000"
    "\<forall>level \<in> set levels. 12 \<le> level \<and> level \<le> 30"
  defines "w' \<equiv> fold (insert_node k (ts ! k)) levels w"
  shows "list_all (\<lambda>n. unat (nd_target_index n) < length ts) (fw_nodes w') \<and>
    (\<forall>b. chain (fw_nodes w') (fw_heads w' b) (bucket_nodes ts (fw_nodes w') b)) \<and>
    length (fw_nodes w') = length (fw_nodes w) + length levels \<and> set (fw_nodes w) \<subseteq> set (fw_nodes w') \<and>
    (\<forall>level \<in> set levels. \<exists>n \<in> set (fw_nodes w'). unat (nd_target_index n) = k \<and> unat (nd_level n) = level)"
  using assms(1-6) unfolding w'_def
proof (induction levels arbitrary: w)
  case Nil
  then show ?case by simp
next
  case (Cons level levels)
  let ?w = "insert_node k (ts ! k) level w"
  have l: "12 \<le> level" "level \<le> 30" using Cons.prems(6) by simp_all
  have "length (fw_nodes w) < 4294967295" using Cons.prems(3) by simp
  note step = insert_node_inv [OF Cons.prems(1,2) this Cons.prems(4,5) l]
  have len: "length (fw_nodes ?w) = Suc (length (fw_nodes w))" "set (fw_nodes w) \<subseteq> set (fw_nodes ?w)"
    by (auto simp: insert_node_def Let_def)
  have "\<exists>n \<in> set (fw_nodes ?w). unat (nd_target_index n) = k \<and> unat (nd_level n) = level"
    using l Cons.prems(4,5) by (simp add: insert_node_def Let_def unat_of_nat)
  moreover have "length (fw_nodes ?w) + length levels \<le> 50000" using Cons.prems(3) len by simp
  note IH = Cons.IH [OF conjunct1 [OF step] conjunct2 [OF step] this Cons.prems(4,5)]
  ultimately show ?case using IH Cons.prems(6) len by (simp add: subset_iff) blast
qed

lemma node_bucket_prefix:
  "list_all (\<lambda>n. unat (nd_target_index n) < length ts) nodes \<Longrightarrow> bucket_nodes (ts @ us) nodes b = bucket_nodes ts nodes b"
  unfolding bucket_nodes_def
  by (rule arg_cong [of _ _ rev], rule filter_cong) (auto simp: node_bucket_def Let_def nth_append list_all_length)

lemma insert_nodes_inv:
  assumes "grid_inv ts w" "indexed ts w" "length ts < 10000"
  shows "grid_inv (ts @ [t]) (insert_nodes (length ts) t w) \<and> indexed (ts @ [t]) (insert_nodes (length ts) t w)"
proof -
  let ?ts = "ts @ [t]" and ?w = "insert_nodes (length ts) t w"
  have pre: "list_all (\<lambda>n. unat (nd_target_index n) < length ?ts) (fw_nodes w)"
    using assms(1) by (auto simp: grid_inv_def list_all_iff)
  have ch: "\<forall>b. chain (fw_nodes w) (fw_heads w b) (bucket_nodes ?ts (fw_nodes w) b)"
    using assms(1) by (simp add: grid_inv_def node_bucket_prefix)
  have len: "length (fw_nodes w) + length (node_levels t) \<le> 50000"
    using assms node_levels_bounds(2) [of t] by (simp add: grid_inv_def fusion_nodes_per_target_def)
  have b: "\<forall>level \<in> set (node_levels t). 12 \<le> level \<and> level \<le> 30" using node_levels_bounds(1) by blast
  have k: "length ts < length ?ts" "length ?ts \<le> 10000" "?ts ! length ts = t" using assms(3) by simp_all
  note i = insert_fold_inv [OF pre ch len k(1,2) b, unfolded k(3), folded insert_nodes_def]
  have "grid_inv ?ts ?w"
    using i assms(1) node_levels_bounds(2) [of t] by (simp add: grid_inv_def fusion_nodes_per_target_def)
  moreover have "indexed ?ts ?w"
    unfolding indexed_def
  proof (intro allI impI ballI)
    fix k level assume k: "k < length ?ts" "level \<in> set (node_levels (?ts ! k))"
    show "\<exists>n\<in>set (fw_nodes ?w). unat (nd_target_index n) = k \<and> unat (nd_level n) = level"
    proof (cases "k = length ts")
      case True
      then show ?thesis using i k by simp
    next
      case False
      then have "\<exists>n\<in>set (fw_nodes w). unat (nd_target_index n) = k \<and> unat (nd_level n) = level"
        using assms(2) k by (simp add: indexed_def nth_append less_Suc_eq)
      then show ?thesis using i by blast
    qed
  qed
  ultimately show ?thesis ..
qed

lemma same_place_update:
  assumes "same_place (ts ! k) t" "k < length ts"
  shows "grid_inv (ts[k := t]) w \<longleftrightarrow> grid_inv ts w" "indexed (ts[k := t]) w \<longleftrightarrow> indexed ts w"
proof -
  have "node_bucket (ts[k := t]) n = node_bucket ts n" for n
    using assms by (cases "unat (nd_target_index n) = k") (simp_all add: node_bucket_def same_place_def Let_def)
  then show "grid_inv (ts[k := t]) w \<longleftrightarrow> grid_inv ts w" by (simp add: grid_inv_def bucket_nodes_def)
  show "indexed (ts[k := t]) w \<longleftrightarrow> indexed ts w"
    using assms same_place_levels [OF assms(1)] by (auto simp: indexed_def nth_list_update)
qed

subsection \<open>The search\<close>

text \<open>The search only moves the two counters of its own.\<close>

definition counters_only :: "fusion_stats \<Rightarrow> fusion_stats \<Rightarrow> bool" where
  "counters_only a b \<longleftrightarrow> b = a\<lparr>fs_bucket_visits := fs_bucket_visits b, fs_overlap_tests := fs_overlap_tests b\<rparr>"

lemma counters_only_refl [simp]: "counters_only a a"
  by (simp add: counters_only_def)

lemma counters_only_trans: "counters_only a b \<Longrightarrow> counters_only b c \<Longrightarrow> counters_only a c"
  unfolding counters_only_def by (cases a; cases b; cases c) simp

lemma counters_only_duplicate: "counters_only a (snd (duplicate l r c a))"
  by (simp add: counters_only_def duplicate_def Let_def)

lemma counters_only_search: "counters_only a (snd (search_nodes ts nodes c t x y level ix a))"
proof (induction ix arbitrary: a)
  case Nil
  then show ?case by simp
next
  case (Cons i ix)
  then show ?case by (auto simp: Let_def counters_only_duplicate intro: counters_only_trans [OF counters_only_duplicate])
qed

lemma matching_bucket:
  "matching_node n x y level ts \<Longrightarrow> node_bucket ts n = bucket_for x y level"
  by (simp add: matching_node_def node_bucket_def Let_def)

text \<open>One bucket: the walk ends, and it finds a match if the grid holds one for the cell.\<close>

lemma walk_bucket:
  assumes "grid_inv ts w" "length ts \<le> 10000"
  obtains m s where "walk_chain ts (fw_nodes w) c t x y level (fw_heads w (bucket_for x y level)) stats = Some (m, s)"
    "counters_only stats s"
    "m = empty_node \<longleftrightarrow> \<not> list_ex (node_matches ts c t x y level) (fw_nodes w)"
    "m \<noteq> empty_node \<longrightarrow> (\<exists>n \<in> set (fw_nodes w). node_matches ts c t x y level n \<and> unat m = unat (nd_target_index n))"
proof -
  let ?b = "bucket_for x y level" and ?nodes = "fw_nodes w"
  let ?ix = "bucket_nodes ts ?nodes ?b"
  let ?r = "search_nodes ts ?nodes c t x y level ?ix stats"
  have "chain ?nodes (fw_heads w ?b) ?ix" using assms(1) by (simp add: grid_inv_def)
  from walk_chain_search [OF this] have walk: "walk_chain ts ?nodes c t x y level (fw_heads w ?b) stats = Some (fst ?r, snd ?r)"
    by simp
  have mem: "i \<in> set ?ix \<longleftrightarrow> i < length ?nodes \<and> node_bucket ts (?nodes ! i) = ?b" for i
    by (auto simp: bucket_nodes_def)
  have small: "ucast v \<noteq> empty_node" "unat (ucast v :: u32) = unat v" for v :: u16
  proof -
    show u: "unat (ucast v :: u32) = unat v" by simp
    show "ucast v \<noteq> empty_node"
    proof
      assume "ucast v = empty_node"
      then have "unat (ucast v :: u32) = unat empty_node" by (rule arg_cong)
      then show False using unat16_lt [of v] unfolding u by simp
    qed
  qed
  note res = search_nodes_result [of ts ?nodes c t x y level ?ix stats]
  show ?thesis
  proof (cases "List.find (\<lambda>i. node_matches ts c t x y level (?nodes ! i)) ?ix")
    case None
    then have "\<not> list_ex (node_matches ts c t x y level) ?nodes"
      using mem matching_bucket by (auto simp: list_ex_iff in_set_conv_nth node_matches_def)
    moreover have "fst ?r = empty_node" unfolding res None by simp
    ultimately show ?thesis using that walk counters_only_search by blast
  next
    case (Some i)
    then have i: "i \<in> set ?ix" "node_matches ts c t x y level (?nodes ! i)" using find_Some_iff_hd by fastforce+
    then have n: "?nodes ! i \<in> set ?nodes" using mem by simp
    have m: "fst ?r = ucast (nd_target_index (?nodes ! i))" unfolding res Some by simp
    show ?thesis
    proof (rule that [OF walk counters_only_search])
      show "fst ?r = empty_node \<longleftrightarrow> \<not> list_ex (node_matches ts c t x y level) ?nodes"
        unfolding m using small(1) i(2) n by (auto simp: list_ex_iff)
      show "fst ?r \<noteq> empty_node \<longrightarrow>
          (\<exists>n\<in>set ?nodes. node_matches ts c t x y level n \<and> unat (fst ?r) = unat (nd_target_index n))"
        unfolding m small(2) using i(2) n by blast
    qed
  qed
qed

lemma walk_cells_exact:
  assumes "grid_inv ts w" "length ts \<le> 10000"
  obtains m s where "walk_cells ts w c t level cells stats = Some (m, s)" "counters_only stats s"
    "m = empty_node \<longleftrightarrow> \<not> list_ex (\<lambda>(x, y). list_ex (node_matches ts c t x y level) (fw_nodes w)) cells"
    "m \<noteq> empty_node \<longrightarrow> (\<exists>(x, y) \<in> set cells. \<exists>n \<in> set (fw_nodes w).
       node_matches ts c t x y level n \<and> unat m = unat (nd_target_index n))"
proof -
  have "\<exists>m s. walk_cells ts w c t level cells stats = Some (m, s) \<and> counters_only stats s \<and>
      (m = empty_node \<longleftrightarrow> \<not> list_ex (\<lambda>(x, y). list_ex (node_matches ts c t x y level) (fw_nodes w)) cells) \<and>
      (m \<noteq> empty_node \<longrightarrow> (\<exists>(x, y) \<in> set cells. \<exists>n \<in> set (fw_nodes w).
         node_matches ts c t x y level n \<and> unat m = unat (nd_target_index n)))"
  proof (induction cells arbitrary: stats)
    case Nil
    then show ?case by simp
  next
    case (Cons cell cells)
    obtain x y where xy: "cell = (x, y)" by fastforce
    let ?stats = "stats\<lparr>fs_bucket_visits := fs_bucket_visits stats + 1\<rparr>"
    have k: "counters_only stats ?stats" by (simp add: counters_only_def)
    obtain m s where w: "walk_chain ts (fw_nodes w) c t x y level (fw_heads w (bucket_for x y level)) ?stats = Some (m, s)"
      and s: "counters_only ?stats s" and e: "m = empty_node \<longleftrightarrow> \<not> list_ex (node_matches ts c t x y level) (fw_nodes w)"
      and h: "m \<noteq> empty_node \<longrightarrow> (\<exists>n \<in> set (fw_nodes w). node_matches ts c t x y level n \<and> unat m = unat (nd_target_index n))"
      by (rule walk_bucket [OF assms, where c = c and t = t and x = x and y = y and level = level and stats = ?stats])
    have s: "counters_only stats s" by (rule counters_only_trans [OF k s])
    show ?case
    proof (cases "m = empty_node")
      case True
      obtain m' s' where r: "walk_cells ts w c t level cells s = Some (m', s')" "counters_only s s'"
        "m' = empty_node \<longleftrightarrow> \<not> list_ex (\<lambda>(x, y). list_ex (node_matches ts c t x y level) (fw_nodes w)) cells"
        "m' \<noteq> empty_node \<longrightarrow> (\<exists>(x, y) \<in> set cells. \<exists>n \<in> set (fw_nodes w).
           node_matches ts c t x y level n \<and> unat m' = unat (nd_target_index n))"
        using Cons.IH [of s] by blast
      show ?thesis using r w e True xy counters_only_trans [OF s r(2)] by auto
    next
      case False
      then show ?thesis using w e h s xy by auto
    qed
  qed
  then show ?thesis using that by blast
qed

text \<open>
  The specification: a target is near a candidate if its size level differs by at most two and
  its safe point lies in one of the nine cells around the candidate's, at the candidate's level.
\<close>

definition near :: "target_record \<Rightarrow> target_record \<Rightarrow> bool" where
  "near t c \<longleftrightarrow> (let level = target_level c in
     target_level t \<le> level + 2 \<and> level \<le> target_level t + 2 \<and>
     \<bar>floor_cell (tr_safe_x_q8 t) level - floor_cell (tr_safe_x_q8 c) level\<bar> \<le> 1 \<and>
     \<bar>floor_cell (tr_safe_y_q8 t) level - floor_cell (tr_safe_y_q8 c) level\<bar> \<le> 1)"

definition duplicates :: "fusion_config \<Rightarrow> target_record \<Rightarrow> target_record \<Rightarrow> bool" where
  "duplicates config candidate t \<longleftrightarrow> near t candidate \<and> fst (duplicate t candidate config zero_fusion_stats)"

lemma neighbour_cells_iff: "(x, y) \<in> set (neighbour_cells cx cy) \<longleftrightarrow> \<bar>x - cx\<bar> \<le> 1 \<and> \<bar>y - cy\<bar> \<le> 1"
proof -
  have close: "\<bar>a - b\<bar> \<le> 1 \<longleftrightarrow> a \<in> {b - 1, b, b + 1}" for a b :: int by auto
  have "set (neighbour_cells cx cy) = {cx - 1, cx, cx + 1} \<times> {cy - 1, cy, cy + 1}"
    unfolding neighbour_cells_def by (simp add: insert_Times_insert) blast
  then show ?thesis unfolding close by (simp only: mem_Times_iff fst_conv snd_conv)
qed

definition levels_of_nodes :: "target_record list \<Rightarrow> fusion_workspace \<Rightarrow> bool" where
  "levels_of_nodes ts w \<longleftrightarrow>
     list_all (\<lambda>n. unat (nd_level n) \<in> set (node_levels (ts ! unat (nd_target_index n)))) (fw_nodes w)"

lemma find_duplicate_exact:
  assumes "grid_inv ts w" "indexed ts w" "levels_of_nodes ts w" "length ts \<le> 10000"
  obtains m s where "find_duplicate t ts c w stats = Some (m, s)" "counters_only stats s"
    "if m = empty_node then \<not> list_ex (duplicates c t) ts else unat m < length ts \<and> duplicates c t (ts ! unat m)"
proof -
  let ?l = "target_level t"
  let ?cells = "neighbour_cells (floor_cell (tr_safe_x_q8 t) ?l) (floor_cell (tr_safe_y_q8 t) ?l)"
  obtain m s where w: "walk_cells ts w c t ?l ?cells stats = Some (m, s)" and s: "counters_only stats s"
    and e: "m = empty_node \<longleftrightarrow> \<not> list_ex (\<lambda>(x, y). list_ex (node_matches ts c t x y ?l) (fw_nodes w)) ?cells"
    and h: "m \<noteq> empty_node \<longrightarrow> (\<exists>(x, y) \<in> set ?cells. \<exists>n \<in> set (fw_nodes w).
       node_matches ts c t x y ?l n \<and> unat m = unat (nd_target_index n))"
    by (rule walk_cells_exact [OF assms(1,4), where c = c and t = t and level = ?l and cells = ?cells and stats = stats])
  have node: "unat (nd_target_index n) < length ts \<and> duplicates c t (ts ! unat (nd_target_index n))"
    if "n \<in> set (fw_nodes w)" "(x, y) \<in> set ?cells" "node_matches ts c t x y ?l n" for n x y
    using that assms(1,3) by (auto simp: grid_inv_def levels_of_nodes_def list_all_iff node_matches_def matching_node_def
        duplicates_def near_def Let_def neighbour_cells_iff node_levels_bounds(4))
  have "if m = empty_node then \<not> list_ex (duplicates c t) ts else unat m < length ts \<and> duplicates c t (ts ! unat m)"
  proof (cases "m = empty_node")
    case True
    have "\<not> duplicates c t (ts ! k)" if k: "k < length ts" for k
    proof
      assume d: "duplicates c t (ts ! k)"
      then have "?l \<in> set (node_levels (ts ! k))"
        using target_level_bounds [of t] by (auto simp: node_levels_bounds(4) duplicates_def near_def Let_def)
      then obtain n where n: "n \<in> set (fw_nodes w)" "unat (nd_target_index n) = k" "unat (nd_level n) = ?l"
        using assms(2) k by (auto simp: indexed_def)
      let ?x = "floor_cell (tr_safe_x_q8 (ts ! k)) ?l" and ?y = "floor_cell (tr_safe_y_q8 (ts ! k)) ?l"
      have "(?x, ?y) \<in> set ?cells" using d by (simp add: neighbour_cells_iff duplicates_def near_def Let_def)
      moreover have "node_matches ts c t ?x ?y ?l n"
        using d n by (simp add: node_matches_def matching_node_def duplicates_def)
      ultimately show False using e True n(1) by (fastforce simp: list_ex_iff)
    qed
    then show ?thesis using True by (auto simp: list_ex_length)
  next
    case False
    then show ?thesis using h node by fastforce
  qed
  then show ?thesis using that w s by (simp add: find_duplicate_def Let_def)
qed

subsection \<open>The fusion loop\<close>

lemma insert_nodes_levels:
  assumes "levels_of_nodes ts w" "grid_inv ts w" "length ts < 10000"
  shows "levels_of_nodes (ts @ [t]) (insert_nodes (length ts) t w)"
proof -
  have old: "levels_of_nodes (ts @ [t]) w"
    using assms(1,2) by (auto simp: levels_of_nodes_def grid_inv_def list_all_iff nth_append)
  have "levels_of_nodes (ts @ [t]) (fold (insert_node (length ts) t) levels w)"
    if "set levels \<subseteq> set (node_levels t)" "levels_of_nodes (ts @ [t]) w" for levels w
    using that
  proof (induction levels arbitrary: w)
    case Nil
    then show ?case by simp
  next
    case (Cons level levels)
    have "level \<le> 30" using Cons.prems(1) node_levels_bounds(1) [of level t] by simp
    then have "levels_of_nodes (ts @ [t]) (insert_node (length ts) t level w)"
      using Cons.prems assms(3) by (simp add: levels_of_nodes_def insert_node_def Let_def unat_of_nat)
    then show ?case using Cons.IH Cons.prems(1) by simp
  qed
  then show ?thesis using old by (simp add: insert_nodes_def)
qed

definition fusion_inv :: "fusion_config \<Rightarrow> fusion_state \<Rightarrow> bool" where
  "fusion_inv c s \<longleftrightarrow> grid_inv (fu_targets s) (fu_workspace s) \<and> indexed (fu_targets s) (fu_workspace s) \<and>
     levels_of_nodes (fu_targets s) (fu_workspace s) \<and> length (fu_targets s) \<le> unat (fc_maximum_targets c)"

definition accounted :: "fusion_state \<Rightarrow> bool" where
  "accounted s \<longleftrightarrow> fs_candidates_read (fu_stats s) =
     fs_duplicates_merged (fu_stats s) + fs_capacity_drops (fu_stats s) + word_of_nat (length (fu_targets s))"

lemma merge_target_place: "same_place t (fst (merge_target t c st))"
  by (simp add: same_place_def merge_target_def merge_fields_def Let_def)

lemma merge_target_stats:
  "fs_candidates_read (snd (merge_target t c st)) = fs_candidates_read st"
  "fs_duplicates_merged (snd (merge_target t c st)) = fs_duplicates_merged st"
  "fs_capacity_drops (snd (merge_target t c st)) = fs_capacity_drops st"
  by (simp_all add: merge_target_def Let_def)

lemma same_place_levels_update:
  assumes "same_place (ts ! k) t" "k < length ts"
  shows "levels_of_nodes (ts[k := t]) w \<longleftrightarrow> levels_of_nodes ts w"
proof -
  have "node_levels (ts[k := t] ! i) = node_levels (ts ! i)" for i
    using assms same_place_levels by (cases "i = k") auto
  then show ?thesis by (simp add: levels_of_nodes_def)
qed

text \<open>One candidate: the step returns, keeps the invariant, and merges the candidate into a target it
  duplicates, appends it, or drops it.\<close>

lemma fuse_candidate_step:
  assumes "fusion_inv c s" "fc_maximum_targets c \<le> TARGET_PACKET_MAX_TARGETS"
  obtains s' where "fuse_candidate c t s = Some s'" "fusion_inv c s'" "accounted s \<longrightarrow> accounted s'"
    "(\<exists>k < length (fu_targets s). \<exists>st. fc_merge_duplicates c \<and> duplicates c t (fu_targets s ! k) \<and>
        fu_targets s' = (fu_targets s)[k := fst (merge_target (fu_targets s ! k) t st)]) \<or>
     ((fc_merge_duplicates c \<longrightarrow> \<not> list_ex (duplicates c t) (fu_targets s)) \<and>
      fu_targets s' = (if length (fu_targets s) = unat (fc_maximum_targets c) then fu_targets s else fu_targets s @ [t]))"
    "fs_capacity_drops (fu_stats s') = fs_capacity_drops (fu_stats s) +
      (if fc_merge_duplicates c \<and> list_ex (duplicates c t) (fu_targets s) then 0
       else if length (fu_targets s) = unat (fc_maximum_targets c) then 1 else 0)"
proof -
  let ?ts = "fu_targets s" and ?w = "fu_workspace s"
  let ?stats = "(fu_stats s)\<lparr>fs_candidates_read := fs_candidates_read (fu_stats s) + 1\<rparr>"
  have g: "grid_inv ?ts ?w" "indexed ?ts ?w" "levels_of_nodes ?ts ?w" "length ?ts \<le> unat (fc_maximum_targets c)"
    using assms(1) by (simp_all add: fusion_inv_def)
  have max: "unat (fc_maximum_targets c) \<le> 10000" using assms(2) by (simp add: word_le_nat_alt)
  then have len: "length ?ts \<le> 10000" using g(4) by simp
  obtain m st where f: "find_duplicate t ?ts c ?w ?stats = Some (m, st)" "counters_only ?stats st"
    and hit: "if m = empty_node then \<not> list_ex (duplicates c t) ?ts else unat m < length ?ts \<and> duplicates c t (?ts ! unat m)"
    by (rule find_duplicate_exact [OF g(1-3) len, where t = t and c = c and stats = ?stats])
  define search where "search = (if fc_merge_duplicates c then find_duplicate t ?ts c ?w ?stats else Some (empty_node, ?stats))"
  define m' where "m' = (if fc_merge_duplicates c then m else empty_node)"
  define st' where "st' = (if fc_merge_duplicates c then st else ?stats)"
  have search: "search = Some (m', st')" "counters_only ?stats st'"
    using f by (simp_all add: search_def m'_def st'_def)
  have count: "fs_candidates_read st' = fs_candidates_read (fu_stats s) + 1"
    "fs_duplicates_merged st' = fs_duplicates_merged (fu_stats s)" "fs_capacity_drops st' = fs_capacity_drops (fu_stats s)"
    using arg_cong [OF search(2) [unfolded counters_only_def], of fs_candidates_read]
      arg_cong [OF search(2) [unfolded counters_only_def], of fs_duplicates_merged]
      arg_cong [OF search(2) [unfolded counters_only_def], of fs_capacity_drops] by simp_all
  note step = fuse_candidate_def [of c t s, unfolded Let_def, folded search_def, unfolded search(1) option.case prod.case]
  show ?thesis
  proof (cases "m' = empty_node")
    case False
    then have m: "fc_merge_duplicates c" "m' = m" "unat m < length ?ts" "duplicates c t (?ts ! unat m)"
      using hit by (simp_all add: m'_def split: if_splits)
    let ?k = "unat m" let ?r = "merge_target (?ts ! ?k) t st'"
    let ?s = "s\<lparr>fu_targets := ?ts[?k := fst ?r],
        fu_stats := (snd ?r)\<lparr>fs_duplicates_merged := fs_duplicates_merged (snd ?r) + 1\<rparr>\<rparr>"
    have "fuse_candidate c t s = Some ?s" unfolding step using False m(2) by (simp add: split_beta Let_def)
    moreover have "fusion_inv c ?s"
      using g m(3) merge_target_place [of "?ts ! ?k" t st']
      by (simp add: fusion_inv_def same_place_update same_place_levels_update)
    moreover have "accounted s \<longrightarrow> accounted ?s"
      using count by (simp add: accounted_def merge_target_stats)
    moreover have "list_ex (duplicates c t) ?ts" using m(3,4) by (auto simp: list_ex_length)
    then have "fs_capacity_drops (fu_stats ?s) = fs_capacity_drops (fu_stats s) +
      (if fc_merge_duplicates c \<and> list_ex (duplicates c t) ?ts then 0
       else if length ?ts = unat (fc_maximum_targets c) then 1 else 0)" using m(1) count(3) by (simp add: merge_target_stats)
    moreover have "\<exists>k < length ?ts. \<exists>st. fc_merge_duplicates c \<and> duplicates c t (?ts ! k) \<and>
        fu_targets ?s = ?ts[k := fst (merge_target (?ts ! k) t st)]" using m by auto
    ultimately show ?thesis using that by blast
  next
    case True
    have none: "fc_merge_duplicates c \<longrightarrow> \<not> list_ex (duplicates c t) ?ts"
      using True hit by (auto simp: m'_def split: if_splits)
    show ?thesis
    proof (cases "length ?ts = unat (fc_maximum_targets c)")
      case full: True
      let ?s = "s\<lparr>fu_stats := st'\<lparr>fs_capacity_drops := fs_capacity_drops st' + 1\<rparr>\<rparr>"
      have "fuse_candidate c t s = Some ?s" unfolding step using True full by simp
      moreover have "fusion_inv c ?s" using assms(1) by (simp add: fusion_inv_def)
      moreover have "accounted s \<longrightarrow> accounted ?s" using count by (simp add: accounted_def)
      moreover have "fs_capacity_drops (fu_stats ?s) = fs_capacity_drops (fu_stats s) +
        (if fc_merge_duplicates c \<and> list_ex (duplicates c t) ?ts then 0
         else if length ?ts = unat (fc_maximum_targets c) then 1 else 0)" using none full count(3) by simp
      ultimately show ?thesis using that none full by fastforce
    next
      case room: False
      let ?s = "s\<lparr>fu_targets := ?ts @ [t], fu_workspace := insert_nodes (length ?ts) t ?w, fu_stats := st'\<rparr>"
      have lt: "length ?ts < 10000" using room g(4) max by simp
      have "fuse_candidate c t s = Some ?s" unfolding step using True room by simp
      moreover have "fusion_inv c ?s"
        using insert_nodes_inv [OF g(1,2) lt, of t] insert_nodes_levels [OF g(3,1) lt, of t] g(4) room
        by (simp add: fusion_inv_def)
      moreover have "accounted s \<longrightarrow> accounted ?s" using count by (simp add: accounted_def)
      moreover have "fs_capacity_drops (fu_stats ?s) = fs_capacity_drops (fu_stats s) +
        (if fc_merge_duplicates c \<and> list_ex (duplicates c t) ?ts then 0
         else if length ?ts = unat (fc_maximum_targets c) then 1 else 0)" using none room count(3) by simp
      ultimately show ?thesis using that none room by fastforce
    qed
  qed
qed

text \<open>A property of targets that merging keeps holds of every target of the fused list.\<close>

definition merge_closed :: "(target_record \<Rightarrow> bool) \<Rightarrow> bool" where
  "merge_closed P \<longleftrightarrow> (\<forall>t c st. P t \<longrightarrow> P c \<longrightarrow> P (fst (merge_target t c st)))"

lemma fuse_candidate_closed:
  assumes "fusion_inv c s" "fc_maximum_targets c \<le> TARGET_PACKET_MAX_TARGETS" "merge_closed P \<or> \<not> fc_merge_duplicates c"
    "list_all P (fu_targets s)" "P t"
  obtains s' where "fuse_candidate c t s = Some s'" "fusion_inv c s'" "accounted s \<longrightarrow> accounted s'" "list_all P (fu_targets s')"
proof -
  obtain s' where s': "fuse_candidate c t s = Some s'" "fusion_inv c s'" "accounted s \<longrightarrow> accounted s'"
    "(\<exists>k < length (fu_targets s). \<exists>st. fc_merge_duplicates c \<and> duplicates c t (fu_targets s ! k) \<and>
        fu_targets s' = (fu_targets s)[k := fst (merge_target (fu_targets s ! k) t st)]) \<or>
     ((fc_merge_duplicates c \<longrightarrow> \<not> list_ex (duplicates c t) (fu_targets s)) \<and>
      fu_targets s' = (if length (fu_targets s) = unat (fc_maximum_targets c) then fu_targets s else fu_targets s @ [t]))"
    using fuse_candidate_step [OF assms(1,2), of t thesis] by simp
  have "list_all P (fu_targets s')"
    using s'(4)
  proof
    assume "\<exists>k < length (fu_targets s). \<exists>st. fc_merge_duplicates c \<and> duplicates c t (fu_targets s ! k) \<and>
        fu_targets s' = (fu_targets s)[k := fst (merge_target (fu_targets s ! k) t st)]"
    then obtain k st where k: "k < length (fu_targets s)" "fc_merge_duplicates c"
      "fu_targets s' = (fu_targets s)[k := fst (merge_target (fu_targets s ! k) t st)]" by blast
    then have "P (fst (merge_target (fu_targets s ! k) t st))"
      using assms(3-5) by (auto simp: merge_closed_def list_all_length)
    then show ?thesis using assms(4) k by (auto simp: list_all_length nth_list_update)
  next
    assume "(fc_merge_duplicates c \<longrightarrow> \<not> list_ex (duplicates c t) (fu_targets s)) \<and>
      fu_targets s' = (if length (fu_targets s) = unat (fc_maximum_targets c) then fu_targets s else fu_targets s @ [t])"
    then show ?thesis using assms(4,5) by simp
  qed
  then show ?thesis using that s' by blast
qed

lemma fuse_candidates_closed:
  assumes "fc_maximum_targets c \<le> TARGET_PACKET_MAX_TARGETS" "merge_closed P \<or> \<not> fc_merge_duplicates c"
    "fusion_inv c s" "list_all P (fu_targets s)" "\<forall>i < length ts. P (candidate_of k (index + i) (ts ! i))"
  shows "\<exists>s'. fuse_candidates c k index ts s = Some s' \<and> fusion_inv c s' \<and> (accounted s \<longrightarrow> accounted s') \<and>
    list_all P (fu_targets s')"
  using assms(3-)
proof (induction ts arbitrary: index s)
  case Nil
  then show ?case by simp
next
  case (Cons t ts)
  have t: "P (candidate_of k index t)" using Cons.prems(3) by force
  obtain s' where s': "fuse_candidate c (candidate_of k index t) s = Some s'" "fusion_inv c s'"
    "accounted s \<longrightarrow> accounted s'" "list_all P (fu_targets s')"
    by (rule fuse_candidate_closed [OF Cons.prems(1) assms(1,2) Cons.prems(2) t])
  have "\<forall>i < length ts. P (candidate_of k (index + 1 + i) (ts ! i))" using Cons.prems(3) by force
  from Cons.IH [OF s'(2,4) this] show ?case using s' by fastforce
qed

lemma fuse_packets_closed:
  assumes "fc_maximum_targets c \<le> TARGET_PACKET_MAX_TARGETS" "merge_closed P \<or> \<not> fc_merge_duplicates c"
    "fusion_inv c s" "list_all P (fu_targets s)"
    "\<forall>k < length ps. \<forall>i < length (pv_targets (ps ! k)). P (candidate_of (from_packet + k) i (pv_targets (ps ! k) ! i))"
  shows "\<exists>s'. fuse_packets c from_packet ps s = Some s' \<and> fusion_inv c s' \<and> (accounted s \<longrightarrow> accounted s') \<and>
    list_all P (fu_targets s')"
  using assms(3-)
proof (induction ps arbitrary: from_packet s)
  case Nil
  then show ?case by simp
next
  case (Cons p ps)
  let ?s = "s\<lparr>fu_stats := (fu_stats s)\<lparr>fs_packets_read := fs_packets_read (fu_stats s) + 1\<rparr>\<rparr>"
  have i: "fusion_inv c ?s" "list_all P (fu_targets ?s)" "accounted s \<longleftrightarrow> accounted ?s"
    using Cons.prems(1,2) by (simp_all add: fusion_inv_def accounted_def)
  have "\<forall>i < length (pv_targets p). P (candidate_of from_packet (0 + i) (pv_targets p ! i))"
    using Cons.prems(3) by force
  from fuse_candidates_closed [OF assms(1,2) i(1,2) this] obtain s' where
    s': "fuse_candidates c from_packet 0 (pv_targets p) ?s = Some s'" "fusion_inv c s'" "accounted s \<longrightarrow> accounted s'"
      "list_all P (fu_targets s')" using i(3) by blast
  have "\<forall>k < length ps. \<forall>i < length (pv_targets (ps ! k)).
      P (candidate_of (from_packet + 1 + k) i (pv_targets (ps ! k) ! i))"
    using Cons.prems(3) by force
  from Cons.IH [OF s'(2,4) this] show ?case using s' by fastforce
qed

lemma start_fusion_inv: "fusion_inv c start_fusion" "accounted start_fusion" "fu_targets start_fusion = []"
  using grid_inv_empty
  by (simp_all add: fusion_inv_def start_fusion_def accounted_def zero_fusion_stats_def levels_of_nodes_def empty_workspace_def)

subsection \<open>What merging keeps\<close>

text \<open>Safety: a disabled or secure target offers no action, and a secure one no text.\<close>

definition inert_target :: "target_record \<Rightarrow> bool" where
  "inert_target t \<longleftrightarrow>
     (tr_flags t AND (TARGET_DISABLED OR TARGET_SECURE) \<noteq> 0 \<longrightarrow>
        tr_capability_bits t = 0 \<and> tr_flags t AND TARGET_ACTIONABLE = 0) \<and>
     (tr_flags t AND TARGET_SECURE \<noteq> 0 \<longrightarrow> tx_size (tr_text t) = 0)"

text \<open>The conditions of \<open>valid_target\<close> that merging can break.\<close>

definition consistent_target :: "target_record \<Rightarrow> bool" where
  "consistent_target t \<longleftrightarrow> tr_parent_id t \<noteq> tr_target_id t \<and>
     (tr_flags t AND TARGET_ACTIONABLE \<noteq> 0) = (tr_capability_bits t \<noteq> 0) \<and>
     \<not> (tr_flags t AND (TARGET_TEXT_REDACTED OR TARGET_TEXT_TRUNCATED) \<noteq> 0 \<and> tx_size (tr_text t) \<noteq> 0) \<and>
     \<not> (tr_flags t AND TARGET_TEXT_REDACTED \<noteq> 0 \<and> tr_flags t AND TARGET_TEXT_TRUNCATED \<noteq> 0)"

definition bounded_target :: "target_record \<Rightarrow> bool" where
  "bounded_target t \<longleftrightarrow> 0 < sint (tr_width_q8 t) \<and> 0 < sint (tr_height_q8 t) \<and> tr_confidence_q16 t \<le> 0xFFFF \<and>
     tr_role t \<le> ROLE_WINDOW \<and> tr_source_bits t AND NOT source_mask = 0 \<and>
     tr_capability_bits t AND NOT target_capability_mask = 0 \<and> tr_flags t AND NOT target_flag_mask = 0 \<and>
     tr_target_id t \<noteq> 0 \<and> (tx_size (tr_text t) = 0 \<longrightarrow> tx_offset (tr_text t) = 0) \<and>
     sint (tr_x_q8 t) \<le> sint (tr_safe_x_q8 t) \<and> sint (tr_y_q8 t) \<le> sint (tr_safe_y_q8 t) \<and>
     sint (tr_safe_x_q8 t) < sint (tr_x_q8 t) + sint (tr_width_q8 t) \<and>
     sint (tr_safe_y_q8 t) < sint (tr_y_q8 t) + sint (tr_height_q8 t)"

lemma valid_target_parts: "valid_target t \<Longrightarrow> bounded_target t \<and> inert_target t \<and> consistent_target t"
  by (auto simp: valid_target_def bounded_target_def inert_target_def consistent_target_def Let_def not_le split: if_splits)

lemma parts_valid_target: "bounded_target t \<Longrightarrow> inert_target t \<Longrightarrow> consistent_target t \<Longrightarrow> valid_target t"
  unfolding valid_target_def bounded_target_def inert_target_def consistent_target_def Let_def not_le by auto

text \<open>Flags as bits: the eight constants are single bits.\<close>

lemma and_flag_bits:
  "(w :: u32) AND 1 \<noteq> 0 \<longleftrightarrow> bit w 0" "w AND 2 \<noteq> 0 \<longleftrightarrow> bit w 1" "w AND 8 \<noteq> 0 \<longleftrightarrow> bit w 3"
  "w AND 32 \<noteq> 0 \<longleftrightarrow> bit w 5" "w AND 64 \<noteq> 0 \<longleftrightarrow> bit w 6"
  "w AND 10 \<noteq> 0 \<longleftrightarrow> bit w 1 \<or> bit w 3" "w AND 96 \<noteq> 0 \<longleftrightarrow> bit w 5 \<or> bit w 6"
proof -
  have b: "w AND 2 ^ n \<noteq> 0 \<longleftrightarrow> bit w n" if "n < 32" for n
    using that by (simp add: and_exp_eq_0_iff_not_bit)
  show one: "w AND 1 \<noteq> 0 \<longleftrightarrow> bit w 0" and two: "w AND 2 \<noteq> 0 \<longleftrightarrow> bit w 1" and eight: "w AND 8 \<noteq> 0 \<longleftrightarrow> bit w 3"
    and r: "w AND 32 \<noteq> 0 \<longleftrightarrow> bit w 5" and t: "w AND 64 \<noteq> 0 \<longleftrightarrow> bit w 6"
    using b [of 0] b [of 1] b [of 3] b [of 5] b [of 6] by simp_all
  have "w AND 10 = (w AND 2) OR (w AND 8)" "w AND 96 = (w AND 32) OR (w AND 64)"
    by (simp_all add: bit.conj_disj_distrib [symmetric])
  then show "w AND 10 \<noteq> 0 \<longleftrightarrow> bit w 1 \<or> bit w 3" "w AND 96 \<noteq> 0 \<longleftrightarrow> bit w 5 \<or> bit w 6"
    using two eight r t by (auto simp: or_eq_0_iff)
qed

text \<open>The two branches of the merge, as flags and text.\<close>

lemma merge_target_result:
  fixes t c st
  defines "sf \<equiv> (tr_flags t OR tr_flags c) AND 10" and "f \<equiv> merge_fields t c" and "r \<equiv> fst (merge_target t c st)"
  shows "sf \<noteq> 0 \<Longrightarrow> sf AND 8 = 0 \<Longrightarrow> r = f\<lparr>tr_flags := (tr_flags t OR sf) AND NOT 1, tr_capability_bits := 0\<rparr>"
    "sf AND 8 \<noteq> 0 \<Longrightarrow> r = f\<lparr>tr_flags := (((tr_flags t OR sf) AND NOT 1) OR 32) AND NOT 64, tr_capability_bits := 0,
       tr_text := no_text\<rparr>"
    "sf = 0 \<Longrightarrow> \<exists>cap. cap \<in> {tr_capability_bits t, tr_capability_bits c, tr_capability_bits t OR tr_capability_bits c} \<and>
       r = f\<lparr>tr_capability_bits := cap,
             tr_flags := (tr_flags t OR (tr_flags c AND 116)) OR (if cap \<noteq> 0 then 1 else 0)\<rparr>"
proof -
  have k: "(TARGET_DISABLED OR TARGET_SECURE) = 10" "TARGET_OCCLUDED OR TARGET_APPROXIMATE OR TARGET_TEXT_REDACTED OR TARGET_TEXT_TRUNCATED = 116"
    by simp_all
  have fl: "tr_flags f = tr_flags t" "tr_capability_bits f = tr_capability_bits t" by (simp_all add: f_def merge_fields_def)
  note def = r_def merge_target_def Let_def f_def [symmetric] k fl sf_def [symmetric]
  show "sf \<noteq> 0 \<Longrightarrow> sf AND 8 = 0 \<Longrightarrow> r = f\<lparr>tr_flags := (tr_flags t OR sf) AND NOT 1, tr_capability_bits := 0\<rparr>"
    unfolding def by simp
  show "sf AND 8 \<noteq> 0 \<Longrightarrow> r = f\<lparr>tr_flags := (((tr_flags t OR sf) AND NOT 1) OR 32) AND NOT 64, tr_capability_bits := 0,
       tr_text := no_text\<rparr>"
    unfolding def by (cases "sf = 0") simp_all
  show "sf = 0 \<Longrightarrow> \<exists>cap. cap \<in> {tr_capability_bits t, tr_capability_bits c, tr_capability_bits t OR tr_capability_bits c} \<and>
       r = f\<lparr>tr_capability_bits := cap,
             tr_flags := (tr_flags t OR (tr_flags c AND 116)) OR (if cap \<noteq> 0 then 1 else 0)\<rparr>"
  proof -
    let ?cap = "if semantic c then tr_capability_bits c else if \<not> semantic t
      then tr_capability_bits t OR tr_capability_bits c else tr_capability_bits t"
    assume "sf = 0"
    then have "r = f\<lparr>tr_capability_bits := ?cap,
        tr_flags := (tr_flags t OR (tr_flags c AND 116)) OR (if ?cap \<noteq> 0 then 1 else 0)\<rparr>"
      unfolding def by (simp add: fl)
    then show ?thesis by (intro exI [of _ ?cap]) simp
  qed
qed

lemma merge_branches:
  obtains "(tr_flags t OR tr_flags c) AND 10 \<noteq> 0" "((tr_flags t OR tr_flags c) AND 10) AND 8 = 0"
  | "((tr_flags t OR tr_flags c) AND 10) AND 8 \<noteq> 0"
  | "(tr_flags t OR tr_flags c) AND 10 = 0"
  by fastforce

lemma and_eq_0_bits: "(w :: 'a::len word) AND NOT m = 0 \<longleftrightarrow> (\<forall>n. bit w n \<longrightarrow> bit m n)"
  by (auto simp: bit_eq_iff bit_simps dest: bit_imp_le_length)

lemma safety_bits:
  "(f OR g) AND 10 = (0 :: u32) \<longleftrightarrow> \<not> bit f 1 \<and> \<not> bit f 3 \<and> \<not> bit g 1 \<and> \<not> bit g 3"
  "((f OR g) AND 10) AND 8 \<noteq> (0 :: u32) \<longleftrightarrow> bit f 3 \<or> bit g 3"
proof -
  show "(f OR g) AND 10 = (0 :: u32) \<longleftrightarrow> \<not> bit f 1 \<and> \<not> bit f 3 \<and> \<not> bit g 1 \<and> \<not> bit g 3"
    using and_flag_bits(6) [of "f OR g"] by (auto simp: bit_simps)
  show "((f OR g) AND 10) AND 8 \<noteq> (0 :: u32) \<longleftrightarrow> bit f 3 \<or> bit g 3"
    unfolding and_flag_bits(3) by (auto simp: bit_simps)
qed

lemma inert_bits:
  "inert_target t \<longleftrightarrow> (bit (tr_flags t) 1 \<or> bit (tr_flags t) 3 \<longrightarrow> tr_capability_bits t = 0 \<and> \<not> bit (tr_flags t) 0) \<and>
     (bit (tr_flags t) 3 \<longrightarrow> tx_size (tr_text t) = 0)"
proof -
  have "tr_flags t AND 1 = 0 \<longleftrightarrow> \<not> bit (tr_flags t) 0" using and_flag_bits(1) by blast
  moreover have "TARGET_DISABLED OR TARGET_SECURE = 10" by simp
  ultimately show ?thesis unfolding inert_target_def by (simp only: and_flag_bits)
qed

lemma merge_closed_inert: "merge_closed inert_target"
  unfolding merge_closed_def
proof (intro allI impI)
  fix t c st assume "inert_target t" "inert_target c"
  note i = this [unfolded inert_bits]
  note r = merge_target_result [of t c st]
  show "inert_target (fst (merge_target t c st))"
  proof (cases rule: merge_branches [of t c])
    case 1
    have "\<not> bit (tr_flags t) 3" "\<not> bit (tr_flags c) 3" using 1(2) safety_bits(2) by blast+
    then show ?thesis unfolding r(1) [OF 1] inert_bits by (simp add: bit_simps)
  next
    case 2
    show ?thesis unfolding r(2) [OF 2] inert_bits by (simp add: bit_simps no_text_def)
  next
    case 3
    obtain cap where cap: "fst (merge_target t c st) = (merge_fields t c)\<lparr>tr_capability_bits := cap,
        tr_flags := (tr_flags t OR (tr_flags c AND 116)) OR (if cap \<noteq> 0 then 1 else 0)\<rparr>"
      using r(3) [OF 3] by blast
    show ?thesis unfolding cap inert_bits using 3 by (simp add: safety_bits(1) bit_simps bit_1_iff)
  qed
qed

lemma mask_OR: "(v :: 'a::len word) AND NOT m = 0 \<Longrightarrow> w AND NOT m = 0 \<Longrightarrow> (v OR w) AND NOT m = 0"
  by (simp add: bit.conj_disj_distrib2)

lemma mask_AND: "(v :: 'a::len word) AND NOT m = 0 \<Longrightarrow> (v AND w) AND NOT m = 0"
  by (auto simp: and_eq_0_bits bit_simps)

lemma merge_fields_bounded:
  assumes "bounded_target t" "bounded_target c"
  shows "bounded_target (merge_fields t c)"
  using assms unfolding bounded_target_def merge_fields_def by (simp add: mask_OR)

lemma merge_closed_bounded: "merge_closed bounded_target"
  unfolding merge_closed_def
proof (intro allI impI)
  fix t c st assume b: "bounded_target t" "bounded_target c"
  note m = merge_fields_bounded [OF b]
  note r = merge_target_result [of t c st]
  have masks: "tr_flags t AND NOT target_flag_mask = 0" "tr_flags c AND NOT target_flag_mask = 0"
    "tr_capability_bits t AND NOT target_capability_mask = 0" "tr_capability_bits c AND NOT target_capability_mask = 0"
    using b by (simp_all add: bounded_target_def)
  have sf: "(tr_flags t OR ((tr_flags t OR tr_flags c) AND 10)) AND NOT target_flag_mask = 0"
    by (intro mask_OR mask_AND masks)
  have k: "(32 :: u32) AND NOT target_flag_mask = 0" "(if p then 1 else 0 :: u32) AND NOT target_flag_mask = 0" for p
    by (simp_all add: target_flag_mask_def)
  show "bounded_target (fst (merge_target t c st))"
  proof (cases rule: merge_branches [of t c])
    case 1
    show ?thesis unfolding r(1) [OF 1] using m mask_AND [OF sf] by (simp add: bounded_target_def)
  next
    case 2
    have "((((tr_flags t OR (tr_flags t OR tr_flags c) AND 10) AND NOT 1) OR 32) AND NOT 64) AND NOT target_flag_mask = 0"
      by (intro mask_AND mask_OR sf k masks)
    then show ?thesis unfolding r(2) [OF 2] using m by (simp add: bounded_target_def no_text_def)
  next
    case 3
    obtain cap where c: "cap \<in> {tr_capability_bits t, tr_capability_bits c, tr_capability_bits t OR tr_capability_bits c}"
      and cap: "fst (merge_target t c st) = (merge_fields t c)\<lparr>tr_capability_bits := cap,
        tr_flags := (tr_flags t OR (tr_flags c AND 116)) OR (if cap \<noteq> 0 then 1 else 0)\<rparr>"
      using r(3) [OF 3] by blast
    have "cap AND NOT target_capability_mask = 0" using c masks by (auto intro: mask_OR)
    moreover have "((tr_flags t OR (tr_flags c AND 116)) OR (if cap \<noteq> 0 then 1 else 0)) AND NOT target_flag_mask = 0"
      by (intro mask_OR mask_AND k masks)
    ultimately show ?thesis unfolding cap using m by (simp add: bounded_target_def)
  qed
qed

subsection \<open>Texts\<close>

lemma text_lane_nth:
  "text_lane lane off ts \<Longrightarrow> i < length ts \<Longrightarrow> tx_size (tr_text (ts ! i)) \<noteq> 0 \<Longrightarrow>
     unat (tx_offset (tr_text (ts ! i))) + unat (tx_size (tr_text (ts ! i))) \<le> length lane \<and>
     valid_utf8 (take (unat (tx_size (tr_text (ts ! i)))) (drop (unat (tx_offset (tr_text (ts ! i)))) lane))"
proof (induction ts arbitrary: off i)
  case Nil
  then show ?case by simp
next
  case (Cons t ts)
  show ?case
  proof (cases i)
    case 0
    then show ?thesis using Cons.prems by (auto simp: Let_def unat_eq_0)
  next
    case (Suc j)
    then show ?thesis using Cons.IH [of _ j] Cons.prems by (auto simp: Let_def)
  qed
qed

lemma target_text_wf:
  assumes "packet_wf v" "i < length (pv_targets v)" "tx_size (tr_text (pv_targets v ! i)) \<noteq> 0"
  shows "valid_utf8 (target_text v i)" "length (target_text v i) = unat (tx_size (tr_text (pv_targets v ! i)))"
proof -
  have "text_lane (pv_text v) 0 (pv_targets v)" using assms(1) by (simp add: packet_wf_def Let_def)
  from text_lane_nth [OF this assms(2,3)] show "valid_utf8 (target_text v i)"
    "length (target_text v i) = unat (tx_size (tr_text (pv_targets v ! i)))"
    using assms(3) by (auto simp: target_text_def Let_def)
qed

definition reference_ok :: "packet_view list \<Rightarrow> target_record \<Rightarrow> bool" where
  "reference_ok ps t \<longleftrightarrow> (let off = unat (tx_offset (tr_text t)); n = unat (tx_size (tr_text t)) in
     if n = 0 then off = 0
     else 0 < off \<and> off \<le> length ps \<and> n \<le> length (pv_targets (ps ! (off - 1))) \<and>
       tx_size (tr_text (pv_targets (ps ! (off - 1)) ! (n - 1))) \<noteq> 0)"

lemma merge_target_text: "tr_text (fst (merge_target t c st)) \<in> {tr_text t, tr_text c, no_text}"
  by (simp add: merge_target_def merge_fields_def Let_def)

lemma merge_closed_reference: "merge_closed (reference_ok ps)"
  unfolding merge_closed_def
proof (intro allI impI)
  fix t c st assume "reference_ok ps t" "reference_ok ps c"
  then show "reference_ok ps (fst (merge_target t c st))"
    using merge_target_text [of t c st] by (auto simp: reference_ok_def no_text_def Let_def)
qed

lemma merge_closed_conj: "merge_closed P \<Longrightarrow> merge_closed Q \<Longrightarrow> merge_closed (\<lambda>t. P t \<and> Q t)"
  by (auto simp: merge_closed_def)

lemma candidate_of_parts:
  assumes "packet_wf (ps ! k)" "k < length ps" "length ps \<le> 4" "i < length (pv_targets (ps ! k))"
  shows "bounded_target (candidate_of k i (pv_targets (ps ! k) ! i))" "inert_target (candidate_of k i (pv_targets (ps ! k) ! i))"
    "reference_ok ps (candidate_of k i (pv_targets (ps ! k) ! i))" "consistent_target (candidate_of k i (pv_targets (ps ! k) ! i))"
proof -
  let ?t = "pv_targets (ps ! k) ! i"
  have v: "valid_target ?t" using packet_wf_targets [OF assms(1)] assms(4) by (simp add: list_all_length)
  note p = valid_target_parts [OF v]
  have n: "length (pv_targets (ps ! k)) \<le> 10000"
  proof -
    have "header_accepted (pv_header (ps ! k)) (unat (ph_total_size (pv_header (ps ! k))))"
      "unat (ph_target_count (pv_header (ps ! k))) = length (pv_targets (ps ! k))"
      using assms(1) unfolding packet_wf_def Let_def by blast+
    then show ?thesis using header_accepted_fields(3) by metis
  qed
  have u: "unat (word_of_nat (k + 1) :: u16) = k + 1" "unat (word_of_nat (i + 1) :: u16) = i + 1"
    using assms(2-4) n by (simp_all add: unat_of_nat del: of_nat_add of_nat_Suc)
  have nz: "(word_of_nat (i + 1) :: u16) \<noteq> 0" using u(2) by (metis add_eq_0_iff_both_eq_0 one_neq_zero unat_0)
  show "bounded_target (candidate_of k i ?t)" "inert_target (candidate_of k i ?t)" "consistent_target (candidate_of k i ?t)"
    using p nz by (auto simp: candidate_of_def bounded_target_def inert_target_def consistent_target_def no_text_def)
  show "reference_ok ps (candidate_of k i ?t)"
    using u nz assms(2,4) by (auto simp: candidate_of_def reference_ok_def no_text_def Let_def simp del: of_nat_add of_nat_Suc)
qed

text \<open>The texts that fit tile the lane; the others leave a truncated target.\<close>

lemma copy_texts_lane:
  assumes "list_all packet_wf ps" "list_all (\<lambda>t. bounded_target t \<and> inert_target t \<and> reference_ok ps t) ts"
    "length pre = unat text_size" "unat text_size \<le> 16384" "copy_texts ps text_size flags ts = (ts', lane, flags')"
  shows "length ts' = length ts \<and> length pre + length lane \<le> 16384 \<and> list_all inert_target ts' \<and>
    (text_lane (pre @ lane) (length pre) ts' \<longleftrightarrow> list_all consistent_target ts') \<and>
    (list_all consistent_target ts \<longrightarrow> list_all consistent_target ts') \<and>
    (flags AND NOT packet_flag_mask = 0 \<longrightarrow> flags' AND NOT packet_flag_mask = 0)"
  using assms(2-)
proof (induction ts arbitrary: text_size flags pre ts' lane flags')
  case Nil
  then show ?case by simp
next
  case (Cons t ts)
  let ?t = "t\<lparr>tr_text := no_text\<rparr>"
  have b: "bounded_target t" "inert_target t" "reference_ok ps t"
    and rest: "list_all (\<lambda>t. bounded_target t \<and> inert_target t \<and> reference_ok ps t) ts"
    using Cons.prems(1) by simp_all
  have parts: "bounded_target ?t" "inert_target ?t" using b(1,2)
    by (auto simp: bounded_target_def inert_target_def no_text_def)
  show ?case
  proof (cases "tx_offset (tr_text t) = 0 \<or> tx_size (tr_text t) = 0")
    case True
    then obtain us where c: "copy_texts ps text_size flags ts = (us, lane, flags')" "ts' = ?t # us"
      using Cons.prems(4) by (auto simp: Let_def split: prod.splits)
    have z: "tx_size (tr_text t) = 0 \<and> tx_offset (tr_text t) = 0"
      using True b(3) by (auto simp: reference_ok_def Let_def unat_eq_0 split: if_splits)
    have "tr_text t = no_text" using z by (cases "tr_text t") (simp add: no_text_def)
    then have same: "?t = t" by simp
    have "valid_target t \<longleftrightarrow> consistent_target t" using b valid_target_parts parts_valid_target by blast
    then show ?thesis
      using Cons.IH [OF rest Cons.prems(2,3) c(1)] c(2) z b(2) unfolding same by (simp add: Let_def)
  next
    case False
    let ?p = "ps ! (unat (tx_offset (tr_text t)) - 1)" let ?i = "unat (tx_size (tr_text t)) - 1"
    have ref: "unat (tx_offset (tr_text t)) - 1 < length ps" "?i < length (pv_targets ?p)"
      "tx_size (tr_text (pv_targets ?p ! ?i)) \<noteq> 0"
      using b(3) False unat_gt_0 [of "tx_size (tr_text t)"]
      by (auto simp: reference_ok_def Let_def unat_eq_0 split: if_splits)
    then have wf: "packet_wf ?p" using assms(1) by (simp add: list_all_length)
    let ?bytes = "target_text ?p ?i"
    note tb = target_text_wf [OF wf ref(2,3)]
    have pos: "0 < length ?bytes" "length ?bytes < 65536"
      using tb(2) ref(3) unat16_lt [of "tx_size (tr_text (pv_targets ?p ! ?i))"] by (simp_all add: unat_gt_0)
    have room: "unat (ucast TARGET_PACKET_MAX_TEXT_BYTES - text_size) = 16384 - unat text_size"
      using Cons.prems(3) by (simp add: unat_sub word_le_nat_alt)
    have flags: "consistent_target t \<Longrightarrow> tr_flags t AND (TARGET_TEXT_REDACTED OR TARGET_TEXT_TRUNCATED) = 0"
      using False by (auto simp: consistent_target_def)
    show ?thesis
    proof (cases "length ?bytes > 16384 - unat text_size")
      case True
      let ?u = "?t\<lparr>tr_flags := tr_flags t OR TARGET_TEXT_TRUNCATED\<rparr>"
      obtain us where c: "copy_texts ps text_size (flags OR TARGET_PACKET_TEXT_TRUNCATED) ts = (us, lane, flags')" "ts' = ?u # us"
        using Cons.prems(4) False True room by (auto simp: Let_def split: prod.splits)
      have bits: "bit (64 :: u32) n \<longleftrightarrow> n = 6" for n
      proof -
        have e: "(64 :: u32) = 2 ^ 6" by simp
        show ?thesis unfolding e bit_exp_iff by auto
      qed
      have u: "bounded_target ?u" "inert_target ?u"
      proof -
        have "(tr_flags t OR 64) AND NOT target_flag_mask = 0"
          using b(1) by (intro mask_OR) (simp_all add: bounded_target_def target_flag_mask_def)
        then show "bounded_target ?u" using b(1) by (simp add: bounded_target_def no_text_def)
        show "inert_target ?u" using b(2) unfolding inert_bits by (simp add: bit_simps bits no_text_def)
      qed
      have con: "consistent_target t \<Longrightarrow> consistent_target ?u"
      proof -
        assume a: "consistent_target t"
        have "tr_flags t AND 96 = 0" using flags [OF a] by simp
        then have "\<not> bit (tr_flags t) 5" using and_flag_bits(7) by blast
        moreover have "(tr_flags t OR 64) AND 1 \<noteq> 0 \<longleftrightarrow> tr_flags t AND 1 \<noteq> 0" "(tr_flags t OR 64) AND 32 \<noteq> 0 \<longleftrightarrow> bit (tr_flags t) 5"
          unfolding and_flag_bits by (simp_all add: bit_simps bits)
        ultimately show "consistent_target ?u" using a by (simp add: consistent_target_def no_text_def)
      qed
      have "valid_target ?u \<longleftrightarrow> consistent_target ?u" using u valid_target_parts parts_valid_target by blast
      moreover have "flags AND NOT packet_flag_mask = 0 \<Longrightarrow> (flags OR 2) AND NOT packet_flag_mask = 0"
        by (intro mask_OR) (simp_all add: packet_flag_mask_def)
      ultimately show ?thesis
        using Cons.IH [OF rest Cons.prems(2,3) c(1)] c(2) u con by (simp add: Let_def no_text_def)
    next
      case fits: False
      let ?size = "word_of_nat (length ?bytes) :: u32" let ?n = "word_of_nat (length ?bytes) :: u16"
      let ?u = "?t\<lparr>tr_text := \<lparr>tx_offset = ucast text_size, tx_size = ?n\<rparr>\<rparr>"
      obtain us lane' where c: "copy_texts ps (text_size + ?size) flags ts = (us, lane', flags')" "ts' = ?u # us" "lane = ?bytes @ lane'"
        using Cons.prems(4) False fits room by (auto simp: Let_def split: prod.splits)
      have n: "unat ?n = length ?bytes" "unat (ucast text_size :: u16) = unat text_size"
        using pos(2) Cons.prems(3) by (simp_all add: unat_of_nat unsigned_ucast_eq take_bit_eq_mod)
      have nz: "?n \<noteq> 0" using n(1) pos(1) by (metis less_irrefl unat_0)
      have sum: "unat (text_size + ?size) = unat text_size + length ?bytes"
        using fits Cons.prems(3) pos(2) by (simp add: unat_word_ariths unat_of_nat)
      have len: "length (pre @ ?bytes) = unat (text_size + ?size)" "unat (text_size + ?size) \<le> 16384"
        using sum Cons.prems(2,3) fits by simp_all
      note IH = Cons.IH [OF rest len c(1)]
      have u: "bounded_target ?u" "inert_target ?u" "consistent_target ?u \<longleftrightarrow> consistent_target t"
        using b(1,2) False nz by (auto simp: bounded_target_def inert_target_def consistent_target_def)
      have "valid_target ?u \<longleftrightarrow> consistent_target ?u" using u(1,2) valid_target_parts parts_valid_target by blast
      then show ?thesis using IH c(2,3) u(2,3) n sum Cons.prems(2) tb(1) fits by (simp add: Let_def)
    qed
  qed
qed

subsection \<open>What an output target stands for\<close>

text \<open>The candidates merged into a target, the first one at the head. Merging fills a field from the
  first candidate that has it, unites the sources and the disabled and secure flags, and decides
  the capabilities from the candidates so far: a semantic candidate replaces them, another one
  adds to those of a target that is not semantic.\<close>

definition first_set :: "'a::zero list \<Rightarrow> 'a" where
  "first_set xs = (case filter (\<lambda>x. x \<noteq> 0) xs of [] \<Rightarrow> 0 | x # _ \<Rightarrow> x)"

abbreviation united :: "('a \<Rightarrow> 'b::len word) \<Rightarrow> 'a list \<Rightarrow> 'b word" where
  "united f xs \<equiv> foldl (\<lambda>bits x. bits OR f x) 0 xs"

fun capabilities_latest_first :: "target_record list \<Rightarrow> u32" where
  "capabilities_latest_first [] = 0"
| "capabilities_latest_first (c # older) =
     (if semantic c then tr_capability_bits c
      else if united tr_source_bits (rev older) AND SOURCE_ACCESSIBILITY \<noteq> 0 \<and> first_set (map tr_role (rev older)) \<noteq> ROLE_UNKNOWN
      then capabilities_latest_first older
      else capabilities_latest_first older OR tr_capability_bits c)"

definition merged_group :: "target_record list \<Rightarrow> target_record \<Rightarrow> bool" where
  "merged_group g t \<longleftrightarrow> g \<noteq> [] \<and> same_place t (hd g) \<and> tr_target_id t = tr_target_id (hd g) \<and>
     tr_source_bits t = united tr_source_bits g \<and>
     tr_confidence_q16 t = foldl (\<lambda>v u. max v (tr_confidence_q16 u)) 0 g \<and>
     tr_role t = first_set (map tr_role g) \<and> tr_parent_id t = first_set (map tr_parent_id g) \<and>
     tr_window_id t = first_set (map tr_window_id g) \<and> tr_display_id t = first_set (map tr_display_id g) \<and>
     (let unsafe = united tr_flags g AND (TARGET_DISABLED OR TARGET_SECURE) in
        tr_flags t AND (TARGET_DISABLED OR TARGET_SECURE) = unsafe \<and>
        tr_capability_bits t = (if unsafe \<noteq> 0 then 0 else capabilities_latest_first (rev g)))"

text \<open>Where a target is, of any role, window and display.\<close>

definition spot :: "target_record \<Rightarrow> target_record" where
  "spot t = t\<lparr>tr_role := ROLE_UNKNOWN, tr_window_id := 0, tr_display_id := 0\<rparr>"

text \<open>The groups behind a fused list: together with the dropped candidates they are the candidates,
  in their order; only a full list drops; the members of a group duplicate its head.\<close>

definition fusion_groups :: "fusion_config \<Rightarrow> target_record list \<Rightarrow> target_record list \<Rightarrow>
    target_record list list \<Rightarrow> target_record list \<Rightarrow> bool" where
  "fusion_groups c candidates targets groups dropped \<longleftrightarrow>
     list_all2 merged_group groups targets \<and> mset (concat groups @ dropped) = mset candidates \<and>
     list_all (\<lambda>g. subseq g candidates) groups \<and> subseq (map hd groups) candidates \<and>
     (if dropped = [] then True else length targets = unat (fc_maximum_targets c)) \<and>
     list_all (\<lambda>g. list_all (\<lambda>u. duplicates c u (spot (hd g))) (tl g)) groups \<and>
     (if fc_merge_duplicates c then True else list_all (\<lambda>g. tl g = []) groups)"

lemma first_set_snoc: "first_set (xs @ [x]) = (if first_set xs = 0 then x else first_set xs)"
proof -
  have "0 \<notin> set (filter (\<lambda>x. x \<noteq> 0) xs)" by simp
  then have "first_set xs = 0 \<longleftrightarrow> filter (\<lambda>x. x \<noteq> 0) xs = []"
    unfolding first_set_def by (cases "filter (\<lambda>x. x \<noteq> 0) xs") auto
  then show ?thesis by (auto simp: first_set_def split: list.split)
qed

lemma unsafe_bits: "(v :: u32) AND 10 = w AND 10 \<longleftrightarrow> bit v 1 = bit w 1 \<and> bit v 3 = bit w 3"
proof -
  have ten: "bit (10 :: u32) n \<longleftrightarrow> n = 1 \<or> n = 3" for n
  proof -
    have e: "(10 :: u32) = 2 ^ 1 OR 2 ^ 3" by simp
    show ?thesis unfolding e bit_or_iff bit_exp_iff by auto
  qed
  show ?thesis
  proof
    assume a: "v AND 10 = w AND 10"
    have "bit (v AND 10) n = bit (w AND 10) n" for n using a by simp
    then have "(bit v n \<and> (n = 1 \<or> n = 3)) = (bit w n \<and> (n = 1 \<or> n = 3))" for n unfolding bit_and_iff ten .
    from this [of 1] this [of 3] show "bit v 1 = bit w 1 \<and> bit v 3 = bit w 3" by simp
  next
    assume a: "bit v 1 = bit w 1 \<and> bit v 3 = bit w 3"
    show "v AND 10 = w AND 10" by (rule bit_eqI) (use a in \<open>auto simp only: bit_and_iff ten\<close>)
  qed
qed

lemma merged_group_single:
  assumes "inert_target (u\<lparr>tr_text := x\<rparr>)"
  shows "merged_group [u] (u\<lparr>tr_text := x\<rparr>)"
proof -
  have one: "first_set [v] = v" for v :: "'a::zero" by (simp add: first_set_def)
  show ?thesis using assms
    by (auto simp: merged_group_def same_place_def inert_target_def one Let_def)
qed

lemma merged_group_snoc:
  assumes "merged_group g t"
  shows "merged_group (g @ [u]) (fst (merge_target t (u\<lparr>tr_text := x\<rparr>) st))"
proof -
  let ?c = "u\<lparr>tr_text := x\<rparr>" let ?r = "fst (merge_target t ?c st)"
  let ?F = "united tr_flags g"
  have g: "g \<noteq> []" "same_place t (hd g)" "tr_target_id t = tr_target_id (hd g)" "tr_source_bits t = united tr_source_bits g"
    "tr_confidence_q16 t = foldl (\<lambda>v u. max v (tr_confidence_q16 u)) 0 g"
    "tr_role t = first_set (map tr_role g)" "tr_parent_id t = first_set (map tr_parent_id g)"
    "tr_window_id t = first_set (map tr_window_id g)" "tr_display_id t = first_set (map tr_display_id g)"
    "tr_flags t AND 10 = ?F AND 10"
    "tr_capability_bits t = (if ?F AND 10 \<noteq> 0 then 0 else capabilities_latest_first (rev g))"
    using assms by (simp_all add: merged_group_def Let_def)
  have fields: "same_place ?r (hd g)" "tr_target_id ?r = tr_target_id t" "tr_source_bits ?r = tr_source_bits t OR tr_source_bits u"
    "tr_confidence_q16 ?r = max (tr_confidence_q16 t) (tr_confidence_q16 u)"
    "tr_role ?r = (if tr_role t = 0 then tr_role u else tr_role t)"
    "tr_parent_id ?r = (if tr_parent_id t = 0 then tr_parent_id u else tr_parent_id t)"
    "tr_window_id ?r = (if tr_window_id t = 0 then tr_window_id u else tr_window_id t)"
    "tr_display_id ?r = (if tr_display_id t = 0 then tr_display_id u else tr_display_id t)"
    using g(2) by (simp_all add: merge_target_def merge_fields_def same_place_def Let_def)
  have same: "(?F OR tr_flags u) AND 10 = (tr_flags t OR tr_flags u) AND 10"
    using g(10) unfolding unsafe_bits by (simp add: bit_simps)
  have sem: "semantic t \<longleftrightarrow> united tr_source_bits g AND SOURCE_ACCESSIBILITY \<noteq> 0 \<and> first_set (map tr_role g) \<noteq> 0"
    "semantic ?c = semantic u" using g(4,6) by (simp_all add: semantic_def)
  have "tr_flags ?r AND 10 = (tr_flags t OR tr_flags u) AND 10 \<and>
      tr_capability_bits ?r = (if (tr_flags t OR tr_flags u) AND 10 \<noteq> 0 then 0 else capabilities_latest_first (rev (g @ [u])))"
  proof (cases "(tr_flags t OR tr_flags u) AND 10 = 0")
    case True
    then have off: "\<not> bit (tr_flags t) 1" "\<not> bit (tr_flags t) 3" "\<not> bit (tr_flags u) 1" "\<not> bit (tr_flags u) 3"
      unfolding safety_bits(1) by blast+
    have "tr_flags t AND 10 = 0" using off unsafe_bits [of "tr_flags t" 0] by simp
    then have cap: "tr_capability_bits t = capabilities_latest_first (rev g)" using g(10,11) by simp
    have flags: "tr_flags ?r AND 10 = 0 AND 10"
      unfolding unsafe_bits using off True by (simp add: merge_target_def merge_fields_def Let_def bit_simps bit_1_iff)
    have "tr_capability_bits ?r = capabilities_latest_first (rev (g @ [u]))"
      using True cap sem by (simp add: merge_target_def merge_fields_def Let_def)
    then show ?thesis using flags True by simp
  next
    case False
    then have "tr_capability_bits ?r = 0" by (simp add: merge_target_def merge_fields_def Let_def)
    moreover have "tr_flags ?r AND 10 = (tr_flags t OR tr_flags u) AND 10"
      unfolding unsafe_bits using False by (simp add: merge_target_def merge_fields_def Let_def bit_simps bit_1_iff)
    ultimately show ?thesis using False by simp
  qed
  then show ?thesis
    using g fields same by (simp add: merged_group_def first_set_snoc Let_def)
qed

lemma duplicates_spot:
  assumes "duplicates c (u\<lparr>tr_text := x\<rparr>) t" "same_place t h"
  shows "duplicates c u (spot h)"
proof -
  have level: "target_level t = target_level h" using assms(2) by (simp add: same_place_def target_level_def)
  have "near h u" using assms level by (simp add: duplicates_def near_def same_place_def target_level_def Let_def)
  moreover have "fst (duplicate (spot h) u c zero_fusion_stats)"
    using assms by (auto simp: duplicates_def duplicate_def spot_def same_place_def compatible_role_def compatible_window_def
      role_group_def area_def Let_def split: if_splits)
  ultimately show ?thesis by (simp add: duplicates_def near_def spot_def target_level_def)
qed

lemma mset_concat_member:
  "k < length gs \<Longrightarrow> mset (concat (gs[k := gs ! k @ [u]])) = add_mset u (mset (concat gs))"
  by (induction gs arbitrary: k) (auto split: nat.split)

lemma subseq_snoc: "subseq xs ys \<Longrightarrow> subseq xs (ys @ [y])" "subseq xs ys \<Longrightarrow> subseq (xs @ [y]) (ys @ [y])"
  using list_emb_append_mono [of "(=)" xs ys "[]" "[y]"] by simp_all

lemma fusion_groups_join:
  assumes g: "fusion_groups c cs ts gs dropped" and k: "k < length ts" "fc_merge_duplicates c"
    and d: "duplicates c (u\<lparr>tr_text := x\<rparr>) (ts ! k)"
  shows "fusion_groups c (cs @ [u]) (ts[k := fst (merge_target (ts ! k) (u\<lparr>tr_text := x\<rparr>) st)]) (gs[k := gs ! k @ [u]]) dropped"
proof -
  have all: "list_all2 merged_group gs ts" and len: "length gs = length ts" using g by (auto simp: fusion_groups_def list_all2_lengthD)
  then have m: "merged_group (gs ! k) (ts ! k)" using k by (simp add: list_all2_conv_all_nth)
  then have ne: "gs ! k \<noteq> []" "same_place (ts ! k) (hd (gs ! k))" by (simp_all add: merged_group_def)
  have "list_all2 merged_group (gs[k := gs ! k @ [u]]) (ts[k := fst (merge_target (ts ! k) (u\<lparr>tr_text := x\<rparr>) st)])"
    using all merged_group_snoc [OF m] by (rule list_all2_update_cong)
  moreover have "mset (concat (gs[k := gs ! k @ [u]]) @ dropped) = mset (cs @ [u])"
    using g k len by (simp add: fusion_groups_def mset_concat_member)
  moreover have "list_all (\<lambda>g. subseq g (cs @ [u])) (gs[k := gs ! k @ [u]])"
    using g k len by (auto simp: fusion_groups_def list_all_length nth_list_update subseq_snoc)
  moreover have "map hd (gs[k := gs ! k @ [u]]) = map hd gs"
    using ne(1) by (metis hd_append2 list_update_id map_update)
  then have "subseq (map hd (gs[k := gs ! k @ [u]])) (cs @ [u])" using g by (simp add: fusion_groups_def subseq_snoc)
  moreover have "list_all (\<lambda>g. list_all (\<lambda>u. duplicates c u (spot (hd g))) (tl g)) (gs[k := gs ! k @ [u]])"
    using g k len ne(1) duplicates_spot [OF d ne(2)]
    by (auto simp: fusion_groups_def list_all_length [of _ gs] list_all_length [of _ "gs[k := gs ! k @ [u]]"] nth_list_update)
  ultimately show ?thesis using g k(2) by (simp add: fusion_groups_def split: if_splits)
qed

lemma fuse_candidate_groups:
  assumes "fusion_inv c s" "fc_maximum_targets c \<le> TARGET_PACKET_MAX_TARGETS" "inert_target (u\<lparr>tr_text := x\<rparr>)"
    "fusion_groups c cs (fu_targets s) gs dropped" "fs_capacity_drops (fu_stats s) = word_of_nat (length dropped)"
  obtains s' gs' dropped' where "fuse_candidate c (u\<lparr>tr_text := x\<rparr>) s = Some s'" "fusion_inv c s'"
    "fusion_groups c (cs @ [u]) (fu_targets s') gs' dropped'" "fs_capacity_drops (fu_stats s') = word_of_nat (length dropped')"
proof -
  let ?u = "u\<lparr>tr_text := x\<rparr>" let ?ts = "fu_targets s"
  have len: "length gs = length ?ts" using assms(4) by (auto simp: fusion_groups_def list_all2_lengthD)
  obtain s' where s': "fuse_candidate c ?u s = Some s'" "fusion_inv c s'"
    "(\<exists>k < length ?ts. \<exists>st. fc_merge_duplicates c \<and> duplicates c ?u (?ts ! k) \<and>
        fu_targets s' = ?ts[k := fst (merge_target (?ts ! k) ?u st)]) \<or>
     ((fc_merge_duplicates c \<longrightarrow> \<not> list_ex (duplicates c ?u) ?ts) \<and>
      fu_targets s' = (if length ?ts = unat (fc_maximum_targets c) then ?ts else ?ts @ [?u]))"
    "fs_capacity_drops (fu_stats s') = fs_capacity_drops (fu_stats s) +
      (if fc_merge_duplicates c \<and> list_ex (duplicates c ?u) ?ts then 0
       else if length ?ts = unat (fc_maximum_targets c) then 1 else 0)"
    using fuse_candidate_step [OF assms(1,2), of ?u thesis] by simp
  from s'(3) show ?thesis
  proof
    assume "\<exists>k < length ?ts. \<exists>st. fc_merge_duplicates c \<and> duplicates c ?u (?ts ! k) \<and>
        fu_targets s' = ?ts[k := fst (merge_target (?ts ! k) ?u st)]"
    then obtain k st where k: "k < length ?ts" "fc_merge_duplicates c" "duplicates c ?u (?ts ! k)"
      "fu_targets s' = ?ts[k := fst (merge_target (?ts ! k) ?u st)]" by blast
    then have "list_ex (duplicates c ?u) ?ts" by (auto simp: list_ex_length)
    then show ?thesis
      using that [OF s'(1,2), of "gs[k := gs ! k @ [u]]" dropped] fusion_groups_join [OF assms(4) k(1-3)] k(2,4) s'(4) assms(5)
      by simp
  next
    assume none: "(fc_merge_duplicates c \<longrightarrow> \<not> list_ex (duplicates c ?u) ?ts) \<and>
      fu_targets s' = (if length ?ts = unat (fc_maximum_targets c) then ?ts else ?ts @ [?u])"
    have parts: "list_all (\<lambda>g. subseq g (cs @ [u])) gs" "subseq (map hd gs) (cs @ [u])" "subseq (map hd gs @ [u]) (cs @ [u])"
      using assms(4) by (auto simp: fusion_groups_def list_all_iff subseq_snoc)
    have one: "subseq [u] (cs @ [u])" using subseq_snoc(2) [of "[]" cs u] by simp
    show ?thesis
    proof (cases "length ?ts = unat (fc_maximum_targets c)")
      case True
      have "fusion_groups c (cs @ [u]) (fu_targets s') gs (dropped @ [u])"
        using assms(4) parts True none by (simp add: fusion_groups_def split: if_splits)
      then show ?thesis using that [OF s'(1,2), of gs "dropped @ [u]"] s'(4) none True assms(5) by auto
    next
      case False
      have "merged_group [u] ?u" using assms(3) by (rule merged_group_single)
      then have "fusion_groups c (cs @ [u]) (fu_targets s') (gs @ [[u]]) dropped"
        using assms(4) parts one False none len
        by (auto simp: fusion_groups_def list_all2_append split: if_splits)
      then show ?thesis using that [OF s'(1,2), of "gs @ [[u]]" dropped] s'(4) none False assms(5) by auto
    qed
  qed
qed

lemma fuse_candidates_groups:
  assumes "fc_maximum_targets c \<le> TARGET_PACKET_MAX_TARGETS" "fusion_inv c s"
    "\<forall>i < length ts. inert_target (candidate_of k (index + i) (ts ! i))"
    "fusion_groups c cs (fu_targets s) gs dropped" "fs_capacity_drops (fu_stats s) = word_of_nat (length dropped)"
  shows "\<exists>s' gs' dropped'. fuse_candidates c k index ts s = Some s' \<and> fusion_inv c s' \<and>
    fusion_groups c (cs @ ts) (fu_targets s') gs' dropped' \<and> fs_capacity_drops (fu_stats s') = word_of_nat (length dropped')"
  using assms(2-)
proof (induction ts arbitrary: index s cs gs dropped)
  case Nil
  then show ?case by auto
next
  case (Cons t ts)
  obtain x where x: "candidate_of k index t = t\<lparr>tr_text := x\<rparr>" by (simp add: candidate_of_def)
  have t: "inert_target (t\<lparr>tr_text := x\<rparr>)" using Cons.prems(2) x by force
  obtain s' gs' dropped' where s': "fuse_candidate c (t\<lparr>tr_text := x\<rparr>) s = Some s'" "fusion_inv c s'"
    "fusion_groups c (cs @ [t]) (fu_targets s') gs' dropped'" "fs_capacity_drops (fu_stats s') = word_of_nat (length dropped')"
    by (rule fuse_candidate_groups [OF Cons.prems(1) assms(1) t Cons.prems(3,4)])
  have "\<forall>i < length ts. inert_target (candidate_of k (index + 1 + i) (ts ! i))" using Cons.prems(2) by force
  from Cons.IH [OF s'(2) this s'(3,4)] show ?case using s'(1) x by simp
qed

lemma fuse_packets_groups:
  assumes "fc_maximum_targets c \<le> TARGET_PACKET_MAX_TARGETS" "fusion_inv c s"
    "\<forall>k < length ps. \<forall>i < length (pv_targets (ps ! k)). inert_target (candidate_of (from_packet + k) i (pv_targets (ps ! k) ! i))"
    "fusion_groups c cs (fu_targets s) gs dropped" "fs_capacity_drops (fu_stats s) = word_of_nat (length dropped)"
  shows "\<exists>s' gs' dropped'. fuse_packets c from_packet ps s = Some s' \<and>
    fusion_groups c (cs @ concat (map pv_targets ps)) (fu_targets s') gs' dropped' \<and>
    fs_capacity_drops (fu_stats s') = word_of_nat (length dropped')"
  using assms(2-)
proof (induction ps arbitrary: from_packet s cs gs dropped)
  case Nil
  then show ?case by auto
next
  case (Cons p ps)
  let ?s = "s\<lparr>fu_stats := (fu_stats s)\<lparr>fs_packets_read := fs_packets_read (fu_stats s) + 1\<rparr>\<rparr>"
  have i: "fusion_inv c ?s" "fusion_groups c cs (fu_targets ?s) gs dropped"
    "fs_capacity_drops (fu_stats ?s) = word_of_nat (length dropped)"
    using Cons.prems by (simp_all add: fusion_inv_def)
  have "\<forall>i < length (pv_targets p). inert_target (candidate_of from_packet (0 + i) (pv_targets p ! i))"
    using Cons.prems(2) by force
  from fuse_candidates_groups [OF assms(1) i(1) this i(2,3)] obtain s' gs' dropped' where
    s': "fuse_candidates c from_packet 0 (pv_targets p) ?s = Some s'" "fusion_inv c s'"
      "fusion_groups c (cs @ pv_targets p) (fu_targets s') gs' dropped'"
      "fs_capacity_drops (fu_stats s') = word_of_nat (length dropped')" by blast
  have "\<forall>k < length ps. \<forall>i < length (pv_targets (ps ! k)).
      inert_target (candidate_of (from_packet + 1 + k) i (pv_targets (ps ! k) ! i))"
    using Cons.prems(2) by force
  from Cons.IH [OF s'(2) this s'(3,4)] show ?case using s'(1) by simp
qed

text \<open>Copying the texts changes the text and the truncation flag only.\<close>

lemma copy_texts_groups:
  assumes "copy_texts ps n flags ts = (ts', lane, flags')"
  shows "list_all2 merged_group gs ts \<Longrightarrow> list_all2 merged_group gs ts'" "length ts' = length ts"
proof -
  have keep: "merged_group g (t\<lparr>tr_text := x, tr_flags := f\<rparr>)"
    if "merged_group g t" "f = tr_flags t \<or> f = tr_flags t OR 64" for g t x f
  proof -
    have "(tr_flags t OR 64) AND 10 = tr_flags t AND 10" unfolding unsafe_bits by (simp add: bit_simps)
    then show ?thesis using that by (auto simp: merged_group_def same_place_def Let_def)
  qed
  have keep0: "merged_group g (t\<lparr>tr_text := x\<rparr>)" if "merged_group g t" for g t x
    using keep [OF that, of "tr_flags t" x] by simp
  show "list_all2 merged_group gs ts \<Longrightarrow> list_all2 merged_group gs ts'"
    using assms
  proof (induction ts arbitrary: n flags gs ts' lane flags')
    case (Cons t ts)
    then obtain g gs0 where gs: "gs = g # gs0" "merged_group g t" "list_all2 merged_group gs0 ts"
      by (auto simp: list_all2_Cons2)
    show ?case
      using Cons.prems(2) Cons.IH [OF gs(3)] keep [OF gs(2)] keep0 [OF gs(2)] gs(1)
      by (auto simp: Let_def split: prod.splits if_splits)
  qed simp
  show "length ts' = length ts"
    using assms by (induction ts arbitrary: n flags ts' lane flags') (auto simp: Let_def split: prod.splits if_splits)
qed

subsection \<open>Whole calls\<close>

text \<open>The packets a caller passes are views the reader made of byte spans.\<close>

definition read_views :: "span_u8 list \<Rightarrow> packet_view option list" where
  "read_views spans = map (\<lambda>s. snd (validate_packet s True True)) spans"

lemma fuse_cases:
  assumes "fuse (Some packets) c e pointers output = r"
  shows "(\<exists>result required. r = Some (result, required, None, None) \<and> result \<noteq> SACCADE_OK) \<or>
    (fusion_arguments_valid (length packets) c e \<and> list_all (\<lambda>p. epochs_match p e) packets \<and>
     (\<exists>n. output = Some n \<and> header_size + unat (fc_maximum_targets c) * target_size + 16384 \<le> n) \<and>
     (case fuse_packets c 0 (map the packets) start_fusion of None \<Rightarrow> r = None
      | Some s \<Rightarrow> (let (targets, lane, flags) = copy_texts (map the packets) 0 (merged_packet_flags (map the packets)) (fu_targets s);
            total_size = header_size + length (fu_targets s) * target_size + length lane
          in r = Some (SACCADE_OK, Some total_size, Some ((fu_stats s)\<lparr>fs_targets_written := word_of_nat (length (fu_targets s))\<rparr>),
            Some (put_packet (fusion_header e (length (fu_targets s)) flags total_size) targets lane)))))"
proof -
  let ?max = "header_size + unat (fc_maximum_targets c) * target_size + unat TARGET_PACKET_MAX_TEXT_BYTES"
  consider "\<not> pointers \<or> \<not> fusion_arguments_valid (length packets) c e"
    | "pointers" "fusion_arguments_valid (length packets) c e" "output = None \<or> the output < ?max"
    | "pointers" "fusion_arguments_valid (length packets) c e" "\<not> (output = None \<or> the output < ?max)"
      "\<not> list_all (\<lambda>p. epochs_match p e) packets"
    | n where "pointers" "fusion_arguments_valid (length packets) c e" "output = Some n" "?max \<le> n"
      "list_all (\<lambda>p. epochs_match p e) packets"
    by fastforce
  then show ?thesis
  proof cases
    case 1
    then show ?thesis using assms by (intro disjI1) (auto simp: fuse_def)
  next
    case 2
    then show ?thesis using assms by (intro disjI1) (auto simp: fuse_def Let_def)
  next
    case 3
    then show ?thesis using assms by (intro disjI1) (auto simp: fuse_def Let_def)
  next
    case 4
    then show ?thesis using assms
      by (cases "fuse_packets c 0 (map the packets) start_fusion") (auto simp: fuse_def Let_def split_beta)
  qed
qed

lemma fusion_arguments_max:
  "fusion_arguments_valid n c e \<Longrightarrow> fc_maximum_targets c \<le> TARGET_PACKET_MAX_TARGETS \<and> n \<le> 4 \<and> fe_scene_epoch e \<noteq> 0 \<and>
     fe_frame_id e \<noteq> 0 \<and> fe_model_epoch e \<noteq> 0 \<and> fe_session_epoch e \<noteq> 0 \<and> fe_transform_epoch e \<noteq> 0 \<and>
     fe_topology_epoch e \<noteq> 0 \<and> fe_source_id e \<noteq> 0"
  by (auto simp: fusion_arguments_valid_def not_less)

lemma merged_flags_masked:
  assumes "list_all packet_wf ps"
  shows "merged_packet_flags ps AND NOT packet_flag_mask = 0"
proof -
  have "foldl (\<lambda>flags p. flags OR ph_flags (pv_header p)) f ps AND NOT packet_flag_mask = 0"
    if "f AND NOT packet_flag_mask = 0" for f
    using assms that
  proof (induction ps arbitrary: f)
    case Nil
    then show ?case by simp
  next
    case (Cons p ps)
    have "ph_flags (pv_header p) AND NOT packet_flag_mask = 0"
      using Cons.prems(1) by (simp add: packet_wf_def header_accepted_def Let_def)
    then show ?case using Cons.IH Cons.prems by (simp add: mask_OR)
  qed
  then show ?thesis by (simp add: merged_packet_flags_def)
qed

lemma fusion_header_accepted:
  assumes "fusion_arguments_valid k c e" "n \<le> 10000" "l \<le> 16384" "flags AND NOT packet_flag_mask = 0"
  defines "h \<equiv> fusion_header e n flags (header_size + n * target_size + l)"
  shows "unat (ph_total_size h) = header_size + n * target_size + l" "unat (ph_target_count h) = n"
    "header_accepted h (unat (ph_total_size h))"
proof -
  have "header_size + n * target_size + l < 18446744073709551616"
    using assms(2,3) by (simp add: header_size_def target_size_def)
  from unat_of_nat_small [OF this] show "unat (ph_total_size h) = header_size + n * target_size + l"
    unfolding h_def by (simp add: fusion_header_def del: of_nat_add of_nat_mult)
qed (use assms fusion_arguments_max [OF assms(1)] in \<open>simp_all add: h_def fusion_header_def zero_header_def unat_of_nat
      header_accepted_def valid_coordinate_space_def header_size_def target_size_def not_less word_le_nat_alt\<close>)

text \<open>What a call with validated packets computes.\<close>

lemma fuse_validated:
  assumes "fusion_arguments_valid (length ps) c e" "list_all packet_wf ps"
  obtains s targets lane flags where "fuse_packets c 0 ps start_fusion = Some s" "accounted s" "fusion_inv c s"
    "copy_texts ps 0 (merged_packet_flags ps) (fu_targets s) = (targets, lane, flags)" "length targets = length (fu_targets s)"
    "length lane \<le> 16384" "flags AND NOT packet_flag_mask = 0" "list_all inert_target targets"
    "text_lane lane 0 targets \<longleftrightarrow> list_all consistent_target targets" "fc_merge_duplicates c \<or> list_all consistent_target targets"
proof -
  note a = fusion_arguments_max [OF assms(1)]
  let ?P = "\<lambda>t. bounded_target t \<and> inert_target t \<and> reference_ok ps t"
  have P: "merge_closed ?P"
    by (intro merge_closed_conj merge_closed_bounded merge_closed_inert merge_closed_reference)
  have cand: "\<forall>k < length ps. \<forall>i < length (pv_targets (ps ! k)). ?P (candidate_of (0 + k) i (pv_targets (ps ! k) ! i)) \<and>
      consistent_target (candidate_of (0 + k) i (pv_targets (ps ! k) ! i))"
    using candidate_of_parts assms(2) a by (auto simp: list_all_length)
  note start = start_fusion_inv
  obtain s where s: "fuse_packets c 0 ps start_fusion = Some s" "fusion_inv c s" "accounted s" "list_all ?P (fu_targets s)"
    using fuse_packets_closed [of c ?P start_fusion ps 0] a P cand start by auto
  have con: "fc_merge_duplicates c \<or> list_all consistent_target (fu_targets s)"
    using fuse_packets_closed [of c consistent_target start_fusion ps 0] a cand start s(1) by auto
  obtain targets lane flags where t: "copy_texts ps 0 (merged_packet_flags ps) (fu_targets s) = (targets, lane, flags)"
    by (metis prod_cases3)
  note lane = copy_texts_lane [OF assms(2) s(4) _ _ t, of "[]", simplified]
  show ?thesis
    by (rule that [OF s(1,3,2) t]) (use lane con merged_flags_masked [OF assms(2)] in auto)
qed

lemma copied_groups:
  "copy_texts ps n flags ts = (ts', lane, flags') \<Longrightarrow> fusion_groups c cs ts gs dropped \<Longrightarrow> fusion_groups c cs ts' gs dropped"
  using copy_texts_groups by (simp add: fusion_groups_def)

lemma fuse_groups:
  assumes "fusion_arguments_valid (length ps) c e" "list_all packet_wf ps" "fuse_packets c 0 ps start_fusion = Some s"
  shows "\<exists>gs dropped. fusion_groups c (concat (map pv_targets ps)) (fu_targets s) gs dropped \<and>
    fs_capacity_drops (fu_stats s) = word_of_nat (length dropped)"
proof -
  note a = fusion_arguments_max [OF assms(1)]
  have cand: "\<forall>k < length ps. \<forall>i < length (pv_targets (ps ! k)). inert_target (candidate_of (0 + k) i (pv_targets (ps ! k) ! i))"
    using candidate_of_parts(2) assms(2) a by (auto simp: list_all_length)
  have start: "fusion_groups c [] (fu_targets start_fusion) [] []" "fs_capacity_drops (fu_stats start_fusion) = word_of_nat (length [])"
    by (simp_all add: fusion_groups_def start_fusion_def zero_fusion_stats_def)
  show ?thesis
    using fuse_packets_groups [OF _ start_fusion_inv(1) cand start] a assms(3) by auto
qed

text \<open>The result of a call, and the epochs a packet carries.\<close>

definition fusion_outcome :: "packet_view option list \<Rightarrow> fusion_config \<Rightarrow> fusion_epochs \<Rightarrow> bool \<Rightarrow> nat option \<Rightarrow> saccade_result" where
  "fusion_outcome packets c e pointers output =
     (if \<not> pointers \<or> \<not> fusion_arguments_valid (length packets) c e then SACCADE_ERROR_INVALID_ARGUMENT
      else if output = None \<or> the output < header_size + unat (fc_maximum_targets c) * target_size + 16384
      then SACCADE_ERROR_CAPACITY
      else if list_all (\<lambda>p. epochs_match p e) packets then SACCADE_OK else SACCADE_ERROR_STALE_HANDLE)"

lemma fuse_decided:
  "fuse (Some packets) c e pointers output = Some r \<Longrightarrow> fst r = fusion_outcome packets c e pointers output"
  by (auto simp: fuse_def fusion_outcome_def Let_def split: if_splits option.splits prod.splits)

definition header_epochs :: "packet_header \<Rightarrow> fusion_epochs" where
  "header_epochs h = \<lparr>fe_scene_epoch = ph_scene_epoch h, fe_frame_id = ph_frame_id h, fe_capture_time_ns = ph_capture_time_ns h,
     fe_model_epoch = ph_model_epoch h, fe_session_epoch = ph_session_epoch h, fe_transform_epoch = ph_transform_epoch h,
     fe_topology_epoch = ph_topology_epoch h, fe_source_id = ph_source_id h\<rparr>"

lemma header_epochs_fusion:
  "header_epochs (fusion_header e n flags total_size) = e" "ph_coordinate_space (fusion_header e n flags total_size) = SPACE_DESKTOP_Q8"
  by (simp_all add: header_epochs_def fusion_header_def)

lemma fuse_written:
  "case fuse (Some (read_views spans)) c e pointers output of
     None \<Rightarrow> False
   | Some (SACCADE_OK, required, stats, Some bytes) \<Rightarrow>
       (let (h, rest) = get_header bytes; ts = fst (get_targets (unat (ph_target_count h)) rest);
            candidates = concat (map (pv_targets \<circ> the) (read_views spans));
            accepted = (fst (validate_packet (Span bytes) True True) = SACCADE_OK)
        in required = Some (length bytes) \<and> length bytes \<le> the output \<and>
           header_epochs h = e \<and> ph_coordinate_space h = SPACE_DESKTOP_Q8 \<and> length ts \<le> unat (fc_maximum_targets c) \<and>
           (\<exists>groups dropped. fusion_groups c candidates ts groups dropped \<and>
              map_option fs_capacity_drops stats = Some (word_of_nat (length dropped))) \<and>
           list_all inert_target ts \<and>
           accepted = list_all consistent_target ts \<and> (fc_merge_duplicates c \<or> accepted))
   | Some (result, required, stats, bytes) \<Rightarrow> bytes = None \<and> result \<noteq> SACCADE_OK"
proof -
  let ?packets = "read_views spans"
  from fuse_cases [of ?packets c e pointers "output", OF refl] show ?thesis
  proof
    assume "\<exists>result required. fuse (Some ?packets) c e pointers output = Some (result, required, None, None) \<and> result \<noteq> SACCADE_OK"
    then show ?thesis by (auto split: saccade_result.splits)
  next
    assume "fusion_arguments_valid (length ?packets) c e \<and> list_all (\<lambda>p. epochs_match p e) ?packets \<and>
     (\<exists>n. output = Some n \<and> header_size + unat (fc_maximum_targets c) * target_size + 16384 \<le> n) \<and>
     (case fuse_packets c 0 (map the ?packets) start_fusion of None \<Rightarrow> fuse (Some ?packets) c e pointers output = None
      | Some s \<Rightarrow> (let (targets, lane, flags) = copy_texts (map the ?packets) 0 (merged_packet_flags (map the ?packets)) (fu_targets s);
            total_size = header_size + length (fu_targets s) * target_size + length lane
          in fuse (Some ?packets) c e pointers output = Some (SACCADE_OK, Some total_size,
            Some ((fu_stats s)\<lparr>fs_targets_written := word_of_nat (length (fu_targets s))\<rparr>),
            Some (put_packet (fusion_header e (length (fu_targets s)) flags total_size) targets lane))))"
    then obtain n where arg: "fusion_arguments_valid (length (map the ?packets)) c e" and ep: "list_all (\<lambda>p. epochs_match p e) ?packets"
      and n: "output = Some n" "header_size + unat (fc_maximum_targets c) * target_size + 16384 \<le> n"
      and r: "case fuse_packets c 0 (map the ?packets) start_fusion of None \<Rightarrow> fuse (Some ?packets) c e pointers output = None
      | Some s \<Rightarrow> (let (targets, lane, flags) = copy_texts (map the ?packets) 0 (merged_packet_flags (map the ?packets)) (fu_targets s);
            total_size = header_size + length (fu_targets s) * target_size + length lane
          in fuse (Some ?packets) c e pointers output = Some (SACCADE_OK, Some total_size,
            Some ((fu_stats s)\<lparr>fs_targets_written := word_of_nat (length (fu_targets s))\<rparr>),
            Some (put_packet (fusion_header e (length (fu_targets s)) flags total_size) targets lane)))"
      by auto
    have wf: "list_all packet_wf (map the ?packets)"
      using ep read_view_wf by (fastforce simp: list_all_iff read_views_def epochs_match_def split: option.splits)
    obtain s targets lane flags where s: "fuse_packets c 0 (map the ?packets) start_fusion = Some s" "fusion_inv c s"
      and t: "copy_texts (map the ?packets) 0 (merged_packet_flags (map the ?packets)) (fu_targets s) = (targets, lane, flags)"
      and l: "length targets = length (fu_targets s)" "length lane \<le> 16384" "flags AND NOT packet_flag_mask = 0"
      and p: "list_all inert_target targets" "text_lane lane 0 targets \<longleftrightarrow> list_all consistent_target targets"
        "fc_merge_duplicates c \<or> list_all consistent_target targets"
      by (rule fuse_validated [OF arg wf])
    have groups: "\<exists>gs dropped. fusion_groups c (concat (map (pv_targets \<circ> the) ?packets)) targets gs dropped \<and>
        fs_capacity_drops (fu_stats s) = word_of_nat (length dropped)"
      using fuse_groups [OF arg wf s(1)] copied_groups [OF t] unfolding map_map by blast
    let ?n = "length targets" let ?h = "fusion_header e ?n flags (header_size + ?n * target_size + length lane)"
    have max: "?n \<le> unat (fc_maximum_targets c)" "?n \<le> 10000"
      using s(2) l(1) fusion_arguments_max [OF arg] by (auto simp: fusion_inv_def word_le_nat_alt)
    note h = fusion_header_accepted [OF arg max(2) l(2,3)]
    have out: "fuse (Some ?packets) c e pointers output = Some (SACCADE_OK, Some (header_size + ?n * target_size + length lane),
        Some ((fu_stats s)\<lparr>fs_targets_written := word_of_nat ?n\<rparr>), Some (put_packet ?h targets lane))"
      using r unfolding s(1) option.case t prod.case Let_def l(1) .
    have "validate_packet (Span (put_packet ?h targets lane)) True True = (SACCADE_OK, Some v) \<longleftrightarrow>
        text_lane lane 0 targets \<and> v = packet_of ?h targets lane" for v
      by (rule validate_produced [OF h(3,2,1) l(2)])
    then have acc: "fst (validate_packet (Span (put_packet ?h targets lane)) True True) = SACCADE_OK \<longleftrightarrow>
        list_all consistent_target targets"
      unfolding validate_packet_ok p(2) by blast
    have "?n * target_size \<le> unat (fc_maximum_targets c) * target_size" using max(1) by (rule mult_le_mono1)
    then have "header_size + ?n * target_size + length lane \<le> n" using n(2) l(2) by linarith
    moreover have "get_header (put_packet ?h targets lane) = (?h, concat (map put_target targets) @ lane)"
      by (simp add: put_packet_def)
    ultimately show ?thesis unfolding out using acc max(1) p n(1) h(2) groups header_epochs_fusion [of e] by simp
  qed
qed

subsection \<open>Properties\<close>

text \<open>C4. Fusing packets that the reader accepted always returns. The result is an invalid
  argument for missing pointers or invalid arguments, else a capacity error for an output without room
  for the largest packet, else a stale handle for a packet of another frame, session, transform,
  topology or space, else success. A successful call writes a packet with the given epochs and of
  the reported size into the output, with at most the configured number of targets. Behind each
  target stands a group of the candidates, in their order: the first gives the place and the
  identifier, the others duplicate it (there are none when merging is off), and all of them give
  the united sources, the highest confidence, the first known role, parent, window and display, and
  the capabilities. The target is disabled or secure exactly when one of its candidates is, and then
  has no capability and is not actionable, and a secure one has no text. Every candidate is in one
  group, but for those dropped, which are counted, and only when the list is full. The packet
  passes validation exactly when no merge left a target inconsistent (its own parent, actionable
  without capabilities or the converse, or a text on a redacted or truncated target), and always
  when merging is off. Every other result writes no packet.\<close>

theorem fuse_output:
  "map_option fst (fuse (Some (read_views spans)) c e pointers output) = Some (fusion_outcome (read_views spans) c e pointers output) \<and>
   (case fuse (Some (read_views spans)) c e pointers output of
     None \<Rightarrow> False
   | Some (SACCADE_OK, required, stats, Some bytes) \<Rightarrow>
       (let (h, rest) = get_header bytes; ts = fst (get_targets (unat (ph_target_count h)) rest);
            candidates = concat (map (pv_targets \<circ> the) (read_views spans));
            accepted = (fst (validate_packet (Span bytes) True True) = SACCADE_OK)
        in required = Some (length bytes) \<and> length bytes \<le> the output \<and>
           header_epochs h = e \<and> ph_coordinate_space h = SPACE_DESKTOP_Q8 \<and> length ts \<le> unat (fc_maximum_targets c) \<and>
           (\<exists>groups dropped. fusion_groups c candidates ts groups dropped \<and>
              map_option fs_capacity_drops stats = Some (word_of_nat (length dropped))) \<and>
           list_all inert_target ts \<and>
           accepted = list_all consistent_target ts \<and> (fc_merge_duplicates c \<or> accepted))
   | Some (result, required, stats, bytes) \<Rightarrow> bytes = None \<and> result \<noteq> SACCADE_OK)"
proof
  show "map_option fst (fuse (Some (read_views spans)) c e pointers output) = Some (fusion_outcome (read_views spans) c e pointers output)"
  proof (cases "fuse (Some (read_views spans)) c e pointers output")
    case None
    then show ?thesis using fuse_written [of spans] by (metis (no_types, lifting) option.case(1))
  qed (use fuse_decided in simp)
qed (rule fuse_written)

text \<open>C13. However many packets have been fused, the hash grid misses nothing: the search for a
  candidate ends and returns a target exactly when one of the targets so far is near the
  candidate and duplicates it, which a scan of all targets would find. The nodes never exceed
  the workspace.\<close>

theorem grid_search_exact:
  assumes "fc_maximum_targets c \<le> TARGET_PACKET_MAX_TARGETS"
  shows "case fuse_packets c 0 ps start_fusion of
     None \<Rightarrow> False
   | Some s \<Rightarrow> length (fw_nodes (fu_workspace s)) \<le> fusion_node_count \<and>
       (case find_duplicate t (fu_targets s) c (fu_workspace s) stats of
          None \<Rightarrow> False
        | Some (m, stats') \<Rightarrow>
            if m = empty_node then \<not> list_ex (duplicates c t) (fu_targets s)
            else unat m < length (fu_targets s) \<and> duplicates c t (fu_targets s ! unat m))"
proof -
  have "merge_closed (\<lambda>t. True)" by (simp add: merge_closed_def)
  then obtain s where s: "fuse_packets c 0 ps start_fusion = Some s" "fusion_inv c s"
    using fuse_packets_closed [of c "\<lambda>t. True" start_fusion ps 0] assms start_fusion_inv by auto
  have "unat (fc_maximum_targets c) \<le> 10000" using assms by (simp add: word_le_nat_alt)
  then have g: "grid_inv (fu_targets s) (fu_workspace s)" "indexed (fu_targets s) (fu_workspace s)"
    "levels_of_nodes (fu_targets s) (fu_workspace s)" "length (fu_targets s) \<le> 10000"
    using s(2) by (auto simp: fusion_inv_def)
  have "length (fw_nodes (fu_workspace s)) \<le> fusion_node_count"
    using g(1,4) by (simp add: grid_inv_def fusion_node_count_def fusion_nodes_per_target_def)
  moreover obtain m stats' where "find_duplicate t (fu_targets s) c (fu_workspace s) stats = Some (m, stats')"
    "if m = empty_node then \<not> list_ex (duplicates c t) (fu_targets s)
     else unat m < length (fu_targets s) \<and> duplicates c t (fu_targets s ! unat m)"
    by (rule find_duplicate_exact [OF g, where t = t and c = c and stats = stats])
  ultimately show ?thesis using s(1) by simp
qed

theorem grid_search_exact_witness:
  "case fuse_packets default_fusion_config 0 [packet_of zero_header [zero_target\<lparr>tr_width_q8 := 512, tr_height_q8 := 512\<rparr>] []]
          start_fusion of
     None \<Rightarrow> False
   | Some s \<Rightarrow> length (fw_nodes (fu_workspace s)) \<le> fusion_node_count \<and>
       (case find_duplicate (zero_target\<lparr>tr_width_q8 := 500, tr_height_q8 := 512\<rparr>) (fu_targets s) default_fusion_config
               (fu_workspace s) zero_fusion_stats of
          None \<Rightarrow> False
        | Some (m, stats') \<Rightarrow>
            if m = empty_node then
              \<not> list_ex (duplicates default_fusion_config (zero_target\<lparr>tr_width_q8 := 500, tr_height_q8 := 512\<rparr>)) (fu_targets s)
            else unat m < length (fu_targets s) \<and>
              duplicates default_fusion_config (zero_target\<lparr>tr_width_q8 := 500, tr_height_q8 := 512\<rparr>) (fu_targets s ! unat m))"
  by (rule grid_search_exact) (simp add: default_fusion_config_def)

text \<open>Every candidate a successful call read was merged into a target, dropped for lack of room,
  or written: the statistics add up, whatever the packets hold.\<close>

theorem fuse_accounting:
  "case fuse (Some packets) c e pointers output of
     Some (SACCADE_OK, required, Some stats, bytes) \<Rightarrow>
       fs_candidates_read stats = fs_duplicates_merged stats + fs_capacity_drops stats + ucast (fs_targets_written stats)
   | Some (result, required, stats, bytes) \<Rightarrow> result \<noteq> SACCADE_OK \<and> stats = None
   | None \<Rightarrow> False"
proof -
  have P: "merge_closed (\<lambda>t. True)" by (simp add: merge_closed_def)
  from fuse_cases [of packets c e pointers "output", OF refl] show ?thesis
  proof
    assume "\<exists>result required. fuse (Some packets) c e pointers output = Some (result, required, None, None) \<and> result \<noteq> SACCADE_OK"
    then show ?thesis by (auto split: saccade_result.splits)
  next
    assume r: "fusion_arguments_valid (length packets) c e \<and> list_all (\<lambda>p. epochs_match p e) packets \<and>
     (\<exists>n. output = Some n \<and> header_size + unat (fc_maximum_targets c) * target_size + 16384 \<le> n) \<and>
     (case fuse_packets c 0 (map the packets) start_fusion of None \<Rightarrow> fuse (Some packets) c e pointers output = None
      | Some s \<Rightarrow> (let (targets, lane, flags) = copy_texts (map the packets) 0 (merged_packet_flags (map the packets)) (fu_targets s);
            total_size = header_size + length (fu_targets s) * target_size + length lane
          in fuse (Some packets) c e pointers output = Some (SACCADE_OK, Some total_size,
            Some ((fu_stats s)\<lparr>fs_targets_written := word_of_nat (length (fu_targets s))\<rparr>),
            Some (put_packet (fusion_header e (length (fu_targets s)) flags total_size) targets lane))))"
    then have max: "fc_maximum_targets c \<le> TARGET_PACKET_MAX_TARGETS" using fusion_arguments_max by blast
    obtain s where s: "fuse_packets c 0 (map the packets) start_fusion = Some s" "fusion_inv c s" "accounted s"
      using fuse_packets_closed [of c "\<lambda>t. True" start_fusion "map the packets" 0] max P start_fusion_inv by auto
    have "length (fu_targets s) \<le> 10000" using s(2) max by (simp add: fusion_inv_def word_le_nat_alt)
    then have w: "ucast (word_of_nat (length (fu_targets s)) :: u32) = (word_of_nat (length (fu_targets s)) :: u64)"
      by (simp add: word_unat_eq_iff unat_of_nat)
    show ?thesis using r s(1,3) by (auto simp: Let_def accounted_def w split: prod.splits)
  qed
qed

text \<open>Merging a truncated target into one with a text, or a target into its parent, is such a case:
  both records are valid and duplicate each other, and the merged record is not valid.\<close>

definition button_at :: "u64 \<Rightarrow> u64 \<Rightarrow> target_record" where
  "button_at target_id parent = zero_target\<lparr>tr_target_id := target_id, tr_parent_id := parent, tr_width_q8 := 8192, tr_height_q8 := 8192,
     tr_safe_x_q8 := 4096, tr_safe_y_q8 := 4096, tr_role := ROLE_BUTTON, tr_source_bits := SOURCE_ACCESSIBILITY,
     tr_capability_bits := CAPABILITY_BUTTON, tr_flags := TARGET_ACTIONABLE\<rparr>"

lemma button_duplicates:
  assumes "same_place t (button_at a b)" "same_place c (button_at a b)"
    "tr_role t = ROLE_BUTTON" "tr_role c = ROLE_BUTTON"
    "tr_window_id t = 0" "tr_display_id t = 0"
  shows "duplicates default_fusion_config c t"
proof -
  have "near t c"
    using assms(1,2) by (simp add: near_def same_place_def Let_def target_level_def)
  moreover have "compatible_role t c" "compatible_window t c"
    using assms(3-) by (simp_all add: compatible_role_def compatible_window_def)
  moreover have "area t = 67108864" "area c = 67108864"
    using assms(1,2) by (simp_all add: area_def same_place_def button_at_def)
  moreover have "ratio_at_least 67108864 67108864 32768" by (simp add: ratio_at_least_def)
  ultimately show ?thesis using assms(1,2)
    by (simp add: duplicates_def duplicate_def Let_def same_place_def button_at_def default_fusion_config_def zero_target_def)
qed

lemma merge_inconsistent_text:
  "let t = (button_at 1 9)\<lparr>tr_text := \<lparr>tx_offset = 1, tx_size = 1\<rparr>\<rparr>;
       c = (button_at 2 9)\<lparr>tr_flags := TARGET_ACTIONABLE OR TARGET_TEXT_TRUNCATED\<rparr>
   in valid_target t \<and> valid_target c \<and> duplicates default_fusion_config c t \<and>
      \<not> consistent_target (fst (merge_target t c zero_fusion_stats))"
  unfolding Let_def
  by (intro conjI button_duplicates [of _ 1 9])
    (simp_all add: button_at_def zero_target_def no_text_def valid_target_def same_place_def source_mask_def
      target_capability_mask_def target_flag_mask_def consistent_target_def merge_target_def merge_fields_def semantic_def)

lemma merge_inconsistent_parent:
  "let t = button_at 1 0; c = button_at 2 1
   in valid_target t \<and> valid_target c \<and> duplicates default_fusion_config c t \<and>
      \<not> consistent_target (fst (merge_target t c zero_fusion_stats))"
  unfolding Let_def
  by (intro conjI button_duplicates [of _ 1 0])
    (simp_all add: button_at_def zero_target_def no_text_def valid_target_def same_place_def source_mask_def
      target_capability_mask_def target_flag_mask_def consistent_target_def merge_target_def merge_fields_def semantic_def)

end
