(* ===== verification/Hint_Session.thy ===== *)
theory Hint_Session
  imports Scene_Packet
begin

text \<open>
  Hint labels, \<open>src/interaction/hints.cpp\<close>: the targets of a scene are ordered by priority and
  get labels over the configured alphabet; typed symbols narrow the labels down until one target
  is left. A refreshed scene keeps the labels and rebinds them to the new target indices.
\<close>

subsection \<open>Data\<close>

abbreviation maximum_hint_symbols :: nat where "maximum_hint_symbols \<equiv> 16"
abbreviation maximum_hint_alphabet :: nat where "maximum_hint_alphabet \<equiv> 32"

definition hint_target_binding_capacity :: u32 where "hint_target_binding_capacity = 16384"

datatype hint_priority = Priority_scene_order | Priority_pointer | Priority_scope_center | Priority_randomized | Priority_other u32

text \<open>The first \<open>alphabet_count\<close> entries of the two arrays.\<close>

record hint_config =
  hc_alphabet :: "u16 list"
  hc_physical_keys :: "u32 list"
  hc_priority :: hint_priority
  hc_pointer_x_q8 :: i32
  hc_pointer_y_q8 :: i32
  hc_scope_center_x_q8 :: i32
  hc_scope_center_y_q8 :: i32
  hc_random_seed :: u64

text \<open>The first \<open>symbol_count\<close> symbols of a label.\<close>

record hint_label =
  hl_target_id :: u64
  hl_target_index :: u32
  hl_symbols :: "u16 list"

record hint_target_binding =
  hb_target_id :: u64
  hb_target_index :: u32

record hint_match =
  hm_target_id :: u64
  hm_target_index :: u32
  hm_candidate_count :: u32
  hm_exact :: bool

record hint_session_stats =
  ht_freezes :: u64
  ht_targets_labeled :: u64
  ht_prefix_queries :: u64
  ht_symbols_compared :: u64
  ht_scene_refreshes :: u64
  ht_refresh_failures :: u64

text \<open>The session; the labels are the first \<open>label_count\<close> entries of the storage it points to.\<close>

record hint_session =
  hs_labels :: "hint_label list"
  hs_stats :: hint_session_stats
  hs_scene_epoch :: u64
  hs_transform_epoch :: u64
  hs_topology_epoch :: u64
  hs_frozen :: bool

definition fresh_hint_session :: hint_session where
  "fresh_hint_session = \<lparr>hs_labels = [], hs_stats = \<lparr>ht_freezes = 0, ht_targets_labeled = 0, ht_prefix_queries = 0,
     ht_symbols_compared = 0, ht_scene_refreshes = 0, ht_refresh_failures = 0\<rparr>, hs_scene_epoch = 0,
     hs_transform_epoch = 0, hs_topology_epoch = 0, hs_frozen = False\<rparr>"

subsection \<open>Helpers\<close>

definition canonical_symbol :: "u16 \<Rightarrow> u16" where
  "canonical_symbol symbol = (if symbol \<ge> 97 \<and> symbol \<le> 122 then symbol - (97 - 65) else symbol)"

fun symbols_clash :: "u16 list \<Rightarrow> bool" where
  "symbols_clash [] = False"
| "symbols_clash (s # ss) =
     (s = 0 \<or> list_ex (\<lambda>later. canonical_symbol s = canonical_symbol later) ss \<or> symbols_clash ss)"

definition hint_config_valid :: "hint_config \<Rightarrow> bool" where
  "hint_config_valid c \<longleftrightarrow>
     \<not> (length (hc_alphabet c) < 2 \<or> length (hc_alphabet c) > maximum_hint_alphabet \<or>
        (case hc_priority c of Priority_other _ \<Rightarrow> True | _ \<Rightarrow> False)) \<and>
     \<not> symbols_clash (hc_alphabet c)"

definition splitmix64 :: "u64 \<Rightarrow> u64" where
  "splitmix64 v =
     (let v = v + 0x9e3779b97f4a7c15;
          v = (v XOR drop_bit 30 v) * 0xbf58476d1ce4e5b9;
          v = (v XOR drop_bit 27 v) * 0x94d049bb133111eb
      in v XOR drop_bit 31 v)"

definition absolute_difference :: "i32 \<Rightarrow> i32 \<Rightarrow> u64" where
  "absolute_difference left right =
     (let difference = sint left - sint right in word_of_int (if difference < 0 then - difference else difference))"

definition hint_distance :: "target_record \<Rightarrow> i32 \<Rightarrow> i32 \<Rightarrow> u64" where
  "hint_distance t x y = absolute_difference (tr_safe_x_q8 t) x + absolute_difference (tr_safe_y_q8 t) y"

text \<open>The last digit goes last: the loop fills the array from the back.\<close>

fun encode_ordinal :: "u16 list \<Rightarrow> nat \<Rightarrow> nat \<Rightarrow> u16 list" where
  "encode_ordinal alphabet 0 ordinal = []"
| "encode_ordinal alphabet (Suc position) ordinal =
     encode_ordinal alphabet position (ordinal div length alphabet) @ [alphabet ! (ordinal mod length alphabet)]"

definition label_symbols :: "nat \<Rightarrow> nat \<Rightarrow> u16 list \<Rightarrow> nat \<Rightarrow> nat \<Rightarrow> nat \<Rightarrow> u16 list" where
  "label_symbols rank target_count alphabet depth shortest_count partial_children =
     (if target_count \<le> length alphabet then [alphabet ! rank]
      else if rank < shortest_count then encode_ordinal alphabet depth rank
      else let child_rank = rank - shortest_count in
        if partial_children \<noteq> 0 \<and> child_rank < partial_children
        then encode_ordinal alphabet depth shortest_count @ [alphabet ! child_rank]
        else let child_rank = (if partial_children \<noteq> 0 then child_rank - partial_children else child_rank);
                 parent = (if partial_children \<noteq> 0 then shortest_count + 1 else shortest_count)
             in encode_ordinal alphabet depth (parent + child_rank div length alphabet) @
                [alphabet ! (child_rank mod length alphabet)])"

definition assign_label ::
  "nat \<Rightarrow> nat \<Rightarrow> target_record list \<Rightarrow> hint_config \<Rightarrow> nat \<Rightarrow> nat \<Rightarrow> nat \<Rightarrow> hint_label" where
  "assign_label rank target_index targets config depth shortest_count partial_children =
     \<lparr>hl_target_id = tr_target_id (targets ! target_index), hl_target_index = word_of_nat target_index,
      hl_symbols = label_symbols rank (length targets) (hc_alphabet config) depth shortest_count partial_children\<rparr>"

text \<open>The comparison stops at the first difference; the second component counts comparisons.\<close>

fun prefix_compare :: "u16 list \<Rightarrow> u16 list \<Rightarrow> u64 \<Rightarrow> bool \<times> u64" where
  "prefix_compare label [] comparisons = (True, comparisons)"
| "prefix_compare [] (s # symbols) comparisons = (False, comparisons)"
| "prefix_compare (l # label) (s # symbols) comparisons =
     (if canonical_symbol l \<noteq> canonical_symbol s then (False, comparisons + 1)
      else prefix_compare label symbols (comparisons + 1))"

definition prefix_matches :: "hint_label \<Rightarrow> u16 list \<Rightarrow> u64 \<Rightarrow> bool \<times> u64" where
  "prefix_matches label symbols comparisons =
     (if length symbols > length (hl_symbols label) then (False, comparisons)
      else prefix_compare (hl_symbols label) symbols comparisons)"

definition symbol_for_physical_key :: "hint_config \<Rightarrow> u32 \<Rightarrow> u16" where
  "symbol_for_physical_key config physical_key =
     (if physical_key = 0 then 0
      else case first_index (\<lambda>key. key = physical_key) (hc_physical_keys config) of
        None \<Rightarrow> 0
      | Some index \<Rightarrow> hc_alphabet config ! index)"

subsection \<open>Freezing\<close>

text \<open>The key the targets are sorted by; ties between equal identifiers are left to \<open>std::sort\<close> and
  resolved by scene order here.\<close>

definition hint_key :: "hint_config \<Rightarrow> target_record \<Rightarrow> u64" where
  "hint_key config t =
     (case hc_priority config of
        Priority_pointer \<Rightarrow> hint_distance t (hc_pointer_x_q8 config) (hc_pointer_y_q8 config)
      | Priority_scope_center \<Rightarrow> hint_distance t (hc_scope_center_x_q8 config) (hc_scope_center_y_q8 config)
      | Priority_randomized \<Rightarrow> splitmix64 (tr_target_id t XOR hc_random_seed config)
      | _ \<Rightarrow> ucast (tr_order t))"

definition hint_before :: "hint_config \<Rightarrow> target_record list \<Rightarrow> nat \<Rightarrow> nat \<Rightarrow> bool" where
  "hint_before config targets left right \<longleftrightarrow>
     (let a = targets ! left; b = targets ! right; a_priority = hint_key config a; b_priority = hint_key config b
      in if a_priority \<noteq> b_priority then a_priority < b_priority else tr_target_id a < tr_target_id b)"

text \<open>The loop that finds the length of the shorter labels; \<open>None\<close> is a loop that does not end.\<close>

partial_function (option) grow_capacity :: "nat \<Rightarrow> nat \<Rightarrow> nat \<Rightarrow> nat \<Rightarrow> (nat \<times> nat) option" where
  "grow_capacity alphabet_count target_count capacity depth =
     (if capacity \<le> 18446744073709551615 div alphabet_count \<and> capacity * alphabet_count \<le> target_count
      then grow_capacity alphabet_count target_count (capacity * alphabet_count) (depth + 1)
      else Some (capacity, depth))"

definition make_labels :: "target_record list \<Rightarrow> hint_config \<Rightarrow> nat \<Rightarrow> nat \<Rightarrow> hint_label list" where
  "make_labels targets config capacity depth =
     (let n = length targets; a = length (hc_alphabet config);
          order = loop_sort (hint_before config targets) [0..<n];
          needed = (if n > capacity then n - capacity else 0);
          full_expansions = needed div (a - 1);
          rest = needed mod (a - 1);
          expanded_parents = full_expansions + (if rest \<noteq> 0 then 1 else 0);
          shortest_count = capacity - expanded_parents;
          partial_children = (if rest = 0 then 0 else rest + 1)
      in map (\<lambda>rank. assign_label rank (order ! rank) targets config depth shortest_count partial_children) [0..<n])"

definition freeze ::
  "packet_view option \<Rightarrow> hint_config \<Rightarrow> bool \<Rightarrow> hint_session \<Rightarrow> (saccade_result \<times> hint_session) option" where
  "freeze scene config storage s =
     (if hs_frozen s then Some (SACCADE_ERROR_STATE, s)
      else case scene of
        None \<Rightarrow> Some (SACCADE_ERROR_INVALID_ARGUMENT, s)
      | Some v \<Rightarrow>
          if \<not> storage \<or> ph_coordinate_space (pv_header v) \<noteq> SPACE_DESKTOP_Q8 \<or> ph_scene_epoch (pv_header v) = 0 \<or>
             length (pv_targets v) = 0 \<or> \<not> hint_config_valid config
          then Some (SACCADE_ERROR_INVALID_ARGUMENT, s)
          else case grow_capacity (length (hc_alphabet config)) (length (pv_targets v)) (length (hc_alphabet config)) 1 of
            None \<Rightarrow> None
          | Some (capacity, depth) \<Rightarrow>
              Some (SACCADE_OK, s\<lparr>hs_labels := make_labels (pv_targets v) config capacity depth,
                hs_scene_epoch := ph_scene_epoch (pv_header v), hs_transform_epoch := ph_transform_epoch (pv_header v),
                hs_topology_epoch := ph_topology_epoch (pv_header v), hs_frozen := True,
                hs_stats := (hs_stats s)\<lparr>ht_freezes := ht_freezes (hs_stats s) + 1,
                  ht_targets_labeled := ht_targets_labeled (hs_stats s) + word_of_nat (length (pv_targets v))\<rparr>\<rparr>))"

subsection \<open>Refreshing\<close>

text \<open>The open-addressing table of the refresh: a function of the masked slot. A slot with target id
  zero is free. Both walks are \<open>None\<close> when they do not end.\<close>

type_synonym bindings = "u32 \<Rightarrow> hint_target_binding"

definition binding_mask :: u32 where "binding_mask = hint_target_binding_capacity - 1"

definition home_slot :: "u64 \<Rightarrow> u32" where
  "home_slot target_id = ucast (splitmix64 target_id) AND binding_mask"

definition next_slot :: "u32 \<Rightarrow> u32" where
  "next_slot slot = (slot + 1) AND binding_mask"

definition no_bindings :: bindings where
  "no_bindings = (\<lambda>slot. \<lparr>hb_target_id = 0, hb_target_index = 0\<rparr>)"

partial_function (option) vacant_slot :: "bindings \<Rightarrow> u32 \<Rightarrow> u32 option" where
  "vacant_slot b slot = (if hb_target_id (b slot) \<noteq> 0 then vacant_slot b (next_slot slot) else Some slot)"

partial_function (option) find_slot :: "bindings \<Rightarrow> u64 \<Rightarrow> u32 \<Rightarrow> u32 option" where
  "find_slot b target_id slot =
     (if hb_target_id (b slot) \<noteq> 0 \<and> hb_target_id (b slot) \<noteq> target_id then find_slot b target_id (next_slot slot)
      else Some slot)"

fun bind_targets :: "bindings \<Rightarrow> nat \<Rightarrow> target_record list \<Rightarrow> bindings option" where
  "bind_targets b target_index [] = Some b"
| "bind_targets b target_index (t # ts) =
     (case vacant_slot b (home_slot (tr_target_id t)) of
        None \<Rightarrow> None
      | Some slot \<Rightarrow> bind_targets (b(slot := \<lparr>hb_target_id = tr_target_id t, hb_target_index = word_of_nat target_index\<rparr>))
                       (target_index + 1) ts)"

text \<open>The target indices of the labels: \<open>Some None\<close> when a label has no target any more.\<close>

fun bound_indices :: "bindings \<Rightarrow> hint_label list \<Rightarrow> u32 list option option" where
  "bound_indices b [] = Some (Some [])"
| "bound_indices b (l # ls) =
     (case find_slot b (hl_target_id l) (home_slot (hl_target_id l)) of
        None \<Rightarrow> None
      | Some slot \<Rightarrow>
          if hb_target_id (b slot) = 0 then Some None
          else map_option (map_option (Cons (hb_target_index (b slot)))) (bound_indices b ls))"

definition refresh_failed :: "hint_session \<Rightarrow> hint_session" where
  "refresh_failed s = s\<lparr>hs_stats := (hs_stats s)\<lparr>ht_refresh_failures := ht_refresh_failures (hs_stats s) + 1\<rparr>\<rparr>"

definition refresh_scene :: "packet_view option \<Rightarrow> hint_session \<Rightarrow> (saccade_result \<times> hint_session) option" where
  "refresh_scene scene s =
     (if \<not> hs_frozen s \<or> scene = None \<or> ph_coordinate_space (pv_header (the scene)) \<noteq> SPACE_DESKTOP_Q8 \<or>
         ph_scene_epoch (pv_header (the scene)) \<le> hs_scene_epoch s \<or>
         ph_transform_epoch (pv_header (the scene)) \<noteq> hs_transform_epoch s \<or>
         ph_topology_epoch (pv_header (the scene)) \<noteq> hs_topology_epoch s
      then Some (SACCADE_ERROR_STALE_HANDLE, refresh_failed s)
      else let v = the scene in
        case bind_targets no_bindings 0 (pv_targets v) of
          None \<Rightarrow> None
        | Some b \<Rightarrow>
            (case bound_indices b (hs_labels s) of
               None \<Rightarrow> None
             | Some None \<Rightarrow> Some (SACCADE_ERROR_STALE_HANDLE, refresh_failed s)
             | Some (Some indices) \<Rightarrow>
                 Some (SACCADE_OK, s\<lparr>hs_labels := map2 (\<lambda>l index. l\<lparr>hl_target_index := index\<rparr>) (hs_labels s) indices,
                   hs_scene_epoch := ph_scene_epoch (pv_header v),
                   hs_stats := (hs_stats s)\<lparr>ht_scene_refreshes := ht_scene_refreshes (hs_stats s) + 1\<rparr>\<rparr>)))"

subsection \<open>Resolving\<close>

text \<open>The loop over the labels: the match so far and the number of comparisons.\<close>

fun match_labels :: "u16 list \<Rightarrow> hint_label list \<Rightarrow> hint_match \<times> u64 \<Rightarrow> hint_match \<times> u64" where
  "match_labels symbols [] acc = acc"
| "match_labels symbols (l # ls) (m, comparisons) =
     (let (hit, comparisons) = prefix_matches l symbols comparisons in
      if \<not> hit then match_labels symbols ls (m, comparisons)
      else let m = m\<lparr>hm_candidate_count := hm_candidate_count m + 1\<rparr> in
        if length (hl_symbols l) = length symbols
        then match_labels symbols ls
               (m\<lparr>hm_target_id := hl_target_id l, hm_target_index := hl_target_index l, hm_exact := True\<rparr>, comparisons)
        else match_labels symbols ls (m, comparisons))"

definition no_match :: hint_match where
  "no_match = \<lparr>hm_target_id = 0, hm_target_index = 0, hm_candidate_count = 0, hm_exact = False\<rparr>"

definition resolve_prefix ::
  "u16 list option \<Rightarrow> bool \<Rightarrow> hint_session \<Rightarrow> saccade_result \<times> hint_session \<times> hint_match option" where
  "resolve_prefix symbols output s =
     (case symbols of
        None \<Rightarrow> (SACCADE_ERROR_INVALID_ARGUMENT, s, None)
      | Some symbols \<Rightarrow>
          if \<not> hs_frozen s \<or> length symbols = 0 \<or> length symbols > maximum_hint_symbols \<or> \<not> output
          then (SACCADE_ERROR_INVALID_ARGUMENT, s, None)
          else let (m, comparisons) = match_labels symbols (hs_labels s) (no_match, 0)
          in (if hm_candidate_count m = 0 then SACCADE_ERROR_NOT_FOUND else SACCADE_OK,
              s\<lparr>hs_stats := (hs_stats s)\<lparr>ht_prefix_queries := ht_prefix_queries (hs_stats s) + 1,
                  ht_symbols_compared := ht_symbols_compared (hs_stats s) + comparisons\<rparr>\<rparr>,
              Some m))"

definition label_for_target :: "u64 \<Rightarrow> bool \<Rightarrow> hint_session \<Rightarrow> saccade_result \<times> hint_label option" where
  "label_for_target target_id output s =
     (if \<not> hs_frozen s \<or> target_id = 0 \<or> \<not> output then (SACCADE_ERROR_INVALID_ARGUMENT, None)
      else case List.find (\<lambda>l. hl_target_id l = target_id) (hs_labels s) of
        None \<Rightarrow> (SACCADE_ERROR_NOT_FOUND, None)
      | Some l \<Rightarrow> (SACCADE_OK, Some l))"

definition hint_cancel :: "hint_session \<Rightarrow> saccade_result \<times> hint_session" where
  "hint_cancel s =
     (if \<not> hs_frozen s then (SACCADE_ERROR_STATE, s)
      else (SACCADE_OK, s\<lparr>hs_labels := [], hs_scene_epoch := 0, hs_transform_epoch := 0, hs_topology_epoch := 0,
                          hs_frozen := False\<rparr>))"

subsection \<open>Labels\<close>

definition canonical :: "u16 list \<Rightarrow> u16 list" where
  "canonical symbols = map canonical_symbol symbols"

definition label_prefix :: "u16 list \<Rightarrow> u16 list \<Rightarrow> bool" where
  "label_prefix symbols label \<longleftrightarrow> length symbols \<le> length label \<and> take (length symbols) (canonical label) = canonical symbols"

lemma prefix_compare_iff: "length symbols \<le> length label \<Longrightarrow> fst (prefix_compare label symbols k) \<longleftrightarrow> label_prefix symbols label"
  by (induction label symbols k rule: prefix_compare.induct) (auto simp: label_prefix_def canonical_def)

lemma prefix_matches_iff: "fst (prefix_matches l symbols k) \<longleftrightarrow> label_prefix symbols (hl_symbols l)"
  by (simp add: prefix_matches_def prefix_compare_iff) (simp add: label_prefix_def)

lemma symbols_clash_iff: "\<not> symbols_clash ss \<longleftrightarrow> 0 \<notin> set ss \<and> distinct (canonical ss)"
  by (induction ss) (auto simp: canonical_def list_ex_iff)

lemma hint_config_valid_iff:
  "hint_config_valid c \<Longrightarrow> 2 \<le> length (hc_alphabet c) \<and> length (hc_alphabet c) \<le> 32 \<and> distinct (canonical (hc_alphabet c))"
  by (auto simp: hint_config_valid_def symbols_clash_iff)

lemma length_encode_ordinal [simp]: "length (encode_ordinal al n ord) = n"
  by (induction n arbitrary: ord) auto

lemma canonical_nth_inj:
  assumes "distinct (canonical al)" "i < length al" "j < length al" "canonical_symbol (al ! i) = canonical_symbol (al ! j)"
  shows "i = j"
  using assms nth_eq_iff_index_eq [of "canonical al" i j] by (simp add: canonical_def)

lemma encode_ordinal_inj:
  assumes "distinct (canonical al)" "al \<noteq> []"
  shows "x < length al ^ n \<Longrightarrow> y < length al ^ n \<Longrightarrow>
    canonical (encode_ordinal al n x) = canonical (encode_ordinal al n y) \<Longrightarrow> x = y"
proof (induction n arbitrary: x y)
  case 0
  then show ?case by simp
next
  case (Suc n)
  let ?a = "length al"
  have a: "0 < ?a" using assms(2) by simp
  have e: "canonical (encode_ordinal al n (x div ?a)) = canonical (encode_ordinal al n (y div ?a))"
    "canonical_symbol (al ! (x mod ?a)) = canonical_symbol (al ! (y mod ?a))"
    using Suc.prems(3) by (simp_all add: canonical_def)
  have "x div ?a < ?a ^ n" "y div ?a < ?a ^ n"
    using Suc.prems(1,2) a by (simp_all add: less_mult_imp_div_less mult.commute)
  then have "x div ?a = y div ?a" using Suc.IH e(1) by blast
  moreover have "x mod ?a = y mod ?a" using canonical_nth_inj [OF assms(1) _ _ e(2)] a by simp
  ultimately show ?case by (metis div_mult_mod_eq)
qed

text \<open>The number of long labels: every expanded parent has all its children, the first of them
  possibly only the rest.\<close>

lemma expansion:
  fixes n cap a :: nat
  assumes "2 \<le> a" "cap \<le> n" "n < cap * a"
  defines "full \<equiv> (n - cap) div (a - 1)" and "rest \<equiv> (n - cap) mod (a - 1)"
  defines "expanded \<equiv> full + (if rest \<noteq> 0 then 1 else 0)" and "partial \<equiv> (if rest = 0 then 0 else rest + 1)"
  shows "expanded \<le> cap" "n = (cap - expanded) + partial + full * a" "partial < a"
    "cap - expanded + full + (if partial = 0 then 0 else 1) = cap"
proof -
  have eq: "n - cap = full * (a - 1) + rest" unfolding full_def rest_def by (rule div_mult_mod_eq [symmetric])
  have rest: "rest < a - 1" unfolding rest_def using assms(1) by simp
  have "rest + 1 < a" using rest by linarith
  then show "partial < a" unfolding partial_def by simp
  have "cap * a = cap * (a - 1) + cap" using assms(1) by (cases a) simp_all
  then have lt: "full * (a - 1) + rest < cap * (a - 1)" using eq assms(2,3) by linarith
  have "full < cap"
  proof (rule ccontr)
    assume "\<not> full < cap"
    then have "cap * (a - 1) \<le> full * (a - 1)" by (intro mult_le_mono1) simp
    then show False using lt by linarith
  qed
  then show le: "expanded \<le> cap" unfolding expanded_def by simp
  then show "cap - expanded + full + (if partial = 0 then 0 else 1) = cap"
    unfolding expanded_def partial_def by (cases "rest = 0") simp_all
  have fa: "full * a = full * (a - 1) + full" using assms(1) by (cases a) simp_all
  show "n = (cap - expanded) + partial + full * a"
  proof (cases "rest = 0")
    case True
    then have "expanded = full" "partial = 0" by (simp_all add: expanded_def partial_def)
    then show ?thesis using True eq le assms(2) fa by linarith
  next
    case False
    then have "expanded = full + 1" "partial = rest + 1" by (simp_all add: expanded_def partial_def)
    then show ?thesis using eq le assms(2) fa by linarith
  qed
qed

text \<open>The loop ends with the largest power of the alphabet size that the count reaches.\<close>

lemma grow_capacity_result:
  assumes "2 \<le> a" "n \<le> 10000"
  shows "cap = a ^ d \<Longrightarrow> 0 < d \<Longrightarrow>
    \<exists>cap' d'. grow_capacity a n cap d = Some (cap', d') \<and> cap' = a ^ d' \<and> d \<le> d' \<and> n < cap' * a \<and> (cap' \<le> n \<or> cap' = cap)"
proof (induction "n - cap" arbitrary: cap d rule: less_induct)
  case less
  have pos: "0 < cap" using less.prems(1) assms(1) by simp
  show ?case
  proof (cases "cap \<le> 18446744073709551615 div a \<and> cap * a \<le> n")
    case True
    have "cap * 2 \<le> cap * a" using assms(1) by (rule mult_le_mono2)
    then have "n - cap * a < n - cap" using True pos by linarith
    from less.hyps [OF this, of "d + 1"] obtain cap' d' where
      r: "grow_capacity a n (cap * a) (d + 1) = Some (cap', d')" "cap' = a ^ d'" "d + 1 \<le> d'" "n < cap' * a"
        "cap' \<le> n \<or> cap' = cap * a"
      using less.prems(1) by (auto simp: mult.commute)
    have "grow_capacity a n cap d = Some (cap', d')" using True r(1) by (subst grow_capacity.simps) simp
    then show ?thesis using r True by (intro exI [of _ cap'] exI [of _ d']) auto
  next
    case False
    have "n < cap * a"
    proof (rule ccontr)
      assume "\<not> n < cap * a"
      then have "cap * a \<le> 10000" using assms(2) by simp
      then have "cap \<le> 10000 div a" using assms(1) by (simp add: less_eq_div_iff_mult_less_eq)
      also have "\<dots> \<le> 18446744073709551615 div a" by (rule div_le_mono) simp
      finally show False using False \<open>\<not> n < cap * a\<close> by simp
    qed
    moreover have "grow_capacity a n cap d = Some (cap, d)" by (subst grow_capacity.simps) (simp only: False if_False)
    ultimately show ?thesis using less.prems by blast
  qed
qed

text \<open>A depth of more than 13 would need more than 10000 targets.\<close>

lemma depth_bound: "2 \<le> (a :: nat) \<Longrightarrow> a ^ d \<le> 10000 \<Longrightarrow> d \<le> 13"
proof (rule ccontr)
  assume a: "2 \<le> a" "a ^ d \<le> 10000" "\<not> d \<le> 13"
  have "(2 :: nat) ^ 14 \<le> 2 ^ d" using a(3) by (intro power_increasing) auto
  also have "\<dots> \<le> a ^ d" using a(1) by (intro power_mono) auto
  finally show False using a(2) by simp
qed

lemma label_prefix_lengths:
  "label_prefix x y \<Longrightarrow> length x = length y \<Longrightarrow> canonical x = canonical y"
  by (simp add: label_prefix_def canonical_def)

lemma label_prefix_append:
  "label_prefix x (y @ [c]) \<Longrightarrow> length x = length y \<Longrightarrow> canonical x = canonical y"
  by (simp add: label_prefix_def canonical_def)

text \<open>The parent and the child of the k-th long label.\<close>

definition child_of :: "nat \<Rightarrow> nat \<Rightarrow> nat \<Rightarrow> nat \<Rightarrow> nat \<times> nat" where
  "child_of a short p k =
     (if k < p then (short, k)
      else ((if p = 0 then short else short + 1) + (k - p) div a, (k - p) mod a))"

lemma child_of_bound:
  assumes "0 < a" "p \<le> a" "k < p + full * a"
  shows "short \<le> fst (child_of a short p k) \<and> fst (child_of a short p k) < short + full + (if p = 0 then 0 else 1) \<and>
    snd (child_of a short p k) < a"
proof (cases "k < p")
  case True
  then show ?thesis using assms by (simp add: child_of_def)
next
  case False
  then have "k - p < full * a" using assms(3) by linarith
  then have "(k - p) div a < full" by (simp add: less_mult_imp_div_less)
  then show ?thesis using False assms(1) by (cases "p = 0") (simp_all add: child_of_def)
qed

lemma child_of_inj:
  assumes "child_of a short p k = child_of a short p l"
  shows "k = l"
proof (cases "k < p"; cases "l < p")
  assume "\<not> k < p" "\<not> l < p"
  then have "(k - p) div a = (l - p) div a" "(k - p) mod a = (l - p) mod a"
    using assms by (simp_all add: child_of_def)
  then have "k - p = l - p" by (metis div_mult_mod_eq)
  then show ?thesis using \<open>\<not> k < p\<close> \<open>\<not> l < p\<close> by linarith
qed (use assms in \<open>simp_all add: child_of_def split: if_splits\<close>)

lemma label_symbols_cases:
  "n \<le> length al \<Longrightarrow> label_symbols r n al d short p = [al ! r]"
  "\<not> n \<le> length al \<Longrightarrow> r < short \<Longrightarrow> label_symbols r n al d short p = encode_ordinal al d r"
  "\<not> n \<le> length al \<Longrightarrow> \<not> r < short \<Longrightarrow> label_symbols r n al d short p =
     encode_ordinal al d (fst (child_of (length al) short p (r - short))) @ [al ! snd (child_of (length al) short p (r - short))]"
  by (simp_all add: label_symbols_def child_of_def Let_def)

text \<open>The code of the labels: no label is a prefix of another.\<close>

lemma label_symbols_prefix_free:
  fixes al :: "u16 list"
  assumes al: "2 \<le> length al" "distinct (canonical al)"
    and n: "n \<le> length al \<or> p \<le> length al \<and> n = short + p + full * length al \<and>
      short + full + (if p = 0 then 0 else 1) \<le> length al ^ d"
    and r: "r < n" and s: "s < n" and lp: "label_prefix (label_symbols r n al d short p) (label_symbols s n al d short p)"
  shows "r = s"
proof (cases "n \<le> length al")
  case True
  then show ?thesis using lp r s canonical_nth_inj [OF al(2), of r s]
    by (simp add: label_symbols_cases(1) label_prefix_def canonical_def)
next
  case False
  let ?a = "length al" let ?c = "child_of ?a short p"
  have n: "p \<le> ?a" "n = short + p + full * ?a" "short + full + (if p = 0 then 0 else 1) \<le> ?a ^ d"
    using n False by simp_all
  have nz: "0 < ?a" "al \<noteq> []" using al(1) by auto
  have bound: "short \<le> fst (?c (k - short)) \<and> fst (?c (k - short)) < ?a ^ d \<and> snd (?c (k - short)) < ?a"
    if "k < n" "\<not> k < short" for k
  proof -
    have "k - short < p + full * ?a" using that n(2) by linarith
    from child_of_bound [OF nz(1) n(1) this, of short] n(3) show ?thesis by linarith
  qed
  have low: "k < ?a ^ d" if "k < short" for k using that n(3) by linarith
  note enc = encode_ordinal_inj [OF al(2) nz(2)]
  note short = label_symbols_cases(2) [OF False] and long = label_symbols_cases(3) [OF False]
  consider "r < short" "s < short" | "r < short" "\<not> s < short" | "\<not> r < short" "s < short" | "\<not> r < short" "\<not> s < short"
    by blast
  then show ?thesis
  proof cases
    case 1
    have "canonical (encode_ordinal al d r) = canonical (encode_ordinal al d s)"
      using lp unfolding short [OF 1(1)] short [OF 1(2)] by (rule label_prefix_lengths) simp
    then show ?thesis using enc low 1 by blast
  next
    case 2
    have "canonical (encode_ordinal al d r) = canonical (encode_ordinal al d (fst (?c (s - short))))"
      using lp unfolding short [OF 2(1)] long [OF 2(2)] by (rule label_prefix_append) simp
    then have "r = fst (?c (s - short))" using enc low [OF 2(1)] bound [OF s 2(2)] by blast
    then show ?thesis using 2(1) bound [OF s 2(2)] by simp
  next
    case 3
    then show ?thesis using lp unfolding short [OF 3(2)] long [OF 3(1)] by (simp add: label_prefix_def)
  next
    case 4
    note br = bound [OF r 4(1)] and bs = bound [OF s 4(2)]
    let ?r = "?c (r - short)" and ?s = "?c (s - short)"
    have "canonical (encode_ordinal al d (fst ?r) @ [al ! snd ?r]) = canonical (encode_ordinal al d (fst ?s) @ [al ! snd ?s])"
      using lp unfolding long [OF 4(1)] long [OF 4(2)] by (rule label_prefix_lengths) simp
    then have e: "canonical (encode_ordinal al d (fst ?r)) = canonical (encode_ordinal al d (fst ?s))"
      "canonical_symbol (al ! snd ?r) = canonical_symbol (al ! snd ?s)"
      by (simp_all add: canonical_def)
    have "fst ?r = fst ?s" using enc [OF _ _ e(1)] br bs by blast
    moreover have "snd ?r = snd ?s" using canonical_nth_inj [OF al(2) _ _ e(2)] br bs by blast
    ultimately have "?r = ?s" by (rule prod_eqI)
    then have "r - short = s - short" by (rule child_of_inj)
    then show ?thesis using 4 by linarith
  qed
qed

subsection \<open>The labels of a session\<close>

lemma make_labels_nth:
  assumes "2 \<le> length al" "al = hc_alphabet config" "n = length targets" "n \<le> 10000"
    "grow_capacity (length al) n (length al) 1 = Some (cap, d)" "r < n"
  obtains short p full where
    "hl_symbols (make_labels targets config cap d ! r) = label_symbols r n al d short p"
    "n \<le> length al \<or> p \<le> length al \<and> n = short + p + full * length al \<and>
      short + full + (if p = 0 then 0 else 1) \<le> length al ^ d" "n \<le> length al \<or> d \<le> 13"
    "short = cap - ((n - cap) div (length al - 1) + (if (n - cap) mod (length al - 1) \<noteq> 0 then 1 else 0))"
    "p = (if (n - cap) mod (length al - 1) = 0 then 0 else (n - cap) mod (length al - 1) + 1)"
proof -
  let ?a = "length al"
  let ?needed = "n - cap" let ?full = "?needed div (?a - 1)" let ?rest = "?needed mod (?a - 1)"
  let ?expanded = "?full + (if ?rest \<noteq> 0 then 1 else 0)" let ?p = "if ?rest = 0 then 0 else ?rest + 1"
  have g: "cap = ?a ^ d" "0 < d" "n < cap * ?a" "cap \<le> n \<or> cap = ?a"
    using grow_capacity_result [OF assms(1,4), of ?a 1] assms(5) by auto
  have "(if n > cap then n - cap else 0) = ?needed" by simp
  then have sym: "hl_symbols (make_labels targets config cap d ! r) = label_symbols r n al d (cap - ?expanded) ?p"
    using assms(2,3,6) by (simp add: make_labels_def assign_label_def Let_def)
  have "n \<le> ?a \<or> ?p \<le> ?a \<and> n = (cap - ?expanded) + ?p + ?full * ?a \<and> cap - ?expanded + ?full + (if ?p = 0 then 0 else 1) \<le> ?a ^ d"
  proof (cases "n \<le> ?a")
    case False
    then have "cap \<le> n" using g(4) by linarith
    note ex = expansion [OF assms(1) this g(3)]
    show ?thesis unfolding g(1) [symmetric]
      by (intro disjI2 conjI, rule less_imp_le [OF ex(3)], rule ex(2), rule eq_imp_le [OF ex(4)])
  qed simp
  moreover have "n \<le> ?a \<or> d \<le> 13"
  proof (cases "n \<le> ?a")
    case False
    then have "?a ^ d \<le> 10000" using g(1,4) assms(4) by linarith
    then show ?thesis using depth_bound [OF assms(1)] by blast
  qed simp
  ultimately show ?thesis using that [OF sym] by blast
qed

lemma length_make_labels [simp]: "length (make_labels targets config cap d) = length targets"
  by (simp add: make_labels_def Let_def)

lemma make_labels_prefix_free:
  assumes "hint_config_valid config" "length targets \<le> 10000"
    "grow_capacity (length (hc_alphabet config)) (length targets) (length (hc_alphabet config)) 1 = Some (cap, d)"
    "r < length targets" "s < length targets"
    "label_prefix (hl_symbols (make_labels targets config cap d ! r)) (hl_symbols (make_labels targets config cap d ! s))"
  shows "r = s"
proof -
  note c = hint_config_valid_iff [OF assms(1)]
  have al: "2 \<le> length (hc_alphabet config)" "distinct (canonical (hc_alphabet config))" using c by simp_all
  obtain short p full where r: "hl_symbols (make_labels targets config cap d ! r) = label_symbols r (length targets) (hc_alphabet config) d short p"
    and e: "length targets \<le> length (hc_alphabet config) \<or> p \<le> length (hc_alphabet config) \<and>
      length targets = short + p + full * length (hc_alphabet config) \<and>
      short + full + (if p = 0 then 0 else 1) \<le> length (hc_alphabet config) ^ d"
    and sp: "short = cap - ((length targets - cap) div (length (hc_alphabet config) - 1) +
        (if (length targets - cap) mod (length (hc_alphabet config) - 1) \<noteq> 0 then 1 else 0))"
      "p = (if (length targets - cap) mod (length (hc_alphabet config) - 1) = 0 then 0
        else (length targets - cap) mod (length (hc_alphabet config) - 1) + 1)"
    by (rule make_labels_nth [OF al(1) refl refl assms(2,3,4)])
  obtain short' p' full' where s: "hl_symbols (make_labels targets config cap d ! s) = label_symbols s (length targets) (hc_alphabet config) d short' p'"
    and sp': "short' = cap - ((length targets - cap) div (length (hc_alphabet config) - 1) +
        (if (length targets - cap) mod (length (hc_alphabet config) - 1) \<noteq> 0 then 1 else 0))"
      "p' = (if (length targets - cap) mod (length (hc_alphabet config) - 1) = 0 then 0
        else (length targets - cap) mod (length (hc_alphabet config) - 1) + 1)"
    by (rule make_labels_nth [OF al(1) refl refl assms(2,3,5)])
  have same: "short' = short" "p' = p" by (simp_all only: sp sp')
  show ?thesis
    by (rule label_symbols_prefix_free [OF al e assms(4,5)]) (use assms(6) in \<open>simp only: r s same\<close>)
qed

lemma make_labels_length:
  assumes "hint_config_valid config" "length targets \<le> 10000"
    "grow_capacity (length (hc_alphabet config)) (length targets) (length (hc_alphabet config)) 1 = Some (cap, d)"
    "r < length targets"
  shows "1 \<le> length (hl_symbols (make_labels targets config cap d ! r)) \<and>
    length (hl_symbols (make_labels targets config cap d ! r)) \<le> 14"
proof -
  have al: "2 \<le> length (hc_alphabet config)" using hint_config_valid_iff [OF assms(1)] by simp
  have "0 < d" using grow_capacity_result [OF al assms(2), of "length (hc_alphabet config)" 1] assms(3) by auto
  moreover obtain short p full where
    "hl_symbols (make_labels targets config cap d ! r) = label_symbols r (length targets) (hc_alphabet config) d short p"
    "length targets \<le> length (hc_alphabet config) \<or> d \<le> 13"
    by (rule make_labels_nth [OF al refl refl assms(2,3,4)])
  ultimately show ?thesis by (auto simp: label_symbols_def Let_def)
qed

lemma make_labels_targets:
  assumes "length targets \<le> 10000"
  shows "mset (map (\<lambda>l. unat (hl_target_index l)) (make_labels targets config cap d)) = mset [0..<length targets]"
    "list_all (\<lambda>l. hl_target_id l = tr_target_id (targets ! unat (hl_target_index l))) (make_labels targets config cap d)"
proof -
  let ?n = "length targets" let ?o = "loop_sort (hint_before config targets) [0..<?n]"
  have lo: "length ?o = ?n" by simp
  have so: "i < ?n" if "i \<in> set ?o" for i using that by simp
  have u: "unat (word_of_nat i :: u32) = i" if "i \<in> set ?o" for i using so [OF that] assms by (simp add: unat_of_nat)
  have "map (\<lambda>l. unat (hl_target_index l)) (make_labels targets config cap d) = map (\<lambda>i. unat (word_of_nat i :: u32)) ?o"
    using lo by (intro nth_equalityI) (simp_all add: make_labels_def assign_label_def Let_def)
  also have "\<dots> = ?o" by (rule map_idI) (rule u)
  finally have "mset (map (\<lambda>l. unat (hl_target_index l)) (make_labels targets config cap d)) = mset ?o" by (rule arg_cong)
  then show "mset (map (\<lambda>l. unat (hl_target_index l)) (make_labels targets config cap d)) = mset [0..<length targets]"
    by (simp only: mset_loop_sort)
  have "unat (word_of_nat (?o ! i) :: u32) = ?o ! i" if "i < ?n" for i
    by (rule u, rule nth_mem) (use that in simp)
  then show "list_all (\<lambda>l. hl_target_id l = tr_target_id (targets ! unat (hl_target_index l))) (make_labels targets config cap d)"
    by (simp add: list_all_length make_labels_def assign_label_def Let_def)
qed

text \<open>What a successful freeze leaves.\<close>

lemma freeze_cases:
  assumes "scene = None \<or> length (pv_targets (the scene)) \<le> 10000"
  shows "(\<exists>r. freeze scene config storage s = Some (r, s) \<and> r \<noteq> SACCADE_OK) \<or>
    (\<exists>v cap d s'. scene = Some v \<and> freeze scene config storage s = Some (SACCADE_OK, s') \<and> hint_config_valid config \<and>
       grow_capacity (length (hc_alphabet config)) (length (pv_targets v)) (length (hc_alphabet config)) 1 = Some (cap, d) \<and>
       hs_labels s' = make_labels (pv_targets v) config cap d \<and> hs_frozen s')"
proof (cases "hs_frozen s \<or> scene = None \<or> \<not> storage \<or> ph_coordinate_space (pv_header (the scene)) \<noteq> SPACE_DESKTOP_Q8 \<or>
    ph_scene_epoch (pv_header (the scene)) = 0 \<or> length (pv_targets (the scene)) = 0 \<or> \<not> hint_config_valid config")
  case True
  then show ?thesis by (intro disjI1) (cases scene; auto simp: freeze_def)
next
  case False
  then obtain v where v: "scene = Some v" "hint_config_valid config" by auto
  then have "2 \<le> length (hc_alphabet config)" "length (pv_targets v) \<le> 10000"
    using hint_config_valid_iff assms by auto
  from grow_capacity_result [OF this, of "length (hc_alphabet config)" 1] obtain cap d where
    "grow_capacity (length (hc_alphabet config)) (length (pv_targets v)) (length (hc_alphabet config)) 1 = Some (cap, d)" by auto
  then show ?thesis using False v by (intro disjI2) (simp add: freeze_def)
qed

subsection \<open>Typing a label\<close>

lemma match_labels_none:
  "list_all (\<lambda>l. \<not> label_prefix symbols (hl_symbols l)) ls \<Longrightarrow> fst (match_labels symbols ls (m, k)) = m"
proof (induction ls arbitrary: k)
  case (Cons l ls)
  then show ?case using prefix_matches_iff [of l symbols k] by (cases "prefix_matches l symbols k") simp
qed simp

lemma match_labels_append:
  "match_labels symbols (xs @ ys) acc = match_labels symbols ys (match_labels symbols xs acc)"
  by (induction symbols xs acc rule: match_labels.induct) (simp_all add: Let_def split: prod.split)

lemma match_labels_one:
  assumes "i < length ls" "\<forall>j < length ls. label_prefix (hl_symbols (ls ! i)) (hl_symbols (ls ! j)) \<longrightarrow> i = j"
  shows "fst (match_labels (hl_symbols (ls ! i)) ls (no_match, k)) =
    \<lparr>hm_target_id = hl_target_id (ls ! i), hm_target_index = hl_target_index (ls ! i), hm_candidate_count = 1, hm_exact = True\<rparr>"
proof -
  let ?l = "ls ! i" let ?s = "hl_symbols ?l"
  have split: "ls = take i ls @ ?l # drop (Suc i) ls" using assms(1) by (simp add: id_take_nth_drop)
  have other: "\<not> label_prefix ?s (hl_symbols (ls ! j))" if "j < length ls" "j \<noteq> i" for j
    using assms(2) that by blast
  have pre: "list_all (\<lambda>l. \<not> label_prefix ?s (hl_symbols l)) (take i ls)"
    unfolding list_all_length using other assms(1) by simp
  have post: "list_all (\<lambda>l. \<not> label_prefix ?s (hl_symbols l)) (drop (Suc i) ls)"
    unfolding list_all_length using other by simp
  have self: "label_prefix ?s ?s" by (simp add: label_prefix_def canonical_def)
  obtain k1 where k1: "match_labels ?s (take i ls) (no_match, k) = (no_match, k1)"
    using match_labels_none [OF pre, of no_match k] by (metis prod.collapse)
  obtain k2 where k2: "prefix_matches ?l ?s k1 = (True, k2)"
    using prefix_matches_iff [of ?l ?s k1] self by (metis prod.collapse)
  let ?m = "\<lparr>hm_target_id = hl_target_id ?l, hm_target_index = hl_target_index ?l, hm_candidate_count = 1, hm_exact = True\<rparr>"
  have "match_labels ?s ls (no_match, k) = match_labels ?s (?l # drop (Suc i) ls) (no_match, k1)"
    by (subst split, subst match_labels_append) (simp only: k1)
  also have "\<dots> = match_labels ?s (drop (Suc i) ls) (?m, k2)"
    using k2 by (simp add: no_match_def)
  finally show ?thesis using match_labels_none [OF post] by simp
qed

subsection \<open>Properties\<close>

text \<open>C12. Freezing a scene the reader accepted always returns. When it succeeds, the labels are a
  permutation of the targets, each with between 1 and 14 symbols, so they fit the array of 16,
  and no label is a prefix of another one, even when letter case is ignored: typing is never
  ambiguous. Otherwise the session is unchanged.\<close>

theorem hint_labels_prefix_free:
  "let scene = snd (validate_packet span True True) in
   case freeze scene config storage s of
     None \<Rightarrow> False
   | Some (SACCADE_OK, s') \<Rightarrow>
       (let targets = pv_targets (the scene); labels = hs_labels s' in
        mset (map (\<lambda>l. unat (hl_target_index l)) labels) = mset [0..<length targets] \<and>
        list_all (\<lambda>l. hl_target_id l = tr_target_id (targets ! unat (hl_target_index l)) \<and>
                    1 \<le> length (hl_symbols l) \<and> length (hl_symbols l) \<le> 14) labels \<and>
        sorted_wrt (\<lambda>l r. \<not> label_prefix (hl_symbols l) (hl_symbols r) \<and> \<not> label_prefix (hl_symbols r) (hl_symbols l)) labels)
   | Some (result, s') \<Rightarrow> s' = s"
proof -
  let ?scene = "snd (validate_packet span True True)"
  have few: "?scene = None \<or> length (pv_targets (the ?scene)) \<le> 10000"
    using read_view_count [of span] by (cases ?scene) simp_all
  from freeze_cases [OF few, of config storage s] show ?thesis
  proof
    assume "\<exists>r. freeze ?scene config storage s = Some (r, s) \<and> r \<noteq> SACCADE_OK"
    then show ?thesis by (auto split: saccade_result.splits)
  next
    assume "\<exists>v cap d s'. ?scene = Some v \<and> freeze ?scene config storage s = Some (SACCADE_OK, s') \<and> hint_config_valid config \<and>
       grow_capacity (length (hc_alphabet config)) (length (pv_targets v)) (length (hc_alphabet config)) 1 = Some (cap, d) \<and>
       hs_labels s' = make_labels (pv_targets v) config cap d \<and> hs_frozen s'"
    then obtain v cap d s' where v: "?scene = Some v" and f: "freeze ?scene config storage s = Some (SACCADE_OK, s')"
      and c: "hint_config_valid config" and n: "length (pv_targets v) \<le> 10000"
      and g: "grow_capacity (length (hc_alphabet config)) (length (pv_targets v)) (length (hc_alphabet config)) 1 = Some (cap, d)"
      and l: "hs_labels s' = make_labels (pv_targets v) config cap d" using few by auto
    note m = make_labels_targets [OF n, of config cap d]
    have len: "list_all (\<lambda>l. 1 \<le> length (hl_symbols l) \<and> length (hl_symbols l) \<le> 14) (hs_labels s')"
      using make_labels_length [OF c n g] unfolding l list_all_length by simp
    have "sorted_wrt (\<lambda>l r. \<not> label_prefix (hl_symbols l) (hl_symbols r) \<and> \<not> label_prefix (hl_symbols r) (hl_symbols l)) (hs_labels s')"
      unfolding sorted_wrt_iff_nth_less l length_make_labels
      using make_labels_prefix_free [OF c n g] by (metis less_trans nat_neq_iff)
    then show ?thesis unfolding v Let_def f [unfolded v] using m len unfolding l [symmetric]
      by (simp add: v list_all_iff Let_def)
  qed
qed

text \<open>C11. In a session frozen from a scene the reader accepted, typing the label of a target
  resolves to that target: it is the only candidate and the match is exact.\<close>

theorem typing_resolves:
  "case freeze (snd (validate_packet span True True)) config storage s of
     Some (SACCADE_OK, s') \<Rightarrow>
       list_all (\<lambda>l. case resolve_prefix (Some (hl_symbols l)) True s' of
           (SACCADE_OK, s'', Some m) \<Rightarrow> m = \<lparr>hm_target_id = hl_target_id l, hm_target_index = hl_target_index l,
               hm_candidate_count = 1, hm_exact = True\<rparr> \<and> hs_labels s'' = hs_labels s'
         | _ \<Rightarrow> False) (hs_labels s')
   | _ \<Rightarrow> True"
proof -
  let ?scene = "snd (validate_packet span True True)"
  have few: "?scene = None \<or> length (pv_targets (the ?scene)) \<le> 10000"
    using read_view_count [of span] by (cases ?scene) simp_all
  from freeze_cases [OF few, of config storage s] show ?thesis
  proof
    assume "\<exists>r. freeze ?scene config storage s = Some (r, s) \<and> r \<noteq> SACCADE_OK"
    then show ?thesis by (auto split: saccade_result.splits)
  next
    assume "\<exists>v cap d s'. ?scene = Some v \<and> freeze ?scene config storage s = Some (SACCADE_OK, s') \<and> hint_config_valid config \<and>
       grow_capacity (length (hc_alphabet config)) (length (pv_targets v)) (length (hc_alphabet config)) 1 = Some (cap, d) \<and>
       hs_labels s' = make_labels (pv_targets v) config cap d \<and> hs_frozen s'"
    then obtain v cap d s' where v: "?scene = Some v" and f: "freeze ?scene config storage s = Some (SACCADE_OK, s')"
      and c: "hint_config_valid config"
      and g: "grow_capacity (length (hc_alphabet config)) (length (pv_targets v)) (length (hc_alphabet config)) 1 = Some (cap, d)"
      and l: "hs_labels s' = make_labels (pv_targets v) config cap d" "hs_frozen s'" by blast
    have n: "length (pv_targets v) \<le> 10000" using few v by simp
    have "case resolve_prefix (Some (hl_symbols (hs_labels s' ! i))) True s' of
           (SACCADE_OK, s'', Some m) \<Rightarrow> m = \<lparr>hm_target_id = hl_target_id (hs_labels s' ! i),
               hm_target_index = hl_target_index (hs_labels s' ! i), hm_candidate_count = 1, hm_exact = True\<rparr> \<and>
               hs_labels s'' = hs_labels s'
         | _ \<Rightarrow> False" if i: "i < length (hs_labels s')" for i
    proof -
      have one: "\<forall>j < length (hs_labels s'). label_prefix (hl_symbols (hs_labels s' ! i)) (hl_symbols (hs_labels s' ! j)) \<longrightarrow> i = j"
        using make_labels_prefix_free [OF c n g] i unfolding l length_make_labels by blast
      obtain k where m: "match_labels (hl_symbols (hs_labels s' ! i)) (hs_labels s') (no_match, 0) =
          (\<lparr>hm_target_id = hl_target_id (hs_labels s' ! i), hm_target_index = hl_target_index (hs_labels s' ! i),
            hm_candidate_count = 1, hm_exact = True\<rparr>, k)"
        using match_labels_one [OF i one, of 0] by (metis prod.collapse)
      have "1 \<le> length (hl_symbols (hs_labels s' ! i))" "length (hl_symbols (hs_labels s' ! i)) \<le> 14"
        using make_labels_length [OF c n g] i unfolding l length_make_labels by blast+
      moreover from this have "hl_symbols (hs_labels s' ! i) \<noteq> []" by auto
      ultimately show ?thesis using l(2) by (simp add: resolve_prefix_def m)
    qed
    then show ?thesis unfolding f by (simp add: list_all_length)
  qed
qed

subsection \<open>The refresh table\<close>

text \<open>The slots a walk visits: \<open>walk_slot k d\<close> is \<open>d\<close> steps behind the home slot of \<open>k\<close>.\<close>

definition walk_slot :: "u64 \<Rightarrow> nat \<Rightarrow> u32" where
  "walk_slot k d = (next_slot ^^ d) (home_slot k)"

lemma binding_mask_nat: "unat (w AND binding_mask) = unat w mod 16384"
proof -
  have m: "binding_mask = mask 14" by (simp add: binding_mask_def hint_target_binding_capacity_def mask_eq_exp_minus_1)
  show ?thesis unfolding m take_bit_eq_mask [symmetric] by (simp add: take_bit_eq_mod unat_mod_distrib)
qed

lemma walk_slot_nat: "unat (walk_slot k d) = (unat (home_slot k) + d) mod 16384"
proof (induction d)
  case 0
  have "unat (home_slot k) < 16384" by (simp add: home_slot_def binding_mask_nat)
  then show ?case by (simp add: walk_slot_def)
next
  case (Suc d)
  have "unat (walk_slot k (Suc d)) = (unat (walk_slot k d) + 1) mod 4294967296 mod 16384"
    by (simp add: walk_slot_def next_slot_def binding_mask_nat unat_word_ariths)
  also have "\<dots> = (unat (walk_slot k d) + 1) mod 16384" by (simp add: mod_mod_cancel)
  finally show ?case unfolding Suc by (simp add: mod_Suc_eq)
qed

lemma walk_slot_inj: "inj_on (walk_slot k) {..<16384}"
proof
  fix d e assume de: "d \<in> {..<16384}" "e \<in> {..<16384}" "walk_slot k d = walk_slot k e"
  let ?h = "unat (home_slot k)"
  have h: "?h < 16384" by (simp add: home_slot_def binding_mask_nat)
  have "(?h + d) mod 16384 = (?h + e) mod 16384" using de(3) walk_slot_nat by metis
  then show "d = e" using h de(1,2) by (auto simp: mod_if split: if_splits)
qed

text \<open>Which slots the table uses, and where it keeps the first target with an id.\<close>

definition used_slots :: "bindings \<Rightarrow> u32 set" where
  "used_slots b = {s. hb_target_id (b s) \<noteq> 0}"

definition table_ok :: "bindings \<Rightarrow> target_record list \<Rightarrow> bool" where
  "table_ok b ts \<longleftrightarrow> card (used_slots b) \<le> length ts \<and>
     (\<forall>k. k \<noteq> 0 \<longrightarrow> (case first_index (\<lambda>t. tr_target_id t = k) ts of
        None \<Rightarrow> \<forall>s. hb_target_id (b s) \<noteq> k
      | Some i \<Rightarrow> \<exists>d. b (walk_slot k d) = \<lparr>hb_target_id = k, hb_target_index = word_of_nat i\<rparr> \<and>
          (\<forall>e < d. hb_target_id (b (walk_slot k e)) \<noteq> 0 \<and> hb_target_id (b (walk_slot k e)) \<noteq> k)))"

lemma table_ok_empty: "table_ok no_bindings []"
  by (simp add: table_ok_def used_slots_def no_bindings_def)

lemma free_on_walk:
  assumes "card (used_slots b) < 16384"
  obtains d where "hb_target_id (b (walk_slot k d)) = 0" "\<forall>e < d. hb_target_id (b (walk_slot k e)) \<noteq> 0"
proof -
  have ex: "\<exists>d. hb_target_id (b (walk_slot k d)) = 0"
  proof (rule ccontr)
    assume "\<not> ?thesis"
    then have "walk_slot k ` {..<16384} \<subseteq> used_slots b" by (auto simp: used_slots_def)
    then have "card (walk_slot k ` {..<16384}) \<le> card (used_slots b)" by (intro card_mono) simp_all
    then show False using assms card_image [OF walk_slot_inj, of k] by simp
  qed
  let ?d = "LEAST d. hb_target_id (b (walk_slot k d)) = 0"
  show ?thesis
  proof (rule that)
    show "hb_target_id (b (walk_slot k ?d)) = 0" using ex by (rule LeastI_ex)
    show "\<forall>e < ?d. hb_target_id (b (walk_slot k e)) \<noteq> 0" using not_less_Least by blast
  qed
qed

lemma vacant_slot_walk:
  "hb_target_id (b ((next_slot ^^ d) s)) = 0 \<Longrightarrow> \<forall>e < d. hb_target_id (b ((next_slot ^^ e) s)) \<noteq> 0 \<Longrightarrow>
     vacant_slot b s = Some ((next_slot ^^ d) s)"
proof (induction d arbitrary: s)
  case 0
  then show ?case by (subst vacant_slot.simps) simp
next
  case (Suc d)
  have "\<forall>e < d. hb_target_id (b ((next_slot ^^ e) (next_slot s))) \<noteq> 0"
    using Suc.prems(2) by (metis Suc_less_eq funpow_Suc_right o_apply)
  moreover have "hb_target_id (b s) \<noteq> 0" using Suc.prems(2) by force
  ultimately show ?case using Suc.IH [of "next_slot s"] Suc.prems(1)
    by (subst vacant_slot.simps) (simp add: funpow_swap1)
qed

lemma find_slot_walk:
  "hb_target_id (b ((next_slot ^^ d) s)) = 0 \<or> hb_target_id (b ((next_slot ^^ d) s)) = k \<Longrightarrow>
     \<forall>e < d. hb_target_id (b ((next_slot ^^ e) s)) \<noteq> 0 \<and> hb_target_id (b ((next_slot ^^ e) s)) \<noteq> k \<Longrightarrow>
     find_slot b k s = Some ((next_slot ^^ d) s)"
proof (induction d arbitrary: s)
  case 0
  then show ?case by (subst find_slot.simps) auto
next
  case (Suc d)
  have "\<forall>e < d. hb_target_id (b ((next_slot ^^ e) (next_slot s))) \<noteq> 0 \<and> hb_target_id (b ((next_slot ^^ e) (next_slot s))) \<noteq> k"
    using Suc.prems(2) by (metis Suc_less_eq funpow_Suc_right o_apply)
  moreover have "hb_target_id (b s) \<noteq> 0" "hb_target_id (b s) \<noteq> k" using Suc.prems(2) by force+
  ultimately show ?case using Suc.IH [of "next_slot s"] Suc.prems(1)
    by (subst find_slot.simps) (simp add: funpow_swap1)
qed

lemma first_index_append:
  "first_index P (xs @ [x]) = (case first_index P xs of Some i \<Rightarrow> Some i | None \<Rightarrow> if P x then Some (length xs) else None)"
  by (induction xs) (auto split: option.splits)

lemma bind_one:
  assumes "table_ok b ts" "tr_target_id t \<noteq> 0" "length ts < 16384"
  obtains s where "vacant_slot b (home_slot (tr_target_id t)) = Some s"
    "table_ok (b(s := \<lparr>hb_target_id = tr_target_id t, hb_target_index = word_of_nat (length ts)\<rparr>)) (ts @ [t])"
proof -
  let ?k = "tr_target_id t"
  have "card (used_slots b) < 16384" using assms(1,3) by (simp add: table_ok_def)
  from free_on_walk [OF this, of ?k] obtain d where d: "hb_target_id (b (walk_slot ?k d)) = 0"
    "\<forall>e < d. hb_target_id (b (walk_slot ?k e)) \<noteq> 0" .
  let ?s = "walk_slot ?k d" let ?b = "b(?s := \<lparr>hb_target_id = ?k, hb_target_index = word_of_nat (length ts)\<rparr>)"
  have free: "vacant_slot b (home_slot ?k) = Some ?s"
    unfolding walk_slot_def by (rule vacant_slot_walk) (use d in \<open>simp_all add: walk_slot_def\<close>)
  have "used_slots ?b = insert ?s (used_slots b)" using assms(2) by (auto simp: used_slots_def)
  then have card: "card (used_slots ?b) \<le> length (ts @ [t])"
    using assms(1) card_insert_le_m1 [of "Suc (length ts)" "used_slots b" ?s] by (simp add: table_ok_def)
  have "case first_index (\<lambda>t. tr_target_id t = k) (ts @ [t]) of
        None \<Rightarrow> \<forall>s. hb_target_id (?b s) \<noteq> k
      | Some i \<Rightarrow> \<exists>d. ?b (walk_slot k d) = \<lparr>hb_target_id = k, hb_target_index = word_of_nat i\<rparr> \<and>
          (\<forall>e < d. hb_target_id (?b (walk_slot k e)) \<noteq> 0 \<and> hb_target_id (?b (walk_slot k e)) \<noteq> k)" if k: "k \<noteq> 0" for k
  proof (cases "first_index (\<lambda>t. tr_target_id t = k) ts")
    case (Some i)
    then obtain e where e: "b (walk_slot k e) = \<lparr>hb_target_id = k, hb_target_index = word_of_nat i\<rparr>"
      "\<forall>e' < e. hb_target_id (b (walk_slot k e')) \<noteq> 0 \<and> hb_target_id (b (walk_slot k e')) \<noteq> k"
      using assms(1) k by (fastforce simp: table_ok_def)
    have "walk_slot k e \<noteq> ?s" using e(1) d(1) k by auto
    moreover have "walk_slot k e' \<noteq> ?s" if "e' < e" for e' using e(2) d(1) that by auto
    ultimately show ?thesis using Some e by (auto simp: first_index_append)
  next
    case None
    then have none: "hb_target_id (b s) \<noteq> k" for s using assms(1) k by (fastforce simp: table_ok_def)
    show ?thesis
    proof (cases "k = ?k")
      case False
      then show ?thesis using None none by (simp add: first_index_append)
    next
      case True
      have "walk_slot ?k e \<noteq> ?s" if "e < d" for e using d that by auto
      then show ?thesis using None none d(2) True by (auto simp: first_index_append intro!: exI [of _ d])
    qed
  qed
  then have "table_ok ?b (ts @ [t])" using card by (simp add: table_ok_def)
  then show ?thesis using that free by blast
qed

lemma bind_targets_ok:
  assumes "table_ok b done" "list_all (\<lambda>t. tr_target_id t \<noteq> 0) ts" "length done + length ts \<le> 10000"
  shows "\<exists>b'. bind_targets b (length done) ts = Some b' \<and> table_ok b' (done @ ts)"
  using assms
proof (induction ts arbitrary: b "done")
  case Nil
  then show ?case by simp
next
  case (Cons t ts)
  have "tr_target_id t \<noteq> 0" "length done < 16384" using Cons.prems by simp_all
  then obtain s where s: "vacant_slot b (home_slot (tr_target_id t)) = Some s"
    "table_ok (b(s := \<lparr>hb_target_id = tr_target_id t, hb_target_index = word_of_nat (length done)\<rparr>)) (done @ [t])"
    by (rule bind_one [OF Cons.prems(1)])
  from Cons.IH [OF s(2)] Cons.prems s(1) show ?case by (simp add: fun_upd_def)
qed

lemma find_slot_ok:
  assumes "table_ok b ts" "k \<noteq> 0" "length ts \<le> 10000"
  obtains s where "find_slot b k (home_slot k) = Some s"
    "case first_index (\<lambda>t. tr_target_id t = k) ts of None \<Rightarrow> hb_target_id (b s) = 0
     | Some i \<Rightarrow> b s = \<lparr>hb_target_id = k, hb_target_index = word_of_nat i\<rparr>"
proof (cases "first_index (\<lambda>t. tr_target_id t = k) ts")
  case (Some i)
  then obtain d where d: "b (walk_slot k d) = \<lparr>hb_target_id = k, hb_target_index = word_of_nat i\<rparr>"
    "\<forall>e < d. hb_target_id (b (walk_slot k e)) \<noteq> 0 \<and> hb_target_id (b (walk_slot k e)) \<noteq> k"
    using assms by (fastforce simp: table_ok_def)
  have "find_slot b k (home_slot k) = Some (walk_slot k d)"
    unfolding walk_slot_def by (rule find_slot_walk) (use d in \<open>simp_all add: walk_slot_def\<close>)
  then show ?thesis using that Some d(1) by simp
next
  case None
  have "card (used_slots b) < 16384" using assms(1,3) by (simp add: table_ok_def)
  from free_on_walk [OF this, of k] obtain d where d: "hb_target_id (b (walk_slot k d)) = 0"
    "\<forall>e < d. hb_target_id (b (walk_slot k e)) \<noteq> 0" .
  have "hb_target_id (b s) \<noteq> k" for s using assms(1,2) None by (fastforce simp: table_ok_def)
  then have "find_slot b k (home_slot k) = Some (walk_slot k d)"
    unfolding walk_slot_def by (intro find_slot_walk) (use d in \<open>simp_all add: walk_slot_def\<close>)
  then show ?thesis using that None d(1) by simp
qed

definition still_there :: "target_record list \<Rightarrow> hint_label \<Rightarrow> bool" where
  "still_there ts l \<longleftrightarrow> first_index (\<lambda>t. tr_target_id t = hl_target_id l) ts \<noteq> None"

definition index_in :: "target_record list \<Rightarrow> hint_label \<Rightarrow> u32" where
  "index_in ts l = word_of_nat (the (first_index (\<lambda>t. tr_target_id t = hl_target_id l) ts))"

lemma bound_indices_ok:
  assumes "table_ok b ts" "length ts \<le> 10000" "list_all (\<lambda>t. tr_target_id t \<noteq> 0) ts"
  shows "bound_indices b ls = Some (if list_all (still_there ts) ls then Some (map (index_in ts) ls) else None)"
proof (induction ls)
  case Nil
  then show ?case by simp
next
  case (Cons l ls)
  let ?k = "hl_target_id l" let ?i = "first_index (\<lambda>t. tr_target_id t = ?k) ts"
  obtain s where s: "find_slot b ?k (home_slot ?k) = Some s"
    "case ?i of None \<Rightarrow> hb_target_id (b s) = 0
     | Some i \<Rightarrow> b s = \<lparr>hb_target_id = ?k, hb_target_index = word_of_nat i\<rparr> \<and> ?k \<noteq> 0"
  proof (cases "?k = 0")
    case True
    have none: "?i = None" using assms(3) True by (auto simp: first_index_None list_all_iff)
    have "card (used_slots b) < 16384" using assms(1,2) by (simp add: table_ok_def)
    from free_on_walk [OF this, of ?k] obtain d where d: "hb_target_id (b (walk_slot ?k d)) = 0"
      "\<forall>e < d. hb_target_id (b (walk_slot ?k e)) \<noteq> 0" .
    then have "find_slot b ?k (home_slot ?k) = Some (walk_slot ?k d)"
      unfolding walk_slot_def by (intro find_slot_walk) (simp_all add: True)
    then show ?thesis using that none d(1) by simp
  next
    case False
    obtain s where "find_slot b ?k (home_slot ?k) = Some s"
      "case ?i of None \<Rightarrow> hb_target_id (b s) = 0 | Some i \<Rightarrow> b s = \<lparr>hb_target_id = ?k, hb_target_index = word_of_nat i\<rparr>"
      by (rule find_slot_ok [OF assms(1) False assms(2)])
    then show ?thesis using that False by (cases ?i) simp_all
  qed
  then show ?case using Cons.IH by (cases ?i) (simp_all add: still_there_def index_in_def)
qed

lemma map2_index: "map2 (\<lambda>l index. l\<lparr>hl_target_index := index\<rparr>) ls (map f ls) = map (\<lambda>l. l\<lparr>hl_target_index := f l\<rparr>) ls"
  by (induction ls) simp_all

definition refresh_allowed :: "packet_view option \<Rightarrow> hint_session \<Rightarrow> bool" where
  "refresh_allowed scene s \<longleftrightarrow> hs_frozen s \<and> scene \<noteq> None \<and>
     (let v = the scene; h = pv_header v in
      ph_coordinate_space h = SPACE_DESKTOP_Q8 \<and> hs_scene_epoch s < ph_scene_epoch h \<and>
      ph_transform_epoch h = hs_transform_epoch s \<and> ph_topology_epoch h = hs_topology_epoch s \<and>
      list_all (still_there (pv_targets v)) (hs_labels s))"

lemma refresh_scene_result:
  "let scene = snd (validate_packet span True True) in
   case refresh_scene scene s of
     None \<Rightarrow> False
   | Some (result, s') \<Rightarrow>
       if refresh_allowed scene s then
         result = SACCADE_OK \<and> hs_scene_epoch s' = ph_scene_epoch (pv_header (the scene)) \<and>
         hs_labels s' = map (\<lambda>l. l\<lparr>hl_target_index := index_in (pv_targets (the scene)) l\<rparr>) (hs_labels s)
       else result = SACCADE_ERROR_STALE_HANDLE \<and> hs_labels s' = hs_labels s \<and> hs_scene_epoch s' = hs_scene_epoch s"
proof (cases "snd (validate_packet span True True)")
  case None
  then show ?thesis by (simp add: refresh_scene_def refresh_allowed_def refresh_failed_def)
next
  case (Some v)
  have n: "length (pv_targets v) \<le> 10000" using read_view_count [of span] Some by simp
  have ids: "list_all (\<lambda>t. tr_target_id t \<noteq> 0) (pv_targets v)"
    using packet_wf_targets [OF read_view_wf [OF Some]] by (auto simp: list_all_iff valid_target_def)
  obtain b where b: "bind_targets no_bindings 0 (pv_targets v) = Some b" "table_ok b (pv_targets v)"
    using bind_targets_ok [OF table_ok_empty ids] n by auto
  note i = bound_indices_ok [OF b(2) n ids, of "hs_labels s"]
  show ?thesis
  proof (cases "hs_frozen s \<and> ph_coordinate_space (pv_header v) = SPACE_DESKTOP_Q8 \<and> hs_scene_epoch s < ph_scene_epoch (pv_header v) \<and>
      ph_transform_epoch (pv_header v) = hs_transform_epoch s \<and> ph_topology_epoch (pv_header v) = hs_topology_epoch s")
    case False
    then show ?thesis using Some by (auto simp: refresh_scene_def refresh_allowed_def refresh_failed_def not_less Let_def)
  next
    case True
    have g: "\<not> (\<not> hs_frozen s \<or> Some v = None \<or> ph_coordinate_space (pv_header (the (Some v))) \<noteq> SPACE_DESKTOP_Q8 \<or>
         ph_scene_epoch (pv_header (the (Some v))) \<le> hs_scene_epoch s \<or>
         ph_transform_epoch (pv_header (the (Some v))) \<noteq> hs_transform_epoch s \<or>
         ph_topology_epoch (pv_header (the (Some v))) \<noteq> hs_topology_epoch s)"
      using True by (simp add: not_le)
    show ?thesis unfolding Some Let_def refresh_scene_def if_not_P [OF g]
      using True by (simp add: b(1) i refresh_allowed_def map2_index refresh_failed_def)
  qed
qed

text \<open>C26. Refreshing with a scene the reader accepted always returns. It succeeds exactly when the
  session is frozen, the scene is newer with the same transform and topology, and every label's
  target is still there; then every label keeps its symbols and points to the first target with
  its identifier, as a linear search would find it. Otherwise the labels and epochs stay.\<close>

theorem refresh_scene_exact:
  "let scene = snd (validate_packet span True True) in
   case refresh_scene scene s of
     None \<Rightarrow> False
   | Some (result, s') \<Rightarrow>
       if refresh_allowed scene s then
         result = SACCADE_OK \<and> hs_scene_epoch s' = ph_scene_epoch (pv_header (the scene)) \<and>
         hs_labels s' = map (\<lambda>l. l\<lparr>hl_target_index := index_in (pv_targets (the scene)) l\<rparr>) (hs_labels s)
       else result = SACCADE_ERROR_STALE_HANDLE \<and> hs_labels s' = hs_labels s \<and> hs_scene_epoch s' = hs_scene_epoch s"
  by (rule refresh_scene_result)

end
