(* ===== verification/Input_Plan.thy ===== *)
theory Input_Plan
  imports Scene_Packet
begin

text \<open>
  Input plans: the format of \<open>include/saccade/saccade_input.h\<close>, its reader
  \<open>src/input/plan.cpp\<close>, and the check before execution, \<open>src/input/execution_preflight.cpp\<close>.
\<close>

subsection \<open>Constants\<close>

abbreviation INPUT_PLAN_VERSION :: u32 where "INPUT_PLAN_VERSION \<equiv> 0x00010001"
abbreviation INPUT_PLAN_MAX_TARGETS :: u32 where "INPUT_PLAN_MAX_TARGETS \<equiv> 64"
definition input_plan_max_commands :: u32 where "input_plan_max_commands = INPUT_PLAN_MAX_TARGETS * 2 + 1"

abbreviation PERMISSION_POINTER :: u32 where "PERMISSION_POINTER \<equiv> 1"
abbreviation PERMISSION_KEYBOARD :: u32 where "PERMISSION_KEYBOARD \<equiv> 2"
abbreviation PERMISSION_TEXT :: u32 where "PERMISSION_TEXT \<equiv> 4"
abbreviation PERMISSION_WINDOW :: u32 where "PERMISSION_WINDOW \<equiv> 8"
abbreviation PERMISSION_CLIPBOARD :: u32 where "PERMISSION_CLIPBOARD \<equiv> 16"

abbreviation BUTTON_LEFT :: u32 where "BUTTON_LEFT \<equiv> 1"
abbreviation BUTTON_RIGHT :: u32 where "BUTTON_RIGHT \<equiv> 2"
abbreviation BUTTON_MIDDLE :: u32 where "BUTTON_MIDDLE \<equiv> 4"

abbreviation MODIFIER_SHIFT :: u32 where "MODIFIER_SHIFT \<equiv> 1"
abbreviation MODIFIER_CONTROL :: u32 where "MODIFIER_CONTROL \<equiv> 2"
abbreviation MODIFIER_ALT :: u32 where "MODIFIER_ALT \<equiv> 4"
abbreviation MODIFIER_META :: u32 where "MODIFIER_META \<equiv> 8"

abbreviation COMMAND_POINTER_MOVE :: u32 where "COMMAND_POINTER_MOVE \<equiv> 1"
abbreviation COMMAND_BUTTON_DOWN :: u32 where "COMMAND_BUTTON_DOWN \<equiv> 2"
abbreviation COMMAND_BUTTON_UP :: u32 where "COMMAND_BUTTON_UP \<equiv> 3"
abbreviation COMMAND_CLICK :: u32 where "COMMAND_CLICK \<equiv> 4"
abbreviation COMMAND_SCROLL :: u32 where "COMMAND_SCROLL \<equiv> 5"
abbreviation COMMAND_KEY_DOWN :: u32 where "COMMAND_KEY_DOWN \<equiv> 6"
abbreviation COMMAND_KEY_UP :: u32 where "COMMAND_KEY_UP \<equiv> 7"
abbreviation COMMAND_TEXT :: u32 where "COMMAND_TEXT \<equiv> 8"
abbreviation COMMAND_WINDOW_ACTIVATE :: u32 where "COMMAND_WINDOW_ACTIVATE \<equiv> 9"
abbreviation COMMAND_WAIT :: u32 where "COMMAND_WAIT \<equiv> 10"

abbreviation COMMAND_ABSOLUTE :: u32 where "COMMAND_ABSOLUTE \<equiv> 1"
abbreviation COMMAND_PHYSICAL_KEY :: u32 where "COMMAND_PHYSICAL_KEY \<equiv> 2"
abbreviation COMMAND_CONTINUOUS :: u32 where "COMMAND_CONTINUOUS \<equiv> 4"

abbreviation PLAN_DRY_RUN :: u32 where "PLAN_DRY_RUN \<equiv> 1"
abbreviation PLAN_STOP_ON_FAILURE :: u32 where "PLAN_STOP_ON_FAILURE \<equiv> 2"
abbreviation PLAN_RESTORE_POINTER :: u32 where "PLAN_RESTORE_POINTER \<equiv> 4"

definition permission_mask :: u32 where
  "permission_mask = PERMISSION_POINTER OR PERMISSION_KEYBOARD OR PERMISSION_TEXT OR PERMISSION_WINDOW OR
     PERMISSION_CLIPBOARD"

definition button_mask :: u32 where
  "button_mask = BUTTON_LEFT OR BUTTON_RIGHT OR BUTTON_MIDDLE"

definition modifier_mask :: u32 where
  "modifier_mask = MODIFIER_SHIFT OR MODIFIER_CONTROL OR MODIFIER_ALT OR MODIFIER_META"

definition command_flag_mask :: u32 where
  "command_flag_mask = COMMAND_ABSOLUTE OR COMMAND_PHYSICAL_KEY OR COMMAND_CONTINUOUS"

definition plan_flag_mask :: u32 where
  "plan_flag_mask = PLAN_DRY_RUN OR PLAN_STOP_ON_FAILURE OR PLAN_RESTORE_POINTER"

subsection \<open>Data\<close>

record input_command =
  ic_kind :: u32
  ic_flags :: u32
  ic_target_id :: u64
  ic_x_q8 :: i32
  ic_y_q8 :: i32
  ic_delta_x_q8 :: i32
  ic_delta_y_q8 :: i32
  ic_data0 :: u32
  ic_data1 :: u32
  ic_duration_ns :: u64
  ic_payload_offset :: u32
  ic_payload_size :: u32
  ic_data2 :: u32
  ic_reserved32 :: u32

record input_plan_header =
  ih_struct_size :: u32
  ih_plan_version :: u32
  ih_command_count :: u32
  ih_command_stride :: u32
  ih_flags :: u32
  ih_required_permissions :: u32
  ih_expected_buttons :: u32
  ih_reserved32 :: u32
  ih_plan_id :: u64
  ih_scene_epoch :: u64
  ih_frame_id :: u64
  ih_model_epoch :: u64
  ih_session_epoch :: u64
  ih_transform_epoch :: u64
  ih_topology_epoch :: u64
  ih_permission_epoch :: u64
  ih_source_id :: u64
  ih_focus_id :: u64
  ih_window_id :: u64
  ih_display_id :: u64
  ih_deadline_ns :: u64
  ih_commands_offset :: u64
  ih_total_size :: u64
  ih_reserved :: u64

text \<open>A view of a validated plan; a default view is \<open>None\<close> of type \<open>plan_view option\<close>.\<close>

record plan_view =
  pn_header :: input_plan_header
  pn_commands :: "input_command list"
  pn_byte_size :: nat

definition command_size :: nat where "command_size = 64"
definition plan_header_size :: nat where "plan_header_size = 160"

definition put_command :: "input_command \<Rightarrow> u8 list" where
  "put_command c = put_u32 (ic_kind c) @ put_u32 (ic_flags c) @ put_u64 (ic_target_id c) @ put_u32 (ic_x_q8 c) @
     put_u32 (ic_y_q8 c) @ put_u32 (ic_delta_x_q8 c) @ put_u32 (ic_delta_y_q8 c) @ put_u32 (ic_data0 c) @
     put_u32 (ic_data1 c) @ put_u64 (ic_duration_ns c) @ put_u32 (ic_payload_offset c) @ put_u32 (ic_payload_size c) @
     put_u32 (ic_data2 c) @ put_u32 (ic_reserved32 c)"

definition get_command :: "u8 list \<Rightarrow> input_command \<times> u8 list" where
  "get_command b0 = (let
     (kind, b1) = get_u32 b0; (flags, b2) = get_u32 b1; (target_id, b3) = get_u64 b2; (x, b4) = get_u32 b3;
     (y, b5) = get_u32 b4; (dx, b6) = get_u32 b5; (dy, b7) = get_u32 b6; (data0, b8) = get_u32 b7;
     (data1, b9) = get_u32 b8; (duration, b10) = get_u64 b9; (offset, b11) = get_u32 b10; (sz, b12) = get_u32 b11;
     (data2, b13) = get_u32 b12; (reserved32, b14) = get_u32 b13
     in (\<lparr>ic_kind = kind, ic_flags = flags, ic_target_id = target_id, ic_x_q8 = x, ic_y_q8 = y, ic_delta_x_q8 = dx,
       ic_delta_y_q8 = dy, ic_data0 = data0, ic_data1 = data1, ic_duration_ns = duration, ic_payload_offset = offset,
       ic_payload_size = sz, ic_data2 = data2, ic_reserved32 = reserved32\<rparr>, b14))"

definition put_plan_header :: "input_plan_header \<Rightarrow> u8 list" where
  "put_plan_header h = put_u32 (ih_struct_size h) @ put_u32 (ih_plan_version h) @ put_u32 (ih_command_count h) @
     put_u32 (ih_command_stride h) @ put_u32 (ih_flags h) @ put_u32 (ih_required_permissions h) @
     put_u32 (ih_expected_buttons h) @ put_u32 (ih_reserved32 h) @ put_u64 (ih_plan_id h) @ put_u64 (ih_scene_epoch h) @
     put_u64 (ih_frame_id h) @ put_u64 (ih_model_epoch h) @ put_u64 (ih_session_epoch h) @
     put_u64 (ih_transform_epoch h) @ put_u64 (ih_topology_epoch h) @ put_u64 (ih_permission_epoch h) @
     put_u64 (ih_source_id h) @ put_u64 (ih_focus_id h) @ put_u64 (ih_window_id h) @ put_u64 (ih_display_id h) @
     put_u64 (ih_deadline_ns h) @ put_u64 (ih_commands_offset h) @ put_u64 (ih_total_size h) @ put_u64 (ih_reserved h)"

definition get_plan_header :: "u8 list \<Rightarrow> input_plan_header \<times> u8 list" where
  "get_plan_header b0 = (let
     (struct_size, b1) = get_u32 b0; (version, b2) = get_u32 b1; (command_count, b3) = get_u32 b2;
     (stride, b4) = get_u32 b3; (flags, b5) = get_u32 b4; (required, b6) = get_u32 b5; (buttons, b7) = get_u32 b6;
     (reserved32, b8) = get_u32 b7; (plan_id, b9) = get_u64 b8; (scene_epoch, b10) = get_u64 b9;
     (frame_id, b11) = get_u64 b10; (model_epoch, b12) = get_u64 b11; (session_epoch, b13) = get_u64 b12;
     (transform_epoch, b14) = get_u64 b13; (topology_epoch, b15) = get_u64 b14; (permission_epoch, b16) = get_u64 b15;
     (source_id, b17) = get_u64 b16; (focus_id, b18) = get_u64 b17; (window_id, b19) = get_u64 b18;
     (display_id, b20) = get_u64 b19; (deadline, b21) = get_u64 b20; (commands_offset, b22) = get_u64 b21;
     (total_size, b23) = get_u64 b22; (reserved, b24) = get_u64 b23
     in (\<lparr>ih_struct_size = struct_size, ih_plan_version = version, ih_command_count = command_count,
       ih_command_stride = stride, ih_flags = flags, ih_required_permissions = required, ih_expected_buttons = buttons,
       ih_reserved32 = reserved32, ih_plan_id = plan_id, ih_scene_epoch = scene_epoch, ih_frame_id = frame_id,
       ih_model_epoch = model_epoch, ih_session_epoch = session_epoch, ih_transform_epoch = transform_epoch,
       ih_topology_epoch = topology_epoch, ih_permission_epoch = permission_epoch, ih_source_id = source_id,
       ih_focus_id = focus_id, ih_window_id = window_id, ih_display_id = display_id, ih_deadline_ns = deadline,
       ih_commands_offset = commands_offset, ih_total_size = total_size, ih_reserved = reserved\<rparr>, b24))"

definition get_commands :: "nat \<Rightarrow> u8 list \<Rightarrow> input_command list \<times> u8 list" where
  "get_commands = get_table get_command"

subsection \<open>Validation\<close>

definition one_button :: "u32 \<Rightarrow> bool" where
  "one_button v \<longleftrightarrow> v \<noteq> 0 \<and> v AND (v - 1) = 0 \<and> v AND NOT button_mask = 0"

definition payload_valid :: "input_command \<Rightarrow> input_plan_header \<Rightarrow> u64 \<Rightarrow> bool" where
  "payload_valid c h command_bytes \<longleftrightarrow>
     (if ic_kind c \<noteq> COMMAND_TEXT then ic_payload_offset c = 0 \<and> ic_payload_size c = 0
      else if ic_payload_size c = 0 \<or> ucast (ic_payload_offset c) < command_bytes then False
      else (ucast (ic_payload_offset c) :: u64) + ucast (ic_payload_size c) \<le> ih_total_size h)"

text \<open>The check of one command; the second component is the updated permission word.\<close>

definition command_valid :: "input_command \<Rightarrow> input_plan_header \<Rightarrow> u64 \<Rightarrow> u32 \<Rightarrow> bool \<times> u32" where
  "command_valid c h command_bytes permissions =
     (let kind = ic_kind c in
      if kind < COMMAND_POINTER_MOVE \<or> kind > COMMAND_WAIT \<or> ic_flags c AND NOT command_flag_mask \<noteq> 0 \<or>
         ic_reserved32 c \<noteq> 0 \<or> \<not> payload_valid c h command_bytes
      then (False, permissions)
      else if kind = COMMAND_POINTER_MOVE then
        (ic_flags c AND COMMAND_ABSOLUTE \<noteq> 0 \<and> ic_data0 c = 0 \<and> ic_data1 c = 0 \<and> ic_data2 c = 0,
         permissions OR PERMISSION_POINTER)
      else if kind = COMMAND_BUTTON_DOWN \<or> kind = COMMAND_BUTTON_UP then
        (one_button (ic_data0 c) \<and> ic_data1 c = 0 \<and> ic_data2 c = 0, permissions OR PERMISSION_POINTER)
      else if kind = COMMAND_CLICK then
        (one_button (ic_data0 c) \<and> ic_data1 c \<ge> 1 \<and> ic_data1 c \<le> 16 \<and> ic_data2 c AND NOT modifier_mask = 0,
         permissions OR PERMISSION_POINTER)
      else if kind = COMMAND_SCROLL then
        ((ic_delta_x_q8 c \<noteq> 0 \<or> ic_delta_y_q8 c \<noteq> 0) \<and> ic_data0 c = 0 \<and> ic_data1 c = 0 \<and> ic_data2 c = 0,
         permissions OR PERMISSION_POINTER)
      else if kind = COMMAND_KEY_DOWN \<or> kind = COMMAND_KEY_UP then
        (ic_data0 c \<noteq> 0 \<and> ic_data1 c AND NOT modifier_mask = 0 \<and> ic_data2 c = 0, permissions OR PERMISSION_KEYBOARD)
      else if kind = COMMAND_TEXT then
        (ic_data0 c = 0 \<and> ic_data1 c = 0 \<and> ic_data2 c = 0 \<and> ic_duration_ns c = 0, permissions OR PERMISSION_TEXT)
      else if kind = COMMAND_WINDOW_ACTIVATE then
        (ic_target_id c \<noteq> 0 \<and> ic_data0 c = 0 \<and> ic_data1 c = 0 \<and> ic_data2 c = 0 \<and> ic_duration_ns c = 0,
         permissions OR PERMISSION_WINDOW)
      else if kind = COMMAND_WAIT then
        (ic_duration_ns c \<noteq> 0 \<and> ic_data0 c = 0 \<and> ic_data1 c = 0 \<and> ic_data2 c = 0, permissions)
      else (False, permissions))"

fun commands_valid :: "input_plan_header \<Rightarrow> u64 \<Rightarrow> input_command list \<Rightarrow> u32 \<Rightarrow> u32 option" where
  "commands_valid h command_bytes [] permissions = Some permissions"
| "commands_valid h command_bytes (c # cs) permissions =
     (let (ok, permissions) = command_valid c h command_bytes permissions
      in if ok then commands_valid h command_bytes cs permissions else None)"

definition plan_header_valid :: "input_plan_header \<Rightarrow> nat \<Rightarrow> bool" where
  "plan_header_valid h byte_size \<longleftrightarrow>
     \<not> (ih_struct_size h \<noteq> word_of_nat plan_header_size \<or> ih_plan_version h \<noteq> INPUT_PLAN_VERSION \<or>
        ih_command_count h = 0 \<or> ih_command_count h > input_plan_max_commands \<or>
        ih_command_stride h \<noteq> word_of_nat command_size \<or> ih_flags h AND NOT plan_flag_mask \<noteq> 0 \<or>
        ih_required_permissions h = 0 \<or> ih_required_permissions h AND NOT permission_mask \<noteq> 0 \<or>
        ih_expected_buttons h AND NOT button_mask \<noteq> 0 \<or> ih_reserved32 h \<noteq> 0 \<or> ih_plan_id h = 0 \<or>
        ih_scene_epoch h = 0 \<or> ih_frame_id h = 0 \<or> ih_model_epoch h = 0 \<or> ih_session_epoch h = 0 \<or>
        ih_transform_epoch h = 0 \<or> ih_topology_epoch h = 0 \<or> ih_permission_epoch h = 0 \<or>
        ih_source_id h = 0 \<or> ih_deadline_ns h = 0 \<or> ih_commands_offset h \<noteq> word_of_nat plan_header_size \<or>
        unat (ih_total_size h) > byte_size \<or> ih_reserved h \<noteq> 0)"

definition validate_plan :: "span_u8 \<Rightarrow> bool \<Rightarrow> bool \<Rightarrow> saccade_result \<times> plan_view option" where
  "validate_plan span aligned output =
     (if \<not> output then (SACCADE_ERROR_INVALID_ARGUMENT, None)
      else case span of
        Null_span _ \<Rightarrow> (SACCADE_ERROR_INVALID_ARGUMENT, None)
      | Span bytes \<Rightarrow>
          if length bytes < plan_header_size \<or> \<not> aligned then (SACCADE_ERROR_INVALID_ARGUMENT, None)
          else let (h, after_header) = get_plan_header bytes in
            if \<not> plan_header_valid h (length bytes) then (SACCADE_ERROR_INVALID_ARGUMENT, None)
            else let commands_size = (ucast (ih_command_count h) * ucast (ih_command_stride h) :: u64) in
            if commands_size > uint64_max - ih_commands_offset h then (SACCADE_ERROR_INVALID_ARGUMENT, None)
            else let command_bytes = ih_commands_offset h + commands_size in
            if command_bytes > ih_total_size h then (SACCADE_ERROR_INVALID_ARGUMENT, None)
            else let commands = fst (get_commands (unat (ih_command_count h)) after_header) in
            case commands_valid h command_bytes commands 0 of
              None \<Rightarrow> (SACCADE_ERROR_INVALID_ARGUMENT, None)
            | Some used_permissions \<Rightarrow>
                if used_permissions AND ih_required_permissions h \<noteq> used_permissions
                then (SACCADE_ERROR_INVALID_ARGUMENT, None)
                else (SACCADE_OK, Some \<lparr>pn_header = h, pn_commands = commands, pn_byte_size = unat (ih_total_size h)\<rparr>))"

lemma get_put_command [simp]: "get_command (put_command c @ rest) = (c, rest)"
  by (simp add: get_command_def put_command_def)

lemma get_put_plan_header [simp]: "get_plan_header (put_plan_header h @ rest) = (h, rest)"
  by (simp add: get_plan_header_def put_plan_header_def)

lemma length_put_command [simp]: "length (put_command c) = command_size"
  by (simp add: put_command_def command_size_def)

lemma length_put_plan_header [simp]: "length (put_plan_header h) = plan_header_size"
  by (simp add: put_plan_header_def plan_header_size_def)

lemma put_get_command:
  assumes "command_size \<le> length bs"
  shows "put_command (fst (get_command bs)) = take command_size bs \<and> snd (get_command bs) = drop command_size bs"
proof -
  have l: "64 \<le> length bs" using assms by (simp add: command_size_def)
  have s: "snd (get_command bs) = drop command_size bs"
    by (simp add: get_command_def get_word_def command_size_def)
  have "put_command (fst (get_command bs)) @ drop 64 bs = drop 0 bs"
    using l by (simp add: get_command_def put_command_def get_word_def put_get_word put_get_word0 take_drop_append del: drop_0)
  then have "put_command (fst (get_command bs)) = take 64 bs" using l
    by (metis append_eq_conv_conj drop_0 length_put_command command_size_def)
  then show ?thesis using s by (simp add: command_size_def)
qed

lemma put_get_plan_header:
  assumes "plan_header_size \<le> length bs"
  shows "put_plan_header (fst (get_plan_header bs)) = take plan_header_size bs \<and>
    snd (get_plan_header bs) = drop plan_header_size bs"
proof -
  have l: "160 \<le> length bs" using assms by (simp add: plan_header_size_def)
  have s: "snd (get_plan_header bs) = drop plan_header_size bs"
    by (simp add: get_plan_header_def get_word_def plan_header_size_def)
  have "put_plan_header (fst (get_plan_header bs)) @ drop 160 bs = drop 0 bs"
    using l by (simp add: get_plan_header_def put_plan_header_def get_word_def put_get_word put_get_word0 take_drop_append del: drop_0)
  then have "put_plan_header (fst (get_plan_header bs)) = take 160 bs" using l
    by (metis append_eq_conv_conj drop_0 length_put_plan_header plan_header_size_def)
  then show ?thesis using s by (simp add: plan_header_size_def)
qed

interpretation command_codec: record_codec put_command get_command command_size
  by unfold_locales (auto simp: put_get_command)

interpretation plan_header_codec: record_codec put_plan_header get_plan_header plan_header_size
  by unfold_locales (auto simp: put_get_plan_header)

subsection \<open>The format as a declarative specification\<close>

text \<open>The permission a kind of command needs; waiting needs none.\<close>

definition permission_of :: "u32 \<Rightarrow> u32" where
  "permission_of kind =
     (if kind \<in> {COMMAND_POINTER_MOVE, COMMAND_BUTTON_DOWN, COMMAND_BUTTON_UP, COMMAND_CLICK, COMMAND_SCROLL} then PERMISSION_POINTER
      else if kind \<in> {COMMAND_KEY_DOWN, COMMAND_KEY_UP} then PERMISSION_KEYBOARD
      else if kind = COMMAND_TEXT then PERMISSION_TEXT
      else if kind = COMMAND_WINDOW_ACTIVATE then PERMISSION_WINDOW else 0)"

text \<open>The fields a command of a kind may use.\<close>

definition command_shape :: "input_command \<Rightarrow> bool" where
  "command_shape c \<longleftrightarrow> (let kind = ic_kind c;
       no_data = (ic_data0 c = 0 \<and> ic_data1 c = 0 \<and> ic_data2 c = 0);
       button = (ic_data0 c \<in> {BUTTON_LEFT, BUTTON_RIGHT, BUTTON_MIDDLE}) in
     1 \<le> unat kind \<and> unat kind \<le> 10 \<and> unat (ic_flags c) < 8 \<and> ic_reserved32 c = 0 \<and>
     (kind = COMMAND_POINTER_MOVE \<longrightarrow> odd (unat (ic_flags c)) \<and> no_data) \<and>
     (kind \<in> {COMMAND_BUTTON_DOWN, COMMAND_BUTTON_UP} \<longrightarrow> button \<and> ic_data1 c = 0 \<and> ic_data2 c = 0) \<and>
     (kind = COMMAND_CLICK \<longrightarrow> button \<and> ic_data1 c \<in> set (map word_of_nat [1..<17]) \<and> unat (ic_data2 c) < 16) \<and>
     (kind = COMMAND_SCROLL \<longrightarrow> (ic_delta_x_q8 c, ic_delta_y_q8 c) \<noteq> (0, 0) \<and> no_data) \<and>
     (kind \<in> {COMMAND_KEY_DOWN, COMMAND_KEY_UP} \<longrightarrow> ic_data0 c \<noteq> 0 \<and> unat (ic_data1 c) < 16 \<and> ic_data2 c = 0) \<and>
     (kind = COMMAND_TEXT \<longrightarrow> no_data \<and> ic_duration_ns c = 0) \<and>
     (kind = COMMAND_WINDOW_ACTIVATE \<longrightarrow> ic_target_id c \<noteq> 0 \<and> no_data \<and> ic_duration_ns c = 0) \<and>
     (kind = COMMAND_WAIT \<longrightarrow> ic_duration_ns c \<noteq> 0 \<and> no_data))"

text \<open>A text command's payload lies behind the command table and inside the plan; others have none.\<close>

definition payload_inside :: "nat \<Rightarrow> nat \<Rightarrow> input_command \<Rightarrow> bool" where
  "payload_inside table plan_bytes c \<longleftrightarrow> (let off = unat (ic_payload_offset c); n = unat (ic_payload_size c) in
     if ic_kind c = COMMAND_TEXT then 0 < n \<and> table \<le> off \<and> off + n \<le> plan_bytes else off = 0 \<and> n = 0)"

lemma below_mask: "(w :: u32) AND NOT (mask n) = 0 \<longleftrightarrow> unat w < 2 ^ n"
proof -
  have split: "w = (w AND mask n) OR (w AND NOT (mask n))" by (rule bit_word_eqI) (auto simp: bit_simps)
  have "w AND NOT (mask n) = 0 \<longleftrightarrow> w AND mask n = w"
  proof
    assume "w AND NOT (mask n) = 0"
    then show "w AND mask n = w" using split by simp
  next
    assume e: "w AND mask n = w"
    have "(w AND mask n) AND NOT (mask n) = 0" by (rule bit_word_eqI) (auto simp: bit_simps)
    then show "w AND NOT (mask n) = 0" unfolding e .
  qed
  also have "\<dots> \<longleftrightarrow> unat w mod 2 ^ n = unat w"
    by (simp only: word_unat_eq_iff take_bit_eq_mask [symmetric] unsigned_take_bit_eq) (simp only: take_bit_eq_mod)
  also have "\<dots> \<longleftrightarrow> unat w < 2 ^ n" by (metis mod_less mod_less_divisor zero_less_numeral zero_less_power)
  finally show ?thesis .
qed

lemma masks_as_bounds:
  "button_mask = mask 3" "modifier_mask = mask 4" "command_flag_mask = mask 3"
  by (simp_all add: button_mask_def modifier_mask_def command_flag_mask_def mask_eq_exp_minus_1)

lemma one_button_iff: "one_button v \<longleftrightarrow> v \<in> {BUTTON_LEFT, BUTTON_RIGHT, BUTTON_MIDDLE}"
proof
  assume b: "one_button v"
  have "unat v < 8" using b below_mask [of v 3] by (simp add: one_button_def masks_as_bounds)
  moreover have "v = word_of_nat (unat v)" by simp
  ultimately obtain k where k: "v = word_of_nat k" "k < 8" by blast
  then have "k = 0 \<or> k = 1 \<or> k = 2 \<or> k = 3 \<or> k = 4 \<or> k = 5 \<or> k = 6 \<or> k = 7" by arith
  then show "v \<in> {BUTTON_LEFT, BUTTON_RIGHT, BUTTON_MIDDLE}" using b k(1) by (auto simp: one_button_def)
qed (auto simp: one_button_def button_mask_def)

text \<open>One command: the check computes the specification.\<close>

definition command_wf :: "nat \<Rightarrow> nat \<Rightarrow> input_command \<Rightarrow> bool" where
  "command_wf table plan_bytes c \<longleftrightarrow> command_shape c \<and> payload_inside table plan_bytes c"

lemma odd_flags: "(f :: u32) AND COMMAND_ABSOLUTE \<noteq> 0 \<longleftrightarrow> odd (unat f)"
proof -
  have "f AND 1 \<noteq> 0 \<longleftrightarrow> bit f 0" unfolding and_one_eq bit_0 by (simp only: even_iff_mod_2_eq_zero)
  also have "\<dots> \<longleftrightarrow> bit (unat f) 0" by (simp only: bit_unsigned_iff) simp
  finally show ?thesis by (simp only: bit_0)
qed

lemma payload_valid_iff:
  "payload_valid c h command_bytes \<longleftrightarrow> payload_inside (unat command_bytes) (unat (ih_total_size h)) c"
proof -
  have "unat ((ucast (ic_payload_offset c) :: u64) + ucast (ic_payload_size c)) = unat (ic_payload_offset c) + unat (ic_payload_size c)"
  proof -
    have "unat (ic_payload_offset c) + unat (ic_payload_size c) < 18446744073709551616"
      using unat32_lt [of "ic_payload_offset c"] unat32_lt [of "ic_payload_size c"] by linarith
    then show ?thesis by (subst unat_add_lem [THEN iffD1]) simp_all
  qed
  then show ?thesis
    by (auto simp: payload_valid_def payload_inside_def Let_def word_le_nat_alt word_less_nat_alt unat_eq_0 unat_gt_0 not_less)
qed

lemma click_range: "(w :: u32) \<ge> 1 \<and> w \<le> 16 \<longleftrightarrow> w \<in> set (map word_of_nat [1..<17])"
proof
  assume "w \<ge> 1 \<and> w \<le> 16"
  then have "unat w \<in> {1..<17}" by (auto simp: word_le_nat_alt)
  then show "w \<in> set (map word_of_nat [1..<17])" by (auto intro!: image_eqI [of _ _ "unat w"])
qed (auto simp: word_le_nat_alt unat_of_nat)

lemma kind_range: "\<not> (k < 1 \<or> k > (10 :: u32)) \<longleftrightarrow> 1 \<le> unat k \<and> unat k \<le> 10"
  by (auto simp: word_less_nat_alt not_less)

lemma small_kinds: "unat (k :: u32) \<le> 10 \<Longrightarrow> 1 \<le> unat k \<Longrightarrow> k \<in> {1, 2, 3, 4, 5, 6, 7, 8, 9, 10}"
proof -
  assume a: "unat k \<le> 10" "1 \<le> unat k"
  have "k = word_of_nat (unat k)" by simp
  with a obtain n where n: "k = word_of_nat n" "1 \<le> n" "n \<le> 10" by blast
  then have "n \<in> set [1..<11]" by simp
  then show ?thesis unfolding n(1) by (auto simp: upt_rec)
qed

lemma command_valid_iff:
  "command_valid c h command_bytes p = (ok, p') \<Longrightarrow>
     ok = command_wf (unat command_bytes) (unat (ih_total_size h)) c \<and>
     (ok \<longrightarrow> p' = p OR permission_of (ic_kind c))"
proof (cases "1 \<le> unat (ic_kind c) \<and> unat (ic_kind c) \<le> 10 \<and> unat (ic_flags c) < 8 \<and> ic_reserved32 c = 0 \<and>
    payload_valid c h command_bytes")
  case False
  assume v: "command_valid c h command_bytes p = (ok, p')"
  have "ic_kind c < COMMAND_POINTER_MOVE \<or> ic_kind c > COMMAND_WAIT \<or> ic_flags c AND NOT command_flag_mask \<noteq> 0 \<or>
      ic_reserved32 c \<noteq> 0 \<or> \<not> payload_valid c h command_bytes"
    using False kind_range [of "ic_kind c"] below_mask [of "ic_flags c" 3] unfolding masks_as_bounds by auto
  then have "ok = False" using v by (simp add: command_valid_def Let_def)
  then show ?thesis using False unfolding payload_valid_iff by (auto simp: command_wf_def command_shape_def Let_def)
next
  case True
  assume v: "command_valid c h command_bytes p = (ok, p')"
  have guard: "\<not> (ic_kind c < COMMAND_POINTER_MOVE \<or> ic_kind c > COMMAND_WAIT \<or> ic_flags c AND NOT command_flag_mask \<noteq> 0 \<or>
      ic_reserved32 c \<noteq> 0 \<or> \<not> payload_valid c h command_bytes)"
    using True kind_range [of "ic_kind c"] below_mask [of "ic_flags c" 3] unfolding masks_as_bounds by auto
  have mods: "w AND NOT modifier_mask = 0 \<longleftrightarrow> unat w < 16" for w using below_mask [of w 4] unfolding masks_as_bounds by simp
  have pay: "payload_inside (unat command_bytes) (unat (ih_total_size h)) c" using True payload_valid_iff by blast
  note v' = v [unfolded command_valid_def Let_def if_not_P [OF guard] one_button_iff mods]
  have k: "ic_kind c \<in> {1, 2, 3, 4, 5, 6, 7, 8, 9, 10}" using True by (intro small_kinds) simp_all
  have sh: "command_wf (unat command_bytes) (unat (ih_total_size h)) c = command_shape c" using pay by (simp add: command_wf_def)
  have rng: "unat (ic_flags c) < 8" "ic_reserved32 c = 0" using True by simp_all
  show ?thesis
    using k
  proof (elim insertE emptyE)
    assume "ic_kind c = 1"
    then show ?thesis using v' rng sh by (simp add: command_shape_def permission_of_def odd_flags)
  next
    assume "ic_kind c = 2"
    then show ?thesis using v' rng sh by (simp add: command_shape_def permission_of_def)
  next
    assume "ic_kind c = 3"
    then show ?thesis using v' rng sh by (simp add: command_shape_def permission_of_def)
  next
    assume kind: "ic_kind c = 4"
    have "ok = ((ic_data0 c \<in> {BUTTON_LEFT, BUTTON_RIGHT, BUTTON_MIDDLE}) \<and> (ic_data1 c \<ge> 1 \<and> ic_data1 c \<le> 16) \<and> unat (ic_data2 c) < 16)"
      "p' = p OR PERMISSION_POINTER" using v' kind by simp_all
    then show ?thesis using rng kind sh unfolding click_range by (simp add: command_shape_def permission_of_def)
  next
    assume "ic_kind c = 5"
    then show ?thesis using v' rng sh by (simp add: command_shape_def permission_of_def)
  next
    assume "ic_kind c = 6"
    then show ?thesis using v' rng sh by (simp add: command_shape_def permission_of_def)
  next
    assume "ic_kind c = 7"
    then show ?thesis using v' rng sh by (simp add: command_shape_def permission_of_def)
  next
    assume "ic_kind c = 8"
    then show ?thesis using v' rng sh by (simp add: command_shape_def permission_of_def)
  next
    assume "ic_kind c = 9"
    then show ?thesis using v' rng sh by (simp add: command_shape_def permission_of_def)
  next
    assume "ic_kind c = 10"
    then show ?thesis using v' rng sh by (simp add: command_shape_def permission_of_def)
  qed
qed

lemma commands_valid_iff:
  "commands_valid h command_bytes cs p =
     (if list_all (command_wf (unat command_bytes) (unat (ih_total_size h))) cs
      then Some (foldl (\<lambda>p c. p OR permission_of (ic_kind c)) p cs) else None)"
proof (induction cs arbitrary: p)
  case Nil
  then show ?case by simp
next
  case (Cons c cs)
  obtain ok p' where v: "command_valid c h command_bytes p = (ok, p')" by fastforce
  show ?case using command_valid_iff [OF v] by (simp add: v Cons.IH)
qed

lemma or_covered: "((a OR b) AND r = a OR b) \<longleftrightarrow> (a AND r = a) \<and> (b AND r = (b :: u32))"
proof
  assume e: "(a OR b) AND r = a OR b"
  have "bit ((a OR b) AND r) n = bit (a OR b) n" for n using e by simp
  then have "\<forall>n < 32. (bit a n \<or> bit b n) \<longrightarrow> bit r n" by (auto simp: bit_simps)
  then show "(a AND r = a) \<and> (b AND r = b)" by (auto intro!: bit_word_eqI simp: bit_simps)
next
  assume "(a AND r = a) \<and> (b AND r = b)"
  then show "(a OR b) AND r = a OR b" by (simp add: bit.conj_disj_distrib2)
qed

lemma fold_covered:
  "(foldl (\<lambda>p c. p OR f c) p cs AND r = foldl (\<lambda>p c. p OR f c) p cs) \<longleftrightarrow>
     (p AND r = p) \<and> list_all (\<lambda>c. f c AND r = (f c :: u32)) cs"
  by (induction cs arbitrary: p) (auto simp: or_covered)

text \<open>
  A well-formed plan. Identifiers, epochs and the deadline are set; the command table follows the
  header; every command has its kind's shape, its payload inside the plan, and needs a permission
  the header asks for.
\<close>

definition plan_header_wf :: "input_plan_header \<Rightarrow> bool" where
  "plan_header_wf h \<longleftrightarrow>
     unat (ih_struct_size h) = plan_header_size \<and> ih_plan_version h = INPUT_PLAN_VERSION \<and>
     unat (ih_command_stride h) = command_size \<and> unat (ih_commands_offset h) = plan_header_size \<and>
     unat (ih_flags h) < 8 \<and> ih_required_permissions h \<noteq> 0 \<and> unat (ih_required_permissions h) < 32 \<and>
     unat (ih_expected_buttons h) < 8 \<and> ih_reserved32 h = 0 \<and> ih_reserved h = 0 \<and>
     0 \<notin> set [ih_plan_id h, ih_scene_epoch h, ih_frame_id h, ih_model_epoch h, ih_session_epoch h,
       ih_transform_epoch h, ih_topology_epoch h, ih_permission_epoch h, ih_source_id h, ih_deadline_ns h]"

definition plan_wf :: "plan_view \<Rightarrow> bool" where
  "plan_wf v \<longleftrightarrow> (let h = pn_header v; commands = pn_commands v;
       table = plan_header_size + length commands * command_size in
     plan_header_wf h \<and> commands \<noteq> [] \<and> length commands \<le> 129 \<and> unat (ih_command_count h) = length commands \<and>
     table \<le> pn_byte_size v \<and> pn_byte_size v = unat (ih_total_size h) \<and>
     list_all (\<lambda>c. command_wf table (pn_byte_size v) c \<and>
       permission_of (ic_kind c) AND ih_required_permissions h = permission_of (ic_kind c)) commands)"

lemma plan_header_valid_iff:
  "plan_header_valid h n \<longleftrightarrow> plan_header_wf h \<and> ih_command_count h \<noteq> 0 \<and> unat (ih_command_count h) \<le> 129 \<and>
     unat (ih_total_size h) \<le> n"
proof -
  have sizes: "ih_struct_size h = word_of_nat plan_header_size \<longleftrightarrow> unat (ih_struct_size h) = plan_header_size"
    "ih_command_stride h = word_of_nat command_size \<longleftrightarrow> unat (ih_command_stride h) = command_size"
    "ih_commands_offset h = word_of_nat plan_header_size \<longleftrightarrow> unat (ih_commands_offset h) = plan_header_size"
    by (auto simp: plan_header_size_def command_size_def word_unat_eq_iff)
  have masks: "(ih_flags h AND NOT plan_flag_mask = 0) = (unat (ih_flags h) < 8)"
    "(ih_required_permissions h AND NOT permission_mask = 0) = (unat (ih_required_permissions h) < 32)"
    "(ih_expected_buttons h AND NOT button_mask = 0) = (unat (ih_expected_buttons h) < 8)"
    using below_mask [of "ih_flags h" 3] below_mask [of "ih_required_permissions h" 5] below_mask [of "ih_expected_buttons h" 3]
    by (simp_all add: masks_as_bounds plan_flag_mask_def permission_mask_def mask_eq_exp_minus_1)
  have max: "ih_command_count h > input_plan_max_commands \<longleftrightarrow> \<not> unat (ih_command_count h) \<le> 129"
    by (simp add: input_plan_max_commands_def word_less_nat_alt not_le)
  show ?thesis unfolding plan_header_valid_def plan_header_wf_def sizes masks max
    by (simp only: de_Morgan_disj not_not list.set insert_iff empty_iff not_le not_less eq_commute [of 0] simp_thms) blast
qed

lemma length_get_table: "length (fst (get_table get n bs)) = n"
  by (induction n arbitrary: bs) (auto simp: case_prod_unfold Let_def)

lemma table_offset:
  assumes "unat (n :: u32) \<le> 129" "unat (stride :: u32) = command_size" "unat (off :: u64) = plan_header_size"
  shows "\<not> (ucast n * ucast stride > uint64_max - off)"
    "unat (off + ucast n * ucast stride) = plan_header_size + unat n * command_size"
proof -
  have s: "stride = 64" "off = 160" using assms(2,3) by (simp_all add: word_unat_eq_iff command_size_def plan_header_size_def)
  have m: "unat (ucast n * ucast stride :: u64) = unat n * 64" using assms(1) unfolding s by (simp add: unat_word_ariths)
  show "\<not> (ucast n * ucast stride > uint64_max - off)" using assms(1) m [unfolded s] unfolding s by (simp add: word_less_nat_alt)
  show "unat (off + ucast n * ucast stride) = plan_header_size + unat n * command_size"
    unfolding unat_word_ariths(1) m using assms(1) by (simp add: s plan_header_size_def command_size_def)
qed

text \<open>Validation decides well-formedness of the plan it reads.\<close>

lemma validate_plan_decides:
  assumes "plan_header_size \<le> length bytes" "get_plan_header bytes = (h, rest)"
    "get_commands (unat (ih_command_count h)) rest = (cs, body)"
  defines "v \<equiv> \<lparr>pn_header = h, pn_commands = cs, pn_byte_size = unat (ih_total_size h)\<rparr>"
  shows "validate_plan (Span bytes) True True =
    (if plan_wf v \<and> unat (ih_total_size h) \<le> length bytes then (SACCADE_OK, Some v) else (SACCADE_ERROR_INVALID_ARGUMENT, None))"
proof (cases "plan_header_valid h (length bytes)")
  case False
  have n: "length cs = unat (ih_command_count h)"
    using length_get_table [of get_command "unat (ih_command_count h)" rest] assms(3) by (simp add: get_commands_def)
  then have "\<not> (plan_wf v \<and> unat (ih_total_size h) \<le> length bytes)"
    using False by (auto simp: plan_header_valid_iff plan_wf_def v_def Let_def unat_eq_0)
  then show ?thesis using False assms(1,2) by (simp add: validate_plan_def not_less)
next
  case True
  have n: "length cs = unat (ih_command_count h)"
    using length_get_table [of get_command "unat (ih_command_count h)" rest] assms(3) by (simp add: get_commands_def)
  have hw: "plan_header_wf h" "ih_command_count h \<noteq> 0" "unat (ih_command_count h) \<le> 129" "unat (ih_total_size h) \<le> length bytes"
    using True unfolding plan_header_valid_iff by blast+
  have f: "unat (ih_command_stride h) = command_size" "unat (ih_commands_offset h) = plan_header_size"
    using hw(1) unfolding plan_header_wf_def by blast+
  note off = table_offset [OF hw(3) f]
  let ?cb = "ih_commands_offset h + ucast (ih_command_count h) * ucast (ih_command_stride h)"
  have ne: "cs \<noteq> []" using n hw(2) by (auto simp: unat_eq_0)
  have wf: "plan_wf v \<longleftrightarrow> unat ?cb \<le> unat (ih_total_size h) \<and> list_all (command_wf (unat ?cb) (unat (ih_total_size h))) cs \<and>
      list_all (\<lambda>c. permission_of (ic_kind c) AND ih_required_permissions h = permission_of (ic_kind c)) cs"
    unfolding off(2) plan_wf_def v_def Let_def using hw n ne by (auto simp: list_all_iff)
  have cb: "?cb > ih_total_size h \<longleftrightarrow> \<not> unat ?cb \<le> unat (ih_total_size h)" by (simp only: word_less_nat_alt not_le)
  have long: "\<not> length bytes < plan_header_size" using assms(1) by simp
  have "validate_plan (Span bytes) True True =
     (if ?cb > ih_total_size h then (SACCADE_ERROR_INVALID_ARGUMENT, None)
      else case commands_valid h ?cb cs 0 of
        None \<Rightarrow> (SACCADE_ERROR_INVALID_ARGUMENT, None)
      | Some used \<Rightarrow> if used AND ih_required_permissions h \<noteq> used then (SACCADE_ERROR_INVALID_ARGUMENT, None) else (SACCADE_OK, Some v))"
    using long True off(1) unfolding validate_plan_def v_def
    by (simp only: assms(2,3) Let_def span_u8.case prod.case fst_conv if_True if_False simp_thms)
  also have "\<dots> = (if plan_wf v then (SACCADE_OK, Some v) else (SACCADE_ERROR_INVALID_ARGUMENT, None))"
    unfolding cb commands_valid_iff wf
    using fold_covered [of "\<lambda>c. permission_of (ic_kind c)" 0 cs "ih_required_permissions h"] by simp
  finally show ?thesis using hw(4) by simp
qed

definition put_plan :: "plan_view \<Rightarrow> u8 list" where
  "put_plan v = put_plan_header (pn_header v) @ concat (map put_command (pn_commands v))"

lemma validate_plan_result:
  "validate_plan sp al out = (SACCADE_OK, Some v) \<Longrightarrow> al \<and> out \<and> (\<exists>bytes. sp = Span bytes \<and> plan_header_size \<le> length bytes)"
  by (auto simp: validate_plan_def not_less split: span_u8.splits if_splits)

lemma validate_plan_iff:
  "validate_plan (Span bytes) True True = (SACCADE_OK, Some v) \<longleftrightarrow>
     plan_wf v \<and> pn_byte_size v \<le> length bytes \<and> (\<exists>tail. bytes = put_plan v @ tail)"
proof
  assume ok: "validate_plan (Span bytes) True True = (SACCADE_OK, Some v)"
  then have long: "plan_header_size \<le> length bytes" using validate_plan_result by fastforce
  obtain h rest where h: "get_plan_header bytes = (h, rest)" by fastforce
  obtain cs body where g: "get_commands (unat (ih_command_count h)) rest = (cs, body)" by fastforce
  have v: "v = \<lparr>pn_header = h, pn_commands = cs, pn_byte_size = unat (ih_total_size h)\<rparr>"
    and wf: "plan_wf v" and le: "unat (ih_total_size h) \<le> length bytes"
    using ok unfolding validate_plan_decides [OF long h g] by (simp_all split: if_splits)
  have rest: "bytes = put_plan_header h @ rest"
    using put_get_plan_header [OF long] h by (metis append_take_drop_id fst_conv snd_conv)
  have "length bytes = plan_header_size + length rest" using arg_cong [OF rest, of length] by simp
  moreover have "plan_header_size + unat (ih_command_count h) * command_size \<le> length bytes"
    using wf le v unfolding plan_wf_def Let_def by simp
  ultimately have "unat (ih_command_count h) * command_size \<le> length rest" by simp
  from command_codec.put_get_table [OF this g [unfolded get_commands_def]]
  have "concat (map put_command cs) @ body = rest" by blast
  then have "bytes = put_plan v @ body" using rest by (simp add: put_plan_def v)
  then show "plan_wf v \<and> pn_byte_size v \<le> length bytes \<and> (\<exists>tail. bytes = put_plan v @ tail)"
    using wf le v by auto
next
  assume a: "plan_wf v \<and> pn_byte_size v \<le> length bytes \<and> (\<exists>tail. bytes = put_plan v @ tail)"
  then obtain tail where b: "bytes = put_plan_header (pn_header v) @ concat (map put_command (pn_commands v)) @ tail"
    by (auto simp: put_plan_def)
  have n: "unat (ih_command_count (pn_header v)) = length (pn_commands v)" "pn_byte_size v = unat (ih_total_size (pn_header v))"
    using a unfolding plan_wf_def Let_def by simp_all
  have long: "plan_header_size \<le> length bytes" unfolding b by simp
  have h: "get_plan_header bytes = (pn_header v, concat (map put_command (pn_commands v)) @ tail)" unfolding b by simp
  have g: "get_commands (unat (ih_command_count (pn_header v))) (concat (map put_command (pn_commands v)) @ tail) = (pn_commands v, tail)"
    unfolding n get_commands_def by (rule command_codec.get_put_table)
  have e: "\<lparr>pn_header = pn_header v, pn_commands = pn_commands v, pn_byte_size = unat (ih_total_size (pn_header v))\<rparr> = v"
    using n(2) by simp
  show "validate_plan (Span bytes) True True = (SACCADE_OK, Some v)"
    using validate_plan_decides [OF long h g, unfolded e] a n(2) by simp
qed

lemma read_plan_ok: "snd (validate_plan sp al out) = Some v \<longleftrightarrow> validate_plan sp al out = (SACCADE_OK, Some v)"
proof (cases "\<exists>bytes. sp = Span bytes \<and> plan_header_size \<le> length bytes \<and> al \<and> out")
  case False
  then have "validate_plan sp al out = (SACCADE_ERROR_INVALID_ARGUMENT, None)"
  proof (cases sp)
    case (Span bytes)
    then have c: "length bytes < plan_header_size \<or> \<not> al \<or> \<not> out" using False by auto
    then have "\<not> out \<or> out \<and> (length bytes < plan_header_size \<or> \<not> al)" by blast
    then show ?thesis unfolding validate_plan_def Span span_u8.case by (elim disjE conjE) (simp_all only: if_True if_False not_False_eq_True simp_thms)
  qed (simp add: validate_plan_def)
  then show ?thesis by simp
next
  case True
  then obtain bytes where s: "sp = Span bytes" "plan_header_size \<le> length bytes" "al" "out" by blast
  obtain h rest where h: "get_plan_header bytes = (h, rest)" by fastforce
  obtain cs body where g: "get_commands (unat (ih_command_count h)) rest = (cs, body)" by fastforce
  show ?thesis unfolding s(1) s(3,4) [THEN eqTrueI] validate_plan_decides [OF s(2) h g] by simp
qed

lemma read_plan_wf: "snd (validate_plan sp al out) = Some v \<Longrightarrow> plan_wf v"
proof -
  assume "snd (validate_plan sp al out) = Some v"
  then have ok: "validate_plan sp al out = (SACCADE_OK, Some v)" by (rule read_plan_ok [THEN iffD1])
  from validate_plan_result [OF ok] obtain bytes where "sp = Span bytes" and a: "al" "out" by blast
  with ok have "validate_plan (Span bytes) True True = (SACCADE_OK, Some v)" by (simp only: a [THEN eqTrueI])
  from validate_plan_iff [THEN iffD1, OF this] show "plan_wf v" by (rule conjunct1)
qed

subsection \<open>Property\<close>

text \<open>C8. The plan reader accepts a byte span with a view if and only if the plan is well formed
  (identifiers set, at most 129 commands, each of its kind's shape with its payload inside the plan
  and its permission requested) and the bytes start with the encoding of its header and commands and
  hold the whole plan.\<close>

theorem validate_plan_exact:
  "validate_plan (Span bytes) True True = (SACCADE_OK, Some v) \<longleftrightarrow>
     plan_wf v \<and> pn_byte_size v \<le> length bytes \<and> (\<exists>tail. bytes = put_plan v @ tail)"
  by (rule validate_plan_iff)

end
