(* ===== verification/Execution_Preflight.thy ===== *)
theory Execution_Preflight
  imports Input_Plan
begin

text \<open>
  The check before a plan is executed, \<open>src/input/execution_preflight.{hpp,cpp}\<close>: the plan must
  still match the scene, the focus and the permissions it was made for, and every target it
  addresses must be in the scene, actionable and safe. A default view (null pointers) is \<open>None\<close>.
\<close>

record execution_preflight_state =
  es_scene :: "packet_view option"
  es_focus_id :: u64
  es_window_id :: u64
  es_topology_epoch :: u64
  es_permission_epoch :: u64
  es_buttons :: u32
  es_input_available :: bool
  es_surface_secure :: bool
  es_target_window_available :: bool
  es_target_point_secure :: bool
  es_validate_active_window :: bool
  es_validate_initial_buttons :: bool

definition unsafe_target_flags :: u32 where
  "unsafe_target_flags = TARGET_DISABLED OR TARGET_OCCLUDED OR TARGET_SECURE"

definition find_target :: "packet_view \<Rightarrow> u64 \<Rightarrow> target_record option" where
  "find_target scene target_id = List.find (\<lambda>t. tr_target_id t = target_id) (pv_targets scene)"

definition scene_matches :: "input_plan_header \<Rightarrow> packet_header \<Rightarrow> bool" where
  "scene_matches plan scene \<longleftrightarrow>
     ih_scene_epoch plan = ph_scene_epoch scene \<and> ih_frame_id plan = ph_frame_id scene \<and>
     ih_model_epoch plan = ph_model_epoch scene \<and> ih_session_epoch plan = ph_session_epoch scene \<and>
     ih_transform_epoch plan = ph_transform_epoch scene \<and> ih_topology_epoch plan = ph_topology_epoch scene \<and>
     ih_source_id plan = ph_source_id scene"

fun targets_executable :: "packet_view \<Rightarrow> input_command list \<Rightarrow> bool" where
  "targets_executable scene [] \<longleftrightarrow> True"
| "targets_executable scene (c # cs) \<longleftrightarrow>
     (let target_id = ic_target_id c in
      if target_id = 0 then targets_executable scene cs
      else case find_target scene target_id of
        None \<Rightarrow> False
      | Some target \<Rightarrow>
          if tr_flags target AND TARGET_ACTIONABLE = 0 \<or> tr_flags target AND unsafe_target_flags \<noteq> 0 then False
          else targets_executable scene cs)"

definition validate_execution_preflight ::
  "plan_view option \<Rightarrow> execution_preflight_state \<Rightarrow> u64 \<Rightarrow> saccade_result" where
  "validate_execution_preflight plan state now_ns =
     (case (plan, es_scene state) of
        (Some p, Some scene) \<Rightarrow>
          let h = pn_header p in
          if now_ns = 0 then SACCADE_ERROR_INVALID_ARGUMENT
          else if now_ns \<ge> ih_deadline_ns h then SACCADE_ERROR_TIMEOUT
          else if \<not> es_input_available state \<or> es_surface_secure state \<or> es_target_point_secure state
          then SACCADE_ERROR_PERMISSION
          else if \<not> scene_matches h (pv_header scene) \<or> ih_focus_id h \<noteq> es_focus_id state \<or>
             (es_validate_active_window state \<and> ih_window_id h \<noteq> es_window_id state) \<or>
             ih_topology_epoch h \<noteq> es_topology_epoch state \<or>
             ih_permission_epoch h \<noteq> es_permission_epoch state \<or>
             (es_validate_initial_buttons state \<and> ih_expected_buttons h \<noteq> es_buttons state)
          then SACCADE_ERROR_STALE_HANDLE
          else if ih_window_id h \<noteq> 0 \<and> \<not> es_target_window_available state then SACCADE_ERROR_NOT_FOUND
          else if \<not> targets_executable scene (pn_commands p) then SACCADE_ERROR_NOT_FOUND
          else SACCADE_OK
      | _ \<Rightarrow> SACCADE_ERROR_INVALID_ARGUMENT)"

subsection \<open>What an accepted plan may do\<close>

text \<open>A target that can be acted on: enabled, visible, not secure, and with a capability.\<close>

definition usable_target :: "target_record \<Rightarrow> bool" where
  "usable_target t \<longleftrightarrow> valid_target t \<and> \<not> bit (tr_flags t) 1 \<and> \<not> bit (tr_flags t) 2 \<and> \<not> bit (tr_flags t) 3 \<and>
     tr_capability_bits t \<noteq> 0"

lemma usable_flags:
  assumes "valid_target t"
  shows "tr_flags t AND TARGET_ACTIONABLE \<noteq> 0 \<and> tr_flags t AND unsafe_target_flags = 0 \<longleftrightarrow> usable_target t"
proof -
  have u: "w AND unsafe_target_flags = 0 \<longleftrightarrow> \<not> bit w 1 \<and> \<not> bit w 2 \<and> \<not> bit w 3" for w :: u32
  proof -
    have e: "unsafe_target_flags = push_bit 1 (mask 3)" by (simp add: unsafe_target_flags_def mask_eq_exp_minus_1)
    have b: "bit unsafe_target_flags n \<longleftrightarrow> 1 \<le> n \<and> n < 4" for n
      unfolding e bit_push_bit_iff bit_mask_iff by auto
    have "w AND unsafe_target_flags = 0 \<longleftrightarrow> (\<forall>n < 32. \<not> (bit w n \<and> 1 \<le> n \<and> n < 4))"
      by (auto simp: bit_eq_iff bit_and_iff b)
    also have "\<dots> \<longleftrightarrow> \<not> bit w 1 \<and> \<not> bit w 2 \<and> \<not> bit w 3"
      by (auto simp: less_Suc_eq numeral_eq_Suc)
    finally show ?thesis .
  qed
  have "tr_flags t AND TARGET_ACTIONABLE \<noteq> 0 \<longleftrightarrow> tr_capability_bits t \<noteq> 0"
    using assms by (auto simp: valid_target_def Let_def split: if_splits)
  then show ?thesis using assms unfolding u usable_target_def by blast
qed

lemma targets_executable_iff:
  "list_all valid_target (pv_targets scene) \<Longrightarrow>
   targets_executable scene cs \<longleftrightarrow>
     list_all (\<lambda>c. ic_target_id c = 0 \<or> (case find_target scene (ic_target_id c) of None \<Rightarrow> False | Some t \<Rightarrow> usable_target t)) cs"
proof (induction cs)
  case Nil
  then show ?case by simp
next
  case (Cons c cs)
  have "find_target scene (ic_target_id c) = Some t \<Longrightarrow>
      (tr_flags t AND TARGET_ACTIONABLE = 0 \<or> tr_flags t AND unsafe_target_flags \<noteq> 0) = (\<not> usable_target t)" for t
    using usable_flags [of t] Cons.prems unfolding find_target_def by (auto simp: list_all_iff dest: find_Some_iff_hd)
  then show ?case using Cons by (auto simp: Let_def split: option.split)
qed

text \<open>The targets of a scene by identifier; of two with one identifier the first counts.\<close>

definition targets_by_id :: "packet_view \<Rightarrow> u64 \<Rightarrow> target_record option" where
  "targets_by_id scene = map_of (map (\<lambda>t. (tr_target_id t, t)) (pv_targets scene))"

lemma find_target_by_id: "find_target scene i = targets_by_id scene i"
proof -
  have "List.find (\<lambda>t. tr_target_id t = i) ts = map_of (map (\<lambda>t. (tr_target_id t, t)) ts) i" for ts
    by (induction ts) auto
  then show ?thesis by (simp add: find_target_def targets_by_id_def)
qed

lemma preflight_iff:
  assumes "snd (validate_packet s True True) = Some scene" "es_scene state = Some scene"
  shows "validate_execution_preflight (Some p) state now = SACCADE_OK \<longleftrightarrow>
      0 < now \<and> now < ih_deadline_ns (pn_header p) \<and>
      es_input_available state \<and> \<not> es_surface_secure state \<and> \<not> es_target_point_secure state \<and>
      scene_matches (pn_header p) (pv_header scene) \<and> ih_focus_id (pn_header p) = es_focus_id state \<and>
      (if es_validate_active_window state then ih_window_id (pn_header p) = es_window_id state else True) \<and>
      ih_topology_epoch (pn_header p) = es_topology_epoch state \<and>
      ih_permission_epoch (pn_header p) = es_permission_epoch state \<and>
      (if es_validate_initial_buttons state then ih_expected_buttons (pn_header p) = es_buttons state else True) \<and>
      (ih_window_id (pn_header p) = 0 \<or> es_target_window_available state) \<and>
      list_all (\<lambda>c. ic_target_id c = 0 \<or>
        (case targets_by_id scene (ic_target_id c) of None \<Rightarrow> False | Some t \<Rightarrow> usable_target t)) (pn_commands p)"
proof -
  have v: "list_all valid_target (pv_targets scene)" using assms(1) by (intro packet_wf_targets read_view_wf)
  show ?thesis
    unfolding validate_execution_preflight_def assms(2) prod.case option.case Let_def targets_executable_iff [OF v] find_target_by_id
    by (auto simp: not_le word_gt_0)
qed

lemma preflight_no_view:
  "p = None \<or> es_scene state = None \<Longrightarrow> validate_execution_preflight p state now = SACCADE_ERROR_INVALID_ARGUMENT"
  by (auto simp: validate_execution_preflight_def split: option.split)

subsection \<open>Property\<close>

text \<open>C3. For a plan and a scene as their readers deliver them, the check before execution says
  OK exactly when the deadline lies ahead, input may be injected, every epoch and identifier of the
  plan is the current one, and every target a command names is in the scene as a valid, actionable
  target that is not disabled, occluded or secure; without a plan or a scene it never says OK.\<close>

theorem execution_preflight_safe:
  "let plan = snd (validate_plan plan_bytes True True); scene = snd (validate_packet scene_bytes True True);
       r = validate_execution_preflight plan (state\<lparr>es_scene := scene\<rparr>) now in
   case (plan, scene) of
     (Some p, Some sc) \<Rightarrow> (r = SACCADE_OK) =
       (plan_wf p \<and> 0 < now \<and> now < ih_deadline_ns (pn_header p) \<and>
        es_input_available state \<and> \<not> es_surface_secure state \<and> \<not> es_target_point_secure state \<and>
        scene_matches (pn_header p) (pv_header sc) \<and> ih_focus_id (pn_header p) = es_focus_id state \<and>
        (if es_validate_active_window state then ih_window_id (pn_header p) = es_window_id state else True) \<and>
        ih_topology_epoch (pn_header p) = es_topology_epoch state \<and>
        ih_permission_epoch (pn_header p) = es_permission_epoch state \<and>
        (if es_validate_initial_buttons state then ih_expected_buttons (pn_header p) = es_buttons state else True) \<and>
        (ih_window_id (pn_header p) = 0 \<or> es_target_window_available state) \<and>
        list_all (\<lambda>c. ic_target_id c = 0 \<or>
          (case targets_by_id sc (ic_target_id c) of None \<Rightarrow> False | Some t \<Rightarrow> usable_target t)) (pn_commands p))
   | _ \<Rightarrow> r = SACCADE_ERROR_INVALID_ARGUMENT"
proof (cases "snd (validate_plan plan_bytes True True)")
  case None
  then show ?thesis by (simp add: preflight_no_view)
next
  case (Some p)
  note p = this
  show ?thesis
  proof (cases "snd (validate_packet scene_bytes True True)")
    case None
    then show ?thesis using p by (simp add: preflight_no_view)
  next
    case (Some sc)
    then show ?thesis
      using preflight_iff [OF Some, of "state\<lparr>es_scene := Some sc\<rparr>" p now] read_plan_wf [OF p]
      unfolding Let_def p Some prod.case option.case by simp
  qed
qed

end
