(* ===== verification/Physical_Reducer.thy ===== *)
theory Physical_Reducer
  imports Input_Plan
begin

text \<open>
  The physical input reducer, \<open>src/input/physical_reducer.{hpp,cpp}\<close>: it starts one plan at a
  time, follows which of its commands were injected, and knows which buttons and keys the program
  holds down, so that every way of giving up reports what has to be released.

  The array of held keys and its count are a list of at most 16 keys; the pointers to the active
  header and commands are set and cleared together and are one option.
\<close>

definition maximum_held_keys :: nat where "maximum_held_keys = 16"

record synthetic_release =
  sr_buttons :: u32
  sr_modifiers :: u32
  sr_held_keys :: "u32 list"

record physical_reducer_stats =
  ps_plans_started :: u64
  ps_commands_completed :: u64
  ps_plans_completed :: u64
  ps_aborts :: u64
  ps_physical_overrides :: u64
  ps_permission_losses :: u64
  ps_releases :: u64
  ps_backend_failures :: u64
  ps_timeouts :: u64

record physical_reducer =
  pr_active :: "plan_view option"
  pr_stats :: physical_reducer_stats
  pr_held_keys :: "u32 list"
  pr_permission_epoch :: u64
  pr_physical_sequence :: u64
  pr_active_lease_id :: u64
  pr_active_deadline_ns :: u64
  pr_pointer_x_q8 :: i32
  pr_pointer_y_q8 :: i32
  pr_buttons :: u32
  pr_modifiers :: u32
  pr_completed_commands :: u32
  pr_initialized :: bool
  pr_active_dry_run :: bool

definition fresh_reducer :: physical_reducer where
  "fresh_reducer = \<lparr>pr_active = None,
     pr_stats = \<lparr>ps_plans_started = 0, ps_commands_completed = 0, ps_plans_completed = 0, ps_aborts = 0,
       ps_physical_overrides = 0, ps_permission_losses = 0, ps_releases = 0, ps_backend_failures = 0, ps_timeouts = 0\<rparr>,
     pr_held_keys = [], pr_permission_epoch = 0, pr_physical_sequence = 0, pr_active_lease_id = 0,
     pr_active_deadline_ns = 0, pr_pointer_x_q8 = 0, pr_pointer_y_q8 = 0, pr_buttons = 0, pr_modifiers = 0,
     pr_completed_commands = 0, pr_initialized = False, pr_active_dry_run = False\<rparr>"

record physical_input_state =
  pi_pointer_x_q8 :: i32
  pi_pointer_y_q8 :: i32
  pi_buttons :: u32
  pi_modifiers :: u32
  pi_active_lease_id :: u64
  pi_permission_epoch :: u64
  pi_physical_sequence :: u64

subsection \<open>Held keys and buttons\<close>

definition add_key :: "u32 list \<Rightarrow> u32 \<Rightarrow> u32 list option" where
  "add_key keys key =
     (if key \<in> set keys then None
      else if length keys = maximum_held_keys then None
      else Some (keys @ [key]))"

text \<open>The removed key's place is taken by the last key.\<close>

definition remove_key :: "u32 list \<Rightarrow> u32 \<Rightarrow> u32 list option" where
  "remove_key keys key =
     (case first_index (\<lambda>k. k = key) keys of
        None \<Rightarrow> None
      | Some found \<Rightarrow> Some (butlast (keys[found := last keys])))"

definition apply_transition :: "input_command \<Rightarrow> u32 \<times> u32 list \<Rightarrow> (u32 \<times> u32 list) option" where
  "apply_transition c held = (case held of (buttons, keys) \<Rightarrow>
     if ic_kind c = COMMAND_BUTTON_DOWN then
       (if buttons AND ic_data0 c \<noteq> 0 then None else Some (buttons OR ic_data0 c, keys))
     else if ic_kind c = COMMAND_BUTTON_UP then
       (if buttons AND ic_data0 c = 0 then None else Some (buttons AND NOT (ic_data0 c), keys))
     else if ic_kind c = COMMAND_KEY_DOWN then map_option (Pair buttons) (add_key keys (ic_data0 c))
     else if ic_kind c = COMMAND_KEY_UP then map_option (Pair buttons) (remove_key keys (ic_data0 c))
     else Some (buttons, keys))"

fun apply_transitions :: "input_command list \<Rightarrow> u32 \<times> u32 list \<Rightarrow> (u32 \<times> u32 list) option" where
  "apply_transitions [] held = Some held"
| "apply_transitions (c # cs) held =
     (case apply_transition c held of None \<Rightarrow> None | Some held' \<Rightarrow> apply_transitions cs held')"

subsection \<open>Operations\<close>

definition reducer_initialize :: "physical_reducer \<Rightarrow> u64 \<Rightarrow> i32 \<Rightarrow> i32 \<Rightarrow> saccade_result \<times> physical_reducer" where
  "reducer_initialize s permission_epoch x y =
     (if pr_initialized s \<or> permission_epoch = 0 then (SACCADE_ERROR_INVALID_ARGUMENT, s)
      else (SACCADE_OK, s\<lparr>pr_permission_epoch := permission_epoch, pr_pointer_x_q8 := x, pr_pointer_y_q8 := y,
              pr_physical_sequence := 1, pr_initialized := True\<rparr>))"

definition reducer_preflight :: "physical_reducer \<Rightarrow> plan_view \<Rightarrow> bool" where
  "reducer_preflight s plan \<longleftrightarrow> apply_transitions (pn_commands plan) (pr_buttons s, pr_held_keys s) \<noteq> None"

definition reducer_begin :: "physical_reducer \<Rightarrow> plan_view option \<Rightarrow> u32 \<Rightarrow> u64 \<Rightarrow> saccade_result \<times> physical_reducer" where
  "reducer_begin s plan available_permissions now_ns =
     (case plan of
        None \<Rightarrow> (SACCADE_ERROR_STATE, s)
      | Some p \<Rightarrow>
          let h = pn_header p in
          if \<not> pr_initialized s \<or> pr_active s \<noteq> None then (SACCADE_ERROR_STATE, s)
          else if ih_permission_epoch h \<noteq> pr_permission_epoch s \<or> ih_expected_buttons h \<noteq> pr_buttons s \<or>
             now_ns \<ge> ih_deadline_ns h
          then (SACCADE_ERROR_STALE_HANDLE, s)
          else if available_permissions AND ih_required_permissions h \<noteq> ih_required_permissions h
          then (SACCADE_ERROR_UNSUPPORTED, s)
          else if \<not> reducer_preflight s p then (SACCADE_ERROR_STATE, s)
          else (SACCADE_OK, s\<lparr>pr_active := Some p, pr_active_deadline_ns := ih_deadline_ns h,
                  pr_active_dry_run := (ih_flags h AND PLAN_DRY_RUN \<noteq> 0), pr_completed_commands := 0,
                  pr_stats := (pr_stats s)\<lparr>ps_plans_started := ps_plans_started (pr_stats s) + 1\<rparr>\<rparr>))"

definition pointer_kinds :: "u32 list" where
  "pointer_kinds = [COMMAND_POINTER_MOVE, COMMAND_CLICK, COMMAND_SCROLL, COMMAND_BUTTON_DOWN, COMMAND_BUTTON_UP]"

definition reducer_apply :: "physical_reducer \<Rightarrow> input_command \<Rightarrow> bool \<times> physical_reducer" where
  "reducer_apply s c =
     (case apply_transition c (pr_buttons s, pr_held_keys s) of
        None \<Rightarrow> (False, s)
      | Some (buttons, keys) \<Rightarrow>
          let s = s\<lparr>pr_buttons := buttons, pr_held_keys := keys\<rparr> in
          (True, if ic_flags c AND COMMAND_ABSOLUTE \<noteq> 0 \<and> ic_kind c \<in> set pointer_kinds
                 then s\<lparr>pr_pointer_x_q8 := ic_x_q8 c, pr_pointer_y_q8 := ic_y_q8 c\<rparr> else s))"

text \<open>The loop of \<open>advance\<close>; its argument is the number of commands still to complete.\<close>

fun advance_commands :: "nat \<Rightarrow> input_command list \<Rightarrow> physical_reducer \<Rightarrow> bool \<times> physical_reducer" where
  "advance_commands 0 commands s = (True, s)"
| "advance_commands (Suc n) commands s =
     (let (ok, s) = (if pr_active_dry_run s then (True, s)
                     else reducer_apply s (commands ! unat (pr_completed_commands s))) in
      if \<not> ok then (False, s)
      else advance_commands n commands (s\<lparr>pr_completed_commands := pr_completed_commands s + 1,
             pr_stats := (pr_stats s)\<lparr>ps_commands_completed := ps_commands_completed (pr_stats s) + 1\<rparr>\<rparr>))"

definition complete_plan :: "physical_reducer \<Rightarrow> plan_view \<Rightarrow> physical_reducer" where
  "complete_plan s p =
     (let lease = (if pr_buttons s \<noteq> 0 \<or> pr_held_keys s \<noteq> [] then ih_plan_id (pn_header p) else 0) in
      s\<lparr>pr_active := None, pr_completed_commands := 0, pr_active_lease_id := lease,
        pr_active_deadline_ns := (if lease = 0 then 0 else pr_active_deadline_ns s), pr_active_dry_run := False,
        pr_stats := (pr_stats s)\<lparr>ps_plans_completed := ps_plans_completed (pr_stats s) + 1\<rparr>\<rparr>)"

definition reducer_advance :: "physical_reducer \<Rightarrow> u32 \<Rightarrow> saccade_result \<times> physical_reducer" where
  "reducer_advance s completed =
     (case pr_active s of
        None \<Rightarrow> (SACCADE_ERROR_INVALID_ARGUMENT, s)
      | Some p \<Rightarrow>
          if \<not> pr_initialized s \<or> completed < pr_completed_commands s \<or> completed > ih_command_count (pn_header p)
          then (SACCADE_ERROR_INVALID_ARGUMENT, s)
          else case advance_commands (unat completed - unat (pr_completed_commands s)) (pn_commands p) s of
            (False, s) \<Rightarrow> (SACCADE_ERROR_STATE, s)
          | (True, s) \<Rightarrow> (SACCADE_OK,
              if pr_completed_commands s = ih_command_count (pn_header p) then complete_plan s p else s))"

text \<open>A release output that no operation has filled in.\<close>

definition no_release :: synthetic_release where
  "no_release = \<lparr>sr_buttons = 0, sr_modifiers = 0, sr_held_keys = []\<rparr>"

definition collect_release :: "physical_reducer \<Rightarrow> synthetic_release \<times> physical_reducer" where
  "collect_release s =
     (\<lparr>sr_buttons = pr_buttons s, sr_modifiers = pr_modifiers s, sr_held_keys = pr_held_keys s\<rparr>,
      s\<lparr>pr_stats := (if pr_buttons s \<noteq> 0 \<or> pr_modifiers s \<noteq> 0 \<or> pr_held_keys s \<noteq> []
                     then (pr_stats s)\<lparr>ps_releases := ps_releases (pr_stats s) + 1\<rparr> else pr_stats s),
        pr_buttons := 0, pr_modifiers := 0, pr_held_keys := [], pr_active_lease_id := 0,
        pr_active_deadline_ns := 0, pr_active := None, pr_completed_commands := 0, pr_active_dry_run := False\<rparr>)"

text \<open>Results: the code, the release written to the output (\<open>None\<close> when it is untouched), the state.\<close>

type_synonym release_result = "saccade_result \<times> synthetic_release option \<times> physical_reducer"

definition reducer_abort :: "physical_reducer \<Rightarrow> bool \<Rightarrow> release_result" where
  "reducer_abort s output =
     (if \<not> pr_initialized s \<or> \<not> output then (SACCADE_ERROR_INVALID_ARGUMENT, None, s)
      else let (r, s) = collect_release s in
        (SACCADE_OK, Some r, s\<lparr>pr_stats := (pr_stats s)\<lparr>ps_aborts := ps_aborts (pr_stats s) + 1\<rparr>\<rparr>))"

definition reducer_backend_failure :: "physical_reducer \<Rightarrow> bool \<Rightarrow> release_result" where
  "reducer_backend_failure s output =
     (if \<not> pr_initialized s \<or> \<not> output then (SACCADE_ERROR_INVALID_ARGUMENT, None, s)
      else let (r, s) = collect_release s in
        (SACCADE_OK, Some r, s\<lparr>pr_stats := (pr_stats s)\<lparr>ps_backend_failures := ps_backend_failures (pr_stats s) + 1\<rparr>\<rparr>))"

definition reducer_expire :: "physical_reducer \<Rightarrow> u64 \<Rightarrow> bool \<Rightarrow> release_result" where
  "reducer_expire s now_ns output =
     (if \<not> pr_initialized s \<or> \<not> output then (SACCADE_ERROR_INVALID_ARGUMENT, None, s)
      else if pr_active_deadline_ns s = 0 \<or> now_ns < pr_active_deadline_ns s
      then (SACCADE_ERROR_NOT_FOUND, Some no_release, s)
      else let (r, s) = collect_release s in
        (SACCADE_OK, Some r, s\<lparr>pr_stats := (pr_stats s)\<lparr>ps_timeouts := ps_timeouts (pr_stats s) + 1\<rparr>\<rparr>))"

definition reducer_physical_override :: "physical_reducer \<Rightarrow> i32 \<Rightarrow> i32 \<Rightarrow> bool \<Rightarrow> release_result" where
  "reducer_physical_override s x y output =
     (if \<not> pr_initialized s \<or> \<not> output then (SACCADE_ERROR_INVALID_ARGUMENT, None, s)
      else let (r, s) = collect_release s in
        (SACCADE_OK, Some r, s\<lparr>pr_pointer_x_q8 := x, pr_pointer_y_q8 := y,
           pr_physical_sequence := pr_physical_sequence s + 1,
           pr_stats := (pr_stats s)\<lparr>ps_physical_overrides := ps_physical_overrides (pr_stats s) + 1\<rparr>\<rparr>))"

definition reducer_permission_lost :: "physical_reducer \<Rightarrow> u64 \<Rightarrow> bool \<Rightarrow> release_result" where
  "reducer_permission_lost s new_permission_epoch output =
     (if \<not> pr_initialized s \<or> \<not> output \<or> new_permission_epoch = 0 \<or> new_permission_epoch = pr_permission_epoch s
      then (SACCADE_ERROR_INVALID_ARGUMENT, None, s)
      else let (r, s) = collect_release s in
        (SACCADE_OK, Some r, s\<lparr>pr_permission_epoch := new_permission_epoch,
           pr_stats := (pr_stats s)\<lparr>ps_permission_losses := ps_permission_losses (pr_stats s) + 1\<rparr>\<rparr>))"

definition reducer_shutdown :: "physical_reducer \<Rightarrow> bool \<Rightarrow> release_result" where
  "reducer_shutdown s output =
     (if \<not> pr_initialized s \<or> \<not> output then (SACCADE_ERROR_INVALID_ARGUMENT, None, s)
      else let (r, s) = collect_release s in
        (SACCADE_OK, Some r, s\<lparr>pr_initialized := False, pr_permission_epoch := 0\<rparr>))"

definition reducer_state :: "physical_reducer \<Rightarrow> physical_input_state" where
  "reducer_state s = \<lparr>pi_pointer_x_q8 = pr_pointer_x_q8 s, pi_pointer_y_q8 = pr_pointer_y_q8 s,
     pi_buttons = pr_buttons s, pi_modifiers = pr_modifiers s, pi_active_lease_id = pr_active_lease_id s,
     pi_permission_epoch = pr_permission_epoch s, pi_physical_sequence = pr_physical_sequence s\<rparr>"

lemmas release_op_defs = reducer_abort_def reducer_backend_failure_def reducer_expire_def
  reducer_physical_override_def reducer_permission_lost_def reducer_shutdown_def

subsection \<open>The component\<close>

text \<open>Plans reach \<open>begin\<close> through the plan reader.\<close>

datatype reducer_op =
    Reducer_initialize u64 i32 i32
  | Reducer_begin span_u8 u32 u64
  | Reducer_advance u32
  | Reducer_abort bool
  | Reducer_backend_failure bool
  | Reducer_expire u64 bool
  | Reducer_physical_override i32 i32 bool
  | Reducer_permission_lost u64 bool
  | Reducer_shutdown bool

primrec reducer_step :: "physical_reducer \<Rightarrow> reducer_op \<Rightarrow> physical_reducer" where
  "reducer_step s (Reducer_initialize e x y) = snd (reducer_initialize s e x y)"
| "reducer_step s (Reducer_begin bytes available now) =
     snd (reducer_begin s (snd (validate_plan bytes True True)) available now)"
| "reducer_step s (Reducer_advance n) = snd (reducer_advance s n)"
| "reducer_step s (Reducer_abort out) = snd (snd (reducer_abort s out))"
| "reducer_step s (Reducer_backend_failure out) = snd (snd (reducer_backend_failure s out))"
| "reducer_step s (Reducer_expire now out) = snd (snd (reducer_expire s now out))"
| "reducer_step s (Reducer_physical_override x y out) = snd (snd (reducer_physical_override s x y out))"
| "reducer_step s (Reducer_permission_lost e out) = snd (snd (reducer_permission_lost s e out))"
| "reducer_step s (Reducer_shutdown out) = snd (snd (reducer_shutdown s out))"

text \<open>
  The typing of what is held, and the invariant: nothing is held before initialization; an active
  plan is well formed, has commands left, and unless it is a dry run its remaining transitions
  succeed; with no active plan a lease and a deadline are set exactly while something is held.
\<close>

definition held_ok :: "u32 \<times> u32 list \<Rightarrow> bool" where
  "held_ok held \<longleftrightarrow> unat (fst held) < 8 \<and> distinct (snd held) \<and> length (snd held) \<le> 16 \<and> 0 \<notin> set (snd held)"

definition reducer_inv :: "physical_reducer \<Rightarrow> bool" where
  "reducer_inv s \<longleftrightarrow> (let held = (pr_buttons s, pr_held_keys s) in
     held_ok held \<and> pr_modifiers s = 0 \<and>
     (\<not> pr_initialized s \<longrightarrow> pr_active s = None \<and> held = (0, []) \<and> pr_permission_epoch s = 0) \<and>
     (pr_initialized s \<longrightarrow> pr_permission_epoch s \<noteq> 0) \<and>
     (case pr_active s of
        None \<Rightarrow> pr_completed_commands s = 0 \<and> \<not> pr_active_dry_run s \<and>
          (pr_active_lease_id s \<noteq> 0 \<longleftrightarrow> held \<noteq> (0, [])) \<and> (pr_active_deadline_ns s \<noteq> 0 \<longleftrightarrow> held \<noteq> (0, []))
      | Some p \<Rightarrow> plan_wf p \<and> unat (pr_completed_commands s) < length (pn_commands p) \<and>
          pr_active_deadline_ns s = ih_deadline_ns (pn_header p) \<and>
          (\<not> pr_active_dry_run s \<longrightarrow> apply_transitions (drop (unat (pr_completed_commands s)) (pn_commands p)) held \<noteq> None)))"

subsection \<open>Held state\<close>

lemma remove_swap_mset:
  assumes "i < length ks"
  shows "mset (butlast (ks[i := last ks])) = mset ks - {#ks ! i#}"
proof -
  obtain ys y where ks: "ks = ys @ [y]" using assms by (cases ks rule: rev_cases) auto
  show ?thesis
  proof (cases "i < length ys")
    case True
    then show ?thesis using ks by (simp add: butlast_append list_update_append nth_append mset_update)
  next
    case False
    then have "i = length ys" using assms ks by simp
    then show ?thesis using ks by simp
  qed
qed

lemma remove_key_spec:
  "remove_key keys key = None \<longleftrightarrow> key \<notin> set keys"
  "remove_key keys key = Some keys' \<Longrightarrow> key \<in> set keys \<and> mset keys' = mset keys - {#key#}"
proof -
  show "remove_key keys key = None \<longleftrightarrow> key \<notin> set keys"
    using first_index_None [of "\<lambda>k. k = key" keys] by (auto simp: remove_key_def split: option.split)
  assume "remove_key keys key = Some keys'"
  then obtain i where i: "first_index (\<lambda>k. k = key) keys = Some i" "keys' = butlast (keys[i := last keys])"
    by (auto simp: remove_key_def split: option.splits)
  then show "key \<in> set keys \<and> mset keys' = mset keys - {#key#}"
    using first_index_Some [OF i(1)] remove_swap_mset [of i keys] by auto
qed

lemma remove_key_distinct:
  assumes "remove_key keys key = Some keys'" "distinct keys"
  shows "distinct keys' \<and> set keys' = set keys - {key} \<and> length keys' = length keys - 1"
proof -
  from remove_key_spec(2) [OF assms(1)] have r: "key \<in> set keys" "mset keys' = mset keys - {#key#}" by blast+
  then have m: "mset (key # keys') = mset keys" by simp
  then have d: "distinct (key # keys')" and s: "set (key # keys') = set keys" and l: "length (key # keys') = length keys"
    using assms(2) mset_eq_imp_distinct_iff mset_eq_setD mset_eq_length by blast+
  then show ?thesis by auto
qed

lemma small_OR: "unat (a :: u32) < 8 \<Longrightarrow> unat b < 8 \<Longrightarrow> unat (a OR b) < 8"
  using below_mask [of a 3] below_mask [of b 3] below_mask [of "a OR b" 3]
  by (simp add: bit.conj_disj_distrib2)

lemma small_AND: "unat (a :: u32) < 8 \<Longrightarrow> unat (a AND b) < 8"
proof -
  assume "unat a < 8"
  then have "a AND NOT (mask 3) = 0" using below_mask [of a 3] by simp
  then have "(a AND b) AND NOT (mask 3) = 0" by (metis and.assoc and.commute and_zero_eq)
  then show ?thesis using below_mask [of "a AND b" 3] by simp
qed

lemma shape_button: "command_shape c \<Longrightarrow> ic_kind c \<in> {COMMAND_BUTTON_DOWN, COMMAND_BUTTON_UP} \<Longrightarrow> unat (ic_data0 c) < 8"
proof -
  assume "command_shape c" "ic_kind c \<in> {COMMAND_BUTTON_DOWN, COMMAND_BUTTON_UP}"
  then have "ic_data0 c \<in> {BUTTON_LEFT, BUTTON_RIGHT, BUTTON_MIDDLE}" unfolding command_shape_def Let_def by blast
  then show ?thesis by auto
qed

lemma shape_key: "command_shape c \<Longrightarrow> ic_kind c \<in> {COMMAND_KEY_DOWN, COMMAND_KEY_UP} \<Longrightarrow> ic_data0 c \<noteq> 0"
  unfolding command_shape_def Let_def by blast

lemma held_ok_transition:
  assumes "command_shape c" "held_ok held" "apply_transition c held = Some held'"
  shows "held_ok held'"
proof -
  obtain buttons keys where h: "held = (buttons, keys)" by fastforce
  have ok: "unat buttons < 8" "distinct keys" "length keys \<le> 16" "0 \<notin> set keys" using assms(2) h by (simp_all add: held_ok_def)
  consider "ic_kind c = 2 \<or> ic_kind c = 3" | "ic_kind c = 6" | "ic_kind c = 7" | "ic_kind c \<notin> {2, 3, 6, 7}" by auto
  then show ?thesis
  proof cases
    case 1
    then have "unat (ic_data0 c) < 8" using shape_button [OF assms(1)] by blast
    then have "unat (buttons OR ic_data0 c) < 8" "unat (buttons AND NOT (ic_data0 c)) < 8"
      using small_OR [OF ok(1)] small_AND [OF ok(1)] by simp_all
    moreover have "held' = (buttons OR ic_data0 c, keys) \<or> held' = (buttons AND NOT (ic_data0 c), keys)"
      using 1 assms(3) unfolding h apply_transition_def by (auto split: if_splits)
    ultimately show ?thesis using ok unfolding held_ok_def by auto
  next
    case 2
    then have "ic_data0 c \<noteq> 0" using shape_key [OF assms(1)] by blast
    moreover have "held' = (buttons, keys @ [ic_data0 c]) \<and> ic_data0 c \<notin> set keys \<and> length keys \<noteq> 16"
      using 2 assms(3) unfolding h apply_transition_def add_key_def maximum_held_keys_def by (simp split: if_splits)
    ultimately show ?thesis using ok unfolding held_ok_def by auto
  next
    case 3
    then obtain keys' where r: "remove_key keys (ic_data0 c) = Some keys'" "held' = (buttons, keys')"
      using assms(3) h by (auto simp: apply_transition_def)
    then show ?thesis using remove_key_distinct [OF r(1) ok(2)] ok by (auto simp: held_ok_def)
  next
    case 4
    then show ?thesis using assms(2,3) h by (simp add: apply_transition_def)
  qed
qed

lemma held_ok_transitions:
  "list_all command_shape cs \<Longrightarrow> held_ok held \<Longrightarrow> apply_transitions cs held = Some held' \<Longrightarrow> held_ok held'"
  by (induction cs arbitrary: held) (auto split: option.splits dest: held_ok_transition)

lemma apply_transitions_append:
  "apply_transitions (xs @ ys) held =
     (case apply_transitions xs held of None \<Rightarrow> None | Some held' \<Rightarrow> apply_transitions ys held')"
  by (induction xs arbitrary: held) (auto split: option.split)

subsection \<open>Advancing\<close>

abbreviation held_of :: "physical_reducer \<Rightarrow> u32 \<times> u32 list" where
  "held_of s \<equiv> (pr_buttons s, pr_held_keys s)"

text \<open>What advancing leaves alone.\<close>

definition reducer_frame :: "physical_reducer \<Rightarrow> plan_view option \<times> bool \<times> bool \<times> u64 \<times> u64 \<times> u64 \<times> u32 \<times> u64" where
  "reducer_frame s = (pr_active s, pr_initialized s, pr_active_dry_run s, pr_active_deadline_ns s, pr_active_lease_id s,
     pr_permission_epoch s, pr_modifiers s, pr_physical_sequence s)"

lemma advance_commands_run:
  assumes "unat (pr_completed_commands s) + n \<le> length commands" "length commands \<le> 129"
    and "\<not> pr_active_dry_run s \<Longrightarrow> apply_transitions (drop (unat (pr_completed_commands s)) commands) (held_of s) \<noteq> None"
  shows "case advance_commands n commands s of (ok, s') \<Rightarrow>
    ok \<and> unat (pr_completed_commands s') = unat (pr_completed_commands s) + n \<and> reducer_frame s' = reducer_frame s \<and>
    (if pr_active_dry_run s then held_of s' = held_of s
     else apply_transitions (take n (drop (unat (pr_completed_commands s)) commands)) (held_of s) = Some (held_of s'))"
  using assms
proof (induction n arbitrary: s)
  case 0
  then show ?case by simp
next
  case (Suc n)
  let ?k = "unat (pr_completed_commands s)"
  let ?c = "commands ! ?k"
  have k: "?k < length commands" using Suc.prems(1) by simp
  have d: "drop ?k commands = ?c # drop (Suc ?k) commands" using k by (simp add: Cons_nth_drop_Suc)
  have inc: "unat (pr_completed_commands s + 1) = Suc ?k" using k Suc.prems(2) unfolding unat_Suc_word by simp
  let ?bump = "\<lambda>s. s\<lparr>pr_completed_commands := pr_completed_commands s + 1,
       pr_stats := (pr_stats s)\<lparr>ps_commands_completed := ps_commands_completed (pr_stats s) + 1\<rparr>\<rparr>"
  show ?case
  proof (cases "pr_active_dry_run s")
    case True
    have e: "advance_commands (Suc n) commands s = advance_commands n commands (?bump s)" using True by simp
    show ?thesis unfolding e using Suc.IH [of "?bump s"] Suc.prems True inc
      by (simp add: reducer_frame_def split: prod.splits)
  next
    case False
    then obtain held where t: "apply_transition ?c (held_of s) = Some held"
      "apply_transitions (drop (Suc ?k) commands) held \<noteq> None"
      using Suc.prems(3) unfolding d by (auto split: option.splits)
    obtain buttons keys where h: "held = (buttons, keys)" by fastforce
    obtain s1 where a: "reducer_apply s ?c = (True, s1)" "held_of s1 = held" "reducer_frame s1 = reducer_frame s"
      "pr_completed_commands s1 = pr_completed_commands s"
      using t(1) unfolding h by (simp add: reducer_apply_def reducer_frame_def Let_def)
    have e: "advance_commands (Suc n) commands s = advance_commands n commands (?bump s1)" using False a by simp
    have dry: "\<not> pr_active_dry_run s1" using a(3) False by (simp add: reducer_frame_def)
    have h1: "pr_buttons s1 = buttons" "pr_held_keys s1 = keys" using a(2) h by auto
    have tk: "take (Suc n) (drop ?k commands) = ?c # take n (drop (Suc ?k) commands)" unfolding d by simp
    show ?thesis unfolding e tk
      using Suc.IH [of "?bump s1"] Suc.prems(1,2) False a(3,4) dry inc t unfolding h
      by (simp add: reducer_frame_def h1 split: prod.splits)
  qed
qed

text \<open>The effect of one command on the held buttons, the set of held keys and the pointer, and what
  completing commands one after the other leaves of it.\<close>

type_synonym input_view = "u32 \<times> u32 set \<times> i32 \<times> i32"

definition command_effect :: "input_view \<Rightarrow> input_command \<Rightarrow> input_view" where
  "command_effect v c = (case v of (buttons, keys, x, y) \<Rightarrow>
     (if ic_kind c = COMMAND_BUTTON_DOWN then buttons OR ic_data0 c
      else if ic_kind c = COMMAND_BUTTON_UP then buttons AND NOT (ic_data0 c) else buttons,
      if ic_kind c = COMMAND_KEY_DOWN then insert (ic_data0 c) keys
      else if ic_kind c = COMMAND_KEY_UP then keys - {ic_data0 c} else keys,
      if ic_flags c AND COMMAND_ABSOLUTE \<noteq> 0 \<and>
         (ic_kind c = COMMAND_POINTER_MOVE \<or> ic_kind c = COMMAND_CLICK \<or> ic_kind c = COMMAND_SCROLL \<or>
          ic_kind c = COMMAND_BUTTON_DOWN \<or> ic_kind c = COMMAND_BUTTON_UP)
      then (ic_x_q8 c, ic_y_q8 c) else (x, y)))"

abbreviation input_view :: "physical_reducer \<Rightarrow> input_view" where
  "input_view s \<equiv> (pr_buttons s, set (pr_held_keys s), pr_pointer_x_q8 s, pr_pointer_y_q8 s)"

lemma reducer_apply_effect:
  assumes "distinct (pr_held_keys s)" "reducer_apply s c = (True, s')"
  shows "input_view s' = command_effect (input_view s) c"
proof -
  obtain buttons keys where t: "apply_transition c (held_of s) = Some (buttons, keys)"
    using assms(2) by (auto simp: reducer_apply_def split: option.splits)
  have "buttons = (if ic_kind c = 2 then pr_buttons s OR ic_data0 c
      else if ic_kind c = 3 then pr_buttons s AND NOT (ic_data0 c) else pr_buttons s)"
    using t by (auto simp: apply_transition_def split: if_splits)
  moreover have "set keys = (if ic_kind c = 6 then insert (ic_data0 c) (set (pr_held_keys s))
      else if ic_kind c = 7 then set (pr_held_keys s) - {ic_data0 c} else set (pr_held_keys s))"
    using t remove_key_distinct [OF _ assms(1)] by (auto simp: apply_transition_def add_key_def split: if_splits)
  ultimately show ?thesis using assms(2) t
    by (auto simp: reducer_apply_def command_effect_def pointer_kinds_def Let_def)
qed

lemma advance_commands_effect:
  assumes "held_ok (held_of s)" "list_all command_shape commands"
    "unat (pr_completed_commands s) + n \<le> length commands" "length commands \<le> 129" "advance_commands n commands s = (True, s')"
  shows "input_view s' = (if pr_active_dry_run s then input_view s
    else foldl command_effect (input_view s) (take n (drop (unat (pr_completed_commands s)) commands)))"
  using assms
proof (induction n arbitrary: s)
  case 0
  then show ?case by simp
next
  case (Suc n)
  let ?k = "unat (pr_completed_commands s)"
  let ?c = "commands ! ?k"
  have k: "?k < length commands" using Suc.prems(3) by simp
  have d: "drop ?k commands = ?c # drop (Suc ?k) commands" using k by (simp add: Cons_nth_drop_Suc)
  have inc: "unat (pr_completed_commands s + 1) = Suc ?k" using k Suc.prems(4) unfolding unat_Suc_word by simp
  let ?bump = "\<lambda>s. s\<lparr>pr_completed_commands := pr_completed_commands s + 1,
       pr_stats := (pr_stats s)\<lparr>ps_commands_completed := ps_commands_completed (pr_stats s) + 1\<rparr>\<rparr>"
  show ?case
  proof (cases "pr_active_dry_run s")
    case True
    then have e: "advance_commands n commands (?bump s) = (True, s')" using Suc.prems(5) by simp
    show ?thesis using Suc.IH [OF _ Suc.prems(2) _ Suc.prems(4) e] Suc.prems(1,3) True inc by simp
  next
    case False
    then obtain s1 where a: "reducer_apply s ?c = (True, s1)" and e: "advance_commands n commands (?bump s1) = (True, s')"
      using Suc.prems(5) by (auto split: prod.splits if_splits)
    have f: "pr_completed_commands s1 = pr_completed_commands s" "\<not> pr_active_dry_run s1"
      "apply_transition ?c (held_of s) = Some (held_of s1)"
      using a False by (auto simp: reducer_apply_def Let_def split: option.splits if_splits)
    have "command_shape ?c" using Suc.prems(2) k by (simp add: list_all_length)
    then have ok: "held_ok (held_of s1)" using held_ok_transition Suc.prems(1) f(3) by blast
    have v: "input_view s1 = command_effect (input_view s) ?c"
      using reducer_apply_effect [OF _ a] Suc.prems(1) by (simp add: held_ok_def)
    have tk: "take (Suc n) (drop ?k commands) = ?c # take n (drop (Suc ?k) commands)" unfolding d by simp
    show ?thesis unfolding tk foldl.simps v [symmetric]
      using Suc.IH [OF _ Suc.prems(2) _ Suc.prems(4) e] Suc.prems(3) f False ok inc by simp
  qed
qed

lemma plan_wf_facts:
  assumes "plan_wf p"
  shows "list_all command_shape (pn_commands p)" "length (pn_commands p) \<le> 129" "pn_commands p \<noteq> []"
    "unat (ih_command_count (pn_header p)) = length (pn_commands p)"
    "ih_deadline_ns (pn_header p) \<noteq> 0" "ih_plan_id (pn_header p) \<noteq> 0"
  using assms by (auto simp: plan_wf_def Let_def plan_header_wf_def list_all_iff command_wf_def)

lemma list_all_part: "list_all P xs \<Longrightarrow> list_all P (take n (drop k xs))"
  by (auto simp: list_all_iff dest: in_set_takeD in_set_dropD)

lemma complete_plan_inv:
  assumes "reducer_inv s" "pr_active s = Some p" "held_ok (held_of s')" "reducer_frame s' = reducer_frame s"
  shows "reducer_inv (complete_plan s' p)"
proof -
  have p: "plan_wf p" using assms(1,2) by (simp add: reducer_inv_def Let_def)
  have f: "pr_initialized s' = pr_initialized s" "pr_modifiers s' = pr_modifiers s" "pr_permission_epoch s' = pr_permission_epoch s"
    "pr_active_deadline_ns s' = pr_active_deadline_ns s" using assms(4) by (simp_all add: reducer_frame_def)
  have i: "pr_initialized s" "pr_permission_epoch s \<noteq> 0" "pr_modifiers s = 0" "pr_active_deadline_ns s \<noteq> 0"
    using assms(1,2) plan_wf_facts(5) [OF p] by (auto simp: reducer_inv_def Let_def)
  show ?thesis using assms(3) f i plan_wf_facts(6) [OF p] by (auto simp: reducer_inv_def complete_plan_def Let_def)
qed

text \<open>Advancing an active plan within its commands always succeeds.\<close>

lemma advance_ok:
  assumes inv: "reducer_inv s" and p: "pr_active s = Some p"
    and range: "pr_completed_commands s \<le> n" "n \<le> ih_command_count (pn_header p)"
  shows "\<exists>s'. reducer_advance s n = (SACCADE_OK, s') \<and> reducer_inv s' \<and>
    pr_active s' = (if n = ih_command_count (pn_header p) then None else Some p) \<and>
    pr_completed_commands s' = (if n = ih_command_count (pn_header p) then 0 else n) \<and>
    (if pr_active_dry_run s then Some (held_of s)
     else apply_transitions (take (unat n - unat (pr_completed_commands s)) (drop (unat (pr_completed_commands s)) (pn_commands p)))
       (held_of s)) = Some (held_of s') \<and>
    input_view s' = (if pr_active_dry_run s then input_view s
      else foldl command_effect (input_view s)
        (take (unat n - unat (pr_completed_commands s)) (drop (unat (pr_completed_commands s)) (pn_commands p)))) \<and>
    (if n = ih_command_count (pn_header p)
     then (pr_active_lease_id s', pr_active_deadline_ns s') =
       (if held_of s' = (0, []) then (0, 0) else (ih_plan_id (pn_header p), ih_deadline_ns (pn_header p)))
     else True)"
proof -
  have i: "plan_wf p" "unat (pr_completed_commands s) < length (pn_commands p)" "held_ok (held_of s)" "pr_initialized s"
    "\<not> pr_active_dry_run s \<Longrightarrow> apply_transitions (drop (unat (pr_completed_commands s)) (pn_commands p)) (held_of s) \<noteq> None"
    using inv p by (auto simp: reducer_inv_def Let_def)
  note w = plan_wf_facts [OF i(1)]
  let ?k = "unat (pr_completed_commands s)"
  let ?m = "unat n - ?k"
  have le: "?k \<le> unat n" "unat n \<le> length (pn_commands p)" using range w(4) by (simp_all add: word_le_nat_alt)
  obtain ok s1 where a: "advance_commands ?m (pn_commands p) s = (ok, s1)" by fastforce
  have r: "ok" "unat (pr_completed_commands s1) = unat n" "reducer_frame s1 = reducer_frame s"
    and held: "if pr_active_dry_run s then held_of s1 = held_of s
       else apply_transitions (take ?m (drop ?k (pn_commands p))) (held_of s) = Some (held_of s1)"
    using advance_commands_run [of s ?m "pn_commands p"] i(5) w(2) le unfolding a by auto
  have view: "input_view s1 = (if pr_active_dry_run s then input_view s
      else foldl command_effect (input_view s) (take ?m (drop ?k (pn_commands p))))"
    using advance_commands_effect [OF i(3) w(1) _ w(2)] a r(1) le by simp
  have n: "pr_completed_commands s1 = n" using r(2) by (simp add: word_unat_eq_iff)
  have held1: "held_ok (held_of s1)"
    using held i(3) held_ok_transitions [OF list_all_part [OF w(1)]] by (auto split: if_splits)
  have e: "reducer_advance s n = (SACCADE_OK, if n = ih_command_count (pn_header p) then complete_plan s1 p else s1)"
    using p i(4) range r(1) n by (simp add: reducer_advance_def a not_less)
  have f: "pr_active s1 = Some p" "pr_active_dry_run s1 = pr_active_dry_run s" "pr_initialized s1"
    "pr_modifiers s1 = pr_modifiers s" "pr_permission_epoch s1 = pr_permission_epoch s"
    "pr_active_deadline_ns s1 = pr_active_deadline_ns s"
    using r(3) p i(4) by (simp_all add: reducer_frame_def)
  show ?thesis
  proof (cases "n = ih_command_count (pn_header p)")
    case True
    have dl: "pr_active_deadline_ns s1 = ih_deadline_ns (pn_header p)"
      using f(6) inv p by (simp add: reducer_inv_def Let_def)
    have c: "held_of (complete_plan s1 p) = held_of s1" "input_view (complete_plan s1 p) = input_view s1"
      "(pr_active_lease_id (complete_plan s1 p), pr_active_deadline_ns (complete_plan s1 p)) =
        (if held_of s1 = (0, []) then (0, 0) else (ih_plan_id (pn_header p), ih_deadline_ns (pn_header p)))"
      "pr_active (complete_plan s1 p) = None" "pr_completed_commands (complete_plan s1 p) = 0"
      using dl w(6) by (auto simp: complete_plan_def Let_def)
    show ?thesis
      by (rule exI [of _ "complete_plan s1 p"]) (use True e held view complete_plan_inv [OF inv p held1 r(3)] c in auto)
  next
    case False
    then have lt: "unat n < length (pn_commands p)" using le(2) w(4) by (metis nat_less_le word_unat_eq_iff)
    have rest: "\<not> pr_active_dry_run s \<Longrightarrow> apply_transitions (drop (unat n) (pn_commands p)) (held_of s1) \<noteq> None"
    proof -
      assume d: "\<not> pr_active_dry_run s"
      have "drop ?k (pn_commands p) = take ?m (drop ?k (pn_commands p)) @ drop (unat n) (pn_commands p)"
        using le(1) by (metis append_take_drop_id drop_drop le_add_diff_inverse2)
      then show ?thesis using i(5) [OF d] held d by (metis apply_transitions_append option.case(2))
    qed
    have "reducer_inv s1" using inv p f n held1 i(1) lt rest
      by (simp add: reducer_inv_def Let_def)
    then show ?thesis using False e held f n view by (intro exI [of _ s1]) auto
  qed
qed

lemma advance_inv: "reducer_inv s \<Longrightarrow> reducer_inv (snd (reducer_advance s n))"
proof (cases "\<exists>p. pr_active s = Some p \<and> pr_completed_commands s \<le> n \<and> n \<le> ih_command_count (pn_header p)")
  case True
  assume "reducer_inv s"
  with True advance_ok show ?thesis by fastforce
next
  case False
  assume "reducer_inv s"
  with False show ?thesis by (auto simp: reducer_advance_def not_less not_le split: option.split)
qed

lemma begin_inv:
  assumes "reducer_inv s" "plan = None \<or> (\<exists>p. plan = Some p \<and> plan_wf p)"
  shows "reducer_inv (snd (reducer_begin s plan available now))"
proof (cases "fst (reducer_begin s plan available now) = SACCADE_OK")
  case False
  then have "snd (reducer_begin s plan available now) = s"
    by (auto simp: reducer_begin_def Let_def split: option.splits if_splits)
  then show ?thesis using assms(1) by simp
next
  case True
  then obtain p where p: "plan = Some p" "pr_initialized s" "pr_active s = None" "reducer_preflight s p"
    "snd (reducer_begin s plan available now) = s\<lparr>pr_active := Some p, pr_active_deadline_ns := ih_deadline_ns (pn_header p),
       pr_active_dry_run := (ih_flags (pn_header p) AND PLAN_DRY_RUN \<noteq> 0), pr_completed_commands := 0,
       pr_stats := (pr_stats s)\<lparr>ps_plans_started := ps_plans_started (pr_stats s) + 1\<rparr>\<rparr>"
    by (auto simp: reducer_begin_def Let_def split: option.splits if_splits)
  then have w: "plan_wf p" using assms(2) by auto
  note f = plan_wf_facts [OF w]
  show ?thesis unfolding p(5) using assms(1) p(2-4) w f(3)
    by (simp add: reducer_inv_def Let_def reducer_preflight_def)
qed

text \<open>A reducer that gave everything up, initialized exactly when it has a permission epoch.\<close>

lemma idle_inv:
  "pr_active s = None \<Longrightarrow> held_of s = (0, []) \<Longrightarrow> pr_modifiers s = 0 \<Longrightarrow> pr_completed_commands s = 0 \<Longrightarrow>
   \<not> pr_active_dry_run s \<Longrightarrow> pr_active_lease_id s = 0 \<Longrightarrow> pr_active_deadline_ns s = 0 \<Longrightarrow>
   pr_initialized s \<longleftrightarrow> pr_permission_epoch s \<noteq> 0 \<Longrightarrow> reducer_inv s"
  by (simp add: reducer_inv_def held_ok_def Let_def)

lemma release_inv:
  assumes "reducer_inv s"
  shows "reducer_inv (snd (snd (reducer_abort s out)))" "reducer_inv (snd (snd (reducer_backend_failure s out)))"
    "reducer_inv (snd (snd (reducer_expire s now out)))" "reducer_inv (snd (snd (reducer_physical_override s x y out)))"
    "reducer_inv (snd (snd (reducer_permission_lost s epoch out)))" "reducer_inv (snd (snd (reducer_shutdown s out)))"
proof -
  have "pr_initialized s \<longleftrightarrow> pr_permission_epoch s \<noteq> 0" using assms by (auto simp: reducer_inv_def Let_def)
  then show "reducer_inv (snd (snd (reducer_abort s out)))" "reducer_inv (snd (snd (reducer_backend_failure s out)))"
    "reducer_inv (snd (snd (reducer_expire s now out)))" "reducer_inv (snd (snd (reducer_physical_override s x y out)))"
    "reducer_inv (snd (snd (reducer_permission_lost s epoch out)))" "reducer_inv (snd (snd (reducer_shutdown s out)))"
    using assms by (simp_all add: release_op_defs collect_release_def Let_def idle_inv)
qed

lemma reducer_inv_step: "reducer_inv s \<Longrightarrow> reducer_inv (reducer_step s e)"
proof (cases e)
  case (Reducer_initialize p x y)
  assume "reducer_inv s"
  then show ?thesis using Reducer_initialize
    by (cases "pr_initialized s \<or> p = 0") (auto simp: reducer_initialize_def reducer_inv_def held_ok_def Let_def)
next
  case (Reducer_begin bytes available now)
  assume "reducer_inv s"
  then show ?thesis using Reducer_begin
    by (cases "snd (validate_plan bytes True True)") (auto intro!: begin_inv dest: read_plan_wf)
next
  case (Reducer_advance n)
  assume "reducer_inv s"
  then show ?thesis using Reducer_advance advance_inv by simp
qed (simp_all add: release_inv)

lemma reducer_inv_start: "reducer_inv fresh_reducer"
  by (simp add: reducer_inv_def fresh_reducer_def held_ok_def Let_def)

interpretation reducer: invariant_machine fresh_reducer reducer_step reducer_inv
  by unfold_locales (simp_all add: reducer_inv_start reducer_inv_step)

lemma reducer_release:
  assumes "reducer_inv s"
  shows "let release = Some \<lparr>sr_buttons = pr_buttons s, sr_modifiers = 0, sr_held_keys = pr_held_keys s\<rparr>;
      released = (\<lambda>(r, out, s'). r = SACCADE_OK \<and> out = release \<and> pr_active s' = None \<and> held_of s' = (0, []) \<and>
        pr_active_lease_id s' = 0 \<and> pr_active_deadline_ns s' = 0) in
    if pr_initialized s
    then list_all released [reducer_abort s True, reducer_backend_failure s True, reducer_physical_override s x y True,
        reducer_shutdown s True] \<and>
      (if epoch = 0 \<or> epoch = pr_permission_epoch s
       then reducer_permission_lost s epoch True = (SACCADE_ERROR_INVALID_ARGUMENT, None, s)
       else released (reducer_permission_lost s epoch True) \<and>
         pr_permission_epoch (snd (snd (reducer_permission_lost s epoch True))) = epoch) \<and>
      (if (pr_active s, held_of s) \<noteq> (None, 0, [])
       then pr_active_deadline_ns s \<noteq> 0 \<and>
         (if pr_active_deadline_ns s \<le> now then released (reducer_expire s now True)
          else reducer_expire s now True = (SACCADE_ERROR_NOT_FOUND, Some no_release, s))
       else pr_active_deadline_ns s = 0)
    else pr_active s = None \<and> held_of s = (0, [])"
proof (cases "pr_initialized s")
  case False
  then show ?thesis using assms by (simp add: reducer_inv_def Let_def)
next
  case True
  have armed: "(pr_active s, held_of s) \<noteq> (None, 0, []) \<longleftrightarrow> pr_active_deadline_ns s \<noteq> 0"
    using assms plan_wf_facts(5) by (cases "pr_active s") (auto simp: reducer_inv_def Let_def)
  have m: "pr_modifiers s = 0" using assms by (simp add: reducer_inv_def Let_def)
  have lt: "now < pr_active_deadline_ns s \<longleftrightarrow> \<not> pr_active_deadline_ns s \<le> now" by auto
  show ?thesis unfolding Let_def if_P [OF True] armed
    using True m lt by (cases "pr_active_deadline_ns s \<le> now") (simp_all add: release_op_defs collect_release_def Let_def)
qed

lemma advance_outside:
  "pr_active s = Some p \<Longrightarrow> \<not> (pr_completed_commands s \<le> n \<and> n \<le> ih_command_count (pn_header p)) \<Longrightarrow>
   reducer_advance s n = (SACCADE_ERROR_INVALID_ARGUMENT, s)"
  by (auto simp: reducer_advance_def not_le)

subsection \<open>Properties\<close>

text \<open>C36. The state of the reducer is well typed after any operations: at most 16 distinct non-zero
  keys and only known buttons are held, no modifiers, the published state shows the buttons and
  epoch, and before initialization or after shutdown there is no plan and nothing is held.\<close>

theorem reducer_well_typed:
  "let s = foldl reducer_step fresh_reducer ops; view = reducer_state s in
     distinct (pr_held_keys s) \<and> length (pr_held_keys s) \<le> maximum_held_keys \<and> 0 \<notin> set (pr_held_keys s) \<and>
     unat (pi_buttons view) < 8 \<and> pi_modifiers view = 0 \<and>
     (if pr_initialized s then pi_permission_epoch view \<noteq> 0
      else (pr_active s, pi_buttons view, pr_held_keys s, pi_permission_epoch view) = (None, 0, [], 0))"
  using reducer.inv_run [of ops]
  by (simp add: reducer_inv_def reducer_state_def held_ok_def maximum_held_keys_def Let_def)

text \<open>C17. Reporting progress never fails half-way: for a plan that was started, any number of
  completed commands between the last report and the plan's length is accepted. The held buttons,
  the held keys and the pointer are then the effect of exactly those commands, one after the other
  (nothing changes, for a dry run), the transitions succeed on what was held, and with the last
  command the plan ends, keeping its lease and deadline exactly while something is held. Anything
  else is refused with an invalid argument and no change. The state error of the loop is
  unreachable.\<close>

theorem reducer_advance_total:
  "let s = foldl reducer_step fresh_reducer ops; (r, s') = reducer_advance s n in
   case pr_active s of
     None \<Rightarrow> r = SACCADE_ERROR_INVALID_ARGUMENT \<and> s' = s
   | Some p \<Rightarrow>
       if pr_completed_commands s \<le> n \<and> n \<le> ih_command_count (pn_header p)
       then r = SACCADE_OK \<and>
         (pr_active s', pr_completed_commands s') =
           (if n = ih_command_count (pn_header p) then (None, 0) else (Some p, n)) \<and>
         (if pr_active_dry_run s then Some (held_of s)
          else apply_transitions (take (unat n - unat (pr_completed_commands s))
            (drop (unat (pr_completed_commands s)) (pn_commands p))) (held_of s)) = Some (held_of s') \<and>
         input_view s' = (if pr_active_dry_run s then input_view s
           else foldl command_effect (input_view s) (take (unat n - unat (pr_completed_commands s))
             (drop (unat (pr_completed_commands s)) (pn_commands p)))) \<and>
         (if n = ih_command_count (pn_header p)
          then (pr_active_lease_id s', pr_active_deadline_ns s') =
            (if held_of s' = (0, []) then (0, 0) else (ih_plan_id (pn_header p), ih_deadline_ns (pn_header p)))
          else True)
       else r = SACCADE_ERROR_INVALID_ARGUMENT \<and> s' = s"
proof -
  define s where "s = foldl reducer_step fresh_reducer ops"
  note inv = reducer.inv_run [of ops, folded s_def]
  show ?thesis
  proof (cases "pr_active s")
    case None
    then show ?thesis unfolding s_def [symmetric] by (simp add: reducer_advance_def)
  next
    case (Some p)
    show ?thesis
    proof (cases "pr_completed_commands s \<le> n \<and> n \<le> ih_command_count (pn_header p)")
      case True
      with advance_ok [OF inv Some, of n] obtain s' where a: "reducer_advance s n = (SACCADE_OK, s')"
        "pr_active s' = (if n = ih_command_count (pn_header p) then None else Some p)"
        "pr_completed_commands s' = (if n = ih_command_count (pn_header p) then 0 else n)"
        "(if pr_active_dry_run s then Some (held_of s)
          else apply_transitions (take (unat n - unat (pr_completed_commands s))
            (drop (unat (pr_completed_commands s)) (pn_commands p))) (held_of s)) = Some (held_of s')"
        "input_view s' = (if pr_active_dry_run s then input_view s
          else foldl command_effect (input_view s) (take (unat n - unat (pr_completed_commands s))
            (drop (unat (pr_completed_commands s)) (pn_commands p))))"
        "if n = ih_command_count (pn_header p)
         then (pr_active_lease_id s', pr_active_deadline_ns s') =
           (if held_of s' = (0, []) then (0, 0) else (ih_plan_id (pn_header p), ih_deadline_ns (pn_header p)))
         else True" by blast
      show ?thesis unfolding s_def [symmetric] Let_def Some a(1) prod.case option.case if_P [OF True]
        using a(2-6) by simp
    next
      case False
      show ?thesis unfolding s_def [symmetric] Let_def Some advance_outside [OF Some False] prod.case option.case if_not_P [OF False]
        by simp
    qed
  qed
qed

text \<open>C5. Whatever is held gets released: after any operations, every way of giving up (abort,
  backend failure, physical override, shutdown, the loss of the permissions to a new epoch, and
  expiry once the deadline has passed) reports exactly the held buttons and keys and leaves nothing
  held and no plan; the loss takes over the new epoch, and is refused without a change when the
  epoch is zero or the current one. Whenever a plan runs or something is held, a deadline is
  armed.\<close>

theorem reducer_releases_held:
  "let s = foldl reducer_step fresh_reducer ops;
       release = Some \<lparr>sr_buttons = pr_buttons s, sr_modifiers = 0, sr_held_keys = pr_held_keys s\<rparr>;
       released = (\<lambda>(r, out, s'). r = SACCADE_OK \<and> out = release \<and> pr_active s' = None \<and> held_of s' = (0, []) \<and>
         pr_active_lease_id s' = 0 \<and> pr_active_deadline_ns s' = 0) in
     if pr_initialized s
     then list_all released [reducer_abort s True, reducer_backend_failure s True, reducer_physical_override s x y True,
         reducer_shutdown s True] \<and>
       (if epoch = 0 \<or> epoch = pr_permission_epoch s
        then reducer_permission_lost s epoch True = (SACCADE_ERROR_INVALID_ARGUMENT, None, s)
        else released (reducer_permission_lost s epoch True) \<and>
          pr_permission_epoch (snd (snd (reducer_permission_lost s epoch True))) = epoch) \<and>
       (if (pr_active s, held_of s) \<noteq> (None, 0, [])
        then pr_active_deadline_ns s \<noteq> 0 \<and>
          (if pr_active_deadline_ns s \<le> now then released (reducer_expire s now True)
           else reducer_expire s now True = (SACCADE_ERROR_NOT_FOUND, Some no_release, s))
        else pr_active_deadline_ns s = 0)
     else pr_active s = None \<and> held_of s = (0, [])"
  using reducer_release [OF reducer.inv_run [of ops]] unfolding Let_def .

end
