(* ===== verification/Selection_Reducer.thy ===== *)
theory Selection_Reducer
  imports Scene_Packet
begin

text \<open>
  Collecting the targets of an action, \<open>src/interaction/selection_reducer.{hpp,cpp}\<close>: one target, two,
  many, or a path through the reading order of the scene given by its anchors.

  The storage is the caller's array of 64 identifiers; the model keeps its first \<open>target_count_\<close>
  entries as a list and whether a storage is bound. The scene pointers are one option.
\<close>

definition maximum_selection_targets :: nat where "maximum_selection_targets = 64"

datatype selection_mode = Select_single | Select_dual | Select_multi | Select_path | Select_other

datatype selection_phase = Selection_idle | Selection_collecting | Selection_complete | Selection_cancelled

datatype cancel_reason = Cancel_none | Cancel_user | Cancel_timeout | Cancel_scene_changed |
  Cancel_transform_changed | Cancel_topology_changed | Cancel_focus_changed | Cancel_permission_lost | Cancel_other

record selection_context =
  sx_scene_epoch :: u64
  sx_transform_epoch :: u64
  sx_topology_epoch :: u64
  sx_focus_id :: u64
  sx_deadline_ns :: u64

definition no_selection_context :: selection_context where
  "no_selection_context = \<lparr>sx_scene_epoch = 0, sx_transform_epoch = 0, sx_topology_epoch = 0, sx_focus_id = 0,
     sx_deadline_ns = 0\<rparr>"

record selection_stats =
  st_sessions_started :: u64
  st_targets_selected :: u64
  st_backspaces :: u64
  st_confirmations :: u64
  st_cancellations :: u64
  st_path_targets_expanded :: u64
  st_scene_refreshes :: u64

record selection_reducer =
  sl_scene :: "packet_view option"
  sl_storage :: bool
  sl_target_ids :: "u64 list"
  sl_context :: selection_context
  sl_stats :: selection_stats
  sl_mode :: selection_mode
  sl_state :: selection_phase
  sl_cancel_reason :: cancel_reason

definition fresh_selection :: selection_reducer where
  "fresh_selection = \<lparr>sl_scene = None, sl_storage = False, sl_target_ids = [], sl_context = no_selection_context,
     sl_stats = \<lparr>st_sessions_started = 0, st_targets_selected = 0, st_backspaces = 0, st_confirmations = 0,
       st_cancellations = 0, st_path_targets_expanded = 0, st_scene_refreshes = 0\<rparr>,
     sl_mode = Select_single, sl_state = Selection_idle, sl_cancel_reason = Cancel_none\<rparr>"

record selection_view =
  sv_target_ids :: "u64 list option"
  sv_mode :: selection_mode
  sv_state :: selection_phase
  sv_cancel_reason :: cancel_reason

subsection \<open>Operations\<close>

definition selection_begin ::
  "selection_reducer \<Rightarrow> packet_view option \<Rightarrow> selection_mode \<Rightarrow> selection_context \<Rightarrow> bool \<Rightarrow>
     saccade_result \<times> selection_reducer" where
  "selection_begin s scene mode context storage =
     (case scene of
        None \<Rightarrow> (SACCADE_ERROR_INVALID_ARGUMENT, s)
      | Some v \<Rightarrow>
          if sl_state s \<noteq> Selection_idle \<or> \<not> storage \<or> mode = Select_other \<or> sx_scene_epoch context = 0 \<or>
             sx_transform_epoch context = 0 \<or> sx_topology_epoch context = 0 \<or> sx_deadline_ns context = 0 \<or>
             ph_scene_epoch (pv_header v) \<noteq> sx_scene_epoch context \<or>
             ph_transform_epoch (pv_header v) \<noteq> sx_transform_epoch context \<or>
             ph_topology_epoch (pv_header v) \<noteq> sx_topology_epoch context
          then (SACCADE_ERROR_INVALID_ARGUMENT, s)
          else (SACCADE_OK, s\<lparr>sl_scene := Some v, sl_storage := True, sl_context := context, sl_target_ids := [],
                  sl_mode := mode, sl_state := Selection_collecting, sl_cancel_reason := Cancel_none,
                  sl_stats := (sl_stats s)\<lparr>st_sessions_started := st_sessions_started (sl_stats s) + 1\<rparr>\<rparr>))"

definition scene_target :: "packet_view \<Rightarrow> u64 \<Rightarrow> target_record option" where
  "scene_target scene target_id = List.find (\<lambda>t. tr_target_id t = target_id) (pv_targets scene)"

definition selected :: "selection_reducer \<Rightarrow> u64 \<Rightarrow> bool" where
  "selected s target_id \<longleftrightarrow> List.member (sl_target_ids s) target_id"

definition target_before :: "target_record \<Rightarrow> target_record \<Rightarrow> bool" where
  "target_before l r \<longleftrightarrow> tr_order l < tr_order r \<or> (tr_order l = tr_order r \<and> tr_target_id l < tr_target_id r)"

text \<open>The targets between two others, sorted into place one by one; \<open>None\<close> when they do not fit.\<close>

fun collect_matches :: "target_record \<Rightarrow> target_record \<Rightarrow> target_record list \<Rightarrow> target_record list \<Rightarrow> target_record list option" where
  "collect_matches low high [] matches = Some matches"
| "collect_matches low high (t # ts) matches =
     (if target_before t low \<or> target_before high t then collect_matches low high ts matches
      else if length matches = maximum_selection_targets then None
      else collect_matches low high ts (insert_back target_before matches t))"

fun append_expanded :: "u64 list \<Rightarrow> u64 list \<Rightarrow> u64 list option" where
  "append_expanded [] expanded = Some expanded"
| "append_expanded (i # ids) expanded =
     (if expanded \<noteq> [] \<and> last expanded = i then append_expanded ids expanded
      else if length expanded = maximum_selection_targets then None
      else append_expanded ids (expanded @ [i]))"

definition expand_segment :: "packet_view \<Rightarrow> u64 \<Rightarrow> u64 \<Rightarrow> u64 list \<Rightarrow> saccade_result + u64 list" where
  "expand_segment scene a b expanded =
     (case (scene_target scene a, scene_target scene b) of
        (Some first, Some final) \<Rightarrow>
          let low = (if target_before final first then final else first);
              high = (if target_before final first then first else final);
              forward = (\<not> target_before final first)
          in (case collect_matches low high (pv_targets scene) [] of
               None \<Rightarrow> Inl SACCADE_ERROR_CAPACITY
             | Some matches \<Rightarrow>
                 if length matches < 2 then Inl SACCADE_ERROR_NOT_FOUND
                 else case append_expanded (map tr_target_id (if forward then matches else rev matches)) expanded of
                   None \<Rightarrow> Inl SACCADE_ERROR_CAPACITY
                 | Some expanded \<Rightarrow> Inr expanded)
      | _ \<Rightarrow> Inl SACCADE_ERROR_STALE_HANDLE)"

fun expand_segments :: "packet_view \<Rightarrow> u64 list \<Rightarrow> u64 list \<Rightarrow> saccade_result + u64 list" where
  "expand_segments scene (a # b # anchors) expanded =
     (case expand_segment scene a b expanded of
        Inl r \<Rightarrow> Inl r
      | Inr expanded \<Rightarrow> expand_segments scene (b # anchors) expanded)"
| "expand_segments scene _ expanded = Inr expanded"

definition expand_path :: "selection_reducer \<Rightarrow> packet_view \<Rightarrow> saccade_result \<times> selection_reducer" where
  "expand_path s scene =
     (case expand_segments scene (sl_target_ids s) [] of
        Inl r \<Rightarrow> (r, s)
      | Inr expanded \<Rightarrow> (SACCADE_OK, s\<lparr>sl_target_ids := expanded,
          sl_stats := (sl_stats s)\<lparr>st_path_targets_expanded :=
            st_path_targets_expanded (sl_stats s) + word_of_nat (length expanded)\<rparr>\<rparr>))"

definition selection_select :: "selection_reducer \<Rightarrow> u64 \<Rightarrow> saccade_result \<times> selection_reducer" where
  "selection_select s target_id =
     (case sl_scene s of
        None \<Rightarrow> (SACCADE_ERROR_STATE, s)
      | Some scene \<Rightarrow>
          if sl_state s \<noteq> Selection_collecting \<or> target_id = 0 then (SACCADE_ERROR_STATE, s)
          else if scene_target scene target_id = None then (SACCADE_ERROR_NOT_FOUND, s)
          else if selected s target_id then (SACCADE_ERROR_ALREADY_EXISTS, s)
          else if length (sl_target_ids s) = maximum_selection_targets then (SACCADE_ERROR_CAPACITY, s)
          else let ids = sl_target_ids s @ [target_id] in
            (SACCADE_OK, s\<lparr>sl_target_ids := ids,
               sl_stats := (sl_stats s)\<lparr>st_targets_selected := st_targets_selected (sl_stats s) + 1\<rparr>,
               sl_state := (if sl_mode s = Select_single \<or> (sl_mode s = Select_dual \<and> length ids = 2)
                            then Selection_complete else sl_state s)\<rparr>))"

definition selection_backspace :: "selection_reducer \<Rightarrow> saccade_result \<times> selection_reducer" where
  "selection_backspace s =
     (if sl_state s \<noteq> Selection_collecting \<or> sl_target_ids s = [] then (SACCADE_ERROR_STATE, s)
      else (SACCADE_OK, s\<lparr>sl_target_ids := butlast (sl_target_ids s),
              sl_stats := (sl_stats s)\<lparr>st_backspaces := st_backspaces (sl_stats s) + 1\<rparr>\<rparr>))"

definition selection_confirm :: "selection_reducer \<Rightarrow> saccade_result \<times> selection_reducer" where
  "selection_confirm s =
     (let multi_ready = (sl_mode s = Select_multi \<and> sl_target_ids s \<noteq> []);
          path_ready = (sl_mode s = Select_path \<and> length (sl_target_ids s) \<ge> 2)
      in case sl_scene s of
        None \<Rightarrow> (SACCADE_ERROR_STATE, s)
      | Some scene \<Rightarrow>
          if sl_state s \<noteq> Selection_collecting \<or> (\<not> multi_ready \<and> \<not> path_ready) then (SACCADE_ERROR_STATE, s)
          else let (result, s) = (if path_ready then expand_path s scene else (SACCADE_OK, s)) in
            if result \<noteq> SACCADE_OK then (result, s)
            else (SACCADE_OK, s\<lparr>sl_state := Selection_complete,
                    sl_stats := (sl_stats s)\<lparr>st_confirmations := st_confirmations (sl_stats s) + 1\<rparr>\<rparr>))"

definition selection_cancel :: "selection_reducer \<Rightarrow> cancel_reason \<Rightarrow> saccade_result \<times> selection_reducer" where
  "selection_cancel s reason =
     (if sl_state s \<noteq> Selection_collecting \<or> reason = Cancel_none \<or> reason = Cancel_other then (SACCADE_ERROR_STATE, s)
      else (SACCADE_OK, s\<lparr>sl_target_ids := [], sl_state := Selection_cancelled, sl_cancel_reason := reason,
              sl_stats := (sl_stats s)\<lparr>st_cancellations := st_cancellations (sl_stats s) + 1\<rparr>\<rparr>))"

text \<open>The binary search in the sorted selection is the membership test.\<close>

definition count_selected :: "u64 list \<Rightarrow> target_record list \<Rightarrow> nat" where
  "count_selected ids ts = length (filter (\<lambda>t. tr_target_id t \<in> set ids) ts)"

definition selection_refresh_scene :: "selection_reducer \<Rightarrow> packet_view option \<Rightarrow> saccade_result \<times> selection_reducer" where
  "selection_refresh_scene s scene =
     (case scene of
        None \<Rightarrow> (SACCADE_ERROR_STALE_HANDLE, s)
      | Some v \<Rightarrow>
          if (sl_state s \<noteq> Selection_collecting \<and> sl_state s \<noteq> Selection_complete) \<or>
             ph_coordinate_space (pv_header v) \<noteq> SPACE_DESKTOP_Q8 \<or>
             ph_scene_epoch (pv_header v) \<le> sx_scene_epoch (sl_context s) \<or>
             ph_transform_epoch (pv_header v) \<noteq> sx_transform_epoch (sl_context s) \<or>
             ph_topology_epoch (pv_header v) \<noteq> sx_topology_epoch (sl_context s)
          then (SACCADE_ERROR_STALE_HANDLE, s)
          else if count_selected (sl_target_ids s) (pv_targets v) \<noteq> length (sl_target_ids s)
          then (SACCADE_ERROR_STALE_HANDLE, s)
          else (SACCADE_OK, s\<lparr>sl_scene := Some v,
                  sl_context := (sl_context s)\<lparr>sx_scene_epoch := ph_scene_epoch (pv_header v)\<rparr>,
                  sl_stats := (sl_stats s)\<lparr>st_scene_refreshes := st_scene_refreshes (sl_stats s) + 1\<rparr>\<rparr>))"

definition stale_reason :: "selection_context \<Rightarrow> selection_context \<Rightarrow> u64 \<Rightarrow> cancel_reason" where
  "stale_reason kept current now_ns =
     (if now_ns \<ge> sx_deadline_ns kept then Cancel_timeout
      else if sx_scene_epoch current \<noteq> sx_scene_epoch kept then Cancel_scene_changed
      else if sx_transform_epoch current \<noteq> sx_transform_epoch kept then Cancel_transform_changed
      else if sx_topology_epoch current \<noteq> sx_topology_epoch kept then Cancel_topology_changed
      else if sx_focus_id current \<noteq> sx_focus_id kept then Cancel_focus_changed
      else Cancel_none)"

definition selection_validate :: "selection_reducer \<Rightarrow> selection_context \<Rightarrow> u64 \<Rightarrow> saccade_result \<times> selection_reducer" where
  "selection_validate s current now_ns =
     (if sl_state s \<noteq> Selection_collecting then (SACCADE_ERROR_STATE, s)
      else let reason = stale_reason (sl_context s) current now_ns in
        if reason = Cancel_none then (SACCADE_OK, s)
        else (SACCADE_ERROR_STALE_HANDLE, snd (selection_cancel s reason)))"

definition selection_reset :: "selection_reducer \<Rightarrow> saccade_result \<times> selection_reducer" where
  "selection_reset s =
     (if sl_state s = Selection_idle then (SACCADE_ERROR_STATE, s)
      else (SACCADE_OK, fresh_selection\<lparr>sl_stats := sl_stats s\<rparr>))"

definition selection_view_of :: "selection_reducer \<Rightarrow> selection_view" where
  "selection_view_of s = \<lparr>sv_target_ids = (if sl_storage s then Some (sl_target_ids s) else None),
     sv_mode = sl_mode s, sv_state = sl_state s, sv_cancel_reason = sl_cancel_reason s\<rparr>"

subsection \<open>Paths in reading order\<close>

text \<open>The order of the targets as one number, the targets between two positions, and the path.\<close>

definition reading_key :: "target_record \<Rightarrow> nat" where
  "reading_key t = unat (tr_order t) * 2 ^ 64 + unat (tr_target_id t)"

lemma target_before_key: "target_before l r \<longleftrightarrow> reading_key l < reading_key r"
proof -
  have small: "unat (tr_target_id l) < 2 ^ 64" "unat (tr_target_id r) < 2 ^ 64" by simp_all
  consider "unat (tr_order l) = unat (tr_order r)" | "unat (tr_order l) < unat (tr_order r)" | "unat (tr_order r) < unat (tr_order l)"
    by linarith
  then show ?thesis
  proof cases
    case 1
    then show ?thesis by (simp add: target_before_def reading_key_def word_less_nat_alt word_unat_eq_iff)
  next
    case 2
    then have "Suc (unat (tr_order l)) * 2 ^ 64 \<le> unat (tr_order r) * 2 ^ 64" by (intro mult_le_mono1) simp
    then have "reading_key l < reading_key r" unfolding reading_key_def mult_Suc using small by linarith
    then show ?thesis using 2 by (simp add: target_before_def word_less_nat_alt)
  next
    case 3
    then have "Suc (unat (tr_order r)) * 2 ^ 64 \<le> unat (tr_order l) * 2 ^ 64" by (intro mult_le_mono1) simp
    then have "\<not> reading_key l < reading_key r" unfolding reading_key_def mult_Suc using small by linarith
    then show ?thesis using 3 by (auto simp: target_before_def word_less_nat_alt)
  qed
qed

definition between :: "packet_view \<Rightarrow> nat \<Rightarrow> nat \<Rightarrow> target_record list" where
  "between scene lo hi = sort_key reading_key (filter (\<lambda>t. lo \<le> reading_key t \<and> reading_key t \<le> hi) (pv_targets scene))"

lemma insert_back_filter:
  assumes "\<And>x y. before x y \<longleftrightarrow> (key x :: nat) < key y"
  shows "filter (\<lambda>x. k = key x) (insert_back before xs c) = filter (\<lambda>x. k = key x) (xs @ [c])"
proof -
  have "filter (\<lambda>x. k = key x) (shift_left before c ys) = filter (\<lambda>x. k = key x) (c # ys)" for ys
    by (induction ys) (auto simp: assms)
  then show ?thesis by (simp add: insert_back_def rev_filter [symmetric])
qed

text \<open>The sort of the program is stable, so it is the library's.\<close>

lemma loop_sort_key:
  assumes "\<And>x y. before x y \<longleftrightarrow> (key x :: nat) < key y"
  shows "loop_sort before xs = sort_key key xs"
proof -
  have f: "filter (\<lambda>x. k = key x) (foldl (insert_back before) acc xs) = filter (\<lambda>x. k = key x) (acc @ xs)" for k acc
    by (induction xs arbitrary: acc) (simp_all add: insert_back_filter [of before key, OF assms])
  have "sorted (map key (loop_sort before xs))"
    using sorted_loop_sort [of before key, OF assms] by (simp add: sorted_map)
  then have "sort_key key xs = loop_sort before xs"
    by (intro properties_for_sort_key) (simp_all add: loop_sort_def f mset_foldl_insert_back)
  then show ?thesis by simp
qed

lemma collect_matches_fold:
  "length matches \<le> 64 \<Longrightarrow> collect_matches low high ts matches =
    (let ms = foldl (insert_back target_before) matches
         (filter (\<lambda>t. reading_key low \<le> reading_key t \<and> reading_key t \<le> reading_key high) ts)
     in if length ms \<le> 64 then Some ms else None)"
proof (induction ts arbitrary: matches)
  case Nil
  then show ?case by simp
next
  case (Cons t ts)
  have grow: "length acc \<le> length (foldl (insert_back target_before) acc xs)" for acc xs
  proof -
    have "length (foldl (insert_back target_before) acc xs) = length acc + length xs"
      by (induction xs arbitrary: acc) simp_all
    then show ?thesis by simp
  qed
  show ?case
  proof (cases "target_before t low \<or> target_before high t")
    case True
    then show ?thesis using Cons by (auto simp: target_before_key not_le)
  next
    case False
    then have f: "reading_key low \<le> reading_key t \<and> reading_key t \<le> reading_key high" by (simp add: target_before_key not_less)
    show ?thesis
    proof (cases "length matches = 64")
      case True
      then have "\<not> length (foldl (insert_back target_before) (insert_back target_before matches t) xs) \<le> 64" for xs
        using grow [of "insert_back target_before matches t" xs] by simp
      then show ?thesis using False f True by (simp add: maximum_selection_targets_def Let_def)
    next
      case small: False
      then show ?thesis using Cons False f by (simp add: maximum_selection_targets_def)
    qed
  qed
qed

lemma collect_matches_between:
  "collect_matches low high (pv_targets scene) [] =
    (let ms = between scene (reading_key low) (reading_key high) in if length ms \<le> 64 then Some ms else None)"
proof -
  let ?f = "filter (\<lambda>t. reading_key low \<le> reading_key t \<and> reading_key t \<le> reading_key high) (pv_targets scene)"
  have "foldl (insert_back target_before) [] ?f = between scene (reading_key low) (reading_key high)"
    using loop_sort_key [of target_before reading_key ?f, OF target_before_key] by (simp add: loop_sort_def between_def)
  then show ?thesis by (simp only: collect_matches_fold [of "[]", simplified])
qed

text \<open>Appending while skipping repetitions removes adjacent duplicates.\<close>

lemma remdups_adj_snoc:
  "remdups_adj (xs @ [x]) = (if xs \<noteq> [] \<and> last xs = x then remdups_adj xs else remdups_adj xs @ [x])"
  by (induction xs rule: remdups_adj.induct) auto

lemma append_expanded_remdups:
  "length (remdups_adj done_ids) \<le> 64 \<Longrightarrow> append_expanded ids (remdups_adj done_ids) =
    (let e = remdups_adj (done_ids @ ids) in if length e \<le> 64 then Some e else None)"
proof (induction ids arbitrary: done_ids)
  case Nil
  then show ?case by simp
next
  case (Cons i ids)
  have grow: "length (remdups_adj xs) \<le> length (remdups_adj (xs @ ys))" for xs ys :: "u64 list"
    by (induction ys rule: rev_induct) (auto simp: remdups_adj_snoc append_assoc [symmetric] simp del: append_assoc)
  have l: "remdups_adj done_ids \<noteq> [] \<and> last (remdups_adj done_ids) = i \<longleftrightarrow> done_ids \<noteq> [] \<and> last done_ids = i"
    by simp
  show ?case
  proof (cases "done_ids \<noteq> [] \<and> last done_ids = i")
    case True
    then have e: "remdups_adj (done_ids @ [i]) = remdups_adj done_ids" by (simp add: remdups_adj_snoc)
    show ?thesis using Cons.IH [of "done_ids @ [i]"] Cons.prems True e by simp
  next
    case False
    then have e: "remdups_adj (done_ids @ [i]) = remdups_adj done_ids @ [i]" by (auto simp: remdups_adj_snoc)
    show ?thesis
    proof (cases "length (remdups_adj done_ids) = 64")
      case True
      then have "\<not> length (remdups_adj (done_ids @ i # ids)) \<le> 64"
        using grow [of "done_ids @ [i]" ids] e by simp
      then show ?thesis using False True by (auto simp: maximum_selection_targets_def Let_def)
    next
      case small: False
      then have "length (remdups_adj (done_ids @ [i])) \<le> 64" using Cons.prems e by simp
      from Cons.IH [OF this] show ?thesis using False small by (auto simp: maximum_selection_targets_def e)
    qed
  qed
qed

definition path_segment :: "packet_view \<Rightarrow> u64 \<Rightarrow> u64 \<Rightarrow> u64 list" where
  "path_segment scene a b =
     (case (scene_target scene a, scene_target scene b) of
        (Some x, Some y) \<Rightarrow>
          if reading_key y < reading_key x
          then rev (map tr_target_id (between scene (reading_key y) (reading_key x)))
          else map tr_target_id (between scene (reading_key x) (reading_key y))
      | _ \<Rightarrow> [])"

definition reading_path :: "packet_view \<Rightarrow> u64 list \<Rightarrow> u64 list" where
  "reading_path scene anchors = remdups_adj (concat (map2 (path_segment scene) anchors (tl anchors)))"

definition path_fits :: "packet_view \<Rightarrow> u64 list \<Rightarrow> bool" where
  "path_fits scene anchors \<longleftrightarrow>
     list_all (\<lambda>ids. length ids \<le> 64) (map2 (path_segment scene) anchors (tl anchors)) \<and>
     length (reading_path scene anchors) \<le> 64"

definition in_scene :: "packet_view \<Rightarrow> u64 \<Rightarrow> bool" where
  "in_scene scene i \<longleftrightarrow> i \<in> set (map tr_target_id (pv_targets scene))"

lemma scene_target_in: "in_scene scene i \<longleftrightarrow> (\<exists>t. scene_target scene i = Some t \<and> t \<in> set (pv_targets scene) \<and> tr_target_id t = i)"
proof
  assume "in_scene scene i"
  then have "scene_target scene i \<noteq> None" by (auto simp: in_scene_def scene_target_def)
  then obtain t where "scene_target scene i = Some t" by blast
  then show "\<exists>t. scene_target scene i = Some t \<and> t \<in> set (pv_targets scene) \<and> tr_target_id t = i"
    using find_Some_iff_hd [of "\<lambda>t. tr_target_id t = i" "pv_targets scene" t] by (auto simp: scene_target_def)
qed (auto simp: in_scene_def)

lemma scene_target_None: "scene_target scene i = None \<longleftrightarrow> \<not> in_scene scene i"
  by (auto simp: scene_target_def in_scene_def)

lemma two_elements: "x \<in> set xs \<Longrightarrow> y \<in> set xs \<Longrightarrow> x \<noteq> y \<Longrightarrow> 2 \<le> length xs"
proof -
  assume "x \<in> set xs" "y \<in> set xs" "x \<noteq> y"
  then have "card {x, y} \<le> card (set xs)" by (intro card_mono) auto
  with \<open>x \<noteq> y\<close> card_length [of xs] show ?thesis by simp
qed

lemma path_segment_ends:
  assumes "in_scene scene a" "in_scene scene b"
  shows "{a, b} \<subseteq> set (path_segment scene a b)" "list_all (in_scene scene) (path_segment scene a b)"
proof -
  obtain x y where x: "scene_target scene a = Some x" "x \<in> set (pv_targets scene)" "tr_target_id x = a"
    and y: "scene_target scene b = Some y" "y \<in> set (pv_targets scene)" "tr_target_id y = b"
    using assms unfolding scene_target_in by blast
  show "{a, b} \<subseteq> set (path_segment scene a b)"
    using x y by (auto simp: path_segment_def between_def)
  show "list_all (in_scene scene) (path_segment scene a b)"
    unfolding path_segment_def x y by (auto simp: between_def in_scene_def list_all_iff)
qed

lemma expand_segment_path:
  assumes "in_scene scene a" "in_scene scene b" "a \<noteq> b" "length (remdups_adj acc) \<le> 64"
  shows "expand_segment scene a b (remdups_adj acc) =
    (let e = remdups_adj (acc @ path_segment scene a b) in
     if length (path_segment scene a b) \<le> 64 \<and> length e \<le> 64 then Inr e else Inl SACCADE_ERROR_CAPACITY)"
proof -
  obtain x y where x: "scene_target scene a = Some x" and y: "scene_target scene b = Some y"
    using assms(1,2) unfolding scene_target_in by blast
  let ?lo = "min (reading_key x) (reading_key y)" let ?hi = "max (reading_key x) (reading_key y)"
  have seg: "path_segment scene a b = map tr_target_id
      (if target_before y x then rev (between scene ?lo ?hi) else between scene ?lo ?hi)"
    unfolding path_segment_def x y by (simp add: target_before_key rev_map min_def max_def)
  have "2 \<le> length (path_segment scene a b)"
    using path_segment_ends(1) [OF assms(1,2)] assms(3) by (intro two_elements [of a _ b]) auto
  then have two: "\<not> length (between scene ?lo ?hi) < 2" unfolding seg by (simp split: if_splits)
  have low: "reading_key (if target_before y x then y else x) = ?lo" "reading_key (if target_before y x then x else y) = ?hi"
    by (auto simp: target_before_key)
  have len: "length (path_segment scene a b) = length (between scene ?lo ?hi)" unfolding seg by simp
  show ?thesis
    unfolding expand_segment_def x y prod.case option.case Let_def collect_matches_between low len
    using two append_expanded_remdups [OF assms(4), of "path_segment scene a b"] seg
    by (cases "target_before y x") (simp_all add: Let_def)
qed

lemma path_prefix_length: "length (remdups_adj xs) \<le> length (remdups_adj (xs @ ys))"
  by (induction ys rule: rev_induct) (auto simp: remdups_adj_snoc append_assoc [symmetric] simp del: append_assoc)

lemma expand_segments_path:
  assumes "list_all (in_scene scene) anchors" "distinct_adj anchors" "length (remdups_adj acc) \<le> 64"
  shows "expand_segments scene anchors (remdups_adj acc) =
    (let segs = map2 (path_segment scene) anchors (tl anchors); e = remdups_adj (acc @ concat segs) in
     if list_all (\<lambda>ids. length ids \<le> 64) segs \<and> length e \<le> 64 then Inr e else Inl SACCADE_ERROR_CAPACITY)"
  using assms
proof (induction anchors arbitrary: acc rule: induct_list012)
  case (3 a b anchors)
  let ?s = "path_segment scene a b"
  have ab: "in_scene scene a" "in_scene scene b" "a \<noteq> b" "distinct_adj (b # anchors)" "list_all (in_scene scene) (b # anchors)"
    using "3.prems"(1,2) by (auto simp: distinct_adj_Cons)
  note seg = expand_segment_path [OF ab(1-3) "3.prems"(3)]
  show ?case
  proof (cases "length ?s \<le> 64 \<and> length (remdups_adj (acc @ ?s)) \<le> 64")
    case False
    then have "\<not> (length ?s \<le> 64 \<and> length (remdups_adj (acc @ ?s @ xs)) \<le> 64)" for xs
      using path_prefix_length [of "acc @ ?s" xs] by auto
    then show ?thesis using False seg by (auto simp: Let_def)
  next
    case True
    then show ?thesis using "3.IH"(2) [of "acc @ ?s"] seg ab(4,5) by (simp add: Let_def)
  qed
qed simp_all

lemma expand_segments_in_scene:
  "expand_segments scene anchors acc = Inr e \<Longrightarrow> 2 \<le> length anchors \<Longrightarrow> list_all (in_scene scene) anchors"
proof (induction anchors arbitrary: acc rule: induct_list012)
  case (3 a b anchors)
  then obtain acc' where seg: "expand_segment scene a b acc = Inr acc'" "expand_segments scene (b # anchors) acc' = Inr e"
    by (auto split: sum.splits)
  then have "scene_target scene a \<noteq> None" "scene_target scene b \<noteq> None"
    by (auto simp: expand_segment_def split: option.splits)
  then have "in_scene scene a" "in_scene scene b" by (auto simp: scene_target_None)
  then show ?case using "3.IH"(2) [OF seg(2)] by (cases anchors) auto
qed simp_all

lemma expand_path_exact:
  assumes "distinct (sl_target_ids s)" "2 \<le> length (sl_target_ids s)"
  shows "fst (expand_path s scene) = SACCADE_OK \<longleftrightarrow>
      list_all (in_scene scene) (sl_target_ids s) \<and> path_fits scene (sl_target_ids s)"
    "fst (expand_path s scene) = SACCADE_OK \<Longrightarrow> sl_target_ids (snd (expand_path s scene)) = reading_path scene (sl_target_ids s)"
    "fst (expand_path s scene) \<noteq> SACCADE_OK \<Longrightarrow> snd (expand_path s scene) = s \<and>
       (list_all (in_scene scene) (sl_target_ids s) \<longrightarrow> fst (expand_path s scene) = SACCADE_ERROR_CAPACITY)"
proof -
  have e: "expand_segments scene (sl_target_ids s) [] =
    (if path_fits scene (sl_target_ids s) then Inr (reading_path scene (sl_target_ids s)) else Inl SACCADE_ERROR_CAPACITY)"
    if "list_all (in_scene scene) (sl_target_ids s)"
    using expand_segments_path [OF that distinct_adj_altdef [THEN iffD2], of "[]"] assms(1)
    by (simp add: path_fits_def reading_path_def Let_def distinct_adj_altdef remdups_adj_distinct)
  have i: "expand_segments scene anchors acc = Inl r \<Longrightarrow> r \<noteq> SACCADE_OK" for anchors acc r
    by (induction anchors arbitrary: acc rule: induct_list012)
      (auto simp: expand_segment_def Let_def split: option.splits sum.splits if_splits)
  show "fst (expand_path s scene) = SACCADE_OK \<longleftrightarrow>
      list_all (in_scene scene) (sl_target_ids s) \<and> path_fits scene (sl_target_ids s)"
    "fst (expand_path s scene) = SACCADE_OK \<Longrightarrow> sl_target_ids (snd (expand_path s scene)) = reading_path scene (sl_target_ids s)"
    "fst (expand_path s scene) \<noteq> SACCADE_OK \<Longrightarrow> snd (expand_path s scene) = s \<and>
       (list_all (in_scene scene) (sl_target_ids s) \<longrightarrow> fst (expand_path s scene) = SACCADE_ERROR_CAPACITY)"
    using e expand_segments_in_scene [OF _ assms(2), of scene "[]"] i [of "sl_target_ids s" "[]"]
    by (auto simp: expand_path_def split: sum.splits if_splits)
qed

subsection \<open>The component\<close>

text \<open>Scenes reach the reducer through the packet reader.\<close>

datatype selection_op =
    Selection_begin span_u8 selection_mode selection_context bool
  | Selection_select u64
  | Selection_backspace
  | Selection_confirm
  | Selection_cancel cancel_reason
  | Selection_refresh span_u8
  | Selection_validate selection_context u64
  | Selection_reset

primrec selection_step :: "selection_reducer \<Rightarrow> selection_op \<Rightarrow> selection_reducer" where
  "selection_step s (Selection_begin bytes mode context storage) =
     snd (selection_begin s (snd (validate_packet bytes True True)) mode context storage)"
| "selection_step s (Selection_select i) = snd (selection_select s i)"
| "selection_step s Selection_backspace = snd (selection_backspace s)"
| "selection_step s Selection_confirm = snd (selection_confirm s)"
| "selection_step s (Selection_cancel reason) = snd (selection_cancel s reason)"
| "selection_step s (Selection_refresh bytes) =
     snd (selection_refresh_scene s (snd (validate_packet bytes True True)))"
| "selection_step s (Selection_validate context now) = snd (selection_validate s context now)"
| "selection_step s Selection_reset = snd (selection_reset s)"

text \<open>How many targets a mode has while collecting and when complete.\<close>

definition mode_arity :: "selection_mode \<Rightarrow> selection_phase \<Rightarrow> nat \<Rightarrow> bool" where
  "mode_arity mode phase n \<longleftrightarrow>
     (case mode of
        Select_single \<Rightarrow> n = (if phase = Selection_complete then 1 else 0)
      | Select_dual \<Rightarrow> (if phase = Selection_complete then n = 2 else n \<le> 1)
      | Select_multi \<Rightarrow> (if phase = Selection_complete then 1 \<le> n else True)
      | Select_path \<Rightarrow> (if phase = Selection_complete then 2 \<le> n else True)
      | Select_other \<Rightarrow> False)"

definition selection_inv :: "selection_reducer \<Rightarrow> bool" where
  "selection_inv s \<longleftrightarrow>
     length (sl_target_ids s) \<le> 64 \<and>
     (sl_cancel_reason s \<noteq> Cancel_none \<longleftrightarrow> sl_state s = Selection_cancelled) \<and>
     (sl_scene s \<noteq> None \<longleftrightarrow> sl_state s \<noteq> Selection_idle) \<and> (sl_storage s \<longleftrightarrow> sl_state s \<noteq> Selection_idle) \<and>
     (if sl_state s \<in> {Selection_idle, Selection_cancelled} then sl_target_ids s = []
      else mode_arity (sl_mode s) (sl_state s) (length (sl_target_ids s))) \<and>
     (if sl_state s = Selection_complete \<and> sl_mode s = Select_path then distinct_adj (sl_target_ids s)
      else distinct (sl_target_ids s)) \<and>
     (\<forall>scene. sl_scene s = Some scene \<longrightarrow> distinct (map tr_target_id (pv_targets scene)) \<longrightarrow>
        list_all (in_scene scene) (sl_target_ids s))"

text \<open>In a scene without repeated identifiers, counting the targets that are selected tells
  whether the selection, itself without repetitions, is still there.\<close>

lemma count_selected_card:
  assumes "distinct (map tr_target_id ts)"
  shows "count_selected ids ts = card (set ids \<inter> set (map tr_target_id ts))"
proof -
  have "count_selected ids ts = length (filter (\<lambda>i. i \<in> set ids) (map tr_target_id ts))"
    by (simp add: count_selected_def filter_map comp_def)
  also have "\<dots> = card (set (filter (\<lambda>i. i \<in> set ids) (map tr_target_id ts)))"
    using assms by (simp only: distinct_card distinct_filter)
  also have "set (filter (\<lambda>i. i \<in> set ids) (map tr_target_id ts)) = set ids \<inter> set (map tr_target_id ts)" by auto
  finally show ?thesis .
qed

lemma count_selected_all:
  assumes "distinct (map tr_target_id (pv_targets scene))"
  shows "count_selected ids (pv_targets scene) = length ids \<longleftrightarrow> distinct ids \<and> list_all (in_scene scene) ids"
proof
  assume c: "count_selected ids (pv_targets scene) = length ids"
  let ?i = "set ids \<inter> set (map tr_target_id (pv_targets scene))"
  have "card ?i \<le> card (set ids)" by (intro card_mono) auto
  moreover have "card (set ids) \<le> length ids" by (rule card_length)
  ultimately have e: "card (set ids) = length ids" "card ?i = card (set ids)"
    using c count_selected_card [OF assms, of ids] by linarith+
  then have "?i = set ids" by (intro card_subset_eq) auto
  then show "distinct ids \<and> list_all (in_scene scene) ids"
    using e(1) card_distinct by (auto simp: list_all_iff in_scene_def)
next
  assume a: "distinct ids \<and> list_all (in_scene scene) ids"
  then have "set ids \<inter> set (map tr_target_id (pv_targets scene)) = set ids"
    by (auto simp: list_all_iff in_scene_def)
  then show "count_selected ids (pv_targets scene) = length ids"
    using a count_selected_card [OF assms, of ids] distinct_card by metis
qed

lemma selection_idle_inv: "selection_inv (fresh_selection\<lparr>sl_stats := stats\<rparr>)"
  by (simp add: selection_inv_def fresh_selection_def)

lemma begin_selection_inv: "selection_inv s \<Longrightarrow> selection_inv (snd (selection_begin s scene mode context storage))"
proof (cases "fst (selection_begin s scene mode context storage) = SACCADE_OK")
  case True
  assume "selection_inv s"
  obtain v where v: "scene = Some v" "storage" "mode \<noteq> Select_other"
    "snd (selection_begin s scene mode context storage) = s\<lparr>sl_scene := Some v, sl_storage := True,
       sl_context := context, sl_target_ids := [], sl_mode := mode, sl_state := Selection_collecting,
       sl_cancel_reason := Cancel_none,
       sl_stats := (sl_stats s)\<lparr>st_sessions_started := st_sessions_started (sl_stats s) + 1\<rparr>\<rparr>"
    using True by (auto simp: selection_begin_def split: option.splits if_splits)
  then show ?thesis by (cases mode) (auto simp: selection_inv_def mode_arity_def)
next
  case False
  assume "selection_inv s"
  moreover have "snd (selection_begin s scene mode context storage) = s"
    using False by (auto simp: selection_begin_def split: option.splits if_splits)
  ultimately show ?thesis by simp
qed

lemma select_inv: "selection_inv s \<Longrightarrow> selection_inv (snd (selection_select s i))"
proof (cases "fst (selection_select s i) = SACCADE_OK")
  case True
  assume inv: "selection_inv s"
  from True obtain scene where c: "sl_scene s = Some scene" "sl_state s = Selection_collecting" "in_scene scene i"
    "i \<notin> set (sl_target_ids s)" "length (sl_target_ids s) \<noteq> 64"
    "snd (selection_select s i) = s\<lparr>sl_target_ids := sl_target_ids s @ [i],
       sl_stats := (sl_stats s)\<lparr>st_targets_selected := st_targets_selected (sl_stats s) + 1\<rparr>,
       sl_state := (if sl_mode s = Select_single \<or> (sl_mode s = Select_dual \<and> length (sl_target_ids s @ [i]) = 2)
                    then Selection_complete else sl_state s)\<rparr>"
    using scene_target_None
    by (auto simp: selection_select_def selected_def Let_def maximum_selection_targets_def split: option.splits if_splits)
  have a: "mode_arity (sl_mode s) Selection_collecting (length (sl_target_ids s))" "distinct (sl_target_ids s)"
    "length (sl_target_ids s) < 64" "distinct (map tr_target_id (pv_targets scene)) \<Longrightarrow> list_all (in_scene scene) (sl_target_ids s)"
    using inv c(1,2,5) unfolding selection_inv_def by auto
  show ?thesis unfolding c(6) using inv c(1-4) a
    by (cases "sl_mode s") (auto simp: selection_inv_def mode_arity_def le_Suc_eq)
next
  case False
  assume "selection_inv s"
  moreover have "snd (selection_select s i) = s"
    using False by (auto simp: selection_select_def Let_def split: option.splits if_splits)
  ultimately show ?thesis by simp
qed

lemma backspace_inv: "selection_inv s \<Longrightarrow> selection_inv (snd (selection_backspace s))"
  by (cases "sl_mode s")
    (auto simp: selection_backspace_def selection_inv_def mode_arity_def distinct_butlast list_all_iff dest: in_set_butlastD)

lemma cancel_inv: "selection_inv s \<Longrightarrow> selection_inv (snd (selection_cancel s reason))"
  by (auto simp: selection_cancel_def selection_inv_def)

lemma validate_inv: "selection_inv s \<Longrightarrow> selection_inv (snd (selection_validate s context now))"
  by (simp add: selection_validate_def Let_def cancel_inv)

lemma refresh_inv: "selection_inv s \<Longrightarrow> selection_inv (snd (selection_refresh_scene s scene))"
proof (cases "fst (selection_refresh_scene s scene) = SACCADE_OK")
  case True
  assume inv: "selection_inv s"
  from True obtain v where v: "scene = Some v" "count_selected (sl_target_ids s) (pv_targets v) = length (sl_target_ids s)"
    "sl_state s \<noteq> Selection_idle"
    "snd (selection_refresh_scene s scene) = s\<lparr>sl_scene := Some v,
       sl_context := (sl_context s)\<lparr>sx_scene_epoch := ph_scene_epoch (pv_header v)\<rparr>,
       sl_stats := (sl_stats s)\<lparr>st_scene_refreshes := st_scene_refreshes (sl_stats s) + 1\<rparr>\<rparr>"
    by (auto simp: selection_refresh_scene_def split: option.splits if_splits)
  have m: "distinct (map tr_target_id (pv_targets v)) \<longrightarrow> list_all (in_scene v) (sl_target_ids s)"
    using count_selected_all [of v "sl_target_ids s"] v(2) by blast
  show ?thesis unfolding v(4) using inv v(3) m by (auto simp: selection_inv_def)
next
  case False
  assume "selection_inv s"
  moreover have "snd (selection_refresh_scene s scene) = s"
    using False by (auto simp: selection_refresh_scene_def split: option.splits if_splits)
  ultimately show ?thesis by simp
qed

text \<open>What confirming a selection does, path or not.\<close>

lemma confirm_cases:
  assumes "selection_inv s"
  shows "fst (selection_confirm s) \<noteq> SACCADE_OK \<and> snd (selection_confirm s) = s \<or>
    (\<exists>scene. sl_scene s = Some scene \<and> sl_state s = Selection_collecting \<and> fst (selection_confirm s) = SACCADE_OK \<and>
       sl_scene (snd (selection_confirm s)) = Some scene \<and> sl_state (snd (selection_confirm s)) = Selection_complete \<and>
       sl_mode (snd (selection_confirm s)) = sl_mode s \<and> sl_storage (snd (selection_confirm s)) = sl_storage s \<and>
       sl_cancel_reason (snd (selection_confirm s)) = sl_cancel_reason s \<and>
       (sl_mode s = Select_multi \<and> sl_target_ids s \<noteq> [] \<and> sl_target_ids (snd (selection_confirm s)) = sl_target_ids s \<or>
        sl_mode s = Select_path \<and> 2 \<le> length (sl_target_ids s) \<and> fst (expand_path s scene) = SACCADE_OK \<and>
        sl_target_ids (snd (selection_confirm s)) = sl_target_ids (snd (expand_path s scene))))"
  by (auto simp: selection_confirm_def expand_path_def Let_def split: option.splits prod.splits sum.splits if_splits)

lemma reading_path_in_scene:
  assumes "list_all (in_scene scene) anchors"
  shows "list_all (in_scene scene) (reading_path scene anchors)"
proof -
  have "list_all (in_scene scene) (concat (map2 (path_segment scene) anchors (tl anchors)))"
    using assms path_segment_ends(2) by (induction anchors rule: induct_list012) auto
  then show ?thesis by (simp add: reading_path_def list_all_iff)
qed

lemma reading_path_two:
  assumes "list_all (in_scene scene) anchors" "distinct anchors" "2 \<le> length anchors"
  shows "2 \<le> length (reading_path scene anchors)"
proof -
  obtain a b rest where abr: "anchors = a # b # rest" using assms(3) by (cases anchors; cases "tl anchors") auto
  then have "{a, b} \<subseteq> set (reading_path scene anchors)"
    using path_segment_ends(1) [of scene a b] assms(1) by (auto simp: reading_path_def)
  then show ?thesis using abr assms(2) by (intro two_elements [of a _ b]) auto
qed

lemma confirm_inv: "selection_inv s \<Longrightarrow> selection_inv (snd (selection_confirm s))"
proof -
  assume inv: "selection_inv s"
  from confirm_cases [OF inv] consider
      "snd (selection_confirm s) = s"
    | scene where "sl_scene s = Some scene" "sl_state s = Selection_collecting" "sl_mode s = Select_multi" "sl_target_ids s \<noteq> []"
       "sl_scene (snd (selection_confirm s)) = Some scene" "sl_state (snd (selection_confirm s)) = Selection_complete"
       "sl_mode (snd (selection_confirm s)) = sl_mode s" "sl_storage (snd (selection_confirm s)) = sl_storage s"
       "sl_cancel_reason (snd (selection_confirm s)) = sl_cancel_reason s" "sl_target_ids (snd (selection_confirm s)) = sl_target_ids s"
    | scene where "sl_scene s = Some scene" "sl_state s = Selection_collecting" "sl_mode s = Select_path" "2 \<le> length (sl_target_ids s)"
       "sl_scene (snd (selection_confirm s)) = Some scene" "sl_state (snd (selection_confirm s)) = Selection_complete"
       "sl_mode (snd (selection_confirm s)) = sl_mode s" "sl_storage (snd (selection_confirm s)) = sl_storage s"
       "sl_cancel_reason (snd (selection_confirm s)) = sl_cancel_reason s" "fst (expand_path s scene) = SACCADE_OK"
       "sl_target_ids (snd (selection_confirm s)) = sl_target_ids (snd (expand_path s scene))"
    by blast
  then show ?thesis
  proof cases
    case 1
    then show ?thesis using inv by simp
  next
    case 2
    then show ?thesis using inv by (auto simp: selection_inv_def mode_arity_def Suc_le_eq)
  next
    case 3
    have d: "distinct (sl_target_ids s)" using inv 3(2) by (simp add: selection_inv_def)
    note p = expand_path_exact [OF d 3(4), of scene]
    have r: "list_all (in_scene scene) (sl_target_ids s)" "path_fits scene (sl_target_ids s)"
      "sl_target_ids (snd (selection_confirm s)) = reading_path scene (sl_target_ids s)"
      using p(1,2) 3(10,11) by auto
    then show ?thesis using inv 3 reading_path_in_scene [OF r(1)] reading_path_two [OF r(1) d 3(4)]
      by (simp add: selection_inv_def mode_arity_def path_fits_def) (simp add: reading_path_def distinct_adj_remdups_adj)
  qed
qed

lemma selection_inv_step: "selection_inv s \<Longrightarrow> selection_inv (selection_step s e)"
  by (cases e) (simp_all add: begin_selection_inv select_inv backspace_inv cancel_inv validate_inv refresh_inv confirm_inv
    selection_reset_def selection_idle_inv)

interpretation selection: invariant_machine fresh_selection selection_step selection_inv
  by unfold_locales (use selection_idle_inv [of "sl_stats fresh_selection"] in simp, rule selection_inv_step)

lemma repeats_refuse_refresh:
  assumes "distinct (map tr_target_id (pv_targets scene))" "\<not> distinct (sl_target_ids s)"
  shows "selection_refresh_scene s (Some scene) = (SACCADE_ERROR_STALE_HANDLE, s)"
  using count_selected_all [OF assms(1), of "sl_target_ids s"] assms(2) by (simp add: selection_refresh_scene_def)

lemma path_confirm:
  assumes "selection_inv s" "sl_scene s = Some scene" "sl_state s = Selection_collecting" "sl_mode s = Select_path"
    "2 \<le> length (sl_target_ids s)" "selection_confirm s = (r, s')"
  shows "if list_all (in_scene scene) (sl_target_ids s) \<and> path_fits scene (sl_target_ids s)
     then r = SACCADE_OK \<and> sl_target_ids s' = reading_path scene (sl_target_ids s) \<and> sl_state s' = Selection_complete
     else s' = s \<and> (if list_all (in_scene scene) (sl_target_ids s) then r = SACCADE_ERROR_CAPACITY else r \<noteq> SACCADE_OK)"
proof -
  have "distinct (sl_target_ids s)" using assms(1,3) by (simp add: selection_inv_def)
  note p = expand_path_exact [OF this assms(5), of scene]
  have c: "selection_confirm s = (let (result, s) = expand_path s scene in
      if result \<noteq> SACCADE_OK then (result, s)
      else (SACCADE_OK, s\<lparr>sl_state := Selection_complete,
              sl_stats := (sl_stats s)\<lparr>st_confirmations := st_confirmations (sl_stats s) + 1\<rparr>\<rparr>))"
    using assms(2-5) by (simp add: selection_confirm_def)
  obtain q s1 where e: "expand_path s scene = (q, s1)" by fastforce
  show ?thesis using p c assms(6) unfolding e by (auto simp: Let_def split: if_splits)
qed

subsection \<open>Properties\<close>

text \<open>C20. After any operations the selection is bounded by its storage, has as many targets as its
  mode asks for when complete, repeats none (a path: none twice in a row), is empty before it
  begins and after it was cancelled, and while the current scene has no repeated identifiers every
  selected target is in it, also after the scene was refreshed.\<close>

theorem selection_invariant:
  "let s = foldl selection_step fresh_selection ops; ids = sl_target_ids s; view = selection_view_of s in
     length ids \<le> maximum_selection_targets \<and>
     (sv_target_ids view = (if sl_state s = Selection_idle then None else Some ids)) \<and>
     (case sl_state s of
        Selection_idle \<Rightarrow> ids = []
      | Selection_cancelled \<Rightarrow> ids = [] \<and> sv_cancel_reason view \<noteq> Cancel_none
      | phase \<Rightarrow> mode_arity (sl_mode s) phase (length ids)) \<and>
     (if sl_state s = Selection_complete \<and> sl_mode s = Select_path then distinct_adj ids else distinct ids) \<and>
     (case sl_scene s of
        None \<Rightarrow> ids = []
      | Some scene \<Rightarrow> if distinct (map tr_target_id (pv_targets scene)) then list_all (in_scene scene) ids else True)"
proof -
  define s where "s = foldl selection_step fresh_selection ops"
  note inv = selection.inv_run [of ops, folded s_def]
  show ?thesis unfolding s_def [symmetric] Let_def using inv
    by (auto simp: selection_inv_def selection_view_of_def maximum_selection_targets_def split: selection_phase.split option.split)
qed

text \<open>C27. Confirming a path replaces its anchors by the path through the reading order: for each
  pair of neighbouring anchors all targets of the scene between them in the order (order, identifier),
  in the direction of travel, joined without repeating a target in a row. It does so exactly when the
  anchors are still in the scene and every part and the whole fit the 64 places; otherwise
  nothing changes and the reason is the capacity, or an anchor that left the scene.\<close>

theorem path_expansion_exact:
  "let s = foldl selection_step fresh_selection ops; anchors = sl_target_ids s; (r, s') = selection_confirm s in
   if sl_state s = Selection_collecting \<and> sl_mode s = Select_path \<and> 2 \<le> length anchors
   then case sl_scene s of
     None \<Rightarrow> False
   | Some scene \<Rightarrow>
       if list_all (in_scene scene) anchors \<and> path_fits scene anchors
       then r = SACCADE_OK \<and> sl_target_ids s' = reading_path scene anchors \<and> sl_state s' = Selection_complete
       else s' = s \<and> (if list_all (in_scene scene) anchors then r = SACCADE_ERROR_CAPACITY else r \<noteq> SACCADE_OK)
   else True"
proof -
  define s where "s = foldl selection_step fresh_selection ops"
  note inv = selection.inv_run [of ops, folded s_def]
  obtain r s' where c: "selection_confirm s = (r, s')" by fastforce
  show ?thesis
  proof (cases "sl_state s = Selection_collecting \<and> sl_mode s = Select_path \<and> 2 \<le> length (sl_target_ids s)")
    case False
    show ?thesis unfolding s_def [symmetric] Let_def c prod.case if_not_P [OF False] by (rule TrueI)
  next
    case True
    then obtain scene where sc: "sl_scene s = Some scene" using inv by (auto simp: selection_inv_def)
    show ?thesis
      unfolding s_def [symmetric] Let_def c prod.case sc option.case if_P [OF True]
      using path_confirm [OF inv sc _ _ _ c] True by blast
  qed
qed

end
