(* ===== verification/Action_Planner.thy ===== *)
theory Action_Planner
  imports Execution_Preflight Physical_Reducer Coordinate_Transform
begin

text \<open>
  Turning an action on selected targets into an input plan,
  \<open>src/interaction/action_planner.{hpp,cpp}\<close>.

  The plan is written into the caller's storage; the model returns the bytes that the output span
  covers. A kind or an array pointer out of range is a constructor of its own: \<open>Action_other\<close>, and
  \<open>None\<close> for the null pointers \<open>target_ids\<close> and \<open>target_points\<close>. The array of targets has
  \<open>target_count\<close> entries, the array of points \<open>target_point_count\<close>.
\<close>

abbreviation maximum_action_targets :: nat where "maximum_action_targets \<equiv> 64"

text \<open>\<open>maximum_plan_payload_bytes\<close> and \<open>maximum_plan_bytes\<close> of \<open>input/plan.hpp\<close>.\<close>

definition maximum_plan_payload_bytes :: nat where "maximum_plan_payload_bytes = 16384"

definition maximum_plan_bytes :: nat where
  "maximum_plan_bytes = plan_header_size + unat input_plan_max_commands * command_size + maximum_plan_payload_bytes"

datatype action_kind = Action_pointer_move | Action_click | Action_hold | Action_drag | Action_scroll | Action_key |
  Action_text | Action_window_activate | Action_release | Action_text_select | Action_invoke | Action_other

record action_context =
  ax_plan_id :: u64
  ax_scene_epoch :: u64
  ax_transform_epoch :: u64
  ax_topology_epoch :: u64
  ax_permission_epoch :: u64
  ax_focus_id :: u64
  ax_window_id :: u64
  ax_display_id :: u64
  ax_now_ns :: u64
  ax_deadline_ns :: u64
  ax_permissions :: u32
  ax_expected_buttons :: u32
  ax_plan_flags :: u32
  ax_reserved :: u32

record action_request =
  ar_kind :: action_kind
  ar_target_ids :: "u64 list option"
  ar_target_points :: "point_q8 list option"
  ar_target_count :: u32
  ar_target_point_count :: u32
  ar_button :: u32
  ar_repeat_count :: u32
  ar_key_usage :: u32
  ar_modifiers :: u32
  ar_delta_x_q8 :: i32
  ar_delta_y_q8 :: i32
  ar_duration_ns :: u64
  ar_pointer_duration_ns :: u64
  ar_final_pointer :: point_q8
  ar_text :: span_u8
  ar_move_to_final_pointer :: bool
  ar_allow_point_outside_target :: bool
  ar_reserved :: "u8 list"

record action_planner_stats =
  as_plans_built :: u64
  as_commands_built :: u64
  as_targets_resolved :: u64
  as_rejected_stale :: u64
  as_rejected_unsafe :: u64
  as_rejected_permission :: u64

subsection \<open>Targets\<close>

definition plan_target :: "packet_view \<Rightarrow> u64 \<Rightarrow> target_record option" where
  "plan_target scene target_id = List.find (\<lambda>t. tr_target_id t = target_id) (pv_targets scene)"

definition target_safe :: "target_record \<Rightarrow> u32 \<Rightarrow> bool" where
  "target_safe t capabilities \<longleftrightarrow>
     tr_flags t AND TARGET_ACTIONABLE \<noteq> 0 \<and>
     tr_flags t AND (TARGET_DISABLED OR TARGET_OCCLUDED OR TARGET_SECURE) = 0 \<and>
     tr_capability_bits t AND capabilities = capabilities"

definition point_inside_target :: "target_record \<Rightarrow> point_q8 \<Rightarrow> bool" where
  "point_inside_target t p \<longleftrightarrow>
     (let right = sint (tr_x_q8 t) + sint (tr_width_q8 t); bottom = sint (tr_y_q8 t) + sint (tr_height_q8 t) in
      sint (pt_x p) \<ge> sint (tr_x_q8 t) \<and> sint (pt_y p) \<ge> sint (tr_y_q8 t) \<and> sint (pt_x p) < right \<and> sint (pt_y p) < bottom)"

definition required_capability :: "action_kind \<Rightarrow> bool \<Rightarrow> u32" where
  "required_capability kind destination =
     (case kind of
        Action_pointer_move \<Rightarrow> CAPABILITY_POINTER_MOVE
      | Action_click \<Rightarrow> CAPABILITY_BUTTON
      | Action_hold \<Rightarrow> CAPABILITY_BUTTON
      | Action_invoke \<Rightarrow> CAPABILITY_INVOKE
      | Action_drag \<Rightarrow> (if destination then CAPABILITY_DROP_TARGET else CAPABILITY_DRAG_SOURCE)
      | Action_scroll \<Rightarrow> CAPABILITY_SCROLL
      | Action_text \<Rightarrow> CAPABILITY_TEXT
      | Action_text_select \<Rightarrow> CAPABILITY_TEXT_SELECT
      | Action_window_activate \<Rightarrow> CAPABILITY_WINDOW_ACTIVATE
      | _ \<Rightarrow> 0)"

definition action_button :: "u32 \<Rightarrow> bool" where
  "action_button v \<longleftrightarrow> v \<noteq> 0 \<and> v AND (v - 1) = 0 \<and> v AND NOT button_mask = 0"

definition request_shape_valid :: "action_request \<Rightarrow> bool" where
  "request_shape_valid r =
     (if ar_kind r = Action_other \<or> unat (ar_target_count r) > maximum_action_targets \<or> ar_repeat_count r = 0 \<or>
         ar_repeat_count r > 16 \<or> ar_modifiers r AND NOT modifier_mask \<noteq> 0
      then False
      else if \<not> list_all (\<lambda>b. b = 0) (ar_reserved r) then False
      else if (ar_target_points r = None) \<noteq> (ar_target_point_count r = 0) \<or>
         (ar_target_points r \<noteq> None \<and> ar_target_point_count r \<noteq> ar_target_count r)
      then False
      else let has_targets = (ar_target_ids r \<noteq> None \<and> ar_target_count r \<noteq> 0) in
       case ar_kind r of
         Action_key \<Rightarrow> ar_target_count r = 0 \<and> ar_key_usage r \<noteq> 0 \<and> span_size (ar_text r) = 0
       | Action_release \<Rightarrow> ar_target_count r = 0 \<and> action_button (ar_button r) \<and> span_size (ar_text r) = 0
       | Action_drag \<Rightarrow> has_targets \<and> ar_target_count r = 2 \<and> action_button (ar_button r)
       | Action_text_select \<Rightarrow> has_targets \<and> ar_target_count r = 2 \<and> action_button (ar_button r)
       | Action_click \<Rightarrow> has_targets \<and> action_button (ar_button r)
       | Action_invoke \<Rightarrow> has_targets \<and> ar_target_count r = 1 \<and> action_button (ar_button r)
       | Action_hold \<Rightarrow> has_targets \<and> ar_target_count r = 1 \<and> action_button (ar_button r)
       | Action_scroll \<Rightarrow> has_targets \<and> ar_target_count r = 1 \<and> (ar_delta_x_q8 r \<noteq> 0 \<or> ar_delta_y_q8 r \<noteq> 0)
       | Action_text \<Rightarrow> has_targets \<and> ar_target_count r = 1 \<and>
           (case ar_text r of Null_span _ \<Rightarrow> False
            | Span bytes \<Rightarrow> length bytes \<noteq> 0 \<and> length bytes \<le> maximum_plan_payload_bytes)
       | Action_pointer_move \<Rightarrow> has_targets \<and> ar_target_count r = 1
       | Action_window_activate \<Rightarrow> has_targets \<and> ar_target_count r = 1
       | Action_other \<Rightarrow> False)"

text \<open>The targets of the request, with the requested points in place of their safe points. Entries
  an array does not have are unspecified.\<close>

fun resolve_targets :: "packet_view \<Rightarrow> action_request \<Rightarrow> nat list \<Rightarrow> target_record list option" where
  "resolve_targets scene r [] = Some []"
| "resolve_targets scene r (i # indices) =
     (case plan_target scene (the (ar_target_ids r) ! i) of
        None \<Rightarrow> None
      | Some source \<Rightarrow>
          if \<not> target_safe source (required_capability (ar_kind r) (ar_kind r = Action_drag \<and> i = 1)) then None
          else case ar_target_points r of
            None \<Rightarrow> map_option (Cons source) (resolve_targets scene r indices)
          | Some points \<Rightarrow>
              let p = points ! i in
              if \<not> ar_allow_point_outside_target r \<and> \<not> point_inside_target source p then None
              else map_option (Cons (source\<lparr>tr_safe_x_q8 := pt_x p, tr_safe_y_q8 := pt_y p\<rparr>))
                (resolve_targets scene r indices))"

subsection \<open>Commands\<close>

text \<open>A value-initialised command, and a command at a target's safe point.\<close>

definition zero_command :: input_command where
  "zero_command = \<lparr>ic_kind = 0, ic_flags = 0, ic_target_id = 0, ic_x_q8 = 0, ic_y_q8 = 0, ic_delta_x_q8 = 0,
     ic_delta_y_q8 = 0, ic_data0 = 0, ic_data1 = 0, ic_duration_ns = 0, ic_payload_offset = 0, ic_payload_size = 0,
     ic_data2 = 0, ic_reserved32 = 0\<rparr>"

definition target_command :: "u32 \<Rightarrow> target_record \<Rightarrow> input_command" where
  "target_command kind t = zero_command\<lparr>ic_kind := kind, ic_flags := COMMAND_ABSOLUTE, ic_target_id := tr_target_id t,
     ic_x_q8 := tr_safe_x_q8 t, ic_y_q8 := tr_safe_y_q8 t\<rparr>"

definition append_command :: "input_command list \<Rightarrow> input_command \<Rightarrow> input_command list option" where
  "append_command commands c =
     (if length commands = unat input_plan_max_commands then None else Some (commands @ [c]))"

text \<open>\<open>(void)append\<close>: a command that does not fit is dropped.\<close>

definition append_dropping :: "input_command list \<Rightarrow> input_command \<Rightarrow> input_command list" where
  "append_dropping commands c = (case append_command commands c of None \<Rightarrow> commands | Some cs \<Rightarrow> cs)"

fun click_commands :: "action_request \<Rightarrow> target_record list \<Rightarrow> input_command list \<Rightarrow> input_command list option" where
  "click_commands r [] commands = Some commands"
| "click_commands r (t # ts) commands =
     (let moved = (if ar_pointer_duration_ns r \<noteq> 0
                   then append_command commands ((target_command COMMAND_POINTER_MOVE t)\<lparr>ic_duration_ns := ar_pointer_duration_ns r\<rparr>)
                   else Some commands)
      in case moved of
        None \<Rightarrow> None
      | Some commands \<Rightarrow>
          (case append_command commands ((target_command COMMAND_CLICK t)\<lparr>ic_data0 := ar_button r,
                  ic_data1 := ar_repeat_count r, ic_data2 := ar_modifiers r\<rparr>) of
             None \<Rightarrow> None
           | Some commands \<Rightarrow> click_commands r ts commands))"

text \<open>Press at the first target, move to the second, release: dragging and selecting text.\<close>

definition drag_commands :: "action_request \<Rightarrow> target_record list \<Rightarrow> input_command list" where
  "drag_commands r targets =
     foldl append_dropping []
       [target_command COMMAND_POINTER_MOVE (targets ! 0),
        (target_command COMMAND_BUTTON_DOWN (targets ! 0))\<lparr>ic_data0 := ar_button r\<rparr>,
        (target_command COMMAND_POINTER_MOVE (targets ! 1))\<lparr>ic_duration_ns := ar_duration_ns r\<rparr>,
        (target_command COMMAND_BUTTON_UP (targets ! 1))\<lparr>ic_data0 := ar_button r\<rparr>]"

definition action_commands :: "action_request \<Rightarrow> target_record list \<Rightarrow> input_command list option" where
  "action_commands r targets =
     (case ar_kind r of
        Action_pointer_move \<Rightarrow> Some (append_dropping []
          ((target_command COMMAND_POINTER_MOVE (targets ! 0))\<lparr>ic_duration_ns := ar_pointer_duration_ns r\<rparr>))
      | Action_click \<Rightarrow> click_commands r targets []
      | Action_invoke \<Rightarrow> click_commands r targets []
      | Action_hold \<Rightarrow> Some (foldl append_dropping []
          [target_command COMMAND_POINTER_MOVE (targets ! 0),
           (target_command COMMAND_BUTTON_DOWN (targets ! 0))\<lparr>ic_flags := COMMAND_ABSOLUTE OR COMMAND_CONTINUOUS,
             ic_data0 := ar_button r, ic_duration_ns := ar_duration_ns r\<rparr>])
      | Action_drag \<Rightarrow> Some (drag_commands r targets)
      | Action_scroll \<Rightarrow> Some (append_dropping []
          ((target_command COMMAND_SCROLL (targets ! 0))\<lparr>ic_delta_x_q8 := ar_delta_x_q8 r,
             ic_delta_y_q8 := ar_delta_y_q8 r, ic_duration_ns := ar_duration_ns r,
             ic_flags := (if ar_duration_ns r \<noteq> 0 then COMMAND_ABSOLUTE OR COMMAND_CONTINUOUS else COMMAND_ABSOLUTE)\<rparr>))
      | Action_key \<Rightarrow>
          let down = zero_command\<lparr>ic_kind := COMMAND_KEY_DOWN, ic_flags := COMMAND_PHYSICAL_KEY,
                ic_data0 := ar_key_usage r, ic_data1 := ar_modifiers r\<rparr>
          in Some (foldl append_dropping [] [down, down\<lparr>ic_kind := COMMAND_KEY_UP\<rparr>])
      | Action_text \<Rightarrow> Some (foldl append_dropping []
          [(target_command COMMAND_CLICK (targets ! 0))\<lparr>ic_data0 := ar_button r, ic_data1 := 1\<rparr>,
           (target_command COMMAND_TEXT (targets ! 0))\<lparr>ic_payload_size := word_of_nat (span_size (ar_text r))\<rparr>])
      | Action_window_activate \<Rightarrow> Some (append_dropping [] (target_command COMMAND_WINDOW_ACTIVATE (targets ! 0)))
      | Action_release \<Rightarrow> Some (append_dropping []
          (zero_command\<lparr>ic_kind := COMMAND_BUTTON_UP, ic_data0 := ar_button r\<rparr>))
      | Action_text_select \<Rightarrow> Some (drag_commands r targets)
      | Action_other \<Rightarrow> Some [])"

definition action_permissions :: "action_kind \<Rightarrow> u32" where
  "action_permissions kind =
     (case kind of
        Action_key \<Rightarrow> PERMISSION_KEYBOARD
      | Action_text \<Rightarrow> PERMISSION_POINTER OR PERMISSION_TEXT
      | Action_window_activate \<Rightarrow> PERMISSION_WINDOW
      | Action_other \<Rightarrow> 0
      | _ \<Rightarrow> PERMISSION_POINTER)"

definition final_commands :: "action_request \<Rightarrow> input_command list \<Rightarrow> input_command list option" where
  "final_commands r commands =
     (if ar_move_to_final_pointer r \<and> ar_kind r \<noteq> Action_hold \<and> ar_kind r \<noteq> Action_window_activate
      then append_command commands (zero_command\<lparr>ic_kind := COMMAND_POINTER_MOVE, ic_flags := COMMAND_ABSOLUTE,
             ic_x_q8 := pt_x (ar_final_pointer r), ic_y_q8 := pt_y (ar_final_pointer r),
             ic_duration_ns := ar_pointer_duration_ns r\<rparr>)
      else Some commands)"

subsection \<open>The plan\<close>

text \<open>The second command of a text action carries the payload.\<close>

definition place_payload :: "action_request \<Rightarrow> nat \<Rightarrow> input_command list \<Rightarrow> input_command list" where
  "place_payload r payload_offset commands =
     (if ar_kind r = Action_text
      then commands[1 := (commands ! 1)\<lparr>ic_payload_offset := word_of_nat payload_offset\<rparr>] else commands)"

definition action_header :: "packet_header \<Rightarrow> action_context \<Rightarrow> action_request \<Rightarrow> target_record list \<Rightarrow> nat \<Rightarrow> nat \<Rightarrow> input_plan_header" where
  "action_header scene context r targets command_count total_size =
     \<lparr>ih_struct_size = word_of_nat plan_header_size, ih_plan_version = INPUT_PLAN_VERSION,
      ih_command_count = word_of_nat command_count, ih_command_stride = word_of_nat command_size,
      ih_flags = ax_plan_flags context, ih_required_permissions = action_permissions (ar_kind r),
      ih_expected_buttons = ax_expected_buttons context, ih_reserved32 = 0, ih_plan_id = ax_plan_id context,
      ih_scene_epoch = ph_scene_epoch scene, ih_frame_id = ph_frame_id scene, ih_model_epoch = ph_model_epoch scene,
      ih_session_epoch = ph_session_epoch scene, ih_transform_epoch = ph_transform_epoch scene,
      ih_topology_epoch = ph_topology_epoch scene, ih_permission_epoch = ax_permission_epoch context,
      ih_source_id = ph_source_id scene, ih_focus_id = ax_focus_id context,
      ih_window_id = (if ar_target_count r = 0 then 0
         else if tr_window_id (targets ! 0) = 0 then ax_window_id context else tr_window_id (targets ! 0)),
      ih_display_id = (if ar_target_count r = 0 then 0
         else if tr_display_id (targets ! 0) = 0 then ax_display_id context else tr_display_id (targets ! 0)),
      ih_deadline_ns = ax_deadline_ns context, ih_commands_offset = word_of_nat plan_header_size,
      ih_total_size = word_of_nat total_size, ih_reserved = 0\<rparr>"

definition build_arguments_valid :: "action_context \<Rightarrow> action_request \<Rightarrow> bool" where
  "build_arguments_valid context r \<longleftrightarrow>
     \<not> (ax_plan_id context = 0 \<or> ax_permission_epoch context = 0 \<or> ax_deadline_ns context = 0 \<or>
        ax_now_ns context \<ge> ax_deadline_ns context \<or> ax_permissions context AND NOT permission_mask \<noteq> 0 \<or>
        ax_expected_buttons context AND NOT button_mask \<noteq> 0 \<or> ax_reserved context \<noteq> 0 \<or> \<not> request_shape_valid r)"

text \<open>The bytes a request writes, \<open>None\<close> when its commands do not fit.\<close>

definition plan_of_action :: "packet_view \<Rightarrow> action_context \<Rightarrow> action_request \<Rightarrow> target_record list \<Rightarrow> input_command list \<Rightarrow>
    input_plan_header \<times> input_command list \<times> u8 list" where
  "plan_of_action scene context r targets commands =
     (let payload_offset = plan_header_size + length commands * command_size;
          payload = (if ar_kind r = Action_text then span_bytes (ar_text r) else []);
          total_size = payload_offset + length payload
      in (action_header (pv_header scene) context r targets (length commands) total_size,
          place_payload r payload_offset commands, payload))"

text \<open>Results: the code, the bytes of the plan, the statistics.\<close>

definition build_plan ::
  "action_planner_stats \<Rightarrow> packet_view option \<Rightarrow> action_context \<Rightarrow> action_request \<Rightarrow> bool \<Rightarrow> bool \<Rightarrow>
     saccade_result \<times> u8 list option \<times> action_planner_stats" where
  "build_plan stats scene context r storage output =
     (case scene of
        None \<Rightarrow> (SACCADE_ERROR_INVALID_ARGUMENT, None, stats)
      | Some v \<Rightarrow>
          if \<not> storage \<or> \<not> output \<or> \<not> build_arguments_valid context r
          then (SACCADE_ERROR_INVALID_ARGUMENT, None, stats)
          else if ph_coordinate_space (pv_header v) \<noteq> SPACE_DESKTOP_Q8 \<or>
             ph_scene_epoch (pv_header v) \<noteq> ax_scene_epoch context \<or>
             ph_transform_epoch (pv_header v) \<noteq> ax_transform_epoch context \<or>
             ph_topology_epoch (pv_header v) \<noteq> ax_topology_epoch context
          then (SACCADE_ERROR_STALE_HANDLE, None, stats\<lparr>as_rejected_stale := as_rejected_stale stats + 1\<rparr>)
          else case resolve_targets v r [0..<unat (ar_target_count r)] of
            None \<Rightarrow> (SACCADE_ERROR_NOT_FOUND, None, stats\<lparr>as_rejected_unsafe := as_rejected_unsafe stats + 1\<rparr>)
          | Some targets \<Rightarrow>
              (case Option.bind (action_commands r targets) (final_commands r) of
                 None \<Rightarrow> (SACCADE_ERROR_CAPACITY, None, stats)
               | Some commands \<Rightarrow>
                   if ax_permissions context AND action_permissions (ar_kind r) \<noteq> action_permissions (ar_kind r)
                   then (SACCADE_ERROR_UNSUPPORTED, None, stats\<lparr>as_rejected_permission := as_rejected_permission stats + 1\<rparr>)
                   else let (header, commands, payload) = plan_of_action v context r targets commands;
                            bytes = put_plan_header header @ concat (map put_command commands) @ payload
                     in if fst (validate_plan (Span bytes) True True) \<noteq> SACCADE_OK then (SACCADE_ERROR_STATE, None, stats)
                        else (SACCADE_OK, Some bytes, stats\<lparr>as_plans_built := as_plans_built stats + 1,
                               as_commands_built := as_commands_built stats + word_of_nat (length commands),
                               as_targets_resolved := as_targets_resolved stats + ucast (ar_target_count r)\<rparr>)))"

subsection \<open>Resolved targets\<close>

definition addressable :: "packet_view \<Rightarrow> u64 \<Rightarrow> bool" where
  "addressable scene i \<longleftrightarrow> (case targets_by_id scene i of None \<Rightarrow> False | Some t \<Rightarrow> usable_target t)"

text \<open>Whether the request can act on its \<open>i\<close>-th target, and the target with the point to use.\<close>

definition target_fits :: "packet_view \<Rightarrow> action_request \<Rightarrow> nat \<Rightarrow> bool" where
  "target_fits scene r i \<longleftrightarrow>
     (case targets_by_id scene (the (ar_target_ids r) ! i) of
        None \<Rightarrow> False
      | Some t \<Rightarrow> usable_target t \<and>
          (let needed = required_capability (ar_kind r) (ar_kind r = Action_drag \<and> i = 1) in
            tr_capability_bits t AND needed = needed) \<and>
          (case ar_target_points r of None \<Rightarrow> True
           | Some points \<Rightarrow> ar_allow_point_outside_target r \<or> point_inside_target t (points ! i)))"

definition target_placed :: "packet_view \<Rightarrow> action_request \<Rightarrow> nat \<Rightarrow> target_record" where
  "target_placed scene r i = (let t = the (targets_by_id scene (the (ar_target_ids r) ! i)) in
     case ar_target_points r of None \<Rightarrow> t
     | Some points \<Rightarrow> t\<lparr>tr_safe_x_q8 := pt_x (points ! i), tr_safe_y_q8 := pt_y (points ! i)\<rparr>)"

lemma resolve_exact:
  assumes "list_all valid_target (pv_targets scene)"
  shows "resolve_targets scene r indices =
    (if list_all (target_fits scene r) indices then Some (map (target_placed scene r) indices) else None)"
proof (induction indices)
  case Nil
  then show ?case by simp
next
  case (Cons i indices)
  let ?id = "the (ar_target_ids r) ! i"
  have find: "plan_target scene ?id = targets_by_id scene ?id"
    by (simp add: plan_target_def find_target_by_id [symmetric] find_target_def)
  show ?case
  proof (cases "targets_by_id scene ?id")
    case None
    then show ?thesis by (simp add: find target_fits_def)
  next
    case (Some t)
    then have "t \<in> set (pv_targets scene)" using find find_Some_iff_hd unfolding plan_target_def by fastforce
    then have v: "valid_target t" using assms by (simp add: list_all_iff)
    have safe: "target_safe t needed \<longleftrightarrow> usable_target t \<and> tr_capability_bits t AND needed = needed" for needed
      using usable_flags [OF v] by (auto simp: target_safe_def unsafe_target_flags_def)
    show ?thesis using Cons.IH
      by (cases "ar_target_points r")
        (simp_all add: find Some safe target_fits_def target_placed_def Let_def)
  qed
qed

lemma resolved_addressable:
  assumes "list_all valid_target (pv_targets scene)" "resolve_targets scene r indices = Some targets"
  shows "length targets = length indices \<and> list_all (\<lambda>t. addressable scene (tr_target_id t) \<and> tr_target_id t \<noteq> 0) targets"
  using assms(2)
proof (induction indices arbitrary: targets)
  case Nil
  then show ?case by simp
next
  case (Cons i indices)
  then obtain source rest where s: "plan_target scene (the (ar_target_ids r) ! i) = Some source"
    "target_safe source (required_capability (ar_kind r) (ar_kind r = Action_drag \<and> i = 1))"
    "resolve_targets scene r indices = Some rest"
    and t: "\<exists>t. targets = t # rest \<and> tr_target_id t = tr_target_id source"
    by (auto simp: Let_def split: option.splits if_splits)
  have id: "source \<in> set (pv_targets scene)" "tr_target_id source = the (ar_target_ids r) ! i"
    using s(1) find_Some_iff_hd unfolding plan_target_def by fastforce+
  have by_id: "targets_by_id scene (tr_target_id source) = Some source"
    using s(1) unfolding id(2) by (simp add: plan_target_def find_target_by_id [symmetric] find_target_def)
  have v: "valid_target source" using assms(1) id(1) by (simp add: list_all_iff)
  have "usable_target source" using usable_flags [OF v] s(2) by (simp add: target_safe_def unsafe_target_flags_def)
  moreover have "tr_target_id source \<noteq> 0" using v by (auto simp: valid_target_def split: if_splits)
  ultimately show ?case using Cons.IH [OF s(3)] t by_id by (auto simp: addressable_def)
qed

subsection \<open>Commands\<close>

lemma append_small: "length cs < 129 \<Longrightarrow> append_command cs c = Some (cs @ [c])" "length cs < 129 \<Longrightarrow> append_dropping cs c = cs @ [c]"
  by (simp_all add: append_command_def append_dropping_def input_plan_max_commands_def)

definition click_pair :: "action_request \<Rightarrow> target_record \<Rightarrow> input_command list" where
  "click_pair r t =
     (if ar_pointer_duration_ns r \<noteq> 0 then [(target_command COMMAND_POINTER_MOVE t)\<lparr>ic_duration_ns := ar_pointer_duration_ns r\<rparr>] else []) @
     [(target_command COMMAND_CLICK t)\<lparr>ic_data0 := ar_button r, ic_data1 := ar_repeat_count r, ic_data2 := ar_modifiers r\<rparr>]"

lemma length_click_pair: "length (click_pair r t) \<le> 2" by (simp add: click_pair_def)

lemma click_commands_fit:
  "length cs + 2 * length ts \<le> 128 \<Longrightarrow> click_commands r ts cs = Some (cs @ concat (map (click_pair r) ts))"
proof (induction ts arbitrary: cs)
  case Nil
  then show ?case by simp
next
  case (Cons t ts)
  then have a: "length cs < 128" by simp
  have "click_commands r (t # ts) cs = click_commands r ts (cs @ click_pair r t)"
    using a by (simp add: append_small click_pair_def)
  then show ?case using Cons.IH [of "cs @ click_pair r t"] Cons.prems length_click_pair [of r t] by simp
qed

text \<open>The commands of a request, written out.\<close>

definition action_spec :: "action_request \<Rightarrow> target_record list \<Rightarrow> input_command list" where
  "action_spec r targets = (let a = targets ! 0; b = targets ! 1 in
     case ar_kind r of
       Action_pointer_move \<Rightarrow> [(target_command COMMAND_POINTER_MOVE a)\<lparr>ic_duration_ns := ar_pointer_duration_ns r\<rparr>]
     | Action_hold \<Rightarrow> [target_command COMMAND_POINTER_MOVE a,
         (target_command COMMAND_BUTTON_DOWN a)\<lparr>ic_flags := 5, ic_data0 := ar_button r, ic_duration_ns := ar_duration_ns r\<rparr>]
     | Action_scroll \<Rightarrow> [(target_command COMMAND_SCROLL a)\<lparr>ic_delta_x_q8 := ar_delta_x_q8 r, ic_delta_y_q8 := ar_delta_y_q8 r,
         ic_duration_ns := ar_duration_ns r, ic_flags := (if ar_duration_ns r \<noteq> 0 then 5 else 1)\<rparr>]
     | Action_key \<Rightarrow> map (\<lambda>k. zero_command\<lparr>ic_kind := k, ic_flags := COMMAND_PHYSICAL_KEY, ic_data0 := ar_key_usage r,
         ic_data1 := ar_modifiers r\<rparr>) [COMMAND_KEY_DOWN, COMMAND_KEY_UP]
     | Action_text \<Rightarrow> [(target_command COMMAND_CLICK a)\<lparr>ic_data0 := ar_button r, ic_data1 := 1\<rparr>,
         (target_command COMMAND_TEXT a)\<lparr>ic_payload_size := word_of_nat (span_size (ar_text r))\<rparr>]
     | Action_window_activate \<Rightarrow> [target_command COMMAND_WINDOW_ACTIVATE a]
     | Action_release \<Rightarrow> [zero_command\<lparr>ic_kind := COMMAND_BUTTON_UP, ic_data0 := ar_button r\<rparr>]
     | Action_click \<Rightarrow> concat (map (click_pair r) targets)
     | Action_invoke \<Rightarrow> concat (map (click_pair r) targets)
     | Action_other \<Rightarrow> []
     | _ \<Rightarrow> [target_command COMMAND_POINTER_MOVE a, (target_command COMMAND_BUTTON_DOWN a)\<lparr>ic_data0 := ar_button r\<rparr>,
         (target_command COMMAND_POINTER_MOVE b)\<lparr>ic_duration_ns := ar_duration_ns r\<rparr>,
         (target_command COMMAND_BUTTON_UP b)\<lparr>ic_data0 := ar_button r\<rparr>])"

definition final_spec :: "action_request \<Rightarrow> input_command list" where
  "final_spec r = (if ar_move_to_final_pointer r \<and> ar_kind r \<noteq> Action_hold \<and> ar_kind r \<noteq> Action_window_activate
     then [zero_command\<lparr>ic_kind := COMMAND_POINTER_MOVE, ic_flags := COMMAND_ABSOLUTE, ic_x_q8 := pt_x (ar_final_pointer r),
            ic_y_q8 := pt_y (ar_final_pointer r), ic_duration_ns := ar_pointer_duration_ns r\<rparr>] else [])"

lemma length_clicks: "length (concat (map (click_pair r) ts)) \<le> 2 * length ts"
proof (induction ts)
  case (Cons t ts)
  then show ?case using length_click_pair [of r t] by simp
qed simp

lemma action_commands_spec:
  assumes "length targets \<le> 64"
  shows "action_commands r targets = Some (action_spec r targets)" "length (action_spec r targets) \<le> 128"
proof -
  show "action_commands r targets = Some (action_spec r targets)"
    using click_commands_fit [of "[]" targets r] assms
    by (cases "ar_kind r") (simp_all add: action_commands_def action_spec_def append_small drag_commands_def Let_def)
  show "length (action_spec r targets) \<le> 128"
    using length_clicks [of r targets] assms by (cases "ar_kind r") (simp_all add: action_spec_def Let_def)
qed

lemma planned_commands:
  assumes "length targets \<le> 64"
  shows "Option.bind (action_commands r targets) (final_commands r) = Some (action_spec r targets @ final_spec r)"
    "length (action_spec r targets @ final_spec r) \<le> 129"
  using action_commands_spec [OF assms, of r] by (simp_all add: final_commands_def final_spec_def append_small)

text \<open>The kinds of commands a planner writes have their shape.\<close>

lemma target_command_fields [simp]:
  "ic_kind (target_command k t) = k" "ic_flags (target_command k t) = COMMAND_ABSOLUTE"
  "ic_target_id (target_command k t) = tr_target_id t"
  "ic_data0 (target_command k t) = 0" "ic_data1 (target_command k t) = 0" "ic_data2 (target_command k t) = 0"
  "ic_delta_x_q8 (target_command k t) = 0" "ic_delta_y_q8 (target_command k t) = 0"
  "ic_duration_ns (target_command k t) = 0" "ic_payload_offset (target_command k t) = 0"
  "ic_payload_size (target_command k t) = 0" "ic_reserved32 (target_command k t) = 0"
  by (simp_all add: target_command_def zero_command_def)

lemma zero_command_fields [simp]:
  "ic_kind zero_command = 0" "ic_flags zero_command = 0" "ic_target_id zero_command = 0"
  "ic_data0 zero_command = 0" "ic_data1 zero_command = 0" "ic_data2 zero_command = 0"
  "ic_delta_x_q8 zero_command = 0" "ic_delta_y_q8 zero_command = 0" "ic_duration_ns zero_command = 0"
  "ic_payload_offset zero_command = 0" "ic_payload_size zero_command = 0" "ic_reserved32 zero_command = 0"
  by (simp_all add: zero_command_def)

lemma shape_move: "ic_kind c = COMMAND_POINTER_MOVE \<Longrightarrow> ic_flags c = 1 \<Longrightarrow> ic_data0 c = 0 \<Longrightarrow> ic_data1 c = 0 \<Longrightarrow> ic_data2 c = 0 \<Longrightarrow>
    ic_reserved32 c = 0 \<Longrightarrow> command_shape c"
  unfolding command_shape_def Let_def click_range [symmetric] by simp

lemma shape_buttons: "ic_kind c \<in> {COMMAND_BUTTON_DOWN, COMMAND_BUTTON_UP} \<Longrightarrow> unat (ic_flags c) < 8 \<Longrightarrow> action_button (ic_data0 c) \<Longrightarrow>
    ic_data1 c = 0 \<Longrightarrow> ic_data2 c = 0 \<Longrightarrow> ic_reserved32 c = 0 \<Longrightarrow> command_shape c"
proof -
  assume a: "ic_kind c \<in> {COMMAND_BUTTON_DOWN, COMMAND_BUTTON_UP}" "unat (ic_flags c) < 8" "action_button (ic_data0 c)"
    "ic_data1 c = 0" "ic_data2 c = 0" "ic_reserved32 c = 0"
  have "ic_data0 c \<in> {BUTTON_LEFT, BUTTON_RIGHT, BUTTON_MIDDLE}"
    using a(3) one_button_iff [of "ic_data0 c"] by (simp add: action_button_def one_button_def)
  then show ?thesis using a unfolding command_shape_def Let_def click_range [symmetric] by auto
qed

lemma shape_click:
  assumes "ic_kind c = COMMAND_CLICK" "ic_flags c = 1" "ic_reserved32 c = 0"
  shows "command_shape c \<longleftrightarrow> action_button (ic_data0 c) \<and> (ic_data1 c \<ge> 1 \<and> ic_data1 c \<le> 16) \<and> ic_data2 c AND NOT modifier_mask = 0"
proof -
  have b: "action_button (ic_data0 c) \<longleftrightarrow> ic_data0 c \<in> {BUTTON_LEFT, BUTTON_RIGHT, BUTTON_MIDDLE}"
    using one_button_iff [of "ic_data0 c"] by (simp add: action_button_def one_button_def)
  have m: "ic_data2 c AND NOT modifier_mask = 0 \<longleftrightarrow> unat (ic_data2 c) < 16"
    using below_mask [of "ic_data2 c" 4] by (simp add: masks_as_bounds)
  show ?thesis unfolding b m command_shape_def Let_def click_range [symmetric] using assms by simp
qed

lemma shape_scroll: "ic_kind c = COMMAND_SCROLL \<Longrightarrow> unat (ic_flags c) < 8 \<Longrightarrow> ic_delta_x_q8 c \<noteq> 0 \<or> ic_delta_y_q8 c \<noteq> 0 \<Longrightarrow>
    ic_data0 c = 0 \<Longrightarrow> ic_data1 c = 0 \<Longrightarrow> ic_data2 c = 0 \<Longrightarrow> ic_reserved32 c = 0 \<Longrightarrow> command_shape c"
  unfolding command_shape_def Let_def click_range [symmetric] by auto

lemma shape_keys: "ic_kind c \<in> {COMMAND_KEY_DOWN, COMMAND_KEY_UP} \<Longrightarrow> unat (ic_flags c) < 8 \<Longrightarrow> ic_data0 c \<noteq> 0 \<Longrightarrow>
    ic_data1 c AND NOT modifier_mask = 0 \<Longrightarrow> ic_data2 c = 0 \<Longrightarrow> ic_reserved32 c = 0 \<Longrightarrow> command_shape c"
  using below_mask [of "ic_data1 c" 4] unfolding masks_as_bounds command_shape_def Let_def click_range [symmetric] by auto

lemma shape_text: "ic_kind c = COMMAND_TEXT \<Longrightarrow> ic_flags c = 1 \<Longrightarrow> ic_data0 c = 0 \<Longrightarrow> ic_data1 c = 0 \<Longrightarrow> ic_data2 c = 0 \<Longrightarrow>
    ic_duration_ns c = 0 \<Longrightarrow> ic_reserved32 c = 0 \<Longrightarrow> command_shape c"
  unfolding command_shape_def Let_def click_range [symmetric] by simp

lemma shape_window: "ic_kind c = COMMAND_WINDOW_ACTIVATE \<Longrightarrow> ic_flags c = 1 \<Longrightarrow> ic_target_id c \<noteq> 0 \<Longrightarrow> ic_data0 c = 0 \<Longrightarrow>
    ic_data1 c = 0 \<Longrightarrow> ic_data2 c = 0 \<Longrightarrow> ic_duration_ns c = 0 \<Longrightarrow> ic_reserved32 c = 0 \<Longrightarrow> command_shape c"
  unfolding command_shape_def Let_def click_range [symmetric] by simp

lemmas shapes = shape_move shape_buttons shape_click shape_scroll shape_keys shape_text shape_window

text \<open>What a request that is not turned down promises.\<close>

definition shape_facts :: "action_request \<Rightarrow> bool" where
  "shape_facts r \<longleftrightarrow> ar_kind r \<noteq> Action_other \<and> unat (ar_target_count r) \<le> 64 \<and>
     ar_repeat_count r \<ge> 1 \<and> ar_repeat_count r \<le> 16 \<and> ar_modifiers r AND NOT modifier_mask = 0 \<and>
     (case ar_kind r of
        Action_key \<Rightarrow> ar_target_count r = 0 \<and> ar_key_usage r \<noteq> 0
      | Action_release \<Rightarrow> ar_target_count r = 0 \<and> action_button (ar_button r)
      | Action_drag \<Rightarrow> ar_target_count r = 2 \<and> action_button (ar_button r)
      | Action_text_select \<Rightarrow> ar_target_count r = 2 \<and> action_button (ar_button r)
      | Action_click \<Rightarrow> ar_target_count r \<noteq> 0 \<and> action_button (ar_button r)
      | Action_invoke \<Rightarrow> ar_target_count r = 1 \<and> action_button (ar_button r)
      | Action_hold \<Rightarrow> ar_target_count r = 1 \<and> action_button (ar_button r)
      | Action_scroll \<Rightarrow> ar_target_count r = 1 \<and> (ar_delta_x_q8 r \<noteq> 0 \<or> ar_delta_y_q8 r \<noteq> 0)
      | Action_text \<Rightarrow> ar_target_count r = 1 \<and> 1 \<le> length (span_bytes (ar_text r)) \<and>
          length (span_bytes (ar_text r)) \<le> 16384 \<and> span_size (ar_text r) = length (span_bytes (ar_text r))
      | _ \<Rightarrow> ar_target_count r = 1)"

lemma request_shape_facts: "request_shape_valid r \<Longrightarrow> shape_facts r"
proof -
  assume v: "request_shape_valid r"
  have n: "ar_repeat_count r \<noteq> 0 \<longleftrightarrow> ar_repeat_count r \<ge> 1" by (simp add: word_le_nat_alt unat_gt_0 Suc_le_eq unat_eq_0)
  from v show ?thesis unfolding request_shape_valid_def shape_facts_def n [symmetric]
    by (cases "ar_kind r"; cases "ar_text r") (auto simp: maximum_plan_payload_bytes_def Let_def Suc_le_eq split: if_splits)
qed

lemma click_pair_shape:
  assumes "action_button (ar_button r)" "ar_repeat_count r \<ge> 1" "ar_repeat_count r \<le> 16" "ar_modifiers r AND NOT modifier_mask = 0"
  shows "list_all command_shape (click_pair r t)"
  using assms by (auto simp: click_pair_def shapes)

lemma clicks_shape:
  assumes "action_button (ar_button r)" "ar_repeat_count r \<ge> 1" "ar_repeat_count r \<le> 16" "ar_modifiers r AND NOT modifier_mask = 0"
  shows "list_all command_shape (concat (map (click_pair r) ts))"
  using click_pair_shape [OF assms] by (induction ts) auto

lemma final_shape: "list_all command_shape (final_spec r)"
  by (simp add: final_spec_def shape_move)

lemma planned_shapes:
  assumes "shape_facts r" "length ts = unat (ar_target_count r)" "list_all (\<lambda>t. tr_target_id t \<noteq> 0) ts"
  shows "list_all command_shape (place_payload r off (action_spec r ts @ final_spec r)) \<longleftrightarrow>
    (if ar_kind r = Action_text then action_button (ar_button r) else True)"
proof -
  have one: "ts ! 0 \<in> set ts" if "ar_target_count r = 1" using assms(2) that by (intro nth_mem) simp
  then have id: "tr_target_id (ts ! 0) \<noteq> 0" if "ar_target_count r = 1" using assms(3) that by (simp add: list_all_iff)
  note f = assms(1) [unfolded shape_facts_def]
  show ?thesis
    using f final_shape [of r] id
    by (cases "ar_kind r") (simp_all add: action_spec_def place_payload_def Let_def shapes clicks_shape)
qed

lemma planned_payloads:
  assumes "shape_facts r" "off = plan_header_size + length (action_spec r ts @ final_spec r) * command_size"
    "length (action_spec r ts @ final_spec r) \<le> 129"
    "payload = (if ar_kind r = Action_text then span_bytes (ar_text r) else [])"
  shows "list_all (payload_inside off (off + length payload)) (place_payload r off (action_spec r ts @ final_spec r))"
proof -
  have "off \<le> 8416" using assms(2,3) by (simp add: plan_header_size_def command_size_def)
  then have off: "unat (word_of_nat off :: u32) = off" by (simp add: unat_of_nat)
  have clicks: "list_all (payload_inside o1 o2) (concat (map (click_pair r) ts))" for o1 o2
    by (induction ts) (simp_all add: click_pair_def payload_inside_def)
  have final: "list_all (payload_inside o1 o2) (final_spec r)" for o1 o2
    by (simp add: final_spec_def payload_inside_def)
  show ?thesis
  proof (cases "ar_kind r = Action_text")
    case True
    have "1 \<le> length payload" "length payload \<le> 16384" "span_size (ar_text r) = length payload"
      using assms(1,4) True by (simp_all add: shape_facts_def)
    then have "unat (word_of_nat (span_size (ar_text r)) :: u32) = length payload" "payload \<noteq> []"
      by (auto simp: unat_of_nat)
    then show ?thesis using True off final
      by (simp add: action_spec_def place_payload_def payload_inside_def Let_def)
  next
    case False
    then show ?thesis using clicks final
      by (cases "ar_kind r") (simp_all add: action_spec_def place_payload_def payload_inside_def Let_def)
  qed
qed

lemma planned_permissions:
  assumes "ar_kind r \<noteq> Action_other"
  shows "list_all (\<lambda>c. permission_of (ic_kind c) AND action_permissions (ar_kind r) = permission_of (ic_kind c))
      (place_payload r off (action_spec r ts @ final_spec r)) \<longleftrightarrow>
    \<not> (ar_kind r = Action_key \<and> ar_move_to_final_pointer r)"
proof -
  have clicks: "list_all (\<lambda>c. permission_of (ic_kind c) AND PERMISSION_POINTER = permission_of (ic_kind c)) (concat (map (click_pair r) ts))"
    by (induction ts) (simp_all add: click_pair_def permission_of_def)
  show ?thesis using clicks assms
    by (cases "ar_kind r") (simp_all add: action_spec_def final_spec_def place_payload_def permission_of_def action_permissions_def Let_def)
qed

lemma length_place_payload [simp]: "length (place_payload r off cs) = length cs"
  by (simp add: place_payload_def)

lemma planned_nonempty: "shape_facts r \<Longrightarrow> length ts = unat (ar_target_count r) \<Longrightarrow> action_spec r ts \<noteq> []"
proof -
  assume a: "shape_facts r" "length ts = unat (ar_target_count r)"
  have c: "concat (map (click_pair r) ts) \<noteq> []" if "ar_target_count r \<noteq> 0"
    using a(2) that by (cases ts) (auto simp: click_pair_def unat_eq_0)
  then show ?thesis using a(1) by (cases "ar_kind r") (simp_all add: action_spec_def shape_facts_def Let_def)
qed

lemma action_permissions_word:
  "ar_kind r \<noteq> Action_other \<Longrightarrow> action_permissions (ar_kind r) \<noteq> 0 \<and> unat (action_permissions (ar_kind r)) < 32"
  by (cases "ar_kind r") (simp_all add: action_permissions_def)

text \<open>A planned action is a well-formed plan unless the flags are unknown, a text action names no
  button to focus its target with, or a key action moves the pointer.\<close>

definition plan_refused :: "action_context \<Rightarrow> action_request \<Rightarrow> bool" where
  "plan_refused context r \<longleftrightarrow> 8 \<le> unat (ax_plan_flags context) \<or>
     ar_kind r = Action_text \<and> \<not> action_button (ar_button r) \<or>
     ar_kind r = Action_key \<and> ar_move_to_final_pointer r"

definition planned_view :: "packet_view \<Rightarrow> action_context \<Rightarrow> action_request \<Rightarrow> target_record list \<Rightarrow> plan_view" where
  "planned_view scene context r ts =
     (case plan_of_action scene context r ts (action_spec r ts @ final_spec r) of (h, cs, payload) \<Rightarrow>
        \<lparr>pn_header = h, pn_commands = cs, pn_byte_size = unat (ih_total_size h)\<rparr>)"

lemma planned_header_wf:
  assumes "header_accepted (pv_header scene) n" "ph_coordinate_space (pv_header scene) = SPACE_DESKTOP_Q8"
    "build_arguments_valid context r"
  shows "plan_header_wf (action_header (pv_header scene) context r ts k bytes) \<longleftrightarrow> unat (ax_plan_flags context) < 8"
proof -
  have k: "ar_kind r \<noteq> Action_other" using assms(3) by (auto simp: build_arguments_valid_def request_shape_valid_def)
  have b: "unat (ax_expected_buttons context) < 8"
    using assms(3) below_mask [of "ax_expected_buttons context" 3] by (simp add: build_arguments_valid_def masks_as_bounds)
  have h: "0 \<notin> set [ph_scene_epoch (pv_header scene), ph_frame_id (pv_header scene), ph_model_epoch (pv_header scene),
      ph_session_epoch (pv_header scene), ph_transform_epoch (pv_header scene), ph_topology_epoch (pv_header scene),
      ph_source_id (pv_header scene)]"
    using assms(1,2) by (auto simp: header_accepted_def)
  have c: "0 \<notin> set [ax_plan_id context, ax_permission_epoch context, ax_deadline_ns context]"
    using assms(3) by (auto simp: build_arguments_valid_def)
  show ?thesis using b h c action_permissions_word [OF k]
    by (simp add: plan_header_wf_def action_header_def plan_header_size_def command_size_def)
qed

lemma planned_view_wf:
  assumes "packet_wf scene" "ph_coordinate_space (pv_header scene) = SPACE_DESKTOP_Q8" "build_arguments_valid context r"
    "length ts = unat (ar_target_count r)" "list_all (\<lambda>t. tr_target_id t \<noteq> 0) ts"
  shows "plan_wf (planned_view scene context r ts) \<longleftrightarrow> \<not> plan_refused context r"
proof -
  have facts: "shape_facts r" using assms(3) request_shape_facts by (simp add: build_arguments_valid_def)
  then have k: "ar_kind r \<noteq> Action_other" "length ts \<le> 64" using assms(4) by (simp_all add: shape_facts_def)
  let ?cs = "action_spec r ts @ final_spec r"
  let ?off = "plan_header_size + length ?cs * command_size"
  let ?payload = "if ar_kind r = Action_text then span_bytes (ar_text r) else []"
  note n = planned_commands(2) [OF k(2), of r]
  have pl: "length ?payload \<le> 16384" using facts by (cases "ar_kind r = Action_text") (simp_all add: shape_facts_def)
  have total: "unat (word_of_nat (?off + length ?payload) :: u64) = ?off + length ?payload"
    using n pl by (intro unat_of_nat_small) (simp add: plan_header_size_def command_size_def)
  have count: "unat (word_of_nat (length ?cs) :: u32) = length ?cs" unfolding unat_of_nat using n by simp
  have ha: "header_accepted (pv_header scene) (unat (ph_total_size (pv_header scene)))"
    using assms(1) unfolding packet_wf_def Let_def by blast
  note hw = planned_header_wf [OF ha assms(2,3), of ts "length ?cs" "?off + length ?payload"]
  have ne: "?cs \<noteq> []" using planned_nonempty [OF facts assms(4)] by simp
  have shapes: "list_all (command_wf ?off (?off + length ?payload)) (place_payload r ?off ?cs) \<longleftrightarrow>
      (if ar_kind r = Action_text then action_button (ar_button r) else True)"
    using planned_shapes [OF facts assms(4,5), of ?off] planned_payloads [OF facts refl n refl]
    by (auto simp: list_all_iff command_wf_def)
  have v: "planned_view scene context r ts = \<lparr>pn_header = action_header (pv_header scene) context r ts (length ?cs) (?off + length ?payload),
      pn_commands = place_payload r ?off ?cs, pn_byte_size = ?off + length ?payload\<rparr>"
    using total by (simp add: planned_view_def plan_of_action_def Let_def action_header_def)
  have fields: "ih_required_permissions (action_header (pv_header scene) context r ts n1 n2) = action_permissions (ar_kind r)"
    "ih_command_count (action_header (pv_header scene) context r ts n1 n2) = word_of_nat n1"
    "ih_total_size (action_header (pv_header scene) context r ts n1 n2) = word_of_nat n2" for n1 n2
    by (simp_all add: action_header_def)
  have all: "list_all (\<lambda>c. command_wf ?off (?off + length ?payload) c \<and>
       permission_of (ic_kind c) AND action_permissions (ar_kind r) = permission_of (ic_kind c)) (place_payload r ?off ?cs) \<longleftrightarrow>
     (if ar_kind r = Action_text then action_button (ar_button r) else True) \<and> \<not> (ar_kind r = Action_key \<and> ar_move_to_final_pointer r)"
    using shapes planned_permissions [OF k(1), of ?off ts] by (auto simp: list_all_iff)
  have nep: "place_payload r ?off ?cs \<noteq> []" using ne by (metis length_place_payload length_0_conv)
  have "plan_wf (planned_view scene context r ts) \<longleftrightarrow> unat (ax_plan_flags context) < 8 \<and>
     (if ar_kind r = Action_text then action_button (ar_button r) else True) \<and> \<not> (ar_kind r = Action_key \<and> ar_move_to_final_pointer r)"
    unfolding plan_wf_def v Let_def plan_view.select_convs fields hw length_place_payload all count total using n nep by simp
  then show ?thesis unfolding plan_refused_def by (auto simp: not_le)
qed

text \<open>Reading a written plan back decides whether it is well formed.\<close>

lemma validate_written_plan:
  assumes "unat (ih_command_count (pn_header v)) = length (pn_commands v)" "pn_byte_size v = unat (ih_total_size (pn_header v))"
    "pn_byte_size v = plan_header_size + length (pn_commands v) * command_size + length tail"
  shows "validate_plan (Span (put_plan v @ tail)) True True =
    (if plan_wf v then (SACCADE_OK, Some v) else (SACCADE_ERROR_INVALID_ARGUMENT, None))"
proof -
  let ?bytes = "put_plan v @ tail"
  have b: "?bytes = put_plan_header (pn_header v) @ concat (map put_command (pn_commands v)) @ tail" by (simp add: put_plan_def)
  have len: "length ?bytes = pn_byte_size v" unfolding b assms(3) length_append command_codec.length_put_table by simp
  have long: "plan_header_size \<le> length ?bytes" unfolding b by simp
  have h: "get_plan_header ?bytes = (pn_header v, concat (map put_command (pn_commands v)) @ tail)" unfolding b by simp
  have g: "get_commands (unat (ih_command_count (pn_header v))) (concat (map put_command (pn_commands v)) @ tail) = (pn_commands v, tail)"
    unfolding assms(1) get_commands_def by (rule command_codec.get_put_table)
  have e: "\<lparr>pn_header = pn_header v, pn_commands = pn_commands v, pn_byte_size = unat (ih_total_size (pn_header v))\<rparr> = v"
    using assms(2) by simp
  show ?thesis unfolding validate_plan_decides [OF long h g] e using len assms(2) by simp
qed

definition scene_current :: "packet_view \<Rightarrow> action_context \<Rightarrow> bool" where
  "scene_current scene context \<longleftrightarrow> ph_coordinate_space (pv_header scene) = SPACE_DESKTOP_Q8 \<and>
     ph_scene_epoch (pv_header scene) = ax_scene_epoch context \<and>
     ph_transform_epoch (pv_header scene) = ax_transform_epoch context \<and>
     ph_topology_epoch (pv_header scene) = ax_topology_epoch context"

definition payload_of :: "action_request \<Rightarrow> u8 list" where
  "payload_of r = (if ar_kind r = Action_text then span_bytes (ar_text r) else [])"

lemma planned_view_written:
  fixes scene :: packet_view and "context" :: action_context
  assumes "shape_facts r" "length ts \<le> 64"
  defines "v \<equiv> planned_view scene context r ts"
  shows "unat (ih_command_count (pn_header v)) = length (pn_commands v)" "pn_byte_size v = unat (ih_total_size (pn_header v))"
    "pn_byte_size v = plan_header_size + length (pn_commands v) * command_size + length (payload_of r)"
    "plan_of_action scene context r ts (action_spec r ts @ final_spec r) = (pn_header v, pn_commands v, payload_of r)"
    "pn_header v = action_header (pv_header scene) context r ts (length (pn_commands v)) (pn_byte_size v)"
    "length (pn_commands v) = length (action_spec r ts @ final_spec r)"
proof -
  let ?cs = "action_spec r ts @ final_spec r"
  let ?total = "plan_header_size + length ?cs * command_size + length (payload_of r)"
  note n = planned_commands(2) [OF assms(2), of r]
  have pl: "length (payload_of r) \<le> 16384"
    using assms(1) by (cases "ar_kind r = Action_text") (simp_all add: shape_facts_def payload_of_def)
  have total: "unat (word_of_nat ?total :: u64) = ?total"
    using n pl by (intro unat_of_nat_small) (simp add: plan_header_size_def command_size_def)
  have count: "unat (word_of_nat (length ?cs) :: u32) = length ?cs" unfolding unat_of_nat using n by simp
  have p: "plan_of_action scene context r ts ?cs = (action_header (pv_header scene) context r ts (length ?cs) ?total,
      place_payload r (plan_header_size + length ?cs * command_size) ?cs, payload_of r)"
    by (simp add: plan_of_action_def payload_of_def Let_def)
  have v: "v = \<lparr>pn_header = action_header (pv_header scene) context r ts (length ?cs) ?total,
      pn_commands = place_payload r (plan_header_size + length ?cs * command_size) ?cs, pn_byte_size = ?total\<rparr>"
    unfolding v_def planned_view_def p prod.case using total by (simp add: action_header_def)
  show "unat (ih_command_count (pn_header v)) = length (pn_commands v)" "pn_byte_size v = unat (ih_total_size (pn_header v))"
    "pn_byte_size v = plan_header_size + length (pn_commands v) * command_size + length (payload_of r)"
    "plan_of_action scene context r ts ?cs = (pn_header v, pn_commands v, payload_of r)"
    "pn_header v = action_header (pv_header scene) context r ts (length (pn_commands v)) (pn_byte_size v)"
    "length (pn_commands v) = length ?cs"
    unfolding p unfolding v plan_view.select_convs length_place_payload using total count
    by (simp_all only: action_header_def input_plan_header.select_convs)
qed

text \<open>The result of building a plan, case by case.\<close>

lemma build_result:
  assumes "packet_wf scene"
  shows "build_plan stats (Some scene) context r True True =
    (if \<not> build_arguments_valid context r then (SACCADE_ERROR_INVALID_ARGUMENT, None, stats)
     else if \<not> scene_current scene context
     then (SACCADE_ERROR_STALE_HANDLE, None, stats\<lparr>as_rejected_stale := as_rejected_stale stats + 1\<rparr>)
     else case resolve_targets scene r [0..<unat (ar_target_count r)] of
       None \<Rightarrow> (SACCADE_ERROR_NOT_FOUND, None, stats\<lparr>as_rejected_unsafe := as_rejected_unsafe stats + 1\<rparr>)
     | Some ts \<Rightarrow>
         if ax_permissions context AND action_permissions (ar_kind r) \<noteq> action_permissions (ar_kind r)
         then (SACCADE_ERROR_UNSUPPORTED, None, stats\<lparr>as_rejected_permission := as_rejected_permission stats + 1\<rparr>)
         else if plan_refused context r then (SACCADE_ERROR_STATE, None, stats)
         else (SACCADE_OK, Some (put_plan (planned_view scene context r ts) @ payload_of r),
           stats\<lparr>as_plans_built := as_plans_built stats + 1,
             as_commands_built := as_commands_built stats + word_of_nat (length (pn_commands (planned_view scene context r ts))),
             as_targets_resolved := as_targets_resolved stats + ucast (ar_target_count r)\<rparr>))"
proof (cases "build_arguments_valid context r \<and> scene_current scene context")
  case False
  then consider "\<not> build_arguments_valid context r" | "build_arguments_valid context r" "\<not> scene_current scene context" by blast
  then show ?thesis
    by cases (auto simp: build_plan_def scene_current_def)
next
  case True
  have facts: "shape_facts r" using True request_shape_facts by (simp add: build_arguments_valid_def)
  have sp: "ph_coordinate_space (pv_header scene) = SPACE_DESKTOP_Q8" using True by (simp add: scene_current_def)
  have stale: "\<not> (ph_coordinate_space (pv_header scene) \<noteq> SPACE_DESKTOP_Q8 \<or>
      ph_scene_epoch (pv_header scene) \<noteq> ax_scene_epoch context \<or>
      ph_transform_epoch (pv_header scene) \<noteq> ax_transform_epoch context \<or>
      ph_topology_epoch (pv_header scene) \<noteq> ax_topology_epoch context)" using True by (simp add: scene_current_def)
  have args: "\<not> (\<not> True \<or> \<not> True \<or> \<not> build_arguments_valid context r)" using True by simp
  have T: "\<not> \<not> build_arguments_valid context r" "\<not> \<not> scene_current scene context" using True by simp_all
  show ?thesis
  proof (cases "resolve_targets scene r [0..<unat (ar_target_count r)]")
    case None
    show ?thesis unfolding build_plan_def option.case if_not_P [OF args] if_not_P [OF stale] if_not_P [OF T(1)] if_not_P [OF T(2)] None
      by (rule refl)
  next
    case (Some ts)
    note res = resolved_addressable [OF packet_wf_targets [OF assms] Some]
    have len: "length ts = unat (ar_target_count r)" and ids: "list_all (\<lambda>t. tr_target_id t \<noteq> 0) ts"
      using res by (auto simp: list_all_iff)
    have l64: "length ts \<le> 64" using len facts by (simp add: shape_facts_def)
    note w = planned_view_written [OF facts l64, of scene "context"]
    note pc = planned_commands(1) [OF l64, of r]
    let ?v = "planned_view scene context r ts"
    have bytes: "put_plan_header (pn_header ?v) @ concat (map put_command (pn_commands ?v)) @ payload_of r = put_plan ?v @ payload_of r"
      by (simp add: put_plan_def)
    have val: "fst (validate_plan (Span (put_plan ?v @ payload_of r)) True True) \<noteq> SACCADE_OK \<longleftrightarrow> plan_refused context r"
      unfolding validate_written_plan [OF w(1-3)] planned_view_wf [OF assms sp T(1) [unfolded not_not] len ids] by simp
    show ?thesis
      unfolding build_plan_def option.case if_not_P [OF args] if_not_P [OF stale] if_not_P [OF T(1)] if_not_P [OF T(2)] Some
        pc w(4) Let_def prod.case bytes val by (rule refl)
  qed
qed

text \<open>Every command of a plan names no target or a target of the scene that can be acted on.\<close>

lemma click_targets:
  "list_all P (map tr_target_id ts) \<Longrightarrow> list_all (\<lambda>c. ic_target_id c = 0 \<or> P (ic_target_id c)) (concat (map (click_pair r) ts))"
  by (induction ts) (auto simp: click_pair_def)

lemma planned_targets:
  assumes "shape_facts r" "length ts = unat (ar_target_count r)" "list_all (\<lambda>t. P (tr_target_id t)) ts"
  shows "list_all (\<lambda>c. ic_target_id c = 0 \<or> P (ic_target_id c)) (place_payload r off (action_spec r ts @ final_spec r))"
proof -
  have final: "list_all (\<lambda>c. ic_target_id c = 0 \<or> P (ic_target_id c)) (final_spec r)" by (simp add: final_spec_def)
  have nth: "k < length ts \<Longrightarrow> P (tr_target_id (ts ! k))" for k using assms(3) by (simp add: list_all_length)
  have n: "P (tr_target_id (ts ! 0))" if "ar_target_count r = 1 \<or> ar_target_count r = 2"
    using nth [of 0] assms(2) that by auto
  have n2: "P (tr_target_id (ts ! 1))" if "ar_target_count r = 2" using nth [of 1] assms(2) that by simp
  have c: "list_all (\<lambda>c. ic_target_id c = 0 \<or> P (ic_target_id c)) (concat (map (click_pair r) ts))"
    using assms(3) by (intro click_targets) (simp add: list_all_iff)
  show ?thesis using assms(1) final n n2 c
    by (cases "ar_kind r") (simp_all add: shape_facts_def action_spec_def place_payload_def Let_def)
qed

text \<open>The desktop as a plan expects it.\<close>

definition expected_state :: "packet_view \<Rightarrow> action_context \<Rightarrow> plan_view \<Rightarrow> bool \<Rightarrow> bool \<Rightarrow> execution_preflight_state" where
  "expected_state scene context p check_window check_buttons =
     \<lparr>es_scene = Some scene, es_focus_id = ax_focus_id context, es_window_id = ih_window_id (pn_header p),
      es_topology_epoch = ax_topology_epoch context, es_permission_epoch = ax_permission_epoch context,
      es_buttons = ax_expected_buttons context, es_input_available = True, es_surface_secure = False,
      es_target_window_available = True, es_target_point_secure = False,
      es_validate_active_window = check_window, es_validate_initial_buttons = check_buttons\<rparr>"

lemma planned_view_commands:
  "pn_commands (planned_view scene context r ts) =
    place_payload r (plan_header_size + length (action_spec r ts @ final_spec r) * command_size) (action_spec r ts @ final_spec r)"
  by (simp add: planned_view_def plan_of_action_def Let_def)

lemma planned_preflight:
  assumes s: "snd (validate_packet scene_bytes True True) = Some scene" and cur: "scene_current scene context"
    and facts: "shape_facts r" and res: "resolve_targets scene r [0..<unat (ar_target_count r)] = Some ts"
    and now: "0 < now" "now < ax_deadline_ns context"
  defines "p \<equiv> planned_view scene context r ts"
  shows "validate_execution_preflight (Some p) (expected_state scene context p check_window check_buttons) now = SACCADE_OK"
proof -
  have wf: "packet_wf scene" using s by (rule read_view_wf)
  note ts = resolved_addressable [OF packet_wf_targets [OF wf] res]
  have len: "length ts = unat (ar_target_count r)" "length ts \<le> 64" using ts facts by (simp_all add: shape_facts_def)
  note w = planned_view_written [OF facts len(2), of scene "context", folded p_def]
  have addr: "list_all (\<lambda>t. addressable scene (tr_target_id t)) ts" using ts by (simp add: list_all_iff)
  have targets: "list_all (\<lambda>c. ic_target_id c = 0 \<or> addressable scene (ic_target_id c)) (pn_commands p)"
    unfolding p_def planned_view_commands by (rule planned_targets [OF facts len(1) addr])
  have h: "ih_deadline_ns (pn_header p) = ax_deadline_ns context" "scene_matches (pn_header p) (pv_header scene)"
    "ih_focus_id (pn_header p) = ax_focus_id context" "ih_topology_epoch (pn_header p) = ax_topology_epoch context"
    "ih_permission_epoch (pn_header p) = ax_permission_epoch context" "ih_expected_buttons (pn_header p) = ax_expected_buttons context"
    using w(5) cur by (simp_all add: action_header_def scene_matches_def scene_current_def)
  show ?thesis
    unfolding preflight_iff [OF s, of "expected_state scene context p check_window check_buttons", simplified expected_state_def, simplified]
      expected_state_def
    using now h targets unfolding addressable_def by simp
qed

text \<open>What an action does to the held buttons and keys: \<open>None\<close> when it contradicts them.\<close>

definition action_effect :: "action_request \<Rightarrow> u32 \<times> u32 list \<Rightarrow> (u32 \<times> u32 list) option" where
  "action_effect r held = (case held of (buttons, keys) \<Rightarrow>
     case ar_kind r of
       Action_hold \<Rightarrow> if buttons AND ar_button r = 0 then Some (buttons OR ar_button r, keys) else None
     | Action_drag \<Rightarrow> if buttons AND ar_button r = 0 then Some held else None
     | Action_text_select \<Rightarrow> if buttons AND ar_button r = 0 then Some held else None
     | Action_release \<Rightarrow> if buttons AND ar_button r \<noteq> 0 then Some (buttons AND NOT (ar_button r), keys) else None
     | Action_key \<Rightarrow> if ar_key_usage r \<notin> set keys \<and> length keys \<noteq> maximum_held_keys then Some held else None
     | _ \<Rightarrow> Some held)"

lemma transitions_none:
  "list_all (\<lambda>c. ic_kind c \<notin> {COMMAND_BUTTON_DOWN, COMMAND_BUTTON_UP, COMMAND_KEY_DOWN, COMMAND_KEY_UP}) cs \<Longrightarrow>
   apply_transitions cs held = Some held"
  by (induction cs) (auto simp: apply_transition_def split: prod.split)

lemma press_release:
  assumes "(buttons :: u32) AND b = 0" "b \<noteq> 0"
  shows "(buttons OR b) AND NOT b = buttons" "(buttons OR b) AND b \<noteq> 0"
proof -
  have "\<not> (bit buttons n \<and> bit b n)" for n using assms(1) by (metis bit_and_iff bit_0_eq bot_apply bot_bool_def)
  then show "(buttons OR b) AND NOT b = buttons"
    by (intro bit_eqI) (auto simp: bit_simps)
  have "(buttons OR b) AND b = b" by (intro bit_eqI) (auto simp: bit_simps)
  then show "(buttons OR b) AND b \<noteq> 0" using assms(2) by simp
qed

lemma press_key: "key \<notin> set keys \<Longrightarrow> remove_key (keys @ [key]) key = Some keys"
proof -
  assume key: "key \<notin> set keys"
  show ?thesis
  proof (cases "remove_key (keys @ [key]) key")
    case None
    then show ?thesis using remove_key_spec(1) by fastforce
  next
    case (Some keys')
    then show ?thesis using first_index_Some [of "\<lambda>k. k = key" "keys @ [key]"] key
      by (auto simp: remove_key_def nth_append split: option.splits if_splits)
  qed
qed

lemma planned_effect:
  assumes "shape_facts r"
  shows "apply_transitions (place_payload r off (action_spec r ts @ final_spec r)) held = action_effect r held"
proof -
  obtain buttons keys where h: "held = (buttons, keys)" by fastforce
  have clicks: "apply_transitions (concat (map (click_pair r) ts)) held = Some held"
    by (rule transitions_none) (induction ts, simp_all add: click_pair_def)
  have final: "apply_transitions (final_spec r) held' = Some held'" for held'
    by (rule transitions_none) (simp add: final_spec_def)
  have button: "ar_button r \<noteq> 0" if "ar_kind r \<in> {Action_hold, Action_drag, Action_text_select, Action_release}"
    using assms that by (auto simp: shape_facts_def action_button_def)
  show ?thesis using clicks final button assms
    by (cases "ar_kind r")
      (simp_all add: action_effect_def action_spec_def place_payload_def apply_transitions_append h Let_def
        apply_transition_def press_release press_key add_key_def shape_facts_def)
qed

lemma planned_begin:
  fixes scene :: packet_view
  assumes "shape_facts r" "length ts \<le> 64" "now < ax_deadline_ns context"
    "ax_permissions context AND action_permissions (ar_kind r) = action_permissions (ar_kind r)"
    "pr_initialized s" "pr_active s = None" "pr_permission_epoch s = ax_permission_epoch context"
    "pr_buttons s = ax_expected_buttons context"
  defines "p \<equiv> planned_view scene context r ts"
  shows "fst (reducer_begin s (Some p) (ax_permissions context) now) =
    (if action_effect r (held_of s) = None then SACCADE_ERROR_STATE else SACCADE_OK)"
proof -
  note w = planned_view_written [OF assms(1,2), of scene "context", folded p_def]
  have "ih_deadline_ns (pn_header p) = ax_deadline_ns context" "ih_permission_epoch (pn_header p) = ax_permission_epoch context"
    "ih_expected_buttons (pn_header p) = ax_expected_buttons context" "ih_required_permissions (pn_header p) = action_permissions (ar_kind r)"
    using w(5) by (simp_all add: action_header_def)
  moreover have "reducer_preflight s p \<longleftrightarrow> action_effect r (held_of s) \<noteq> None"
    unfolding reducer_preflight_def p_def planned_view_commands planned_effect [OF assms(1)] by (rule refl)
  moreover have "\<not> ax_deadline_ns context \<le> now" using assms(3) by simp
  ultimately show ?thesis using assms(4-8)
    by (cases "action_effect r (held_of s)") (simp_all add: reducer_begin_def Let_def)
qed

text \<open>What else a plan carries: its identity and deadline, the window and the display of its first target, for
  which the context stands in where the scene does not know them, and the bytes of a text.\<close>

definition plan_identity :: "packet_view \<Rightarrow> action_context \<Rightarrow> action_request \<Rightarrow> input_plan_header \<Rightarrow> bool" where
  "plan_identity scene context r h \<longleftrightarrow>
     ih_plan_id h = ax_plan_id context \<and> ih_deadline_ns h = ax_deadline_ns context \<and> ih_flags h = ax_plan_flags context \<and>
     ih_required_permissions h = action_permissions (ar_kind r) \<and>
     (ih_window_id h, ih_display_id h) =
       (if ar_target_count r = 0 then (0, 0)
        else let t = target_placed scene r 0 in
          (if tr_window_id t = 0 then ax_window_id context else tr_window_id t,
           if tr_display_id t = 0 then ax_display_id context else tr_display_id t))"

lemma planned_identity:
  assumes "shape_facts r" "unat (ar_target_count r) \<le> 64"
  shows "plan_identity scene context r (pn_header (planned_view scene context r (map (target_placed scene r) [0..<unat (ar_target_count r)])))"
proof -
  have "map (target_placed scene r) [0..<unat (ar_target_count r)] ! 0 = target_placed scene r 0" if "ar_target_count r \<noteq> 0"
    using that by (simp add: unat_gt_0)
  then show ?thesis
    using planned_view_written(5) [OF assms(1), of "map (target_placed scene r) [0..<unat (ar_target_count r)]" scene "context"] assms(2)
    by (simp add: plan_identity_def action_header_def Let_def)
qed

lemma planned_tail:
  assumes "shape_facts r" "length ts \<le> 64"
  shows "drop (plan_header_size + length (action_spec r ts @ final_spec r) * command_size)
    (put_plan (planned_view scene context r ts) @ payload_of r) = payload_of r"
proof -
  have "length (put_plan (planned_view scene context r ts)) = plan_header_size + length (action_spec r ts @ final_spec r) * command_size"
    unfolding put_plan_def length_append command_codec.length_put_table planned_view_written(6) [OF assms] by simp
  then show ?thesis by (metis append_eq_conv_conj)
qed

subsection \<open>Property\<close>

text \<open>C2. Planning fits execution. For a scene as its reader delivers it, the result is an invalid
  argument exactly when the arguments are invalid, else a stale handle exactly when the scene is not
  the one the context names, else not found exactly when some target of the request is missing,
  unusable, without the capability, or does not contain its point although it must, else unsupported exactly when a
  permission is missing, else the state error exactly when the plan flags are unknown, a text action
  has no button, or a key action also moves the pointer; otherwise a plan is built. Its reader accepts
  the plan, whose commands are those of the request on its targets; as long as the deadline lies ahead
  it passes the execution preflight on the desktop it was made for, and an idle input reducer starts
  it exactly when the action does not contradict what is held (a hold, drag or text selection of a
  held button, a release of a button that is up, a key that is down or one more than 16 keys). Its
  transitions then have the effect of the action: a hold leaves its button down, a release up, and
  every other action leaves the held buttons and keys as they were.\<close>

theorem planned_action_executes:
  "let scene = snd (validate_packet scene_bytes True True);
       (r, out, stats') = build_plan stats scene context request True True;
       indices = [0..<unat (ar_target_count request)] in
   case scene of
     None \<Rightarrow> r = SACCADE_ERROR_INVALID_ARGUMENT \<and> out = None
   | Some sc \<Rightarrow>
       r = (if \<not> build_arguments_valid context request then SACCADE_ERROR_INVALID_ARGUMENT
            else if \<not> scene_current sc context then SACCADE_ERROR_STALE_HANDLE
            else if \<not> list_all (target_fits sc request) indices then SACCADE_ERROR_NOT_FOUND
            else if ax_permissions context AND action_permissions (ar_kind request) \<noteq> action_permissions (ar_kind request)
            then SACCADE_ERROR_UNSUPPORTED
            else if plan_refused context request then SACCADE_ERROR_STATE
            else SACCADE_OK) \<and>
       (case out of
          None \<Rightarrow> r \<noteq> SACCADE_OK
        | Some plan \<Rightarrow> r = SACCADE_OK \<and>
            (case snd (validate_plan (Span plan) True True) of
               None \<Rightarrow> False
             | Some p \<Rightarrow>
                 let commands = action_spec request (map (target_placed sc request) indices) @ final_spec request;
                     held = (ax_expected_buttons context, keys);
                     s = reducer\<lparr>pr_initialized := True, pr_active := None, pr_held_keys := keys,
                       pr_permission_epoch := ax_permission_epoch context, pr_buttons := ax_expected_buttons context\<rparr>
                 in plan_identity sc context request (pn_header p) \<and>
                   drop (plan_header_size + length commands * command_size) plan =
                     (if ar_kind request = Action_text then span_bytes (ar_text request) else []) \<and>
                   pn_commands p = place_payload request (plan_header_size + length commands * command_size) commands \<and>
                   apply_transitions (pn_commands p) held = action_effect request held \<and>
                   (if 0 < now \<and> now < ax_deadline_ns context
                    then validate_execution_preflight (Some p) (expected_state sc context p check_window check_buttons) now = SACCADE_OK \<and>
                      fst (reducer_begin s (Some p) (ax_permissions context) now) =
                        (if action_effect request held = None then SACCADE_ERROR_STATE else SACCADE_OK)
                    else True)))"
proof (cases "snd (validate_packet scene_bytes True True)")
  case None
  then show ?thesis by (simp add: build_plan_def)
next
  case (Some sc)
  have wf: "packet_wf sc" using Some by (rule read_view_wf)
  let ?is = "[0..<unat (ar_target_count request)]"
  let ?ts = "map (target_placed sc request) ?is"
  note exact = resolve_exact [OF packet_wf_targets [OF wf], of request ?is]
  note result = build_result [OF wf, of stats "context" request, unfolded exact]
  show ?thesis
  proof (cases "build_arguments_valid context request \<and> scene_current sc context \<and> list_all (target_fits sc request) ?is \<and>
      ax_permissions context AND action_permissions (ar_kind request) = action_permissions (ar_kind request) \<and>
      \<not> plan_refused context request")
    case False
    then show ?thesis unfolding Some Let_def option.case result by auto
  next
    case True
    then have ts: "resolve_targets sc request ?is = Some ?ts" unfolding exact by simp
    have facts: "shape_facts request" using True request_shape_facts by (simp add: build_arguments_valid_def)
    have l: "length ?ts \<le> 64" using facts by (simp add: shape_facts_def)
    let ?v = "planned_view sc context request ?ts"
    note w = planned_view_written [OF facts l, of sc "context"]
    have sp: "ph_coordinate_space (pv_header sc) = SPACE_DESKTOP_Q8" and cur: "scene_current sc context"
      using True by (simp_all add: scene_current_def)
    have "plan_wf ?v"
      using planned_view_wf [OF wf sp, of "context" request ?ts] True resolved_addressable [OF packet_wf_targets [OF wf] ts]
      by (simp add: list_all_iff)
    then have val: "validate_plan (Span (put_plan ?v @ payload_of request)) True True = (SACCADE_OK, Some ?v)"
      using validate_written_plan [OF w(1-3)] by simp
    obtain st where b: "build_plan stats (Some sc) context request True True = (SACCADE_OK, Some (put_plan ?v @ payload_of request), st)"
      using True unfolding result by simp
    show ?thesis unfolding Some b Let_def option.case prod.case val snd_conv
      using True planned_preflight [OF Some cur facts ts, of now check_window check_buttons]
        planned_begin [OF facts l, of now "context" "reducer\<lparr>pr_initialized := True, pr_active := None, pr_held_keys := keys,
           pr_permission_epoch := ax_permission_epoch context, pr_buttons := ax_expected_buttons context\<rparr>" sc]
        planned_effect [OF facts] planned_identity [OF facts, of sc "context"] planned_tail [OF facts l, of sc "context"] l
      by (simp add: planned_view_commands payload_of_def)
  qed
qed

end
