(* ===== verification/Session_Engine.thy ===== *)
theory Session_Engine
  imports Scene_Store Hint_Session Selection_Reducer Action_Planner "HOL-Library.Signed_Division"
begin

text \<open>
  The session engine, \<open>src/application/session.{hpp,cpp}\<close>: it takes the latest scene from the store,
  freezes hint labels over a copy of it, collects typed symbols into a selection, and turns the
  complete selection into a plan that it hands to the executor.

  The scene store is shared with its producer and is an argument and a result of the operations that
  use it. The executor is a function of the host: the parameter \<open>execute\<close> gives its answer from the
  calls it got before and the plan, permissions and time of this one; the engine's calls are logged
  in \<open>se_executed\<close>. Operations that freeze or refresh hints are \<open>None\<close> when they do not return.
\<close>

type_synonym executor_call = "u8 list \<times> u32 \<times> u64"
type_synonym executor = "executor_call list \<Rightarrow> executor_call \<Rightarrow> saccade_result"

record session_action =
  sa_kind :: action_kind
  sa_button :: u32
  sa_repeat_count :: u32
  sa_key_usage :: u32
  sa_modifiers :: u32
  sa_delta_x_q8 :: i32
  sa_delta_y_q8 :: i32
  sa_duration_ns :: u64
  sa_pointer_duration_ns :: u64
  sa_final_pointer :: point_q8
  sa_text :: span_u8
  sa_move_to_final_pointer :: bool
  sa_defer_execution :: bool

record session_config =
  sc_mode :: selection_mode
  sc_hints :: hint_config
  sc_action :: action_context
  sc_request :: session_action

record session_epochs =
  ep_scene_epoch :: u64
  ep_transform_epoch :: u64
  ep_topology_epoch :: u64
  ep_permission_epoch :: u64
  ep_focus_id :: u64

record session_event =
  ev_target_id :: u64
  ev_candidate_count :: u32
  ev_selected_count :: u32
  ev_exact :: bool
  ev_action_executed :: bool

definition no_event :: session_event where
  "no_event = \<lparr>ev_target_id = 0, ev_candidate_count = 0, ev_selected_count = 0, ev_exact = False, ev_action_executed = False\<rparr>"

record session_stats =
  sn_sessions_started :: u64
  sn_sessions_completed :: u64
  sn_sessions_cancelled :: u64
  sn_symbols_entered :: u64
  sn_prefixes_rejected :: u64
  sn_plans_executed :: u64
  sn_execution_failures :: u64
  sn_stale_cancellations :: u64
  sn_scene_refreshes :: u64
  sn_refresh_failures :: u64

datatype snap_direction = Snap_left | Snap_right | Snap_up | Snap_down | Snap_other

record session_engine =
  se_bound :: bool
  se_scene :: "packet_view option"
  se_hints :: hint_session
  se_selection :: selection_reducer
  se_planner :: action_planner_stats
  se_action_context :: action_context
  se_action :: session_action
  se_stats :: session_stats
  se_prefix :: "u16 list"
  se_target_position :: u32
  se_nudge_x_q8 :: i32
  se_nudge_y_q8 :: i32
  se_initialized :: bool
  se_active :: bool
  se_deferred_execution :: bool
  se_executed :: "executor_call list"

definition no_action_context :: action_context where
  "no_action_context = \<lparr>ax_plan_id = 0, ax_scene_epoch = 0, ax_transform_epoch = 0, ax_topology_epoch = 0,
     ax_permission_epoch = 0, ax_focus_id = 0, ax_window_id = 0, ax_display_id = 0, ax_now_ns = 0, ax_deadline_ns = 0,
     ax_permissions = 0, ax_expected_buttons = 0, ax_plan_flags = PLAN_STOP_ON_FAILURE, ax_reserved = 0\<rparr>"

definition default_action :: session_action where
  "default_action = \<lparr>sa_kind = Action_click, sa_button = BUTTON_LEFT, sa_repeat_count = 1, sa_key_usage = 0,
     sa_modifiers = 0, sa_delta_x_q8 = 0, sa_delta_y_q8 = 0, sa_duration_ns = 0, sa_pointer_duration_ns = 0,
     sa_final_pointer = \<lparr>pt_x = 0, pt_y = 0\<rparr>, sa_text = Null_span 0, sa_move_to_final_pointer = False,
     sa_defer_execution = False\<rparr>"

definition fresh_session :: session_engine where
  "fresh_session = \<lparr>se_bound = False, se_scene = None, se_hints = fresh_hint_session, se_selection = fresh_selection,
     se_planner = \<lparr>as_plans_built = 0, as_commands_built = 0, as_targets_resolved = 0, as_rejected_stale = 0,
       as_rejected_unsafe = 0, as_rejected_permission = 0\<rparr>,
     se_action_context = no_action_context, se_action = default_action,
     se_stats = \<lparr>sn_sessions_started = 0, sn_sessions_completed = 0, sn_sessions_cancelled = 0, sn_symbols_entered = 0,
       sn_prefixes_rejected = 0, sn_plans_executed = 0, sn_execution_failures = 0, sn_stale_cancellations = 0,
       sn_scene_refreshes = 0, sn_refresh_failures = 0\<rparr>,
     se_prefix = [], se_target_position = uint32_max, se_nudge_x_q8 = 0, se_nudge_y_q8 = 0, se_initialized = False,
     se_active = False, se_deferred_execution = False, se_executed = []\<rparr>"

subsection \<open>Helpers\<close>

definition action_compatible :: "selection_mode \<Rightarrow> action_kind \<Rightarrow> bool" where
  "action_compatible mode action =
     (if action = Action_key \<or> action = Action_release then False
      else if mode = Select_single then True
      else if mode = Select_dual then action = Action_click \<or> action = Action_drag \<or> action = Action_text_select
      else action = Action_click)"

definition selection_context_of :: "action_context \<Rightarrow> selection_context" where
  "selection_context_of c = \<lparr>sx_scene_epoch = ax_scene_epoch c, sx_transform_epoch = ax_transform_epoch c,
     sx_topology_epoch = ax_topology_epoch c, sx_focus_id = ax_focus_id c, sx_deadline_ns = ax_deadline_ns c\<rparr>"

text \<open>The nine places of a target, centre first: column and row.\<close>

definition target_positions :: "(nat \<times> nat) list" where
  "target_positions = [(1, 1), (0, 0), (1, 0), (2, 0), (2, 1), (2, 2), (1, 2), (0, 2), (0, 1)]"

definition position_index :: "nat \<Rightarrow> nat \<Rightarrow> u32" where
  "position_index column row =
     (case first_index (\<lambda>p. p = (column, row)) target_positions of None \<Rightarrow> 0 | Some i \<Rightarrow> word_of_nat i)"

definition reset_session :: "session_engine \<Rightarrow> session_engine" where
  "reset_session e = e\<lparr>
     se_hints := (if hs_frozen (se_hints e) then snd (hint_cancel (se_hints e)) else se_hints e),
     se_selection := (if sl_state (se_selection e) \<noteq> Selection_idle then snd (selection_reset (se_selection e)) else se_selection e),
     se_scene := None, se_action_context := no_action_context, se_action := default_action,
     se_deferred_execution := False, se_prefix := [], se_target_position := uint32_max,
     se_nudge_x_q8 := 0, se_nudge_y_q8 := 0, se_active := False\<rparr>"

abbreviation session_complete :: "session_engine \<Rightarrow> bool" where
  "session_complete e \<equiv> sl_state (se_selection e) = Selection_complete"

definition selected_count :: "session_engine \<Rightarrow> u32" where
  "selected_count e = word_of_nat (length (sl_target_ids (se_selection e)))"

definition session_cancel :: "session_engine \<Rightarrow> cancel_reason \<Rightarrow> saccade_result \<times> session_engine" where
  "session_cancel e reason =
     (if \<not> se_active e then (SACCADE_ERROR_STATE, e)
      else let (result, selection) = (if sl_state (se_selection e) = Selection_collecting
                                      then selection_cancel (se_selection e) reason else (SACCADE_OK, se_selection e));
               e = e\<lparr>se_selection := selection\<rparr>
      in if result \<noteq> SACCADE_OK then (result, e)
         else (SACCADE_OK, reset_session (e\<lparr>se_stats := (se_stats e)\<lparr>sn_sessions_cancelled :=
                sn_sessions_cancelled (se_stats e) + 1\<rparr>\<rparr>)))"

subsection \<open>Scenes\<close>

text \<open>The bytes \<open>copy_scene\<close> copies: \<open>byte_size\<close> bytes from the header of the acquired view on, which
  lies at the start of the active slot. The copy in the session's own storage is what the labels, the
  selection and the session look at; a failed refresh overwrites it too, and ends the session.\<close>

definition acquired_bytes :: "scene_store \<Rightarrow> packet_view \<Rightarrow> u8 list" where
  "acquired_bytes store v = slot_prefix (slot_at store (unat (st_active_slot store))) 0 (pv_byte_size v)"

definition copy_scene :: "scene_store \<Rightarrow> packet_view \<Rightarrow> saccade_result \<times> packet_view option" where
  "copy_scene store v =
     (if pv_byte_size v = 0 \<or> pv_byte_size v > target_packet_max_bytes then (SACCADE_ERROR_INVALID_ARGUMENT, None)
      else validate_packet (Span (acquired_bytes store v)) True True)"

definition session_initialize :: "session_engine \<Rightarrow> bool \<Rightarrow> bool \<Rightarrow> bool \<Rightarrow> saccade_result \<times> session_engine" where
  "session_initialize e scenes storage executor =
     (if se_initialized e then (SACCADE_ERROR_ALREADY_EXISTS, e)
      else if \<not> scenes \<or> \<not> storage \<or> \<not> executor then (SACCADE_ERROR_INVALID_ARGUMENT, e)
      else (SACCADE_OK, e\<lparr>se_bound := True, se_initialized := True\<rparr>))"

definition session_config_valid :: "session_config \<Rightarrow> bool" where
  "session_config_valid config \<longleftrightarrow> (let a = sc_action config; text = sa_text (sc_request config) in
     \<not> (\<not> action_compatible (sc_mode config) (sa_kind (sc_request config)) \<or> ax_plan_id a = 0 \<or> ax_scene_epoch a = 0 \<or>
        ax_transform_epoch a = 0 \<or> ax_topology_epoch a = 0 \<or> ax_permission_epoch a = 0 \<or> ax_deadline_ns a = 0 \<or>
        ax_now_ns a \<ge> ax_deadline_ns a \<or> span_size text > maximum_plan_payload_bytes \<or>
        (span_size text \<noteq> 0 \<and> (case text of Null_span _ \<Rightarrow> True | Span _ \<Rightarrow> False))))"

definition begin_scene ::
  "session_engine \<Rightarrow> session_config \<Rightarrow> scene_store \<Rightarrow> packet_view \<Rightarrow> (saccade_result \<times> session_engine) option" where
  "begin_scene e config store latest =
     (if \<not> session_config_valid config then Some (SACCADE_ERROR_INVALID_ARGUMENT, e)
      else if ph_scene_epoch (pv_header latest) \<noteq> ax_scene_epoch (sc_action config) \<or>
         ph_transform_epoch (pv_header latest) \<noteq> ax_transform_epoch (sc_action config) \<or>
         ph_topology_epoch (pv_header latest) \<noteq> ax_topology_epoch (sc_action config)
      then Some (SACCADE_ERROR_STALE_HANDLE, e)
      else case copy_scene store latest of (result, owned) \<Rightarrow>
        if result \<noteq> SACCADE_OK then Some (result, e)
        else case freeze owned (sc_hints config) True (se_hints e) of
          None \<Rightarrow> None
        | Some (result, hints) \<Rightarrow>
            let e = e\<lparr>se_hints := hints\<rparr> in
            if result \<noteq> SACCADE_OK then Some (result, e)
            else case selection_begin (se_selection e) owned (sc_mode config) (selection_context_of (sc_action config)) True of
              (result, selection) \<Rightarrow>
                let e = e\<lparr>se_selection := selection\<rparr> in
                if result \<noteq> SACCADE_OK then Some (result, e\<lparr>se_hints := snd (hint_cancel (se_hints e))\<rparr>)
                else Some (SACCADE_OK, e\<lparr>se_scene := owned, se_action_context := sc_action config,
                       se_action := sc_request config, se_deferred_execution := sa_defer_execution (sc_request config),
                       se_prefix := [], se_target_position := uint32_max, se_nudge_x_q8 := 0, se_nudge_y_q8 := 0,
                       se_active := True,
                       se_stats := (se_stats e)\<lparr>sn_sessions_started := sn_sessions_started (se_stats e) + 1\<rparr>\<rparr>))"

type_synonym session_result = "(saccade_result \<times> session_engine \<times> scene_store) option"

definition session_begin :: "session_engine \<Rightarrow> scene_store \<Rightarrow> session_config \<Rightarrow> session_result" where
  "session_begin e store config =
     (if \<not> se_initialized e \<or> se_active e then Some (SACCADE_ERROR_STATE, e, store)
      else case acquire_latest True None store of
        (SACCADE_OK, store, Some latest) \<Rightarrow> map_option (\<lambda>(r, e). (r, e, store)) (begin_scene e config store latest)
      | (acquired, store, _) \<Rightarrow> Some (acquired, e, store))"

definition with_epochs :: "session_config \<Rightarrow> packet_header \<Rightarrow> session_config" where
  "with_epochs config h = config\<lparr>sc_action := (sc_action config)\<lparr>ax_scene_epoch := ph_scene_epoch h,
     ax_transform_epoch := ph_transform_epoch h, ax_topology_epoch := ph_topology_epoch h\<rparr>\<rparr>"

definition session_begin_latest :: "session_engine \<Rightarrow> scene_store \<Rightarrow> session_config \<Rightarrow> session_result" where
  "session_begin_latest e store config =
     (if \<not> se_initialized e \<or> se_active e then Some (SACCADE_ERROR_STATE, e, store)
      else case acquire_latest True None store of
        (SACCADE_OK, store, Some latest) \<Rightarrow>
          map_option (\<lambda>(r, e). (r, e, store)) (begin_scene e (with_epochs config (pv_header latest)) store latest)
      | (acquired, store, _) \<Rightarrow> Some (acquired, e, store))"

definition refresh_failure :: "session_engine \<Rightarrow> session_engine" where
  "refresh_failure e = e\<lparr>se_stats := (se_stats e)\<lparr>sn_refresh_failures := sn_refresh_failures (se_stats e) + 1\<rparr>\<rparr>"

definition refresh_latest :: "session_engine \<Rightarrow> scene_store \<Rightarrow> session_epochs \<Rightarrow> session_result" where
  "refresh_latest e store current =
     (case acquire_latest True None store of
        (SACCADE_OK, store, Some latest) \<Rightarrow>
          if ph_scene_epoch (pv_header latest) \<noteq> ep_scene_epoch current \<or>
             ph_transform_epoch (pv_header latest) \<noteq> ep_transform_epoch current \<or>
             ph_topology_epoch (pv_header latest) \<noteq> ep_topology_epoch current
          then Some (SACCADE_ERROR_STALE_HANDLE, refresh_failure e, store)
          else (case copy_scene store latest of
             (SACCADE_OK, Some owned) \<Rightarrow>
               (case refresh_scene (Some owned) (se_hints e) of
                  None \<Rightarrow> None
                | Some (result, hints) \<Rightarrow>
                    let e = e\<lparr>se_hints := hints\<rparr> in
                    if result \<noteq> SACCADE_OK then Some (SACCADE_ERROR_STALE_HANDLE, refresh_failure e, store)
                    else case selection_refresh_scene (se_selection e) (Some owned) of
                      (result, selection) \<Rightarrow>
                        let e = e\<lparr>se_selection := selection\<rparr> in
                        if result \<noteq> SACCADE_OK then Some (SACCADE_ERROR_STALE_HANDLE, refresh_failure e, store)
                        else Some (SACCADE_OK, e\<lparr>se_scene := Some owned,
                               se_action_context := (se_action_context e)\<lparr>ax_scene_epoch := ph_scene_epoch (pv_header owned)\<rparr>,
                               se_stats := (se_stats e)\<lparr>sn_scene_refreshes := sn_scene_refreshes (se_stats e) + 1\<rparr>\<rparr>, store))
           | _ \<Rightarrow> Some (SACCADE_ERROR_STALE_HANDLE, refresh_failure e, store))
      | (_, store, _) \<Rightarrow> Some (SACCADE_ERROR_STALE_HANDLE, refresh_failure e, store))"

subsection \<open>Where a target is hit\<close>

definition cycle_target_position :: "session_engine \<Rightarrow> saccade_result \<times> session_engine" where
  "cycle_target_position e =
     (if \<not> se_active e then (SACCADE_ERROR_STATE, e)
      else (SACCADE_OK, e\<lparr>se_target_position := (if se_target_position e = uint32_max then 0
              else (se_target_position e + 1) mod word_of_nat (length target_positions)),
              se_nudge_x_q8 := 0, se_nudge_y_q8 := 0\<rparr>))"

definition set_target_position :: "session_engine \<Rightarrow> u32 \<Rightarrow> saccade_result \<times> session_engine" where
  "set_target_position e grid_index =
     (if \<not> se_active e \<or> unat grid_index \<ge> length target_positions then (SACCADE_ERROR_INVALID_ARGUMENT, e)
      else (SACCADE_OK, e\<lparr>se_target_position := position_index (unat grid_index mod 3) (unat grid_index div 3),
              se_nudge_x_q8 := 0, se_nudge_y_q8 := 0\<rparr>))"

definition snap_target :: "session_engine \<Rightarrow> snap_direction \<Rightarrow> saccade_result \<times> session_engine" where
  "snap_target e direction =
     (if \<not> se_active e \<or> direction = Snap_other then (SACCADE_ERROR_INVALID_ARGUMENT, e)
      else let (column, row) = (if se_target_position e = uint32_max then (1, 1)
                                else target_positions ! unat (se_target_position e));
               (column, row) = (case direction of
                  Snap_left \<Rightarrow> (0, row) | Snap_right \<Rightarrow> (2, row) | Snap_up \<Rightarrow> (column, 0) | Snap_down \<Rightarrow> (column, 2)
                | Snap_other \<Rightarrow> (column, row))
      in (SACCADE_OK, e\<lparr>se_target_position := position_index column row, se_nudge_x_q8 := 0, se_nudge_y_q8 := 0\<rparr>))"

definition nudge_target :: "session_engine \<Rightarrow> i32 \<Rightarrow> i32 \<Rightarrow> saccade_result \<times> session_engine" where
  "nudge_target e delta_x delta_y =
     (if \<not> se_active e \<or> (delta_x = 0 \<and> delta_y = 0) then (SACCADE_ERROR_INVALID_ARGUMENT, e)
      else let x = sint (se_nudge_x_q8 e) + sint delta_x; y = sint (se_nudge_y_q8 e) + sint delta_y in
        if x < int32_min \<or> x > int32_max \<or> y < int32_min \<or> y > int32_max then (SACCADE_ERROR_CAPACITY, e)
        else (SACCADE_OK, e\<lparr>se_nudge_x_q8 := word_of_int x, se_nudge_y_q8 := word_of_int y\<rparr>))"

text \<open>One coordinate of the nine places: \<open>int64_t\<close> arithmetic, division truncating.\<close>

definition place_coordinate :: "i32 \<Rightarrow> i32 \<Rightarrow> nat \<Rightarrow> int" where
  "place_coordinate origin extent place =
     (let maximum = sint extent - 1; inset = min 512 (maximum sdiv 4)
      in [sint origin + inset, sint origin + maximum sdiv 2, sint origin + maximum - inset] ! place)"

definition adjusted_point :: "session_engine \<Rightarrow> target_record \<Rightarrow> point_q8" where
  "adjusted_point e t =
     (let (x, y) = (if se_target_position e \<noteq> uint32_max
            then let (column, row) = target_positions ! unat (se_target_position e)
                 in (place_coordinate (tr_x_q8 t) (tr_width_q8 t) column, place_coordinate (tr_y_q8 t) (tr_height_q8 t) row)
            else (sint (tr_safe_x_q8 t), sint (tr_safe_y_q8 t)));
          x = x + sint (se_nudge_x_q8 e); y = y + sint (se_nudge_y_q8 e)
      in \<lparr>pt_x = word_of_int (max int32_min (min int32_max x)), pt_y = word_of_int (max int32_min (min int32_max y))\<rparr>)"

subsection \<open>Executing a selection\<close>

definition session_target :: "packet_view option \<Rightarrow> u64 \<Rightarrow> target_record option" where
  "session_target scene target_id =
     (case scene of None \<Rightarrow> None | Some v \<Rightarrow> List.find (\<lambda>t. tr_target_id t = target_id) (pv_targets v))"

text \<open>The points of the selected targets; \<open>None\<close> when one of them is not in the scene.\<close>

fun action_points :: "session_engine \<Rightarrow> u64 list \<Rightarrow> point_q8 list option" where
  "action_points e [] = Some []"
| "action_points e (i # ids) =
     (case session_target (se_scene e) i of
        None \<Rightarrow> None
      | Some t \<Rightarrow> map_option (Cons (adjusted_point e t)) (action_points e ids))"

definition session_request :: "session_action \<Rightarrow> u64 list \<Rightarrow> point_q8 list \<Rightarrow> action_request" where
  "session_request a ids points =
     \<lparr>ar_kind = sa_kind a, ar_target_ids = Some ids, ar_target_points = Some points,
      ar_target_count = word_of_nat (length ids), ar_target_point_count = word_of_nat (length ids),
      ar_button = sa_button a, ar_repeat_count = sa_repeat_count a, ar_key_usage = sa_key_usage a,
      ar_modifiers = sa_modifiers a, ar_delta_x_q8 = sa_delta_x_q8 a, ar_delta_y_q8 = sa_delta_y_q8 a,
      ar_duration_ns = sa_duration_ns a, ar_pointer_duration_ns = sa_pointer_duration_ns a,
      ar_final_pointer = sa_final_pointer a, ar_text = sa_text a,
      ar_move_to_final_pointer = sa_move_to_final_pointer a, ar_allow_point_outside_target = True,
      ar_reserved = replicate 6 0\<rparr>"

definition execution_grace_ns :: u64 where "execution_grace_ns = 1000000000"

text \<open>The deadline of the plan: none when a duration overflows. The last test subtracts the time from
  \<open>UINT64_MAX - execution_grace_ns\<close>, modulo 2^64.\<close>

definition execution_deadline :: "session_action \<Rightarrow> u64 \<Rightarrow> u64 \<Rightarrow> u64 option" where
  "execution_deadline a target_count now_ns =
     (let pointer_steps = target_count + (if sa_move_to_final_pointer a then 1 else 0) in
      if sa_pointer_duration_ns a \<noteq> 0 \<and> pointer_steps > uint64_max div sa_pointer_duration_ns a then None
      else let pointer_duration = sa_pointer_duration_ns a * pointer_steps in
      if sa_duration_ns a > uint64_max - pointer_duration then None
      else let execution_duration = sa_duration_ns a + pointer_duration in
      if execution_duration > uint64_max - execution_grace_ns - now_ns then None
      else Some (now_ns + execution_grace_ns + execution_duration))"

type_synonym event_result = "saccade_result \<times> session_event option \<times> session_engine"

definition execute_selection :: "executor \<Rightarrow> session_engine \<Rightarrow> u64 \<Rightarrow> session_event \<Rightarrow> event_result" where
  "execute_selection execute e now_ns event =
     (let ids = sl_target_ids (se_selection e) in
      case action_points e ids of
        None \<Rightarrow> (SACCADE_ERROR_STALE_HANDLE, Some event, e)
      | Some points \<Rightarrow>
          let request = session_request (se_action e) ids points;
              e = e\<lparr>se_action_context := (se_action_context e)\<lparr>ax_now_ns := now_ns\<rparr>\<rparr>
          in (case execution_deadline (se_action e) (word_of_nat (length ids)) now_ns of
                None \<Rightarrow> (SACCADE_ERROR_CAPACITY, Some event, e)
              | Some deadline \<Rightarrow>
                  let e = e\<lparr>se_action_context := (se_action_context e)\<lparr>ax_deadline_ns := deadline\<rparr>\<rparr>;
                      (result, plan, planner) = build_plan (se_planner e) (se_scene e) (se_action_context e) request True True;
                      e = e\<lparr>se_planner := planner\<rparr>;
                      (result, e) = (case (result, plan) of
                         (SACCADE_OK, Some bytes) \<Rightarrow>
                           let call = (bytes, ax_permissions (se_action_context e), now_ns)
                           in (execute (se_executed e) call, e\<lparr>se_executed := se_executed e @ [call]\<rparr>)
                       | _ \<Rightarrow> (result, e));
                      (event, e) = (if result = SACCADE_OK
                         then (event\<lparr>ev_action_executed := True\<rparr>,
                               e\<lparr>se_stats := (se_stats e)\<lparr>sn_plans_executed := sn_plans_executed (se_stats e) + 1,
                                 sn_sessions_completed := sn_sessions_completed (se_stats e) + 1\<rparr>\<rparr>)
                         else (event, e\<lparr>se_stats := (se_stats e)\<lparr>sn_execution_failures :=
                                 sn_execution_failures (se_stats e) + 1\<rparr>\<rparr>))
                  in (result, Some event, reset_session e)))"

subsection \<open>Typing\<close>

definition session_resolve :: "session_engine \<Rightarrow> session_event \<Rightarrow> saccade_result \<times> session_event \<times> session_engine" where
  "session_resolve e event =
     (case resolve_prefix (Some (se_prefix e)) True (se_hints e) of
        (resolved, hints, m) \<Rightarrow>
          let e = e\<lparr>se_hints := hints\<rparr> in
          if resolved \<noteq> SACCADE_OK then (resolved, event, e)
          else (SACCADE_OK, event\<lparr>ev_target_id := hm_target_id (the m), ev_candidate_count := hm_candidate_count (the m),
                  ev_exact := hm_exact (the m), ev_selected_count := selected_count e\<rparr>, e))"

definition enter_symbol :: "executor \<Rightarrow> session_engine \<Rightarrow> u16 \<Rightarrow> u64 \<Rightarrow> bool \<Rightarrow> event_result" where
  "enter_symbol execute e symbol now_ns output =
     (if \<not> se_active e \<or> \<not> output \<or> symbol = 0 then (SACCADE_ERROR_INVALID_ARGUMENT, None, e)
      else if now_ns \<ge> ax_deadline_ns (se_action_context e)
      then (SACCADE_ERROR_STALE_HANDLE, Some no_event, snd (session_cancel e Cancel_timeout))
      else if length (se_prefix e) = maximum_hint_symbols then (SACCADE_ERROR_CAPACITY, Some no_event, e)
      else let e = e\<lparr>se_prefix := se_prefix e @ [symbol],
                 se_stats := (se_stats e)\<lparr>sn_symbols_entered := sn_symbols_entered (se_stats e) + 1\<rparr>\<rparr>;
               (result, event, e) = session_resolve e no_event
      in if result \<noteq> SACCADE_OK
         then (result, Some event, e\<lparr>se_prefix := butlast (se_prefix e),
                 se_stats := (se_stats e)\<lparr>sn_prefixes_rejected := sn_prefixes_rejected (se_stats e) + 1\<rparr>\<rparr>)
         else if \<not> ev_exact event then (SACCADE_OK, Some event, e)
         else case selection_select (se_selection e) (ev_target_id event) of (result, selection) \<Rightarrow>
           let e = e\<lparr>se_selection := selection\<rparr> in
           if result \<noteq> SACCADE_OK then (result, Some event, e)
           else let e = e\<lparr>se_prefix := []\<rparr>; event = event\<lparr>ev_selected_count := selected_count e\<rparr>
           in if session_complete e \<and> \<not> se_deferred_execution e then execute_selection execute e now_ns event
              else (SACCADE_OK, Some event, e))"

definition session_backspace :: "session_engine \<Rightarrow> bool \<Rightarrow> event_result" where
  "session_backspace e output =
     (if \<not> se_active e \<or> \<not> output then (SACCADE_ERROR_INVALID_ARGUMENT, None, e)
      else if se_prefix e \<noteq> [] then
        (let e = e\<lparr>se_prefix := butlast (se_prefix e)\<rparr> in
         if se_prefix e \<noteq> [] then (case session_resolve e no_event of (r, event, e) \<Rightarrow> (r, Some event, e))
         else (SACCADE_OK, Some (no_event\<lparr>ev_selected_count := selected_count e\<rparr>), e))
      else if se_deferred_execution e \<and> session_complete e then
        (let (result, selection) = selection_reset (se_selection e);
             (result, selection) = (if result = SACCADE_OK
               then selection_begin selection (se_scene e) Select_single (selection_context_of (se_action_context e)) True
               else (result, selection))
         in (result, Some no_event, e\<lparr>se_selection := selection\<rparr>))
      else (let (result, selection) = selection_backspace (se_selection e); e = e\<lparr>se_selection := selection\<rparr>
            in (result, Some (no_event\<lparr>ev_selected_count := selected_count e\<rparr>), e)))"

definition session_confirm :: "executor \<Rightarrow> session_engine \<Rightarrow> u64 \<Rightarrow> bool \<Rightarrow> event_result" where
  "session_confirm execute e now_ns output =
     (if \<not> se_active e \<or> \<not> output then (SACCADE_ERROR_INVALID_ARGUMENT, None, e)
      else if now_ns \<ge> ax_deadline_ns (se_action_context e)
      then (SACCADE_ERROR_STALE_HANDLE, Some no_event, snd (session_cancel e Cancel_timeout))
      else let (confirmed, selection) = (if se_deferred_execution e \<and> session_complete e
               then (SACCADE_OK, se_selection e) else selection_confirm (se_selection e));
               e = e\<lparr>se_selection := selection\<rparr>
      in if confirmed \<noteq> SACCADE_OK then (confirmed, Some no_event, e)
         else execute_selection execute e now_ns (no_event\<lparr>ev_selected_count := selected_count e\<rparr>))"

subsection \<open>Time\<close>

definition end_stale :: "session_engine \<Rightarrow> session_engine" where
  "end_stale e = reset_session (e\<lparr>se_stats := (se_stats e)\<lparr>
     sn_stale_cancellations := sn_stale_cancellations (se_stats e) + 1,
     sn_sessions_cancelled := sn_sessions_cancelled (se_stats e) + 1\<rparr>\<rparr>)"

definition refreshable_scene :: "session_engine \<Rightarrow> session_epochs \<Rightarrow> u64 \<Rightarrow> bool" where
  "refreshable_scene e current now_ns \<longleftrightarrow> (let a = se_action_context e in
     ep_scene_epoch current \<noteq> ax_scene_epoch a \<and> ep_transform_epoch current = ax_transform_epoch a \<and>
     ep_topology_epoch current = ax_topology_epoch a \<and> ep_focus_id current = ax_focus_id a \<and>
     now_ns < ax_deadline_ns a)"

text \<open>The end of a tick: the check of a selection that waits for confirmation, or of one being collected.\<close>

definition tick_validate :: "session_engine \<Rightarrow> session_epochs \<Rightarrow> u64 \<Rightarrow> saccade_result \<times> session_engine" where
  "tick_validate e current now_ns =
     (let a = se_action_context e;
          (result, selection) = (if se_deferred_execution e \<and> session_complete e
            then (if now_ns \<ge> ax_deadline_ns a \<or> ep_scene_epoch current \<noteq> ax_scene_epoch a \<or>
                     ep_transform_epoch current \<noteq> ax_transform_epoch a \<or>
                     ep_topology_epoch current \<noteq> ax_topology_epoch a \<or> ep_focus_id current \<noteq> ax_focus_id a
                  then SACCADE_ERROR_STALE_HANDLE else SACCADE_OK, se_selection e)
            else selection_validate (se_selection e) \<lparr>sx_scene_epoch = ep_scene_epoch current,
                   sx_transform_epoch = ep_transform_epoch current, sx_topology_epoch = ep_topology_epoch current,
                   sx_focus_id = ep_focus_id current, sx_deadline_ns = ax_deadline_ns a\<rparr> now_ns);
          e = e\<lparr>se_selection := selection\<rparr>
      in if result = SACCADE_OK then (result, e) else (result, end_stale e))"

definition session_tick :: "session_engine \<Rightarrow> scene_store \<Rightarrow> session_epochs \<Rightarrow> u64 \<Rightarrow> session_result" where
  "session_tick e store current now_ns =
     (if \<not> se_active e then Some (SACCADE_ERROR_STATE, e, store)
      else if ep_permission_epoch current \<noteq> ax_permission_epoch (se_action_context e)
      then Some (SACCADE_ERROR_STALE_HANDLE,
             snd (session_cancel (e\<lparr>se_stats := (se_stats e)\<lparr>sn_stale_cancellations := sn_stale_cancellations (se_stats e) + 1\<rparr>\<rparr>)
               Cancel_permission_lost), store)
      else if refreshable_scene e current now_ns then
        (case refresh_latest e store current of
           None \<Rightarrow> None
         | Some (result, e, store) \<Rightarrow>
             if result \<noteq> SACCADE_OK
             then let e = (if sl_state (se_selection e) = Selection_collecting
                           then e\<lparr>se_selection := snd (selection_cancel (se_selection e) Cancel_scene_changed)\<rparr> else e)
                  in Some (SACCADE_ERROR_STALE_HANDLE, end_stale e, store)
             else case tick_validate e current now_ns of (r, e) \<Rightarrow> Some (r, e, store))
      else case tick_validate e current now_ns of (r, e) \<Rightarrow> Some (r, e, store))"

definition session_shutdown :: "session_engine \<Rightarrow> saccade_result \<times> session_engine" where
  "session_shutdown e =
     (if \<not> se_initialized e then (SACCADE_ERROR_STATE, e)
      else let (cancelled, e) = (if se_active e then session_cancel e Cancel_user else (SACCADE_OK, e)) in
        if cancelled \<noteq> SACCADE_OK then (cancelled, e)
        else (SACCADE_OK, e\<lparr>se_bound := False, se_initialized := False\<rparr>))"

subsection \<open>The component\<close>

datatype session_op =
    Session_initialize bool bool bool
  | Session_begin session_config
  | Session_begin_latest session_config
  | Session_symbol u16 u64 bool
  | Session_backspace bool
  | Session_confirm u64 bool
  | Session_cycle
  | Session_position u32
  | Session_snap snap_direction
  | Session_nudge i32 i32
  | Session_tick session_epochs u64
  | Session_cancel cancel_reason
  | Session_shutdown
  | Session_producer store_op

text \<open>One operation on the engine and the store; the store's producer takes steps in between. The
  result is \<open>None\<close> when the operation does not return.\<close>

primrec session_call :: "executor \<Rightarrow> session_op \<Rightarrow> session_engine \<Rightarrow> scene_store \<Rightarrow> (session_engine \<times> scene_store) option" where
  "session_call execute (Session_initialize scenes storage executor) e st = Some (snd (session_initialize e scenes storage executor), st)"
| "session_call execute (Session_begin config) e st = map_option snd (session_begin e st config)"
| "session_call execute (Session_begin_latest config) e st = map_option snd (session_begin_latest e st config)"
| "session_call execute (Session_symbol symbol now out) e st = Some (snd (snd (enter_symbol execute e symbol now out)), st)"
| "session_call execute (Session_backspace out) e st = Some (snd (snd (session_backspace e out)), st)"
| "session_call execute (Session_confirm now out) e st = Some (snd (snd (session_confirm execute e now out)), st)"
| "session_call execute Session_cycle e st = Some (snd (cycle_target_position e), st)"
| "session_call execute (Session_position i) e st = Some (snd (set_target_position e i), st)"
| "session_call execute (Session_snap direction) e st = Some (snd (snap_target e direction), st)"
| "session_call execute (Session_nudge dx dy) e st = Some (snd (nudge_target e dx dy), st)"
| "session_call execute (Session_tick current now) e st = map_option snd (session_tick e st current now)"
| "session_call execute (Session_cancel reason) e st = Some (snd (session_cancel e reason), st)"
| "session_call execute Session_shutdown e st = Some (snd (session_shutdown e), st)"
| "session_call execute (Session_producer p) e st = Some (e, store_step st p)"

definition session_step :: "executor \<Rightarrow> (session_engine \<times> scene_store) option \<Rightarrow> session_op \<Rightarrow> (session_engine \<times> scene_store) option" where
  "session_step execute w op = (case w of None \<Rightarrow> None | Some (e, st) \<Rightarrow> session_call execute op e st)"

text \<open>A live session looks at a scene its reader accepted, with the epochs of its context; its labels
  are frozen and its selection is over the same scene.\<close>

definition session_live :: "session_engine \<Rightarrow> bool" where
  "session_live e \<longleftrightarrow> (\<exists>v. se_scene e = Some v \<and> (\<exists>bytes. snd (validate_packet bytes True True) = Some v) \<and>
     scene_current v (se_action_context e) \<and> sl_scene (se_selection e) = Some v \<and> hs_frozen (se_hints e) \<and>
     sl_state (se_selection e) \<in> {Selection_collecting, Selection_complete} \<and>
     sx_transform_epoch (sl_context (se_selection e)) = ax_transform_epoch (se_action_context e) \<and>
     sx_topology_epoch (sl_context (se_selection e)) = ax_topology_epoch (se_action_context e) \<and>
     ax_scene_epoch (se_action_context e) \<noteq> 0 \<and> ax_transform_epoch (se_action_context e) \<noteq> 0 \<and>
     ax_topology_epoch (se_action_context e) \<noteq> 0 \<and> ax_deadline_ns (se_action_context e) \<noteq> 0 \<and>
     (se_target_position e = uint32_max \<or> unat (se_target_position e) < 9))"

definition session_idle :: "session_engine \<Rightarrow> bool" where
  "session_idle e \<longleftrightarrow> \<not> hs_frozen (se_hints e) \<and> sl_state (se_selection e) = Selection_idle \<and> se_scene e = None \<and> se_prefix e = []"

text \<open>A call of the executor: a plan its reader accepts, with its permissions, before its deadline.\<close>

definition call_ok :: "executor_call \<Rightarrow> bool" where
  "call_ok call = (case call of (bytes, permissions, now) \<Rightarrow>
     (case snd (validate_plan (Span bytes) True True) of
        None \<Rightarrow> False
      | Some p \<Rightarrow> now < ih_deadline_ns (pn_header p) \<and>
          permissions AND ih_required_permissions (pn_header p) = ih_required_permissions (pn_header p)))"

definition sessions_ended :: "session_engine \<Rightarrow> u64" where
  "sessions_ended e = sn_sessions_completed (se_stats e) + sn_sessions_cancelled (se_stats e) + sn_execution_failures (se_stats e)"

definition session_inv :: "session_engine \<Rightarrow> bool" where
  "session_inv e \<longleftrightarrow> selection_inv (se_selection e) \<and>
     (if se_active e then se_initialized e \<and> session_live e else session_idle e) \<and>
     sn_sessions_started (se_stats e) = sessions_ended e + (if se_active e then 1 else 0) \<and>
     list_all call_ok (se_executed e)"

lemma reset_session_idle:
  assumes "selection_inv (se_selection e)" "sn_sessions_started (se_stats e) = sessions_ended e" "list_all call_ok (se_executed e)"
  shows "session_inv (reset_session e)"
proof -
  have "selection_inv (snd (selection_reset (se_selection e)))"
    using selection_idle_inv [of "sl_stats (se_selection e)"] assms(1) by (simp add: selection_reset_def)
  then show ?thesis using assms
    by (auto simp: session_inv_def reset_session_def session_idle_def hint_cancel_def selection_reset_def fresh_selection_def sessions_ended_def)
qed

lemma session_cancel_inv:
  assumes "session_inv e"
  shows "session_inv (snd (session_cancel e reason))"
proof (cases "se_active e")
  case False
  then show ?thesis using assms by (simp add: session_cancel_def)
next
  case True
  obtain result selection where s: "(if sl_state (se_selection e) = Selection_collecting
      then selection_cancel (se_selection e) reason else (SACCADE_OK, se_selection e)) = (result, selection)" by fastforce
  have inv: "selection_inv selection"
    using assms cancel_inv [of "se_selection e" reason] s by (auto simp: session_inv_def split: if_splits)
  have same: "selection = se_selection e" if "result \<noteq> SACCADE_OK"
    using s that by (auto simp: selection_cancel_def split: if_splits)
  show ?thesis
  proof (cases "result = SACCADE_OK")
    case ok: True
    have "session_inv (reset_session (e\<lparr>se_selection := selection, se_stats := (se_stats e)\<lparr>sn_sessions_cancelled :=
        sn_sessions_cancelled (se_stats e) + 1\<rparr>\<rparr>))"
      using inv assms True by (intro reset_session_idle) (simp_all add: session_inv_def sessions_ended_def)
    then show ?thesis using True ok s by (simp add: session_cancel_def Let_def)
  next
    case False
    then show ?thesis using same True s assms by (simp add: session_cancel_def Let_def)
  qed
qed

lemma end_stale_inv:
  assumes "selection_inv (se_selection e)" "list_all call_ok (se_executed e)"
    "sn_sessions_started (se_stats e) = sessions_ended e + 1"
  shows "session_inv (end_stale e)"
  unfolding end_stale_def using assms by (intro reset_session_idle) (simp_all add: sessions_ended_def)

lemma freeze_ok:
  assumes "freeze scene config storage s = Some (SACCADE_OK, s')"
  shows "\<exists>v. scene = Some v \<and> ph_coordinate_space (pv_header v) = SPACE_DESKTOP_Q8 \<and> hs_frozen s'"
  using assms by (auto simp: freeze_def split: if_splits option.splits prod.splits)

lemma copied_scene:
  assumes "copy_scene store latest = (SACCADE_OK, owned)"
  shows "\<exists>v bytes. owned = Some v \<and> snd (validate_packet bytes True True) = Some v"
proof -
  have ok: "validate_packet (Span (acquired_bytes store latest)) True True = (SACCADE_OK, owned)"
    using assms by (auto simp: copy_scene_def split: if_splits)
  then have "fst (validate_packet (Span (acquired_bytes store latest)) True True) = SACCADE_OK" by simp
  then obtain v where "validate_packet (Span (acquired_bytes store latest)) True True = (SACCADE_OK, Some v)"
    unfolding validate_packet_ok by blast
  then show ?thesis using ok by (intro exI [of _ v] exI [of _ "Span (acquired_bytes store latest)"]) auto
qed

lemma copied_count: "scene = None \<or> (\<exists>bytes. snd (validate_packet bytes True True) = scene) \<Longrightarrow>
    scene = None \<or> length (pv_targets (the scene)) \<le> 10000"
  using read_view_count by (metis (no_types, lifting) option.case_eq_if)

lemma begin_ok:
  assumes "selection_begin s scene mode cx storage = (SACCADE_OK, s')"
  shows "\<exists>v. scene = Some v \<and> sl_scene s' = Some v \<and> sl_state s' = Selection_collecting \<and> sl_context s' = cx \<and>
    ph_scene_epoch (pv_header v) = sx_scene_epoch cx \<and> ph_transform_epoch (pv_header v) = sx_transform_epoch cx \<and>
    ph_topology_epoch (pv_header v) = sx_topology_epoch cx"
  using assms by (auto simp: selection_begin_def split: option.splits if_splits)

lemma begin_not_ok: "selection_begin s scene mode cx storage = (r, s') \<Longrightarrow> r \<noteq> SACCADE_OK \<Longrightarrow> s' = s"
  by (auto simp: selection_begin_def split: option.splits if_splits)

text \<open>Beginning always returns and keeps the invariant.\<close>

lemma begin_scene_inv:
  assumes inv: "session_inv e" and init: "se_initialized e" "\<not> se_active e"
  shows "\<exists>r e'. begin_scene e config store latest = Some (r, e') \<and> session_inv e'"
proof -
  obtain r owned where c: "copy_scene store latest = (r, owned)" by fastforce
  show ?thesis
  proof (cases "session_config_valid config \<and> ph_scene_epoch (pv_header latest) = ax_scene_epoch (sc_action config) \<and>
      ph_transform_epoch (pv_header latest) = ax_transform_epoch (sc_action config) \<and>
      ph_topology_epoch (pv_header latest) = ax_topology_epoch (sc_action config) \<and> r = SACCADE_OK")
    case False
    then show ?thesis using inv c by (auto simp: begin_scene_def)
  next
    case True
    then obtain v bytes where v: "owned = Some v" "snd (validate_packet bytes True True) = Some v" using copied_scene c by blast
    have n: "owned = None \<or> length (pv_targets (the owned)) \<le> 10000" using v by (intro copied_count) auto
    obtain fr hints where f: "freeze owned (sc_hints config) True (se_hints e) = Some (fr, hints)"
      "fr \<noteq> SACCADE_OK \<longrightarrow> hints = se_hints e"
      using freeze_cases [OF n, of "sc_hints config" True "se_hints e"] by auto
    obtain br sel where b: "selection_begin (se_selection e) owned (sc_mode config) (selection_context_of (sc_action config)) True = (br, sel)"
      by fastforce
    have idle: "session_idle e" "selection_inv (se_selection e)" using inv init(2) by (simp_all add: session_inv_def)
    have start: "begin_scene e config store latest =
      (if fr \<noteq> SACCADE_OK then Some (fr, e\<lparr>se_hints := hints\<rparr>)
       else if br \<noteq> SACCADE_OK then Some (br, e\<lparr>se_hints := snd (hint_cancel hints), se_selection := sel\<rparr>)
       else Some (SACCADE_OK, e\<lparr>se_hints := hints, se_selection := sel, se_scene := owned, se_action_context := sc_action config,
                       se_action := sc_request config, se_deferred_execution := sa_defer_execution (sc_request config),
                       se_prefix := [], se_target_position := uint32_max, se_nudge_x_q8 := 0, se_nudge_y_q8 := 0,
                       se_active := True,
                       se_stats := (se_stats e)\<lparr>sn_sessions_started := sn_sessions_started (se_stats e) + 1\<rparr>\<rparr>))"
      using True c f b by (simp add: begin_scene_def Let_def)
    consider "fr \<noteq> SACCADE_OK" | "fr = SACCADE_OK" "br \<noteq> SACCADE_OK" | "fr = SACCADE_OK" "br = SACCADE_OK" by blast
    then show ?thesis
    proof cases
      case 1
      then show ?thesis using f(2) inv unfolding start by simp
    next
      case 2
      then have "sel = se_selection e" using begin_not_ok [OF b] by simp
      then show ?thesis using 2 inv idle init unfolding start
        by (auto simp: session_inv_def session_idle_def hint_cancel_def sessions_ended_def)
    next
      case 3
      have h: "hs_frozen hints" "ph_coordinate_space (pv_header v) = SPACE_DESKTOP_Q8"
        using freeze_ok [of owned "sc_hints config" True "se_hints e" hints] f(1) 3(1) v(1) by auto
      from begin_ok [of "se_selection e" owned "sc_mode config" "selection_context_of (sc_action config)" True sel] b 3(2) v(1)
      have s: "sl_scene sel = Some v" "sl_state sel = Selection_collecting" "sl_context sel = selection_context_of (sc_action config)"
        "ph_scene_epoch (pv_header v) = ax_scene_epoch (sc_action config)" "ph_transform_epoch (pv_header v) = ax_transform_epoch (sc_action config)"
        "ph_topology_epoch (pv_header v) = ax_topology_epoch (sc_action config)"
        by (auto simp: selection_context_of_def)
      have si: "selection_inv sel"
        using begin_selection_inv [OF idle(2), of owned "sc_mode config" "selection_context_of (sc_action config)" True] b by simp
      have "session_live (e\<lparr>se_hints := hints, se_selection := sel, se_scene := owned, se_action_context := sc_action config,
                       se_action := sc_request config, se_deferred_execution := sa_defer_execution (sc_request config),
                       se_prefix := [], se_target_position := uint32_max, se_nudge_x_q8 := 0, se_nudge_y_q8 := 0,
                       se_active := True,
                       se_stats := (se_stats e)\<lparr>sn_sessions_started := sn_sessions_started (se_stats e) + 1\<rparr>\<rparr>)"
        using h s v True by (auto simp: session_live_def scene_current_def selection_context_of_def session_config_valid_def Let_def)
      then show ?thesis using 3 inv si init unfolding start by (simp add: session_inv_def sessions_ended_def)
    qed
  qed
qed

lemma session_begin_inv:
  assumes "session_inv e"
  shows "\<exists>r e' st'. session_begin e st config = Some (r, e', st') \<and> session_inv e'"
    "\<exists>r e' st'. session_begin_latest e st config = Some (r, e', st') \<and> session_inv e'"
proof -
  obtain a st1 view where q: "acquire_latest True None st = (a, st1, view)" by (cases "acquire_latest True None st") auto
  show "\<exists>r e' st'. session_begin e st config = Some (r, e', st') \<and> session_inv e'"
  proof (cases "se_initialized e \<and> \<not> se_active e \<and> a = SACCADE_OK \<and> view \<noteq> None")
    case True
    then obtain latest where l: "view = Some latest" by blast
    from begin_scene_inv [OF assms, of config st1 latest] True obtain r e' where
      "begin_scene e config st1 latest = Some (r, e')" "session_inv e'" by blast
    then show ?thesis using True l q by (simp add: session_begin_def)
  next
    case False
    then show ?thesis using assms q by (cases a; cases view) (auto simp: session_begin_def)
  qed
  show "\<exists>r e' st'. session_begin_latest e st config = Some (r, e', st') \<and> session_inv e'"
  proof (cases "se_initialized e \<and> \<not> se_active e \<and> a = SACCADE_OK \<and> view \<noteq> None")
    case True
    then obtain latest where l: "view = Some latest" by blast
    from begin_scene_inv [OF assms, of "with_epochs config (pv_header latest)" st1 latest] True obtain r e' where
      "begin_scene e (with_epochs config (pv_header latest)) st1 latest = Some (r, e')" "session_inv e'" by blast
    then show ?thesis using True l q by (simp add: session_begin_latest_def)
  next
    case False
    then show ?thesis using assms q by (cases a; cases view) (auto simp: session_begin_latest_def)
  qed
qed

lemma build_plan_ok:
  fixes "context" :: action_context
  assumes wf: "packet_wf sc" and ok: "build_plan stats (Some sc) context request True True = (SACCADE_OK, out, st)"
  shows "\<exists>ts bytes. out = Some bytes \<and> build_arguments_valid context request \<and> scene_current sc context \<and>
    resolve_targets sc request [0..<unat (ar_target_count request)] = Some ts \<and>
    ax_permissions context AND action_permissions (ar_kind request) = action_permissions (ar_kind request) \<and>
    validate_plan (Span bytes) True True = (SACCADE_OK, Some (planned_view sc context request ts))"
proof -
  have args: "build_arguments_valid context request" "scene_current sc context"
    "resolve_targets sc request [0..<unat (ar_target_count request)] \<noteq> None"
    "ax_permissions context AND action_permissions (ar_kind request) = action_permissions (ar_kind request)"
    "\<not> plan_refused context request"
    using ok unfolding build_result [OF wf] by (auto split: if_splits option.splits)
  then obtain ts where ts: "resolve_targets sc request [0..<unat (ar_target_count request)] = Some ts" by blast
  have facts: "shape_facts request" using args(1) request_shape_facts by (simp add: build_arguments_valid_def)
  note res = resolved_addressable [OF packet_wf_targets [OF wf] ts]
  have l: "length ts \<le> 64" using res facts by (simp add: shape_facts_def)
  note w = planned_view_written [OF facts l, of sc "context"]
  have sp: "ph_coordinate_space (pv_header sc) = SPACE_DESKTOP_Q8" using args(2) by (simp add: scene_current_def)
  have "plan_wf (planned_view sc context request ts)"
    using planned_view_wf [OF wf sp args(1), of ts] res args(5) by (simp add: list_all_iff)
  then have "validate_plan (Span (put_plan (planned_view sc context request ts) @ payload_of request)) True True =
      (SACCADE_OK, Some (planned_view sc context request ts))"
    using validate_written_plan [OF w(1-3)] by simp
  moreover have "out = Some (put_plan (planned_view sc context request ts) @ payload_of request)"
    using ok args ts unfolding build_result [OF wf] by simp
  ultimately show ?thesis using args ts by blast
qed

text \<open>What executing a selection does to the engine.\<close>

definition execution_context :: "session_engine \<Rightarrow> u64 \<Rightarrow> u64 \<Rightarrow> action_context" where
  "execution_context e now deadline = (se_action_context e)\<lparr>ax_now_ns := now, ax_deadline_ns := deadline\<rparr>"

lemma execute_selection_cases:
  assumes "execute_selection execute e now event = (r, ev, e')"
  shows "(e' = e \<or> e' = e\<lparr>se_action_context := (se_action_context e)\<lparr>ax_now_ns := now\<rparr>\<rparr>) \<or>
    (\<exists>points deadline d. action_points e (sl_target_ids (se_selection e)) = Some points \<and>
       e' = reset_session d \<and> se_selection d = se_selection e \<and>
       sn_sessions_started (se_stats d) = sn_sessions_started (se_stats e) \<and> sessions_ended d = sessions_ended e + 1 \<and>
       (se_executed d = se_executed e \<or>
        (\<exists>bytes st. build_plan (se_planner e) (se_scene e) (execution_context e now deadline)
            (session_request (se_action e) (sl_target_ids (se_selection e)) points) True True = (SACCADE_OK, Some bytes, st) \<and>
          se_executed d = se_executed e @ [(bytes, ax_permissions (se_action_context e), now)] \<and>
          r = execute (se_executed e) (bytes, ax_permissions (se_action_context e), now))))"
proof (cases "action_points e (sl_target_ids (se_selection e))")
  case None
  then show ?thesis using assms by (simp add: execute_selection_def Let_def)
next
  case (Some points)
  note p = this
  let ?n = "word_of_nat (length (sl_target_ids (se_selection e)))"
  show ?thesis
  proof (cases "execution_deadline (se_action e) ?n now")
    case None
    then show ?thesis using assms p by (simp add: execute_selection_def Let_def)
  next
    case (Some deadline)
    obtain br plan planner where b: "build_plan (se_planner e) (se_scene e) (execution_context e now deadline)
        (session_request (se_action e) (sl_target_ids (se_selection e)) points) True True = (br, plan, planner)"
      by (cases "build_plan (se_planner e) (se_scene e) (execution_context e now deadline)
        (session_request (se_action e) (sl_target_ids (se_selection e)) points) True True") auto
    define e1 where "e1 = e\<lparr>se_action_context := execution_context e now deadline, se_planner := planner\<rparr>"
    define run where "run = (case (br, plan) of
        (SACCADE_OK, Some bytes) \<Rightarrow> (execute (se_executed e1) (bytes, ax_permissions (se_action_context e1), now),
           e1\<lparr>se_executed := se_executed e1 @ [(bytes, ax_permissions (se_action_context e1), now)]\<rparr>)
      | _ \<Rightarrow> (br, e1))"
    obtain result e2 where run: "run = (result, e2)" by fastforce
    define d where "d = (if result = SACCADE_OK
       then e2\<lparr>se_stats := (se_stats e2)\<lparr>sn_plans_executed := sn_plans_executed (se_stats e2) + 1,
              sn_sessions_completed := sn_sessions_completed (se_stats e2) + 1\<rparr>\<rparr>
       else e2\<lparr>se_stats := (se_stats e2)\<lparr>sn_execution_failures := sn_execution_failures (se_stats e2) + 1\<rparr>\<rparr>)"
    have "e' = reset_session d" "r = result"
      using assms p Some b run unfolding execute_selection_def run_def d_def e1_def execution_context_def
      by (auto simp: Let_def split: if_splits prod.splits saccade_result.splits option.splits)
    moreover have keep: "se_selection e2 = se_selection e" "se_stats e2 = se_stats e"
      using run unfolding run_def e1_def by (auto split: saccade_result.splits option.splits)
    moreover have "se_executed d = se_executed e \<or> (\<exists>bytes st. (br, plan, planner) = (SACCADE_OK, Some bytes, st) \<and>
        se_executed d = se_executed e @ [(bytes, ax_permissions (se_action_context e), now)] \<and>
        result = execute (se_executed e) (bytes, ax_permissions (se_action_context e), now))"
      using run unfolding run_def d_def e1_def execution_context_def
      by (auto split: saccade_result.splits option.splits)
    ultimately show ?thesis using p b
      by (intro disjI2 exI [of _ points] exI [of _ deadline] exI [of _ d]) (auto simp: d_def sessions_ended_def)
  qed
qed

lemma live_scene: "session_live e \<Longrightarrow> \<exists>v. se_scene e = Some v \<and> packet_wf v"
  using read_view_wf by (auto simp: session_live_def)

lemma planned_fields:
  assumes "shape_facts r" "length ts \<le> 64"
  shows "ih_deadline_ns (pn_header (planned_view sc cx r ts)) = ax_deadline_ns cx"
    "ih_required_permissions (pn_header (planned_view sc cx r ts)) = action_permissions (ar_kind r)"
  using planned_view_written(5) [OF assms, of sc cx] by (simp_all add: action_header_def)

lemma executed_call_ok:
  assumes "packet_wf sc" "build_plan stats (Some sc) cx r True True = (SACCADE_OK, Some bytes, st)"
  shows "call_ok (bytes, ax_permissions cx, ax_now_ns cx)"
proof -
  from build_plan_ok [OF assms] obtain ts where b: "build_arguments_valid cx r"
    "resolve_targets sc r [0..<unat (ar_target_count r)] = Some ts"
    "ax_permissions cx AND action_permissions (ar_kind r) = action_permissions (ar_kind r)"
    "validate_plan (Span bytes) True True = (SACCADE_OK, Some (planned_view sc cx r ts))" by auto
  have facts: "shape_facts r" using b(1) request_shape_facts by (simp add: build_arguments_valid_def)
  have l: "length ts \<le> 64" using resolved_addressable [OF packet_wf_targets [OF assms(1)] b(2)] facts by (simp add: shape_facts_def)
  have "ax_now_ns cx < ax_deadline_ns cx" using b(1) by (simp add: build_arguments_valid_def not_le)
  then show ?thesis using b(3,4) planned_fields [OF facts l, of sc cx] by (simp add: call_ok_def)
qed

lemma execute_selection_inv:
  assumes inv: "session_inv e" and act: "se_active e"
  shows "session_inv (snd (snd (execute_selection execute e now event)))"
proof -
  obtain r ev e' where x: "execute_selection execute e now event = (r, ev, e')" by (cases "execute_selection execute e now event") auto
  have live: "session_live e" and sel: "selection_inv (se_selection e)" and calls: "list_all call_ok (se_executed e)"
    and started: "sn_sessions_started (se_stats e) = sessions_ended e + 1"
    using inv act by (simp_all add: session_inv_def)
  obtain v where v: "se_scene e = Some v" "packet_wf v" using live_scene [OF live] by blast
  from execute_selection_cases [OF x] have "session_inv e'"
  proof (elim disjE exE conjE)
    assume "e' = e"
    then show ?thesis using inv by simp
  next
    assume e': "e' = e\<lparr>se_action_context := (se_action_context e)\<lparr>ax_now_ns := now\<rparr>\<rparr>"
    then show ?thesis using inv act by (simp add: session_inv_def session_live_def scene_current_def sessions_ended_def)
  next
    fix points deadline d
    assume d: "e' = reset_session d" "se_selection d = se_selection e" "sn_sessions_started (se_stats d) = sn_sessions_started (se_stats e)"
      "sessions_ended d = sessions_ended e + 1" "se_executed d = se_executed e"
    then show ?thesis using sel calls started by (auto intro!: reset_session_idle)
  next
    fix points deadline d bytes st
    assume d: "e' = reset_session d" "se_selection d = se_selection e" "sn_sessions_started (se_stats d) = sn_sessions_started (se_stats e)"
      "sessions_ended d = sessions_ended e + 1"
      and b: "build_plan (se_planner e) (se_scene e) (execution_context e now deadline)
            (session_request (se_action e) (sl_target_ids (se_selection e)) points) True True = (SACCADE_OK, Some bytes, st)"
      and ex: "se_executed d = se_executed e @ [(bytes, ax_permissions (se_action_context e), now)]"
    have "call_ok (bytes, ax_permissions (se_action_context e), now)"
      using executed_call_ok [OF v(2) b [unfolded v(1)]] by (simp add: execution_context_def)
    then show ?thesis using d ex sel calls started by (auto intro!: reset_session_idle)
  qed
  then show ?thesis using x by simp
qed

text \<open>Changes that leave a live session live.\<close>

lemma selection_keeps:
  "sl_scene (snd (selection_select s i)) = sl_scene s \<and> sl_context (snd (selection_select s i)) = sl_context s"
  "sl_scene (snd (selection_backspace s)) = sl_scene s \<and> sl_context (snd (selection_backspace s)) = sl_context s \<and>
     sl_state (snd (selection_backspace s)) = sl_state s"
  "sl_scene (snd (selection_confirm s)) = sl_scene s \<and> sl_context (snd (selection_confirm s)) = sl_context s"
  by (auto simp: selection_select_def selection_backspace_def selection_confirm_def expand_path_def Let_def
    split: option.splits prod.splits sum.splits if_splits)

lemma selection_keeps_going:
  "sl_state s \<in> {Selection_collecting, Selection_complete} \<Longrightarrow>
     sl_state (snd (selection_select s i)) \<in> {Selection_collecting, Selection_complete} \<and>
     sl_state (snd (selection_confirm s)) \<in> {Selection_collecting, Selection_complete}"
  by (auto simp: selection_select_def selection_confirm_def expand_path_def Let_def
    split: option.splits prod.splits sum.splits if_splits)

text \<open>An update of the engine that keeps the invariant: same scene, context and calls, a selection
  still going over the same scene, frozen hints, and counters that balance.\<close>

lemma live_update:
  assumes "session_inv e" "se_active e" "se_active e'" "se_initialized e'" "se_scene e' = se_scene e"
    "se_action_context e' = se_action_context e" "selection_inv (se_selection e')"
    "sl_scene (se_selection e') = sl_scene (se_selection e)" "sl_context (se_selection e') = sl_context (se_selection e)"
    "sl_state (se_selection e') \<in> {Selection_collecting, Selection_complete}" "hs_frozen (se_hints e')"
    "se_target_position e' = uint32_max \<or> unat (se_target_position e') < 9"
    "sn_sessions_started (se_stats e') = sn_sessions_started (se_stats e)" "sessions_ended e' = sessions_ended e"
    "se_executed e' = se_executed e"
  shows "session_inv e'"
  using assms by (auto simp: session_inv_def session_live_def)

lemma resolve_frozen: "resolve_prefix p out s = (r, s', m) \<Longrightarrow> hs_frozen s' = hs_frozen s"
  by (auto simp: resolve_prefix_def split: option.splits if_splits prod.splits)

lemma live_facts:
  assumes "session_inv e" "se_active e"
  shows "se_initialized e" "selection_inv (se_selection e)" "hs_frozen (se_hints e)"
    "sl_state (se_selection e) \<in> {Selection_collecting, Selection_complete}"
    "se_target_position e = uint32_max \<or> unat (se_target_position e) < 9"
  using assms by (auto simp: session_inv_def session_live_def)

lemma session_resolve_inv:
  assumes "session_inv e" "se_active e"
  shows "case session_resolve e event of (r, ev, e') \<Rightarrow> session_inv e' \<and> se_active e' \<and> se_prefix e' = se_prefix e \<and>
    se_selection e' = se_selection e"
proof -
  obtain r hints m where p: "resolve_prefix (Some (se_prefix e)) True (se_hints e) = (r, hints, m)"
    by (cases "resolve_prefix (Some (se_prefix e)) True (se_hints e)") auto
  have "session_inv (e\<lparr>se_hints := hints\<rparr>)"
    using live_facts [OF assms] resolve_frozen [OF p] assms by (intro live_update [OF assms]) (simp_all add: sessions_ended_def)
  then show ?thesis using assms(2) by (simp add: session_resolve_def p Let_def)
qed

text \<open>The operations on a session in progress. Typing a symbol either keeps the session's scene, context
  and calls, or ends in executing the selection.\<close>

lemma cancel_same: "se_executed (snd (session_cancel e reason)) = se_executed e"
  by (simp add: session_cancel_def reset_session_def Let_def split: prod.splits)

lemma session_resolve_same:
  "session_resolve e event = (r, ev, e') \<Longrightarrow>
     se_scene e' = se_scene e \<and> se_action_context e' = se_action_context e \<and> se_executed e' = se_executed e"
  by (auto simp: session_resolve_def Let_def split: prod.splits if_splits)

lemma enter_symbol_outcome:
  assumes "session_inv e"
  shows "(\<exists>r ev e'. enter_symbol execute e symbol now out = (r, ev, e') \<and> session_inv e' \<and> se_executed e' = se_executed e) \<or>
    (\<exists>e' ev. enter_symbol execute e symbol now out = execute_selection execute e' now ev \<and> session_inv e' \<and> se_active e' \<and>
       se_scene e' = se_scene e \<and> se_action_context e' = se_action_context e \<and> se_executed e' = se_executed e)"
proof (cases "\<not> se_active e \<or> \<not> out \<or> symbol = 0 \<or> now \<ge> ax_deadline_ns (se_action_context e) \<or> length (se_prefix e) = maximum_hint_symbols")
  case True
  then show ?thesis using assms session_cancel_inv [OF assms, of Cancel_timeout] cancel_same [of e Cancel_timeout]
    unfolding enter_symbol_def by (elim disjE) simp_all
next
  case False
  define e1 where "e1 = e\<lparr>se_prefix := se_prefix e @ [symbol],
                 se_stats := (se_stats e)\<lparr>sn_symbols_entered := sn_symbols_entered (se_stats e) + 1\<rparr>\<rparr>"
  have act: "se_active e" using False by simp
  note lf = live_facts [OF assms act]
  have i1: "session_inv e1" "se_active e1"
    using lf act by (auto intro!: live_update [OF assms act] simp: e1_def sessions_ended_def)
  obtain r event e2 where q: "session_resolve e1 no_event = (r, event, e2)" by (cases "session_resolve e1 no_event") auto
  have i2: "session_inv e2" "se_active e2" using session_resolve_inv [OF i1, of no_event] q by simp_all
  have same: "se_scene e2 = se_scene e" "se_action_context e2 = se_action_context e" "se_executed e2 = se_executed e"
    using session_resolve_same [OF q] by (simp_all add: e1_def)
  note lf2 = live_facts [OF i2]
  obtain sr sel where s: "selection_select (se_selection e2) (ev_target_id event) = (sr, sel)" by fastforce
  have sel: "selection_inv sel" "sl_scene sel = sl_scene (se_selection e2)" "sl_context sel = sl_context (se_selection e2)"
    "sl_state sel \<in> {Selection_collecting, Selection_complete}"
    using select_inv [OF lf2(2), of "ev_target_id event"] selection_keeps(1) [of "se_selection e2" "ev_target_id event"]
      selection_keeps_going [OF lf2(4), of "ev_target_id event"] s by simp_all
  define e3 where "e3 = e2\<lparr>se_selection := sel, se_prefix := []\<rparr>"
  have i3: "session_inv (e2\<lparr>se_selection := sel\<rparr>)" "session_inv e3"
    "session_inv (e2\<lparr>se_prefix := butlast (se_prefix e2),
                 se_stats := (se_stats e2)\<lparr>sn_prefixes_rejected := sn_prefixes_rejected (se_stats e2) + 1\<rparr>\<rparr>)"
    using lf2 sel i2(2) by (auto intro!: live_update [OF i2] simp: e3_def sessions_ended_def)
  define event3 where "event3 = event\<lparr>ev_selected_count := selected_count e3\<rparr>"
  have run: "enter_symbol execute e symbol now out =
      (if r \<noteq> SACCADE_OK then (r, Some event, e2\<lparr>se_prefix := butlast (se_prefix e2),
                 se_stats := (se_stats e2)\<lparr>sn_prefixes_rejected := sn_prefixes_rejected (se_stats e2) + 1\<rparr>\<rparr>)
       else if \<not> ev_exact event then (SACCADE_OK, Some event, e2)
       else if sr \<noteq> SACCADE_OK then (sr, Some event, e2\<lparr>se_selection := sel\<rparr>)
       else if session_complete e3 \<and> \<not> se_deferred_execution e3 then execute_selection execute e3 now event3
       else (SACCADE_OK, Some event3, e3))"
    using False q s unfolding enter_symbol_def Let_def e1_def [symmetric] by (simp add: e3_def event3_def)
  have "se_scene e3 = se_scene e" "se_action_context e3 = se_action_context e" "se_executed e3 = se_executed e" "se_active e3"
    using same i2(2) by (simp_all add: e3_def)
  then show ?thesis unfolding run using i2 i3 same by auto
qed

lemma enter_symbol_inv:
  assumes "session_inv e"
  shows "session_inv (snd (snd (enter_symbol execute e symbol now out)))"
  using enter_symbol_outcome [OF assms, of execute symbol now out] execute_selection_inv by auto

lemma restart_selection:
  assumes "session_live e"
  shows "\<exists>sel. selection_begin (snd (selection_reset (se_selection e))) (se_scene e) Select_single
    (selection_context_of (se_action_context e)) True = (SACCADE_OK, sel) \<and> sl_state sel = Selection_collecting \<and>
    sl_scene sel = sl_scene (se_selection e) \<and> sl_context sel = selection_context_of (se_action_context e)"
  using assms by (auto simp: session_live_def selection_begin_def selection_reset_def fresh_selection_def
    selection_context_of_def scene_current_def)

lemma session_backspace_inv:
  assumes "session_inv e"
  shows "session_inv (snd (snd (session_backspace e out)))"
proof (cases "se_active e \<and> out")
  case False
  then show ?thesis using assms by (auto simp: session_backspace_def)
next
  case True
  then have act: "se_active e" by simp
  note lf = live_facts [OF assms act]
  have i1: "session_inv (e\<lparr>se_prefix := p\<rparr>)" for p
    using lf act by (intro live_update [OF assms act]) (simp_all add: sessions_ended_def)
  have i2: "session_inv (snd (snd (session_resolve (e\<lparr>se_prefix := p\<rparr>) ev)))" for p ev
    using session_resolve_inv [OF i1, of p ev] act by (auto split: prod.splits)
  have i3: "session_inv (e\<lparr>se_selection := snd (selection_backspace (se_selection e))\<rparr>)"
    using lf act backspace_inv [OF lf(2)] selection_keeps(2) [of "se_selection e"]
    by (intro live_update [OF assms act]) (simp_all add: sessions_ended_def)
  have live: "session_live e" using assms act by (simp add: session_inv_def)
  obtain sel where b: "selection_begin (snd (selection_reset (se_selection e))) (se_scene e) Select_single
    (selection_context_of (se_action_context e)) True = (SACCADE_OK, sel)" "sl_state sel = Selection_collecting"
    "sl_scene sel = sl_scene (se_selection e)" "sl_context sel = selection_context_of (se_action_context e)"
    using restart_selection [OF live] by blast
  have "selection_inv (snd (selection_reset (se_selection e)))"
    using selection_idle_inv [of "sl_stats (se_selection e)"] lf(2) by (simp add: selection_reset_def)
  from begin_selection_inv [OF this, of "se_scene e" Select_single "selection_context_of (se_action_context e)" True] b(1)
  have si: "selection_inv sel" by simp
  have i4: "session_inv (e\<lparr>se_selection := sel\<rparr>)"
    using assms act si b live by (auto simp: session_inv_def session_live_def sessions_ended_def selection_context_of_def)
  have r: "fst (selection_reset (se_selection e)) = SACCADE_OK" using lf(4) by (auto simp: selection_reset_def)
  have d: "session_inv (snd (snd (let (result, selection) = selection_reset (se_selection e);
             (result, selection) = (if result = SACCADE_OK
               then selection_begin selection (se_scene e) Select_single (selection_context_of (se_action_context e)) True
               else (result, selection))
         in (result, Some no_event, e\<lparr>se_selection := selection\<rparr>))))"
    using r b(1) i4 by (simp add: Let_def split_beta)
  show ?thesis
  proof (cases "se_prefix e = []")
    case True
    then show ?thesis using \<open>se_active e \<and> out\<close> d i3 unfolding session_backspace_def
      by (auto simp: split_beta Let_def)
  next
    case False
    then show ?thesis using \<open>se_active e \<and> out\<close> i1 i2 unfolding session_backspace_def
      by (auto simp: split_beta Let_def)
  qed
qed

lemma session_confirm_inv:
  assumes "session_inv e"
  shows "session_inv (snd (snd (session_confirm execute e now out)))"
proof (cases "\<not> se_active e \<or> \<not> out \<or> now \<ge> ax_deadline_ns (se_action_context e)")
  case True
  then show ?thesis using assms session_cancel_inv [OF assms, of Cancel_timeout] unfolding session_confirm_def by simp
next
  case False
  then have act: "se_active e" by simp
  note lf = live_facts [OF assms act]
  have i1: "session_inv (e\<lparr>se_selection := snd (selection_confirm (se_selection e))\<rparr>)"
    using lf act confirm_inv [OF lf(2)] selection_keeps(3) [of "se_selection e"] selection_keeps_going [OF lf(4)]
    by (intro live_update [OF assms act]) (simp_all add: sessions_ended_def)
  have i2: "session_inv (snd (snd (execute_selection execute (e\<lparr>se_selection := snd (selection_confirm (se_selection e))\<rparr>) now ev)))" for ev
    using execute_selection_inv [OF i1] act by simp
  show ?thesis using False assms i1 i2 execute_selection_inv [OF assms act] unfolding session_confirm_def
    by (auto simp: Let_def split_beta)
qed

lemma position_index_bound: "unat (position_index column row) < 9"
proof -
  have "first_index P xs = Some i \<Longrightarrow> i < length xs" for P :: "nat \<times> nat \<Rightarrow> bool" and xs i
    using first_index_Some by blast
  from this [of "\<lambda>p. p = (column, row)" target_positions] show ?thesis
    by (auto simp: position_index_def target_positions_def unat_of_nat split: option.splits)
qed

lemma placed_inv:
  assumes "session_inv e" "se_active e" "p = uint32_max \<or> unat p < 9"
  shows "session_inv (e\<lparr>se_target_position := p, se_nudge_x_q8 := x, se_nudge_y_q8 := y\<rparr>)"
  using live_facts [OF assms(1,2)] assms by (intro live_update [OF assms(1,2)]) (simp_all add: sessions_ended_def)

lemma place_inv:
  assumes "session_inv e"
  shows "session_inv (snd (cycle_target_position e))" "session_inv (snd (set_target_position e i))"
    "session_inv (snd (snap_target e direction))" "session_inv (snd (nudge_target e dx dy))"
proof -
  have "unat ((se_target_position e + 1) mod 9) < 9" by (simp add: unat_mod)
  then show "session_inv (snd (cycle_target_position e))"
    using assms placed_inv [OF assms] by (auto simp: cycle_target_position_def target_positions_def)
  show "session_inv (snd (set_target_position e i))"
    using assms placed_inv [OF assms] position_index_bound by (auto simp: set_target_position_def)
  show "session_inv (snd (snap_target e direction))"
    using assms placed_inv [OF assms] position_index_bound by (auto simp: snap_target_def Let_def split_beta)
  show "session_inv (snd (nudge_target e dx dy))"
  proof (cases "se_active e")
    case True
    then show ?thesis using placed_inv [OF assms True, of "se_target_position e"] live_facts [OF assms True] assms
      by (simp add: nudge_target_def Let_def)
  next
    case False
    then show ?thesis using assms by (simp add: nudge_target_def)
  qed
qed

lemma refresh_frozen: "refresh_scene scene s = Some (r, s') \<Longrightarrow> hs_frozen s' = hs_frozen s"
  by (auto simp: refresh_scene_def refresh_failed_def Let_def split: option.splits if_splits)

text \<open>A refresh returns; when it succeeds the session lives on over the new scene, otherwise only its
  labels and selection may have changed.\<close>

definition refresh_good :: "session_engine \<Rightarrow> saccade_result \<times> session_engine \<times> scene_store \<Rightarrow> bool" where
  "refresh_good e w = (case w of (r, e', st) \<Rightarrow>
     if r = SACCADE_OK then session_inv e' \<and> se_active e'
     else selection_inv (se_selection e') \<and> se_executed e' = se_executed e \<and> sessions_ended e' = sessions_ended e \<and>
       sn_sessions_started (se_stats e') = sn_sessions_started (se_stats e))"

lemma refresh_latest_inv:
  assumes inv: "session_inv e" and act: "se_active e"
  shows "\<exists>w. refresh_latest e st current = Some w \<and> refresh_good e w"
proof -
  note lf = live_facts [OF inv act]
  have live: "session_live e" using inv act by (simp add: session_inv_def)
  obtain a st1 view where q: "acquire_latest True None st = (a, st1, view)" by (cases "acquire_latest True None st") auto
  have bad: "refresh_good e (SACCADE_ERROR_STALE_HANDLE, refresh_failure e', st')"
    if "selection_inv (se_selection e')" "se_executed e' = se_executed e" "se_stats e' = se_stats e" for e' st'
    using that by (simp add: refresh_good_def refresh_failure_def sessions_ended_def)
  show ?thesis
  proof (cases "a = SACCADE_OK \<and> view \<noteq> None")
    case False
    then show ?thesis using q bad lf by (cases a; cases view) (auto simp: refresh_latest_def)
  next
    case True
    then obtain latest where l: "a = SACCADE_OK" "view = Some latest" by blast
    obtain cr owned where c: "copy_scene st1 latest = (cr, owned)" by fastforce
    show ?thesis
    proof (cases "ph_scene_epoch (pv_header latest) \<noteq> ep_scene_epoch current \<or>
             ph_transform_epoch (pv_header latest) \<noteq> ep_transform_epoch current \<or>
             ph_topology_epoch (pv_header latest) \<noteq> ep_topology_epoch current \<or> cr \<noteq> SACCADE_OK \<or> owned = None")
      case True
      then show ?thesis using q l c bad lf by (cases cr; cases owned) (auto simp: refresh_latest_def)
    next
      case False
      then obtain v where v: "owned = Some v" "cr = SACCADE_OK" by blast
      obtain bytes where b: "snd (validate_packet bytes True True) = Some v" using copied_scene c v by blast
      obtain hr hints where h: "refresh_scene (Some v) (se_hints e) = Some (hr, hints)"
        using refresh_scene_result [of bytes "se_hints e"] b by (auto simp: Let_def split: option.splits)
      obtain sr sel where s: "selection_refresh_scene (se_selection e) (Some v) = (sr, sel)" by fastforce
      have si: "selection_inv sel" using refresh_inv [OF lf(2), of "Some v"] s by simp
      have run: "refresh_latest e st current =
        (if hr \<noteq> SACCADE_OK then Some (SACCADE_ERROR_STALE_HANDLE, refresh_failure (e\<lparr>se_hints := hints\<rparr>), st1)
         else if sr \<noteq> SACCADE_OK then Some (SACCADE_ERROR_STALE_HANDLE, refresh_failure (e\<lparr>se_hints := hints, se_selection := sel\<rparr>), st1)
         else Some (SACCADE_OK, e\<lparr>se_hints := hints, se_selection := sel, se_scene := Some v,
                  se_action_context := (se_action_context e)\<lparr>ax_scene_epoch := ph_scene_epoch (pv_header v)\<rparr>,
                  se_stats := (se_stats e)\<lparr>sn_scene_refreshes := sn_scene_refreshes (se_stats e) + 1\<rparr>\<rparr>, st1))"
        using q l c v h s False by (simp add: refresh_latest_def Let_def)
      consider "hr \<noteq> SACCADE_OK" | "hr = SACCADE_OK" "sr \<noteq> SACCADE_OK" | "hr = SACCADE_OK" "sr = SACCADE_OK" by blast
      then show ?thesis
      proof cases
        case 1
        then show ?thesis using run bad [of "e\<lparr>se_hints := hints\<rparr>" st1] lf by simp
      next
        case 2
        then show ?thesis using run bad [of "e\<lparr>se_hints := hints, se_selection := sel\<rparr>" st1] si by simp
      next
        case 3
        have r: "sl_scene sel = Some v" "sl_state sel = sl_state (se_selection e)" "ph_coordinate_space (pv_header v) = SPACE_DESKTOP_Q8"
          "ph_scene_epoch (pv_header v) > sx_scene_epoch (sl_context (se_selection e))"
          "ph_transform_epoch (pv_header v) = sx_transform_epoch (sl_context (se_selection e))"
          "ph_topology_epoch (pv_header v) = sx_topology_epoch (sl_context (se_selection e))"
          "sl_context sel = (sl_context (se_selection e))\<lparr>sx_scene_epoch := ph_scene_epoch (pv_header v)\<rparr>"
          using s 3(2) by (auto simp: selection_refresh_scene_def split: if_splits)
        have nz: "ph_scene_epoch (pv_header v) \<noteq> 0" using r(4) by auto
        have "session_inv (e\<lparr>se_hints := hints, se_selection := sel, se_scene := Some v,
                  se_action_context := (se_action_context e)\<lparr>ax_scene_epoch := ph_scene_epoch (pv_header v)\<rparr>,
                  se_stats := (se_stats e)\<lparr>sn_scene_refreshes := sn_scene_refreshes (se_stats e) + 1\<rparr>\<rparr>)"
          using inv act live si r b lf refresh_frozen [OF h] nz
          by (auto simp: session_inv_def session_live_def scene_current_def sessions_ended_def)
        then show ?thesis using run 3 act by (simp add: refresh_good_def)
      qed
    qed
  qed
qed

lemma tick_validate_inv:
  assumes inv: "session_inv e" and act: "se_active e"
  shows "session_inv (snd (tick_validate e current now))"
proof -
  note lf = live_facts [OF inv act]
  have started: "sn_sessions_started (se_stats e) = sessions_ended e + 1" and calls: "list_all call_ok (se_executed e)"
    using inv act by (simp_all add: session_inv_def)
  obtain r sel where v: "(if se_deferred_execution e \<and> session_complete e
            then (if now \<ge> ax_deadline_ns (se_action_context e) \<or> ep_scene_epoch current \<noteq> ax_scene_epoch (se_action_context e) \<or>
                     ep_transform_epoch current \<noteq> ax_transform_epoch (se_action_context e) \<or>
                     ep_topology_epoch current \<noteq> ax_topology_epoch (se_action_context e) \<or> ep_focus_id current \<noteq> ax_focus_id (se_action_context e)
                  then SACCADE_ERROR_STALE_HANDLE else SACCADE_OK, se_selection e)
            else selection_validate (se_selection e) \<lparr>sx_scene_epoch = ep_scene_epoch current,
                   sx_transform_epoch = ep_transform_epoch current, sx_topology_epoch = ep_topology_epoch current,
                   sx_focus_id = ep_focus_id current, sx_deadline_ns = ax_deadline_ns (se_action_context e)\<rparr> now) = (r, sel)"
    by fastforce
  have si: "selection_inv sel" using v lf(2) validate_inv [OF lf(2)] by (metis Pair_inject snd_conv)
  have same: "sel = se_selection e" if "r = SACCADE_OK"
    using v that by (auto simp: selection_validate_def Let_def split: if_splits)
  have "session_inv (end_stale (e\<lparr>se_selection := sel\<rparr>))"
    using si started calls by (intro end_stale_inv) (simp_all add: sessions_ended_def)
  then show ?thesis using v same inv unfolding tick_validate_def Let_def by simp
qed

lemma session_tick_inv:
  assumes inv: "session_inv e"
  shows "\<exists>r e' st'. session_tick e st current now = Some (r, e', st') \<and> session_inv e'"
proof (cases "se_active e")
  case False
  then show ?thesis using inv by (simp add: session_tick_def)
next
  case act: True
  note lf = live_facts [OF inv act]
  have started: "sn_sessions_started (se_stats e) = sessions_ended e + 1" and calls: "list_all call_ok (se_executed e)"
    using inv act by (simp_all add: session_inv_def)
  have i1: "session_inv (e\<lparr>se_stats := (se_stats e)\<lparr>sn_stale_cancellations := n\<rparr>\<rparr>)" for n
    using lf act by (intro live_update [OF inv act]) (simp_all add: sessions_ended_def)
  obtain w where w: "refresh_latest e st current = Some w" "refresh_good e w" using refresh_latest_inv [OF inv act] by blast
  obtain r e1 st1 where e1: "w = (r, e1, st1)" by (cases w) auto
  have stale: "session_inv (end_stale (if sl_state (se_selection e1) = Selection_collecting
                           then e1\<lparr>se_selection := snd (selection_cancel (se_selection e1) Cancel_scene_changed)\<rparr> else e1))"
    if "r \<noteq> SACCADE_OK"
    using w(2) that e1 calls started cancel_inv
    by (intro end_stale_inv) (auto simp: refresh_good_def sessions_ended_def)
  have go: "session_inv (snd (tick_validate e1 current now))" if "r = SACCADE_OK"
    using w(2) that e1 tick_validate_inv by (simp add: refresh_good_def)
  show ?thesis using act w(1) e1 stale go i1 tick_validate_inv [OF inv act] session_cancel_inv [OF i1]
    unfolding session_tick_def Let_def by (cases "r = SACCADE_OK"; cases "sl_state (se_selection e1) = Selection_collecting") (simp_all add: split_beta)
qed

lemma initialized_change:
  "session_inv e \<Longrightarrow> b \<or> \<not> se_active e \<Longrightarrow> session_inv (e\<lparr>se_bound := b, se_initialized := b\<rparr>)"
  by (auto simp: session_inv_def session_live_def session_idle_def sessions_ended_def)

lemma cancel_ends: "fst (session_cancel e reason) = SACCADE_OK \<Longrightarrow> \<not> se_active (snd (session_cancel e reason))"
  by (auto simp: session_cancel_def reset_session_def Let_def split: prod.splits if_splits)

lemma session_switch_inv:
  assumes "session_inv e"
  shows "session_inv (snd (session_shutdown e))" "session_inv (snd (session_initialize e scenes storage executor))"
  using assms initialized_change [OF assms, of True] initialized_change [OF assms, of False] cancel_ends [of e Cancel_user]
    session_cancel_inv [OF assms, of Cancel_user] initialized_change [OF session_cancel_inv [OF assms, of Cancel_user], of False]
  by (auto simp: session_shutdown_def session_initialize_def Let_def split: prod.splits)

text \<open>One step, and any run.\<close>

definition session_world_inv :: "(session_engine \<times> scene_store) option \<Rightarrow> bool" where
  "session_world_inv w = (case w of None \<Rightarrow> False | Some (e, st) \<Rightarrow> session_inv e)"

lemma session_call_inv:
  assumes "session_inv e"
  shows "session_world_inv (session_call execute op e st)"
proof (cases op)
  case (Session_begin config)
  then show ?thesis using session_begin_inv(1) [OF assms, of st config] by (auto simp: session_world_inv_def)
next
  case (Session_begin_latest config)
  then show ?thesis using session_begin_inv(2) [OF assms, of st config] by (auto simp: session_world_inv_def)
next
  case (Session_tick current now)
  then show ?thesis using session_tick_inv [OF assms, of st current now] by (auto simp: session_world_inv_def)
qed (simp_all add: session_world_inv_def assms enter_symbol_inv session_backspace_inv session_confirm_inv place_inv
      session_switch_inv session_cancel_inv)

lemma fresh_session_inv: "session_inv fresh_session"
  using selection_idle_inv [of "sl_stats fresh_selection"]
  by (simp add: session_inv_def fresh_session_def session_idle_def sessions_ended_def fresh_hint_session_def fresh_selection_def)

lemma session_step_inv: "session_world_inv w \<Longrightarrow> session_world_inv (session_step execute w op)"
  using session_call_inv [of _ execute op] by (cases w) (auto simp: session_step_def session_world_inv_def)

interpretation session: invariant_machine "Some (fresh_session, fresh_store)" "session_step execute" session_world_inv for execute
  by unfold_locales (simp add: session_world_inv_def fresh_session_inv, rule session_step_inv)

text \<open>What the executor was given when the log of its calls grew from one engine to the next: a plan
  made from the session's scene, which its reader accepts and the execution preflight passes on the
  desktop the session was begun for.\<close>

definition handed_over :: "executor \<Rightarrow> session_engine \<Rightarrow> u64 \<Rightarrow> bool \<Rightarrow> bool \<Rightarrow> event_result \<Rightarrow> bool" where
  "handed_over execute e now check_window check_buttons w =
     (case w of (r, ev, e') \<Rightarrow>
        if se_executed e' = se_executed e then True
        else let call = last (se_executed e'); (bytes, permissions, at) = call in
          se_executed e' = se_executed e @ [call] \<and> permissions = ax_permissions (se_action_context e) \<and> at = now \<and>
          r = execute (se_executed e) call \<and> \<not> se_active e' \<and>
          (case (se_scene e, snd (validate_plan (Span bytes) True True)) of
             (Some scene, Some p) \<Rightarrow>
               if now = 0 then True
               else validate_execution_preflight (Some p) (expected_state scene (se_action_context e) p check_window check_buttons) now
                 = SACCADE_OK
           | _ \<Rightarrow> False))"

lemma execute_selection_hands_over:
  assumes inv: "session_inv e" and act: "se_active e"
  shows "handed_over execute e now check_window check_buttons (execute_selection execute e now event)"
proof -
  obtain r ev e' where x: "execute_selection execute e now event = (r, ev, e')" by (cases "execute_selection execute e now event") auto
  have live: "session_live e" using inv act by (simp add: session_inv_def)
  obtain v scene_bytes where v: "se_scene e = Some v" "snd (validate_packet scene_bytes True True) = Some v"
    using live by (auto simp: session_live_def)
  note wf = read_view_wf [OF v(2)]
  from execute_selection_cases [OF x] have "handed_over execute e now check_window check_buttons (r, ev, e')"
  proof (elim disjE exE conjE)
    fix points deadline d bytes st
    assume d: "e' = reset_session d"
      and b: "build_plan (se_planner e) (se_scene e) (execution_context e now deadline)
            (session_request (se_action e) (sl_target_ids (se_selection e)) points) True True = (SACCADE_OK, Some bytes, st)"
      and ex: "se_executed d = se_executed e @ [(bytes, ax_permissions (se_action_context e), now)]"
      and r: "r = execute (se_executed e) (bytes, ax_permissions (se_action_context e), now)"
    let ?cx = "execution_context e now deadline" and ?rq = "session_request (se_action e) (sl_target_ids (se_selection e)) points"
    from build_plan_ok [OF wf b [unfolded v(1)]] obtain ts where ok: "build_arguments_valid ?cx ?rq" "scene_current v ?cx"
      "resolve_targets v ?rq [0..<unat (ar_target_count ?rq)] = Some ts"
      "validate_plan (Span bytes) True True = (SACCADE_OK, Some (planned_view v ?cx ?rq ts))" by auto
    have facts: "shape_facts ?rq" using ok(1) request_shape_facts by (simp add: build_arguments_valid_def)
    have before: "now < ax_deadline_ns ?cx" using ok(1) by (simp add: build_arguments_valid_def execution_context_def not_le)
    have same: "expected_state v (se_action_context e) p check_window check_buttons = expected_state v ?cx p check_window check_buttons" for p
      by (simp add: expected_state_def execution_context_def)
    have "validate_execution_preflight (Some (planned_view v ?cx ?rq ts))
        (expected_state v (se_action_context e) (planned_view v ?cx ?rq ts) check_window check_buttons) now = SACCADE_OK" if "now \<noteq> 0"
      unfolding same using planned_preflight [OF v(2) ok(2) facts ok(3) _ before] that word_neq_0_conv by blast
    moreover have "\<not> se_active e'" "se_executed e' = se_executed d" using d by (simp_all add: reset_session_def)
    ultimately show ?thesis using ex r ok(4) v(1) by (simp add: handed_over_def)
  qed (simp_all add: handed_over_def reset_session_def)
  then show ?thesis using x by simp
qed

lemma handed_over_from:
  assumes "se_scene e1 = se_scene e" "se_action_context e1 = se_action_context e" "se_executed e1 = se_executed e"
    "handed_over execute e1 now check_window check_buttons w"
  shows "handed_over execute e now check_window check_buttons w"
  using assms(4) unfolding handed_over_def assms(1-3) .

lemma handed_over_same: "se_executed e' = se_executed e \<Longrightarrow> handed_over execute e now check_window check_buttons (r, ev, e')"
  by (simp add: handed_over_def)

lemma confirm_hands_over:
  assumes "session_inv e"
  shows "handed_over execute e now check_window check_buttons (session_confirm execute e now out)"
proof (cases "\<not> se_active e \<or> \<not> out \<or> now \<ge> ax_deadline_ns (se_action_context e)")
  case True
  then show ?thesis using cancel_same [of e Cancel_timeout]
    by (elim disjE) (simp_all add: session_confirm_def handed_over_same)
next
  case False
  then have act: "se_active e" by simp
  note lf = live_facts [OF assms act]
  let ?e = "e\<lparr>se_selection := snd (selection_confirm (se_selection e))\<rparr>"
  have i1: "session_inv ?e"
    using lf act confirm_inv [OF lf(2)] selection_keeps(3) [of "se_selection e"] selection_keeps_going [OF lf(4)]
    by (intro live_update [OF assms act]) (simp_all add: sessions_ended_def)
  have 1: "handed_over execute e now check_window check_buttons (execute_selection execute ?e now ev)" for ev
    using execute_selection_hands_over [OF i1] act by (intro handed_over_from [of ?e e]) simp_all
  show ?thesis using False 1 execute_selection_hands_over [OF assms act] unfolding session_confirm_def
    by (auto simp: Let_def split_beta handed_over_same)
qed

lemma symbol_hands_over:
  assumes "session_inv e"
  shows "handed_over execute e now check_window check_buttons (enter_symbol execute e symbol now out)"
  using enter_symbol_outcome [OF assms, of execute symbol now out]
proof (elim disjE exE conjE)
  fix e' ev
  assume "enter_symbol execute e symbol now out = execute_selection execute e' now ev" "session_inv e'" "se_active e'"
    and same: "se_scene e' = se_scene e" "se_action_context e' = se_action_context e" "se_executed e' = se_executed e"
  then show ?thesis using handed_over_from [OF same execute_selection_hands_over] by simp
qed (simp add: handed_over_same)

text \<open>C7. The life of a session. Whatever the operations on the session and on its scene store, each
  one returns, and after any run of them: the sessions begun are the ones completed, cancelled, failed
  or in progress; the engine holds a scene, frozen labels and a selection exactly while a session is
  in progress; a selection in progress is over that scene, whose epochs are the ones of the action
  context; and each call of the executor got bytes that the plan reader accepts, before the plan's
  deadline and with the permissions it requires.\<close>

theorem session_lifecycle:
  "case foldl (session_step execute) (Some (fresh_session, fresh_store)) ops of
     None \<Rightarrow> False
   | Some (e, store) \<Rightarrow>
       sn_sessions_started (se_stats e) = sn_sessions_completed (se_stats e) + sn_sessions_cancelled (se_stats e) +
         sn_execution_failures (se_stats e) + (if se_active e then 1 else 0) \<and>
       hs_frozen (se_hints e) = se_active e \<and> (sl_state (se_selection e) \<noteq> Selection_idle) = se_active e \<and>
       (case se_scene e of
          None \<Rightarrow> \<not> se_active e \<and> se_prefix e = []
        | Some scene \<Rightarrow> se_active e \<and> se_initialized e \<and> packet_wf scene \<and> sl_scene (se_selection e) = Some scene \<and>
            scene_current scene (se_action_context e) \<and>
            sl_state (se_selection e) \<in> {Selection_collecting, Selection_complete}) \<and>
       list_all call_ok (se_executed e)"
  using session.inv_run [of execute ops]
  by (auto simp: session_world_inv_def session_inv_def session_live_def session_idle_def sessions_ended_def
    dest: read_view_wf split: option.splits if_splits prod.splits)

text \<open>C1. What the executor is given. After any run, typing a symbol or confirming calls the executor at
  most once; when it does, the bytes are a plan that the plan reader accepts and that passes the
  execution preflight on the scene of the session and the desktop it was begun for, the permissions
  are those of the session, the result is the executor's, and the session has ended.\<close>

theorem session_hands_over_plans:
  "case foldl (session_step execute) (Some (fresh_session, fresh_store)) ops of
     None \<Rightarrow> False
   | Some (e, store) \<Rightarrow>
       handed_over execute e now check_window check_buttons (enter_symbol execute e symbol now out) \<and>
       handed_over execute e now check_window check_buttons (session_confirm execute e now out)"
  using session.inv_run [of execute ops] symbol_hands_over confirm_hands_over
  by (auto simp: session_world_inv_def split: option.splits prod.splits)

end
