(* ===== verification/Target_Postprocess.thy ===== *)
theory Target_Postprocess
  imports Scene_Packet "HOL-Library.Product_Lexorder" "HOL-Library.Sublist" "HOL-Library.Signed_Division"
begin

text \<open>
  From the candidates of a detector to a scene packet, \<open>src/kernels/targets/postprocess.{hpp,cpp}\<close>: the
  candidates above the confidence threshold go through a bounded heap that keeps the best ones, the
  heap is sorted in place, and each candidate that no accepted target contains or overlaps too much is
  written as a target.

  The workspace is the list of the heap's entries: the indices before \<open>heap_size\<close>; what the array holds
  beyond them is never read. Indices are natural numbers: they stay below 65,536. The output buffer is
  its capacity, \<open>None\<close> for a null pointer; the writer fills the header and the targets it accepts, in order.
\<close>

definition maximum_candidates :: nat where "maximum_candidates = 65536"
definition safe_inset_q3 :: nat where "safe_inset_q3 = 8"

record dense_candidate =
  dc_x_q3 :: u16
  dc_y_q3 :: u16
  dc_width_q3 :: u16
  dc_height_q3 :: u16
  dc_confidence_q16 :: u16
  dc_role :: u8
  dc_source_bits :: u8
  dc_flags :: u16
  dc_reserved :: u16

record postprocess_config =
  pc_maximum_targets :: u32
  pc_minimum_confidence_q16 :: u16
  pc_band_minimum_confidence_q16 :: u16
  pc_band_min_short_side_q3 :: u16
  pc_band_max_short_side_q3 :: u16
  pc_iou_threshold_q16 :: u16
  pc_coordinate_space :: u32
  pc_reserved :: u32

record postprocess_epochs =
  pe_frame_id :: u64
  pe_model_epoch :: u64
  pe_session_epoch :: u64
  pe_transform_epoch :: u64
  pe_topology_epoch :: u64
  pe_source_id :: u64

record postprocess_stats =
  ps_candidates_read :: u64
  ps_candidates_above_threshold :: u64
  ps_heap_replacements :: u64
  ps_overlap_tests :: u64
  ps_containment_suppressed :: u64
  ps_iou_suppressed :: u64
  ps_targets_written :: u32

definition no_postprocess_stats :: postprocess_stats where
  "no_postprocess_stats = \<lparr>ps_candidates_read = 0, ps_candidates_above_threshold = 0, ps_heap_replacements = 0,
     ps_overlap_tests = 0, ps_containment_suppressed = 0, ps_iou_suppressed = 0, ps_targets_written = 0\<rparr>"

definition confidence_band_valid :: "postprocess_config \<Rightarrow> bool" where
  "confidence_band_valid c \<longleftrightarrow>
     (let disabled = (pc_band_minimum_confidence_q16 c = 0 \<and> pc_band_min_short_side_q3 c = 0 \<and> pc_band_max_short_side_q3 c = 0);
          enabled = (pc_band_minimum_confidence_q16 c \<noteq> 0 \<and>
            pc_band_minimum_confidence_q16 c \<le> pc_minimum_confidence_q16 c \<and>
            pc_band_min_short_side_q3 c < pc_band_max_short_side_q3 c)
      in disabled \<or> enabled)"

definition above_confidence_threshold :: "dense_candidate \<Rightarrow> postprocess_config \<Rightarrow> bool" where
  "above_confidence_threshold d c \<longleftrightarrow>
     (if dc_confidence_q16 d \<ge> pc_minimum_confidence_q16 c then True
      else let short_side = (if dc_width_q3 d < dc_height_q3 d then dc_width_q3 d else dc_height_q3 d)
        in pc_band_minimum_confidence_q16 c \<noteq> 0 \<and> short_side \<ge> pc_band_min_short_side_q3 c \<and>
           short_side < pc_band_max_short_side_q3 c \<and> dc_confidence_q16 d \<ge> pc_band_minimum_confidence_q16 c)"

definition has_safe_interior :: "dense_candidate \<Rightarrow> bool" where
  "has_safe_interior d \<longleftrightarrow> unat (dc_width_q3 d) > safe_inset_q3 * 2 \<and> unat (dc_height_q3 d) > safe_inset_q3 * 2"

definition generic_visual_capabilities :: u32 where
  "generic_visual_capabilities = CAPABILITY_POINTER_MOVE OR CAPABILITY_BUTTON OR CAPABILITY_SCROLL OR
     CAPABILITY_DRAG_SOURCE OR CAPABILITY_DROP_TARGET OR CAPABILITY_TEXT OR CAPABILITY_TEXT_SELECT"

definition q3_to_q8 :: "u16 \<Rightarrow> i32" where "q3_to_q8 v = push_bit 5 (ucast v)"

subsection \<open>The heap\<close>

definition better :: "dense_candidate list \<Rightarrow> nat \<Rightarrow> nat \<Rightarrow> bool" where
  "better candidates left right =
     (let a = candidates ! left; b = candidates ! right in
      if dc_confidence_q16 a \<noteq> dc_confidence_q16 b then dc_confidence_q16 a > dc_confidence_q16 b
      else if dc_y_q3 a \<noteq> dc_y_q3 b then dc_y_q3 a < dc_y_q3 b
      else if dc_x_q3 a \<noteq> dc_x_q3 b then dc_x_q3 a < dc_x_q3 b
      else left < right)"

text \<open>The heap routines, over the order of the candidates.\<close>

definition swap :: "'a list \<Rightarrow> nat \<Rightarrow> nat \<Rightarrow> 'a list" where
  "swap xs i j = xs[i := xs ! j, j := xs ! i]"

fun sift_up :: "(nat \<Rightarrow> nat \<Rightarrow> bool) \<Rightarrow> nat list \<Rightarrow> nat \<Rightarrow> nat list" where
  "sift_up bt heap i =
     (if i = 0 then heap
      else let parent = (i - 1) div 2 in
        if \<not> bt (heap ! parent) (heap ! i) then heap else sift_up bt (swap heap parent i) parent)"

function sift_down :: "(nat \<Rightarrow> nat \<Rightarrow> bool) \<Rightarrow> nat list \<Rightarrow> nat \<Rightarrow> nat \<Rightarrow> nat list" where
  "sift_down bt heap n i =
     (let left = i * 2 + 1 in
      if left \<ge> n then heap
      else let right = left + 1;
               worse = (if right < n \<and> bt (heap ! left) (heap ! right) then right else left)
      in if \<not> bt (heap ! i) (heap ! worse) then heap else sift_down bt (swap heap i worse) n worse)"
  by pat_completeness auto
termination by (relation "measure (\<lambda>(bt, heap, n, i). n - i)") (auto simp: Let_def split: if_splits)

declare sift_up.simps [simp del] sift_down.simps [simp del]

text \<open>The loop that keeps the best candidates, from a candidate index on.\<close>

definition keep_best :: "dense_candidate list \<Rightarrow> postprocess_config \<Rightarrow> nat list \<times> postprocess_stats \<Rightarrow> nat \<Rightarrow>
    nat list \<times> postprocess_stats" where
  "keep_best candidates c acc i = (case acc of (heap, st) \<Rightarrow>
     if \<not> above_confidence_threshold (candidates ! i) c then (heap, st)
     else let st = st\<lparr>ps_candidates_above_threshold := ps_candidates_above_threshold st + 1\<rparr> in
       if length heap < unat (pc_maximum_targets c)
       then (sift_up (better candidates) (heap @ [i]) (length heap), st)
       else if better candidates i (heap ! 0)
       then (sift_down (better candidates) (heap[0 := i]) (length heap) 0,
             st\<lparr>ps_heap_replacements := ps_heap_replacements st + 1\<rparr>)
       else (heap, st))"

text \<open>The loop that sorts the heap: the worst entry to the end, again and again.\<close>

fun sort_heap :: "(nat \<Rightarrow> nat \<Rightarrow> bool) \<Rightarrow> nat list \<Rightarrow> nat \<Rightarrow> nat list" where
  "sort_heap bt heap n =
     (if n \<le> 1 then heap else sort_heap bt (sift_down bt (swap heap 0 (n - 1)) (n - 1) 0) (n - 1))"

declare sort_heap.simps [simp del]

subsection \<open>Targets\<close>

text \<open>FNV-1a over the bytes of the values, little-endian.\<close>

definition fnv_step :: "u64 \<Rightarrow> u8 \<Rightarrow> u64" where
  "fnv_step hash byte = (hash XOR ucast byte) * 1099511628211"

definition candidate_id :: "u64 \<Rightarrow> dense_candidate \<Rightarrow> u64" where
  "candidate_id source_id d =
     (let vals = [source_id, ucast (q3_to_q8 (dc_x_q3 d)), ucast (q3_to_q8 (dc_y_q3 d)), ucast (q3_to_q8 (dc_width_q3 d)),
            ucast (q3_to_q8 (dc_height_q3 d)), ucast (dc_role d), ucast (dc_source_bits d)];
          hash = foldl (\<lambda>h v. foldl (\<lambda>h byte. fnv_step h (ucast (drop_bit (byte * 8) v))) h [0..<8]) 14695981039346656037 vals
      in if hash = 0 then 1 else hash)"

definition candidate_area :: "dense_candidate \<Rightarrow> u64" where
  "candidate_area d = ucast (dc_width_q3 d) * ucast (dc_height_q3 d)"

definition capabilities_for_role :: "u16 \<Rightarrow> u32" where
  "capabilities_for_role role =
     (if role = ROLE_BUTTON \<or> role = ROLE_LINK \<or> role = ROLE_CHECKBOX \<or> role = ROLE_RADIO \<or> role = ROLE_MENU_ITEM
      then CAPABILITY_POINTER_MOVE OR CAPABILITY_BUTTON OR CAPABILITY_INVOKE
      else if role = ROLE_TEXT then CAPABILITY_POINTER_MOVE OR CAPABILITY_TEXT_SELECT
      else if role = ROLE_TEXT_FIELD
      then CAPABILITY_POINTER_MOVE OR CAPABILITY_BUTTON OR CAPABILITY_TEXT OR CAPABILITY_TEXT_SELECT
      else if role = ROLE_SLIDER then CAPABILITY_POINTER_MOVE OR CAPABILITY_BUTTON OR CAPABILITY_SCROLL
      else if role = ROLE_WINDOW then CAPABILITY_POINTER_MOVE OR CAPABILITY_WINDOW_ACTIVATE
      else if role = ROLE_IMAGE then CAPABILITY_POINTER_MOVE
      else if role = ROLE_UNKNOWN then generic_visual_capabilities
      else 0)"

text \<open>\<open>int64_t\<close> arithmetic on 17-bit values; the product in \<open>uint64_t\<close>.\<close>

definition candidate_overlap :: "dense_candidate \<Rightarrow> dense_candidate \<Rightarrow> u64" where
  "candidate_overlap a b =
     (let left = max (uint (dc_x_q3 a)) (uint (dc_x_q3 b)); upper = max (uint (dc_y_q3 a)) (uint (dc_y_q3 b));
          right = min (uint (dc_x_q3 a) + uint (dc_width_q3 a)) (uint (dc_x_q3 b) + uint (dc_width_q3 b));
          bottom = min (uint (dc_y_q3 a) + uint (dc_height_q3 a)) (uint (dc_y_q3 b) + uint (dc_height_q3 b))
      in if left \<ge> right \<or> upper \<ge> bottom then 0 else word_of_int (right - left) * word_of_int (bottom - upper))"

text \<open>An accepted target read back as a candidate; the shift is arithmetic.\<close>

definition q3 :: "i32 \<Rightarrow> u16" where "q3 v = word_of_int (sint v div 32)"

definition existing_candidate :: "target_record \<Rightarrow> dense_candidate" where
  "existing_candidate t = \<lparr>dc_x_q3 = q3 (tr_x_q8 t), dc_y_q3 = q3 (tr_y_q8 t), dc_width_q3 = q3 (tr_width_q8 t),
     dc_height_q3 = q3 (tr_height_q8 t), dc_confidence_q16 = ucast (tr_confidence_q16 t), dc_role = ucast (tr_role t),
     dc_source_bits = ucast (tr_source_bits t), dc_flags = ucast (tr_flags t), dc_reserved = 0\<rparr>"

text \<open>The test against the targets accepted so far.\<close>

fun suppressed :: "postprocess_config \<Rightarrow> dense_candidate \<Rightarrow> target_record list \<Rightarrow> postprocess_stats \<Rightarrow> bool \<times> postprocess_stats" where
  "suppressed c d [] st = (False, st)"
| "suppressed c d (t # ts) st =
     (let st = st\<lparr>ps_overlap_tests := ps_overlap_tests st + 1\<rparr>; existing = existing_candidate t;
          overlap = candidate_overlap d existing in
      if overlap = candidate_area d
      then (True, st\<lparr>ps_containment_suppressed := ps_containment_suppressed st + 1\<rparr>)
      else if overlap = 0 then suppressed c d ts st
      else let union_area = candidate_area d + candidate_area existing - overlap in
        if overlap * 65535 \<ge> union_area * ucast (pc_iou_threshold_q16 c)
        then (True, st\<lparr>ps_iou_suppressed := ps_iou_suppressed st + 1\<rparr>)
        else suppressed c d ts st)"

definition candidate_target :: "u64 \<Rightarrow> dense_candidate \<Rightarrow> u32 \<Rightarrow> target_record" where
  "candidate_target source_id d order =
     (let x = q3_to_q8 (dc_x_q3 d); y = q3_to_q8 (dc_y_q3 d); width = q3_to_q8 (dc_width_q3 d); height = q3_to_q8 (dc_height_q3 d);
          role = ucast (dc_role d); flags = (ucast (dc_flags d) :: u32) AND NOT TARGET_ACTIONABLE;
          capabilities = (if ucast (dc_flags d) AND TARGET_ACTIONABLE \<noteq> 0 \<and> has_safe_interior d \<and>
              flags AND (TARGET_DISABLED OR TARGET_SECURE) = 0 then capabilities_for_role role else 0)
      in zero_target\<lparr>tr_target_id := candidate_id source_id d, tr_x_q8 := x, tr_y_q8 := y, tr_width_q8 := width,
           tr_height_q8 := height, tr_safe_x_q8 := word_of_int (sint x + sint width sdiv 2),
           tr_safe_y_q8 := word_of_int (sint y + sint height sdiv 2), tr_confidence_q16 := ucast (dc_confidence_q16 d),
           tr_role := role, tr_source_bits := ucast (dc_source_bits d), tr_capability_bits := capabilities,
           tr_flags := (if capabilities \<noteq> 0 then flags OR TARGET_ACTIONABLE else flags), tr_order := order\<rparr>)"

definition write_candidate :: "dense_candidate list \<Rightarrow> postprocess_config \<Rightarrow> u64 \<Rightarrow> target_record list \<times> postprocess_stats \<Rightarrow>
    nat \<Rightarrow> target_record list \<times> postprocess_stats" where
  "write_candidate candidates c source_id acc i = (case acc of (targets, st) \<Rightarrow>
     let d = candidates ! i; (hidden, st) = suppressed c d targets st in
     if hidden then (targets, st)
     else (targets @ [candidate_target source_id d (word_of_nat (length targets))], st))"

subsection \<open>The routine\<close>

definition postprocess_header :: "postprocess_config \<Rightarrow> postprocess_epochs \<Rightarrow> nat \<Rightarrow> packet_header" where
  "postprocess_header c ep target_count = zero_header\<lparr>
     ph_struct_size := word_of_nat header_size, ph_packet_version := TARGET_PACKET_VERSION,
     ph_target_count := word_of_nat target_count, ph_target_stride := word_of_nat target_size,
     ph_coordinate_space := pc_coordinate_space c, ph_frame_id := pe_frame_id ep, ph_model_epoch := pe_model_epoch ep,
     ph_session_epoch := pe_session_epoch ep, ph_transform_epoch := pe_transform_epoch ep,
     ph_topology_epoch := pe_topology_epoch ep, ph_source_id := pe_source_id ep,
     ph_targets_offset := word_of_nat header_size,
     ph_total_size := word_of_nat header_size + word_of_nat target_count * word_of_nat target_size\<rparr>"

definition postprocess_valid :: "dense_candidate list option \<Rightarrow> postprocess_config \<Rightarrow> postprocess_epochs \<Rightarrow> bool" where
  "postprocess_valid candidates c ep \<longleftrightarrow>
     \<not> ((case candidates of None \<Rightarrow> False | Some ds \<Rightarrow> length ds > maximum_candidates) \<or> pc_maximum_targets c = 0 \<or>
        pc_maximum_targets c > TARGET_PACKET_MAX_TARGETS \<or> pc_coordinate_space c = SPACE_DESKTOP_Q8 \<or>
        (pc_coordinate_space c \<noteq> SPACE_MODEL_Q8 \<and> pc_coordinate_space c \<noteq> SPACE_SOURCE_Q8) \<or>
        \<not> confidence_band_valid c \<or> pc_reserved c \<noteq> 0 \<or> pe_frame_id ep = 0 \<or> pe_model_epoch ep = 0 \<or>
        pe_session_epoch ep = 0 \<or> pe_transform_epoch ep = 0 \<or> pe_topology_epoch ep = 0 \<or> pe_source_id ep = 0)"

text \<open>The candidates: \<open>None\<close> for a null pointer with the count zero. \<open>valid\<close> says that the workspace, the size and
  the statistics are there and that no null pointer comes with a positive count.\<close>

definition postprocess ::
  "dense_candidate list option \<Rightarrow> postprocess_config \<Rightarrow> postprocess_epochs \<Rightarrow> bool \<Rightarrow> nat option \<Rightarrow>
     saccade_result \<times> nat option \<times> u8 list option \<times> postprocess_stats option" where
  "postprocess candidates c ep valid output =
     (if \<not> valid \<or> \<not> postprocess_valid candidates c ep then (SACCADE_ERROR_INVALID_ARGUMENT, None, None, None)
      else let ds = (case candidates of None \<Rightarrow> [] | Some ds \<Rightarrow> ds);
               st = no_postprocess_stats\<lparr>ps_candidates_read := word_of_nat (length ds)\<rparr>;
               (heap, st) = foldl (keep_best ds c) ([], st) [0..<length ds];
               order = sort_heap (better ds) heap (length heap);
               maximum_required = header_size + length heap * target_size
      in if (case output of None \<Rightarrow> True | Some capacity \<Rightarrow> capacity < maximum_required)
         then (SACCADE_ERROR_CAPACITY, Some maximum_required, None, Some st)
         else let (targets, st) = foldl (write_candidate ds c (pe_source_id ep)) ([], st) order;
                  header = postprocess_header c ep (length targets)
           in (SACCADE_OK, Some (unat (ph_total_size header)), Some (put_packet header targets []),
               Some (st\<lparr>ps_targets_written := word_of_nat (length targets)\<rparr>)))"

subsection \<open>The heap keeps the best\<close>

lemma length_swap [simp]: "length (swap xs i j) = length xs"
  by (simp add: swap_def)

lemma mset_swap_at: "i < length xs \<Longrightarrow> j < length xs \<Longrightarrow> mset (swap xs i j) = mset xs"
  unfolding swap_def by (metis list_update_swap mset_swap list_update_overwrite)

lemma nth_swap: "i < length xs \<Longrightarrow> j < length xs \<Longrightarrow> l < length xs \<Longrightarrow>
    swap xs i j ! l = (if l = j then xs ! i else if l = i then xs ! j else xs ! l)"
  by (simp add: swap_def nth_list_update)

lemma child_of: "0 < j \<Longrightarrow> ((j :: nat) - 1) div 2 = i \<longleftrightarrow> j = i * 2 + 1 \<or> j = i * 2 + 2"
  by linarith

definition worse_child :: "(nat \<Rightarrow> nat \<Rightarrow> bool) \<Rightarrow> nat list \<Rightarrow> nat \<Rightarrow> nat \<Rightarrow> nat" where
  "worse_child bt h n i =
     (if i * 2 + 1 + 1 < n \<and> bt (h ! (i * 2 + 1)) (h ! (i * 2 + 1 + 1)) then i * 2 + 1 + 1 else i * 2 + 1)"

lemma sift_down_unfold:
  "sift_down bt h n i = (if n \<le> i * 2 + 1 \<or> \<not> bt (h ! i) (h ! worse_child bt h n i) then h
     else sift_down bt (swap h i (worse_child bt h n i)) n (worse_child bt h n i))"
  unfolding sift_down.simps [of bt h n i] Let_def worse_child_def [symmetric]
  by (cases "n \<le> i * 2 + 1") (simp_all only: if_True if_False simp_thms)

text \<open>What the heap routines rely on: the order is the strict order of a key that tells indices apart.
  An entry of the heap is not worse than its parent.\<close>

locale ranked =
  fixes bt :: "nat \<Rightarrow> nat \<Rightarrow> bool" and key :: "nat \<Rightarrow> 'k::linorder"
  assumes bt_key: "bt l r \<longleftrightarrow> key l < key r"
    and key_inj: "inj key"
begin

definition child_ok :: "nat list \<Rightarrow> nat \<Rightarrow> bool" where
  "child_ok h j \<longleftrightarrow> key (h ! j) \<le> key (h ! ((j - 1) div 2))"

definition heap_on :: "nat list \<Rightarrow> nat \<Rightarrow> bool" where
  "heap_on h n \<longleftrightarrow> (\<forall>j. 0 < j \<longrightarrow> j < n \<longrightarrow> child_ok h j)"

text \<open>The children of \<open>i\<close> are not worse than the parent of \<open>i\<close>.\<close>

definition bridged :: "nat list \<Rightarrow> nat \<Rightarrow> nat \<Rightarrow> bool" where
  "bridged h n i \<longleftrightarrow> (\<forall>j. 0 < i \<longrightarrow> 0 < j \<longrightarrow> j < n \<longrightarrow> (j - 1) div 2 = i \<longrightarrow> key (h ! j) \<le> key (h ! ((i - 1) div 2)))"

lemma sift_up_mset: "i < length h \<Longrightarrow> mset (sift_up bt h i) = mset h \<and> length (sift_up bt h i) = length h"
proof (induction bt h i rule: sift_up.induct)
  case (1 bt h i)
  then show ?case by (subst (1 2) sift_up.simps) (auto simp: Let_def mset_swap_at)
qed

lemma sift_up_heap:
  assumes "i < n" "n \<le> length h" "\<And>j. 0 < j \<Longrightarrow> j < n \<Longrightarrow> j \<noteq> i \<Longrightarrow> child_ok h j" "bridged h n i"
  shows "heap_on (sift_up bt h i) n"
  using assms
proof (induction i arbitrary: h rule: less_induct)
  case (less i)
  define p where "p = (i - 1) div 2"
  show ?case
  proof (cases "i = 0 \<or> \<not> bt (h ! p) (h ! i)")
    case True
    then have "i = 0 \<or> child_ok h i" by (auto simp: bt_key child_ok_def p_def)
    then have "heap_on h n" using less.prems(3) unfolding heap_on_def by (metis less_numeral_extra(3))
    then show ?thesis using True by (subst sift_up.simps) (auto simp: Let_def p_def)
  next
    case False
    then have i: "0 < i" "p < i" "key (h ! p) < key (h ! i)" by (auto simp: p_def bt_key)
    define h' where "h' = swap h p i"
    have at: "h' ! l = (if l = i then h ! p else if l = p then h ! i else h ! l)" if "l < n" for l
      using that less.prems(1,2) i unfolding h'_def by (subst nth_swap) auto
    have ok: "child_ok h' j" if j: "0 < j" "j < n" "j \<noteq> p" for j
    proof (cases "j = i")
      case True
      then show ?thesis using at [OF j(2)] at [of p] i less.prems(1) by (simp add: child_ok_def p_def)
    next
      case False
      have q: "(j - 1) div 2 < n" using j by linarith
      have old: "key (h ! j) \<le> key (h ! ((j - 1) div 2))" using less.prems(3) [OF j(1,2) False] by (simp add: child_ok_def)
      consider "(j - 1) div 2 = i" | "(j - 1) div 2 = p" | "(j - 1) div 2 \<noteq> i" "(j - 1) div 2 \<noteq> p" by blast
      then show ?thesis
      proof cases
        case 1
        then have "key (h ! j) \<le> key (h ! p)" using less.prems(4) i j by (auto simp: bridged_def p_def)
        then show ?thesis using 1 at [OF j(2)] at [OF q] j False i by (simp add: child_ok_def)
      next
        case 2
        then show ?thesis using old at [OF j(2)] at [OF q] j False i by (simp add: child_ok_def)
      next
        case 3
        then show ?thesis using old at [OF j(2)] at [OF q] j False by (simp add: child_ok_def)
      qed
    qed
    have "bridged h' n p"
      unfolding bridged_def
    proof (intro allI impI)
      fix j assume j: "0 < p" "0 < j" "j < n" "(j - 1) div 2 = p"
      have pp: "(p - 1) div 2 < n" "(p - 1) div 2 \<noteq> p" "(p - 1) div 2 \<noteq> i" "p < n" using j i less.prems(1) by linarith+
      have "key (h ! p) \<le> key (h ! ((p - 1) div 2))" using less.prems(3) [of p] j(1) pp i by (simp add: child_ok_def)
      moreover have "j \<noteq> i \<Longrightarrow> key (h ! j) \<le> key (h ! p)" using less.prems(3) [of j] j by (simp add: child_ok_def)
      moreover have "j \<noteq> p" using j by linarith
      ultimately show "key (h' ! j) \<le> key (h' ! ((p - 1) div 2))" using at [OF j(3)] at [OF pp(1)] pp by auto
    qed
    then have "heap_on (sift_up bt h' p) n"
      using less.IH [of p h'] i less.prems(1,2) ok by (simp add: h'_def)
    then show ?thesis using False by (subst sift_up.simps) (simp add: Let_def p_def h'_def)
  qed
qed

lemma sift_down_mset:
  "i < n \<Longrightarrow> n \<le> length h \<Longrightarrow> mset (sift_down bt h n i) = mset h \<and> length (sift_down bt h n i) = length h \<and>
     (\<forall>l \<ge> n. l < length h \<longrightarrow> sift_down bt h n i ! l = h ! l)"
proof (induction bt h n i rule: sift_down.induct)
  case (1 bt h n i)
  define w where "w = worse_child bt h n i"
  show ?case
  proof (cases "n \<le> i * 2 + 1 \<or> \<not> bt (h ! i) (h ! w)")
    case True
    then show ?thesis by (simp add: sift_down_unfold [of bt h n i, folded w_def])
  next
    case False
    then have w: "w < n" "i < length h" "w < length h" using 1(2,3) by (auto simp: w_def worse_child_def)
    have e: "sift_down bt h n i = sift_down bt (swap h i w) n w"
      using False by (simp add: sift_down_unfold [of bt h n i, folded w_def])
    have "mset (sift_down bt (swap h i w) n w) = mset (swap h i w) \<and> length (sift_down bt (swap h i w) n w) = length (swap h i w) \<and>
     (\<forall>l \<ge> n. l < length (swap h i w) \<longrightarrow> sift_down bt (swap h i w) n w ! l = swap h i w ! l)"
      using 1(1) [OF refl _ refl w_def [unfolded worse_child_def]] False w 1(3) by simp
    then show ?thesis unfolding e using w 1(2) by (auto simp: mset_swap_at nth_swap)
  qed
qed

lemma sift_down_heap:
  assumes "i < n" "n \<le> length h" "\<And>j. 0 < j \<Longrightarrow> j < n \<Longrightarrow> (j - 1) div 2 \<noteq> i \<Longrightarrow> child_ok h j" "bridged h n i"
  shows "heap_on (sift_down bt h n i) n"
  using assms
proof (induction "n - i" arbitrary: i h rule: less_induct)
  case less
  define w where "w = worse_child bt h n i"
  have below: "key (h ! j) \<le> key (h ! w)" if "0 < j" "j < n" "(j - 1) div 2 = i" for j
  proof -
    have "j = i * 2 + 1 \<or> j = i * 2 + 2" using that child_of by blast
    then show ?thesis using that(2) by (auto simp: w_def worse_child_def bt_key not_less)
  qed
  show ?case
  proof (cases "n \<le> i * 2 + 1 \<or> \<not> bt (h ! i) (h ! w)")
    case True
    have "child_ok h j" if j: "0 < j" "j < n" for j
    proof (cases "(j - 1) div 2 = i")
      case eq: True
      then have "\<not> n \<le> i * 2 + 1" using j by (auto simp: child_of)
      then show ?thesis using True below [OF j eq] eq by (auto simp: child_ok_def bt_key)
    next
      case False
      then show ?thesis by (rule less.prems(3) [OF j])
    qed
    then show ?thesis using True by (simp add: sift_down_unfold [of bt h n i, folded w_def] heap_on_def)
  next
    case False
    then have w: "w < n" "i < w" "(w - 1) div 2 = i" "key (h ! i) < key (h ! w)" using less.prems(1)
      by (auto simp: w_def worse_child_def bt_key)
    define h' where "h' = swap h i w"
    have at: "h' ! l = (if l = w then h ! i else if l = i then h ! w else h ! l)" if "l < n" for l
      using that less.prems(1,2) w unfolding h'_def by (subst nth_swap) auto
    have ok: "child_ok h' j" if j: "0 < j" "j < n" "(j - 1) div 2 \<noteq> w" for j
    proof -
      have q: "(j - 1) div 2 < n" using j by linarith
      consider "j = w" | "j \<noteq> w" "(j - 1) div 2 = i" | "j \<noteq> w" "(j - 1) div 2 \<noteq> i" "j = i" | "j \<noteq> w" "(j - 1) div 2 \<noteq> i" "j \<noteq> i" by blast
      then show ?thesis
      proof cases
        case 1
        then show ?thesis using at [OF j(2)] at [of i] w less.prems(1) by (simp add: child_ok_def)
      next
        case 2
        then have "j \<noteq> i" using j by linarith
        then show ?thesis using 2 below [OF j(1,2)] at [OF j(2)] at [OF q] j by (simp add: child_ok_def)
      next
        case 3
        have "key (h ! w) \<le> key (h ! ((i - 1) div 2))" using less.prems(4) 3 j(1) w by (simp add: bridged_def)
        then show ?thesis using 3 at [OF j(2)] at [OF q] j by (simp add: child_ok_def)
      next
        case 4
        then show ?thesis using less.prems(3) [OF j(1,2)] at [OF j(2)] at [OF q] j by (simp add: child_ok_def)
      qed
    qed
    have "bridged h' n w"
      unfolding bridged_def
    proof (intro allI impI)
      fix j assume j: "0 < w" "0 < j" "j < n" "(j - 1) div 2 = w"
      have "j \<noteq> w" "j \<noteq> i" using j w by linarith+
      moreover have "key (h ! j) \<le> key (h ! w)" using less.prems(3) [of j] j w(2) by (simp add: child_ok_def)
      ultimately show "key (h' ! j) \<le> key (h' ! ((w - 1) div 2))" using at [OF j(3)] at [of i] w less.prems(1) by simp
    qed
    then have "heap_on (sift_down bt h' n w) n"
      using less.hyps [of w h'] w less.prems(1,2) ok by (simp add: h'_def)
    then show ?thesis using False by (simp add: sift_down_unfold [of bt h n i, folded w_def] h'_def)
  qed
qed

lemma root_worst: "heap_on h n \<Longrightarrow> i < n \<Longrightarrow> key (h ! i) \<le> key (h ! 0)"
proof (induction i rule: less_induct)
  case (less i)
  show ?case
  proof (cases "i = 0")
    case False
    then have "key (h ! i) \<le> key (h ! ((i - 1) div 2))" using less.prems by (simp add: heap_on_def child_ok_def)
    moreover have "key (h ! ((i - 1) div 2)) \<le> key (h ! 0)" using False less.prems by (intro less.IH) linarith+
    ultimately show ?thesis by simp
  qed simp
qed

end

text \<open>Sorting in place, and keeping the best while the candidates pass.\<close>

lemma take_insort:
  fixes f :: "'a \<Rightarrow> 'k::linorder"
  assumes "sorted (map f S)" "0 < k" "k \<le> length S" "f x \<noteq> f (S ! (k - 1))"
  shows "mset (take k (insort_key f x S)) =
    (if f x < f (S ! (k - 1)) then add_mset x (mset (take (k - 1) S)) else mset (take k S))"
  using assms
proof (induction S arbitrary: k)
  case (Cons y S)
  show ?case
  proof (cases "f x \<le> f y")
    case True
    have "f y \<le> f ((y # S) ! (k - 1))" using Cons.prems by (cases k; cases "k - 1") auto
    then show ?thesis using True Cons.prems by (cases k) auto
  next
    case False
    show ?thesis
    proof (cases "k = 1")
      case True
      then show ?thesis using False by (auto dest: not_le_imp_less)
    next
      case k: False
      then obtain l where l: "k = Suc (Suc l)" using Cons.prems(2) by (metis One_nat_def gr0_implies_Suc nat.exhaust)
      then show ?thesis using False Cons.IH [of "Suc l"] Cons.prems by simp
    qed
  qed
qed simp

lemma take_last: "0 < k \<Longrightarrow> k \<le> length S \<Longrightarrow> take k S = take (k - 1) S @ [S ! (k - 1)]"
  by (cases k) (auto simp: take_Suc_conv_app_nth)

context ranked
begin

lemma sift_down_drop:
  assumes "i < n" "n \<le> length h"
  shows "drop n (sift_down bt h n i) = drop n h" "mset (take n (sift_down bt h n i)) = mset (take n h)"
proof -
  note s = sift_down_mset [OF assms]
  show d: "drop n (sift_down bt h n i) = drop n h" using s by (intro nth_equalityI) auto
  have "mset (take n (sift_down bt h n i)) + mset (drop n h) = mset (take n h) + mset (drop n h)"
    using s d by (metis append_take_drop_id mset_append)
  then show "mset (take n (sift_down bt h n i)) = mset (take n h)" by simp
qed

lemma sort_heap_sorted:
  assumes "heap_on h n" "n \<le> length h" "sorted (map key (drop n h))"
    "\<And>x y. x \<in> set (take n h) \<Longrightarrow> y \<in> set (drop n h) \<Longrightarrow> key x \<le> key y"
  shows "sorted (map key (sort_heap bt h n)) \<and> mset (sort_heap bt h n) = mset h"
  using assms
proof (induction n arbitrary: h)
  case 0
  then show ?case by (simp add: sort_heap.simps)
next
  case (Suc n)
  show ?case
  proof (cases "n = 0")
    case True
    then obtain x t where "h = x # t" using Suc.prems(2) by (cases h) auto
    then show ?thesis using Suc.prems(3,4) True by (simp add: sort_heap.simps)
  next
    case False
    define h1 where "h1 = swap h 0 n"
    define h2 where "h2 = sift_down bt h1 n 0"
    have len: "length h1 = length h" "0 < n" "n \<le> length h1" using Suc.prems(2) False by (auto simp: h1_def)
    have m1: "mset h1 = mset h" using Suc.prems(2) unfolding h1_def by (intro mset_swap_at) auto
    have at: "l < length h \<Longrightarrow> h1 ! l = (if l = n then h ! 0 else if l = 0 then h ! n else h ! l)" for l
      using Suc.prems(2) unfolding h1_def by (subst nth_swap) auto
    have "child_ok h1 j" if j: "0 < j" "j < n" "(j - 1) div 2 \<noteq> 0" for j
    proof -
      have "(j - 1) div 2 < n" "(j - 1) div 2 < length h" "j < length h" using j Suc.prems(2) by linarith+
      then show ?thesis using Suc.prems(1) j at by (auto simp: heap_on_def child_ok_def)
    qed
    then have heap: "heap_on h2 n"
      unfolding h2_def using len by (intro sift_down_heap) (auto simp: bridged_def)
    note d = sift_down_drop [OF len(2,3), folded h2_def]
    have tail: "drop n h2 = h ! 0 # drop (Suc n) h"
    proof -
      have "drop n h1 = h1 ! n # drop (Suc n) h1" using len Suc.prems(2) by (simp add: Cons_nth_drop_Suc)
      moreover have "drop (Suc n) h1 = drop (Suc n) h" using at len by (intro nth_equalityI) auto
      ultimately show ?thesis using d(1) at [of n] Suc.prems(2) by simp
    qed
    have sub: "set (take n h2) \<subseteq> set (take (Suc n) h)"
    proof -
      have "set (take n h2) = set (take n h1)" using d(2) by (metis set_mset_mset)
      also have "\<dots> \<subseteq> set (take (Suc n) h)"
      proof
        fix x assume "x \<in> set (take n h1)"
        then obtain l where "l < n" "x = h1 ! l" using len by (auto simp: in_set_conv_nth)
        define q where "q = (if l = 0 then n else l)"
        have "x = h ! q" "q < Suc n" using at [of l] Suc.prems(2) \<open>l < n\<close> \<open>x = h1 ! l\<close> by (simp_all add: q_def)
        then have "x = take (Suc n) h ! q" by simp
        then show "x \<in> set (take (Suc n) h)" using \<open>q < Suc n\<close> Suc.prems(2) nth_mem [of q "take (Suc n) h"] by simp
      qed
      finally show ?thesis .
    qed
    have root: "key x \<le> key (h ! 0)" if "x \<in> set (take (Suc n) h)" for x
      using that root_worst [OF Suc.prems(1)] by (auto simp: in_set_conv_nth)
    have zero: "h ! 0 \<in> set (take (Suc n) h)" using Suc.prems(2) by (cases h) auto
    have "sorted (map key (sort_heap bt h2 n)) \<and> mset (sort_heap bt h2 n) = mset h2"
    proof (rule Suc.IH [OF heap])
      show "n \<le> length h2" using sift_down_mset [OF len(2,3)] len by (simp add: h2_def)
      show "sorted (map key (drop n h2))" using Suc.prems(3,4) zero unfolding tail by simp
      show "key x \<le> key y" if "x \<in> set (take n h2)" "y \<in> set (drop n h2)" for x y
        using that sub root Suc.prems(4) unfolding tail by auto
    qed
    moreover have "mset h2 = mset h" using sift_down_mset [OF len(2,3)] m1 by (simp add: h2_def)
    moreover have "sort_heap bt h (Suc n) = sort_heap bt h2 n"
      using False by (subst sort_heap.simps) (simp add: h1_def h2_def)
    ultimately show ?thesis by simp
  qed
qed

lemma sort_heap_eq:
  assumes "heap_on h (length h)"
  shows "sort_heap bt h (length h) = sort_key key h"
  using sort_heap_sorted [OF assms] sort_key_inj_key_eq [of h "sort_heap bt h (length h)" key] key_inj
  by (simp add: inj_on_subset)

text \<open>The heap holds the best \<open>k\<close> of the indices seen.\<close>

definition holds_best :: "nat \<Rightarrow> nat list \<Rightarrow> nat list \<Rightarrow> bool" where
  "holds_best k xs h \<longleftrightarrow> heap_on h (length h) \<and> mset h = mset (take k (sort_key key xs))"

lemma sort_snoc: "sort_key key (xs @ [i]) = insort_key key i (sort_key key xs)"
  using key_inj by (intro sort_key_inj_key_eq) (auto simp: sorted_insort_key inj_on_def inj_def)

lemma holds_best_room:
  assumes "holds_best k xs h" "length h < k"
  shows "holds_best k (xs @ [i]) (sift_up bt (h @ [i]) (length h))"
proof -
  have "length h = min (length xs) k" using assms(1) unfolding holds_best_def by (metis length_sort length_take mset_eq_length)
  then have "length xs < k" using assms(2) by simp
  moreover have "heap_on (sift_up bt (h @ [i]) (length h)) (Suc (length h))"
    using assms(1) by (intro sift_up_heap) (auto simp: holds_best_def heap_on_def child_ok_def nth_append bridged_def)
  moreover note sift_up_mset [of "length h" "h @ [i]"]
  ultimately show ?thesis using assms(1) by (simp add: holds_best_def sort_snoc)
qed

lemma holds_best_full:
  assumes best: "holds_best k xs h" and full: "\<not> length h < k" and k: "0 < k" and new: "i \<notin> set xs"
  shows "holds_best k (xs @ [i]) (if bt i (h ! 0) then sift_down bt (h[0 := i]) (length h) 0 else h)"
proof -
  let ?S = "sort_key key xs"
  have len: "length h = min (length xs) k" using best unfolding holds_best_def by (metis length_sort length_take mset_eq_length)
  then have l: "length h = k" "k \<le> length ?S" using full by auto
  have heap: "heap_on h k" and m: "mset h = mset (take k ?S)" using best l by (simp_all add: holds_best_def)
  have root: "h ! 0 = ?S ! (k - 1)"
  proof -
    have "h ! 0 \<in> set (take k ?S)" using m l k by (metis nth_mem set_mset_mset)
    then obtain j where "j < k" "?S ! j = h ! 0" using l by (auto simp: in_set_conv_nth)
    then have "key (h ! 0) \<le> key (?S ! (k - 1))"
      using sorted_nth_mono [OF sorted_sort_key [of key xs], of j "k - 1"] l k by simp
    moreover have "?S ! (k - 1) \<in> set h"
      using m l k take_last [OF k l(2)] by (metis in_set_conv_decomp set_mset_mset)
    then obtain j where "j < k" "h ! j = ?S ! (k - 1)" using l by (auto simp: in_set_conv_nth)
    then have "key (?S ! (k - 1)) \<le> key (h ! 0)" using root_worst [OF heap, of j] by simp
    ultimately show ?thesis using key_inj by (meson antisym injD)
  qed
  have "?S ! (k - 1) \<in> set xs" using l k by (metis set_sort nth_mem One_nat_def diff_less less_le_trans zero_less_one)
  then have "i \<noteq> h ! 0" using new root by auto
  then have ne: "key i \<noteq> key (?S ! (k - 1))" using key_inj root by (simp add: inj_eq)
  note t = take_insort [OF sorted_sort_key k l(2) ne]
  show ?thesis
  proof (cases "bt i (h ! 0)")
    case True
    have "heap_on (sift_down bt (h[0 := i]) k 0) k"
    proof (rule sift_down_heap)
      fix j assume j: "0 < j" "j < k" "(j - 1) div 2 \<noteq> 0"
      then show "child_ok (h[0 := i]) j" using heap by (auto simp: heap_on_def child_ok_def)
    qed (use k l in \<open>auto simp: bridged_def\<close>)
    moreover have "mset (sift_down bt (h[0 := i]) k 0) = mset (h[0 := i])" "length (sift_down bt (h[0 := i]) k 0) = k"
      using sift_down_mset [of 0 k "h[0 := i]"] k l by simp_all
    moreover have "mset (h[0 := i]) = add_mset i (mset (take (k - 1) ?S))"
      using k l m root take_last [OF k l(2)] by (simp add: mset_update)
    ultimately show ?thesis using True t root l by (simp add: holds_best_def sort_snoc bt_key)
  next
    case False
    then show ?thesis using t root l heap m by (simp add: holds_best_def sort_snoc bt_key)
  qed
qed

lemma sorted_best:
  assumes "holds_best k xs h"
  shows "sort_heap bt h (length h) = take k (sort_key key xs)"
proof -
  have "sort_key key h = take k (sort_key key xs)"
    using assms key_inj sorted_sort_key [of key xs]
    by (intro sort_key_inj_key_eq) (auto simp: holds_best_def inj_on_def inj_def sorted_wrt_take simp flip: take_map)
  then show ?thesis using assms sort_heap_eq by (simp add: holds_best_def)
qed

end

subsection \<open>The order of the candidates\<close>

definition rank_key :: "dense_candidate list \<Rightarrow> nat \<Rightarrow> nat \<times> nat \<times> nat \<times> nat" where
  "rank_key ds i = (65535 - unat (dc_confidence_q16 (ds ! i)), unat (dc_y_q3 (ds ! i)), unat (dc_x_q3 (ds ! i)), i)"

lemma better_key: "better ds l r \<longleftrightarrow> rank_key ds l < rank_key ds r"
proof -
  have "unat (dc_confidence_q16 (ds ! i)) \<le> 65535" for i using unat16_lt [of "dc_confidence_q16 (ds ! i)"] by linarith
  from this [of l] this [of r] show ?thesis
    by (auto simp: better_def rank_key_def Let_def word_less_nat_alt word_le_nat_alt unat_arith_simps)
qed

interpretation heap: ranked "better ds" "rank_key ds" for ds
  by unfold_locales (auto simp: better_key inj_def rank_key_def)

definition qualifying :: "dense_candidate list \<Rightarrow> postprocess_config \<Rightarrow> nat list" where
  "qualifying ds c = filter (\<lambda>i. above_confidence_threshold (ds ! i) c) [0..<length ds]"

text \<open>The best candidates, best first.\<close>

definition best_candidates :: "dense_candidate list \<Rightarrow> postprocess_config \<Rightarrow> nat list" where
  "best_candidates ds c = take (unat (pc_maximum_targets c)) (sort_key (rank_key ds) (qualifying ds c))"

definition same_counts :: "postprocess_stats \<Rightarrow> postprocess_stats \<Rightarrow> bool" where
  "same_counts a b \<longleftrightarrow> ps_candidates_read a = ps_candidates_read b \<and> ps_overlap_tests a = ps_overlap_tests b \<and>
     ps_containment_suppressed a = ps_containment_suppressed b \<and> ps_iou_suppressed a = ps_iou_suppressed b"

lemma keep_best_run:
  assumes "pc_maximum_targets c \<noteq> 0"
  shows "case foldl (keep_best ds c) ([], st) [0..<n] of (h, st') \<Rightarrow>
    heap.holds_best ds (unat (pc_maximum_targets c)) (filter (\<lambda>i. above_confidence_threshold (ds ! i) c) [0..<n]) h \<and>
    ps_candidates_above_threshold st' = ps_candidates_above_threshold st +
      word_of_nat (length (filter (\<lambda>i. above_confidence_threshold (ds ! i) c) [0..<n])) \<and> same_counts st' st"
proof (induction n)
  case 0
  then show ?case by (simp add: heap.holds_best_def heap.heap_on_def same_counts_def)
next
  case (Suc n)
  obtain h st' where run: "foldl (keep_best ds c) ([], st) [0..<n] = (h, st')" by fastforce
  note ih = Suc.IH [unfolded run prod.case]
  have k: "0 < unat (pc_maximum_targets c)" using assms by (simp add: unat_gt_0)
  have step: "foldl (keep_best ds c) ([], st) [0..<Suc n] = keep_best ds c (h, st') n" using run by simp
  show ?case
  proof (cases "above_confidence_threshold (ds ! n) c")
    case False
    then show ?thesis unfolding step using ih by (simp add: keep_best_def)
  next
    case True
    show ?thesis
    proof (cases "length h < unat (pc_maximum_targets c)")
      case room: True
      then show ?thesis unfolding step using True ih heap.holds_best_room [OF _ room, of ds _ n]
        by (simp add: keep_best_def Let_def same_counts_def)
    next
      case full: False
      then show ?thesis unfolding step using True ih heap.holds_best_full [OF _ full k, of ds "filter (\<lambda>i. above_confidence_threshold (ds ! i) c) [0..<n]" n]
        by (simp add: keep_best_def Let_def same_counts_def split: if_splits)
    qed
  qed
qed

lemma best_sorted:
  fixes st :: postprocess_stats
  assumes "pc_maximum_targets c \<noteq> 0" "foldl (keep_best ds c) ([], st) [0..<length ds] = (h, st')"
  shows "sort_heap (better ds) h (length h) = best_candidates ds c" "length h = length (best_candidates ds c)"
    "ps_candidates_above_threshold st' = ps_candidates_above_threshold st + word_of_nat (length (qualifying ds c))"
    "same_counts st' st"
proof -
  have r: "heap.holds_best ds (unat (pc_maximum_targets c)) (qualifying ds c) h"
    "ps_candidates_above_threshold st' = ps_candidates_above_threshold st + word_of_nat (length (qualifying ds c))"
    "same_counts st' st"
    using keep_best_run [OF assms(1), where ds = ds and st = st and n = "length ds"] assms(2) by (simp_all add: qualifying_def)
  then show "ps_candidates_above_threshold st' = ps_candidates_above_threshold st + word_of_nat (length (qualifying ds c))"
    "same_counts st' st" by simp_all
  show "sort_heap (better ds) h (length h) = best_candidates ds c"
    using heap.sorted_best [OF r(1)] by (simp add: best_candidates_def)
  show "length h = length (best_candidates ds c)"
    using r(1) unfolding heap.holds_best_def best_candidates_def by (metis mset_eq_length)
qed

subsection \<open>Suppression\<close>

text \<open>Areas as numbers, and what hides a candidate: a target that covers it, or one that overlaps it so
  much that the overlap is at least the threshold's share of the union.\<close>

definition area_of :: "dense_candidate \<Rightarrow> nat" where
  "area_of d = unat (dc_width_q3 d) * unat (dc_height_q3 d)"

definition shared :: "u16 \<Rightarrow> u16 \<Rightarrow> u16 \<Rightarrow> u16 \<Rightarrow> nat" where
  "shared a w b v = min (unat a + unat w) (unat b + unat v) - max (unat a) (unat b)"

definition overlap_of :: "dense_candidate \<Rightarrow> dense_candidate \<Rightarrow> nat" where
  "overlap_of a b = shared (dc_x_q3 a) (dc_width_q3 a) (dc_x_q3 b) (dc_width_q3 b) *
     shared (dc_y_q3 a) (dc_height_q3 a) (dc_y_q3 b) (dc_height_q3 b)"

definition hides :: "postprocess_config \<Rightarrow> dense_candidate \<Rightarrow> dense_candidate \<Rightarrow> bool" where
  "hides c e d \<longleftrightarrow> overlap_of d e = area_of d \<or>
     (0 < overlap_of d e \<and> (area_of d + area_of e - overlap_of d e) * unat (pc_iou_threshold_q16 c) \<le> overlap_of d e * 65535)"

lemma shared_le: "shared a w b v \<le> unat w" "shared a w b v \<le> unat v"
  by (auto simp: shared_def)

lemma overlap_le: "overlap_of a b \<le> area_of a" "overlap_of a b \<le> area_of b"
  unfolding overlap_of_def area_of_def by (intro mult_le_mono shared_le)+

lemma area_lt: "area_of d \<le> 4294836225"
  using mult_le_mono [of "unat (dc_width_q3 d)" 65535 "unat (dc_height_q3 d)" 65535]
    unat16_lt [of "dc_width_q3 d"] unat16_lt [of "dc_height_q3 d"] by (simp add: area_of_def)

lemma candidate_area_exact: "unat (candidate_area d) = area_of d"
  using area_lt [of d] unfolding candidate_area_def
  by (subst unat_mult_lem [THEN iffD1]) (simp_all add: area_of_def)

lemma shared_zero: "shared a w b v = 0 \<longleftrightarrow> max (uint a) (uint b) \<ge> min (uint a + uint w) (uint b + uint v)"
  unfolding shared_def uint_nat by linarith

lemma shared_int:
  "\<not> max (uint a) (uint b) \<ge> min (uint a + uint w) (uint b + uint v) \<Longrightarrow>
     word_of_int (min (uint a + uint w) (uint b + uint v) - max (uint a) (uint b)) = (word_of_nat (shared a w b v) :: u64)"
proof -
  assume "\<not> max (uint a) (uint b) \<ge> min (uint a + uint w) (uint b + uint v)"
  then have "int (shared a w b v) = min (uint a + uint w) (uint b + uint v) - max (uint a) (uint b)"
    unfolding shared_def uint_nat by linarith
  then show ?thesis by (metis of_int_of_nat_eq)
qed

lemma candidate_overlap_exact: "unat (candidate_overlap a b) = overlap_of a b"
proof -
  define w h where "w = shared (dc_x_q3 a) (dc_width_q3 a) (dc_x_q3 b) (dc_width_q3 b)"
    and "h = shared (dc_y_q3 a) (dc_height_q3 a) (dc_y_q3 b) (dc_height_q3 b)"
  have e: "candidate_overlap a b = (if w = 0 \<or> h = 0 then 0 else word_of_nat w * word_of_nat h)"
    unfolding candidate_overlap_def Let_def w_def h_def by (simp add: shared_zero shared_int del: of_int_diff)
  have "w * h \<le> 4294836225" using overlap_le(1) [of a b] area_lt [of a] by (simp add: w_def h_def overlap_of_def)
  moreover have "w < 65536" unfolding w_def by (rule le_less_trans [OF shared_le(1) unat16_lt])
  moreover have "h < 65536" unfolding h_def by (rule le_less_trans [OF shared_le(1) unat16_lt])
  ultimately have "w * h < 2 ^ 64" "w < 65536" "h < 65536" by simp_all
  then have "unat (word_of_nat w * word_of_nat h :: u64) = w * h"
    by (subst unat_mult_lem [THEN iffD1]) (simp_all add: unat_of_nat_small)
  then show ?thesis unfolding e by (auto simp: overlap_of_def w_def h_def)
qed

text \<open>An accepted target read back has the place and extent of its candidate.\<close>

lemma sint_q3_to_q8: "sint (q3_to_q8 v) = 32 * uint v"
proof -
  have "uint v < 65536" "0 \<le> uint v" using uint_lt2p [of v] by simp_all
  then have "- 2147483648 \<le> 32 * uint v" "32 * uint v \<le> 2147483647" by linarith+
  moreover have "q3_to_q8 v = word_of_int (32 * uint v)" by (simp add: q3_to_q8_def push_bit_eq_mult mult.commute)
  ultimately show ?thesis using sint_word_of_int32 by metis
qed

lemma q3_of_q8: "q3 (q3_to_q8 v) = v"
  by (simp add: q3_def sint_q3_to_q8)

lemma existing_target:
  "dc_x_q3 (existing_candidate (candidate_target s d o')) = dc_x_q3 d"
  "dc_y_q3 (existing_candidate (candidate_target s d o')) = dc_y_q3 d"
  "dc_width_q3 (existing_candidate (candidate_target s d o')) = dc_width_q3 d"
  "dc_height_q3 (existing_candidate (candidate_target s d o')) = dc_height_q3 d"
  by (simp_all add: existing_candidate_def candidate_target_def Let_def q3_of_q8)

lemma hides_existing: "hides c (existing_candidate (candidate_target s e o')) d = hides c e d"
  by (simp add: hides_def overlap_of_def area_of_def existing_target)

text \<open>The test of the code, in \<open>uint64_t\<close>, is the exact comparison: nothing wraps.\<close>

lemma suppressed_test:
  "(candidate_overlap d e = candidate_area d \<or> (candidate_overlap d e \<noteq> 0 \<and>
     candidate_overlap d e * 65535 \<ge> (candidate_area d + candidate_area e - candidate_overlap d e) * ucast (pc_iou_threshold_q16 c)))
   \<longleftrightarrow> hides c e d"
proof -
  let ?o = "candidate_overlap d e" and ?a = "candidate_area d" and ?b = "candidate_area e" and ?t = "ucast (pc_iou_threshold_q16 c) :: u64"
  have o: "unat ?o = overlap_of d e" and a: "unat ?a = area_of d" "unat ?b = area_of e"
    by (simp_all add: candidate_overlap_exact candidate_area_exact)
  have lt: "area_of d \<le> 4294836225" "area_of e \<le> 4294836225" by (rule area_lt)+
  have le: "overlap_of d e \<le> area_of d" "overlap_of d e \<le> area_of e" by (rule overlap_le)+
  have t: "unat ?t = unat (pc_iou_threshold_q16 c)" by simp
  have t': "unat (pc_iou_threshold_q16 c) \<le> 65535" using unat16_lt [of "pc_iou_threshold_q16 c"] by linarith
  have sum: "unat (?a + ?b) = area_of d + area_of e" using lt a by (subst unat_add_lem [THEN iffD1]) simp_all
  have "?o \<le> ?a + ?b" using le sum o by (simp add: word_le_nat_alt)
  then have u: "unat (?a + ?b - ?o) = area_of d + area_of e - overlap_of d e" using sum o by (simp add: unat_sub)
  have "(area_of d + area_of e - overlap_of d e) * unat (pc_iou_threshold_q16 c) \<le> 8589672450 * 65535"
    using lt t' by (intro mult_le_mono) linarith+
  then have l: "unat ((?a + ?b - ?o) * ?t) = (area_of d + area_of e - overlap_of d e) * unat (pc_iou_threshold_q16 c)"
    using u t by (subst unat_mult_lem [THEN iffD1]) simp_all
  have r: "unat (?o * 65535) = overlap_of d e * 65535" using lt le o by (subst unat_mult_lem [THEN iffD1]) simp_all
  have z: "?o \<noteq> 0 \<longleftrightarrow> 0 < overlap_of d e" by (simp add: unat_gt_0 flip: o)
  have e: "?o = ?a \<longleftrightarrow> overlap_of d e = area_of d" using o a by (metis unsigned_word_eqI)
  show ?thesis unfolding hides_def z e word_le_nat_alt l r by simp
qed

lemma suppressed_hides:
  "suppressed c d ts st = (hidden, st') \<Longrightarrow>
     hidden = list_ex (\<lambda>t. hides c (existing_candidate t) d) ts \<and>
     ps_candidates_read st' = ps_candidates_read st \<and> ps_candidates_above_threshold st' = ps_candidates_above_threshold st \<and>
     ps_containment_suppressed st' + ps_iou_suppressed st' =
       ps_containment_suppressed st + ps_iou_suppressed st + (if hidden then 1 else 0)"
proof (induction ts arbitrary: st)
  case (Cons t ts)
  note test = suppressed_test [of d "existing_candidate t" c, symmetric]
  consider "candidate_overlap d (existing_candidate t) = candidate_area d"
    | "candidate_overlap d (existing_candidate t) \<noteq> candidate_area d" "candidate_overlap d (existing_candidate t) = 0"
    | "candidate_overlap d (existing_candidate t) \<noteq> candidate_area d" "candidate_overlap d (existing_candidate t) \<noteq> 0" by blast
  then show ?case
  proof cases
    case 1
    then show ?thesis using Cons.prems test by (auto simp: Let_def)
  next
    case 2
    then show ?thesis using Cons.prems Cons.IH test by (auto simp: Let_def)
  next
    case 3
    then show ?thesis using Cons.prems Cons.IH test by (auto simp: Let_def split: if_splits)
  qed
qed simp

subsection \<open>What is written\<close>

text \<open>The reference: go through the candidates and keep each one that nothing kept before hides.\<close>

fun visible :: "postprocess_config \<Rightarrow> dense_candidate list \<Rightarrow> dense_candidate list \<Rightarrow> dense_candidate list" where
  "visible c kept [] = kept"
| "visible c kept (d # ds) = (if list_ex (\<lambda>e. hides c e d) kept then visible c kept ds else visible c (kept @ [d]) ds)"

definition targets_of :: "u64 \<Rightarrow> dense_candidate list \<Rightarrow> target_record list" where
  "targets_of s kept = map2 (\<lambda>d i. candidate_target s d (word_of_nat i)) kept [0..<length kept]"

lemma targets_of_snoc: "targets_of s (kept @ [d]) = targets_of s kept @ [candidate_target s d (word_of_nat (length kept))]"
  by (simp add: targets_of_def zip_append1)

lemma length_targets_of [simp]: "length (targets_of s kept) = length kept"
  by (simp add: targets_of_def)

lemma list_ex_targets_of: "list_ex (\<lambda>t. hides c (existing_candidate t) d) (targets_of s kept) = list_ex (\<lambda>e. hides c e d) kept"
  by (induction kept rule: rev_induct) (simp_all add: targets_of_snoc hides_existing targets_of_def [of s "[]"])

lemma write_run:
  "case foldl (write_candidate ds c s) (targets_of s kept, st) order of (targets, st') \<Rightarrow>
     targets = targets_of s (visible c kept (map ((!) ds) order)) \<and>
     ps_candidates_read st' = ps_candidates_read st \<and> ps_candidates_above_threshold st' = ps_candidates_above_threshold st \<and>
     ps_containment_suppressed st' + ps_iou_suppressed st' + word_of_nat (length targets) =
       ps_containment_suppressed st + ps_iou_suppressed st + word_of_nat (length kept) + word_of_nat (length order)"
proof (induction order arbitrary: kept st)
  case (Cons i order)
  obtain hidden st1 where s: "suppressed c (ds ! i) (targets_of s kept) st = (hidden, st1)" by fastforce
  note f = suppressed_hides [OF s, unfolded list_ex_targets_of]
  show ?case
  proof (cases hidden)
    case True
    then show ?thesis using s f Cons.IH [of kept st1] by (auto simp: write_candidate_def algebra_simps)
  next
    case False
    then show ?thesis using s f Cons.IH [of "kept @ [ds ! i]" st1]
      by (auto simp: write_candidate_def targets_of_snoc algebra_simps)
  qed
qed simp

lemma visible_extends: "\<exists>r. visible c kept ds = kept @ r \<and> subseq r ds"
proof (induction ds arbitrary: kept)
  case (Cons d ds)
  show ?case
  proof (cases "list_ex (\<lambda>e. hides c e d) kept")
    case True
    obtain r where "visible c kept ds = kept @ r" "subseq r ds" using Cons.IH by blast
    then show ?thesis using True by (intro exI [of _ r]) (simp add: list_emb_Cons)
  next
    case False
    then obtain r where "visible c (kept @ [d]) ds = (kept @ [d]) @ r" "subseq r ds" using Cons.IH by blast
    then show ?thesis using False by (intro exI [of _ "d # r"]) simp
  qed
qed simp

lemma visible_apart:
  "sorted_wrt (\<lambda>e d. \<not> hides c e d) kept \<Longrightarrow> sorted_wrt (\<lambda>e d. \<not> hides c e d) (visible c kept ds)"
  by (induction ds arbitrary: kept) (auto simp: sorted_wrt_append list_ex_iff)

lemma visible_covers: "d \<in> set ds \<Longrightarrow> d \<in> set (visible c kept ds) \<or> list_ex (\<lambda>e. hides c e d) (visible c kept ds)"
proof (induction ds arbitrary: kept)
  case (Cons a ds)
  obtain r where r: "visible c kept ds = kept @ r" using visible_extends by blast
  obtain r' where r': "visible c (kept @ [a]) ds = (kept @ [a]) @ r'" using visible_extends by blast
  show ?case
  proof (cases "d = a")
    case True
    then show ?thesis using r r' by auto
  next
    case False
    then have "d \<in> set ds" using Cons.prems by simp
    then show ?thesis using Cons.IH [of kept] Cons.IH [of "kept @ [a]"] by simp
  qed
qed simp

text \<open>The candidates that make a valid target.\<close>

definition writable :: "dense_candidate \<Rightarrow> bool" where
  "writable d \<longleftrightarrow> dc_width_q3 d \<noteq> 0 \<and> dc_height_q3 d \<noteq> 0 \<and> (ucast (dc_role d) :: u16) \<le> ROLE_WINDOW \<and>
     (ucast (dc_source_bits d) :: u16) AND NOT source_mask = 0 \<and> (ucast (dc_flags d) :: u32) AND NOT target_flag_mask = 0 \<and>
     ((ucast (dc_flags d) :: u32) AND TARGET_TEXT_REDACTED = 0 \<or> (ucast (dc_flags d) :: u32) AND TARGET_TEXT_TRUNCATED = 0)"

lemma capabilities_masked: "capabilities_for_role role AND NOT target_capability_mask = 0"
  by (simp add: capabilities_for_role_def generic_visual_capabilities_def target_capability_mask_def)

lemma candidate_id_nonzero: "candidate_id s d \<noteq> 0"
  by (simp add: candidate_id_def Let_def)

lemma safe_coordinate:
  "sint (word_of_int (sint (q3_to_q8 x) + sint (q3_to_q8 w) sdiv 2) :: i32) = 32 * uint x + 16 * uint w"
proof -
  have b: "uint x < 65536" "0 \<le> uint x" "uint w < 65536" "0 \<le> uint w" using uint_lt2p [of x] uint_lt2p [of w] by simp_all
  have "(32 * uint w) sdiv 2 = 16 * uint w" by (simp add: signed_divide_int_eq_divide_int)
  moreover have "- 2147483648 \<le> 32 * uint x + 16 * uint w" "32 * uint x + 16 * uint w \<le> 2147483647" using b by linarith+
  ultimately show ?thesis unfolding sint_q3_to_q8 by (simp only: sint_word_of_int32)
qed

lemma actionable_flags:
  fixes F :: u32
  shows "(F AND NOT TARGET_ACTIONABLE OR TARGET_ACTIONABLE) AND NOT target_flag_mask = F AND NOT target_flag_mask"
    "(F AND NOT TARGET_ACTIONABLE OR TARGET_ACTIONABLE) AND TARGET_ACTIONABLE = 1"
    "(F AND NOT TARGET_ACTIONABLE OR TARGET_ACTIONABLE) AND (TARGET_DISABLED OR TARGET_SECURE) = F AND (TARGET_DISABLED OR TARGET_SECURE)"
    "(F AND NOT TARGET_ACTIONABLE OR TARGET_ACTIONABLE) AND TARGET_SECURE = F AND TARGET_SECURE"
    "(F AND NOT TARGET_ACTIONABLE OR TARGET_ACTIONABLE) AND TARGET_TEXT_REDACTED = F AND TARGET_TEXT_REDACTED"
    "(F AND NOT TARGET_ACTIONABLE OR TARGET_ACTIONABLE) AND TARGET_TEXT_TRUNCATED = F AND TARGET_TEXT_TRUNCATED"
    "(F AND NOT TARGET_ACTIONABLE) AND NOT target_flag_mask = F AND NOT target_flag_mask"
    "(F AND NOT TARGET_ACTIONABLE) AND TARGET_ACTIONABLE = 0"
    "(F AND NOT TARGET_ACTIONABLE) AND (TARGET_DISABLED OR TARGET_SECURE) = F AND (TARGET_DISABLED OR TARGET_SECURE)"
    "(F AND NOT TARGET_ACTIONABLE) AND TARGET_SECURE = F AND TARGET_SECURE"
    "(F AND NOT TARGET_ACTIONABLE) AND TARGET_TEXT_REDACTED = F AND TARGET_TEXT_REDACTED"
    "(F AND NOT TARGET_ACTIONABLE) AND TARGET_TEXT_TRUNCATED = F AND TARGET_TEXT_TRUNCATED"
  by (simp_all add: target_flag_mask_def and.assoc bit.conj_disj_distrib2)

lemma conf16: "\<not> (ucast (c :: u16) :: u32) > 0xFFFF"
  using unat16_lt [of c] unfolding word_less_nat_alt not_less by (simp add: less_Suc_eq_le del: unat16_lt)

lemma uint16_pos: "0 < uint v \<longleftrightarrow> v \<noteq> 0" for v :: u16
  unfolding word_neq_0_conv by (simp add: word_less_def)

text \<open>The flags of a target are its candidate's, the actionable bit replaced.\<close>

definition replaced :: "u32 \<Rightarrow> bool \<Rightarrow> u32" where
  "replaced F b = (if b then F AND NOT TARGET_ACTIONABLE OR TARGET_ACTIONABLE else F AND NOT TARGET_ACTIONABLE)"

lemma replaced_flags:
  "replaced F b AND NOT target_flag_mask = F AND NOT target_flag_mask" "replaced F b AND TARGET_ACTIONABLE \<noteq> 0 \<longleftrightarrow> b"
  "replaced F b AND (TARGET_DISABLED OR TARGET_SECURE) = F AND (TARGET_DISABLED OR TARGET_SECURE)"
  "replaced F b AND TARGET_TEXT_REDACTED = F AND TARGET_TEXT_REDACTED"
  "replaced F b AND TARGET_TEXT_TRUNCATED = F AND TARGET_TEXT_TRUNCATED"
  unfolding replaced_def by (cases b; simp only: actionable_flags if_True if_False simp_thms; simp)+

definition candidate_capabilities :: "dense_candidate \<Rightarrow> u32" where
  "candidate_capabilities d = (let F = ucast (dc_flags d) in
     if F AND TARGET_ACTIONABLE \<noteq> 0 \<and> has_safe_interior d \<and> F AND (TARGET_DISABLED OR TARGET_SECURE) = 0
     then capabilities_for_role (ucast (dc_role d)) else 0)"

lemma capabilities_zero: "candidate_capabilities d AND NOT target_capability_mask = 0"
  "candidate_capabilities d \<noteq> 0 \<Longrightarrow> ucast (dc_flags d) AND (TARGET_DISABLED OR TARGET_SECURE) = 0"
  by (auto simp: candidate_capabilities_def Let_def capabilities_masked split: if_splits)

lemma candidate_target_fields:
  fixes s :: u64 and d :: dense_candidate and i :: u32
  defines "t \<equiv> candidate_target s d i"
  shows "tr_x_q8 t = q3_to_q8 (dc_x_q3 d)" "tr_y_q8 t = q3_to_q8 (dc_y_q3 d)" "tr_width_q8 t = q3_to_q8 (dc_width_q3 d)"
    "tr_height_q8 t = q3_to_q8 (dc_height_q3 d)" "sint (tr_safe_x_q8 t) = 32 * uint (dc_x_q3 d) + 16 * uint (dc_width_q3 d)"
    "sint (tr_safe_y_q8 t) = 32 * uint (dc_y_q3 d) + 16 * uint (dc_height_q3 d)"
    "tr_confidence_q16 t = ucast (dc_confidence_q16 d)" "tr_role t = ucast (dc_role d)"
    "tr_source_bits t = ucast (dc_source_bits d)" "tr_capability_bits t = candidate_capabilities d"
    "tr_flags t = replaced (ucast (dc_flags d)) (candidate_capabilities d \<noteq> 0)"
    "tr_target_id t = candidate_id s d" "tr_parent_id t = 0" "tr_text t = no_text"
  unfolding t_def candidate_target_def Let_def candidate_capabilities_def replaced_def actionable_flags
  by (simp_all only: target_record.select_convs target_record.update_convs target_record.simps safe_coordinate zero_target_def)

lemma valid_candidate_target: "valid_target (candidate_target s d i) \<longleftrightarrow> writable d"
proof -
  have nonneg: "0 \<le> uint v" for v :: u16 by simp
  have size: "32 * uint v \<le> 0 \<longleftrightarrow> v = 0" for v :: u16 using uint16_pos [of v] nonneg [of v] by linarith
  have safe: "32 * uint x \<le> 32 * uint x + 16 * uint v" "32 * uint x + 16 * uint v < 32 * uint x + 32 * uint v \<longleftrightarrow> v \<noteq> 0" for x v :: u16
    using uint16_pos [of v] nonneg [of v] by linarith+
  have role: "ucast (dc_role d) > ROLE_WINDOW \<longleftrightarrow> \<not> (ucast (dc_role d) :: u16) \<le> ROLE_WINDOW" by (rule not_le [symmetric])
  have secure: "candidate_capabilities d = 0 \<or> ucast (dc_flags d) AND (TARGET_DISABLED OR TARGET_SECURE) = 0"
    using capabilities_zero(2) by blast
  have empty: "tx_size no_text = 0" "tx_offset no_text = 0" by (simp_all add: no_text_def)
  show ?thesis
    unfolding valid_target_def writable_def candidate_target_fields sint_q3_to_q8 size safe role empty replaced_flags Let_def
    using capabilities_zero(1) [of d] secure conf16 [of "dc_confidence_q16 d"] candidate_id_nonzero [of s d] candidate_id_nonzero [of s d, symmetric]
    by (simp only: simp_thms safe split: if_split) blast
qed

subsection \<open>Property\<close>

lemma postprocess_header_ok:
  assumes "postprocess_valid candidates c ep" "n \<le> 10000"
  shows "header_accepted (postprocess_header c ep n) (unat (ph_total_size (postprocess_header c ep n)))"
    "unat (ph_target_count (postprocess_header c ep n)) = n"
    "unat (ph_total_size (postprocess_header c ep n)) = header_size + n * target_size"
proof -
  have count: "unat (word_of_nat n :: u32) = n" using assms(2) by (simp add: unat_of_nat)
  have total: "(word_of_nat header_size + word_of_nat n * word_of_nat target_size :: u64) = word_of_nat (header_size + n * target_size)" by simp
  have size: "unat (word_of_nat header_size + word_of_nat n * word_of_nat target_size :: u64) = header_size + n * target_size"
    unfolding total using assms(2) by (intro unat_of_nat_small) (simp add: header_size_def target_size_def)
  show "unat (ph_target_count (postprocess_header c ep n)) = n" using count by (simp add: postprocess_header_def)
  show "unat (ph_total_size (postprocess_header c ep n)) = header_size + n * target_size"
    using size by (simp add: postprocess_header_def)
  have "(word_of_nat n :: u32) \<le> TARGET_PACKET_MAX_TARGETS" using count assms(2) by (simp add: word_le_nat_alt)
  then show "header_accepted (postprocess_header c ep n) (unat (ph_total_size (postprocess_header c ep n)))"
    using assms(1) by (auto simp: header_accepted_def postprocess_header_def postprocess_valid_def valid_coordinate_space_def zero_header_def)
qed

lemma best_bounded: "postprocess_valid candidates c ep \<Longrightarrow> length (best_candidates ds c) \<le> 10000"
proof -
  assume "postprocess_valid candidates c ep"
  then have "pc_maximum_targets c \<le> TARGET_PACKET_MAX_TARGETS" by (auto simp: postprocess_valid_def not_less)
  then show ?thesis by (simp add: best_candidates_def word_le_nat_alt)
qed

lemma length_visible: "length (visible c [] ds) \<le> length ds"
  using visible_extends [of c "[]" ds] list_emb_length by fastforce

text \<open>C16. From candidates to targets. With valid arguments and room for as many targets as the heap holds,
  the routine succeeds; its candidates, best first, are the first \<open>maximum_targets\<close> of the library's sort
  of the candidates above the threshold, and it writes a packet of those that nothing written before hides:
  no target of the packet hides a later one, and each of the best candidates is written or hidden by one
  that is. Readers accept the packet exactly when each candidate written has an extent, a known role and
  known flags and sources; the statistics account for every candidate of the heap.\<close>

theorem postprocess_exact:
  "let ds = (case candidates of None \<Rightarrow> [] | Some ds \<Rightarrow> ds);
       best = map ((!) ds) (take (unat (pc_maximum_targets c)) (sort_key (rank_key ds) (qualifying ds c)));
       kept = visible c [] best;
       room = header_size + length best * target_size;
       (r, required, bytes, stats) = postprocess candidates c ep valid output
   in if valid \<and> postprocess_valid candidates c ep then
        (case bytes of
           None \<Rightarrow> r = SACCADE_ERROR_CAPACITY \<and> required = Some room \<and>
             (case output of None \<Rightarrow> True | Some capacity \<Rightarrow> capacity < room)
         | Some packet \<Rightarrow> r = SACCADE_OK \<and> required = Some (length packet) \<and>
             (case output of None \<Rightarrow> False | Some capacity \<Rightarrow> room \<le> capacity \<and> length packet \<le> room) \<and>
             packet = put_packet (postprocess_header c ep (length kept)) (targets_of (pe_source_id ep) kept) [] \<and>
             subseq kept best \<and> sorted_wrt (\<lambda>e d. \<not> hides c e d) kept \<and>
             list_all (\<lambda>d. List.member kept d \<or> list_ex (\<lambda>e. hides c e d) kept) best \<and>
             (fst (validate_packet (Span packet) True True) = SACCADE_OK) = list_all writable kept \<and>
             (case stats of
                None \<Rightarrow> False
              | Some st \<Rightarrow> ps_candidates_read st = word_of_nat (length ds) \<and>
                  ps_candidates_above_threshold st = word_of_nat (length (qualifying ds c)) \<and>
                  ps_targets_written st = word_of_nat (length kept) \<and>
                  ps_containment_suppressed st + ps_iou_suppressed st + word_of_nat (length kept) = word_of_nat (length best)))
      else r = SACCADE_ERROR_INVALID_ARGUMENT \<and> bytes = None \<and> required = None \<and> stats = None"
proof (cases "valid \<and> postprocess_valid candidates c ep")
  case False
  then show ?thesis by (auto simp: postprocess_def)
next
  case True
  define ds where "ds = (case candidates of None \<Rightarrow> [] | Some ds \<Rightarrow> ds)"
  define st0 where "st0 = no_postprocess_stats\<lparr>ps_candidates_read := word_of_nat (length ds)\<rparr>"
  define best where "best = map ((!) ds) (best_candidates ds c)"
  define kept where "kept = visible c [] best"
  obtain h st1 where h: "foldl (keep_best ds c) ([], st0) [0..<length ds] = (h, st1)" by fastforce
  have max: "pc_maximum_targets c \<noteq> 0" using True by (auto simp: postprocess_valid_def)
  note b = best_sorted [OF max h]
  obtain ts st2 where w: "foldl (write_candidate ds c (pe_source_id ep)) ([], st1) (best_candidates ds c) = (ts, st2)" by fastforce
  have run: "ts = targets_of (pe_source_id ep) kept" "ps_candidates_read st2 = ps_candidates_read st1"
    "ps_candidates_above_threshold st2 = ps_candidates_above_threshold st1"
    "ps_containment_suppressed st2 + ps_iou_suppressed st2 + word_of_nat (length ts) =
       ps_containment_suppressed st1 + ps_iou_suppressed st1 + word_of_nat (length best)"
    using write_run [where ds = ds and c = c and s = "pe_source_id ep" and kept = "[]" and st = st1 and order = "best_candidates ds c"] w
    by (auto simp: kept_def best_def targets_of_def [of _ "[]"])
  have n: "length kept \<le> 10000" "length kept \<le> length best"
    using True best_bounded [of candidates c ep ds] length_visible [of c best] by (simp_all add: kept_def best_def)
  note hd = postprocess_header_ok [OF conjunct2 [OF True] n(1)]
  let ?packet = "put_packet (postprocess_header c ep (length kept)) ts []"
  have "list_all (\<lambda>t. valid_target t \<and> tx_size (tr_text t) = 0) ts = list_all writable kept"
    by (simp add: run(1) targets_of_def list_all_length valid_candidate_target candidate_target_fields no_text_def)
  then have v: "(fst (validate_packet (Span ?packet) True True) = SACCADE_OK) = list_all writable kept"
    unfolding validate_packet_ok using validate_produced [OF hd(1), of ts "[]"] hd(2,3) run(1) text_lane_empty [of ts] by simp
  have lb: "length h = length best" using b(2) by (simp add: best_def)
  have post: "postprocess candidates c ep valid output =
    (if (case output of None \<Rightarrow> True | Some capacity \<Rightarrow> capacity < header_size + length best * target_size)
     then (SACCADE_ERROR_CAPACITY, Some (header_size + length best * target_size), None, Some st1)
     else (SACCADE_OK, Some (length ?packet), Some ?packet, Some (st2\<lparr>ps_targets_written := word_of_nat (length kept)\<rparr>)))"
    using True hd(3) unfolding postprocess_def Let_def ds_def [symmetric] st0_def [symmetric] h prod.case lb b(1) [unfolded lb] w
    by (simp add: run(1))
  have apart: "subseq kept best" "sorted_wrt (\<lambda>e d. \<not> hides c e d) kept"
    "list_all (\<lambda>d. List.member kept d \<or> list_ex (\<lambda>e. hides c e d) kept) best"
    using visible_extends [of c "[]" best] visible_apart [of c "[]" best] visible_covers [of _ best c "[]"]
    by (auto simp: kept_def list_all_iff)
  have counts: "ps_candidates_read st2 = word_of_nat (length ds)"
    "ps_candidates_above_threshold st2 = word_of_nat (length (qualifying ds c))"
    "ps_containment_suppressed st2 + ps_iou_suppressed st2 + word_of_nat (length kept) = word_of_nat (length best)"
    using run b(3,4) by (simp_all add: same_counts_def st0_def no_postprocess_stats_def)
  show ?thesis
    unfolding post ds_def [symmetric] best_candidates_def [symmetric] best_def [symmetric] kept_def [symmetric] Let_def
    using True n(2) v apart counts run(1) by (simp add: target_size_def split: option.split)
qed

end
