(* ===== verification/Overlay_Packet.thy ===== *)
theory Overlay_Packet
  imports Scene_Packet
begin

text \<open>
  The overlay packet of \<open>include/saccade/saccade_overlay.h\<close>, its reader and its expansion to rectangles,
  \<open>src/overlay/packet.{hpp,cpp}\<close>. A target record has 44 bytes of fields and, for the alignment of its
  first field, four bytes of padding that the reader copies and ignores: the field \<open>ot_padding\<close>. The array of
  16 glyphs is one 128-bit word, the first glyph in its lowest byte.
\<close>

abbreviation OVERLAY_PACKET_VERSION :: u32 where "OVERLAY_PACKET_VERSION \<equiv> 0x00010001"
abbreviation OVERLAY_MAX_TARGETS :: u32 where "OVERLAY_MAX_TARGETS \<equiv> 10000"
abbreviation OVERLAY_MAX_STYLES :: u32 where "OVERLAY_MAX_STYLES \<equiv> 16"
abbreviation OVERLAY_GLYPHS_PER_TARGET :: nat where "OVERLAY_GLYPHS_PER_TARGET \<equiv> 16"
abbreviation OVERLAY_ACTIVE_TARGET_NONE :: u32 where "OVERLAY_ACTIVE_TARGET_NONE \<equiv> uint32_max"
abbreviation OVERLAY_GLYPH_NONE :: u8 where "OVERLAY_GLYPH_NONE \<equiv> 255"
abbreviation OVERLAY_STYLE_ANIMATED :: u32 where "OVERLAY_STYLE_ANIMATED \<equiv> 1"
abbreviation INSTANCE_OUTLINE :: u32 where "INSTANCE_OUTLINE \<equiv> 1"
abbreviation INSTANCE_LABEL :: u32 where "INSTANCE_LABEL \<equiv> 2"
abbreviation INSTANCE_ACTIVE :: u32 where "INSTANCE_ACTIVE \<equiv> 3"

abbreviation META_TARGET_MASK :: u32 where "META_TARGET_MASK \<equiv> 0x00003FFF"
abbreviation META_STYLE_MASK :: u32 where "META_STYLE_MASK \<equiv> 0x0003C000"
abbreviation META_KIND_MASK :: u32 where "META_KIND_MASK \<equiv> 0x001C0000"

definition instance_meta_make :: "u32 \<Rightarrow> u32 \<Rightarrow> u32 \<Rightarrow> u32" where
  "instance_meta_make target_index style_index kind =
     (target_index AND META_TARGET_MASK) OR (push_bit 14 style_index AND META_STYLE_MASK) OR (push_bit 18 kind AND META_KIND_MASK)"

definition instance_meta_target :: "u32 \<Rightarrow> u32" where "instance_meta_target metadata = metadata AND META_TARGET_MASK"
definition instance_meta_style :: "u32 \<Rightarrow> u32" where "instance_meta_style metadata = drop_bit 14 (metadata AND META_STYLE_MASK)"
definition instance_meta_kind :: "u32 \<Rightarrow> u32" where "instance_meta_kind metadata = drop_bit 18 (metadata AND META_KIND_MASK)"

subsection \<open>Data\<close>

record overlay_header =
  oh_struct_size :: u32
  oh_packet_version :: u32
  oh_target_count :: u32
  oh_target_stride :: u32
  oh_style_count :: u32
  oh_style_stride :: u32
  oh_reserved32 :: u32
  oh_flags :: u32
  oh_scene_epoch :: u64
  oh_transform_epoch :: u64
  oh_targets_offset :: u64
  oh_styles_offset :: u64

record overlay_target =
  ot_target_id :: u64
  ot_x_q3 :: u16
  ot_y_q3 :: u16
  ot_width_q3 :: u16
  ot_height_q3 :: u16
  ot_label_x_q3 :: u16
  ot_label_y_q3 :: u16
  ot_confidence_q16 :: u16
  ot_glyphs :: "128 word"
  ot_style_index :: u8
  ot_glyph_count :: u8
  ot_flags :: u16
  ot_reserved :: u16
  ot_padding :: u32

record overlay_style =
  os_target_outline_rgba8 :: u32
  os_label_background_rgba8 :: u32
  os_label_foreground_rgba8 :: u32
  os_active_fill_rgba8 :: u32
  os_active_outline_rgba8 :: u32
  os_target_stroke_q3 :: u16
  os_target_radius_q3 :: u16
  os_label_height_q3 :: u16
  os_label_radius_q3 :: u16
  os_label_padding_x_q3 :: u16
  os_glyph_width_q3 :: u16
  os_glyph_height_q3 :: u16
  os_glyph_advance_q3 :: u16
  os_active_stroke_q3 :: u16
  os_reserved16 :: u16
  os_flags :: u32
  os_reserved32 :: u32
  os_reserved_0 :: u64
  os_reserved_1 :: u64

record overlay_rect =
  or_x_q3 :: u16
  or_y_q3 :: u16
  or_width_q3 :: u16
  or_height_q3 :: u16

record overlay_view =
  ov_header :: overlay_header
  ov_targets :: "overlay_target list option"
  ov_styles :: "overlay_style list option"

definition target_glyph :: "overlay_target \<Rightarrow> nat \<Rightarrow> u8" where
  "target_glyph t i = ucast (drop_bit (8 * i) (ot_glyphs t))"

subsection \<open>The byte layout\<close>

definition overlay_header_size :: nat where "overlay_header_size = 64"
definition overlay_target_size :: nat where "overlay_target_size = 48"
definition overlay_style_size :: nat where "overlay_style_size = 64"

abbreviation put_u8 :: "u8 \<Rightarrow> u8 list" where "put_u8 \<equiv> put_word 1"
abbreviation get_u8 :: "u8 list \<Rightarrow> u8 \<times> u8 list" where "get_u8 \<equiv> get_word 1"
abbreviation put_u128 :: "128 word \<Rightarrow> u8 list" where "put_u128 \<equiv> put_word 16"
abbreviation get_u128 :: "u8 list \<Rightarrow> 128 word \<times> u8 list" where "get_u128 \<equiv> get_word 16"

definition put_overlay_header :: "overlay_header \<Rightarrow> u8 list" where
  "put_overlay_header h = put_u32 (oh_struct_size h) @ put_u32 (oh_packet_version h) @ put_u32 (oh_target_count h) @
     put_u32 (oh_target_stride h) @ put_u32 (oh_style_count h) @ put_u32 (oh_style_stride h) @ put_u32 (oh_reserved32 h) @
     put_u32 (oh_flags h) @ put_u64 (oh_scene_epoch h) @ put_u64 (oh_transform_epoch h) @ put_u64 (oh_targets_offset h) @
     put_u64 (oh_styles_offset h)"

definition get_overlay_header :: "u8 list \<Rightarrow> overlay_header \<times> u8 list" where
  "get_overlay_header b0 = (let
     (struct_size, b1) = get_u32 b0; (packet_version, b2) = get_u32 b1; (target_count, b3) = get_u32 b2;
     (target_stride, b4) = get_u32 b3; (style_count, b5) = get_u32 b4; (style_stride, b6) = get_u32 b5;
     (reserved32, b7) = get_u32 b6; (flags, b8) = get_u32 b7; (scene_epoch, b9) = get_u64 b8;
     (transform_epoch, b10) = get_u64 b9; (targets_offset, b11) = get_u64 b10; (styles_offset, b12) = get_u64 b11
     in (\<lparr>oh_struct_size = struct_size, oh_packet_version = packet_version, oh_target_count = target_count,
       oh_target_stride = target_stride, oh_style_count = style_count, oh_style_stride = style_stride,
       oh_reserved32 = reserved32, oh_flags = flags, oh_scene_epoch = scene_epoch, oh_transform_epoch = transform_epoch,
       oh_targets_offset = targets_offset, oh_styles_offset = styles_offset\<rparr>, b12))"

definition put_overlay_target :: "overlay_target \<Rightarrow> u8 list" where
  "put_overlay_target t = put_u64 (ot_target_id t) @ put_u16 (ot_x_q3 t) @ put_u16 (ot_y_q3 t) @ put_u16 (ot_width_q3 t) @
     put_u16 (ot_height_q3 t) @ put_u16 (ot_label_x_q3 t) @ put_u16 (ot_label_y_q3 t) @ put_u16 (ot_confidence_q16 t) @
     put_u128 (ot_glyphs t) @ put_u8 (ot_style_index t) @ put_u8 (ot_glyph_count t) @ put_u16 (ot_flags t) @
     put_u16 (ot_reserved t) @ put_u32 (ot_padding t)"

definition get_overlay_target :: "u8 list \<Rightarrow> overlay_target \<times> u8 list" where
  "get_overlay_target b0 = (let
     (target_id, b1) = get_u64 b0; (x, b2) = get_u16 b1; (y, b3) = get_u16 b2; (width, b4) = get_u16 b3;
     (height, b5) = get_u16 b4; (label_x, b6) = get_u16 b5; (label_y, b7) = get_u16 b6; (confidence, b8) = get_u16 b7;
     (glyphs, b9) = get_u128 b8; (style_index, b10) = get_u8 b9; (glyph_count, b11) = get_u8 b10; (flags, b12) = get_u16 b11;
     (reserved, b13) = get_u16 b12; (padding, b14) = get_u32 b13
     in (\<lparr>ot_target_id = target_id, ot_x_q3 = x, ot_y_q3 = y, ot_width_q3 = width, ot_height_q3 = height,
       ot_label_x_q3 = label_x, ot_label_y_q3 = label_y, ot_confidence_q16 = confidence, ot_glyphs = glyphs,
       ot_style_index = style_index, ot_glyph_count = glyph_count, ot_flags = flags, ot_reserved = reserved,
       ot_padding = padding\<rparr>, b14))"

definition put_overlay_style :: "overlay_style \<Rightarrow> u8 list" where
  "put_overlay_style s = put_u32 (os_target_outline_rgba8 s) @ put_u32 (os_label_background_rgba8 s) @
     put_u32 (os_label_foreground_rgba8 s) @ put_u32 (os_active_fill_rgba8 s) @ put_u32 (os_active_outline_rgba8 s) @
     put_u16 (os_target_stroke_q3 s) @ put_u16 (os_target_radius_q3 s) @ put_u16 (os_label_height_q3 s) @
     put_u16 (os_label_radius_q3 s) @ put_u16 (os_label_padding_x_q3 s) @ put_u16 (os_glyph_width_q3 s) @
     put_u16 (os_glyph_height_q3 s) @ put_u16 (os_glyph_advance_q3 s) @ put_u16 (os_active_stroke_q3 s) @
     put_u16 (os_reserved16 s) @ put_u32 (os_flags s) @ put_u32 (os_reserved32 s) @ put_u64 (os_reserved_0 s) @
     put_u64 (os_reserved_1 s)"

definition get_overlay_style :: "u8 list \<Rightarrow> overlay_style \<times> u8 list" where
  "get_overlay_style b0 = (let
     (outline, b1) = get_u32 b0; (background, b2) = get_u32 b1; (foreground, b3) = get_u32 b2; (fill, b4) = get_u32 b3;
     (active_outline, b5) = get_u32 b4; (stroke, b6) = get_u16 b5; (radius, b7) = get_u16 b6; (label_height, b8) = get_u16 b7;
     (label_radius, b9) = get_u16 b8; (padding_x, b10) = get_u16 b9; (glyph_width, b11) = get_u16 b10;
     (glyph_height, b12) = get_u16 b11; (glyph_advance, b13) = get_u16 b12; (active_stroke, b14) = get_u16 b13;
     (reserved16, b15) = get_u16 b14; (flags, b16) = get_u32 b15; (reserved32, b17) = get_u32 b16;
     (reserved0, b18) = get_u64 b17; (reserved1, b19) = get_u64 b18
     in (\<lparr>os_target_outline_rgba8 = outline, os_label_background_rgba8 = background, os_label_foreground_rgba8 = foreground,
       os_active_fill_rgba8 = fill, os_active_outline_rgba8 = active_outline, os_target_stroke_q3 = stroke,
       os_target_radius_q3 = radius, os_label_height_q3 = label_height, os_label_radius_q3 = label_radius,
       os_label_padding_x_q3 = padding_x, os_glyph_width_q3 = glyph_width, os_glyph_height_q3 = glyph_height,
       os_glyph_advance_q3 = glyph_advance, os_active_stroke_q3 = active_stroke, os_reserved16 = reserved16,
       os_flags = flags, os_reserved32 = reserved32, os_reserved_0 = reserved0, os_reserved_1 = reserved1\<rparr>, b19))"

subsection \<open>Validation\<close>

definition overlay_style_valid :: "overlay_style \<Rightarrow> bool" where
  "overlay_style_valid s \<longleftrightarrow> os_target_stroke_q3 s \<noteq> 0 \<and> os_label_height_q3 s \<noteq> 0 \<and> os_glyph_width_q3 s \<noteq> 0 \<and>
     os_glyph_height_q3 s \<noteq> 0 \<and> os_glyph_advance_q3 s \<ge> os_glyph_width_q3 s \<and>
     os_label_height_q3 s \<ge> os_glyph_height_q3 s \<and> os_active_stroke_q3 s \<noteq> 0 \<and> os_reserved16 s = 0 \<and>
     os_flags s AND NOT OVERLAY_STYLE_ANIMATED = 0 \<and> os_reserved32 s = 0 \<and> os_reserved_0 s = 0 \<and> os_reserved_1 s = 0"

definition fits_q3 :: "u16 \<Rightarrow> u32 \<Rightarrow> bool" where
  "fits_q3 origin extent \<longleftrightarrow> extent \<le> 65535 - ucast origin"

definition label_width :: "overlay_target \<Rightarrow> overlay_style \<Rightarrow> u32" where
  "label_width t s = ucast (os_label_padding_x_q3 s) * 2 + ucast (os_glyph_advance_q3 s) * ucast (ot_glyph_count t)"

definition overlay_target_valid :: "overlay_target \<Rightarrow> overlay_style \<Rightarrow> bool" where
  "overlay_target_valid t s \<longleftrightarrow>
     (if unat (ot_glyph_count t) > OVERLAY_GLYPHS_PER_TARGET \<or> ot_width_q3 t < 2 \<or> ot_height_q3 t < 2 \<or> ot_flags t \<noteq> 0 \<or>
         ot_reserved t \<noteq> 0
      then False
      else if list_ex (\<lambda>i. target_glyph t i = OVERLAY_GLYPH_NONE) [0..<unat (ot_glyph_count t)] then False
      else label_width t s \<noteq> 0 \<and> fits_q3 (ot_x_q3 t) (ucast (ot_width_q3 t)) \<and> fits_q3 (ot_y_q3 t) (ucast (ot_height_q3 t)) \<and>
        fits_q3 (ot_label_x_q3 t) (label_width t s) \<and> fits_q3 (ot_label_y_q3 t) (ucast (os_label_height_q3 s)))"

definition overlay_header_valid :: "overlay_header \<Rightarrow> bool" where
  "overlay_header_valid h \<longleftrightarrow>
     \<not> (oh_struct_size h \<noteq> word_of_nat overlay_header_size \<or> oh_packet_version h \<noteq> OVERLAY_PACKET_VERSION \<or>
        oh_target_count h > OVERLAY_MAX_TARGETS \<or> oh_style_count h > OVERLAY_MAX_STYLES \<or>
        (oh_target_count h = 0) \<noteq> (oh_style_count h = 0) \<or> oh_target_stride h \<noteq> word_of_nat overlay_target_size \<or>
        oh_style_stride h \<noteq> word_of_nat overlay_style_size \<or> oh_reserved32 h \<noteq> 0 \<or> oh_flags h \<noteq> 0)"

definition expected_targets_offset :: "overlay_header \<Rightarrow> u64" where
  "expected_targets_offset h = (if oh_target_count h = 0 then 0 else word_of_nat overlay_header_size)"

definition expected_styles_offset :: "overlay_header \<Rightarrow> u64" where
  "expected_styles_offset h = (if oh_target_count h = 0 then 0
     else expected_targets_offset h + ucast (oh_target_count h) * word_of_nat overlay_target_size)"

definition expected_packet_size :: "overlay_header \<Rightarrow> u64" where
  "expected_packet_size h = (if oh_target_count h = 0 then word_of_nat overlay_header_size
     else expected_styles_offset h + ucast (oh_style_count h) * word_of_nat overlay_style_size)"

definition validate_overlay :: "span_u8 \<Rightarrow> bool \<Rightarrow> saccade_result \<times> overlay_view option" where
  "validate_overlay packet out_view =
     (case packet of
        Null_span n \<Rightarrow> (SACCADE_ERROR_INVALID_ARGUMENT, None)
      | Span bytes \<Rightarrow>
          if \<not> out_view \<or> length bytes < overlay_header_size then (SACCADE_ERROR_INVALID_ARGUMENT, None)
          else let (h, after_header) = get_overlay_header bytes in
            if \<not> overlay_header_valid h then (SACCADE_ERROR_INVALID_ARGUMENT, None)
            else if oh_targets_offset h \<noteq> expected_targets_offset h \<or> oh_styles_offset h \<noteq> expected_styles_offset h \<or>
              unat (expected_packet_size h) \<noteq> length bytes
            then (SACCADE_ERROR_INVALID_ARGUMENT, None)
            else let (targets, after_targets) = get_table get_overlay_target (unat (oh_target_count h)) after_header;
                     (styles, _) = get_table get_overlay_style (unat (oh_style_count h)) after_targets
            in if \<not> list_all overlay_style_valid styles then (SACCADE_ERROR_INVALID_ARGUMENT, None)
               else if \<not> list_all (\<lambda>t. ucast (ot_style_index t) < oh_style_count h \<and>
                   overlay_target_valid t (styles ! unat (ot_style_index t))) targets
               then (SACCADE_ERROR_INVALID_ARGUMENT, None)
               else (SACCADE_OK, Some \<lparr>ov_header = h, ov_targets = (if oh_target_count h = 0 then None else Some targets),
                      ov_styles = (if oh_style_count h = 0 then None else Some styles)\<rparr>))"

subsection \<open>Expansion\<close>

definition instances_per_target :: nat where "instances_per_target = 5"

definition overlay_target_at :: "overlay_view \<Rightarrow> nat \<Rightarrow> overlay_target" where
  "overlay_target_at p i = (case ov_targets p of None \<Rightarrow> undefined | Some ts \<Rightarrow> ts ! i)"

definition overlay_style_at :: "overlay_view \<Rightarrow> nat \<Rightarrow> overlay_style" where
  "overlay_style_at p i = (case ov_styles p of None \<Rightarrow> undefined | Some ss \<Rightarrow> ss ! i)"

definition q3_rect :: "u16 \<Rightarrow> u16 \<Rightarrow> u16 \<Rightarrow> u16 \<Rightarrow> overlay_rect" where
  "q3_rect x y width height = \<lparr>or_x_q3 = x, or_y_q3 = y, or_width_q3 = width, or_height_q3 = height\<rparr>"

definition expand_target :: "overlay_view \<Rightarrow> nat \<Rightarrow> (overlay_rect \<times> u32) list" where
  "expand_target p i =
     (let t = overlay_target_at p i; s = overlay_style_at p (unat (ot_style_index t));
          stroke = min (os_target_stroke_q3 s) (min (ot_width_q3 t div 2) (ot_height_q3 t div 2));
          x = ot_x_q3 t; y = ot_y_q3 t; bottom_y = y + ot_height_q3 t - stroke; right_x = x + ot_width_q3 t - stroke;
          outline = instance_meta_make (word_of_nat i) (ucast (ot_style_index t)) INSTANCE_OUTLINE
      in [(q3_rect x y (ot_width_q3 t) stroke, outline), (q3_rect x bottom_y (ot_width_q3 t) stroke, outline),
          (q3_rect x y stroke (ot_height_q3 t), outline), (q3_rect right_x y stroke (ot_height_q3 t), outline),
          (q3_rect (ot_label_x_q3 t) (ot_label_y_q3 t) (ucast (label_width t s)) (os_label_height_q3 s),
           instance_meta_make (word_of_nat i) (ucast (ot_style_index t)) INSTANCE_LABEL)])"

text \<open>The output: its capacity and whether both of its arrays are there.\<close>

definition expand_static ::
  "overlay_view \<Rightarrow> nat \<Rightarrow> bool \<Rightarrow> bool \<Rightarrow> saccade_result \<times> nat option \<times> (overlay_rect \<times> u32) list" where
  "expand_static p capacity arrays out_count =
     (let n = unat (oh_target_count (ov_header p)) in
      if \<not> out_count \<or> (oh_target_count (ov_header p) \<noteq> 0 \<and> (ov_targets p = None \<or> ov_styles p = None)) \<or>
         oh_target_count (ov_header p) > OVERLAY_MAX_TARGETS
      then (SACCADE_ERROR_INVALID_ARGUMENT, None, [])
      else let required = n * instances_per_target in
        if capacity < required then (SACCADE_ERROR_CAPACITY, Some required, [])
        else if required \<noteq> 0 \<and> \<not> arrays then (SACCADE_ERROR_INVALID_ARGUMENT, Some required, [])
        else (SACCADE_OK, Some required, concat (map (expand_target p) [0..<n])))"

definition expand_active ::
  "overlay_view \<Rightarrow> u32 \<Rightarrow> nat \<Rightarrow> bool \<Rightarrow> bool \<Rightarrow> saccade_result \<times> nat option \<times> (overlay_rect \<times> u32) list" where
  "expand_active p active capacity arrays out_count =
     (if \<not> out_count \<or> (oh_target_count (ov_header p) \<noteq> 0 \<and> ov_targets p = None) \<or>
         (active \<noteq> OVERLAY_ACTIVE_TARGET_NONE \<and> active \<ge> oh_target_count (ov_header p))
      then (SACCADE_ERROR_INVALID_ARGUMENT, None, [])
      else if active = OVERLAY_ACTIVE_TARGET_NONE then (SACCADE_OK, Some 0, [])
      else if capacity < 1 then (SACCADE_ERROR_CAPACITY, Some 1, [])
      else if \<not> arrays then (SACCADE_ERROR_INVALID_ARGUMENT, Some 1, [])
      else let t = overlay_target_at p (unat active) in
        (SACCADE_OK, Some 1, [(q3_rect (ot_x_q3 t) (ot_y_q3 t) (ot_width_q3 t) (ot_height_q3 t),
           instance_meta_make active (ucast (ot_style_index t)) INSTANCE_ACTIVE)]))"

subsection \<open>The format\<close>

lemma get_put_small [simp]:
  "get_word (Suc 0) (put_word (Suc 0) (a :: u8) @ rest) = (a, rest)" "get_u128 (put_u128 g @ rest) = (g, rest)"
  by (simp_all add: get_put_word)

lemma put_get_overlay_header:
  assumes "overlay_header_size \<le> length bs"
  shows "put_overlay_header (fst (get_overlay_header bs)) = take overlay_header_size bs \<and>
    snd (get_overlay_header bs) = drop overlay_header_size bs"
proof -
  have l: "64 \<le> length bs" using assms by (simp add: overlay_header_size_def)
  have s: "snd (get_overlay_header bs) = drop 64 bs" by (simp add: get_overlay_header_def get_word_def)
  have len: "length (put_overlay_header h) = 64" for h by (simp add: put_overlay_header_def)
  have "put_overlay_header (fst (get_overlay_header bs)) @ drop 64 bs = drop 0 bs"
    using l by (simp add: get_overlay_header_def put_overlay_header_def get_word_def put_get_word put_get_word0 take_drop_append del: drop_0)
  then have "put_overlay_header (fst (get_overlay_header bs)) = take 64 bs" using l
    by (metis append_eq_conv_conj drop_0 len)
  then show ?thesis using s by (simp add: overlay_header_size_def)
qed

lemma put_get_overlay_target:
  assumes "overlay_target_size \<le> length bs"
  shows "put_overlay_target (fst (get_overlay_target bs)) = take overlay_target_size bs \<and>
    snd (get_overlay_target bs) = drop overlay_target_size bs"
proof -
  have l: "48 \<le> length bs" using assms by (simp add: overlay_target_size_def)
  have s: "snd (get_overlay_target bs) = drop 48 bs" by (simp add: get_overlay_target_def get_word_def)
  have len: "length (put_overlay_target h) = 48" for h by (simp add: put_overlay_target_def)
  have "put_overlay_target (fst (get_overlay_target bs)) @ drop 48 bs = drop 0 bs"
    using l by (simp add: get_overlay_target_def put_overlay_target_def get_word_def put_get_word put_get_word0 take_drop_append del: drop_0)
  then have "put_overlay_target (fst (get_overlay_target bs)) = take 48 bs" using l
    by (metis append_eq_conv_conj drop_0 len)
  then show ?thesis using s by (simp add: overlay_target_size_def)
qed

lemma put_get_overlay_style:
  assumes "overlay_style_size \<le> length bs"
  shows "put_overlay_style (fst (get_overlay_style bs)) = take overlay_style_size bs \<and>
    snd (get_overlay_style bs) = drop overlay_style_size bs"
proof -
  have l: "64 \<le> length bs" using assms by (simp add: overlay_style_size_def)
  have s: "snd (get_overlay_style bs) = drop 64 bs" by (simp add: get_overlay_style_def get_word_def)
  have len: "length (put_overlay_style h) = 64" for h by (simp add: put_overlay_style_def)
  have "put_overlay_style (fst (get_overlay_style bs)) @ drop 64 bs = drop 0 bs"
    using l by (simp add: get_overlay_style_def put_overlay_style_def get_word_def put_get_word put_get_word0 take_drop_append del: drop_0)
  then have "put_overlay_style (fst (get_overlay_style bs)) = take 64 bs" using l
    by (metis append_eq_conv_conj drop_0 len)
  then show ?thesis using s by (simp add: overlay_style_size_def)
qed

interpretation overlay_header_codec: record_codec put_overlay_header get_overlay_header overlay_header_size
  by unfold_locales (auto simp: put_get_overlay_header, simp_all add: put_overlay_header_def get_overlay_header_def overlay_header_size_def)

interpretation overlay_target_codec: record_codec put_overlay_target get_overlay_target overlay_target_size
  by unfold_locales (auto simp: put_get_overlay_target, simp_all add: put_overlay_target_def get_overlay_target_def overlay_target_size_def)

interpretation overlay_style_codec: record_codec put_overlay_style get_overlay_style overlay_style_size
  by unfold_locales (auto simp: put_get_overlay_style, simp_all add: put_overlay_style_def get_overlay_style_def overlay_style_size_def)

text \<open>The packet as one list of bytes, and what a packet must be.\<close>

definition view_targets :: "overlay_view \<Rightarrow> overlay_target list" where
  "view_targets v = (case ov_targets v of None \<Rightarrow> [] | Some ts \<Rightarrow> ts)"

definition view_styles :: "overlay_view \<Rightarrow> overlay_style list" where
  "view_styles v = (case ov_styles v of None \<Rightarrow> [] | Some ss \<Rightarrow> ss)"

definition put_overlay :: "overlay_view \<Rightarrow> u8 list" where
  "put_overlay v = put_overlay_header (ov_header v) @ concat (map put_overlay_target (view_targets v)) @
     concat (map put_overlay_style (view_styles v))"

definition overlay_wf :: "overlay_view \<Rightarrow> bool" where
  "overlay_wf v \<longleftrightarrow> (let h = ov_header v; ts = view_targets v; ss = view_styles v in
     overlay_header_valid h \<and> length ts = unat (oh_target_count h) \<and> length ss = unat (oh_style_count h) \<and>
     (ov_targets v = None) = (ts = []) \<and> (ov_styles v = None) = (ss = []) \<and>
     unat (oh_targets_offset h) = (if ts = [] then 0 else overlay_header_size) \<and>
     unat (oh_styles_offset h) = (if ts = [] then 0 else overlay_header_size + length ts * overlay_target_size) \<and>
     list_all overlay_style_valid ss \<and>
     list_all (\<lambda>t. unat (ot_style_index t) < length ss \<and> overlay_target_valid t (ss ! unat (ot_style_index t))) ts)"

lemma overlay_header_facts:
  assumes "overlay_header_valid h"
  shows "unat (oh_target_count h) \<le> 10000" "unat (oh_style_count h) \<le> 16" "oh_target_count h = 0 \<longleftrightarrow> oh_style_count h = 0"
  using assms by (auto simp: overlay_header_valid_def word_less_nat_alt not_less)

lemma overlay_sizes:
  assumes "overlay_header_valid h"
  shows "unat (expected_targets_offset h) = (if oh_target_count h = 0 then 0 else overlay_header_size)"
    "unat (expected_styles_offset h) = (if oh_target_count h = 0 then 0
       else overlay_header_size + unat (oh_target_count h) * overlay_target_size)"
    "unat (expected_packet_size h) = overlay_header_size + unat (oh_target_count h) * overlay_target_size +
       unat (oh_style_count h) * overlay_style_size"
proof -
  note f = overlay_header_facts [OF assms]
  have m: "unat (ucast (oh_target_count h) * 48 :: u64) = unat (oh_target_count h) * 48"
    "unat (ucast (oh_style_count h) * 64 :: u64) = unat (oh_style_count h) * 64"
    using f(1,2) by (subst unat_mult_lem [THEN iffD1]; simp)+
  have s: "unat (64 + ucast (oh_target_count h) * 48 :: u64) = 64 + unat (oh_target_count h) * 48"
    using m f(1) by (subst unat_add_lem [THEN iffD1]) simp_all
  have p: "unat (64 + ucast (oh_target_count h) * 48 + ucast (oh_style_count h) * 64 :: u64) =
      64 + unat (oh_target_count h) * 48 + unat (oh_style_count h) * 64"
    using s m f(1,2) by (subst unat_add_lem [THEN iffD1]) simp_all
  show "unat (expected_targets_offset h) = (if oh_target_count h = 0 then 0 else overlay_header_size)"
    by (simp add: expected_targets_offset_def overlay_header_size_def)
  show "unat (expected_styles_offset h) = (if oh_target_count h = 0 then 0
       else overlay_header_size + unat (oh_target_count h) * overlay_target_size)"
    using s by (simp add: expected_styles_offset_def expected_targets_offset_def overlay_header_size_def overlay_target_size_def)
  show "unat (expected_packet_size h) = overlay_header_size + unat (oh_target_count h) * overlay_target_size +
       unat (oh_style_count h) * overlay_style_size"
    using p f(3) by (cases "oh_target_count h = 0") (simp_all add: expected_packet_size_def expected_styles_offset_def expected_targets_offset_def
      overlay_header_size_def overlay_target_size_def overlay_style_size_def)
qed

lemma validate_overlay_sound:
  assumes "validate_overlay (Span bytes) True = (SACCADE_OK, Some v)"
  shows "overlay_wf v \<and> bytes = put_overlay v"
proof -
  obtain h rest where h: "get_overlay_header bytes = (h, rest)" by fastforce
  have long: "overlay_header_size \<le> length bytes" using assms by (auto simp: validate_overlay_def not_less split: if_splits)
  let ?n = "unat (oh_target_count h)" and ?m = "unat (oh_style_count h)"
  obtain ts r1 where t: "get_table get_overlay_target ?n rest = (ts, r1)" by fastforce
  obtain ss r2 where s: "get_table get_overlay_style ?m r1 = (ss, r2)" by fastforce
  have ok: "overlay_header_valid h" "oh_targets_offset h = expected_targets_offset h" "oh_styles_offset h = expected_styles_offset h"
    "unat (expected_packet_size h) = length bytes" "list_all overlay_style_valid ss"
    "list_all (\<lambda>t. ucast (ot_style_index t) < oh_style_count h \<and> overlay_target_valid t (ss ! unat (ot_style_index t))) ts"
    and v: "v = \<lparr>ov_header = h, ov_targets = (if oh_target_count h = 0 then None else Some ts),
                      ov_styles = (if oh_style_count h = 0 then None else Some ss)\<rparr>"
    using assms long unfolding validate_overlay_def by (auto simp: h t s split: if_splits)
  note z = overlay_sizes [OF ok(1)] and f = overlay_header_facts [OF ok(1)]
  have rest: "bytes = put_overlay_header h @ rest" "length rest = length bytes - overlay_header_size"
    using put_get_overlay_header [OF long] h by (auto simp: append_take_drop_id)
  have "?n * overlay_target_size \<le> length rest" using rest(2) ok(4) z(3) by simp
  from overlay_target_codec.put_get_table [OF this t] have ts: "length ts = ?n" "concat (map put_overlay_target ts) @ r1 = rest" by auto
  have "length rest = length (concat (map put_overlay_target ts)) + length r1" using ts(2) by (metis length_append)
  then have r1: "length r1 = ?m * overlay_style_size"
    using rest(2) ok(4) z(3) ts(1) overlay_target_codec.length_put_table [of ts] by simp
  then have "?m * overlay_style_size \<le> length r1" by simp
  from overlay_style_codec.put_get_table [OF this s] have ss: "length ss = ?m" "concat (map put_overlay_style ss) @ r2 = r1" by auto
  have "length r1 = length (concat (map put_overlay_style ss)) + length r2" using ss(2) by (metis length_append)
  then have "r2 = []" using r1 ss(1) overlay_style_codec.length_put_table [of ss] by simp
  moreover have "view_targets v = ts" "view_styles v = ss" using ts(1) ss(1) by (auto simp: v view_targets_def view_styles_def unat_eq_0)
  moreover have "list_all (\<lambda>t. unat (ot_style_index t) < length ss \<and> overlay_target_valid t (ss ! unat (ot_style_index t))) ts"
    using ok(6) ss(1) by (auto simp: list_all_iff word_less_nat_alt)
  ultimately show ?thesis
    using ok z f ts ss rest(1)
    by (auto simp: overlay_wf_def Let_def put_overlay_def v unat_eq_0)
qed

lemma validate_overlay_complete:
  assumes "overlay_wf v"
  shows "validate_overlay (Span (put_overlay v)) True = (SACCADE_OK, Some v)"
proof -
  let ?h = "ov_header v" and ?ts = "view_targets v" and ?ss = "view_styles v"
  have wf: "overlay_header_valid ?h" "length ?ts = unat (oh_target_count ?h)" "length ?ss = unat (oh_style_count ?h)"
     "(ov_targets v = None) = (?ts = [])" "(ov_styles v = None) = (?ss = [])"
     "unat (oh_targets_offset ?h) = (if ?ts = [] then 0 else overlay_header_size)"
     "unat (oh_styles_offset ?h) = (if ?ts = [] then 0 else overlay_header_size + length ?ts * overlay_target_size)"
     "list_all overlay_style_valid ?ss"
     "list_all (\<lambda>t. unat (ot_style_index t) < length ?ss \<and> overlay_target_valid t (?ss ! unat (ot_style_index t))) ?ts"
    using assms unfolding overlay_wf_def Let_def by blast+
  note z = overlay_sizes [OF wf(1)] and f = overlay_header_facts [OF wf(1)]
  have e: "?ts = [] \<longleftrightarrow> oh_target_count ?h = 0" "?ss = [] \<longleftrightarrow> oh_style_count ?h = 0"
    using wf(2,3) by (metis length_0_conv unat_eq_0)+
  have off: "oh_targets_offset ?h = expected_targets_offset ?h" "oh_styles_offset ?h = expected_styles_offset ?h"
    using wf(2,6,7) z(1,2) e(1) by (simp_all add: word_unat_eq_iff)
  have len: "length (put_overlay v) = unat (expected_packet_size ?h)"
    using wf(2,3) z(3) overlay_target_codec.length_put_table [of ?ts] overlay_style_codec.length_put_table [of ?ss]
      overlay_header_codec.length_put [of ?h] by (simp add: put_overlay_def)
  have g: "get_overlay_header (put_overlay v) = (?h, concat (map put_overlay_target ?ts) @ concat (map put_overlay_style ?ss))"
    unfolding put_overlay_def by (rule overlay_header_codec.get_put)
  have t: "get_table get_overlay_target (unat (oh_target_count ?h)) (concat (map put_overlay_target ?ts) @ concat (map put_overlay_style ?ss)) =
      (?ts, concat (map put_overlay_style ?ss))"
    unfolding wf(2) [symmetric] by (rule overlay_target_codec.get_put_table)
  have s: "get_table get_overlay_style (unat (oh_style_count ?h)) (concat (map put_overlay_style ?ss)) = (?ss, [])"
    using overlay_style_codec.get_put_table [of ?ss "[]"] unfolding wf(3) [symmetric] by simp
  have long: "\<not> length (put_overlay v) < overlay_header_size" using len z(3) by simp
  have tv: "list_all (\<lambda>t. ucast (ot_style_index t) < oh_style_count ?h \<and> overlay_target_valid t (?ss ! unat (ot_style_index t))) ?ts"
    using wf(9,3) by (auto simp: list_all_iff word_less_nat_alt)
  have v: "\<lparr>ov_header = ?h, ov_targets = (if oh_target_count ?h = 0 then None else Some ?ts),
                      ov_styles = (if oh_style_count ?h = 0 then None else Some ?ss)\<rparr> = v"
    using wf(4,5) e by (cases v) (auto simp: view_targets_def view_styles_def split: option.splits)
  show ?thesis unfolding validate_overlay_def using long wf(1) off len wf(8) tv by (simp add: g t s v)
qed

subsection \<open>The expanded rectangles\<close>

lemma masked_small: "unat (w :: u32) < 2 ^ k \<Longrightarrow> w AND mask k = w"
  by (rule bit_word_eqI) (auto simp: bit_simps dest: low_bits_small)

lemma shifted_back: "unat (w :: u32) < 2 ^ k \<Longrightarrow> k + n \<le> 32 \<Longrightarrow> drop_bit n (push_bit n w) = w"
  by (rule bit_word_eqI) (auto simp: bit_simps dest: low_bits_small)

lemma instance_meta:
  assumes "unat i < 2 ^ 14" "unat s < 2 ^ 4" "unat k < 2 ^ 3"
  shows "instance_meta_target (instance_meta_make i s k) = i" "instance_meta_style (instance_meta_make i s k) = s"
    "instance_meta_kind (instance_meta_make i s k) = k"
proof -
  have m: "META_TARGET_MASK = mask 14" "META_STYLE_MASK = push_bit 14 (mask 4)" "META_KIND_MASK = push_bit 18 (mask 3)"
    by (simp_all add: mask_eq_exp_minus_1)
  have parts: "i AND META_TARGET_MASK = i" "push_bit 14 s AND META_STYLE_MASK = push_bit 14 s" "push_bit 18 k AND META_KIND_MASK = push_bit 18 k"
    unfolding m push_bit_and [symmetric] using assms by (simp_all only: masked_small)
  have clear: "i AND META_STYLE_MASK = 0" "i AND META_KIND_MASK = 0"
    by (subst parts(1) [symmetric], simp add: and.assoc)+
  have clear': "push_bit 14 s AND META_TARGET_MASK = 0" "push_bit 14 s AND META_KIND_MASK = 0"
    "push_bit 18 k AND META_TARGET_MASK = 0" "push_bit 18 k AND META_STYLE_MASK = 0"
    by (subst parts(2) [symmetric] parts(3) [symmetric], simp add: and.assoc)+
  have made: "instance_meta_make i s k = i OR push_bit 14 s OR push_bit 18 k"
    by (simp only: instance_meta_make_def parts)
  show "instance_meta_target (instance_meta_make i s k) = i"
    unfolding made instance_meta_target_def by (simp only: bit.conj_disj_distrib2 parts clear' or.right_neutral)
  show "instance_meta_style (instance_meta_make i s k) = s"
    unfolding made instance_meta_style_def
    using shifted_back [OF assms(2), of 14] by (simp add: bit.conj_disj_distrib2 parts clear clear')
  show "instance_meta_kind (instance_meta_make i s k) = k"
    unfolding made instance_meta_kind_def
    using shifted_back [OF assms(3), of 18] by (simp add: bit.conj_disj_distrib2 parts clear clear')
qed

definition rect_covers :: "overlay_rect \<Rightarrow> nat \<Rightarrow> nat \<Rightarrow> bool" where
  "rect_covers r px py \<longleftrightarrow> unat (or_x_q3 r) \<le> px \<and> px < unat (or_x_q3 r) + unat (or_width_q3 r) \<and>
     unat (or_y_q3 r) \<le> py \<and> py < unat (or_y_q3 r) + unat (or_height_q3 r)"

definition target_covers :: "overlay_target \<Rightarrow> nat \<Rightarrow> nat \<Rightarrow> bool" where
  "target_covers t px py = rect_covers (q3_rect (ot_x_q3 t) (ot_y_q3 t) (ot_width_q3 t) (ot_height_q3 t)) px py"

text \<open>The inside of a target's frame: further than the stroke from each edge.\<close>

definition stroke_of :: "overlay_target \<Rightarrow> overlay_style \<Rightarrow> nat" where
  "stroke_of t s = min (unat (os_target_stroke_q3 s)) (min (unat (ot_width_q3 t) div 2) (unat (ot_height_q3 t) div 2))"

definition inner_covers :: "overlay_target \<Rightarrow> nat \<Rightarrow> nat \<Rightarrow> nat \<Rightarrow> bool" where
  "inner_covers t stroke px py \<longleftrightarrow> unat (ot_x_q3 t) + stroke \<le> px \<and> px + stroke < unat (ot_x_q3 t) + unat (ot_width_q3 t) \<and>
     unat (ot_y_q3 t) + stroke \<le> py \<and> py + stroke < unat (ot_y_q3 t) + unat (ot_height_q3 t)"

lemma fits_q3_nat: "fits_q3 a e \<longleftrightarrow> unat a + unat e \<le> 65535"
proof -
  have "(ucast a :: u32) \<le> 65535" using unat16_lt [of a] by (simp add: word_le_nat_alt less_Suc_eq_le del: unat16_lt)
  then have "unat (65535 - ucast a :: u32) = 65535 - unat a" by (simp add: unat_sub)
  moreover have "unat a \<le> 65535" using unat16_lt [of a] by linarith
  ultimately show ?thesis by (auto simp: fits_q3_def word_le_nat_alt)
qed

lemma valid_target_extent:
  assumes "overlay_target_valid t s" "overlay_style_valid s"
  shows "unat (ot_x_q3 t) + unat (ot_width_q3 t) \<le> 65535" "unat (ot_y_q3 t) + unat (ot_height_q3 t) \<le> 65535"
    "unat (ot_label_x_q3 t) + unat (label_width t s) \<le> 65535" "unat (ot_label_y_q3 t) + unat (os_label_height_q3 s) \<le> 65535"
    "0 < unat (label_width t s)" "0 < unat (os_label_height_q3 s)" "0 < stroke_of t s"
    "2 * stroke_of t s \<le> unat (ot_width_q3 t)" "2 * stroke_of t s \<le> unat (ot_height_q3 t)"
proof -
  have "2 \<le> unat (ot_width_q3 t)" "2 \<le> unat (ot_height_q3 t)" "0 < unat (os_target_stroke_q3 s)" "0 < unat (os_label_height_q3 s)"
    "0 < unat (label_width t s)"
    using assms by (auto simp: overlay_target_valid_def overlay_style_valid_def word_less_nat_alt not_less unat_gt_0 split: if_splits)
  then show "0 < unat (label_width t s)" "0 < unat (os_label_height_q3 s)" "0 < stroke_of t s"
    "2 * stroke_of t s \<le> unat (ot_width_q3 t)" "2 * stroke_of t s \<le> unat (ot_height_q3 t)"
    unfolding stroke_of_def by linarith+
  show "unat (ot_x_q3 t) + unat (ot_width_q3 t) \<le> 65535" "unat (ot_y_q3 t) + unat (ot_height_q3 t) \<le> 65535"
    "unat (ot_label_x_q3 t) + unat (label_width t s) \<le> 65535" "unat (ot_label_y_q3 t) + unat (os_label_height_q3 s) \<le> 65535"
    using assms(1) by (auto simp: overlay_target_valid_def fits_q3_nat split: if_splits)
qed

lemma unat_far_edge:
  assumes "unat (a :: u16) + unat w \<le> 65535" "st \<le> unat w" "unat s = st"
  shows "unat (a + w - s) = unat a + unat w - st"
proof -
  have "unat (a + w) = unat a + unat w" using assms(1) by (subst unat_add_lem [THEN iffD1]) simp_all
  moreover have "s \<le> a + w" using assms calculation by (simp add: word_le_nat_alt)
  ultimately show ?thesis using assms(3) by (simp add: unat_sub)
qed

lemma expand_target_frame:
  assumes "overlay_target_at p i = t" "overlay_style_at p (unat (ot_style_index t)) = s" "overlay_target_valid t s" "overlay_style_valid s"
    "i < 2 ^ 14" "unat (ot_style_index t) < 2 ^ 4"
  shows "\<exists>top_edge bottom left right label outline_meta label_meta.
    expand_target p i = [(top_edge, outline_meta), (bottom, outline_meta), (left, outline_meta), (right, outline_meta), (label, label_meta)] \<and>
    (\<forall>px py. list_ex (\<lambda>r. rect_covers r px py) [top_edge, bottom, left, right] =
       (target_covers t px py \<and> \<not> inner_covers t (stroke_of t s) px py)) \<and>
    label = q3_rect (ot_label_x_q3 t) (ot_label_y_q3 t) (or_width_q3 label) (os_label_height_q3 s) \<and>
    unat (or_width_q3 label) = 2 * unat (os_label_padding_x_q3 s) + unat (os_glyph_advance_q3 s) * unat (ot_glyph_count t) \<and>
    map (\<lambda>m. (instance_meta_target m, instance_meta_style m, instance_meta_kind m)) [outline_meta, label_meta] =
      [(word_of_nat i, ucast (ot_style_index t), INSTANCE_OUTLINE), (word_of_nat i, ucast (ot_style_index t), INSTANCE_LABEL)]"
proof -
  note ext = valid_target_extent [OF assms(3,4)]
  define st where "st = min (os_target_stroke_q3 s) (min (ot_width_q3 t div 2) (ot_height_q3 t div 2))"
  have st: "unat st = stroke_of t s" by (simp add: st_def stroke_of_def min_def word_le_nat_alt unat_div)
  have far: "unat (ot_y_q3 t + ot_height_q3 t - st) = unat (ot_y_q3 t) + unat (ot_height_q3 t) - stroke_of t s"
    "unat (ot_x_q3 t + ot_width_q3 t - st) = unat (ot_x_q3 t) + unat (ot_width_q3 t) - stroke_of t s"
    using ext st by (intro unat_far_edge; linarith)+
  have lw: "unat (label_width t s) = 2 * unat (os_label_padding_x_q3 s) + unat (os_glyph_advance_q3 s) * unat (ot_glyph_count t)"
  proof -
    have a: "unat (os_glyph_advance_q3 s) * unat (ot_glyph_count t) \<le> 65535 * 255"
      using unat16_lt [of "os_glyph_advance_q3 s"] unat8_lt [of "ot_glyph_count t"] by (intro mult_le_mono) linarith+
    have pad: "unat (os_label_padding_x_q3 s) \<le> 65535" using unat16_lt [of "os_label_padding_x_q3 s"] by linarith
    have "unat (ucast (os_glyph_advance_q3 s) * ucast (ot_glyph_count t) :: u32) = unat (os_glyph_advance_q3 s) * unat (ot_glyph_count t)"
      using a by (subst unat_mult_lem [THEN iffD1]) simp_all
    moreover have "unat (ucast (os_label_padding_x_q3 s) * 2 :: u32) = unat (os_label_padding_x_q3 s) * 2"
      using pad by (subst unat_mult_lem [THEN iffD1]) simp_all
    ultimately show ?thesis unfolding label_width_def
      using a pad by (subst unat_add_lem [THEN iffD1]) simp_all
  qed
  have ulw: "unat (ucast (label_width t s) :: u16) = unat (label_width t s)"
    using ext(3) by (simp add: unsigned_ucast_eq take_bit_eq_mod)
  have i: "unat (word_of_nat i :: u32) < 2 ^ 14" using assms(5) by (simp add: unat_of_nat)
  have si: "unat (ucast (ot_style_index t) :: u32) < 2 ^ 4" using assms(6) by simp
  note meta = instance_meta [OF i si]
  show ?thesis
    unfolding expand_target_def assms(1,2) Let_def st_def [symmetric]
  proof (intro exI conjI, rule refl, goal_cases)
    case 1
    show ?case
      using st far ext by (auto simp: rect_covers_def target_covers_def inner_covers_def q3_rect_def)
  next
    case 2
    show ?case by (simp add: q3_rect_def)
  next
    case 3
    show ?case using ulw lw by (simp add: q3_rect_def)
  next
    case 4
    show ?case using meta by simp
  qed
qed

lemma concat_block:
  assumes "\<And>x. x \<in> set xs \<Longrightarrow> length (f x) = k" "i < length xs"
  shows "take k (drop (k * i) (concat (map f xs))) = f (xs ! i)"
  using assms
proof (induction xs arbitrary: i)
  case (Cons x xs)
  show ?case
  proof (cases i)
    case 0
    then show ?thesis using Cons.prems(1) [of x] by simp
  next
    case (Suc j)
    then show ?thesis using Cons.prems Cons.IH [of j] by simp
  qed
qed simp

lemma validate_overlay_null: "snd (validate_overlay (Null_span n) b) = None"
  by (simp add: validate_overlay_def)

lemma validate_overlay_ok: "snd (validate_overlay span b) = Some v \<longleftrightarrow> validate_overlay span b = (SACCADE_OK, Some v)"
  by (auto simp: validate_overlay_def Let_def split: prod.split span_u8.split)

lemma validated_overlay:
  assumes "snd (validate_overlay span b) = Some v"
  shows "overlay_wf v"
proof (cases span)
  case (Span bytes)
  then have "b" using assms by (cases b) (simp_all add: validate_overlay_def)
  then show ?thesis using Span assms validate_overlay_sound [of bytes v] unfolding validate_overlay_ok by simp
qed (use assms validate_overlay_null in simp)

subsection \<open>Properties\<close>

text \<open>C21. The overlay reader accepts exactly the encodings of well-formed packets: the header's counts,
  strides and offsets are those of the two tables, the packet has no other bytes, every style is valid and
  every target is valid in its style. It delivers the packet that was written.\<close>

theorem overlay_exact:
  "(validate_overlay span out_view = (SACCADE_OK, Some v)) =
     (out_view \<and> overlay_wf v \<and> (case span of Null_span n \<Rightarrow> False | Span bytes \<Rightarrow> bytes = put_overlay v))"
proof (cases span)
  case (Null_span n)
  then show ?thesis by (simp add: validate_overlay_def)
next
  case (Span bytes)
  show ?thesis
  proof (cases out_view)
    case True
    then show ?thesis using Span validate_overlay_sound [of bytes v] validate_overlay_complete [of v] by auto
  next
    case False
    then show ?thesis using Span by (simp add: validate_overlay_def)
  qed
qed

text \<open>What the five instances of a target must be: four outline rectangles that cover exactly the frame, the
  points of the target not further than the stroke from every edge; the label's rectangle, as wide as its
  padding and glyphs, inside the 16-bit plane; metadata that name the target, its style and the kind.\<close>

definition instances_right :: "overlay_view \<Rightarrow> nat \<Rightarrow> (overlay_rect \<times> u32) list \<Rightarrow> bool" where
  "instances_right v i instances \<longleftrightarrow>
     (let t = view_targets v ! i; s = view_styles v ! unat (ot_style_index t);
          edges = map fst (take 4 instances); label = fst (instances ! 4)
      in (\<forall>px py. list_ex (\<lambda>e. rect_covers e px py) edges = (target_covers t px py \<and> \<not> inner_covers t (stroke_of t s) px py)) \<and>
         0 < stroke_of t s \<and> or_x_q3 label = ot_label_x_q3 t \<and> or_y_q3 label = ot_label_y_q3 t \<and>
         or_height_q3 label = os_label_height_q3 s \<and>
         unat (or_width_q3 label) = 2 * unat (os_label_padding_x_q3 s) + unat (os_glyph_advance_q3 s) * unat (ot_glyph_count t) \<and>
         unat (or_x_q3 label) + unat (or_width_q3 label) \<le> 65535 \<and> unat (or_y_q3 label) + unat (or_height_q3 label) \<le> 65535 \<and>
         map (\<lambda>(r, m). (instance_meta_target m, instance_meta_style m, instance_meta_kind m)) instances =
           replicate 4 (word_of_nat i, ucast (ot_style_index t), INSTANCE_OUTLINE) @
           [(word_of_nat i, ucast (ot_style_index t), INSTANCE_LABEL)])"

lemma expand_target_right:
  assumes "overlay_wf v" and i: "i < length (view_targets v)"
  shows "instances_right v i (expand_target v i)"
proof -
  let ?ts = "view_targets v" and ?ss = "view_styles v"
  have wf: "overlay_header_valid (ov_header v)" "length ?ts = unat (oh_target_count (ov_header v))"
    "length ?ss = unat (oh_style_count (ov_header v))" "list_all overlay_style_valid ?ss"
     "list_all (\<lambda>t. unat (ot_style_index t) < length ?ss \<and> overlay_target_valid t (?ss ! unat (ot_style_index t))) ?ts"
    using assms(1) unfolding overlay_wf_def Let_def by blast+
  note f = overlay_header_facts [OF wf(1)]
  define t where "t = ?ts ! i"
  define s where "s = ?ss ! unat (ot_style_index t)"
  have ti: "t \<in> set ?ts" using i by (simp add: t_def)
  have style: "unat (ot_style_index t) < length ?ss" "overlay_target_valid t s" using wf(5) ti by (auto simp: list_all_iff s_def)
  have sv: "overlay_style_valid s" using wf(4) style(1) by (simp add: list_all_length s_def)
  have at: "overlay_target_at v i = t" "overlay_style_at v (unat (ot_style_index t)) = s"
    using i style(1) by (auto simp: overlay_target_at_def overlay_style_at_def t_def s_def view_targets_def view_styles_def split: option.splits)
  have b: "i < 2 ^ 14" "unat (ot_style_index t) < 2 ^ 4" using i wf(2,3) f(1,2) style(1) by simp_all
  note ext = valid_target_extent [OF style(2) sv]
  obtain e1 e2 e3 e4 label om lm where x: "expand_target v i = [(e1, om), (e2, om), (e3, om), (e4, om), (label, lm)]"
    "\<forall>px py. list_ex (\<lambda>r. rect_covers r px py) [e1, e2, e3, e4] = (target_covers t px py \<and> \<not> inner_covers t (stroke_of t s) px py)"
    "unat (or_width_q3 label) = 2 * unat (os_label_padding_x_q3 s) + unat (os_glyph_advance_q3 s) * unat (ot_glyph_count t)"
    "map (\<lambda>m. (instance_meta_target m, instance_meta_style m, instance_meta_kind m)) [om, lm] =
      [(word_of_nat i, ucast (ot_style_index t), INSTANCE_OUTLINE), (word_of_nat i, ucast (ot_style_index t), INSTANCE_LABEL)]"
    using expand_target_frame [OF at style(2) sv b] by (elim exE conjE) (rule that)
  have "label = q3_rect (ot_label_x_q3 t) (ot_label_y_q3 t) (ucast (label_width t s)) (os_label_height_q3 s)"
    using x(1) at by (simp add: expand_target_def Let_def)
  then have place: "or_x_q3 label = ot_label_x_q3 t" "or_y_q3 label = ot_label_y_q3 t" "or_height_q3 label = os_label_height_q3 s"
    "unat (or_width_q3 label) = unat (label_width t s)"
    using ext(3) by (simp_all add: q3_rect_def unsigned_ucast_eq take_bit_eq_mod)
  have edges: "map fst (take 4 (expand_target v i)) = [e1, e2, e3, e4]" "fst (expand_target v i ! 4) = label"
    by (simp_all add: x(1) numeral_eq_Suc)
  have meta: "map (\<lambda>(r, m). (instance_meta_target m, instance_meta_style m, instance_meta_kind m)) (expand_target v i) =
      replicate 4 (word_of_nat i, ucast (ot_style_index t), INSTANCE_OUTLINE) @ [(word_of_nat i, ucast (ot_style_index t), INSTANCE_LABEL)]"
    using x(4) by (simp add: x(1) numeral_eq_Suc)
  show ?thesis
    unfolding instances_right_def t_def [symmetric] Let_def s_def [symmetric] edges
    using x(2,3) place ext(3,4,7) meta by simp
qed

text \<open>C38. Whatever packet the reader accepts, its expansion succeeds exactly when five instances per target fit,
  and then the instances of each target are right: the outline rectangles cover exactly its frame, the label has
  its place and extent without wrapping, and the metadata can be read back.\<close>

theorem overlay_expansion:
  "case snd (validate_overlay span True) of
     None \<Rightarrow> True
   | Some v \<Rightarrow>
       let n = length (view_targets v); (r, count, out) = expand_static v capacity True True in
       count = Some (5 * n) \<and>
       (if capacity < 5 * n then r = SACCADE_ERROR_CAPACITY \<and> out = []
        else r = SACCADE_OK \<and> length out = 5 * n \<and>
          list_all (\<lambda>i. instances_right v i (take 5 (drop (5 * i) out))) [0..<n])"
proof (cases "snd (validate_overlay span True)")
  case None
  then show ?thesis by simp
next
  case (Some v)
  let ?ts = "view_targets v" and ?h = "ov_header v"
  note wf = validated_overlay [OF Some]
  have w: "overlay_header_valid ?h" "length ?ts = unat (oh_target_count ?h)" "length (view_styles v) = unat (oh_style_count ?h)"
     "(ov_targets v = None) = (?ts = [])" "(ov_styles v = None) = (view_styles v = [])"
    using wf unfolding overlay_wf_def Let_def by blast+
  note f = overlay_header_facts [OF w(1)]
  have len: "length (expand_target v i) = 5" for i by (simp add: expand_target_def Let_def)
  have null: "oh_target_count ?h \<noteq> 0 \<Longrightarrow> ov_targets v \<noteq> None \<and> ov_styles v \<noteq> None"
    using w(2-5) f(3) by (metis list.size(3) unat_eq_0)
  have big: "\<not> oh_target_count ?h > OVERLAY_MAX_TARGETS" using w(1) by (simp add: overlay_header_valid_def)
  have run: "expand_static v capacity True True =
     (if capacity < 5 * length ?ts then (SACCADE_ERROR_CAPACITY, Some (5 * length ?ts), [])
      else (SACCADE_OK, Some (5 * length ?ts), concat (map (expand_target v) [0..<length ?ts])))"
    using null big unfolding expand_static_def w(2) by (auto simp: Let_def instances_per_target_def mult.commute)
  have total: "length (concat (map (expand_target v) [0..<length ?ts])) = 5 * length ?ts"
    by (simp add: length_concat comp_def len sum_list_triv)
  have "list_all (\<lambda>i. instances_right v i (take 5 (drop (5 * i) (concat (map (expand_target v) [0..<length ?ts]))))) [0..<length ?ts]"
    using concat_block [of "[0..<length ?ts]" "expand_target v" 5] len expand_target_right [OF wf] by (simp add: list_all_length)
  then show ?thesis using total by (simp add: Some run)
qed

end
