(* ===== verification/Overlay_Composer.thy ===== *)
theory Overlay_Composer
  imports Overlay_Packet Coordinate_Transform Hint_Session
begin

text \<open>
  The overlay composer, \<open>src/application/overlay_composer.{hpp,cpp}\<close>: for every target of a scene that meets
  a display, its rectangle on the surface, its style and its label, placed at the first of eight positions
  that neither covers the target's safe point nor meets a label placed before; the packet is checked by its
  own reader. Labels are found through buckets of grid cells, as large as the largest label of any style.

  The arithmetic on \<open>int32_t\<close> stays far inside 32 bits (surfaces have at most 65535 eighths, labels at most
  \<open>18 * 65535\<close>) and is written on \<open>int\<close>. A scene without targets has a null target pointer. The bytes of the
  output buffer are modelled when the composer succeeds; what a failed call leaves there is not.
\<close>

subsection \<open>Data\<close>

datatype label_placement = Place_automatic | Place_above | Place_below | Place_left | Place_right | Place_other u8

definition overlay_target_role_count :: u32 where "overlay_target_role_count = 11"
definition placement_bucket_mask :: u32 where "placement_bucket_mask = 32768 - 1"
definition empty_index :: u32 where "empty_index = uint32_max"

text \<open>A pointer with its count is an optional list; the role table is read below \<open>overlay_target_role_count\<close>.\<close>

record compose_config =
  cc_display_id :: u64
  cc_transform_epoch :: u64
  cc_active_target_id :: u64
  cc_desktop_to_surface :: "coordinate_transform option"
  cc_styles :: "overlay_style list option"
  cc_glyph_symbols :: "u16 list option"
  cc_placement :: label_placement
  cc_reserved :: "u8 list"
  cc_role_styles :: "nat \<Rightarrow> u8"

record placement_node =
  pn_next :: u32
  pn_cell_x :: int
  pn_cell_y :: int

text \<open>The bucket heads as a function of the masked bucket, the nodes written so far, and the index tables.\<close>

record compose_workspace =
  cw_heads :: "u32 \<Rightarrow> u32"
  cw_nodes :: "placement_node list"
  cw_overlay_index :: "u32 list"
  cw_scene_index :: "nat \<Rightarrow> u32"

record compose_result =
  cr_byte_size :: nat
  cr_target_count :: u32
  cr_labels_placed :: u32
  cr_active_target_index :: u32

record compose_stats =
  cs_targets_read :: u64
  cs_targets_filtered :: u64
  cs_targets_clipped :: u64
  cs_labels_tested :: u64
  cs_collision_tests :: u64
  cs_labels_repositioned :: u64
  cs_compose_failures :: u64
  cs_packets_composed :: u64

definition fresh_compose_stats :: compose_stats where
  "fresh_compose_stats = \<lparr>cs_targets_read = 0, cs_targets_filtered = 0, cs_targets_clipped = 0, cs_labels_tested = 0,
     cs_collision_tests = 0, cs_labels_repositioned = 0, cs_compose_failures = 0, cs_packets_composed = 0\<rparr>"

record rect_q3 =
  rq_x :: int
  rq_y :: int
  rq_width :: int
  rq_height :: int

subsection \<open>Geometry\<close>

text \<open>Signed division truncates towards zero.\<close>

definition trunc_div :: "int \<Rightarrow> int \<Rightarrow> int" where
  "trunc_div a b = (if a < 0 then - ((- a) div b) else a div b)"

definition floor_q3 :: "int \<Rightarrow> int" where "floor_q3 q8 = trunc_div q8 32"
definition ceil_q3 :: "int \<Rightarrow> int" where "ceil_q3 q8 = trunc_div (q8 + 32 - 1) 32"

definition placement_bucket :: "int \<Rightarrow> int \<Rightarrow> u32" where
  "placement_bucket cell_x cell_y =
     ((word_of_int cell_x * 0x8da6b343) XOR (word_of_int cell_y * 0xd8163841)) AND placement_bucket_mask"

definition rects_overlap :: "rect_q3 \<Rightarrow> rect_q3 \<Rightarrow> bool" where
  "rects_overlap left right \<longleftrightarrow> rq_x left < rq_x right + rq_width right \<and> rq_x right < rq_x left + rq_width left \<and>
     rq_y left < rq_y right + rq_height right \<and> rq_y right < rq_y left + rq_height left"

definition rect_contains_point :: "rect_q3 \<Rightarrow> point_q8 \<Rightarrow> bool" where
  "rect_contains_point rect point \<longleftrightarrow> (let x_q3 = trunc_div (sint (pt_x point)) 32; y_q3 = trunc_div (sint (pt_y point)) 32
     in x_q3 \<ge> rq_x rect \<and> x_q3 < rq_x rect + rq_width rect \<and> y_q3 \<ge> rq_y rect \<and> y_q3 < rq_y rect + rq_height rect)"

definition label_extent :: "overlay_style \<Rightarrow> int \<Rightarrow> int" where
  "label_extent s glyphs = uint (os_label_padding_x_q3 s) * 2 + uint (os_glyph_advance_q3 s) * glyphs"

definition label_rect :: "overlay_target \<Rightarrow> overlay_style \<Rightarrow> rect_q3" where
  "label_rect t s = \<lparr>rq_x = uint (ot_label_x_q3 t), rq_y = uint (ot_label_y_q3 t),
     rq_width = label_extent s (uint (ot_glyph_count t)), rq_height = uint (os_label_height_q3 s)\<rparr>"

definition clamp_origin :: "int \<Rightarrow> int \<Rightarrow> int \<Rightarrow> int" where
  "clamp_origin v extent limit = (if v < 0 then 0 else if limit - extent < v then limit - extent else v)"

subsection \<open>Collisions\<close>

text \<open>The walk along one bucket; \<open>None\<close> stands for a walk that does not end.\<close>

partial_function (option) walk_labels ::
  "overlay_target list \<Rightarrow> overlay_style list \<Rightarrow> placement_node list \<Rightarrow> rect_q3 \<Rightarrow> int \<Rightarrow> int \<Rightarrow> u32 \<Rightarrow> compose_stats \<Rightarrow>
     (bool \<times> compose_stats) option" where
  "walk_labels targets styles nodes candidate x y node_index stats =
     (if node_index = empty_index then Some (False, stats)
      else let node = nodes ! unat node_index in
        if pn_cell_x node = x \<and> pn_cell_y node = y then
          (let stats = stats\<lparr>cs_collision_tests := cs_collision_tests stats + 1\<rparr>; target = targets ! unat node_index
           in if rects_overlap candidate (label_rect target (styles ! unat (ot_style_index target))) then Some (True, stats)
              else walk_labels targets styles nodes candidate x y (pn_next node) stats)
        else walk_labels targets styles nodes candidate x y (pn_next node) stats)"

fun walk_label_cells ::
  "overlay_target list \<Rightarrow> overlay_style list \<Rightarrow> compose_workspace \<Rightarrow> rect_q3 \<Rightarrow> (int \<times> int) list \<Rightarrow> compose_stats \<Rightarrow>
     (bool \<times> compose_stats) option" where
  "walk_label_cells targets styles w candidate [] stats = Some (False, stats)"
| "walk_label_cells targets styles w candidate ((x, y) # cells) stats =
     (case walk_labels targets styles (cw_nodes w) candidate x y (cw_heads w (placement_bucket x y)) stats of
        None \<Rightarrow> None
      | Some (True, stats) \<Rightarrow> Some (True, stats)
      | Some (False, stats) \<Rightarrow> walk_label_cells targets styles w candidate cells stats)"

definition label_cell :: "rect_q3 \<Rightarrow> int \<Rightarrow> int \<Rightarrow> int \<times> int" where
  "label_cell label cell_width cell_height =
     (trunc_div (rq_x label + trunc_div (rq_width label) 2) cell_width,
      trunc_div (rq_y label + trunc_div (rq_height label) 2) cell_height)"

definition adjacent_cells :: "int \<Rightarrow> int \<Rightarrow> (int \<times> int) list" where
  "adjacent_cells cell_x cell_y = [(x, y). y \<leftarrow> [cell_y - 1..cell_y + 1], x \<leftarrow> [cell_x - 1..cell_x + 1]]"

definition label_collides ::
  "rect_q3 \<Rightarrow> int \<Rightarrow> int \<Rightarrow> overlay_target list \<Rightarrow> overlay_style list \<Rightarrow> compose_workspace \<Rightarrow> compose_stats \<Rightarrow>
     (bool \<times> compose_stats) option" where
  "label_collides candidate cell_width cell_height targets styles w stats =
     (let (cell_x, cell_y) = label_cell candidate cell_width cell_height
      in walk_label_cells targets styles w candidate (adjacent_cells cell_x cell_y) stats)"

definition insert_label :: "u32 \<Rightarrow> rect_q3 \<Rightarrow> int \<Rightarrow> int \<Rightarrow> compose_workspace \<Rightarrow> compose_workspace" where
  "insert_label target_index label cell_width cell_height w =
     (let (cell_x, cell_y) = label_cell label cell_width cell_height; bucket = placement_bucket cell_x cell_y
      in w\<lparr>cw_nodes := cw_nodes w @ [\<lparr>pn_next = cw_heads w bucket, pn_cell_x = cell_x, pn_cell_y = cell_y\<rparr>],
           cw_heads := (cw_heads w)(bucket := target_index)\<rparr>)"

subsection \<open>Placing a label\<close>

definition placement_candidates :: "overlay_target \<Rightarrow> overlay_style \<Rightarrow> int \<Rightarrow> int \<Rightarrow> (int \<times> int) list" where
  "placement_candidates target style width height =
     (let left = uint (ot_x_q3 target); right = left + uint (ot_width_q3 target);
          upper = uint (ot_y_q3 target); bottom = upper + uint (ot_height_q3 target);
          center = left + trunc_div (uint (ot_width_q3 target)) 2; gap = uint (os_target_stroke_q3 style);
          middle = center - trunc_div width 2
      in [(left, upper - gap - height), (middle, upper - gap - height),
          (right - width, upper - gap - height), (left, bottom + gap), (middle, bottom + gap),
          (right - width, bottom + gap), (left - gap - width, upper), (right + gap, upper)])"

text \<open>A placement outside the table is refused by \<open>config_valid\<close>.\<close>

fun placement_order :: "label_placement \<Rightarrow> nat list" where
  "placement_order Place_automatic = [0, 1, 2, 3, 4, 5, 6, 7]"
| "placement_order Place_above = [1, 0, 2, 4, 3, 5, 6, 7]"
| "placement_order Place_below = [4, 3, 5, 1, 0, 2, 6, 7]"
| "placement_order Place_left = [6, 0, 3, 1, 4, 2, 5, 7]"
| "placement_order Place_right = [7, 2, 5, 1, 4, 0, 3, 6]"
| "placement_order (Place_other _) = undefined"

fun try_placements ::
  "(rect_q3 \<Rightarrow> compose_stats \<Rightarrow> (bool \<times> compose_stats) option) \<Rightarrow> point_q8 \<Rightarrow> (nat \<Rightarrow> rect_q3) \<Rightarrow> nat \<Rightarrow> nat list \<Rightarrow> compose_stats \<Rightarrow>
     (rect_q3 option \<times> compose_stats) option" where
  "try_placements collides safe_point candidate attempt [] stats = Some (None, stats)"
| "try_placements collides safe_point candidate attempt (index # order) stats =
     (let stats = stats\<lparr>cs_labels_tested := cs_labels_tested stats + 1\<rparr> in
      if rect_contains_point (candidate index) safe_point
      then try_placements collides safe_point candidate (Suc attempt) order stats
      else case collides (candidate index) stats of
             None \<Rightarrow> None
           | Some (True, stats) \<Rightarrow> try_placements collides safe_point candidate (Suc attempt) order stats
           | Some (False, stats) \<Rightarrow>
               Some (Some (candidate index),
                     stats\<lparr>cs_labels_repositioned := cs_labels_repositioned stats + (if attempt \<noteq> 0 then 1 else 0)\<rparr>))"

text \<open>The target with its label, or \<open>None\<close> when no position is free.\<close>

definition place_label ::
  "overlay_target \<Rightarrow> overlay_style \<Rightarrow> point_q8 \<Rightarrow> int \<Rightarrow> int \<Rightarrow> int \<Rightarrow> int \<Rightarrow> overlay_target list \<Rightarrow> overlay_style list \<Rightarrow>
     label_placement \<Rightarrow> compose_workspace \<Rightarrow> compose_stats \<Rightarrow> (overlay_target option \<times> compose_stats) option" where
  "place_label target style safe_point surface_width surface_height cell_width cell_height targets styles placement w stats =
     (let width = label_extent style (uint (ot_glyph_count target)); height = uint (os_label_height_q3 style)
      in if width > surface_width \<or> height > surface_height then Some (None, stats)
         else let candidates = placement_candidates target style width height;
                  candidate = (\<lambda>index. \<lparr>rq_x = clamp_origin (fst (candidates ! index)) width surface_width,
                    rq_y = clamp_origin (snd (candidates ! index)) height surface_height,
                    rq_width = width, rq_height = height\<rparr>)
              in case try_placements (\<lambda>c. label_collides c cell_width cell_height targets styles w) safe_point candidate 0
                        (placement_order placement) stats of
                   None \<Rightarrow> None
                 | Some (None, stats) \<Rightarrow> Some (None, stats)
                 | Some (Some c, stats) \<Rightarrow>
                     Some (Some (target\<lparr>ot_label_x_q3 := word_of_int (rq_x c), ot_label_y_q3 := word_of_int (rq_y c)\<rparr>), stats))"

subsection \<open>Composing\<close>

definition canonical_glyph :: "u16 \<Rightarrow> u16" where
  "canonical_glyph symbol = (if symbol \<ge> 97 \<and> symbol \<le> 122 then symbol - 32 else symbol)"

definition glyph_index :: "u16 list \<Rightarrow> u16 \<Rightarrow> u8 option" where
  "glyph_index glyph_symbols symbol =
     map_option word_of_nat (first_index (\<lambda>candidate. canonical_glyph candidate = canonical_glyph symbol) glyph_symbols)"

text \<open>The glyph array, its first entry in the lowest byte.\<close>

fun glyph_indices :: "u16 list \<Rightarrow> u16 list \<Rightarrow> u8 list option" where
  "glyph_indices glyph_symbols [] = Some []"
| "glyph_indices glyph_symbols (symbol # symbols) =
     (case glyph_index glyph_symbols symbol of None \<Rightarrow> None
      | Some g \<Rightarrow> map_option ((#) g) (glyph_indices glyph_symbols symbols))"

fun glyph_array :: "u8 list \<Rightarrow> 128 word" where
  "glyph_array [] = 0"
| "glyph_array (g # gs) = ucast g OR push_bit 8 (glyph_array gs)"

definition style_usable :: "overlay_style \<Rightarrow> bool" where
  "style_usable s \<longleftrightarrow> os_target_stroke_q3 s \<noteq> 0 \<and> os_label_height_q3 s \<noteq> 0 \<and> os_glyph_width_q3 s \<noteq> 0 \<and>
     os_glyph_height_q3 s \<noteq> 0 \<and> os_glyph_advance_q3 s \<ge> os_glyph_width_q3 s \<and>
     os_label_height_q3 s \<ge> os_glyph_height_q3 s \<and> os_active_stroke_q3 s \<noteq> 0 \<and> os_reserved16 s = 0 \<and>
     os_flags s AND NOT OVERLAY_STYLE_ANIMATED = 0 \<and> os_reserved32 s = 0 \<and> os_reserved_0 s = 0 \<and> os_reserved_1 s = 0"

definition compose_config_valid :: "packet_view \<Rightarrow> compose_config \<Rightarrow> bool" where
  "compose_config_valid scene config \<longleftrightarrow>
     (case (cc_desktop_to_surface config, cc_styles config, cc_glyph_symbols config) of
        (Some t, Some styles, Some symbols) \<Rightarrow>
          \<not> (pv_targets scene = [] \<or> ph_coordinate_space (pv_header scene) \<noteq> SPACE_DESKTOP_Q8 \<or> cc_display_id config = 0 \<or>
             cc_transform_epoch config = 0 \<or> styles = [] \<or> length styles > unat OVERLAY_MAX_STYLES \<or> symbols = [] \<or>
             length symbols > 32 \<or> (case cc_placement config of Place_other p \<Rightarrow> True | _ \<Rightarrow> False) \<or>
             \<not> list_all (\<lambda>r. r = 0) (cc_reserved config) \<or> \<not> ct_valid t) \<and>
          \<not> (td_epoch (ct_desc t) \<noteq> cc_transform_epoch config \<or> td_source_space (ct_desc t) \<noteq> Space_desktop \<or>
             td_destination_space (ct_desc t) \<noteq> Space_surface \<or> rc_x (td_destination (ct_desc t)) \<noteq> 0 \<or>
             rc_y (td_destination (ct_desc t)) \<noteq> 0) \<and>
          list_all style_usable styles \<and>
          list_all (\<lambda>role. unat (cc_role_styles config role) < length styles) [0..<unat overlay_target_role_count]
      | _ \<Rightarrow> False)"

text \<open>The table from scene indices to labels; \<open>None\<close> when an index is out of range or taken.\<close>

fun index_labels :: "hint_label list \<Rightarrow> hint_label option list \<Rightarrow> hint_label option list option" where
  "index_labels [] table = Some table"
| "index_labels (l # ls) table =
     (let i = unat (hl_target_index l)
      in if i \<ge> length table \<or> table ! i \<noteq> None then None else index_labels ls (table[i := Some l]))"

text \<open>The state of the loop over the scene: the written targets, the workspace, the statistics and the active index.\<close>

record compose_state =
  co_targets :: "overlay_target list"
  co_workspace :: compose_workspace
  co_stats :: compose_stats
  co_active :: u32

abbreviation count_failure :: "compose_stats \<Rightarrow> compose_stats" where
  "count_failure s \<equiv> s\<lparr>cs_compose_failures := cs_compose_failures s + 1\<rparr>"

definition overlay_size :: "nat \<Rightarrow> nat \<Rightarrow> nat" where
  "overlay_size targets styles = overlay_header_size + targets * overlay_target_size + styles * overlay_style_size"

definition make_overlay_target :: "compose_config \<Rightarrow> target_record \<Rightarrow> int \<Rightarrow> int \<Rightarrow> int \<Rightarrow> int \<Rightarrow> u8 list \<Rightarrow> overlay_target" where
  "make_overlay_target config source x y right bottom glyphs =
     \<lparr>ot_target_id = tr_target_id source, ot_x_q3 = word_of_int x, ot_y_q3 = word_of_int y,
      ot_width_q3 = word_of_int (right - x), ot_height_q3 = word_of_int (bottom - y), ot_label_x_q3 = 0, ot_label_y_q3 = 0,
      ot_confidence_q16 = ucast (min (tr_confidence_q16 source) 65535), ot_glyphs = glyph_array glyphs,
      ot_style_index = cc_role_styles config (unat (min (ucast (tr_role source)) (overlay_target_role_count - 1))),
      ot_glyph_count = word_of_nat (length glyphs), ot_flags = 0, ot_reserved = 0, ot_padding = 0\<rparr>"

text \<open>One target of the scene, in three parts; the result is \<open>SACCADE_OK\<close> when the loop goes on. Last part: placing the
  label and writing the target.\<close>

definition write_overlay_target ::
  "compose_config \<Rightarrow> overlay_style list \<Rightarrow> nat \<Rightarrow> int \<Rightarrow> int \<Rightarrow> int \<Rightarrow> int \<Rightarrow> nat \<Rightarrow> overlay_target \<Rightarrow> point_q8 \<Rightarrow> compose_state \<Rightarrow>
     (saccade_result \<times> compose_state) option" where
  "write_overlay_target config styles output_size surface_width surface_height cell_width cell_height scene_index target safe c =
     (let style = styles ! unat (ot_style_index target); written = length (co_targets c) in
      case place_label target style safe surface_width surface_height cell_width cell_height (co_targets c) styles
             (cc_placement config) (co_workspace c) (co_stats c) of
        None \<Rightarrow> None
      | Some (placed, stats) \<Rightarrow>
          (case placed of
             None \<Rightarrow> Some (SACCADE_ERROR_BUSY, c\<lparr>co_stats := count_failure stats\<rparr>)
           | Some target \<Rightarrow>
               if output_size < overlay_size (written + 1) (length styles) then Some (SACCADE_ERROR_CAPACITY, c\<lparr>co_stats := stats\<rparr>)
               else let w = insert_label (word_of_nat written) (label_rect target style) cell_width cell_height (co_workspace c)
                 in Some (SACCADE_OK, c\<lparr>co_targets := co_targets c @ [target],
                      co_workspace := w\<lparr>cw_overlay_index := (cw_overlay_index w)[scene_index := word_of_nat written],
                        cw_scene_index := (cw_scene_index w)(written := word_of_nat scene_index)\<rparr>, co_stats := stats,
                      co_active := (if ot_target_id target = cc_active_target_id config then word_of_nat written else co_active c)\<rparr>)))"

text \<open>Middle part: the label and its glyphs.\<close>

definition compose_labeled ::
  "compose_config \<Rightarrow> overlay_style list \<Rightarrow> u16 list \<Rightarrow> nat \<Rightarrow> int \<Rightarrow> int \<Rightarrow> int \<Rightarrow> int \<Rightarrow> nat \<Rightarrow> target_record \<Rightarrow> hint_label option \<Rightarrow>
     int \<Rightarrow> int \<Rightarrow> int \<Rightarrow> int \<Rightarrow> point_q8 \<Rightarrow> compose_state \<Rightarrow> (saccade_result \<times> compose_state) option" where
  "compose_labeled config styles symbols output_size surface_width surface_height cell_width cell_height scene_index source label
       x y right bottom safe c =
     (case label of
        None \<Rightarrow> Some (SACCADE_ERROR_CAPACITY, c\<lparr>co_stats := count_failure (co_stats c)\<rparr>)
      | Some l \<Rightarrow>
          if hl_target_id l \<noteq> tr_target_id source \<or> hl_symbols l = [] \<or> length (hl_symbols l) > OVERLAY_GLYPHS_PER_TARGET
          then Some (SACCADE_ERROR_CAPACITY, c\<lparr>co_stats := count_failure (co_stats c)\<rparr>)
          else (case glyph_indices symbols (hl_symbols l) of
              None \<Rightarrow> Some (SACCADE_ERROR_UNSUPPORTED, c\<lparr>co_stats := count_failure (co_stats c)\<rparr>)
            | Some glyphs \<Rightarrow>
                write_overlay_target config styles output_size surface_width surface_height cell_width cell_height scene_index
                  (make_overlay_target config source x y right bottom glyphs) safe c))"

text \<open>The safe point on the surface, or the middle of the mapped rectangle.\<close>

definition surface_safe_point :: "coordinate_transform \<Rightarrow> target_record \<Rightarrow> rect_q8 \<Rightarrow> point_q8" where
  "surface_safe_point transform source mapped =
     (case map_point transform \<lparr>pt_x = tr_safe_x_q8 source, pt_y = tr_safe_y_q8 source\<rparr> True of
        (SACCADE_OK, Some p) \<Rightarrow> p
      | _ \<Rightarrow> \<lparr>pt_x = word_of_int (sint (rc_x mapped) + trunc_div (sint (rc_width mapped)) 2),
              pt_y = word_of_int (sint (rc_y mapped) + trunc_div (sint (rc_height mapped)) 2)\<rparr>)"

text \<open>First part: the display filter and the mapped rectangle.\<close>

definition target_rect :: "target_record \<Rightarrow> rect_q8" where
  "target_rect t = \<lparr>rc_x = tr_x_q8 t, rc_y = tr_y_q8 t, rc_width = tr_width_q8 t, rc_height = tr_height_q8 t\<rparr>"

definition compose_target ::
  "compose_config \<Rightarrow> coordinate_transform \<Rightarrow> overlay_style list \<Rightarrow> u16 list \<Rightarrow> nat \<Rightarrow> int \<Rightarrow> int \<Rightarrow> int \<Rightarrow> int \<Rightarrow> nat \<Rightarrow>
     target_record \<Rightarrow> hint_label option \<Rightarrow> compose_state \<Rightarrow> (saccade_result \<times> compose_state) option" where
  "compose_target config transform styles symbols output_size surface_width surface_height cell_width cell_height scene_index source label c =
     (let c = c\<lparr>co_stats := (co_stats c)\<lparr>cs_targets_read := cs_targets_read (co_stats c) + 1\<rparr>\<rparr>;
          filtered = c\<lparr>co_stats := (co_stats c)\<lparr>cs_targets_filtered := cs_targets_filtered (co_stats c) + 1\<rparr>\<rparr> in
      if tr_display_id source \<noteq> 0 \<and> tr_display_id source \<noteq> cc_display_id config then Some (SACCADE_OK, filtered)
      else let (mapped_result, out) = map_rect_clipped transform (target_rect source) True in
        if mapped_result = SACCADE_ERROR_NOT_FOUND then Some (SACCADE_OK, filtered)
        else case out of
            None \<Rightarrow> Some (mapped_result, c\<lparr>co_stats := count_failure (co_stats c)\<rparr>)
          | Some mapped \<Rightarrow>
              let x = floor_q3 (sint (rc_x mapped)); y = floor_q3 (sint (rc_y mapped));
                  right = ceil_q3 (sint (rc_x mapped) + sint (rc_width mapped));
                  bottom = ceil_q3 (sint (rc_y mapped) + sint (rc_height mapped)) in
              if right - x < 2 \<or> bottom - y < 2
              then Some (SACCADE_OK, c\<lparr>co_stats := (co_stats c)\<lparr>cs_targets_clipped := cs_targets_clipped (co_stats c) + 1\<rparr>\<rparr>)
              else compose_labeled config styles symbols output_size surface_width surface_height cell_width cell_height scene_index
                     source label x y right bottom (surface_safe_point transform source mapped) c)"

fun compose_targets ::
  "(nat \<Rightarrow> target_record \<Rightarrow> hint_label option \<Rightarrow> compose_state \<Rightarrow> (saccade_result \<times> compose_state) option) \<Rightarrow> nat \<Rightarrow>
     (target_record \<times> hint_label option) list \<Rightarrow> compose_state \<Rightarrow> (saccade_result \<times> compose_state) option" where
  "compose_targets one scene_index [] c = Some (SACCADE_OK, c)"
| "compose_targets one scene_index ((source, label) # sources) c =
     (case one scene_index source label c of
        Some (SACCADE_OK, c) \<Rightarrow> compose_targets one (Suc scene_index) sources c
      | stopped \<Rightarrow> stopped)"

definition composed_header :: "compose_config \<Rightarrow> packet_view \<Rightarrow> overlay_target list \<Rightarrow> overlay_style list \<Rightarrow> overlay_header" where
  "composed_header config scene targets styles = (let written = length targets in
     \<lparr>oh_struct_size = word_of_nat overlay_header_size, oh_packet_version = OVERLAY_PACKET_VERSION,
      oh_target_count = word_of_nat written, oh_target_stride = word_of_nat overlay_target_size,
      oh_style_count = (if written = 0 then 0 else word_of_nat (length styles)), oh_style_stride = word_of_nat overlay_style_size,
      oh_reserved32 = 0, oh_flags = 0, oh_scene_epoch = ph_scene_epoch (pv_header scene),
      oh_transform_epoch = cc_transform_epoch config, oh_targets_offset = (if written = 0 then 0 else word_of_nat overlay_header_size),
      oh_styles_offset = (if written = 0 then 0 else word_of_nat (overlay_header_size + written * overlay_target_size))\<rparr>)"

definition cell_extents :: "overlay_style list \<Rightarrow> int \<times> int" where
  "cell_extents styles = foldl (\<lambda>(w, h) s. (max w (label_extent s 16), max h (uint (os_label_height_q3 s)))) (1, 1) styles"

text \<open>The workspace is reset before the loop; the arrays that are not are arguments.\<close>

definition reset_workspace :: "compose_workspace \<Rightarrow> compose_workspace" where
  "reset_workspace w = w\<lparr>cw_heads := (\<lambda>bucket. empty_index), cw_nodes := [],
     cw_overlay_index := replicate (unat TARGET_PACKET_MAX_TARGETS) empty_index\<rparr>"

text \<open>The result, the statistics, and for a success the bytes, the result record and the workspace. The final check of the
  packet by its reader is the last step.\<close>

definition overlay_compose ::
  "packet_view option \<Rightarrow> hint_label list option \<Rightarrow> compose_config \<Rightarrow> compose_workspace option \<Rightarrow> nat option \<Rightarrow> bool \<Rightarrow> compose_stats \<Rightarrow>
     (saccade_result \<times> compose_stats \<times> (u8 list \<times> compose_result \<times> compose_workspace) option) option" where
  "overlay_compose scene labels config workspace output_size out_result stats =
     (case (scene, labels, workspace, output_size, cc_desktop_to_surface config, cc_styles config, cc_glyph_symbols config) of
        (Some scene, Some labels, Some w, Some output_size, Some transform, Some styles, Some symbols) \<Rightarrow>
          if \<not> out_result \<or> \<not> compose_config_valid scene config \<or> length labels \<noteq> length (pv_targets scene)
          then Some (SACCADE_ERROR_INVALID_ARGUMENT, stats, None)
          else if output_size < overlay_header_size then Some (SACCADE_ERROR_CAPACITY, stats, None)
          else (case index_labels labels (replicate (length labels) None) of
              None \<Rightarrow> Some (SACCADE_ERROR_INVALID_ARGUMENT, count_failure stats, None)
            | Some table \<Rightarrow>
                let surface_width = ceil_q3 (sint (rc_width (td_destination (ct_desc transform))));
                    surface_height = ceil_q3 (sint (rc_height (td_destination (ct_desc transform))))
                in if surface_width > 65535 \<or> surface_height > 65535
                   then Some (SACCADE_ERROR_UNSUPPORTED, count_failure stats, None)
                   else let (cell_width, cell_height) = cell_extents styles in
                     (case compose_targets (compose_target config transform styles symbols output_size surface_width surface_height
                             cell_width cell_height) 0 (zip (pv_targets scene) table)
                             \<lparr>co_targets = [], co_workspace = reset_workspace w, co_stats = stats, co_active = OVERLAY_ACTIVE_TARGET_NONE\<rparr> of
                        None \<Rightarrow> None
                      | Some (SACCADE_OK, c) \<Rightarrow>
                          let targets = co_targets c;
                              bytes = put_overlay_header (composed_header config scene targets styles) @
                                concat (map put_overlay_target targets) @
                                (if targets = [] then [] else concat (map put_overlay_style styles))
                          in (case validate_overlay (Span bytes) True of
                                (SACCADE_OK, _) \<Rightarrow>
                                  Some (SACCADE_OK, (co_stats c)\<lparr>cs_packets_composed := cs_packets_composed (co_stats c) + 1\<rparr>,
                                    Some (bytes, \<lparr>cr_byte_size = length bytes, cr_target_count = word_of_nat (length targets),
                                      cr_labels_placed = word_of_nat (length targets), cr_active_target_index = co_active c\<rparr>, co_workspace c))
                              | (validation, _) \<Rightarrow> Some (validation, count_failure (co_stats c), None))
                      | Some (result, c) \<Rightarrow> Some (result, co_stats c, None)))
      | _ \<Rightarrow> Some (SACCADE_ERROR_INVALID_ARGUMENT, stats, None))"

subsection \<open>The buckets\<close>

abbreviation label_of :: "overlay_style list \<Rightarrow> overlay_target \<Rightarrow> rect_q3" where
  "label_of styles t \<equiv> label_rect t (styles ! unat (ot_style_index t))"

lemma trunc_div_pos [simp]: "0 \<le> a \<Longrightarrow> trunc_div a b = a div b"
  by (simp add: trunc_div_def)

text \<open>The bucket's chain lists the nodes of the bucket, the newest first.\<close>

inductive label_chain :: "placement_node list \<Rightarrow> u32 \<Rightarrow> nat list \<Rightarrow> bool" for nodes where
  chain_stop: "label_chain nodes empty_index []"
| chain_next: "i < length nodes \<Longrightarrow> unat h = i \<Longrightarrow> h \<noteq> empty_index \<Longrightarrow> label_chain nodes (pn_next (nodes ! i)) ix \<Longrightarrow>
     label_chain nodes h (i # ix)"

lemma label_chain_more: "label_chain nodes h ix \<Longrightarrow> label_chain (nodes @ extra) h ix"
  by (induction rule: label_chain.induct) (auto intro: label_chain.intros simp: nth_append)

definition label_bucket :: "placement_node \<Rightarrow> u32" where
  "label_bucket n = placement_bucket (pn_cell_x n) (pn_cell_y n)"

definition bucket_labels :: "placement_node list \<Rightarrow> u32 \<Rightarrow> nat list" where
  "bucket_labels nodes b = rev (filter (\<lambda>i. label_bucket (nodes ! i) = b) [0..<length nodes])"

definition buckets_inv :: "int \<Rightarrow> int \<Rightarrow> rect_q3 list \<Rightarrow> compose_workspace \<Rightarrow> bool" where
  "buckets_inv cw ch ls w \<longleftrightarrow> length ls \<le> 10000 \<and>
     map (\<lambda>n. (pn_cell_x n, pn_cell_y n)) (cw_nodes w) = map (\<lambda>l. label_cell l cw ch) ls \<and>
     (\<forall>b. label_chain (cw_nodes w) (cw_heads w b) (bucket_labels (cw_nodes w) b))"

lemma buckets_inv_start: "buckets_inv cw ch [] (reset_workspace w)"
  by (simp add: buckets_inv_def reset_workspace_def bucket_labels_def chain_stop)

lemma buckets_inv_indices [simp]:
  "buckets_inv cw ch ls (w\<lparr>cw_overlay_index := a, cw_scene_index := b\<rparr>) = buckets_inv cw ch ls w"
  by (simp add: buckets_inv_def)

lemma buckets_inv_insert:
  assumes "buckets_inv cw ch ls w" "length ls < 10000"
  shows "buckets_inv cw ch (ls @ [l]) (insert_label (word_of_nat (length ls)) l cw ch w)"
proof -
  obtain cx cy where c: "label_cell l cw ch = (cx, cy)" by fastforce
  let ?n = "length (cw_nodes w)" and ?b = "placement_bucket cx cy"
  let ?node = "\<lparr>pn_next = cw_heads w ?b, pn_cell_x = cx, pn_cell_y = cy\<rparr>"
  have inv: "map (\<lambda>n. (pn_cell_x n, pn_cell_y n)) (cw_nodes w) = map (\<lambda>l. label_cell l cw ch) ls"
     "label_chain (cw_nodes w) (cw_heads w b) (bucket_labels (cw_nodes w) b)" for b
    using assms(1) by (simp_all add: buckets_inv_def)
  have n: "?n = length ls" using arg_cong [OF inv(1), of length] by simp
  have u: "unat (word_of_nat ?n :: u32) = ?n" using n assms(2) by (simp add: unat_of_nat)
  have ne: "word_of_nat ?n \<noteq> empty_index"
  proof
    assume "word_of_nat ?n = empty_index"
    then have "?n = 4294967295" using u unfolding empty_index_def by simp
    then show False using n assms(2) by simp
  qed
  have old: "filter (\<lambda>i. label_bucket ((cw_nodes w @ [?node]) ! i) = b) [0..<?n] =
      filter (\<lambda>i. label_bucket (cw_nodes w ! i) = b) [0..<?n]" for b
    by (rule filter_cong) (auto simp: nth_append)
  have bn: "bucket_labels (cw_nodes w @ [?node]) b = (if b = ?b then [?n] else []) @ bucket_labels (cw_nodes w) b" for b
    unfolding bucket_labels_def using old by (auto simp: label_bucket_def)
  have "label_chain (cw_nodes w @ [?node]) (word_of_nat ?n) (?n # bucket_labels (cw_nodes w) ?b)"
    using u ne label_chain_more [OF inv(2)] by (intro chain_next) simp_all
  then have "label_chain (cw_nodes w @ [?node]) (((cw_heads w)(?b := word_of_nat ?n)) b) (bucket_labels (cw_nodes w @ [?node]) b)" for b
    using label_chain_more [OF inv(2) [of b]] by (simp add: bn)
  then show ?thesis using assms inv(1) n by (simp add: buckets_inv_def insert_label_def c Let_def)
qed

text \<open>The walks end, and find an overlapping label of the cells exactly if there is one.\<close>

lemma walk_labels_chain:
  assumes "label_chain nodes h ix"
  shows "\<exists>s. walk_labels ts styles nodes c x y h stats =
    Some (list_ex (\<lambda>i. (pn_cell_x (nodes ! i), pn_cell_y (nodes ! i)) = (x, y) \<and> rects_overlap c (label_of styles (ts ! i))) ix, s)"
  using assms
proof (induction arbitrary: stats rule: label_chain.induct)
  case chain_stop
  then show ?case by (simp add: walk_labels.simps)
next
  case (chain_next i h ix)
  then show ?case by (subst walk_labels.simps) (auto simp: Let_def)
qed

lemma walk_label_cells_exact:
  assumes "buckets_inv cw ch (map (label_of styles) ts) w"
  shows "\<exists>s. walk_label_cells ts styles w c cells stats =
    Some (list_ex (\<lambda>t. label_cell (label_of styles t) cw ch \<in> set cells \<and> rects_overlap c (label_of styles t)) ts, s)"
proof (induction cells arbitrary: stats)
  case Nil
  then show ?case by (simp add: list_ex_iff)
next
  case (Cons cell cells)
  obtain x y where cell: "cell = (x, y)" by fastforce
  let ?nodes = "cw_nodes w" and ?ix = "bucket_labels (cw_nodes w) (placement_bucket x y)"
  let ?hit = "\<lambda>i. (pn_cell_x (?nodes ! i), pn_cell_y (?nodes ! i)) = (x, y) \<and> rects_overlap c (label_of styles (ts ! i))"
  have inv: "map (\<lambda>n. (pn_cell_x n, pn_cell_y n)) ?nodes = map (\<lambda>t. label_cell (label_of styles t) cw ch) ts"
     "label_chain ?nodes (cw_heads w (placement_bucket x y)) ?ix"
    using assms by (simp_all add: buckets_inv_def)
  have len: "length ?nodes = length ts" using arg_cong [OF inv(1), of length] by simp
  have at: "(pn_cell_x (?nodes ! i), pn_cell_y (?nodes ! i)) = label_cell (label_of styles (ts ! i)) cw ch" if "i < length ts" for i
    using arg_cong [OF inv(1), of "\<lambda>l. l ! i"] that len by simp
  have "list_ex ?hit ?ix \<longleftrightarrow> (\<exists>i < length ts. ?hit i)"
    by (auto simp: list_ex_iff bucket_labels_def label_bucket_def len)
  also have "\<dots> \<longleftrightarrow> list_ex (\<lambda>t. label_cell (label_of styles t) cw ch = (x, y) \<and> rects_overlap c (label_of styles t)) ts"
    using at unfolding list_ex_length by (metis (lifting))
  finally have hit: "list_ex ?hit ?ix \<longleftrightarrow>
      list_ex (\<lambda>t. label_cell (label_of styles t) cw ch = (x, y) \<and> rects_overlap c (label_of styles t)) ts" .
  obtain s where s: "walk_labels ts styles ?nodes c x y (cw_heads w (placement_bucket x y)) stats = Some (list_ex ?hit ?ix, s)"
    using walk_labels_chain [OF inv(2)] by blast
  obtain s' where s': "walk_label_cells ts styles w c cells s =
      Some (list_ex (\<lambda>t. label_cell (label_of styles t) cw ch \<in> set cells \<and> rects_overlap c (label_of styles t)) ts, s')"
    using Cons.IH by blast
  show ?case
  proof (cases "list_ex ?hit ?ix")
    case True
    then show ?thesis using s hit by (auto simp: cell list_ex_iff)
  next
    case False
    then have "walk_label_cells ts styles w c ((x, y) # cells) stats = walk_label_cells ts styles w c cells s"
      using s by simp
    then show ?thesis using s' False hit by (auto simp: cell list_ex_iff)
  qed
qed

text \<open>Overlapping labels have their centres in neighbouring cells.\<close>

lemma cells_close:
  assumes "0 \<le> (x1 :: int)" "0 \<le> x2" "1 \<le> w1" "w1 \<le> W" "1 \<le> w2" "w2 \<le> W" "x1 < x2 + w2" "x2 < x1 + w1"
  shows "(x1 + w1 div 2) div W \<in> {(x2 + w2 div 2) div W - 1..(x2 + w2 div 2) div W + 1}"
proof -
  have b: "x1 + w1 div 2 \<le> x2 + w2 div 2 + W" "x2 + w2 div 2 \<le> x1 + w1 div 2 + W" using assms by linarith+
  have "0 < W" using assms by linarith
  then have "(x1 + w1 div 2) div W \<le> (x2 + w2 div 2 + W) div W" "(x2 + w2 div 2) div W \<le> (x1 + w1 div 2 + W) div W"
    using b by (simp_all only: zdiv_mono1)
  then show ?thesis using div_add_self2 [of W "x2 + w2 div 2"] div_add_self2 [of W "x1 + w1 div 2"] \<open>0 < W\<close> by auto
qed

lemma adjacent_cells_iff [simp]:
  "(x', y') \<in> set (adjacent_cells x y) \<longleftrightarrow> x' \<in> {x - 1..x + 1} \<and> y' \<in> {y - 1..y + 1}"
proof -
  have "set (adjacent_cells x y) = (\<Union>y' \<in> {y - 1..y + 1}. (\<lambda>x'. (x', y')) ` {x - 1..x + 1})"
    by (simp add: adjacent_cells_def)
  then show ?thesis by blast
qed

definition label_fits :: "int \<Rightarrow> int \<Rightarrow> rect_q3 \<Rightarrow> bool" where
  "label_fits cw ch l \<longleftrightarrow> 0 \<le> rq_x l \<and> 0 \<le> rq_y l \<and> 1 \<le> rq_width l \<and> rq_width l \<le> cw \<and> 1 \<le> rq_height l \<and> rq_height l \<le> ch"

lemma overlap_cells:
  assumes "label_fits cw ch a" "label_fits cw ch b" "rects_overlap a b" "label_cell a cw ch = (x, y)"
  shows "label_cell b cw ch \<in> set (adjacent_cells x y)"
proof -
  have o: "rq_x b < rq_x a + rq_width a" "rq_x a < rq_x b + rq_width b" "rq_y b < rq_y a + rq_height a" "rq_y a < rq_y b + rq_height b"
    using assms(3) by (simp_all add: rects_overlap_def)
  have "(rq_x b + rq_width b div 2) div cw \<in> {x - 1..x + 1}" "(rq_y b + rq_height b div 2) div ch \<in> {y - 1..y + 1}"
    using cells_close [of "rq_x b" "rq_x a" "rq_width b" cw "rq_width a"] cells_close [of "rq_y b" "rq_y a" "rq_height b" ch "rq_height a"]
      assms(1,2,4) o by (simp_all add: label_fits_def label_cell_def)
  then show ?thesis using assms(1,2) by (simp add: label_fits_def label_cell_def)
qed

lemma label_collides_exact:
  assumes "buckets_inv cw ch (map (label_of styles) ts) w" "label_fits cw ch c" "list_all (\<lambda>t. label_fits cw ch (label_of styles t)) ts"
  shows "\<exists>s. label_collides c cw ch ts styles w stats = Some (list_ex (\<lambda>t. rects_overlap c (label_of styles t)) ts, s)"
proof -
  obtain x y where xy: "label_cell c cw ch = (x, y)" by fastforce
  let ?cells = "adjacent_cells x y"
  have "label_cell (label_of styles t) cw ch \<in> set ?cells" if "t \<in> set ts" "rects_overlap c (label_of styles t)" for t
    using overlap_cells [OF assms(2) _ that(2) xy] assms(3) that(1) by (simp add: list_all_iff)
  then have "list_ex (\<lambda>t. label_cell (label_of styles t) cw ch \<in> set ?cells \<and> rects_overlap c (label_of styles t)) ts =
      list_ex (\<lambda>t. rects_overlap c (label_of styles t)) ts" unfolding list_ex_iff by blast
  then show ?thesis using walk_label_cells_exact [OF assms(1), of c ?cells stats] by (simp add: label_collides_def xy)
qed


subsection \<open>Placing one label\<close>

lemma try_placements_find:
  assumes "\<And>i stats. i \<in> set order \<Longrightarrow> \<exists>s. collides (candidate i) stats = Some (P (candidate i), s)"
  shows "\<exists>s. try_placements collides safe_point candidate k order stats =
    Some (map_option candidate (List.find (\<lambda>i. \<not> rect_contains_point (candidate i) safe_point \<and> \<not> P (candidate i)) order), s)"
  using assms
proof (induction order arbitrary: k stats)
  case Nil
  then show ?case by simp
next
  case (Cons i order)
  let ?s0 = "stats\<lparr>cs_labels_tested := cs_labels_tested stats + 1\<rparr>"
  obtain s where s: "collides (candidate i) ?s0 = Some (P (candidate i), s)" using Cons.prems [of i ?s0] by auto
  have "\<exists>s'. try_placements collides safe_point candidate (Suc k) order st =
    Some (map_option candidate (List.find (\<lambda>i. \<not> rect_contains_point (candidate i) safe_point \<and> \<not> P (candidate i)) order), s')" for st
    by (rule Cons.IH) (use Cons.prems in simp)
  then show ?case using s by (cases "P (candidate i)") (auto simp: Let_def)
qed

lemma clamp_origin_bounds: "e \<le> limit \<Longrightarrow> 0 \<le> clamp_origin v e limit \<and> clamp_origin v e limit + e \<le> limit"
  by (simp add: clamp_origin_def)

lemma uint16_word_of_int [simp]: "0 \<le> x \<Longrightarrow> x \<le> 65535 \<Longrightarrow> uint (word_of_int x :: u16) = x"
  by (simp add: unsigned_of_int take_bit_int_eq_self)

lemma uint16_bounds [simp]: "0 \<le> uint (w :: u16)" "uint (w :: u16) \<le> 65535"
  using unsigned_less [of w, where 'a = int] by simp_all

lemma uint8_bounds [simp]: "0 \<le> uint (w :: u8)" "uint (w :: u8) \<le> 255"
  using unsigned_less [of w, where 'a = int] by simp_all

lemma uint_u16_pos: "w \<noteq> 0 \<Longrightarrow> 1 \<le> uint (w :: u16)"
proof -
  assume "w \<noteq> 0"
  then have "uint w \<noteq> 0" by (simp add: word_uint_eq_iff)
  then show "1 \<le> uint w" using uint16_bounds(1) [of w] by linarith
qed

lemma label_extent_nonneg: "0 \<le> g \<Longrightarrow> 0 \<le> label_extent s g"
  by (simp add: label_extent_def)

lemma label_extent_pos: "overlay_style_valid s \<Longrightarrow> 1 \<le> g \<Longrightarrow> 1 \<le> label_extent s g"
proof -
  assume v: "overlay_style_valid s" and g: "1 \<le> g"
  then have "os_glyph_advance_q3 s \<noteq> 0" by (auto simp: overlay_style_valid_def word_le_nat_alt unat_eq_0)
  then have "1 \<le> uint (os_glyph_advance_q3 s)" by (rule uint_u16_pos)
  then have "1 * 1 \<le> uint (os_glyph_advance_q3 s) * g" using g by (intro mult_mono) simp_all
  then show ?thesis using uint16_bounds(1) [of "os_label_padding_x_q3 s"] unfolding label_extent_def by linarith
qed

text \<open>What a placed label satisfies: inside the surface, off the safe point, apart from the labels before.\<close>

definition in_surface :: "int \<Rightarrow> int \<Rightarrow> rect_q3 \<Rightarrow> bool" where
  "in_surface sw sh l \<longleftrightarrow> 0 \<le> rq_x l \<and> rq_x l + rq_width l \<le> sw \<and> 0 \<le> rq_y l \<and> rq_y l + rq_height l \<le> sh"

text \<open>The first of the eight positions, moved onto the surface and taken in the order of the placement, that
  keeps off the safe point and off the labels placed so far.\<close>

definition label_position :: "overlay_target \<Rightarrow> overlay_style \<Rightarrow> int \<Rightarrow> int \<Rightarrow> nat \<Rightarrow> rect_q3" where
  "label_position t style sw sh i =
     (let width = label_extent style (uint (ot_glyph_count t)); height = uint (os_label_height_q3 style);
          (x, y) = placement_candidates t style width height ! i
      in \<lparr>rq_x = clamp_origin x width sw, rq_y = clamp_origin y height sh, rq_width = width, rq_height = height\<rparr>)"

definition free_position ::
  "overlay_target \<Rightarrow> overlay_style \<Rightarrow> point_q8 \<Rightarrow> int \<Rightarrow> int \<Rightarrow> rect_q3 list \<Rightarrow> label_placement \<Rightarrow> rect_q3 option" where
  "free_position t style safe sw sh taken placement =
     (if label_extent style (uint (ot_glyph_count t)) > sw \<or> uint (os_label_height_q3 style) > sh then None
      else List.find (\<lambda>r. \<not> rect_contains_point r safe \<and> \<not> list_ex (rects_overlap r) taken)
        (map (label_position t style sw sh) (placement_order placement)))"

abbreviation put_label :: "overlay_target \<Rightarrow> rect_q3 \<Rightarrow> overlay_target" where
  "put_label t r \<equiv> t\<lparr>ot_label_x_q3 := word_of_int (rq_x r), ot_label_y_q3 := word_of_int (rq_y r)\<rparr>"

lemma find_mapped: "List.find P (map f xs) = map_option f (List.find (\<lambda>x. P (f x)) xs)"
  by (induction xs) simp_all

lemma place_label_exact:
  assumes "buckets_inv cw ch (map (label_of styles) ts) w" "list_all (\<lambda>t. label_fits cw ch (label_of styles t)) ts"
    and "1 \<le> label_extent style (uint (ot_glyph_count t))" "label_extent style (uint (ot_glyph_count t)) \<le> cw"
    and "os_label_height_q3 style \<noteq> 0" "uint (os_label_height_q3 style) \<le> ch"
  shows "\<exists>s. place_label t style safe_point sw sh cw ch ts styles placement w stats =
    Some (map_option (put_label t) (free_position t style safe_point sw sh (map (label_of styles) ts) placement), s)"
proof (cases "label_extent style (uint (ot_glyph_count t)) > sw \<or> uint (os_label_height_q3 style) > sh")
  case True
  then show ?thesis by (simp add: place_label_def free_position_def Let_def)
next
  case False
  let ?w = "label_extent style (uint (ot_glyph_count t))" and ?h = "uint (os_label_height_q3 style)"
  let ?c = "label_position t style sw sh"
  let ?P = "\<lambda>c. list_ex (\<lambda>t. rects_overlap c (label_of styles t)) ts"
  have at: "(\<lambda>index. \<lparr>rq_x = clamp_origin (fst (placement_candidates t style ?w ?h ! index)) ?w sw,
      rq_y = clamp_origin (snd (placement_candidates t style ?w ?h ! index)) ?h sh, rq_width = ?w, rq_height = ?h\<rparr>) = ?c"
    by (simp add: fun_eq_iff label_position_def Let_def split_beta)
  have h: "1 \<le> ?h" using assms(5) by (rule uint_u16_pos)
  have fits: "label_fits cw ch (?c i)" for i
    using clamp_origin_bounds [of ?w sw] clamp_origin_bounds [of ?h sh] False assms(3,4,6) h
    by (simp add: label_fits_def label_position_def Let_def split_beta)
  have col: "\<exists>s. label_collides (?c i) cw ch ts styles w stats = Some (?P (?c i), s)" for i stats
    by (rule label_collides_exact [OF assms(1) fits assms(2)])
  define f where "f = List.find (\<lambda>i. \<not> rect_contains_point (?c i) safe_point \<and> \<not> ?P (?c i)) (placement_order placement)"
  obtain s where s: "try_placements (\<lambda>c. label_collides c cw ch ts styles w) safe_point ?c 0 (placement_order placement) stats =
      Some (map_option ?c f, s)"
    unfolding f_def
    using try_placements_find [of "placement_order placement" "\<lambda>c. label_collides c cw ch ts styles w" ?c ?P safe_point 0 stats, OF col] by blast
  have "list_ex (rects_overlap r) (map (label_of styles) ts) = ?P r" for r by (simp add: list_ex_iff)
  then have free: "free_position t style safe_point sw sh (map (label_of styles) ts) placement = map_option ?c f"
    unfolding free_position_def if_not_P [OF False] find_mapped f_def by simp
  show ?thesis unfolding place_label_def Let_def if_not_P [OF False] at s free by (cases f) simp_all
qed

lemma place_label_result:
  assumes "buckets_inv cw ch (map (label_of styles) ts) w" "list_all (\<lambda>t. label_fits cw ch (label_of styles t)) ts"
    and "1 \<le> label_extent style (uint (ot_glyph_count t))" "label_extent style (uint (ot_glyph_count t)) \<le> cw"
    and "os_label_height_q3 style \<noteq> 0" "uint (os_label_height_q3 style) \<le> ch" "sw \<le> 65535" "sh \<le> 65535"
  obtains r s where "place_label t style safe_point sw sh cw ch ts styles placement w stats = Some (r, s)"
    "\<And>p. r = Some p \<Longrightarrow> p = t\<lparr>ot_label_x_q3 := ot_label_x_q3 p, ot_label_y_q3 := ot_label_y_q3 p\<rparr> \<and>
       in_surface sw sh (label_rect p style) \<and> label_fits cw ch (label_rect p style) \<and>
       \<not> rect_contains_point (label_rect p style) safe_point \<and>
       list_all (\<lambda>q. \<not> rects_overlap (label_rect p style) (label_of styles q)) ts"
proof -
  let ?w = "label_extent style (uint (ot_glyph_count t))" and ?h = "uint (os_label_height_q3 style)"
  obtain s where placed: "place_label t style safe_point sw sh cw ch ts styles placement w stats =
    Some (map_option (put_label t) (free_position t style safe_point sw sh (map (label_of styles) ts) placement), s)"
    using place_label_exact [OF assms(1-6)] by blast
  show ?thesis
  proof (rule that [OF placed])
    fix p assume "map_option (put_label t) (free_position t style safe_point sw sh (map (label_of styles) ts) placement) = Some p"
    then obtain c where c: "free_position t style safe_point sw sh (map (label_of styles) ts) placement = Some c" and p: "p = put_label t c"
      by blast
    have small: "?w \<le> sw" "?h \<le> sh" and found: "\<not> rect_contains_point c safe_point \<and> \<not> list_ex (rects_overlap c) (map (label_of styles) ts)"
      and pos: "\<exists>i. c = label_position t style sw sh i"
      using c find_Some_iff_hd by (fastforce simp: free_position_def find_mapped split: if_splits)+
    obtain i where i: "c = label_position t style sw sh i" using pos by blast
    obtain x y where xy: "c = \<lparr>rq_x = clamp_origin x ?w sw, rq_y = clamp_origin y ?h sh, rq_width = ?w, rq_height = ?h\<rparr>"
      using i by (simp add: label_position_def Let_def split_beta)
    have h: "1 \<le> ?h" using assms(5) by (rule uint_u16_pos)
    note clamp = clamp_origin_bounds [OF small(1), of x] clamp_origin_bounds [OF small(2), of y]
    have in16: "0 \<le> rq_x c" "rq_x c \<le> 65535" "0 \<le> rq_y c" "rq_y c \<le> 65535"
      using clamp assms(3,7,8) h by (simp_all add: xy)
    have rect: "label_rect p style = c" using in16 unfolding p by (simp add: label_rect_def) (simp add: xy)
    have "in_surface sw sh c" "label_fits cw ch c" using clamp assms(3,4,6) h by (simp_all add: xy in_surface_def label_fits_def)
    moreover have "list_all (\<lambda>q. \<not> rects_overlap c (label_of styles q)) ts" using found by (simp add: list_ex_iff list_all_iff)
    moreover have "p = t\<lparr>ot_label_x_q3 := ot_label_x_q3 p, ot_label_y_q3 := ot_label_y_q3 p\<rparr>" by (simp add: p)
    ultimately show "p = t\<lparr>ot_label_x_q3 := ot_label_x_q3 p, ot_label_y_q3 := ot_label_y_q3 p\<rparr> \<and>
       in_surface sw sh (label_rect p style) \<and> label_fits cw ch (label_rect p style) \<and>
       \<not> rect_contains_point (label_rect p style) safe_point \<and>
       list_all (\<lambda>q. \<not> rects_overlap (label_rect p style) (label_of styles q)) ts"
      using found unfolding rect by blast
  qed
qed

subsection \<open>Glyphs\<close>

lemma glyph_array_bit:
  "bit (glyph_array gs) n \<longleftrightarrow> n < 128 \<and> n div 8 < length gs \<and> bit (gs ! (n div 8)) (n mod 8)"
proof (induction gs arbitrary: n)
  case Nil
  then show ?case by simp
next
  case (Cons g gs)
  show ?case
  proof (cases "n < 8")
    case True
    then show ?thesis by (auto simp: bit_simps)
  next
    case False
    then have "n div 8 = Suc ((n - 8) div 8)" "n mod 8 = (n - 8) mod 8"
      using le_div_geq [of 8 n] le_mod_geq [of 8 n] by simp_all
    moreover have "\<not> bit g n" using False bit_imp_le_length [of g n] by auto
    ultimately show ?thesis using False Cons.IH [of "n - 8"] by (auto simp: bit_simps)
  qed
qed

lemma target_glyph_array:
  assumes "ot_glyphs t = glyph_array gs" "i < length gs" "length gs \<le> 16"
  shows "target_glyph t i = gs ! i"
proof (rule bit_word_eqI)
  fix n assume "n < LENGTH(8)"
  then have n: "n < 8" by simp
  then have "8 * i + n < 128" "(8 * i + n) div 8 = i" "(8 * i + n) mod 8 = n" using assms(2,3) by simp_all
  then show "bit (target_glyph t i) n = bit (gs ! i) n"
    using assms n by (simp add: target_glyph_def bit_simps glyph_array_bit)
qed

lemma glyph_indices_facts:
  "glyph_indices symbols ls = Some gs \<Longrightarrow> length gs = length ls \<and> (length symbols \<le> 32 \<longrightarrow> list_all (\<lambda>g. unat g < 32) gs)"
proof (induction ls arbitrary: gs)
  case Nil
  then show ?case by simp
next
  case (Cons l ls)
  then obtain g gs' where g: "glyph_index symbols l = Some g" "glyph_indices symbols ls = Some gs'" "gs = g # gs'"
    by (auto split: option.splits)
  obtain k where k: "first_index (\<lambda>c. canonical_glyph c = canonical_glyph l) symbols = Some k" "g = word_of_nat k"
    using g(1) by (auto simp: glyph_index_def)
  then have "k < length symbols" using first_index_Some by blast
  then show ?case using Cons.IH [OF g(2)] g(3) k(2) by (auto simp: unat_of_nat)
qed


subsection \<open>The loop over the scene\<close>

text \<open>An overlay target shows a scene target: its identifier, the eighths its mapped rectangle touches, the glyphs
  of its label, and a label that does not cover its safe point.\<close>

definition shows_target ::
  "coordinate_transform \<Rightarrow> overlay_style list \<Rightarrow> u16 list \<Rightarrow> target_record \<Rightarrow> hint_label \<Rightarrow> overlay_target \<Rightarrow> bool" where
  "shows_target transform styles symbols source l t \<longleftrightarrow>
     ot_target_id t = tr_target_id source \<and> hl_target_id l = tr_target_id source \<and>
     (case map_rect_clipped transform (target_rect source) True of
        (SACCADE_OK, Some r) \<Rightarrow>
          uint (ot_x_q3 t) = sint (rc_x r) div 32 \<and>
          uint (ot_x_q3 t) + uint (ot_width_q3 t) = (sint (rc_x r) + sint (rc_width r) + 31) div 32 \<and>
          uint (ot_y_q3 t) = sint (rc_y r) div 32 \<and>
          uint (ot_y_q3 t) + uint (ot_height_q3 t) = (sint (rc_y r) + sint (rc_height r) + 31) div 32
      | _ \<Rightarrow> False) \<and>
     glyph_indices symbols (hl_symbols l) = Some (map (target_glyph t) [0..<unat (ot_glyph_count t)]) \<and>
     (case map_point transform \<lparr>pt_x = tr_safe_x_q8 source, pt_y = tr_safe_y_q8 source\<rparr> True of
        (SACCADE_OK, Some p) \<Rightarrow> \<not> rect_contains_point (label_of styles t) p
      | _ \<Rightarrow> True)"

definition placed_ok :: "overlay_style list \<Rightarrow> int \<Rightarrow> int \<Rightarrow> overlay_target \<Rightarrow> bool" where
  "placed_ok styles sw sh t \<longleftrightarrow> unat (ot_style_index t) < length styles \<and>
     overlay_target_valid t (styles ! unat (ot_style_index t)) \<and> in_surface sw sh (label_of styles t)"

definition labels_apart :: "overlay_style list \<Rightarrow> overlay_target list \<Rightarrow> bool" where
  "labels_apart styles ts \<longleftrightarrow> sorted_wrt (\<lambda>a b. \<not> rects_overlap (label_of styles a) (label_of styles b)) ts"

text \<open>The targets written so far show scene targets, in scene order; the tables lead from one to the other.\<close>

definition shown ::
  "coordinate_transform \<Rightarrow> overlay_style list \<Rightarrow> u16 list \<Rightarrow> (target_record \<times> hint_label option) list \<Rightarrow> nat list \<Rightarrow> overlay_target list \<Rightarrow> bool" where
  "shown transform styles symbols sources is ts \<longleftrightarrow> sorted_wrt (<) is \<and> list_all (\<lambda>i. i < length sources) is \<and>
     list_all2 (\<lambda>i t. case sources ! i of (source, label) \<Rightarrow> (case label of None \<Rightarrow> False
        | Some l \<Rightarrow> shows_target transform styles symbols source l t)) is ts"

definition compose_env ::
  "compose_config \<Rightarrow> transform_desc \<Rightarrow> coordinate_transform \<Rightarrow> overlay_style list \<Rightarrow> u16 list \<Rightarrow> int \<Rightarrow> int \<Rightarrow> int \<Rightarrow> int \<Rightarrow> bool" where
  "compose_env config desc t0 styles symbols sw sh cw ch \<longleftrightarrow> list_all overlay_style_valid styles \<and>
     list_all (\<lambda>s. label_extent s 16 \<le> cw \<and> uint (os_label_height_q3 s) \<le> ch) styles \<and> length symbols \<le> 32 \<and>
     list_all (\<lambda>role. unat (cc_role_styles config role) < length styles) [0..<11] \<and> fst (transform_initialize desc t0) = SACCADE_OK \<and>
     rc_x (td_destination desc) = 0 \<and> rc_y (td_destination desc) = 0 \<and>
     sw = ceil_q3 (sint (rc_width (td_destination desc))) \<and> sh = ceil_q3 (sint (rc_height (td_destination desc))) \<and>
     sw \<le> 65535 \<and> sh \<le> 65535"

lemma uint_widen [simp]: "uint (ucast (h :: u16) :: u32) = uint h" "uint (ucast (b :: u8) :: u32) = uint b"
proof -
  have "uint h < 4294967296" "uint b < 4294967296" using uint16_bounds(2) [of h] uint8_bounds(2) [of b] by linarith+
  then show "uint (ucast h :: u32) = uint h" "uint (ucast b :: u32) = uint b"
    by (simp_all add: unsigned_ucast_eq take_bit_int_eq_self)
qed

lemma int_unat_uint: "int (unat w) = uint w"
  by simp

lemma uint_label_width: "uint (label_width t s) = label_extent s (uint (ot_glyph_count t))"
proof -
  let ?p = "uint (os_label_padding_x_q3 s)" and ?a = "uint (os_glyph_advance_q3 s) * uint (ot_glyph_count t)"
  have "?a \<le> 65535 * 255" by (intro mult_mono) simp_all
  moreover have "0 \<le> ?a" by simp
  moreover have "0 \<le> ?p" "?p \<le> 65535" by simp_all
  ultimately have "0 \<le> ?p * 2 + ?a" "?p * 2 + ?a < 4294967296" by linarith+
  then show ?thesis
    by (simp add: label_width_def label_extent_def uint_word_ariths mod_mult_right_eq mod_add_eq)
qed

lemma label_extent_mono: "g \<le> g' \<Longrightarrow> label_extent s g \<le> label_extent s g'"
  by (simp add: label_extent_def mult_left_mono)

text \<open>The eighths a mapped rectangle touches are on the surface.\<close>

lemma mapped_eighths:
  assumes "fst (transform_initialize desc t0) = SACCADE_OK" "rc_x (td_destination desc) = 0" "rc_y (td_destination desc) = 0"
    "map_rect_clipped (snd (transform_initialize desc t0)) source True = (SACCADE_OK, Some r)"
  shows "0 \<le> sint (rc_x r)" "0 < sint (rc_width r)" "sint (rc_x r) + sint (rc_width r) \<le> sint (rc_width (td_destination desc))"
    "0 \<le> sint (rc_y r)" "0 < sint (rc_height r)" "sint (rc_y r) + sint (rc_height r) \<le> sint (rc_height (td_destination desc))"
proof -
  have c: "rect_contains (td_destination desc) r" using clipped_inside [of desc t0 source] assms(4) by simp
  obtain R B where o: "rect_edges (td_destination desc) = Some (R, B)" using c by (auto simp: rect_contains_def split: option.splits)
  obtain R' B' where i: "rect_edges r = Some (R', B')" using c o by (auto simp: rect_contains_def split: option.splits)
  show "0 \<le> sint (rc_x r)" "0 < sint (rc_width r)" "sint (rc_x r) + sint (rc_width r) \<le> sint (rc_width (td_destination desc))"
    "0 \<le> sint (rc_y r)" "0 < sint (rc_height r)" "sint (rc_y r) + sint (rc_height r) \<le> sint (rc_height (td_destination desc))"
    using c o i assms(2,3) by (auto simp: rect_contains_def rect_edges_def Let_def split: if_splits)
qed

lemma map_rect_clipped_results:
  assumes "fst (transform_initialize desc t0) = SACCADE_OK"
  obtains (ok) r where "map_rect_clipped (snd (transform_initialize desc t0)) source True = (SACCADE_OK, Some r)"
  | (outside) "map_rect_clipped (snd (transform_initialize desc t0)) source True = (SACCADE_ERROR_NOT_FOUND, None)"
  | (invalid) "map_rect_clipped (snd (transform_initialize desc t0)) source True = (SACCADE_ERROR_INVALID_ARGUMENT, None)" "\<not> rect_valid source"
proof -
  let ?m = "map_rect_clipped (snd (transform_initialize desc t0)) source True"
  have "ct_valid (snd (transform_initialize desc t0))" using assms by (simp add: transform_initialize_ok(2))
  then have inv: "fst ?m = SACCADE_ERROR_INVALID_ARGUMENT \<Longrightarrow> \<not> rect_valid source"
    by (auto simp: map_rect_clipped_def Let_def split: prod.splits if_splits)
  show ?thesis
    using clipped_inside [of desc t0 source] inv ok outside invalid
    by (cases ?m; cases "fst ?m"; cases "snd ?m") auto
qed

lemma make_target_valid:
  assumes "0 \<le> x" "x + 2 \<le> right" "right \<le> 65535" "0 \<le> y" "y + 2 \<le> bottom" "bottom \<le> 65535"
    and "glyph_indices symbols ls = Some gs" "length symbols \<le> 32" "ls \<noteq> []" "length ls \<le> 16"
    and "overlay_style_valid style" "in_surface sw sh (label_rect p style)" "sw \<le> 65535" "sh \<le> 65535"
    and p: "p = (make_overlay_target config source x y right bottom gs)\<lparr>ot_label_x_q3 := lx, ot_label_y_q3 := ly\<rparr>"
  shows "overlay_target_valid p style"
    "uint (ot_x_q3 p) = x" "uint (ot_x_q3 p) + uint (ot_width_q3 p) = right"
    "uint (ot_y_q3 p) = y" "uint (ot_y_q3 p) + uint (ot_height_q3 p) = bottom"
    "glyph_indices symbols ls = Some (map (target_glyph p) [0..<unat (ot_glyph_count p)])" "unat (ot_glyph_count p) = length ls"
proof -
  note g = glyph_indices_facts [OF assms(7)]
  have w: "uint (ot_x_q3 p) = x" "uint (ot_width_q3 p) = right - x" "uint (ot_y_q3 p) = y" "uint (ot_height_q3 p) = bottom - y"
    using assms(1-6) by (simp_all add: p make_overlay_target_def del: of_int_diff)
  show xy: "uint (ot_x_q3 p) = x" "uint (ot_x_q3 p) + uint (ot_width_q3 p) = right"
    "uint (ot_y_q3 p) = y" "uint (ot_y_q3 p) + uint (ot_height_q3 p) = bottom" using w by simp_all
  show n: "unat (ot_glyph_count p) = length ls" using g assms(10) by (simp add: p make_overlay_target_def unat_of_nat)
  have gl: "target_glyph p i = gs ! i" if "i < length ls" for i
    using target_glyph_array [of p gs i] that g assms(10) by (simp add: p make_overlay_target_def)
  have "map (target_glyph p) [0..<length ls] = gs" using g gl by (intro nth_equalityI) simp_all
  then show "glyph_indices symbols ls = Some (map (target_glyph p) [0..<unat (ot_glyph_count p)])" using assms(7) n by simp
  have no: "\<not> list_ex (\<lambda>i. target_glyph p i = OVERLAY_GLYPH_NONE) [0..<unat (ot_glyph_count p)]"
    using gl g assms(8) n by (auto simp: list_ex_iff list_all_length)
  have ge2: "\<not> ot_width_q3 p < 2" "\<not> ot_height_q3 p < 2"
    using w(2,4) assms(2,5) by (simp_all add: word_less_alt)
  have le: "rq_x (label_rect p style) = uint (ot_label_x_q3 p)" "rq_y (label_rect p style) = uint (ot_label_y_q3 p)"
    "rq_width (label_rect p style) = uint (label_width p style)" "rq_height (label_rect p style) = uint (os_label_height_q3 style)"
    by (simp_all add: label_rect_def uint_label_width)
  have lw: "label_width p style \<noteq> 0"
  proof
    assume "label_width p style = 0"
    then have "label_extent style (uint (ot_glyph_count p)) = 0" using uint_label_width [of p style] by simp
    moreover have "1 \<le> uint (ot_glyph_count p)"
      using n assms(9) int_unat_uint [of "ot_glyph_count p"] by (cases ls) (simp_all del: of_nat_unat)
    ultimately show False using label_extent_pos [OF assms(11)] by fastforce
  qed
  have fits: "fits_q3 a e" if "uint a + uint e \<le> 65535" for a :: u16 and e :: u32
    using that int_unat_uint [of a] int_unat_uint [of e] unfolding fits_q3_nat by linarith
  have s: "uint (ot_label_x_q3 p) + uint (label_width p style) \<le> 65535" "uint (ot_label_y_q3 p) + uint (os_label_height_q3 style) \<le> 65535"
    using assms(12,13,14) le by (simp_all add: in_surface_def)
  have "ot_flags p = 0" "ot_reserved p = 0" by (simp_all add: p make_overlay_target_def)
  then show "overlay_target_valid p style"
    using no ge2 lw n assms(10) s xy(2,4) assms(3,6) by (simp add: overlay_target_valid_def fits)
qed


definition compose_inv :: "overlay_style list \<Rightarrow> int \<Rightarrow> int \<Rightarrow> int \<Rightarrow> int \<Rightarrow> compose_state \<Rightarrow> bool" where
  "compose_inv styles sw sh cw ch c \<longleftrightarrow> buckets_inv cw ch (map (label_of styles) (co_targets c)) (co_workspace c) \<and>
     list_all (\<lambda>t. label_fits cw ch (label_of styles t)) (co_targets c) \<and>
     list_all (placed_ok styles sw sh) (co_targets c) \<and> labels_apart styles (co_targets c)"

definition failure_reason ::
  "nat \<Rightarrow> overlay_style list \<Rightarrow> u16 list \<Rightarrow> nat \<Rightarrow> target_record \<Rightarrow> hint_label option \<Rightarrow> saccade_result \<Rightarrow> bool" where
  "failure_reason output_size styles symbols written source label result \<longleftrightarrow>
     (case result of SACCADE_OK \<Rightarrow> True | SACCADE_ERROR_BUSY \<Rightarrow> True
      | SACCADE_ERROR_INVALID_ARGUMENT \<Rightarrow> \<not> rect_valid (target_rect source)
      | SACCADE_ERROR_UNSUPPORTED \<Rightarrow> (case label of None \<Rightarrow> False | Some l \<Rightarrow> glyph_indices symbols (hl_symbols l) = None)
      | SACCADE_ERROR_CAPACITY \<Rightarrow> output_size < overlay_size (written + 1) (length styles) \<or>
          (case label of None \<Rightarrow> True
           | Some l \<Rightarrow> hl_target_id l \<noteq> tr_target_id source \<or> hl_symbols l = [] \<or> length (hl_symbols l) > OVERLAY_GLYPHS_PER_TARGET)
      | _ \<Rightarrow> False)"

lemma compose_inv_counters [simp]:
  "compose_inv styles sw sh cw ch (c\<lparr>co_stats := s\<rparr>) = compose_inv styles sw sh cw ch c"
  "compose_inv styles sw sh cw ch (c\<lparr>co_active := a\<rparr>) = compose_inv styles sw sh cw ch c"
  by (simp_all add: compose_inv_def)

definition wrote_target ::
  "coordinate_transform \<Rightarrow> overlay_style list \<Rightarrow> u16 list \<Rightarrow> nat \<Rightarrow> nat \<Rightarrow> target_record \<Rightarrow> hint_label option \<Rightarrow> compose_state \<Rightarrow>
     saccade_result \<Rightarrow> compose_state \<Rightarrow> bool" where
  "wrote_target transform styles symbols output_size i source label c r c' \<longleftrightarrow>
     co_targets c' = co_targets c \<and> cw_scene_index (co_workspace c') = cw_scene_index (co_workspace c) \<or>
      (\<exists>l p. r = SACCADE_OK \<and> label = Some l \<and> co_targets c' = co_targets c @ [p] \<and>
        overlay_size (length (co_targets c) + 1) (length styles) \<le> output_size \<and>
        shows_target transform styles symbols source l p \<and>
        cw_scene_index (co_workspace c') = (cw_scene_index (co_workspace c))(length (co_targets c) := word_of_nat i))"

lemma wrote_nothing [simp]: "wrote_target transform styles symbols output_size i source label c r (c\<lparr>co_stats := s\<rparr>)"
  by (simp add: wrote_target_def)

lemma insert_label_scene [simp]: "cw_scene_index (insert_label t l cw ch w) = cw_scene_index w"
  by (simp add: insert_label_def Let_def split: prod.split)

text \<open>A step returns, keeps the invariant, has a reason for its failure and writes at most one target.\<close>

definition step_ok ::
  "coordinate_transform \<Rightarrow> overlay_style list \<Rightarrow> u16 list \<Rightarrow> nat \<Rightarrow> int \<Rightarrow> int \<Rightarrow> int \<Rightarrow> int \<Rightarrow> nat \<Rightarrow> target_record \<Rightarrow> hint_label option \<Rightarrow>
     compose_state \<Rightarrow> (saccade_result \<times> compose_state) option \<Rightarrow> bool" where
  "step_ok transform styles symbols output_size sw sh cw ch i source label c out \<longleftrightarrow>
     (case out of None \<Rightarrow> False
      | Some (r, c') \<Rightarrow> compose_inv styles sw sh cw ch c' \<and>
          failure_reason output_size styles symbols (length (co_targets c)) source label r \<and>
          wrote_target transform styles symbols output_size i source label c r c')"

lemma step_ok_quiet:
  assumes "compose_inv styles sw sh cw ch c" "failure_reason output_size styles symbols (length (co_targets c)) source label r"
  shows "step_ok transform styles symbols output_size sw sh cw ch i source label c (Some (r, c\<lparr>co_stats := s\<rparr>))"
  using assms by (simp add: step_ok_def)

lemma step_ok_counted:
  "step_ok transform styles symbols output_size sw sh cw ch i source label (c\<lparr>co_stats := s\<rparr>) out =
   step_ok transform styles symbols output_size sw sh cw ch i source label c out"
  by (cases out) (auto simp: step_ok_def wrote_target_def)

lemma safe_shown:
  assumes "\<not> rect_contains_point l (surface_safe_point transform source m)"
  shows "case map_point transform \<lparr>pt_x = tr_safe_x_q8 source, pt_y = tr_safe_y_q8 source\<rparr> True of
        (SACCADE_OK, Some p) \<Rightarrow> \<not> rect_contains_point l p
      | _ \<Rightarrow> True"
proof -
  obtain r v where m: "map_point transform \<lparr>pt_x = tr_safe_x_q8 source, pt_y = tr_safe_y_q8 source\<rparr> True = (r, v)" by fastforce
  show ?thesis using assms unfolding surface_safe_point_def m by (cases r; cases v) simp_all
qed

lemma write_overlay_target_step:
  assumes env: "compose_env config desc t0 styles symbols sw sh cw ch" and inv: "compose_inv styles sw sh cw ch c"
    and few: "length (co_targets c) < 10000"
    and b: "0 \<le> x" "x + 2 \<le> right" "right \<le> sw" "0 \<le> y" "y + 2 \<le> bottom" "bottom \<le> sh"
    and l: "glyph_indices symbols (hl_symbols l) = Some gs" "hl_symbols l \<noteq> []" "length (hl_symbols l) \<le> 16"
      "hl_target_id l = tr_target_id source"
    and m: "map_rect_clipped (snd (transform_initialize desc t0)) (target_rect source) True = (SACCADE_OK, Some m)"
      "x = sint (rc_x m) div 32" "y = sint (rc_y m) div 32" "right = (sint (rc_x m) + sint (rc_width m) + 31) div 32"
      "bottom = (sint (rc_y m) + sint (rc_height m) + 31) div 32"
  shows "step_ok (snd (transform_initialize desc t0)) styles symbols output_size sw sh cw ch i source (Some l) c
    (write_overlay_target config styles output_size sw sh cw ch i (make_overlay_target config source x y right bottom gs)
       (surface_safe_point (snd (transform_initialize desc t0)) source m) c)"
proof -
  let ?t = "snd (transform_initialize desc t0)" and ?ts = "co_targets c"
  define o' where "o' = make_overlay_target config source x y right bottom gs"
  let ?s = "styles ! unat (ot_style_index o')"
  let ?safe = "surface_safe_point ?t source m"
  have e: "list_all overlay_style_valid styles" "list_all (\<lambda>s. label_extent s 16 \<le> cw \<and> uint (os_label_height_q3 s) \<le> ch) styles"
    "length symbols \<le> 32" "list_all (\<lambda>role. unat (cc_role_styles config role) < length styles) [0..<11]"
    "sw \<le> 65535" "sh \<le> 65535" using env by (simp_all add: compose_env_def)
  have i: "buckets_inv cw ch (map (label_of styles) ?ts) (co_workspace c)" "list_all (\<lambda>t. label_fits cw ch (label_of styles t)) ?ts"
    "list_all (placed_ok styles sw sh) ?ts" "labels_apart styles ?ts" using inv by (simp_all add: compose_inv_def)
  have "unat (min (ucast (tr_role source)) (overlay_target_role_count - 1) :: u32) < 11"
    by (simp add: overlay_target_role_count_def min_def word_le_nat_alt)
  then have si: "unat (ot_style_index o') < length styles" using e(4) by (simp add: o'_def make_overlay_target_def list_all_iff)
  then have sv: "overlay_style_valid ?s" "label_extent ?s 16 \<le> cw" "uint (os_label_height_q3 ?s) \<le> ch"
    using e(1,2) by (simp_all add: list_all_length)
  have gc: "uint (ot_glyph_count o') = int (length (hl_symbols l))"
    using glyph_indices_facts [OF l(1)] l(3) by (simp add: o'_def make_overlay_target_def unsigned_of_nat take_bit_nat_eq_self)
  have n: "1 \<le> uint (ot_glyph_count o')" "uint (ot_glyph_count o') \<le> 16" using gc l(2,3) by (simp_all add: Suc_le_eq)
  have h: "os_label_height_q3 ?s \<noteq> 0" using sv(1) by (simp add: overlay_style_valid_def)
  have lw: "label_extent ?s (uint (ot_glyph_count o')) \<le> cw" using label_extent_mono [OF n(2)] sv(2) by (rule order_trans)
  obtain r s where r: "place_label o' ?s ?safe sw sh cw ch ?ts styles (cc_placement config) (co_workspace c) (co_stats c) = Some (r, s)"
    and some: "\<And>p. r = Some p \<Longrightarrow> p = o'\<lparr>ot_label_x_q3 := ot_label_x_q3 p, ot_label_y_q3 := ot_label_y_q3 p\<rparr> \<and>
       in_surface sw sh (label_rect p ?s) \<and> label_fits cw ch (label_rect p ?s) \<and> \<not> rect_contains_point (label_rect p ?s) ?safe \<and>
       list_all (\<lambda>q. \<not> rects_overlap (label_rect p ?s) (label_of styles q)) ?ts"
    using place_label_result [OF i(1,2) label_extent_pos [OF sv(1) n(1)] lw h sv(3) e(5,6)] by blast
  note written = write_overlay_target_def [of config styles output_size sw sh cw ch i o' ?safe c, unfolded Let_def r option.case prod.case]
  show ?thesis
  proof (cases r)
    case None
    then show ?thesis unfolding o'_def [symmetric] written option.case
      using inv by (simp add: step_ok_quiet failure_reason_def)
  next
    case (Some p)
    note p = some [OF Some]
    show ?thesis
    proof (cases "output_size < overlay_size (length ?ts + 1) (length styles)")
      case True
      then show ?thesis unfolding o'_def [symmetric] written Some option.case
        using inv by (simp add: step_ok_quiet failure_reason_def)
    next
      case room: False
      have p1: "p = o'\<lparr>ot_label_x_q3 := ot_label_x_q3 p, ot_label_y_q3 := ot_label_y_q3 p\<rparr>" using p by blast
      have ps: "ot_style_index p = ot_style_index o'" by (subst p1) simp
      have id: "ot_target_id p = tr_target_id source" by (subst p1) (simp add: o'_def make_overlay_target_def)
      note made = make_target_valid [OF b(1,2) order_trans [OF b(3) e(5)] b(4,5) order_trans [OF b(6) e(6)] l(1) e(3) l(2,3) sv(1)
         conjunct1 [OF conjunct2 [OF p]] e(5,6) p1 [unfolded o'_def]]
      have "placed_ok styles sw sh p" using si made(1) p by (simp add: placed_ok_def ps)
      moreover have "labels_apart styles (?ts @ [p])"
        using i(4) p by (auto simp: labels_apart_def sorted_wrt_append list_all_iff ps rects_overlap_def)
      moreover have "buckets_inv cw ch (map (label_of styles) (?ts @ [p]))
          (insert_label (word_of_nat (length ?ts)) (label_rect p ?s) cw ch (co_workspace c))"
        using buckets_inv_insert [OF i(1), of "label_rect p ?s"] few by (simp add: ps)
      moreover have "shows_target ?t styles symbols source l p"
        unfolding shows_target_def m(1)
        using made(2-6) l(4) id m(2-5) safe_shown [of "label_rect p ?s" ?t source m] p unfolding ps by simp
      ultimately show ?thesis unfolding o'_def [symmetric] written Some option.case
        using i room p id by (simp add: step_ok_def compose_inv_def failure_reason_def wrote_target_def ps)
    qed
  qed
qed

lemma compose_target_step:
  assumes env: "compose_env config desc t0 styles symbols sw sh cw ch" and inv: "compose_inv styles sw sh cw ch c"
    and few: "length (co_targets c) < 10000"
  shows "step_ok (snd (transform_initialize desc t0)) styles symbols output_size sw sh cw ch i source label c
    (compose_target config (snd (transform_initialize desc t0)) styles symbols output_size sw sh cw ch i source label c)"
proof -
  let ?t = "snd (transform_initialize desc t0)"
  have e: "fst (transform_initialize desc t0) = SACCADE_OK" "rc_x (td_destination desc) = 0" "rc_y (td_destination desc) = 0"
    "sw = ceil_q3 (sint (rc_width (td_destination desc)))" "sh = ceil_q3 (sint (rc_height (td_destination desc)))"
    using env by (simp_all add: compose_env_def)
  note quiet = step_ok_quiet [OF inv]
  show ?thesis
  proof (cases "tr_display_id source \<noteq> 0 \<and> tr_display_id source \<noteq> cc_display_id config")
    case True
    then show ?thesis unfolding compose_target_def Let_def by (simp add: quiet failure_reason_def)
  next
    case near: False
    consider (ok) m where "map_rect_clipped ?t (target_rect source) True = (SACCADE_OK, Some m)"
      | (outside) "map_rect_clipped ?t (target_rect source) True = (SACCADE_ERROR_NOT_FOUND, None)"
      | (invalid) "map_rect_clipped ?t (target_rect source) True = (SACCADE_ERROR_INVALID_ARGUMENT, None)" "\<not> rect_valid (target_rect source)"
      by (rule map_rect_clipped_results [OF e(1)])
    then show ?thesis
    proof cases
      case (outside)
      then show ?thesis unfolding compose_target_def Let_def if_not_P [OF near] by (simp add: quiet failure_reason_def)
    next
      case (invalid)
      then show ?thesis unfolding compose_target_def Let_def if_not_P [OF near] by (simp add: quiet failure_reason_def)
    next
      case (ok m)
      note b = mapped_eighths [OF e(1,2,3) ok]
      let ?x = "floor_q3 (sint (rc_x m))" and ?y = "floor_q3 (sint (rc_y m))"
      let ?r = "ceil_q3 (sint (rc_x m) + sint (rc_width m))" and ?b = "ceil_q3 (sint (rc_y m) + sint (rc_height m))"
      have q: "?x = sint (rc_x m) div 32" "?y = sint (rc_y m) div 32" "?r = (sint (rc_x m) + sint (rc_width m) + 31) div 32"
        "?b = (sint (rc_y m) + sint (rc_height m) + 31) div 32" "?r \<le> sw" "?b \<le> sh" "0 \<le> ?x" "0 \<le> ?y"
        using b e(4,5) by (simp_all add: floor_q3_def ceil_q3_def zdiv_mono1)
      show ?thesis
      proof (cases "?r - ?x < 2 \<or> ?b - ?y < 2")
        case True
        then show ?thesis unfolding compose_target_def Let_def if_not_P [OF near] ok by (simp add: quiet failure_reason_def)
      next
        case wide: False
        let ?c1 = "c\<lparr>co_stats := (co_stats c)\<lparr>cs_targets_read := cs_targets_read (co_stats c) + 1\<rparr>\<rparr>"
        have step: "compose_target config ?t styles symbols output_size sw sh cw ch i source label c =
            compose_labeled config styles symbols output_size sw sh cw ch i source label ?x ?y ?r ?b (surface_safe_point ?t source m) ?c1"
          unfolding compose_target_def Let_def if_not_P [OF near] ok using wide by simp
        show ?thesis
        proof (cases "\<exists>l gs. label = Some l \<and> hl_target_id l = tr_target_id source \<and> hl_symbols l \<noteq> [] \<and>
            length (hl_symbols l) \<le> 16 \<and> glyph_indices symbols (hl_symbols l) = Some gs")
          case False
          then show ?thesis unfolding step compose_labeled_def
            by (auto simp: quiet failure_reason_def split: option.split)
        next
          case True
          then obtain l gs where l: "label = Some l" "hl_target_id l = tr_target_id source" "hl_symbols l \<noteq> []"
            "length (hl_symbols l) \<le> 16" "glyph_indices symbols (hl_symbols l) = Some gs" by blast
          have lab: "compose_labeled config styles symbols output_size sw sh cw ch i source label ?x ?y ?r ?b (surface_safe_point ?t source m) ?c1 =
            write_overlay_target config styles output_size sw sh cw ch i (make_overlay_target config source ?x ?y ?r ?b gs)
              (surface_safe_point ?t source m) ?c1" using l by (simp add: compose_labeled_def)
          have inv1: "compose_inv styles sw sh cw ch ?c1" "length (co_targets ?c1) < 10000" using inv few by simp_all
          show ?thesis unfolding step lab unfolding l(1)
            using write_overlay_target_step [OF env inv1 q(7) _ q(5) q(8) _ q(6) l(5,3,4,2) ok q(1-4)] wide
            by (simp add: step_ok_counted)
        qed
      qed
    qed
  qed
qed


text \<open>The whole loop; the table of scene indices leads from the written targets to the scene.\<close>

definition scene_indices :: "compose_workspace \<Rightarrow> nat \<Rightarrow> nat list" where
  "scene_indices w n = map (\<lambda>j. unat (cw_scene_index w j)) [0..<n]"

definition loop_ok ::
  "coordinate_transform \<Rightarrow> overlay_style list \<Rightarrow> u16 list \<Rightarrow> (target_record \<times> hint_label option) list \<Rightarrow> nat \<Rightarrow> int \<Rightarrow> int \<Rightarrow> int \<Rightarrow> int \<Rightarrow>
     nat \<Rightarrow> compose_state \<Rightarrow> bool" where
  "loop_ok transform styles symbols sources output_size sw sh cw ch k c \<longleftrightarrow> compose_inv styles sw sh cw ch c \<and>
     shown transform styles symbols sources (scene_indices (co_workspace c) (length (co_targets c))) (co_targets c) \<and>
     list_all (\<lambda>i. i < k) (scene_indices (co_workspace c) (length (co_targets c))) \<and>
     (co_targets c = [] \<or> overlay_size (length (co_targets c)) (length styles) \<le> output_size)"

lemma ascending_length: "sorted_wrt (<) (ix :: nat list) \<Longrightarrow> list_all (\<lambda>i. i < k) ix \<Longrightarrow> length ix \<le> k"
proof -
  assume s: "sorted_wrt (<) ix" and b: "list_all (\<lambda>i. i < k) ix"
  have "distinct ix" using s by (induction ix) auto
  then have "length ix = card (set ix)" by (simp add: distinct_card)
  also have "\<dots> \<le> card {..<k}" using b by (intro card_mono) (auto simp: list_all_iff)
  finally show "length ix \<le> k" by simp
qed

lemma loop_ok_length: "loop_ok transform styles symbols sources output_size sw sh cw ch k c \<Longrightarrow> length (co_targets c) \<le> k"
  using ascending_length [of "scene_indices (co_workspace c) (length (co_targets c))" k]
  by (simp add: loop_ok_def shown_def scene_indices_def)

lemma loop_ok_step:
  assumes ok: "loop_ok transform styles symbols sources output_size sw sh cw ch k c"
    and k: "k < length sources" "length sources \<le> 10000" "sources ! k = (source, label)"
    and wrote: "wrote_target transform styles symbols output_size k source label c r c'" "compose_inv styles sw sh cw ch c'"
  shows "loop_ok transform styles symbols sources output_size sw sh cw ch (Suc k) c'"
proof (cases "co_targets c' = co_targets c \<and> cw_scene_index (co_workspace c') = cw_scene_index (co_workspace c)")
  case True
  then show ?thesis using ok wrote(2) by (auto simp: loop_ok_def scene_indices_def list_all_iff less_Suc_eq)
next
  case False
  let ?n = "length (co_targets c)" and ?is = "scene_indices (co_workspace c) (length (co_targets c))"
  obtain l p where w: "label = Some l" "co_targets c' = co_targets c @ [p]" "overlay_size (?n + 1) (length styles) \<le> output_size"
    "shows_target transform styles symbols source l p"
    "cw_scene_index (co_workspace c') = (cw_scene_index (co_workspace c))(?n := word_of_nat k)"
    using wrote(1) False by (auto simp: wrote_target_def)
  have u: "unat (word_of_nat k :: u32) = k" using k by (simp add: unat_of_nat)
  have "map (\<lambda>j. unat (cw_scene_index (co_workspace c') j)) [0..<?n] = ?is"
    unfolding scene_indices_def by (rule map_cong) (auto simp: w(5))
  then have now: "scene_indices (co_workspace c') (length (co_targets c')) = ?is @ [k]"
    by (simp add: scene_indices_def w(2,5) u)
  have "list_all2 (\<lambda>i t. case sources ! i of (source, label) \<Rightarrow> (case label of None \<Rightarrow> False
      | Some l \<Rightarrow> shows_target transform styles symbols source l t)) (?is @ [k]) (co_targets c @ [p])"
    using ok k(3) w(1,4) by (intro list_all2_appendI) (simp_all add: loop_ok_def shown_def)
  then show ?thesis using ok wrote(2) w(3) k(1) unfolding loop_ok_def now unfolding w(2)
    by (auto simp: shown_def sorted_wrt_append list_all_iff less_Suc_eq)
qed

lemma compose_targets_run:
  assumes env: "compose_env config desc t0 styles symbols sw sh cw ch" and n: "length sources \<le> 10000"
    and "loop_ok (snd (transform_initialize desc t0)) styles symbols sources output_size sw sh cw ch k c" "k + length rest = length sources"
      "drop k sources = rest"
  shows "case compose_targets (compose_target config (snd (transform_initialize desc t0)) styles symbols output_size sw sh cw ch) k rest c of
      None \<Rightarrow> False
    | Some (r, c') \<Rightarrow>
        if r = SACCADE_OK
        then loop_ok (snd (transform_initialize desc t0)) styles symbols sources output_size sw sh cw ch (length sources) c'
        else \<exists>written < length sources. \<exists>(source, label) \<in> set sources. failure_reason output_size styles symbols written source label r"
  using assms(3-)
proof (induction rest arbitrary: k c)
  case Nil
  then show ?case by simp
next
  case (Cons sl rest)
  obtain source label where sl: "sl = (source, label)" by fastforce
  let ?t = "snd (transform_initialize desc t0)"
  have k: "k < length sources" using Cons.prems(2) by simp
  have at: "sources ! k = (source, label)" using Cons.prems(3) sl k by (metis nth_via_drop)
  have len: "length (co_targets c) \<le> k" using Cons.prems(1) by (rule loop_ok_length)
  then have few: "length (co_targets c) < 10000" "length (co_targets c) < length sources" using k n by linarith+
  have inv: "compose_inv styles sw sh cw ch c" using Cons.prems(1) by (simp add: loop_ok_def)
  from compose_target_step [OF env inv few(1), of output_size k source label] obtain r c' where
    c': "compose_target config ?t styles symbols output_size sw sh cw ch k source label c = Some (r, c')"
      "compose_inv styles sw sh cw ch c'" "failure_reason output_size styles symbols (length (co_targets c)) source label r"
      "wrote_target ?t styles symbols output_size k source label c r c'"
    by (auto simp: step_ok_def split: option.splits)
  show ?case
  proof (cases "r = SACCADE_OK")
    case True
    have "loop_ok ?t styles symbols sources output_size sw sh cw ch (Suc k) c'"
      by (rule loop_ok_step [OF Cons.prems(1) k n at c'(4,2)])
    moreover have "drop (Suc k) sources = rest" using Cons.prems(3) by (metis drop_Suc list.sel(3) tl_drop)
    ultimately show ?thesis using Cons.IH [of "Suc k" c'] Cons.prems(2) c'(1) True by (simp add: sl)
  next
    case False
    have "(source, label) \<in> set sources" using at k by (metis nth_mem)
    then have "\<exists>written < length sources. \<exists>(source, label) \<in> set sources. failure_reason output_size styles symbols written source label r"
      using few(2) c'(3) by blast
    then show ?thesis using c'(1) False by (cases r) (simp_all add: sl)
  qed
qed

lemma loop_ok_start:
  "loop_ok transform styles symbols sources output_size sw sh cw ch 0
     \<lparr>co_targets = [], co_workspace = reset_workspace w, co_stats = stats, co_active = a\<rparr>"
  by (simp add: loop_ok_def compose_inv_def buckets_inv_start labels_apart_def shown_def scene_indices_def)

subsection \<open>The composed packet\<close>

definition composed_view :: "compose_config \<Rightarrow> packet_view \<Rightarrow> overlay_target list \<Rightarrow> overlay_style list \<Rightarrow> overlay_view" where
  "composed_view config scene targets styles = \<lparr>ov_header = composed_header config scene targets styles,
     ov_targets = (if targets = [] then None else Some targets), ov_styles = (if targets = [] then None else Some styles)\<rparr>"

lemma composed_view_wf:
  assumes "length targets \<le> 10000" "1 \<le> length styles" "length styles \<le> 16" "list_all overlay_style_valid styles"
    "list_all (placed_ok styles sw sh) targets"
  shows "overlay_wf (composed_view config scene targets styles)"
proof -
  have t: "unat (word_of_nat (length targets) :: u32) = length targets" "(word_of_nat (length targets) :: u32) = 0 \<longleftrightarrow> targets = []"
    using assms(1) by (simp_all add: unat_of_nat word_unat_eq_iff)
  have s: "unat (word_of_nat (length styles) :: u32) = length styles" "(word_of_nat (length styles) :: u32) \<noteq> 0"
    using assms(2,3) by (auto simp add: unat_of_nat word_unat_eq_iff)
  have h: "overlay_header_valid (composed_header config scene targets styles)"
    using assms(1-3) t s by (simp add: overlay_header_valid_def composed_header_def Let_def word_less_nat_alt)
  have off: "unat (word_of_nat (overlay_header_size + length targets * overlay_target_size) :: u64) =
      overlay_header_size + length targets * overlay_target_size"
    by (rule unat_of_nat_small) (use assms(1) in \<open>simp add: overlay_header_size_def overlay_target_size_def\<close>)
  have valid: "list_all (\<lambda>t. unat (ot_style_index t) < length styles \<and> overlay_target_valid t (styles ! unat (ot_style_index t))) targets"
    using assms(5) by (auto simp: placed_ok_def list_all_iff)
  show ?thesis using h t s off valid assms(2,4)
    by (cases "targets = []") (auto simp: overlay_wf_def Let_def composed_view_def view_targets_def view_styles_def composed_header_def
        overlay_header_size_def unat_of_nat)
qed

lemma put_composed_view:
  "put_overlay (composed_view config scene targets styles) = put_overlay_header (composed_header config scene targets styles) @
     concat (map put_overlay_target targets) @ (if targets = [] then [] else concat (map put_overlay_style styles))"
  by (simp add: put_overlay_def composed_view_def view_targets_def view_styles_def)

lemma cell_extents_bound:
  assumes "cell_extents styles = (cw, ch)"
  shows "list_all (\<lambda>s. label_extent s 16 \<le> cw \<and> uint (os_label_height_q3 s) \<le> ch) styles"
proof -
  have "foldl (\<lambda>(w, h) s. (max w (label_extent s 16), max h (uint (os_label_height_q3 s)))) (a, b) styles = (cw, ch) \<Longrightarrow>
      a \<le> cw \<and> b \<le> ch \<and> list_all (\<lambda>s. label_extent s 16 \<le> cw \<and> uint (os_label_height_q3 s) \<le> ch) styles" for a b
  proof (induction styles arbitrary: a b)
    case (Cons s styles)
    then show ?case using Cons.IH [of "max a (label_extent s 16)" "max b (uint (os_label_height_q3 s))"] by simp
  qed simp
  then show ?thesis using assms unfolding cell_extents_def by blast
qed


text \<open>What a successful composition delivers.\<close>

definition composed_right ::
  "compose_config \<Rightarrow> transform_desc \<Rightarrow> coordinate_transform \<Rightarrow> packet_view \<Rightarrow> overlay_style list \<Rightarrow> u16 list \<Rightarrow> hint_label list \<Rightarrow> nat \<Rightarrow>
     u8 list \<Rightarrow> compose_result \<Rightarrow> compose_workspace \<Rightarrow> bool" where
  "composed_right config desc t0 scene styles symbols labels output_size bytes res w \<longleftrightarrow>
     (case validate_overlay (Span bytes) True of
        (SACCADE_OK, Some v) \<Rightarrow>
          (let targets = view_targets v; surface = td_destination desc in
           length bytes \<le> output_size \<and> cr_byte_size res = length bytes \<and> unat (cr_target_count res) = length targets \<and>
           (targets = [] \<or> view_styles v = styles) \<and> labels_apart styles targets \<and>
           list_all (\<lambda>t. in_surface (ceil_q3 (sint (rc_width surface))) (ceil_q3 (sint (rc_height surface))) (label_of styles t)) targets \<and>
           (case index_labels labels (replicate (length labels) None) of
              None \<Rightarrow> False
            | Some table \<Rightarrow> shown (snd (transform_initialize desc t0)) styles symbols (zip (pv_targets scene) table)
                (scene_indices w (length targets)) targets))
      | _ \<Rightarrow> False)"

lemma index_labels_length: "index_labels ls table = Some table' \<Longrightarrow> length table' = length table"
  by (induction ls arbitrary: table) (auto simp: Let_def split: if_splits)

lemma style_usable_valid: "style_usable = overlay_style_valid"
  by (rule ext) (simp only: style_usable_def overlay_style_valid_def)

lemma compose_config_env:
  assumes "compose_config_valid scene (config\<lparr>cc_desktop_to_surface := Some (snd (transform_initialize desc t0)),
      cc_styles := Some styles, cc_glyph_symbols := Some symbols\<rparr>)"
    "ceil_q3 (sint (rc_width (td_destination desc))) \<le> 65535" "ceil_q3 (sint (rc_height (td_destination desc))) \<le> 65535"
    "cell_extents styles = (cw, ch)"
  shows "compose_env (config\<lparr>cc_desktop_to_surface := Some (snd (transform_initialize desc t0)), cc_styles := Some styles,
      cc_glyph_symbols := Some symbols\<rparr>) desc t0 styles symbols (ceil_q3 (sint (rc_width (td_destination desc))))
      (ceil_q3 (sint (rc_height (td_destination desc)))) cw ch" "1 \<le> length styles" "length styles \<le> 16"
proof -
  have v: "ct_valid (snd (transform_initialize desc t0))" "styles \<noteq> []" "length styles \<le> 16" "length symbols \<le> 32"
    "list_all overlay_style_valid styles" "list_all (\<lambda>role. unat (cc_role_styles config role) < length styles) [0..<11]"
    "rc_x (td_destination (ct_desc (snd (transform_initialize desc t0)))) = 0"
    "rc_y (td_destination (ct_desc (snd (transform_initialize desc t0)))) = 0"
    using assms(1) by (simp_all add: compose_config_valid_def overlay_target_role_count_def not_less style_usable_valid)
  then have i: "fst (transform_initialize desc t0) = SACCADE_OK" by (simp add: transform_initialize_ok(2))
  then have d: "ct_desc (snd (transform_initialize desc t0)) = desc" by (rule transform_initialize_ok(3))
  show "compose_env (config\<lparr>cc_desktop_to_surface := Some (snd (transform_initialize desc t0)), cc_styles := Some styles,
      cc_glyph_symbols := Some symbols\<rparr>) desc t0 styles symbols (ceil_q3 (sint (rc_width (td_destination desc))))
      (ceil_q3 (sint (rc_height (td_destination desc)))) cw ch"
    using v i d assms(2,3) cell_extents_bound [OF assms(4)] by (simp add: compose_env_def)
  show "1 \<le> length styles" "length styles \<le> 16" using v by (simp_all add: Suc_le_eq)
qed

text \<open>Every composition returns; the final check of the packet accepts it, and a failure has one of these reasons.\<close>

definition compose_refused ::
  "packet_view \<Rightarrow> hint_label list \<Rightarrow> overlay_style list \<Rightarrow> u16 list \<Rightarrow> transform_desc \<Rightarrow> nat \<Rightarrow> saccade_result \<Rightarrow> bool" where
  "compose_refused scene labels styles symbols desc output_size result \<longleftrightarrow>
     (case result of
        SACCADE_ERROR_BUSY \<Rightarrow> True
      | SACCADE_ERROR_INVALID_ARGUMENT \<Rightarrow> index_labels labels (replicate (length labels) None) = None \<or>
          list_ex (\<lambda>t. \<not> rect_valid (target_rect t)) (pv_targets scene)
      | SACCADE_ERROR_UNSUPPORTED \<Rightarrow> ceil_q3 (sint (rc_width (td_destination desc))) > 65535 \<or>
          ceil_q3 (sint (rc_height (td_destination desc))) > 65535 \<or> list_ex (\<lambda>l. glyph_indices symbols (hl_symbols l) = None) labels
      | SACCADE_ERROR_CAPACITY \<Rightarrow> output_size < overlay_size (length (pv_targets scene)) (length styles) \<or>
          (case index_labels labels (replicate (length labels) None) of None \<Rightarrow> False
           | Some table \<Rightarrow> list_ex (\<lambda>(t, label). case label of None \<Rightarrow> True
               | Some l \<Rightarrow> hl_target_id l \<noteq> tr_target_id t \<or> hl_symbols l = [] \<or> length (hl_symbols l) > OVERLAY_GLYPHS_PER_TARGET)
               (zip (pv_targets scene) table))
      | _ \<Rightarrow> False)"

lemma refused_others:
  "compose_refused scene labels styles symbols desc output_size r \<Longrightarrow>
     r \<in> {SACCADE_ERROR_BUSY, SACCADE_ERROR_INVALID_ARGUMENT, SACCADE_ERROR_UNSUPPORTED, SACCADE_ERROR_CAPACITY}"
  by (cases r) (simp_all add: compose_refused_def)

lemma overlay_size_mono: "a \<le> b \<Longrightarrow> overlay_size a s \<le> overlay_size b s"
  by (simp add: overlay_size_def overlay_target_size_def)


lemma index_labels_set: "index_labels ls table = Some table' \<Longrightarrow> Some l \<in> set table' \<Longrightarrow> Some l \<in> set table \<or> l \<in> set ls"
proof (induction ls arbitrary: table)
  case (Cons a ls)
  let ?i = "unat (hl_target_index a)"
  have t: "index_labels ls (table[?i := Some a]) = Some table'" using Cons.prems(1) by (auto simp: Let_def split: if_splits)
  from Cons.IH [OF t Cons.prems(2)] show ?case using set_update_subset_insert [of table ?i "Some a"] by auto
qed simp

lemma failure_refused:
  assumes "failure_reason output_size styles symbols written source label r" "r \<noteq> SACCADE_OK"
    "written < length (zip (pv_targets scene) table)" "(source, label) \<in> set (zip (pv_targets scene) table)"
    and t: "index_labels labels (replicate (length labels) None) = Some table"
  shows "compose_refused scene labels styles symbols desc output_size r"
proof -
  have m: "source \<in> set (pv_targets scene)" "label \<in> set table" using set_zip_leftD set_zip_rightD assms(4) by fast+
  have l: "l \<in> set labels" if "label = Some l" for l using index_labels_set [OF t] m(2) that by fastforce
  have size: "output_size < overlay_size (length (pv_targets scene)) (length styles)"
    if "output_size < overlay_size (written + 1) (length styles)"
    using that overlay_size_mono [of "written + 1" "length (pv_targets scene)" "length styles"] assms(3) by simp
  show ?thesis
  proof (cases r)
    case SACCADE_ERROR_CAPACITY
    then have "output_size < overlay_size (written + 1) (length styles) \<or>
        (case label of None \<Rightarrow> True
         | Some l \<Rightarrow> hl_target_id l \<noteq> tr_target_id source \<or> hl_symbols l = [] \<or> length (hl_symbols l) > OVERLAY_GLYPHS_PER_TARGET)"
      using assms(1) by (simp add: failure_reason_def)
    moreover have "list_ex (\<lambda>(t, label). case label of None \<Rightarrow> True
         | Some l \<Rightarrow> hl_target_id l \<noteq> tr_target_id t \<or> hl_symbols l = [] \<or> length (hl_symbols l) > OVERLAY_GLYPHS_PER_TARGET)
         (zip (pv_targets scene) table)"
      if "case label of None \<Rightarrow> True
         | Some l \<Rightarrow> hl_target_id l \<noteq> tr_target_id source \<or> hl_symbols l = [] \<or> length (hl_symbols l) > OVERLAY_GLYPHS_PER_TARGET"
      unfolding list_ex_iff using assms(4) that by (intro bexI [of _ "(source, label)"]) (simp_all only: prod.case)
    ultimately show ?thesis unfolding compose_refused_def SACCADE_ERROR_CAPACITY t saccade_result.case option.case
      using size by blast
  next
    case SACCADE_ERROR_UNSUPPORTED
    then show ?thesis using assms(1) l by (auto simp: failure_reason_def compose_refused_def list_ex_iff split: option.splits)
  next
    case SACCADE_ERROR_INVALID_ARGUMENT
    then show ?thesis using assms(1) m(1) by (auto simp: failure_reason_def compose_refused_def list_ex_iff)
  qed (use assms(1,2) in \<open>simp_all add: failure_reason_def compose_refused_def\<close>)
qed

lemma composed_packet:
  assumes "length (pv_targets scene) \<le> 10000"
    "config' = config\<lparr>cc_desktop_to_surface := Some (snd (transform_initialize desc t0)), cc_styles := Some styles,
       cc_glyph_symbols := Some symbols\<rparr>"
  shows "case overlay_compose (Some scene) (Some labels) config' (Some w) (Some output_size) True stats of
     None \<Rightarrow> False
   | Some (result, _, None) \<Rightarrow> result \<noteq> SACCADE_OK \<and>
       (if compose_config_valid scene config' \<and> length labels = length (pv_targets scene) \<and> overlay_header_size \<le> output_size
        then compose_refused scene labels styles symbols desc output_size result else True)
   | Some (result, _, Some (bytes, res, w')) \<Rightarrow>
       result = SACCADE_OK \<and> composed_right config desc t0 scene styles symbols labels output_size bytes res w'"
proof (cases "compose_config_valid scene config' \<and> length labels = length (pv_targets scene) \<and> overlay_header_size \<le> output_size")
  case False
  then show ?thesis by (auto simp: overlay_compose_def assms(2))
next
  case guards: True
  let ?t = "snd (transform_initialize desc t0)"
  let ?sw = "ceil_q3 (sint (rc_width (td_destination desc)))" and ?sh = "ceil_q3 (sint (rc_height (td_destination desc)))"
  have "ct_valid ?t" using guards by (simp add: compose_config_valid_def assms(2))
  then have d: "ct_desc ?t = desc" using transform_initialize_ok(2,3) by blast
  have ng: "\<not> (\<not> True \<or> \<not> compose_config_valid scene config' \<or> length labels \<noteq> length (pv_targets scene))"
    "\<not> output_size < overlay_header_size" using guards by simp_all
  have sel: "cc_desktop_to_surface config' = Some ?t" "cc_styles config' = Some styles" "cc_glyph_symbols config' = Some symbols"
    by (simp_all add: assms(2))
  note unf = overlay_compose_def [of "Some scene" "Some labels" config' "Some w" "Some output_size" True stats,
      unfolded sel prod.case option.case if_not_P [OF ng(1)] if_not_P [OF ng(2)] d]
  show ?thesis
  proof (cases "index_labels labels (replicate (length labels) None)")
    case None
    then show ?thesis using guards unfolding unf by (simp add: compose_refused_def)
  next
    case (Some table)
    show ?thesis
    proof (cases "?sw > 65535 \<or> ?sh > 65535")
      case True
      then show ?thesis using guards Some unfolding unf by (auto simp: compose_refused_def)
    next
      case small: False
      obtain cw ch where cell: "cell_extents styles = (cw, ch)" by fastforce
      have env: "compose_env config' desc t0 styles symbols ?sw ?sh cw ch" "1 \<le> length styles" "length styles \<le> 16"
        using compose_config_env [where scene = scene and config = config and desc = desc and ?t0.0 = t0 and styles = styles and symbols = symbols and cw = cw and ch = ch] guards small cell unfolding assms(2) by simp_all
      let ?sources = "zip (pv_targets scene) table"
      let ?c0 = "\<lparr>co_targets = [], co_workspace = reset_workspace w, co_stats = stats, co_active = OVERLAY_ACTIVE_TARGET_NONE\<rparr>"
      let ?run = "compose_targets (compose_target config' ?t styles symbols output_size ?sw ?sh cw ch) 0 ?sources ?c0"
      have len: "length table = length (pv_targets scene)" using index_labels_length [OF Some] guards by simp
      have n: "length ?sources \<le> 10000" using assms(1) len by simp
      have run: "case ?run of None \<Rightarrow> False
        | Some (r, c') \<Rightarrow> if r = SACCADE_OK then loop_ok ?t styles symbols ?sources output_size ?sw ?sh cw ch (length ?sources) c'
            else \<exists>written < length ?sources. \<exists>(source, label) \<in> set ?sources. failure_reason output_size styles symbols written source label r"
        by (rule compose_targets_run [OF env(1) n loop_ok_start]) simp_all
      then obtain r c' where c': "?run = Some (r, c')" by (auto split: option.splits)
      show ?thesis
      proof (cases "r = SACCADE_OK")
        case False
        then obtain written source label where f: "written < length ?sources" "(source, label) \<in> set ?sources"
          "failure_reason output_size styles symbols written source label r" using run unfolding c' by auto
        have "compose_refused scene labels styles symbols desc output_size r"
          by (rule failure_refused [OF f(3) False f(1,2) Some])
        moreover have "overlay_compose (Some scene) (Some labels) config' (Some w) (Some output_size) True stats = Some (r, co_stats c', None)"
          unfolding unf Some option.case Let_def if_not_P [OF small] cell prod.case c' using False by (cases r) simp_all
        ultimately show ?thesis using False guards by simp
      next
        case True
        have ok: "loop_ok ?t styles symbols ?sources output_size ?sw ?sh cw ch (length ?sources) c'"
          using run unfolding c' option.case prod.case if_P [OF True] .
        let ?ts = "co_targets c'" let ?v = "composed_view config' scene ?ts styles"
        let ?bytes = "put_overlay ?v"
        have few: "length ?ts \<le> 10000" using loop_ok_length [OF ok] n by linarith
        have inv: "list_all (placed_ok styles ?sw ?sh) ?ts" "labels_apart styles ?ts"
          using ok by (simp_all add: loop_ok_def compose_inv_def)
        have wf: "overlay_wf ?v"
          by (rule composed_view_wf [OF few env(2,3) _ inv(1)]) (use env(1) in \<open>simp add: compose_env_def\<close>)
        note valid = validate_overlay_complete [OF wf]
        let ?res = "\<lparr>cr_byte_size = length ?bytes, cr_target_count = word_of_nat (length ?ts), cr_labels_placed = word_of_nat (length ?ts),
            cr_active_target_index = co_active c'\<rparr>"
        have out: "overlay_compose (Some scene) (Some labels) config' (Some w) (Some output_size) True stats =
            Some (SACCADE_OK, (co_stats c')\<lparr>cs_packets_composed := cs_packets_composed (co_stats c') + 1\<rparr>,
              Some (?bytes, ?res, co_workspace c'))"
          unfolding unf Some option.case Let_def if_not_P [OF small] cell prod.case c' True saccade_result.case
            put_composed_view [symmetric] valid by simp
        have len_bytes: "length ?bytes = (if ?ts = [] then overlay_header_size else overlay_size (length ?ts) (length styles))"
          unfolding put_composed_view
          by (simp add: overlay_size_def overlay_header_codec.length_put overlay_target_codec.length_put_table overlay_style_codec.length_put_table)
        have fits: "length ?bytes \<le> output_size" using len_bytes ok guards by (auto simp: loop_ok_def)
        have views: "view_targets ?v = ?ts" "?ts = [] \<or> view_styles ?v = styles"
          by (simp_all add: composed_view_def view_targets_def view_styles_def)
        have surf: "list_all (\<lambda>t. in_surface ?sw ?sh (label_of styles t)) ?ts"
          using inv(1) by (auto simp: placed_ok_def list_all_iff)
        have "composed_right config desc t0 scene styles symbols labels output_size ?bytes ?res (co_workspace c')"
          unfolding composed_right_def valid prod.case saccade_result.case option.case views(1) Some Let_def
          using fits few inv(2) surf ok views(2) by (simp add: unat_of_nat loop_ok_def)
        then show ?thesis unfolding out option.case prod.case by simp
      qed
    qed
  qed
qed


text \<open>The labels of a frozen hint session are always found.\<close>

lemma index_labels_distinct:
  assumes "distinct (map (\<lambda>l. unat (hl_target_index l)) ls)" "list_all (\<lambda>l. unat (hl_target_index l) < length table) ls"
    "list_all (\<lambda>l. table ! unat (hl_target_index l) = None) ls"
  obtains table' where "index_labels ls table = Some table'" "length table' = length table"
    "\<And>i. i < length table \<Longrightarrow> table' ! i =
       (case List.find (\<lambda>l. unat (hl_target_index l) = i) ls of None \<Rightarrow> table ! i | Some l \<Rightarrow> Some l)"
  using assms
proof (induction ls arbitrary: table thesis)
  case Nil
  then show ?case by simp
next
  case (Cons a ls)
  let ?i = "unat (hl_target_index a)" let ?t = "table[?i := Some a]"
  have a: "?i < length table" "table ! ?i = None" using Cons.prems(3,4) by simp_all
  have d: "distinct (map (\<lambda>l. unat (hl_target_index l)) ls)" "list_all (\<lambda>l. unat (hl_target_index l) < length ?t) ls"
    using Cons.prems(2,3) by simp_all
  have new: "unat (hl_target_index l) \<noteq> ?i" if "l \<in> set ls" for l
  proof -
    have "?i \<notin> (\<lambda>l. unat (hl_target_index l)) ` set ls" using Cons.prems(2) by simp
    then show ?thesis using that by (metis image_eqI)
  qed
  have free: "list_all (\<lambda>l. ?t ! unat (hl_target_index l) = None) ls"
    using Cons.prems(4) new unfolding list_all_iff list.set by (metis insertI2 nth_list_update_neq)
  obtain table' where t: "index_labels ls ?t = Some table'" "length table' = length ?t"
    "\<And>i. i < length ?t \<Longrightarrow> table' ! i = (case List.find (\<lambda>l. unat (hl_target_index l) = i) ls of None \<Rightarrow> ?t ! i | Some l \<Rightarrow> Some l)"
    using Cons.IH [OF _ d free] by blast
  have none: "List.find (\<lambda>l. unat (hl_target_index l) = ?i) ls = None" using new by auto
  show ?case
  proof (rule Cons.prems(1))
    show "index_labels (a # ls) table = Some table'" using t(1) a by (simp add: Let_def)
    show "length table' = length table" using t(2) by simp
    fix i assume i: "i < length table"
    show "table' ! i = (case List.find (\<lambda>l. unat (hl_target_index l) = i) (a # ls) of None \<Rightarrow> table ! i | Some l \<Rightarrow> Some l)"
    proof (cases "i = ?i")
      case True
      then show ?thesis using t(3) [of i] i none by simp
    next
      case False
      then have same: "?t ! i = table ! i" by simp
      show ?thesis using t(3) [of i, unfolded same] i False by simp
    qed
  qed
qed

subsection \<open>Properties\<close>

text \<open>C10. Every composition returns. A successful one fits the output, is accepted by the overlay reader, and shows
  targets of the scene in scene order, each with its frame, its label's glyphs and a label off its safe point; every label
  lies on the surface and no two labels overlap.\<close>

theorem composed_overlay:
  "case snd (validate_packet span True True) of
     None \<Rightarrow> True
   | Some scene \<Rightarrow>
       (case overlay_compose (Some scene) (Some labels)
              (config\<lparr>cc_desktop_to_surface := Some (snd (transform_initialize desc t0)), cc_styles := Some styles,
                 cc_glyph_symbols := Some symbols\<rparr>) (Some w) (Some output_size) True stats of
          None \<Rightarrow> False
        | Some (result, _, None) \<Rightarrow> result \<noteq> SACCADE_OK
        | Some (result, _, Some (bytes, res, w')) \<Rightarrow>
            result = SACCADE_OK \<and> composed_right config desc t0 scene styles symbols labels output_size bytes res w')"
proof (cases "snd (validate_packet span True True)")
  case (Some scene)
  have "length (pv_targets scene) \<le> 10000" using read_view_count [of span] Some by simp
  note right = composed_packet [OF this refl, where config = config and desc = desc and ?t0.0 = t0 and styles = styles and symbols = symbols and labels = labels and w = w and output_size = output_size and stats = stats]
  then obtain r st out where o: "overlay_compose (Some scene) (Some labels)
        (config\<lparr>cc_desktop_to_surface := Some (snd (transform_initialize desc t0)), cc_styles := Some styles,
           cc_glyph_symbols := Some symbols\<rparr>) (Some w) (Some output_size) True stats = Some (r, st, out)"
    by (auto split: option.splits)
  show ?thesis using right unfolding Some option.case o by (cases out) auto
qed simp

end
