(* ===== verification/Composer_Reference.thy ===== *)
theory Composer_Reference
  imports Overlay_Composer
begin

text \<open>
  What the overlay composer (\<open>src/application/overlay_composer.cpp\<close>) computes for the labels of a frozen
  hint session, stated without its buckets, tables and counters: the targets of the scene one by one,
  each label at the first position free of the labels placed before, which are all looked at. The
  composer agrees with it in every result, so each of its failures has exactly the cause named here.
\<close>

subsection \<open>The reference\<close>

text \<open>One target: the targets drawn before and after it, and the result. A target of another display,
  outside the source of the transform or too small on the surface is not drawn.\<close>

definition reference_target ::
  "compose_config \<Rightarrow> coordinate_transform \<Rightarrow> overlay_style list \<Rightarrow> u16 list \<Rightarrow> nat \<Rightarrow> int \<Rightarrow> int \<Rightarrow> target_record \<Rightarrow> hint_label \<Rightarrow>
     overlay_target list \<Rightarrow> saccade_result \<times> overlay_target list" where
  "reference_target config transform styles symbols output_size sw sh source label ts =
     (if tr_display_id source \<noteq> 0 \<and> tr_display_id source \<noteq> cc_display_id config then (SACCADE_OK, ts)
      else if \<not> rect_valid (target_rect source) then (SACCADE_ERROR_INVALID_ARGUMENT, ts)
      else case snd (map_rect_clipped transform (target_rect source) True) of
          None \<Rightarrow> (SACCADE_OK, ts)
        | Some m \<Rightarrow>
            let x = sint (rc_x m) div 32; right = (sint (rc_x m) + sint (rc_width m) + 31) div 32;
                y = sint (rc_y m) div 32; bottom = (sint (rc_y m) + sint (rc_height m) + 31) div 32
            in if right < x + 2 \<or> bottom < y + 2 then (SACCADE_OK, ts)
               else (case glyph_indices symbols (hl_symbols label) of
                   None \<Rightarrow> (SACCADE_ERROR_UNSUPPORTED, ts)
                 | Some glyphs \<Rightarrow>
                     let t = make_overlay_target config source x y right bottom glyphs
                     in (case free_position t (styles ! unat (ot_style_index t)) (surface_safe_point transform source m) sw sh
                               (map (label_of styles) ts) (cc_placement config) of
                           None \<Rightarrow> (SACCADE_ERROR_BUSY, ts)
                         | Some r \<Rightarrow>
                             if output_size < overlay_size (length ts + 1) (length styles) then (SACCADE_ERROR_CAPACITY, ts)
                             else (SACCADE_OK, ts @ [put_label t r]))))"

fun reference_overlay ::
  "(target_record \<Rightarrow> hint_label \<Rightarrow> overlay_target list \<Rightarrow> saccade_result \<times> overlay_target list) \<Rightarrow> (target_record \<times> hint_label) list \<Rightarrow>
     overlay_target list \<Rightarrow> saccade_result \<times> overlay_target list" where
  "reference_overlay one [] ts = (SACCADE_OK, ts)"
| "reference_overlay one ((source, label) # sources) ts =
     (let (result, ts) = one source label ts in
      if result = SACCADE_OK then reference_overlay one sources ts else (result, ts))"

text \<open>The label of a scene index.\<close>

definition label_for :: "hint_label list \<Rightarrow> nat \<Rightarrow> hint_label" where
  "label_for labels i = the (List.find (\<lambda>l. unat (hl_target_index l) = i) labels)"

subsection \<open>One target\<close>

definition label_fitting :: "target_record \<Rightarrow> hint_label \<Rightarrow> bool" where
  "label_fitting source l \<longleftrightarrow> hl_target_id l = tr_target_id source \<and> hl_symbols l \<noteq> [] \<and> length (hl_symbols l) \<le> 16"

lemma write_overlay_target_reference:
  fixes x y right bottom :: int
  assumes env: "compose_env config desc t0 styles symbols sw sh cw ch" and inv: "compose_inv styles sw sh cw ch c"
    and l: "glyph_indices symbols (hl_symbols l) = Some gs" "label_fitting source l"
  defines "o' \<equiv> make_overlay_target config source x y right bottom gs"
  shows "\<exists>c'. write_overlay_target config styles output_size sw sh cw ch i o' safe c =
    Some (case free_position o' (styles ! unat (ot_style_index o')) safe sw sh (map (label_of styles) (co_targets c)) (cc_placement config) of
        None \<Rightarrow> SACCADE_ERROR_BUSY
      | Some r \<Rightarrow> if output_size < overlay_size (length (co_targets c) + 1) (length styles) then SACCADE_ERROR_CAPACITY else SACCADE_OK, c') \<and>
    co_targets c' =
      (case free_position o' (styles ! unat (ot_style_index o')) safe sw sh (map (label_of styles) (co_targets c)) (cc_placement config) of
        None \<Rightarrow> co_targets c
      | Some r \<Rightarrow> if output_size < overlay_size (length (co_targets c) + 1) (length styles) then co_targets c
          else co_targets c @ [put_label o' r])"
proof -
  let ?s = "styles ! unat (ot_style_index o')" and ?ts = "co_targets c"
  have e: "list_all overlay_style_valid styles" "list_all (\<lambda>s. label_extent s 16 \<le> cw \<and> uint (os_label_height_q3 s) \<le> ch) styles"
    "list_all (\<lambda>role. unat (cc_role_styles config role) < length styles) [0..<11]" using env by (simp_all add: compose_env_def)
  have i: "buckets_inv cw ch (map (label_of styles) ?ts) (co_workspace c)" "list_all (\<lambda>t. label_fits cw ch (label_of styles t)) ?ts"
    using inv by (simp_all add: compose_inv_def)
  have "unat (min (ucast (tr_role source)) (overlay_target_role_count - 1) :: u32) < 11"
    by (simp add: overlay_target_role_count_def min_def word_le_nat_alt)
  then have si: "unat (ot_style_index o') < length styles" using e(3) by (simp add: o'_def make_overlay_target_def list_all_iff)
  then have sv: "overlay_style_valid ?s" "label_extent ?s 16 \<le> cw" "uint (os_label_height_q3 ?s) \<le> ch"
    using e(1,2) by (simp_all add: list_all_length)
  have len: "hl_symbols l \<noteq> []" "length (hl_symbols l) \<le> 16" using l(2) by (simp_all add: label_fitting_def)
  have gc: "uint (ot_glyph_count o') = int (length (hl_symbols l))"
    using glyph_indices_facts [OF l(1)] len(2) by (simp add: o'_def make_overlay_target_def unsigned_of_nat take_bit_nat_eq_self)
  have n: "1 \<le> uint (ot_glyph_count o')" "uint (ot_glyph_count o') \<le> 16" using gc len by (simp_all add: Suc_le_eq)
  have h: "os_label_height_q3 ?s \<noteq> 0" using sv(1) by (simp add: overlay_style_valid_def)
  have lw: "label_extent ?s (uint (ot_glyph_count o')) \<le> cw" using label_extent_mono [OF n(2)] sv(2) by (rule order_trans)
  define f where "f = free_position o' ?s safe sw sh (map (label_of styles) ?ts) (cc_placement config)"
  obtain s where r: "place_label o' ?s safe sw sh cw ch ?ts styles (cc_placement config) (co_workspace c) (co_stats c) =
      Some (map_option (put_label o') f, s)"
    using place_label_exact [OF i label_extent_pos [OF sv(1) n(1)] lw h sv(3)] unfolding f_def by blast
  note written = write_overlay_target_def [of config styles output_size sw sh cw ch i o' safe c, unfolded Let_def r option.case prod.case]
  show ?thesis unfolding written f_def [symmetric] by (cases f) auto
qed

lemma refused_rect: "\<not> rect_valid source \<Longrightarrow> map_rect_clipped t source True = (SACCADE_ERROR_INVALID_ARGUMENT, None)"
  by (simp add: map_rect_clipped_def)

lemma compose_target_reference:
  assumes env: "compose_env config desc t0 styles symbols sw sh cw ch" and inv: "compose_inv styles sw sh cw ch c"
    and l: "label_fitting source l"
  shows "\<exists>c'. compose_target config (snd (transform_initialize desc t0)) styles symbols output_size sw sh cw ch i source (Some l) c =
      Some (fst (reference_target config (snd (transform_initialize desc t0)) styles symbols output_size sw sh source l (co_targets c)), c') \<and>
    co_targets c' = snd (reference_target config (snd (transform_initialize desc t0)) styles symbols output_size sw sh source l (co_targets c))"
proof -
  let ?t = "snd (transform_initialize desc t0)"
  have e: "fst (transform_initialize desc t0) = SACCADE_OK" "rc_x (td_destination desc) = 0" "rc_y (td_destination desc) = 0"
    using env by (simp_all add: compose_env_def)
  show ?thesis
  proof (cases "tr_display_id source \<noteq> 0 \<and> tr_display_id source \<noteq> cc_display_id config")
    case True
    then show ?thesis by (simp add: compose_target_def reference_target_def Let_def)
  next
    case near: False
    consider (ok) m where "map_rect_clipped ?t (target_rect source) True = (SACCADE_OK, Some m)"
      | (outside) "map_rect_clipped ?t (target_rect source) True = (SACCADE_ERROR_NOT_FOUND, None)"
      | (invalid) "map_rect_clipped ?t (target_rect source) True = (SACCADE_ERROR_INVALID_ARGUMENT, None)" "\<not> rect_valid (target_rect source)"
      by (rule map_rect_clipped_results [OF e(1)])
    then show ?thesis
    proof cases
      case (outside)
      then have "rect_valid (target_rect source)" using refused_rect [of "target_rect source" ?t] by auto
      then show ?thesis using outside unfolding compose_target_def reference_target_def Let_def if_not_P [OF near] by simp
    next
      case (invalid)
      then show ?thesis unfolding compose_target_def reference_target_def Let_def if_not_P [OF near] by simp
    next
      case (ok m)
      then have valid: "rect_valid (target_rect source)" using refused_rect [of "target_rect source" ?t] by auto
      note b = mapped_eighths [OF e(1,2,3) ok]
      let ?x = "floor_q3 (sint (rc_x m))" and ?y = "floor_q3 (sint (rc_y m))"
      let ?r = "ceil_q3 (sint (rc_x m) + sint (rc_width m))" and ?b = "ceil_q3 (sint (rc_y m) + sint (rc_height m))"
      have q: "sint (rc_x m) div 32 = ?x" "sint (rc_y m) div 32 = ?y" "(sint (rc_x m) + sint (rc_width m) + 31) div 32 = ?r"
        "(sint (rc_y m) + sint (rc_height m) + 31) div 32 = ?b"
        using b by (simp_all add: floor_q3_def ceil_q3_def)
      note ref = reference_target_def [of config ?t styles symbols output_size sw sh source l "co_targets c",
        unfolded if_not_P [OF near] ok snd_conv option.case Let_def q]
      show ?thesis
      proof (cases "?r - ?x < 2 \<or> ?b - ?y < 2")
        case True
        then show ?thesis using valid unfolding compose_target_def Let_def if_not_P [OF near] ok ref by auto
      next
        case wide: False
        let ?c1 = "c\<lparr>co_stats := (co_stats c)\<lparr>cs_targets_read := cs_targets_read (co_stats c) + 1\<rparr>\<rparr>"
        have step: "compose_target config ?t styles symbols output_size sw sh cw ch i source (Some l) c =
            compose_labeled config styles symbols output_size sw sh cw ch i source (Some l) ?x ?y ?r ?b (surface_safe_point ?t source m) ?c1"
          unfolding compose_target_def Let_def if_not_P [OF near] ok using wide by simp
        have fitting: "\<not> (hl_target_id l \<noteq> tr_target_id source \<or> hl_symbols l = [] \<or> length (hl_symbols l) > OVERLAY_GLYPHS_PER_TARGET)"
          using l by (simp add: label_fitting_def)
        have drawn: "\<not> (?r < ?x + 2 \<or> ?b < ?y + 2)" "\<not> \<not> rect_valid (target_rect source)" using wide valid by linarith+
        show ?thesis
        proof (cases "glyph_indices symbols (hl_symbols l)")
          case None
          then show ?thesis
            unfolding step compose_labeled_def option.case if_not_P [OF fitting] ref if_not_P [OF drawn(1)] if_not_P [OF drawn(2)] by simp
        next
          case (Some gs)
          have inv1: "compose_inv styles sw sh cw ch ?c1" using inv by simp
          show ?thesis
            unfolding step compose_labeled_def option.case if_not_P [OF fitting] ref if_not_P [OF drawn(1)] if_not_P [OF drawn(2)] Some
            using write_overlay_target_reference [OF env inv1 Some l, of output_size i ?x ?y ?r ?b "surface_safe_point ?t source m"]
            by (auto split: option.splits if_splits)
        qed
      qed
    qed
  qed
qed

subsection \<open>The scene\<close>

lemma compose_targets_reference:
  assumes env: "compose_env config desc t0 styles symbols sw sh cw ch" and n: "length sources \<le> 10000"
    and "loop_ok (snd (transform_initialize desc t0)) styles symbols (map (map_prod id Some) sources) output_size sw sh cw ch k c"
      "k + length rest = length sources" "drop k sources = rest" "list_all (\<lambda>(source, l). label_fitting source l) rest"
  shows "\<exists>c'. compose_targets (compose_target config (snd (transform_initialize desc t0)) styles symbols output_size sw sh cw ch) k
        (map (map_prod id Some) rest) c =
      Some (fst (reference_overlay (reference_target config (snd (transform_initialize desc t0)) styles symbols output_size sw sh) rest
        (co_targets c)), c') \<and>
    co_targets c' = snd (reference_overlay (reference_target config (snd (transform_initialize desc t0)) styles symbols output_size sw sh) rest
        (co_targets c))"
  using assms(3-)
proof (induction rest arbitrary: k c)
  case Nil
  then show ?case by simp
next
  case (Cons sl rest)
  obtain source l where sl: "sl = (source, l)" by fastforce
  let ?t = "snd (transform_initialize desc t0)" and ?all = "map (map_prod id Some) sources"
  have k: "k < length sources" using Cons.prems(2) by simp
  have at: "?all ! k = (source, Some l)" using Cons.prems(3) sl k by (simp add: nth_via_drop)
  have inv: "compose_inv styles sw sh cw ch c" using Cons.prems(1) by (simp add: loop_ok_def)
  have fit: "label_fitting source l" using Cons.prems(4) sl by simp
  have len: "k < length ?all" "length ?all \<le> 10000" using k n by simp_all
  then have few: "length (co_targets c) < 10000" using loop_ok_length [OF Cons.prems(1)] by linarith
  obtain c' where c': "compose_target config ?t styles symbols output_size sw sh cw ch k source (Some l) c =
      Some (fst (reference_target config ?t styles symbols output_size sw sh source l (co_targets c)), c')"
    "co_targets c' = snd (reference_target config ?t styles symbols output_size sw sh source l (co_targets c))"
    using compose_target_reference [OF env inv fit] by blast
  obtain r ts where ref: "reference_target config ?t styles symbols output_size sw sh source l (co_targets c) = (r, ts)" by fastforce
  note c' = c' [unfolded ref fst_conv snd_conv]
  have ok: "compose_inv styles sw sh cw ch c'" "wrote_target ?t styles symbols output_size k source (Some l) c r c'"
    using compose_target_step [OF env inv few, of output_size k source "Some l"] c'(1) by (simp_all add: step_ok_def)
  show ?case
  proof (cases "r = SACCADE_OK")
    case True
    have loop: "loop_ok ?t styles symbols ?all output_size sw sh cw ch (Suc k) c'"
      by (rule loop_ok_step [OF Cons.prems(1) len at ok(2,1)])
    have next': "drop (Suc k) sources = rest" using Cons.prems(3) by (metis drop_Suc list.sel(3) tl_drop)
    have rest: "Suc k + length rest = length sources" "list_all (\<lambda>(source, l). label_fitting source l) rest"
      using Cons.prems(2,4) by simp_all
    show ?thesis using Cons.IH [OF loop rest(1) next' rest(2)] c' True by (simp add: sl ref)
  next
    case False
    then show ?thesis using c' by (cases r) (simp_all add: sl ref)
  qed
qed

text \<open>The labels of a frozen session: the table leads from every scene index to a fitting label.\<close>

lemma frozen_table:
  assumes "mset (map (\<lambda>l. unat (hl_target_index l)) ls) = mset [0..<length ts]"
    "list_all (\<lambda>l. hl_target_id l = tr_target_id (ts ! unat (hl_target_index l)) \<and> 1 \<le> length (hl_symbols l) \<and> length (hl_symbols l) \<le> 14) ls"
  shows "index_labels ls (replicate (length ls) None) = Some (map (\<lambda>i. Some (label_for ls i)) [0..<length ts])"
    "list_all (\<lambda>(source, l). label_fitting source l) (zip ts (map (label_for ls) [0..<length ts]))"
proof -
  have len: "length ls = length ts" using arg_cong [OF assms(1), of size] by simp
  have s: "set (map (\<lambda>l. unat (hl_target_index l)) ls) = {..<length ts}"
    using arg_cong [OF assms(1), of set_mset] by (simp add: atLeast0LessThan)
  have "distinct (map (\<lambda>l. unat (hl_target_index l)) ls)" using mset_eq_imp_distinct_iff [OF assms(1)] by simp
  moreover have below: "list_all (\<lambda>l. unat (hl_target_index l) < length (replicate (length ls) None)) ls"
    using s len by (auto simp: list_all_iff)
  moreover have "list_all (\<lambda>l. replicate (length ls) None ! unat (hl_target_index l) = None) ls"
    using below by (simp add: list_all_iff)
  ultimately obtain table where t: "index_labels ls (replicate (length ls) None) = Some table" "length table = length ls"
    "\<And>i. i < length ls \<Longrightarrow> table ! i = (case List.find (\<lambda>l. unat (hl_target_index l) = i) ls of None \<Rightarrow> replicate (length ls) None ! i | Some l \<Rightarrow> Some l)"
    by (rule index_labels_distinct) simp
  have at: "List.find (\<lambda>l. unat (hl_target_index l) = i) ls = Some (label_for ls i) \<and> label_fitting (ts ! i) (label_for ls i)"
    if i: "i < length ts" for i
  proof -
    have "i \<in> set (map (\<lambda>l. unat (hl_target_index l)) ls)" using s i by simp
    then obtain l where l: "List.find (\<lambda>l. unat (hl_target_index l) = i) ls = Some l"
      by (cases "List.find (\<lambda>l. unat (hl_target_index l) = i) ls") auto
    then have "l \<in> set ls \<and> unat (hl_target_index l) = i" by (rule find_Some_iff_hd)
    then show ?thesis using assms(2) l by (auto simp: list_all_iff label_for_def label_fitting_def simp del: One_nat_def)
  qed
  have "table = map (\<lambda>i. Some (label_for ls i)) [0..<length ts]"
    using t(2,3) len at by (intro nth_equalityI) simp_all
  then show "index_labels ls (replicate (length ls) None) = Some (map (\<lambda>i. Some (label_for ls i)) [0..<length ts])"
    using t(1) by simp
  show "list_all (\<lambda>(source, l). label_fitting source l) (zip ts (map (label_for ls) [0..<length ts]))"
    using at by (simp add: list_all_length)
qed

lemma composed_as_reference:
  assumes n: "length (pv_targets scene) \<le> 10000" "length labels = length (pv_targets scene)"
    and config': "config' = config\<lparr>cc_desktop_to_surface := Some (snd (transform_initialize desc t0)), cc_styles := Some styles,
       cc_glyph_symbols := Some symbols\<rparr>"
    and table: "index_labels labels (replicate (length labels) None) = Some (map (\<lambda>i. Some (label_for labels i)) [0..<length (pv_targets scene)])"
      "list_all (\<lambda>(source, l). label_fitting source l) (zip (pv_targets scene) (map (label_for labels) [0..<length (pv_targets scene)]))"
    and guards: "compose_config_valid scene config'" "overlay_header_size \<le> output_size"
      "ceil_q3 (sint (rc_width (td_destination desc))) \<le> 65535" "ceil_q3 (sint (rc_height (td_destination desc))) \<le> 65535"
  defines "expected \<equiv> reference_overlay (reference_target config' (snd (transform_initialize desc t0)) styles symbols output_size
      (ceil_q3 (sint (rc_width (td_destination desc)))) (ceil_q3 (sint (rc_height (td_destination desc)))))
      (zip (pv_targets scene) (map (label_for labels) [0..<length (pv_targets scene)])) []"
  shows "case overlay_compose (Some scene) (Some labels) config' (Some w) (Some output_size) True stats of
      None \<Rightarrow> False
    | Some (result, _, out) \<Rightarrow> result = fst expected \<and>
        (case out of None \<Rightarrow> result \<noteq> SACCADE_OK
         | Some (bytes, _) \<Rightarrow> result = SACCADE_OK \<and> map_option view_targets (snd (validate_overlay (Span bytes) True)) = Some (snd expected))"
proof -
  let ?t = "snd (transform_initialize desc t0)"
  let ?sw = "ceil_q3 (sint (rc_width (td_destination desc)))" and ?sh = "ceil_q3 (sint (rc_height (td_destination desc)))"
  have "ct_valid ?t" using guards(1) by (simp add: compose_config_valid_def config')
  then have d: "ct_desc ?t = desc" using transform_initialize_ok(2,3) by blast
  have ng: "\<not> (\<not> True \<or> \<not> compose_config_valid scene config' \<or> length labels \<noteq> length (pv_targets scene))"
    "\<not> output_size < overlay_header_size" "\<not> (?sw > 65535 \<or> ?sh > 65535)" using guards n by simp_all
  have sel: "cc_desktop_to_surface config' = Some ?t" "cc_styles config' = Some styles" "cc_glyph_symbols config' = Some symbols"
    by (simp_all add: config')
  obtain cw ch where cell: "cell_extents styles = (cw, ch)" by fastforce
  let ?sources = "zip (pv_targets scene) (map (label_for labels) [0..<length (pv_targets scene)])"
  have zipped: "zip (pv_targets scene) (map (\<lambda>i. Some (label_for labels i)) [0..<length (pv_targets scene)]) = map (map_prod id Some) ?sources"
    by (intro nth_equalityI) simp_all
  note unf = overlay_compose_def [of "Some scene" "Some labels" config' "Some w" "Some output_size" True stats,
      unfolded sel prod.case option.case if_not_P [OF ng(1)] if_not_P [OF ng(2)] d table(1) Let_def if_not_P [OF ng(3)] cell zipped]
  have env: "compose_env config' desc t0 styles symbols ?sw ?sh cw ch" "1 \<le> length styles" "length styles \<le> 16"
    using compose_config_env [where scene = scene and config = config and desc = desc and ?t0.0 = t0 and styles = styles and symbols = symbols
      and cw = cw and ch = ch] guards cell unfolding config' by simp_all
  let ?c0 = "\<lparr>co_targets = [], co_workspace = reset_workspace w, co_stats = stats, co_active = OVERLAY_ACTIVE_TARGET_NONE\<rparr>"
  let ?run = "compose_targets (compose_target config' ?t styles symbols output_size ?sw ?sh cw ch) 0 (map (map_prod id Some) ?sources) ?c0"
  have few: "length ?sources \<le> 10000" using n(1) by simp
  obtain c' where c': "?run = Some (fst expected, c')" "co_targets c' = snd expected"
    using compose_targets_reference [OF env(1) few
        loop_ok_start [of ?t styles symbols "map (map_prod id Some) ?sources" output_size ?sw ?sh cw ch w stats OVERLAY_ACTIVE_TARGET_NONE]
        _ _ table(2)]
    unfolding expected_def by auto
  show ?thesis
  proof (cases "fst expected = SACCADE_OK")
    case False
    then have "overlay_compose (Some scene) (Some labels) config' (Some w) (Some output_size) True stats = Some (fst expected, co_stats c', None)"
      unfolding unf c'(1) option.case prod.case by (cases "fst expected") simp_all
    then show ?thesis using False by simp
  next
    case True
    have "length (map (map_prod id Some) ?sources) \<le> 10000" using few by simp
    from compose_targets_run [OF env(1) this loop_ok_start [of ?t styles symbols "map (map_prod id Some) ?sources" output_size ?sw ?sh cw ch w stats
        OVERLAY_ACTIVE_TARGET_NONE], of "map (map_prod id Some) ?sources"]
    have ok: "loop_ok ?t styles symbols (map (map_prod id Some) ?sources) output_size ?sw ?sh cw ch (length ?sources) c'"
      using c'(1) True by simp
    let ?v = "composed_view config' scene (co_targets c') styles"
    have shown_few: "length (co_targets c') \<le> 10000" using loop_ok_length [OF ok] few by linarith
    have inv: "list_all (placed_ok styles ?sw ?sh) (co_targets c')" using ok by (simp add: loop_ok_def compose_inv_def)
    have wf: "overlay_wf ?v"
      by (rule composed_view_wf [OF shown_few env(2,3) _ inv]) (use env(1) in \<open>simp add: compose_env_def\<close>)
    note valid = validate_overlay_complete [OF wf]
    have "view_targets ?v = snd expected" by (simp add: composed_view_def view_targets_def c'(2))
    moreover obtain res where "overlay_compose (Some scene) (Some labels) config' (Some w) (Some output_size) True stats =
        Some (SACCADE_OK, res, Some (put_overlay ?v, \<lparr>cr_byte_size = length (put_overlay ?v), cr_target_count = word_of_nat (length (co_targets c')),
          cr_labels_placed = word_of_nat (length (co_targets c')), cr_active_target_index = co_active c'\<rparr>, co_workspace c'))"
      unfolding unf c'(1) option.case prod.case True saccade_result.case put_composed_view [symmetric] valid by simp
    ultimately show ?thesis using True valid by simp
  qed
qed

subsection \<open>Property\<close>

text \<open>C24. Overlays for a frozen hint session on its own scene: the composer, with its buckets and tables, computes the reference.
  It fails as the reference does, and exactly then: for an invalid configuration; for a buffer without room for a
  header; for a surface too large; else at the first target of the display, in scene order, whose far edge is not a 32-bit
  coordinate (invalid argument), whose label has a symbol without a glyph (unsupported), for whose label each of the eight
  positions covers its safe point or a label placed before, or the label is larger than the surface (busy), or for which the
  buffer has no room (capacity). Otherwise it succeeds, and its packet shows exactly the targets of the reference, every label
  at the first position that is free. The labels themselves are never the reason, nor is the final check of the packet.\<close>

theorem composed_from_hints:
  "let scene = snd (validate_packet span True True); transform = snd (transform_initialize desc t0);
       config' = config\<lparr>cc_desktop_to_surface := Some transform, cc_styles := Some styles, cc_glyph_symbols := Some symbols\<rparr>;
       surface_width = ceil_q3 (sint (rc_width (td_destination desc))); surface_height = ceil_q3 (sint (rc_height (td_destination desc))) in
   case freeze scene hints storage s of
     None \<Rightarrow> False
   | Some (SACCADE_OK, s') \<Rightarrow>
       (let targets = pv_targets (the scene);
            (expected, drawn) = reference_overlay (reference_target config' transform styles symbols output_size surface_width surface_height)
              (zip targets (map (label_for (hs_labels s')) [0..<length targets])) []
        in case overlay_compose scene (Some (hs_labels s')) config' (Some w) (Some output_size) True stats of
          None \<Rightarrow> False
        | Some (result, _, out) \<Rightarrow>
            result = (if \<not> compose_config_valid (the scene) config' then SACCADE_ERROR_INVALID_ARGUMENT
              else if output_size < overlay_header_size then SACCADE_ERROR_CAPACITY
              else if surface_width > 65535 \<or> surface_height > 65535 then SACCADE_ERROR_UNSUPPORTED
              else expected) \<and>
            (case out of None \<Rightarrow> result \<noteq> SACCADE_OK
             | Some (bytes, _) \<Rightarrow> result = SACCADE_OK \<and> map_option view_targets (snd (validate_overlay (Span bytes) True)) = Some drawn))
   | Some (_, s') \<Rightarrow> s' = s"
proof -
  let ?scene = "snd (validate_packet span True True)" and ?t = "snd (transform_initialize desc t0)"
  let ?sw = "ceil_q3 (sint (rc_width (td_destination desc)))" and ?sh = "ceil_q3 (sint (rc_height (td_destination desc)))"
  define config' where "config' = config\<lparr>cc_desktop_to_surface := Some ?t, cc_styles := Some styles, cc_glyph_symbols := Some symbols\<rparr>"
  have few: "?scene = None \<or> length (pv_targets (the ?scene)) \<le> 10000"
    using read_view_count [of span] by (cases ?scene) simp_all
  from freeze_cases [OF few, of hints storage s] show ?thesis
  proof
    assume "\<exists>r. freeze ?scene hints storage s = Some (r, s) \<and> r \<noteq> SACCADE_OK"
    then show ?thesis by (auto simp: Let_def split: saccade_result.splits)
  next
    assume "\<exists>v cap d s'. ?scene = Some v \<and> freeze ?scene hints storage s = Some (SACCADE_OK, s') \<and> hint_config_valid hints \<and>
       grow_capacity (length (hc_alphabet hints)) (length (pv_targets v)) (length (hc_alphabet hints)) 1 = Some (cap, d) \<and>
       hs_labels s' = make_labels (pv_targets v) hints cap d \<and> hs_frozen s'"
    then obtain v cap d s' where v: "?scene = Some v" and f: "freeze ?scene hints storage s = Some (SACCADE_OK, s')"
      and c: "hint_config_valid hints" and n: "length (pv_targets v) \<le> 10000"
      and g: "grow_capacity (length (hc_alphabet hints)) (length (pv_targets v)) (length (hc_alphabet hints)) 1 = Some (cap, d)"
      and l: "hs_labels s' = make_labels (pv_targets v) hints cap d" using few by auto
    let ?labels = "hs_labels s'"
    note mt = make_labels_targets [OF n, of hints cap d]
    have sized: "list_all (\<lambda>l. hl_target_id l = tr_target_id (pv_targets v ! unat (hl_target_index l)) \<and>
        1 \<le> length (hl_symbols l) \<and> length (hl_symbols l) \<le> 14) ?labels"
      using mt(2) make_labels_length [OF c n g] unfolding l by (simp add: list_all_length)
    note table = frozen_table [OF mt(1) [folded l] sized]
    have len: "length ?labels = length (pv_targets v)" by (simp add: l)
    let ?out = "overlay_compose (Some v) (Some ?labels) config' (Some w) (Some output_size) True stats"
    have sel: "cc_desktop_to_surface config' = Some ?t" "cc_styles config' = Some styles" "cc_glyph_symbols config' = Some symbols"
      by (simp_all add: config'_def)
    obtain expected drawn where e: "reference_overlay (reference_target config' ?t styles symbols output_size ?sw ?sh)
        (zip (pv_targets v) (map (label_for ?labels) [0..<length (pv_targets v)])) [] = (expected, drawn)" by fastforce
    have "case ?out of None \<Rightarrow> False
        | Some (result, _, out) \<Rightarrow>
            result = (if \<not> compose_config_valid v config' then SACCADE_ERROR_INVALID_ARGUMENT
              else if output_size < overlay_header_size then SACCADE_ERROR_CAPACITY
              else if ?sw > 65535 \<or> ?sh > 65535 then SACCADE_ERROR_UNSUPPORTED
              else expected) \<and>
            (case out of None \<Rightarrow> result \<noteq> SACCADE_OK
             | Some (bytes, _) \<Rightarrow> result = SACCADE_OK \<and> map_option view_targets (snd (validate_overlay (Span bytes) True)) = Some drawn)"
    proof (cases "compose_config_valid v config' \<and> overlay_header_size \<le> output_size")
      case False
      then show ?thesis using len by (auto simp: overlay_compose_def sel)
    next
      case guards: True
      then have "ct_valid ?t" by (simp add: compose_config_valid_def sel)
      then have desc: "ct_desc ?t = desc" using transform_initialize_ok(2,3) by blast
      show ?thesis
      proof (cases "?sw > 65535 \<or> ?sh > 65535")
        case True
        then have "?out = Some (SACCADE_ERROR_UNSUPPORTED, count_failure stats, None)"
          using guards len table(1) by (simp add: overlay_compose_def sel desc)
        then show ?thesis using guards True by simp
      next
        case False
        then have small: "?sw \<le> 65535" "?sh \<le> 65535" by simp_all
        show ?thesis
          using composed_as_reference [OF n len config'_def table conjunct1 [OF guards] conjunct2 [OF guards] small, of w stats]
            guards False unfolding e by (simp split: option.splits prod.splits)
      qed
    qed
    then show ?thesis unfolding Let_def config'_def [symmetric] v option.sel f [unfolded v] option.case prod.case saccade_result.case e .
  qed
qed

end
