(* ===== verification/Settings.thy ===== *)
theory Settings
  imports Overlay_Packet Hint_Session Input_Plan
begin

text \<open>
  User settings, \<open>src/application/settings.{hpp,cpp}\<close> and the bindings of \<open>src/application/hotkeys.hpp\<close>: the
  document, its validation, its byte format with the migration of older versions, the defaults and their pages, the
  alphabet operations, and the values the other components get from it.

  An enumeration of the document is the word that carries it, since a decoded value is cast before it is checked. An
  array is a list of the array's length (\<open>settings_shape\<close>); a text is its bytes up to the array's end.
\<close>

subsection \<open>Data\<close>

abbreviation maximum_hotkey_bindings :: nat where "maximum_hotkey_bindings \<equiv> 128"
abbreviation language_tag_capacity :: nat where "language_tag_capacity \<equiv> 16"
abbreviation font_family_capacity :: nat where "font_family_capacity \<equiv> 64"
abbreviation settings_encoded_capacity :: nat where "settings_encoded_capacity \<equiv> 4096"
abbreviation settings_version :: u32 where "settings_version \<equiv> 4"
abbreviation minimum_settings_version :: u32 where "minimum_settings_version \<equiv> 2"
abbreviation settings_animate_overlay :: u32 where "settings_animate_overlay \<equiv> 1"
abbreviation settings_reduced_motion :: u32 where "settings_reduced_motion \<equiv> 2"
abbreviation hotkey_always_active :: u16 where "hotkey_always_active \<equiv> 1"
abbreviation hotkey_session_only :: u16 where "hotkey_session_only \<equiv> 2"

text \<open>The commands.\<close>

abbreviation Command_pointer_move :: u32 where "Command_pointer_move \<equiv> 1"
abbreviation Command_hover :: u32 where "Command_hover \<equiv> 2"
abbreviation Command_left_click :: u32 where "Command_left_click \<equiv> 3"
abbreviation Command_right_click :: u32 where "Command_right_click \<equiv> 4"
abbreviation Command_middle_click :: u32 where "Command_middle_click \<equiv> 5"
abbreviation Command_double_click :: u32 where "Command_double_click \<equiv> 6"
abbreviation Command_hold :: u32 where "Command_hold \<equiv> 7"
abbreviation Command_drag :: u32 where "Command_drag \<equiv> 8"
abbreviation Command_scroll_vertical :: u32 where "Command_scroll_vertical \<equiv> 9"
abbreviation Command_scroll_horizontal :: u32 where "Command_scroll_horizontal \<equiv> 10"
abbreviation Command_select_text :: u32 where "Command_select_text \<equiv> 11"
abbreviation Command_repeat_action :: u32 where "Command_repeat_action \<equiv> 12"
abbreviation Command_free_pointer :: u32 where "Command_free_pointer \<equiv> 13"
abbreviation Command_window_activate :: u32 where "Command_window_activate \<equiv> 14"
abbreviation Command_window_cycle_forward :: u32 where "Command_window_cycle_forward \<equiv> 15"
abbreviation Command_window_cycle_backward :: u32 where "Command_window_cycle_backward \<equiv> 16"
abbreviation Command_window_activate_behind :: u32 where "Command_window_activate_behind \<equiv> 17"
abbreviation Command_window_activate_left :: u32 where "Command_window_activate_left \<equiv> 18"
abbreviation Command_window_activate_right :: u32 where "Command_window_activate_right \<equiv> 19"
abbreviation Command_window_activate_up :: u32 where "Command_window_activate_up \<equiv> 20"
abbreviation Command_window_activate_down :: u32 where "Command_window_activate_down \<equiv> 21"
abbreviation Command_mode_single :: u32 where "Command_mode_single \<equiv> 22"
abbreviation Command_mode_dual :: u32 where "Command_mode_dual \<equiv> 23"
abbreviation Command_mode_multi :: u32 where "Command_mode_multi \<equiv> 24"
abbreviation Command_mode_path :: u32 where "Command_mode_path \<equiv> 25"
abbreviation Command_source_pixel :: u32 where "Command_source_pixel \<equiv> 26"
abbreviation Command_source_semantic :: u32 where "Command_source_semantic \<equiv> 27"
abbreviation Command_source_grid :: u32 where "Command_source_grid \<equiv> 28"
abbreviation Command_scope_desktop :: u32 where "Command_scope_desktop \<equiv> 29"
abbreviation Command_scope_active_window :: u32 where "Command_scope_active_window \<equiv> 30"
abbreviation Command_scope_monitor :: u32 where "Command_scope_monitor \<equiv> 31"
abbreviation Command_target_position_next :: u32 where "Command_target_position_next \<equiv> 32"
abbreviation Command_edge_snap_left :: u32 where "Command_edge_snap_left \<equiv> 33"
abbreviation Command_edge_snap_right :: u32 where "Command_edge_snap_right \<equiv> 34"
abbreviation Command_edge_snap_up :: u32 where "Command_edge_snap_up \<equiv> 35"
abbreviation Command_edge_snap_down :: u32 where "Command_edge_snap_down \<equiv> 36"
abbreviation Command_nudge_left :: u32 where "Command_nudge_left \<equiv> 37"
abbreviation Command_nudge_right :: u32 where "Command_nudge_right \<equiv> 38"
abbreviation Command_nudge_up :: u32 where "Command_nudge_up \<equiv> 39"
abbreviation Command_nudge_down :: u32 where "Command_nudge_down \<equiv> 40"
abbreviation Command_confirm :: u32 where "Command_confirm \<equiv> 41"
abbreviation Command_backspace :: u32 where "Command_backspace \<equiv> 42"
abbreviation Command_cancel :: u32 where "Command_cancel \<equiv> 43"
abbreviation Command_suspend_toggle :: u32 where "Command_suspend_toggle \<equiv> 44"
abbreviation Command_open_settings :: u32 where "Command_open_settings \<equiv> 45"
abbreviation Command_restart :: u32 where "Command_restart \<equiv> 46"
abbreviation Command_quit :: u32 where "Command_quit \<equiv> 47"
abbreviation Command_type_text :: u32 where "Command_type_text \<equiv> 48"
abbreviation Command_source_fused :: u32 where "Command_source_fused \<equiv> 49"
abbreviation Command_target_position_1 :: u32 where "Command_target_position_1 \<equiv> 50"
abbreviation Command_target_position_2 :: u32 where "Command_target_position_2 \<equiv> 51"
abbreviation Command_target_position_3 :: u32 where "Command_target_position_3 \<equiv> 52"
abbreviation Command_target_position_4 :: u32 where "Command_target_position_4 \<equiv> 53"
abbreviation Command_target_position_5 :: u32 where "Command_target_position_5 \<equiv> 54"
abbreviation Command_target_position_6 :: u32 where "Command_target_position_6 \<equiv> 55"
abbreviation Command_target_position_7 :: u32 where "Command_target_position_7 \<equiv> 56"
abbreviation Command_target_position_8 :: u32 where "Command_target_position_8 \<equiv> 57"
abbreviation Command_target_position_9 :: u32 where "Command_target_position_9 \<equiv> 58"
abbreviation Command_scroll_up :: u32 where "Command_scroll_up \<equiv> 59"
abbreviation Command_scroll_down :: u32 where "Command_scroll_down \<equiv> 60"
abbreviation Command_scroll_left :: u32 where "Command_scroll_left \<equiv> 61"
abbreviation Command_scroll_right :: u32 where "Command_scroll_right \<equiv> 62"
abbreviation Command_scroll_up_continuous :: u32 where "Command_scroll_up_continuous \<equiv> 63"
abbreviation Command_scroll_down_continuous :: u32 where "Command_scroll_down_continuous \<equiv> 64"
abbreviation Command_scroll_left_continuous :: u32 where "Command_scroll_left_continuous \<equiv> 65"
abbreviation Command_scroll_right_continuous :: u32 where "Command_scroll_right_continuous \<equiv> 66"
abbreviation Command_scope_toggle :: u32 where "Command_scope_toggle \<equiv> 67"

definition last_command :: u32 where "last_command = Command_scope_toggle"

record hotkey_binding =
  hk_command :: u32
  hk_physical_key :: u32
  hk_modifiers :: u32
  hk_flags :: u16
  hk_logical_symbol :: u16

record hint_settings =
  hg_alphabet :: "u16 list"
  hg_physical_keys :: "u32 list"
  hg_language :: "u8 list"
  hg_alphabet_count :: u32
  hg_priority :: u32
  hg_placement :: u32
  hg_sorting :: u32

record detector_settings =
  dg_confidence_q16 :: u16
  dg_text_sensitivity_q16 :: u16
  dg_duplicate_iou_q16 :: u16
  dg_minimum_width_q8 :: u16
  dg_minimum_height_q8 :: u16
  dg_merge_policy :: u32

record grid_settings =
  gg_rows :: u16
  gg_columns :: u16
  gg_margin_x_q8 :: u16
  gg_margin_y_q8 :: u16

record pointer_settings =
  pg_final_position :: u32
  pg_movement_duration_ms :: u32
  pg_anchor_x_q8 :: i32
  pg_anchor_y_q8 :: i32

record action_settings =
  ag_initial_mode :: u32
  ag_timeout_ms :: u32
  ag_hold_duration_ms :: u32
  ag_drag_duration_ms :: u32
  ag_scroll_duration_ms :: u32
  ag_scroll_vertical_q8 :: i32
  ag_scroll_horizontal_q8 :: i32
  ag_click_modifiers :: u32

record appearance_settings =
  eg_font_family :: "u8 list"
  eg_theme :: u32
  eg_placement :: u32
  eg_font_size_q8 :: u32
  eg_font_weight :: u32
  eg_label_rgba :: u32
  eg_background_rgba :: u32
  eg_outline_rgba :: u32
  eg_glow_rgba :: u32
  eg_outline_width_q8 :: u16
  eg_glow_radius_q8 :: u16

record compute_settings =
  kg_policy :: u32
  kg_device_stable_id :: u64

record settings_document =
  sd_bindings :: "hotkey_binding list"
  sd_hints :: hint_settings
  sd_detector :: detector_settings
  sd_grid :: grid_settings
  sd_pointer :: pointer_settings
  sd_actions :: action_settings
  sd_appearance :: appearance_settings
  sd_compute :: compute_settings
  sd_monitor_stable_id :: u64
  sd_binding_count :: u32
  sd_flags :: u32
  sd_source :: u32
  sd_scope :: u32

text \<open>The lengths of the arrays.\<close>

definition hints_shape :: "hint_settings \<Rightarrow> bool" where
  "hints_shape h \<longleftrightarrow> length (hg_alphabet h) = maximum_hint_alphabet \<and> length (hg_physical_keys h) = maximum_hint_alphabet \<and>
     length (hg_language h) = language_tag_capacity"

definition settings_shape :: "settings_document \<Rightarrow> bool" where
  "settings_shape d \<longleftrightarrow> length (sd_bindings d) = maximum_hotkey_bindings \<and> hints_shape (sd_hints d) \<and>
     length (eg_font_family (sd_appearance d)) = font_family_capacity"

text \<open>Value-initialised documents.\<close>

definition zero_binding :: hotkey_binding where
  "zero_binding = \<lparr>hk_command = Command_pointer_move, hk_physical_key = 0, hk_modifiers = 0, hk_flags = 0, hk_logical_symbol = 0\<rparr>"

definition initial_hints :: hint_settings where
  "initial_hints = \<lparr>hg_alphabet = replicate maximum_hint_alphabet 0, hg_physical_keys = replicate maximum_hint_alphabet 0,
     hg_language = replicate language_tag_capacity 0, hg_alphabet_count = 0, hg_priority = 0, hg_placement = 0, hg_sorting = 0\<rparr>"

definition initial_detector :: detector_settings where
  "initial_detector = \<lparr>dg_confidence_q16 = 1, dg_text_sensitivity_q16 = 1, dg_duplicate_iou_q16 = 32768,
     dg_minimum_width_q8 = 4 * 256, dg_minimum_height_q8 = 4 * 256, dg_merge_policy = 0\<rparr>"

definition initial_grid :: grid_settings where
  "initial_grid = \<lparr>gg_rows = 8, gg_columns = 12, gg_margin_x_q8 = 8 * 256, gg_margin_y_q8 = 8 * 256\<rparr>"

definition initial_pointer :: pointer_settings where
  "initial_pointer = \<lparr>pg_final_position = 0, pg_movement_duration_ms = 0, pg_anchor_x_q8 = 0, pg_anchor_y_q8 = 0\<rparr>"

definition initial_actions :: action_settings where
  "initial_actions = \<lparr>ag_initial_mode = 1, ag_timeout_ms = 2000, ag_hold_duration_ms = 0, ag_drag_duration_ms = 0,
     ag_scroll_duration_ms = 0, ag_scroll_vertical_q8 = 3 * 256, ag_scroll_horizontal_q8 = 3 * 256, ag_click_modifiers = 0\<rparr>"

definition initial_appearance :: appearance_settings where
  "initial_appearance = \<lparr>eg_font_family = replicate font_family_capacity 0, eg_theme = 0, eg_placement = 0,
     eg_font_size_q8 = 14 * 256, eg_font_weight = 600, eg_label_rgba = 0xffffffff, eg_background_rgba = 0x1b1b1bd9,
     eg_outline_rgba = 0x000000ff, eg_glow_rgba = 0x00000080, eg_outline_width_q8 = 256, eg_glow_radius_q8 = 2 * 256\<rparr>"

definition initial_compute :: compute_settings where
  "initial_compute = \<lparr>kg_policy = 0, kg_device_stable_id = 0\<rparr>"

definition initial_settings :: settings_document where
  "initial_settings = \<lparr>sd_bindings = replicate maximum_hotkey_bindings zero_binding, sd_hints = initial_hints,
     sd_detector = initial_detector, sd_grid = initial_grid, sd_pointer = initial_pointer, sd_actions = initial_actions,
     sd_appearance = initial_appearance, sd_compute = initial_compute, sd_monitor_stable_id = 0, sd_binding_count = 0,
     sd_flags = settings_animate_overlay, sd_source = 0, sd_scope = 0\<rparr>"

subsection \<open>Default bindings\<close>

definition activation_modifiers :: u32 where "activation_modifiers = MODIFIER_CONTROL OR MODIFIER_ALT"
definition activation_shift_modifiers :: u32 where "activation_shift_modifiers = activation_modifiers OR MODIFIER_SHIFT"

definition make_binding :: "u32 \<times> u32 \<times> u32 \<times> u16 \<times> u16 \<Rightarrow> hotkey_binding" where
  "make_binding = (\<lambda>(command, key, modifiers, flags, symbol).
     \<lparr>hk_command = command, hk_physical_key = key, hk_modifiers = modifiers, hk_flags = flags, hk_logical_symbol = symbol\<rparr>)"

definition default_global_bindings :: "hotkey_binding list" where
  "default_global_bindings = map make_binding [
     (Command_pointer_move, 0x11, activation_modifiers, 0, 78), (Command_hover, 0x12, activation_modifiers, 0, 79),
     (Command_left_click, 0x2c, activation_modifiers, 0, 32), (Command_right_click, 0x15, activation_modifiers, 0, 82),
     (Command_middle_click, 0x10, activation_modifiers, 0, 77), (Command_double_click, 0x07, activation_modifiers, 0, 68),
     (Command_hold, 0x0b, activation_modifiers, 0, 72), (Command_drag, 0x0a, activation_modifiers, 0, 71),
     (Command_scroll_vertical, 0x19, activation_modifiers, 0, 86),
     (Command_scroll_horizontal, 0x05, activation_modifiers, 0, 66), (Command_select_text, 0x17, activation_modifiers, 0, 84),
     (Command_repeat_action, 0x09, activation_modifiers, 0, 70), (Command_free_pointer, 0x13, activation_modifiers, 0, 80),
     (Command_window_activate, 0x1a, activation_modifiers, 0, 87), (Command_type_text, 0x1c, activation_modifiers, 0, 89),
     (Command_scroll_up, 0x0c, activation_modifiers, 0, 73), (Command_scroll_down, 0x0e, activation_modifiers, 0, 75),
     (Command_scroll_left, 0x0d, activation_modifiers, 0, 74), (Command_scroll_right, 0x0f, activation_modifiers, 0, 76),
     (Command_scroll_up_continuous, 0x0c, activation_shift_modifiers, 0, 73),
     (Command_scroll_down_continuous, 0x0e, activation_shift_modifiers, 0, 75),
     (Command_scroll_left_continuous, 0x0d, activation_shift_modifiers, 0, 74),
     (Command_scroll_right_continuous, 0x0f, activation_shift_modifiers, 0, 76),
     (Command_suspend_toggle, 0x45, activation_modifiers, hotkey_always_active, 0)]"

definition default_session_bindings :: "hotkey_binding list" where
  "default_session_bindings = map make_binding [
     (Command_window_cycle_forward, 0x08, MODIFIER_SHIFT, hotkey_session_only, 69),
     (Command_window_cycle_backward, 0x14, MODIFIER_SHIFT, hotkey_session_only, 81),
     (Command_window_activate_behind, 0x1d, MODIFIER_SHIFT, hotkey_session_only, 90),
     (Command_window_activate_left, 0x04, MODIFIER_SHIFT, hotkey_session_only, 65),
     (Command_window_activate_right, 0x07, MODIFIER_SHIFT, hotkey_session_only, 68),
     (Command_window_activate_up, 0x1a, MODIFIER_SHIFT, hotkey_session_only, 87),
     (Command_window_activate_down, 0x16, MODIFIER_SHIFT, hotkey_session_only, 83),
     (Command_mode_single, 0x34, MODIFIER_ALT, hotkey_session_only, 39), (Command_mode_dual, 0x34, 0, hotkey_session_only, 39),
     (Command_mode_multi, 0x34, MODIFIER_SHIFT, hotkey_session_only, 39),
     (Command_mode_path, 0x34, MODIFIER_CONTROL, hotkey_session_only, 39),
     (Command_source_pixel, 0x30, 0, hotkey_session_only, 93), (Command_source_semantic, 0x2f, 0, hotkey_session_only, 91),
     (Command_source_grid, 0x33, 0, hotkey_session_only, 59), (Command_source_fused, 0x31, 0, hotkey_session_only, 92),
     (Command_scope_toggle, 0x2b, 0, hotkey_session_only, 0), (Command_target_position_next, 0x2c, 0, hotkey_session_only, 32),
     (Command_target_position_1, 0x1e, 0, hotkey_session_only, 49),
     (Command_target_position_2, 0x1f, 0, hotkey_session_only, 50),
     (Command_target_position_3, 0x20, 0, hotkey_session_only, 51),
     (Command_target_position_4, 0x21, 0, hotkey_session_only, 52),
     (Command_target_position_5, 0x22, 0, hotkey_session_only, 53),
     (Command_target_position_6, 0x23, 0, hotkey_session_only, 54),
     (Command_target_position_7, 0x24, 0, hotkey_session_only, 55),
     (Command_target_position_8, 0x25, 0, hotkey_session_only, 56),
     (Command_target_position_9, 0x26, 0, hotkey_session_only, 57), (Command_edge_snap_left, 0x50, 0, hotkey_session_only, 0),
     (Command_edge_snap_right, 0x4f, 0, hotkey_session_only, 0), (Command_edge_snap_up, 0x52, 0, hotkey_session_only, 0),
     (Command_edge_snap_down, 0x51, 0, hotkey_session_only, 0),
     (Command_nudge_left, 0x50, MODIFIER_SHIFT, hotkey_session_only, 0),
     (Command_nudge_right, 0x4f, MODIFIER_SHIFT, hotkey_session_only, 0),
     (Command_nudge_up, 0x52, MODIFIER_SHIFT, hotkey_session_only, 0),
     (Command_nudge_down, 0x51, MODIFIER_SHIFT, hotkey_session_only, 0), (Command_confirm, 0x28, 0, hotkey_session_only, 0),
     (Command_backspace, 0x2a, 0, hotkey_session_only, 0), (Command_cancel, 0x29, 0, hotkey_session_only, 0)]"


subsection \<open>Checks\<close>

definition enum_between :: "u32 \<Rightarrow> u32 \<Rightarrow> u32 \<Rightarrow> bool" where
  "enum_between v lowest highest \<longleftrightarrow> v \<ge> lowest \<and> v \<le> highest"

definition settings_flag_mask :: u32 where "settings_flag_mask = settings_animate_overlay OR settings_reduced_motion"
definition binding_flag_mask :: u16 where "binding_flag_mask = hotkey_always_active OR hotkey_session_only"

text \<open>The text before the first zero byte, and zeros only behind it.\<close>

definition text_valid :: "u8 list \<Rightarrow> bool \<Rightarrow> bool" where
  "text_valid text_bytes allow_empty \<longleftrightarrow> (let stop = length (takeWhile (\<lambda>c. c \<noteq> 0) text_bytes) in
     \<not> (stop = length text_bytes \<or> (\<not> allow_empty \<and> stop = 0)) \<and> list_all (\<lambda>c. c = 0) (drop (stop + 1) text_bytes))"

definition canonical_hint_symbol :: "u16 \<Rightarrow> u16" where
  "canonical_hint_symbol symbol = (if symbol \<ge> 97 \<and> symbol \<le> 122 then symbol - (97 - 65) else symbol)"

fun language_segments :: "bool \<Rightarrow> u8 list \<Rightarrow> bool" where
  "language_segments segment_start [] = (\<not> segment_start)"
| "language_segments segment_start (c # cs) =
     (if c = 0 then \<not> segment_start
      else if c = 45 then (if segment_start then False else language_segments True cs)
      else if \<not> ((c \<ge> 97 \<and> c \<le> 122) \<or> (c \<ge> 65 \<and> c \<le> 90)) \<and> \<not> (c \<ge> 48 \<and> c \<le> 57) then False
      else language_segments False cs)"

definition language_tag_valid :: "u8 list \<Rightarrow> bool" where
  "language_tag_valid language \<longleftrightarrow> (if \<not> text_valid language False then False else language_segments True language)"

definition hint_key_valid :: "u32 \<Rightarrow> bool" where
  "hint_key_valid physical_key \<longleftrightarrow>
     (physical_key \<ge> 0x04 \<and> physical_key \<le> 0x27) \<or> (physical_key \<ge> 0x2c \<and> physical_key \<le> 0x38)"

definition symbol_valid :: "u16 \<Rightarrow> bool" where
  "symbol_valid symbol \<longleftrightarrow> symbol < 0xd800 \<or> symbol > 0xdfff"

definition binding_valid :: "hotkey_binding \<Rightarrow> bool" where
  "binding_valid b \<longleftrightarrow>
     (let key = hk_physical_key b;
          printable_key = (key \<ge> 0x04 \<and> key \<le> 0x27) \<or> (key \<ge> 0x2c \<and> key \<le> 0x31) \<or> (key \<ge> 0x33 \<and> key \<le> 0x38)
      in enum_between (hk_command b) Command_pointer_move last_command \<and> key \<ge> 0x04 \<and> key \<le> 0xe7 \<and>
         hk_modifiers b AND NOT modifier_mask = 0 \<and> hk_flags b AND NOT binding_flag_mask = 0 \<and> symbol_valid (hk_logical_symbol b) \<and>
         hk_flags b AND (hotkey_always_active OR hotkey_session_only) \<noteq> (hotkey_always_active OR hotkey_session_only) \<and>
         (\<not> printable_key \<or> hk_logical_symbol b \<noteq> 0))"

text \<open>The loop over the used letters, each compared with the ones before.\<close>

fun letters_valid :: "(u16 \<times> u32) list \<Rightarrow> (u16 \<times> u32) list \<Rightarrow> bool" where
  "letters_valid previous [] = True"
| "letters_valid previous ((symbol, key) # letters) =
     (if symbol = 0 \<or> (symbol \<ge> 0xd800 \<and> symbol \<le> 0xdfff) \<or> \<not> hint_key_valid key then False
      else if list_ex (\<lambda>(s, k). canonical_hint_symbol s = canonical_hint_symbol symbol \<or> k = key) previous then False
      else letters_valid (previous @ [(symbol, key)]) letters)"

definition hint_letters :: "hint_settings \<Rightarrow> (u16 \<times> u32) list" where
  "hint_letters h = zip (hg_alphabet h) (hg_physical_keys h)"

definition hints_valid :: "hint_settings \<Rightarrow> bool" where
  "hints_valid h \<longleftrightarrow>
     (if hg_alphabet_count h < 2 \<or> unat (hg_alphabet_count h) > length (hg_alphabet h) \<or> \<not> enum_between (hg_priority h) 0 3 \<or>
         \<not> enum_between (hg_placement h) 0 4 \<or> \<not> enum_between (hg_sorting h) 0 1 \<or> \<not> language_tag_valid (hg_language h)
      then False
      else letters_valid [] (take (unat (hg_alphabet_count h)) (hint_letters h)) \<and>
        list_all (\<lambda>(symbol, key). symbol = 0 \<and> key = 0) (drop (unat (hg_alphabet_count h)) (hint_letters h)))"

fun check_bindings :: "hotkey_binding list \<Rightarrow> hotkey_binding list \<Rightarrow> saccade_result" where
  "check_bindings previous [] = SACCADE_OK"
| "check_bindings previous (b # bs) =
     (if \<not> binding_valid b then SACCADE_ERROR_INVALID_ARGUMENT
      else if list_ex (\<lambda>p. hk_physical_key p = hk_physical_key b \<and> hk_modifiers p = hk_modifiers b) previous
      then SACCADE_ERROR_ALREADY_EXISTS
      else check_bindings (previous @ [b]) bs)"

definition pages_valid :: "settings_document \<Rightarrow> bool" where
  "pages_valid d \<longleftrightarrow> (let detector = sd_detector d; grid = sd_grid d; pointer = sd_pointer d; actions = sd_actions d;
       appearance = sd_appearance d; compute = sd_compute d in
     \<not> (dg_confidence_q16 detector = 0 \<or> dg_text_sensitivity_q16 detector = 0 \<or> dg_duplicate_iou_q16 detector = 0 \<or>
        dg_minimum_width_q8 detector = 0 \<or> dg_minimum_height_q8 detector = 0 \<or> \<not> enum_between (dg_merge_policy detector) 0 3 \<or>
        gg_rows grid = 0 \<or> gg_columns grid = 0 \<or> (ucast (gg_rows grid) :: u32) * ucast (gg_columns grid) > TARGET_PACKET_MAX_TARGETS \<or>
        \<not> enum_between (pg_final_position pointer) 0 2 \<or> pg_movement_duration_ms pointer > 10000 \<or>
        \<not> enum_between (ag_initial_mode actions) 1 4 \<or> ag_timeout_ms actions < 100 \<or> ag_timeout_ms actions > 60000 \<or>
        ag_hold_duration_ms actions > 60000 \<or> ag_drag_duration_ms actions > 60000 \<or> ag_scroll_duration_ms actions > 60000 \<or>
        ag_scroll_vertical_q8 actions = 0 \<or> ag_scroll_vertical_q8 actions = 0x80000000 \<or>
        ag_scroll_horizontal_q8 actions = 0 \<or> ag_scroll_horizontal_q8 actions = 0x80000000 \<or>
        ag_click_modifiers actions AND NOT modifier_mask \<noteq> 0 \<or> \<not> text_valid (eg_font_family appearance) False \<or>
        \<not> enum_between (eg_theme appearance) 0 4 \<or> \<not> enum_between (eg_placement appearance) 0 4 \<or>
        eg_font_size_q8 appearance = 0 \<or> eg_font_size_q8 appearance > 128 * 256 \<or> eg_font_weight appearance < 100 \<or>
        eg_font_weight appearance > 1000 \<or> \<not> enum_between (kg_policy compute) 0 4 \<or>
        (kg_policy compute = 4) \<noteq> (kg_device_stable_id compute \<noteq> 0)))"

definition validate_settings :: "settings_document \<Rightarrow> saccade_result" where
  "validate_settings d =
     (if unat (sd_binding_count d) > length (sd_bindings d) \<or> sd_flags d AND NOT settings_flag_mask \<noteq> 0 \<or>
         \<not> enum_between (sd_source d) 0 3 \<or> \<not> enum_between (sd_scope d) 0 2 \<or>
         (sd_scope d = 2 \<and> sd_monitor_stable_id d = 0) \<or> \<not> hints_valid (sd_hints d)
      then SACCADE_ERROR_INVALID_ARGUMENT
      else let used = check_bindings [] (take (unat (sd_binding_count d)) (sd_bindings d)) in
        if used \<noteq> SACCADE_OK then used
        else if \<not> list_all (\<lambda>b. hk_physical_key b = 0 \<and> hk_modifiers b = 0 \<and> hk_flags b = 0 \<and> hk_logical_symbol b = 0)
                    (drop (unat (sd_binding_count d)) (sd_bindings d))
        then SACCADE_ERROR_INVALID_ARGUMENT
        else if \<not> pages_valid d then SACCADE_ERROR_INVALID_ARGUMENT
        else SACCADE_OK)"

subsection \<open>Physical keys of the alphabet\<close>

text \<open>The key of the US layout that types a symbol, zero if there is none.\<close>

definition us_physical_key :: "u16 \<Rightarrow> u32" where
  "us_physical_key symbol =
     (let upper = canonical_hint_symbol symbol in
      if upper \<ge> 65 \<and> upper \<le> 90 then 0x04 + ucast upper - 65
      else if symbol \<ge> 49 \<and> symbol \<le> 57 then 0x1e + ucast symbol - 49
      else if symbol = 48 then 0x27
      else if symbol = 32 then 0x2c
      else if symbol = 45 \<or> symbol = 95 then 0x2d
      else if symbol = 61 \<or> symbol = 43 then 0x2e
      else if symbol = 91 \<or> symbol = 123 then 0x2f
      else if symbol = 93 \<or> symbol = 125 then 0x30
      else if symbol = 92 \<or> symbol = 124 then 0x31
      else if symbol = 59 \<or> symbol = 58 then 0x33
      else if symbol = 39 \<or> symbol = 34 then 0x34
      else if symbol = 96 \<or> symbol = 126 then 0x35
      else if symbol = 44 \<or> symbol = 60 then 0x36
      else if symbol = 46 \<or> symbol = 62 then 0x37
      else if symbol = 47 \<or> symbol = 63 then 0x38
      else 0)"

definition key_used :: "u32 list \<Rightarrow> nat \<Rightarrow> u32 \<Rightarrow> bool" where
  "key_used physical_keys n physical_key \<longleftrightarrow> physical_key \<in> set (take n physical_keys)"

definition fallback_keys :: "u32 list" where "fallback_keys = map word_of_nat [0x04..<0x28]"

definition migrated_key :: "u32 list \<Rightarrow> nat \<Rightarrow> u16 \<Rightarrow> u32" where
  "migrated_key physical_keys i symbol =
     (let physical_key = us_physical_key symbol in
      if \<not> hint_key_valid physical_key \<or> key_used physical_keys i physical_key
      then (case List.find (\<lambda>candidate. \<not> key_used physical_keys i candidate) fallback_keys of
              None \<Rightarrow> 0 | Some candidate \<Rightarrow> candidate)
      else physical_key)"

definition migrate_hint_keys :: "hint_settings \<Rightarrow> hint_settings" where
  "migrate_hint_keys h = h\<lparr>hg_physical_keys :=
     foldl (\<lambda>physical_keys i. physical_keys[i := migrated_key physical_keys i (hg_alphabet h ! i)]) (hg_physical_keys h)
       [0..<unat (hg_alphabet_count h)]\<rparr>"

definition set_hint_alphabet :: "hint_settings option \<Rightarrow> u16 list option \<Rightarrow> saccade_result \<times> hint_settings option" where
  "set_hint_alphabet hints symbols =
     (case (hints, symbols) of
        (Some h, Some symbols) \<Rightarrow>
          if length symbols < 2 \<or> length symbols > length (hg_alphabet h) then (SACCADE_ERROR_INVALID_ARGUMENT, hints)
          else let n = length (hg_alphabet h);
                   updated = migrate_hint_keys (h\<lparr>hg_alphabet := symbols @ replicate (n - length symbols) 0,
                     hg_physical_keys := replicate n 0, hg_alphabet_count := word_of_nat (length symbols)\<rparr>)
          in if \<not> hints_valid updated then (SACCADE_ERROR_INVALID_ARGUMENT, hints) else (SACCADE_OK, Some updated)
      | _ \<Rightarrow> (SACCADE_ERROR_INVALID_ARGUMENT, hints))"

text \<open>Translated alphabets. One pass looks for the first two equal letters, in the order of the loops, and takes one of
  them back to its untranslated letter; \<open>None\<close> stands for a loop that does not end.\<close>

fun first_clash :: "u16 list \<Rightarrow> nat list \<Rightarrow> (nat \<times> nat) option" where
  "first_clash alphabet [] = None"
| "first_clash alphabet (i # is) =
     (case List.find (\<lambda>previous. canonical_hint_symbol (alphabet ! previous) = canonical_hint_symbol (alphabet ! i)) [0..<i] of
        Some previous \<Rightarrow> Some (previous, i)
      | None \<Rightarrow> first_clash alphabet is)"

partial_function (option) resolve_clashes ::
  "u16 list \<Rightarrow> nat \<Rightarrow> bool list \<Rightarrow> u16 list \<Rightarrow> (saccade_result \<times> u16 list) option" where
  "resolve_clashes original n translated alphabet =
     (case first_clash alphabet [0..<n] of
        None \<Rightarrow> Some (SACCADE_OK, alphabet)
      | Some (previous, i) \<Rightarrow>
          if \<not> translated ! previous \<and> \<not> translated ! i then Some (SACCADE_ERROR_ALREADY_EXISTS, alphabet)
          else let fallback = (if translated ! i then i else previous)
            in resolve_clashes original n (translated[fallback := False]) (alphabet[fallback := original ! fallback]))"

definition symbol_translated :: "u16 \<Rightarrow> bool" where
  "symbol_translated symbol \<longleftrightarrow> symbol \<noteq> 0 \<and> (symbol < 0xd800 \<or> symbol > 0xdfff)"

definition resolve_hint_alphabet ::
  "hint_settings \<Rightarrow> u16 list option \<Rightarrow> bool \<Rightarrow> (saccade_result \<times> hint_settings option) option" where
  "resolve_hint_alphabet h translated_symbols out =
     (case translated_symbols of
        None \<Rightarrow> Some (SACCADE_ERROR_INVALID_ARGUMENT, None)
      | Some symbols \<Rightarrow>
          if \<not> out \<or> \<not> hints_valid h then Some (SACCADE_ERROR_INVALID_ARGUMENT, None)
          else let n = unat (hg_alphabet_count h);
                   translated = map (\<lambda>i. symbol_translated (symbols ! i)) [0..<n];
                   alphabet = map (\<lambda>i. if translated ! i then symbols ! i else hg_alphabet h ! i) [0..<n] @ drop n (hg_alphabet h)
          in case resolve_clashes (hg_alphabet h) n translated alphabet of
               None \<Rightarrow> None
             | Some (result, alphabet) \<Rightarrow>
                 let resolved = h\<lparr>hg_alphabet := alphabet\<rparr> in
                 if result \<noteq> SACCADE_OK then Some (result, Some resolved)
                 else Some (if hints_valid resolved then SACCADE_OK else SACCADE_ERROR_INVALID_ARGUMENT, Some resolved))"


subsection \<open>Defaults and pages\<close>

text \<open>\<open>memcpy\<close> of a literal with its terminating zero into a zeroed array.\<close>

definition text_array :: "nat \<Rightarrow> u8 list \<Rightarrow> u8 list" where
  "text_array capacity literal = literal @ replicate (capacity - length literal) 0"

definition default_hints :: hint_settings where
  "default_hints = initial_hints\<lparr>
     hg_alphabet := [65, 83, 68, 70, 74, 75, 76, 71, 72, 69] @ drop 10 (hg_alphabet initial_hints),
     hg_physical_keys := [0x04, 0x16, 0x07, 0x09, 0x0d, 0x0e, 0x0f, 0x0a, 0x0b, 0x08] @ drop 10 (hg_physical_keys initial_hints),
     hg_alphabet_count := 10,
     hg_language := text_array language_tag_capacity [117, 110, 100]\<rparr>"

definition default_settings :: settings_document where
  "default_settings = initial_settings\<lparr>sd_hints := default_hints,
     sd_appearance := initial_appearance\<lparr>eg_font_family :=
       text_array font_family_capacity [115, 121, 115, 116, 101, 109, 45, 117, 105]\<rparr>,
     sd_bindings := default_global_bindings @ default_session_bindings @
       drop (length default_global_bindings + length default_session_bindings) (sd_bindings initial_settings),
     sd_binding_count := word_of_nat (length default_global_bindings + length default_session_bindings)\<rparr>"

datatype settings_page = Page_bindings | Page_hints | Page_detector | Page_scope | Page_pointer | Page_appearance | Page_compute |
  Page_other u32

fun reset_page :: "settings_page \<Rightarrow> settings_document \<Rightarrow> settings_document" where
  "reset_page Page_bindings d = d\<lparr>sd_bindings := sd_bindings default_settings, sd_binding_count := sd_binding_count default_settings\<rparr>"
| "reset_page Page_hints d = d\<lparr>sd_hints := sd_hints default_settings\<rparr>"
| "reset_page Page_detector d = d\<lparr>sd_detector := sd_detector default_settings, sd_grid := sd_grid default_settings,
     sd_source := sd_source default_settings\<rparr>"
| "reset_page Page_scope d = d\<lparr>sd_scope := sd_scope default_settings, sd_monitor_stable_id := sd_monitor_stable_id default_settings\<rparr>"
| "reset_page Page_pointer d = d\<lparr>sd_pointer := sd_pointer default_settings, sd_actions := sd_actions default_settings\<rparr>"
| "reset_page Page_appearance d = d\<lparr>sd_appearance := sd_appearance default_settings, sd_flags := sd_flags default_settings\<rparr>"
| "reset_page Page_compute d = d\<lparr>sd_compute := sd_compute default_settings\<rparr>"
| "reset_page (Page_other p) d = d"

definition reset_settings_page :: "settings_page \<Rightarrow> settings_document option \<Rightarrow> saccade_result \<times> settings_document option" where
  "reset_settings_page page settings =
     (case settings of
        None \<Rightarrow> (SACCADE_ERROR_INVALID_ARGUMENT, None)
      | Some d \<Rightarrow>
          (case page of Page_other p \<Rightarrow> (SACCADE_ERROR_INVALID_ARGUMENT, Some d)
           | _ \<Rightarrow> (validate_settings (reset_page page d), Some (reset_page page d))))"

subsection \<open>Encoding\<close>

record settings_writer =
  wr_out :: "u8 list"
  wr_capacity :: nat
  wr_failed :: bool

definition write_bytes :: "settings_writer \<Rightarrow> u8 list \<Rightarrow> settings_writer" where
  "write_bytes w source =
     (if wr_failed w \<or> length source > wr_capacity w - length (wr_out w) then w\<lparr>wr_failed := True\<rparr>
      else w\<lparr>wr_out := wr_out w @ source\<rparr>)"

text \<open>The pieces the writer gets, in order; a 64-bit word is two pieces.\<close>

definition u64_pieces :: "u64 \<Rightarrow> u8 list list" where
  "u64_pieces v = [put_u32 (ucast v), put_u32 (ucast (drop_bit 32 v))]"

definition binding_pieces :: "hotkey_binding \<Rightarrow> u8 list list" where
  "binding_pieces b = [put_u32 (hk_command b), put_u32 (hk_physical_key b), put_u32 (hk_modifiers b), put_u32 (ucast (hk_flags b)),
     put_u16 (hk_logical_symbol b)]"

definition hints_pieces :: "hint_settings \<Rightarrow> u8 list list" where
  "hints_pieces h = [put_u32 (hg_alphabet_count h)] @ map put_u16 (hg_alphabet h) @ map put_u32 (hg_physical_keys h) @
     [hg_language h, put_u32 (hg_priority h), put_u32 (hg_placement h), put_u32 (hg_sorting h)]"

definition detector_pieces :: "detector_settings \<Rightarrow> u8 list list" where
  "detector_pieces d = [put_u16 (dg_confidence_q16 d), put_u16 (dg_text_sensitivity_q16 d), put_u16 (dg_duplicate_iou_q16 d),
     put_u16 (dg_minimum_width_q8 d), put_u16 (dg_minimum_height_q8 d), put_u16 0, put_u32 (dg_merge_policy d)]"

definition grid_pieces :: "grid_settings \<Rightarrow> u8 list list" where
  "grid_pieces g = [put_u16 (gg_rows g), put_u16 (gg_columns g), put_u16 (gg_margin_x_q8 g), put_u16 (gg_margin_y_q8 g)]"

definition pointer_pieces :: "pointer_settings \<Rightarrow> u8 list list" where
  "pointer_pieces p = [put_u32 (pg_final_position p), put_u32 (pg_movement_duration_ms p), put_u32 (pg_anchor_x_q8 p),
     put_u32 (pg_anchor_y_q8 p)]"

definition action_pieces :: "action_settings \<Rightarrow> u8 list list" where
  "action_pieces a = [put_u32 (ag_initial_mode a), put_u32 (ag_timeout_ms a), put_u32 (ag_hold_duration_ms a),
     put_u32 (ag_drag_duration_ms a), put_u32 (ag_scroll_duration_ms a), put_u32 (ag_scroll_vertical_q8 a),
     put_u32 (ag_scroll_horizontal_q8 a), put_u32 (ag_click_modifiers a)]"

definition appearance_pieces :: "appearance_settings \<Rightarrow> u8 list list" where
  "appearance_pieces e = [eg_font_family e, put_u32 (eg_theme e), put_u32 (eg_placement e), put_u32 (eg_font_size_q8 e),
     put_u32 (eg_font_weight e), put_u32 (eg_label_rgba e), put_u32 (eg_background_rgba e), put_u32 (eg_outline_rgba e),
     put_u32 (eg_glow_rgba e), put_u16 (eg_outline_width_q8 e), put_u16 (eg_glow_radius_q8 e)]"

definition compute_pieces :: "compute_settings \<Rightarrow> u8 list list" where
  "compute_pieces k = put_u32 (kg_policy k) # u64_pieces (kg_device_stable_id k)"

definition body_pieces :: "settings_document \<Rightarrow> u8 list list" where
  "body_pieces d = [put_u32 (sd_flags d), put_u32 (sd_binding_count d), put_u32 (sd_source d), put_u32 (sd_scope d)] @
     u64_pieces (sd_monitor_stable_id d) @ concat (map binding_pieces (take (unat (sd_binding_count d)) (sd_bindings d))) @
     hints_pieces (sd_hints d) @ detector_pieces (sd_detector d) @ grid_pieces (sd_grid d) @ pointer_pieces (sd_pointer d) @
     action_pieces (sd_actions d) @ appearance_pieces (sd_appearance d) @ compute_pieces (sd_compute d)"

definition settings_magic :: "u8 list" where "settings_magic = [83, 67, 83, 84]"

text \<open>The result, the size if its pointer is not null, and the buffer.\<close>

definition encode_settings ::
  "settings_document \<Rightarrow> u8 list option \<Rightarrow> bool \<Rightarrow> saccade_result \<times> nat option \<times> u8 list option" where
  "encode_settings d buffer out_size =
     (case buffer of
        None \<Rightarrow> (SACCADE_ERROR_INVALID_ARGUMENT, None, None)
      | Some data \<Rightarrow>
          if \<not> out_size \<or> length data > settings_encoded_capacity then (SACCADE_ERROR_INVALID_ARGUMENT, None, Some data)
          else let valid = validate_settings d in
            if valid \<noteq> SACCADE_OK then (valid, Some 0, Some data)
            else let w = foldl write_bytes \<lparr>wr_out = [], wr_capacity = length data, wr_failed = False\<rparr>
                   ([settings_magic, put_u32 settings_version, put_u32 0] @ body_pieces d)
            in if wr_failed w then (SACCADE_ERROR_CAPACITY, Some 0, Some (wr_out w @ drop (length (wr_out w)) data))
               else let total = length (wr_out w);
                        out = take 8 (wr_out w) @ put_u32 (word_of_nat total) @ drop 12 (wr_out w)
               in (SACCADE_OK, Some total, Some (out @ drop total data)))"

subsection \<open>Decoding\<close>

text \<open>The reader: \<open>None\<close> once a read failed. Then it delivers zeros.\<close>

type_synonym settings_reader = "u8 list option"

definition read_bytes :: "nat \<Rightarrow> settings_reader \<Rightarrow> u8 list \<times> settings_reader" where
  "read_bytes n r =
     (case r of None \<Rightarrow> (replicate n 0, None)
      | Some bs \<Rightarrow> if n > length bs then (replicate n 0, None) else (take n bs, Some (drop n bs)))"

definition read_word :: "nat \<Rightarrow> settings_reader \<Rightarrow> 'a::len word \<times> settings_reader" where
  "read_word n r = (let (bs, r) = read_bytes n r in (word_of_nat (le_value bs), r))"

abbreviation read_u16 :: "settings_reader \<Rightarrow> u16 \<times> settings_reader" where "read_u16 \<equiv> read_word 2"
abbreviation read_u32 :: "settings_reader \<Rightarrow> u32 \<times> settings_reader" where "read_u32 \<equiv> read_word 4"

definition read_u64 :: "settings_reader \<Rightarrow> u64 \<times> settings_reader" where
  "read_u64 r = (let (low, r) = read_u32 r; (high, r) = read_u32 r in (ucast low OR push_bit 32 (ucast high), r))"

fun read_list :: "(settings_reader \<Rightarrow> 'v \<times> settings_reader) \<Rightarrow> nat \<Rightarrow> settings_reader \<Rightarrow> 'v list \<times> settings_reader" where
  "read_list read 0 r = ([], r)"
| "read_list read (Suc n) r = (let (v, r) = read r; (vs, r) = read_list read n r in (v # vs, r))"

definition read_binding :: "settings_reader \<Rightarrow> hotkey_binding \<times> settings_reader" where
  "read_binding r =
     (let (command, r) = read_u32 r; (key, r) = read_u32 r; (modifiers, r) = read_u32 r; (flags, r) = read_u32 r;
          r = (if flags > 0xFFFF then None else r); (symbol, r) = read_u16 r
      in (\<lparr>hk_command = command, hk_physical_key = key, hk_modifiers = modifiers, hk_flags = ucast flags, hk_logical_symbol = symbol\<rparr>, r))"

definition read_hints :: "u32 \<Rightarrow> settings_reader \<Rightarrow> hint_settings \<times> settings_reader" where
  "read_hints version r =
     (let (alphabet_count, r) = read_u32 r; (alphabet, r) = read_list read_u16 maximum_hint_alphabet r;
          h = initial_hints\<lparr>hg_alphabet_count := alphabet_count, hg_alphabet := alphabet\<rparr> in
      if unat alphabet_count > maximum_hint_alphabet then (h, None)
      else let (h, r) = (if version \<ge> 3 then let (keys, r) = read_list read_u32 maximum_hint_alphabet r in (h\<lparr>hg_physical_keys := keys\<rparr>, r)
               else (migrate_hint_keys h, r));
             (language, r) = read_bytes language_tag_capacity r; (priority, r) = read_u32 r; (placement, r) = read_u32 r;
             (sorting, r) = read_u32 r
      in (h\<lparr>hg_language := language, hg_priority := priority, hg_placement := placement, hg_sorting := sorting\<rparr>, r))"

definition read_detector :: "settings_reader \<Rightarrow> detector_settings \<times> settings_reader" where
  "read_detector r =
     (let (confidence, r) = read_u16 r; (text_sensitivity, r) = read_u16 r; (duplicate_iou, r) = read_u16 r;
          (minimum_width, r) = read_u16 r; (minimum_height, r) = read_u16 r; (zero, r) = read_u16 r;
          r = (if zero \<noteq> 0 then None else r); (merge_policy, r) = read_u32 r
      in (\<lparr>dg_confidence_q16 = confidence, dg_text_sensitivity_q16 = text_sensitivity, dg_duplicate_iou_q16 = duplicate_iou,
        dg_minimum_width_q8 = minimum_width, dg_minimum_height_q8 = minimum_height, dg_merge_policy = merge_policy\<rparr>, r))"

definition read_grid :: "settings_reader \<Rightarrow> grid_settings \<times> settings_reader" where
  "read_grid r =
     (let (rows, r) = read_u16 r; (columns, r) = read_u16 r; (margin_x, r) = read_u16 r; (margin_y, r) = read_u16 r
      in (\<lparr>gg_rows = rows, gg_columns = columns, gg_margin_x_q8 = margin_x, gg_margin_y_q8 = margin_y\<rparr>, r))"

definition read_pointer :: "settings_reader \<Rightarrow> pointer_settings \<times> settings_reader" where
  "read_pointer r =
     (let (final_position, r) = read_u32 r; (duration, r) = read_u32 r; (anchor_x, r) = read_u32 r; (anchor_y, r) = read_u32 r
      in (\<lparr>pg_final_position = final_position, pg_movement_duration_ms = duration, pg_anchor_x_q8 = anchor_x,
        pg_anchor_y_q8 = anchor_y\<rparr>, r))"

definition read_actions :: "settings_reader \<Rightarrow> action_settings \<times> settings_reader" where
  "read_actions r =
     (let (mode, r) = read_u32 r; (timeout, r) = read_u32 r; (hold, r) = read_u32 r; (drag, r) = read_u32 r;
          (scroll, r) = read_u32 r; (vertical, r) = read_u32 r; (horizontal, r) = read_u32 r; (modifiers, r) = read_u32 r
      in (\<lparr>ag_initial_mode = mode, ag_timeout_ms = timeout, ag_hold_duration_ms = hold, ag_drag_duration_ms = drag,
        ag_scroll_duration_ms = scroll, ag_scroll_vertical_q8 = vertical, ag_scroll_horizontal_q8 = horizontal,
        ag_click_modifiers = modifiers\<rparr>, r))"

definition read_appearance :: "settings_reader \<Rightarrow> appearance_settings \<times> settings_reader" where
  "read_appearance r =
     (let (font_family, r) = read_bytes font_family_capacity r; (theme, r) = read_u32 r; (placement, r) = read_u32 r;
          (font_size, r) = read_u32 r; (font_weight, r) = read_u32 r; (label, r) = read_u32 r; (background, r) = read_u32 r;
          (outline, r) = read_u32 r; (glow, r) = read_u32 r; (outline_width, r) = read_u16 r; (glow_radius, r) = read_u16 r
      in (\<lparr>eg_font_family = font_family, eg_theme = theme, eg_placement = placement, eg_font_size_q8 = font_size,
        eg_font_weight = font_weight, eg_label_rgba = label, eg_background_rgba = background, eg_outline_rgba = outline,
        eg_glow_rgba = glow, eg_outline_width_q8 = outline_width, eg_glow_radius_q8 = glow_radius\<rparr>, r))"

definition read_compute :: "settings_reader \<Rightarrow> compute_settings \<times> settings_reader" where
  "read_compute r = (let (policy, r) = read_u32 r; (device, r) = read_u64 r
     in (\<lparr>kg_policy = policy, kg_device_stable_id = device\<rparr>, r))"

text \<open>A count that does not fit its array ends the reading; the document is then not used.\<close>

definition decode_body :: "u32 \<Rightarrow> settings_reader \<Rightarrow> settings_document \<times> settings_reader" where
  "decode_body version r =
     (let (flags, r) = read_u32 r; (binding_count, r) = read_u32 r; (source, r) = read_u32 r; (scope, r) = read_u32 r;
          (monitor, r) = read_u64 r in
      if unat binding_count > maximum_hotkey_bindings then (initial_settings, None)
      else let (bindings, r) = read_list read_binding (unat binding_count) r; (hints, r) = read_hints version r;
               (detector, r) = read_detector r; (grid, r) = read_grid r; (pointer, r) = read_pointer r; (actions, r) = read_actions r;
               (appearance, r) = read_appearance r; (compute, r) = read_compute r
      in (\<lparr>sd_bindings = bindings @ drop (unat binding_count) (sd_bindings initial_settings), sd_hints = hints,
        sd_detector = detector, sd_grid = grid, sd_pointer = pointer, sd_actions = actions, sd_appearance = appearance,
        sd_compute = compute, sd_monitor_stable_id = monitor, sd_binding_count = binding_count, sd_flags = flags,
        sd_source = source, sd_scope = scope\<rparr>, r))"

definition decode_settings :: "u8 list option \<Rightarrow> bool \<Rightarrow> saccade_result \<times> settings_document option" where
  "decode_settings input out =
     (case input of
        None \<Rightarrow> (SACCADE_ERROR_INVALID_ARGUMENT, None)
      | Some bytes \<Rightarrow>
          if \<not> out \<or> length bytes < 12 \<or> length bytes > settings_encoded_capacity then (SACCADE_ERROR_INVALID_ARGUMENT, None)
          else let (magic, r) = read_bytes 4 (Some bytes); (version, r) = read_u32 r; (total, r) = read_u32 r in
            if magic \<noteq> settings_magic \<or> version < minimum_settings_version \<or> version > settings_version \<or> unat total \<noteq> length bytes
            then (SACCADE_ERROR_VERSION, Some initial_settings)
            else let (decoded, r) = decode_body version r in
              if r \<noteq> Some [] then (SACCADE_ERROR_INVALID_ARGUMENT, Some initial_settings)
              else let valid = validate_settings decoded in
                if valid \<noteq> SACCADE_OK then (valid, Some initial_settings)
                else (SACCADE_OK, Some decoded))"

subsection \<open>What other components get\<close>

definition q8_to_q3 :: "u32 \<Rightarrow> u16" where
  "q8_to_q3 v = ucast (drop_bit 5 (v + 16))"

text \<open>Target outline, label background and foreground, active fill and outline.\<close>

definition dark_palette :: "u32 \<times> u32 \<times> u32 \<times> u32 \<times> u32" where
  "dark_palette = (0x000000ff, 0x1b1b1bd9, 0xffffffff, 0x00000080, 0xffffffff)"
definition light_palette :: "u32 \<times> u32 \<times> u32 \<times> u32 \<times> u32" where
  "light_palette = (0x202020e6, 0xfffffff2, 0x181818ff, 0x006bd666, 0x006bd6ff)"
definition high_contrast_palette :: "u32 \<times> u32 \<times> u32 \<times> u32 \<times> u32" where
  "high_contrast_palette = (0xffff00ff, 0x000000ff, 0xffffffff, 0xffff004d, 0xffff00ff)"

definition overlay_palette :: "appearance_settings \<Rightarrow> bool \<Rightarrow> u32 \<times> u32 \<times> u32 \<times> u32 \<times> u32" where
  "overlay_palette e dark_system_theme =
     (if eg_theme e = 0 then (if dark_system_theme then dark_palette else light_palette)
      else if eg_theme e = 1 then high_contrast_palette
      else if eg_theme e = 2 then light_palette
      else if eg_theme e = 3 then dark_palette
      else if eg_theme e = 4 then
        (eg_outline_rgba e, eg_background_rgba e, eg_label_rgba e, eg_glow_rgba e, eg_label_rgba e)
      else dark_palette)"

definition resolve_overlay_style :: "appearance_settings \<Rightarrow> u32 \<Rightarrow> bool \<Rightarrow> overlay_style" where
  "resolve_overlay_style e settings_flags dark_system_theme =
     (let (outline, background, foreground, fill, active_outline) = overlay_palette e dark_system_theme;
          glyph_height = q8_to_q3 (eg_font_size_q8 e);
          glyph_width = ucast (((ucast glyph_height :: u32) * 5 + 3) div 7) :: u16;
          spacing = max 8 (glyph_height div 7); padding = max 16 (glyph_height div 7);
          stroke = max 1 (q8_to_q3 (ucast (eg_outline_width_q8 e))); glow = q8_to_q3 (ucast (eg_glow_radius_q8 e))
      in \<lparr>os_target_outline_rgba8 = outline, os_label_background_rgba8 = background, os_label_foreground_rgba8 = foreground,
        os_active_fill_rgba8 = fill, os_active_outline_rgba8 = active_outline, os_target_stroke_q3 = stroke,
        os_target_radius_q3 = max 16 (glyph_height div 4), os_label_height_q3 = glyph_height + padding * 2,
        os_label_radius_q3 = padding, os_label_padding_x_q3 = padding, os_glyph_width_q3 = glyph_width,
        os_glyph_height_q3 = glyph_height, os_glyph_advance_q3 = glyph_width + spacing, os_active_stroke_q3 = stroke + glow,
        os_reserved16 = 0,
        os_flags = (if settings_flags AND settings_animate_overlay \<noteq> 0 \<and> settings_flags AND settings_reduced_motion = 0
          then OVERLAY_STYLE_ANIMATED else 0),
        os_reserved32 = 0, os_reserved_0 = 0, os_reserved_1 = 0\<rparr>)"

text \<open>The interaction profile of \<open>application/interaction_controller.hpp\<close>. Its hint configuration holds the used
  part of the two arrays.\<close>

record interaction_profile =
  ip_hints :: hint_config
  ip_timeout_ns :: u64
  ip_hold_duration_ns :: u64
  ip_drag_duration_ns :: u64
  ip_scroll_duration_ns :: u64
  ip_scroll_vertical_q8 :: i32
  ip_scroll_horizontal_q8 :: i32
  ip_click_modifiers :: u32
  ip_initial_mode :: u32
  ip_final_pointer :: u32
  ip_pointer_duration_ms :: u32
  ip_pointer_anchor :: "i32 \<times> i32"

definition hint_priority_of :: "u32 \<Rightarrow> hint_priority" where
  "hint_priority_of p = (if p = 0 then Priority_scene_order else if p = 1 then Priority_pointer
     else if p = 2 then Priority_scope_center else if p = 3 then Priority_randomized else Priority_other p)"

definition make_interaction_profile ::
  "settings_document \<Rightarrow> hint_settings \<Rightarrow> i32 \<Rightarrow> i32 \<Rightarrow> i32 \<Rightarrow> i32 \<Rightarrow> u64 \<Rightarrow> interaction_profile" where
  "make_interaction_profile d resolved pointer_x pointer_y center_x center_y random_seed =
     (let n = unat (hg_alphabet_count resolved); actions = sd_actions d
      in \<lparr>ip_hints = \<lparr>hc_alphabet = take n (hg_alphabet resolved), hc_physical_keys = take n (hg_physical_keys resolved),
          hc_priority = (if hg_sorting (sd_hints d) = 1 then Priority_randomized else hint_priority_of (hg_priority (sd_hints d))),
          hc_pointer_x_q8 = pointer_x, hc_pointer_y_q8 = pointer_y, hc_scope_center_x_q8 = center_x, hc_scope_center_y_q8 = center_y,
          hc_random_seed = random_seed\<rparr>,
        ip_timeout_ns = ucast (ag_timeout_ms actions) * 1000000, ip_hold_duration_ns = ucast (ag_hold_duration_ms actions) * 1000000,
        ip_drag_duration_ns = ucast (ag_drag_duration_ms actions) * 1000000,
        ip_scroll_duration_ns = ucast (ag_scroll_duration_ms actions) * 1000000,
        ip_scroll_vertical_q8 = ag_scroll_vertical_q8 actions, ip_scroll_horizontal_q8 = ag_scroll_horizontal_q8 actions,
        ip_click_modifiers = ag_click_modifiers actions, ip_initial_mode = ag_initial_mode actions,
        ip_final_pointer = pg_final_position (sd_pointer d), ip_pointer_duration_ms = pg_movement_duration_ms (sd_pointer d),
        ip_pointer_anchor = (pg_anchor_x_q8 (sd_pointer d), pg_anchor_y_q8 (sd_pointer d))\<rparr>)"


subsection \<open>The byte format\<close>

text \<open>
  The interface of a part of the format: what the writer puts is what the reader gets, and the reader succeeds on nothing
  else. Its client is the array of such parts.
\<close>

locale reader_codec =
  fixes put :: "'r \<Rightarrow> u8 list"
    and get :: "settings_reader \<Rightarrow> 'r \<times> settings_reader"
    and ok :: "'r \<Rightarrow> bool"
  assumes read_put: "ok x \<Longrightarrow> get (Some (put x @ rest)) = (x, Some rest)"
    and put_read: "get r = (x, Some rest) \<Longrightarrow> ok x \<and> r = Some (put x @ rest)"
begin

lemma read_put_list: "list_all ok xs \<Longrightarrow> read_list get (length xs) (Some (concat (map put xs) @ rest)) = (xs, Some rest)"
  by (induction xs) (simp_all add: read_put)

lemma put_read_list:
  "read_list get n r = (xs, Some rest) \<Longrightarrow> length xs = n \<and> list_all ok xs \<and> r = Some (concat (map put xs) @ rest)"
proof (induction n arbitrary: r xs)
  case 0
  then show ?case by simp
next
  case (Suc n)
  obtain v r1 where v: "get r = (v, r1)" by fastforce
  obtain vs r2 where vs: "read_list get n r1 = (vs, r2)" by fastforce
  have "r2 = Some rest" "xs = v # vs" using Suc.prems v vs by simp_all
  then show ?case using Suc.IH [of r1 vs] vs put_read [of r v] v by simp
qed

end

lemma read_bytes_facts:
  "length bs = n \<Longrightarrow> read_bytes n (Some (bs @ rest)) = (bs, Some rest)"
  "read_bytes n r = (bs, Some rest) \<Longrightarrow> length bs = n \<and> r = Some (bs @ rest)"
  by (auto simp: read_bytes_def split: option.splits if_splits)

lemma read_word_facts:
  assumes "8 * n = LENGTH('a::len)"
  shows "read_word n (Some (put_word n (w :: 'a word) @ rest)) = (w, Some rest)"
    "read_word n r = (w :: 'a word, Some rest) \<Longrightarrow> r = Some (put_word n w @ rest)"
proof -
  have "get_word n (put_word n w @ rest) = (w, rest)" using assms by (rule get_put_word)
  then show "read_word n (Some (put_word n w @ rest)) = (w, Some rest)"
    by (simp add: read_word_def read_bytes_def get_word_def)
  assume "read_word n r = (w, Some rest)"
  then obtain bs where "read_bytes n r = (bs, Some rest)" "w = word_of_nat (le_value bs)"
    by (auto simp: read_word_def Let_def split: prod.splits)
  then have "length bs = n" "r = Some (bs @ rest)" "w = word_of_nat (le_value bs)" using read_bytes_facts(2) by blast+
  then show "r = Some (put_word n w @ rest)" using put_get_word [of n 0 bs, where 'a = 'a] assms by simp
qed

interpretation u16_codec: reader_codec put_u16 read_u16 "\<lambda>x. True"
  by unfold_locales (use read_word_facts [of 2, where 'a = 16] in auto)

interpretation u32_codec: reader_codec put_u32 read_u32 "\<lambda>x. True"
  by unfold_locales (use read_word_facts [of 4, where 'a = 32] in auto)

lemma halves_join: "(ucast (ucast v :: u32) :: u64) OR push_bit 32 (ucast (ucast (drop_bit 32 v) :: u32)) = v"
  by (rule bit_eqI) (auto simp: bit_simps)

lemma join_halves:
  "ucast ((ucast (a :: u32) :: u64) OR push_bit 32 (ucast (b :: u32))) = a"
  "ucast (drop_bit 32 ((ucast (a :: u32) :: u64) OR push_bit 32 (ucast (b :: u32)))) = b"
proof -
  have "\<not> bit a (32 + n)" for n using bit_imp_le_length [of a "32 + n"] by auto
  then show "ucast ((ucast a :: u64) OR push_bit 32 (ucast b)) = a"
    "ucast (drop_bit 32 ((ucast a :: u64) OR push_bit 32 (ucast b))) = b"
    by (auto intro!: bit_eqI simp: bit_simps)
qed

interpretation u64_codec: reader_codec "\<lambda>v. concat (u64_pieces v)" read_u64 "\<lambda>x. True"
proof
  fix v rest show "read_u64 (Some (concat (u64_pieces v) @ rest)) = (v, Some rest)"
    by (simp add: read_u64_def u64_pieces_def u32_codec.read_put halves_join)
next
  fix r v rest assume "read_u64 r = (v, Some rest)"
  then obtain a r1 b where e: "read_u32 r = (a, r1)" "read_u32 r1 = (b, Some rest)" "v = ucast a OR push_bit 32 (ucast b)"
    by (auto simp: read_u64_def Let_def split: prod.splits)
  have "ucast v = a" "ucast (drop_bit 32 v) = b" unfolding e(3) by (rule join_halves)+
  then show "True \<and> r = Some (concat (u64_pieces v) @ rest)"
    using e(1,2) by (auto dest!: u32_codec.put_read simp: u64_pieces_def)
qed

lemmas read_put_parts = u16_codec.read_put [OF TrueI] u32_codec.read_put [OF TrueI] u64_codec.read_put [OF TrueI] read_bytes_facts(1)

lemma put_read_parts:
  "read_u16 r = (h, Some rest) \<Longrightarrow> r = Some (put_u16 h @ rest)"
  "read_u32 r = (w, Some rest) \<Longrightarrow> r = Some (put_u32 w @ rest)"
  "read_u64 r = (d, Some rest) \<Longrightarrow> r = Some (concat (u64_pieces d) @ rest)"
  using u16_codec.put_read u32_codec.put_read u64_codec.put_read by blast+

lemma halfword_back: "(ucast (ucast (h :: u16) :: u32) :: u16) = h"
  by (rule bit_word_eqI) (simp add: bit_simps)

interpretation binding_codec: reader_codec "\<lambda>b. concat (binding_pieces b)" read_binding "\<lambda>b. True"
proof
  fix b :: hotkey_binding and rest
  have "\<not> (ucast (hk_flags b) :: u32) > 0xFFFF"
    using unat16_lt [of "hk_flags b"] by (simp add: word_less_nat_alt not_less del: unat16_lt)
  then show "read_binding (Some (concat (binding_pieces b) @ rest)) = (b, Some rest)"
    by (simp add: read_binding_def binding_pieces_def read_put_parts Let_def halfword_back)
next
  fix r rest and b :: hotkey_binding assume "read_binding r = (b, Some rest)"
  then obtain c r1 k r2 mo r3 f r4 s where e: "read_u32 r = (c, r1)" "read_u32 r1 = (k, r2)" "read_u32 r2 = (mo, r3)"
    "read_u32 r3 = (f, r4)" "read_u16 (if f > 0xFFFF then None else r4) = (s, Some rest)"
    "b = \<lparr>hk_command = c, hk_physical_key = k, hk_modifiers = mo, hk_flags = ucast f, hk_logical_symbol = s\<rparr>"
    by (auto simp: read_binding_def Let_def split: prod.splits)
  have f: "\<not> f > 0xFFFF" using put_read_parts(1) [OF e(5)] by (auto split: if_splits)
  then have "unat (ucast f :: u16) = unat f" by (simp add: unsigned_ucast_eq take_bit_eq_mod word_less_nat_alt)
  then have "(ucast (ucast f :: u16) :: u32) = f" by (simp add: word_unat_eq_iff)
  then show "True \<and> r = Some (concat (binding_pieces b) @ rest)"
    using e f by (auto dest!: put_read_parts simp: binding_pieces_def)
qed


interpretation detector_codec: reader_codec "\<lambda>d. concat (detector_pieces d)" read_detector "\<lambda>d. True"
proof
  fix d :: detector_settings and rest
  show "read_detector (Some (concat (detector_pieces d) @ rest)) = (d, Some rest)"
    by (simp add: read_detector_def detector_pieces_def read_put_parts Let_def)
next
  fix r rest and d :: detector_settings assume "read_detector r = (d, Some rest)"
  then obtain a r1 b r2 c r3 e r4 f r5 z r6 g where x: "read_u16 r = (a, r1)" "read_u16 r1 = (b, r2)" "read_u16 r2 = (c, r3)"
    "read_u16 r3 = (e, r4)" "read_u16 r4 = (f, r5)" "read_u16 r5 = (z, r6)" "read_u32 (if z \<noteq> 0 then None else r6) = (g, Some rest)"
    "d = \<lparr>dg_confidence_q16 = a, dg_text_sensitivity_q16 = b, dg_duplicate_iou_q16 = c, dg_minimum_width_q8 = e,
      dg_minimum_height_q8 = f, dg_merge_policy = g\<rparr>"
    by (auto simp: read_detector_def Let_def split: prod.splits)
  have "z = 0" using put_read_parts(2) [OF x(7)] by (auto split: if_splits)
  then show "True \<and> r = Some (concat (detector_pieces d) @ rest)"
    using x by (auto dest!: put_read_parts simp: detector_pieces_def)
qed

interpretation grid_codec: reader_codec "\<lambda>g. concat (grid_pieces g)" read_grid "\<lambda>g. True"
proof
  fix g :: grid_settings and rest
  show "read_grid (Some (concat (grid_pieces g) @ rest)) = (g, Some rest)"
    by (simp add: read_grid_def grid_pieces_def read_put_parts)
next
  fix r rest and g :: grid_settings assume "read_grid r = (g, Some rest)"
  then show "True \<and> r = Some (concat (grid_pieces g) @ rest)"
    by (auto simp: read_grid_def grid_pieces_def split: prod.splits dest!: put_read_parts)
qed

interpretation pointer_codec: reader_codec "\<lambda>g. concat (pointer_pieces g)" read_pointer "\<lambda>g. True"
proof
  fix g :: pointer_settings and rest
  show "read_pointer (Some (concat (pointer_pieces g) @ rest)) = (g, Some rest)"
    by (simp add: read_pointer_def pointer_pieces_def read_put_parts)
next
  fix r rest and g :: pointer_settings assume "read_pointer r = (g, Some rest)"
  then show "True \<and> r = Some (concat (pointer_pieces g) @ rest)"
    by (auto simp: read_pointer_def pointer_pieces_def split: prod.splits dest!: put_read_parts)
qed

interpretation action_codec: reader_codec "\<lambda>a. concat (action_pieces a)" read_actions "\<lambda>a. True"
proof
  fix a :: action_settings and rest
  show "read_actions (Some (concat (action_pieces a) @ rest)) = (a, Some rest)"
    by (simp add: read_actions_def action_pieces_def read_put_parts)
next
  fix r rest and a :: action_settings assume "read_actions r = (a, Some rest)"
  then show "True \<and> r = Some (concat (action_pieces a) @ rest)"
    by (auto simp: read_actions_def action_pieces_def split: prod.splits dest!: put_read_parts)
qed

interpretation appearance_codec: reader_codec "\<lambda>e. concat (appearance_pieces e)" read_appearance
  "\<lambda>e. length (eg_font_family e) = font_family_capacity"
proof
  fix e :: appearance_settings and rest
  assume "length (eg_font_family e) = font_family_capacity"
  then show "read_appearance (Some (concat (appearance_pieces e) @ rest)) = (e, Some rest)"
    by (simp add: read_appearance_def appearance_pieces_def read_put_parts)
next
  fix r rest and e :: appearance_settings assume "read_appearance r = (e, Some rest)"
  then show "length (eg_font_family e) = font_family_capacity \<and> r = Some (concat (appearance_pieces e) @ rest)"
    by (auto simp: read_appearance_def appearance_pieces_def split: prod.splits dest!: put_read_parts read_bytes_facts(2))
qed

interpretation compute_codec: reader_codec "\<lambda>k. concat (compute_pieces k)" read_compute "\<lambda>k. True"
proof
  fix k :: compute_settings and rest
  show "read_compute (Some (concat (compute_pieces k) @ rest)) = (k, Some rest)"
    by (simp add: read_compute_def compute_pieces_def read_put_parts)
next
  fix r rest and k :: compute_settings assume "read_compute r = (k, Some rest)"
  then show "True \<and> r = Some (concat (compute_pieces k) @ rest)"
    by (auto simp: read_compute_def compute_pieces_def split: prod.splits dest!: put_read_parts)
qed

text \<open>The hints of version 3 and later.\<close>

lemma concat_hints_pieces:
  "concat (hints_pieces h) = put_u32 (hg_alphabet_count h) @ concat (map put_u16 (hg_alphabet h)) @
     concat (map put_u32 (hg_physical_keys h)) @ hg_language h @ put_u32 (hg_priority h) @ put_u32 (hg_placement h) @ put_u32 (hg_sorting h)"
  by (simp add: hints_pieces_def)

lemma list_all_True [simp]: "list_all (\<lambda>x. True) xs"
  by (simp add: list_all_iff)

interpretation hints_codec: reader_codec "\<lambda>h. concat (hints_pieces h)" "read_hints 4"
  "\<lambda>h. hints_shape h \<and> unat (hg_alphabet_count h) \<le> maximum_hint_alphabet"
proof
  fix h :: hint_settings and rest
  assume h: "hints_shape h \<and> unat (hg_alphabet_count h) \<le> maximum_hint_alphabet"
  have a: "read_list read_u16 maximum_hint_alphabet (Some (concat (map put_u16 (hg_alphabet h)) @ r)) = (hg_alphabet h, Some r)" for r
    using u16_codec.read_put_list [of "hg_alphabet h" r] h by (simp add: hints_shape_def)
  have k: "read_list read_u32 maximum_hint_alphabet (Some (concat (map put_u32 (hg_physical_keys h)) @ r)) = (hg_physical_keys h, Some r)" for r
    using u32_codec.read_put_list [of "hg_physical_keys h" r] h by (simp add: hints_shape_def)
  show "read_hints 4 (Some (concat (hints_pieces h) @ rest)) = (h, Some rest)"
    using h by (simp add: concat_hints_pieces read_hints_def read_put_parts a k hints_shape_def Let_def)
next
  fix r rest and h :: hint_settings assume "read_hints 4 r = (h, Some rest)"
  then obtain n r1 al r2 ks r3 la r4 p r5 q r6 s where x: "read_u32 r = (n, r1)" "read_list read_u16 maximum_hint_alphabet r1 = (al, r2)"
    "unat n \<le> maximum_hint_alphabet" "read_list read_u32 maximum_hint_alphabet r2 = (ks, r3)" "read_bytes language_tag_capacity r3 = (la, r4)"
    "read_u32 r4 = (p, r5)" "read_u32 r5 = (q, r6)" "read_u32 r6 = (s, Some rest)"
    "h = \<lparr>hg_alphabet = al, hg_physical_keys = ks, hg_language = la, hg_alphabet_count = n, hg_priority = p, hg_placement = q, hg_sorting = s\<rparr>"
    by (auto simp: read_hints_def Let_def initial_hints_def split: prod.splits if_splits)
  show "(hints_shape h \<and> unat (hg_alphabet_count h) \<le> maximum_hint_alphabet) \<and> r = Some (concat (hints_pieces h) @ rest)"
    using x by (auto dest!: put_read_parts read_bytes_facts(2) u16_codec.put_read_list u32_codec.put_read_list
      simp: concat_hints_pieces hints_shape_def)
qed


text \<open>A document as it comes back: the entries behind the used bindings are value-initialised.\<close>

definition default_spares :: "settings_document \<Rightarrow> settings_document" where
  "default_spares d = d\<lparr>sd_bindings := take (unat (sd_binding_count d)) (sd_bindings d) @
     drop (unat (sd_binding_count d)) (sd_bindings initial_settings)\<rparr>"

lemma concat_body_pieces:
  "concat (body_pieces d) = put_u32 (sd_flags d) @ put_u32 (sd_binding_count d) @ put_u32 (sd_source d) @ put_u32 (sd_scope d) @
     concat (u64_pieces (sd_monitor_stable_id d)) @
     concat (map (\<lambda>b. concat (binding_pieces b)) (take (unat (sd_binding_count d)) (sd_bindings d))) @
     concat (hints_pieces (sd_hints d)) @ concat (detector_pieces (sd_detector d)) @ concat (grid_pieces (sd_grid d)) @
     concat (pointer_pieces (sd_pointer d)) @ concat (action_pieces (sd_actions d)) @ concat (appearance_pieces (sd_appearance d)) @
     concat (compute_pieces (sd_compute d))"
proof -
  have "concat (concat (map binding_pieces bs)) = concat (map (\<lambda>b. concat (binding_pieces b)) bs)" for bs
    by (induction bs) simp_all
  then show ?thesis by (simp add: body_pieces_def)
qed

lemma decode_body_put:
  assumes "settings_shape d" "unat (sd_binding_count d) \<le> maximum_hotkey_bindings"
    "unat (hg_alphabet_count (sd_hints d)) \<le> maximum_hint_alphabet"
  shows "decode_body 4 (Some (concat (body_pieces d))) = (default_spares d, Some [])"
proof -
  let ?n = "unat (sd_binding_count d)" let ?bs = "take ?n (sd_bindings d)"
  have len: "length ?bs = ?n" using assms(1,2) by (simp add: settings_shape_def)
  have b: "read_list read_binding ?n (Some (concat (map (\<lambda>b. concat (binding_pieces b)) ?bs) @ rest)) = (?bs, Some rest)" for rest
    using binding_codec.read_put_list [of ?bs rest] unfolding len by simp
  have h: "read_hints 4 (Some (concat (hints_pieces (sd_hints d)) @ rest)) = (sd_hints d, Some rest)" for rest
    using hints_codec.read_put assms(1,3) by (simp add: settings_shape_def)
  have e: "read_appearance (Some (concat (appearance_pieces (sd_appearance d)) @ rest)) = (sd_appearance d, Some rest)" for rest
    using appearance_codec.read_put assms(1) by (simp add: settings_shape_def)
  have k: "read_compute (Some (concat (compute_pieces (sd_compute d)))) = (sd_compute d, Some [])"
    using compute_codec.read_put [of "sd_compute d" "[]"] by simp
  have fit: "\<not> ?n > maximum_hotkey_bindings" using assms(2) by simp
  show ?thesis unfolding decode_body_def concat_body_pieces
    by (simp only: read_put_parts b h e k detector_codec.read_put grid_codec.read_put pointer_codec.read_put action_codec.read_put
        prod.case Let_def if_not_P [OF fit]) (cases d, simp add: default_spares_def)
qed

lemma put_decode_body:
  assumes "decode_body 4 (Some bytes) = (d, Some [])"
  shows "settings_shape d \<and> unat (sd_binding_count d) \<le> maximum_hotkey_bindings \<and> default_spares d = d \<and> bytes = concat (body_pieces d)"
proof -
  obtain flags r1 count r2 source r3 scope r4 monitor r5 bs r6 h r7 dt r8 g r9 p r10 a r11 e r12 k where x:
    "read_u32 (Some bytes) = (flags, r1)" "read_u32 r1 = (count, r2)" "read_u32 r2 = (source, r3)" "read_u32 r3 = (scope, r4)"
    "read_u64 r4 = (monitor, r5)" "unat count \<le> maximum_hotkey_bindings" "read_list read_binding (unat count) r5 = (bs, r6)"
    "read_hints 4 r6 = (h, r7)" "read_detector r7 = (dt, r8)" "read_grid r8 = (g, r9)" "read_pointer r9 = (p, r10)"
    "read_actions r10 = (a, r11)" "read_appearance r11 = (e, r12)" "read_compute r12 = (k, Some [])"
    "d = \<lparr>sd_bindings = bs @ drop (unat count) (sd_bindings initial_settings), sd_hints = h, sd_detector = dt, sd_grid = g,
       sd_pointer = p, sd_actions = a, sd_appearance = e, sd_compute = k, sd_monitor_stable_id = monitor, sd_binding_count = count,
       sd_flags = flags, sd_source = source, sd_scope = scope\<rparr>"
    using assms by (auto simp: decode_body_def Let_def split: prod.splits if_splits)
  note c = conjunct2 [OF compute_codec.put_read [OF x(14)]]
  note e = appearance_codec.put_read [OF x(13) [unfolded c]]
  note a = conjunct2 [OF action_codec.put_read [OF x(12) [unfolded conjunct2 [OF e]]]]
  note p = conjunct2 [OF pointer_codec.put_read [OF x(11) [unfolded a]]]
  note g = conjunct2 [OF grid_codec.put_read [OF x(10) [unfolded p]]]
  note dt = conjunct2 [OF detector_codec.put_read [OF x(9) [unfolded g]]]
  note h = hints_codec.put_read [OF x(8) [unfolded dt]]
  note b = binding_codec.put_read_list [OF x(7) [unfolded conjunct2 [OF h]]]
  have len: "length bs = unat count" using b by simp
  have "Some bytes = Some (put_u32 flags @ put_u32 count @ put_u32 source @ put_u32 scope @ concat (u64_pieces monitor) @
      concat (map (\<lambda>b. concat (binding_pieces b)) bs) @ concat (hints_pieces h) @ concat (detector_pieces dt) @ concat (grid_pieces g) @
      concat (pointer_pieces p) @ concat (action_pieces a) @ concat (appearance_pieces e) @ concat (compute_pieces k))"
    using x(1-5) b by (auto dest!: put_read_parts)
  then show ?thesis using x(6) len h e unfolding x(15)
    by (simp add: concat_body_pieces settings_shape_def default_spares_def initial_settings_def hints_shape_def)
qed

text \<open>The writer: all pieces fit or it has failed.\<close>

lemma write_pieces:
  assumes "length (wr_out w) + length (concat ps) \<le> wr_capacity w" "\<not> wr_failed w"
  shows "foldl write_bytes w ps = w\<lparr>wr_out := wr_out w @ concat ps\<rparr>"
  using assms
proof (induction ps arbitrary: w)
  case Nil
  then show ?case by simp
next
  case (Cons piece ps)
  let ?w = "w\<lparr>wr_out := wr_out w @ piece\<rparr>"
  have "write_bytes w piece = ?w" using Cons.prems by (simp add: write_bytes_def)
  moreover have "foldl write_bytes ?w ps = ?w\<lparr>wr_out := wr_out ?w @ concat ps\<rparr>"
    by (rule Cons.IH) (use Cons.prems in simp_all)
  ultimately show ?case by simp
qed

lemma write_pieces_failed: "wr_failed w \<Longrightarrow> wr_failed (foldl write_bytes w ps)"
  by (induction ps arbitrary: w) (simp_all add: write_bytes_def)

lemma write_pieces_full:
  assumes "length (wr_out w) \<le> wr_capacity w" "\<not> length (wr_out w) + length (concat ps) \<le> wr_capacity w"
  shows "wr_failed (foldl write_bytes w ps)"
  using assms
proof (induction ps arbitrary: w)
  case Nil
  then show ?case by simp
next
  case (Cons piece ps)
  show ?case
  proof (cases "wr_failed (write_bytes w piece)")
    case True
    then show ?thesis by (simp add: write_pieces_failed)
  next
    case False
    then have "write_bytes w piece = w\<lparr>wr_out := wr_out w @ piece\<rparr>" "length piece \<le> wr_capacity w - length (wr_out w)"
      by (auto simp: write_bytes_def split: if_splits)
    then show ?thesis using Cons.IH [of "w\<lparr>wr_out := wr_out w @ piece\<rparr>"] Cons.prems by simp
  qed
qed

definition settings_bytes :: "u32 \<Rightarrow> settings_document \<Rightarrow> u8 list" where
  "settings_bytes version d = (let body = concat (body_pieces d) in
     settings_magic @ put_u32 version @ put_u32 (word_of_nat (12 + length body)) @ body)"

lemma length_settings_bytes [simp]: "length (settings_bytes v d) = 12 + length (concat (body_pieces d))"
  by (simp add: settings_bytes_def settings_magic_def Let_def)

lemma encode_settings_result:
  assumes "length data \<le> settings_encoded_capacity" "validate_settings d = SACCADE_OK"
  shows "if length (settings_bytes 4 d) \<le> length data
    then encode_settings d (Some data) True = (SACCADE_OK, Some (length (settings_bytes 4 d)),
      Some (settings_bytes 4 d @ drop (length (settings_bytes 4 d)) data))
    else fst (encode_settings d (Some data) True) = SACCADE_ERROR_CAPACITY"
proof -
  let ?ps = "[settings_magic, put_u32 settings_version, put_u32 0] @ body_pieces d"
  let ?w = "\<lparr>wr_out = [], wr_capacity = length data, wr_failed = False\<rparr>"
  have len: "length (concat ?ps) = length (settings_bytes 4 d)" by (simp add: settings_magic_def)
  have guard: "\<not> (\<not> True \<or> length data > settings_encoded_capacity)" using assms(1) by simp
  have valid: "\<not> validate_settings d \<noteq> SACCADE_OK" using assms(2) by simp
  note unf = encode_settings_def [of d "Some data" True, unfolded option.case if_not_P [OF guard] Let_def if_not_P [OF valid]]
  show ?thesis
  proof (cases "length (settings_bytes 4 d) \<le> length data")
    case True
    have w: "foldl write_bytes ?w ?ps = ?w\<lparr>wr_out := concat ?ps\<rparr>"
      using write_pieces [of ?w ?ps] True len by simp
    have out: "take 8 (concat ?ps) @ put_u32 (word_of_nat (length (settings_bytes 4 d))) @ drop 12 (concat ?ps) = settings_bytes 4 d"
      by (simp add: settings_bytes_def settings_magic_def Let_def)
    show ?thesis unfolding unf w using True len out by simp
  next
    case False
    have "wr_failed (foldl write_bytes ?w ?ps)" by (rule write_pieces_full) (use False len in simp_all)
    then show ?thesis unfolding unf using False by simp
  qed
qed

lemma validate_settings_counts:
  assumes "settings_shape d" "validate_settings d = SACCADE_OK"
  shows "unat (sd_binding_count d) \<le> maximum_hotkey_bindings" "unat (hg_alphabet_count (sd_hints d)) \<le> maximum_hint_alphabet"
  using assms by (auto simp: validate_settings_def settings_shape_def hints_shape_def hints_valid_def Let_def split: if_splits)

lemma validate_default_spares:
  assumes "settings_shape d" "validate_settings d = SACCADE_OK"
  shows "validate_settings (default_spares d) = SACCADE_OK" "settings_shape (default_spares d)"
proof -
  have n: "unat (sd_binding_count d) \<le> 128" "length (sd_bindings d) = 128"
    using validate_settings_counts [OF assms] assms(1) by (simp_all add: settings_shape_def)
  then show "settings_shape (default_spares d)" using assms(1) by (simp add: settings_shape_def default_spares_def initial_settings_def)
  have p: "pages_valid (default_spares d) = pages_valid d" by (simp add: pages_valid_def default_spares_def)
  show "validate_settings (default_spares d) = SACCADE_OK" using assms(2) n
    unfolding validate_settings_def p Let_def
    by (auto simp: default_spares_def initial_settings_def zero_binding_def list_all_iff split: if_splits dest!: in_set_dropD)
qed

lemma decode_body_later: "v = 3 \<or> v = 4 \<Longrightarrow> decode_body v = decode_body 4"
proof -
  assume "v = 3 \<or> v = 4"
  then have "v \<ge> 3" "(4 :: u32) \<ge> 3" by auto
  then have "read_hints v = read_hints 4" by (intro ext) (simp only: read_hints_def if_True)
  then show ?thesis by (intro ext) (simp only: decode_body_def)
qed

lemma length_put_list: "length (concat (map put_u16 hs)) = 2 * length hs" "length (concat (map put_u32 ws)) = 4 * length ws"
  by (induction hs, simp_all) (induction ws, simp_all)

lemma length_binding_list: "length (concat (map (\<lambda>b. concat (binding_pieces b)) bs)) = 18 * length bs"
  by (induction bs) (simp_all add: binding_pieces_def)

lemma settings_bytes_small:
  assumes "settings_shape d" "unat (sd_binding_count d) \<le> maximum_hotkey_bindings"
  shows "length (settings_bytes v d) \<le> settings_encoded_capacity"
  using assms
  by (simp add: concat_body_pieces concat_hints_pieces u64_pieces_def detector_pieces_def grid_pieces_def pointer_pieces_def action_pieces_def
      appearance_pieces_def compute_pieces_def length_put_list length_binding_list settings_shape_def hints_shape_def)

lemma decode_settings_bytes:
  assumes "settings_shape d" "validate_settings d = SACCADE_OK" "v = 3 \<or> v = 4"
  shows "decode_settings (Some (settings_bytes v d)) True = (SACCADE_OK, Some (default_spares d))"
proof -
  note n = validate_settings_counts [OF assms(1,2)]
  let ?body = "concat (body_pieces d)"
  have len: "length (settings_bytes v d) \<le> 4096" using settings_bytes_small [OF assms(1) n(1)] by simp
  then have u: "unat (word_of_nat (12 + length ?body) :: u32) = 12 + length ?body"
    by (subst unat_of_nat) simp
  have body: "decode_body v (Some ?body) = (default_spares d, Some [])"
    using decode_body_put [OF assms(1) n] decode_body_later [OF assms(3)] by simp
  have head: "read_bytes 4 (Some (settings_bytes v d)) = (settings_magic, Some (put_u32 v @ put_u32 (word_of_nat (12 + length ?body)) @ ?body))"
    unfolding settings_bytes_def Let_def by (rule read_bytes_facts(1)) (simp add: settings_magic_def)
  have guard: "\<not> (\<not> True \<or> length (settings_bytes v d) < 12 \<or> length (settings_bytes v d) > settings_encoded_capacity)"
    using len by simp
  have ver: "\<not> (settings_magic \<noteq> settings_magic \<or> v < minimum_settings_version \<or> v > settings_version \<or>
      unat (word_of_nat (12 + length ?body) :: u32) \<noteq> length (settings_bytes v d))"
    using assms(3) unfolding u by auto
  show ?thesis
    unfolding decode_settings_def option.case if_not_P [OF guard] head prod.case Let_def read_put_parts if_not_P [OF ver] body
    using validate_default_spares(1) [OF assms(1,2)] by simp
qed

lemma read_list_length: "read_list get n r = (xs, r') \<Longrightarrow> length xs = n"
  by (induction n arbitrary: r r' xs) (auto simp: Let_def split: prod.splits)

lemma read_bytes_length: "read_bytes n r = (bs, r') \<Longrightarrow> length bs = n"
  by (auto simp: read_bytes_def split: option.splits if_splits)

lemma length_migrated [simp]: "length (hg_physical_keys (migrate_hint_keys h)) = length (hg_physical_keys h)"
proof -
  have "length (foldl (\<lambda>ks i. ks[i := f ks i]) ks ix) = length ks" for f :: "'a list \<Rightarrow> nat \<Rightarrow> 'a" and ks ix
    by (induction ix arbitrary: ks) simp_all
  then show ?thesis by (simp add: migrate_hint_keys_def)
qed

lemma migrate_others [simp]: "hg_alphabet (migrate_hint_keys h) = hg_alphabet h" "hg_alphabet_count (migrate_hint_keys h) = hg_alphabet_count h"
  by (simp_all add: migrate_hint_keys_def)

lemma read_hints_shape: "read_hints v r = (h, r') \<Longrightarrow> hints_shape h"
  by (auto simp: read_hints_def hints_shape_def initial_hints_def Let_def dest!: read_list_length read_bytes_length split: prod.splits if_splits)

lemma initial_shape: "settings_shape initial_settings"
  by (simp add: settings_shape_def initial_settings_def hints_shape_def initial_hints_def initial_appearance_def)

lemma decode_body_shape:
  assumes "decode_body v r = (d, r')"
  shows "settings_shape d"
proof (cases "d = initial_settings")
  case True
  then show ?thesis by (simp add: initial_shape)
next
  case False
  then obtain n bs r1 r2 h r3 r4 e r5 r6 where "read_list read_binding n r1 = (bs, r2)" "n \<le> maximum_hotkey_bindings"
    "read_hints v r2 = (h, r3)" "read_appearance r4 = (e, r5)" "sd_bindings d = bs @ drop n (sd_bindings initial_settings)"
    "sd_hints d = h" "sd_appearance d = e"
    using assms by (auto simp: decode_body_def Let_def not_less split: prod.splits if_splits)
  moreover have "length (eg_font_family e) = 64" if "read_appearance r4 = (e, r5)" for r4 e r5
    using that by (auto simp: read_appearance_def dest!: read_bytes_length split: prod.splits)
  ultimately show ?thesis
    by (auto simp: settings_shape_def initial_settings_def dest!: read_list_length read_hints_shape)
qed

lemma settings_magic_len: "length settings_magic = 4"
  by (simp add: settings_magic_def)

lemma read_u32_at: "k + 4 \<le> length bytes \<Longrightarrow> \<exists>w. read_u32 (Some (drop k bytes)) = (w, Some (drop (k + 4) bytes))"
  by (simp add: read_word_def read_bytes_def add.commute)

lemma settings_bytes_read:
  assumes "decode_settings (Some bytes) True = (SACCADE_OK, Some d)"
  shows "settings_shape d \<and> validate_settings d = SACCADE_OK \<and>
    (let version = fst (read_u32 (Some (drop 4 bytes))) in
       version = 2 \<or> (version = 3 \<or> version = 4) \<and> default_spares d = d \<and> bytes = settings_bytes version d)"
proof -
  have "12 \<le> length bytes" using assms by (auto simp: decode_settings_def split: if_splits)
  then have "\<exists>v. read_u32 (Some (drop 4 bytes)) = (v, Some (drop 8 bytes))" "\<exists>t. read_u32 (Some (drop 8 bytes)) = (t, Some (drop 12 bytes))"
    "read_bytes 4 (Some bytes) = (take 4 bytes, Some (drop 4 bytes))"
    using read_u32_at [of 4 bytes] read_u32_at [of 8 bytes] by (simp_all add: read_bytes_def)
  then obtain m v t body where x: "read_bytes 4 (Some bytes) = (m, Some (drop 4 bytes))"
    "read_u32 (Some (drop 4 bytes)) = (v, Some (drop 8 bytes))" "read_u32 (Some (drop 8 bytes)) = (t, Some body)" by blast
  obtain d' r4 where d': "decode_body v (Some body) = (d', r4)" by fastforce
  have guards: "m = settings_magic" "2 \<le> v" "v \<le> 4" "unat t = length bytes" "r4 = Some []" "validate_settings d' = SACCADE_OK" "d = d'"
    using assms d' by (auto simp: decode_settings_def x Let_def not_less split: if_splits)
  have bytes: "bytes = m @ put_u32 v @ put_u32 t @ body"
    using read_bytes_facts(2) [OF x(1)] put_read_parts(2) [OF x(2)] put_read_parts(2) [OF x(3)] by simp
  have shape: "settings_shape d" using decode_body_shape [OF d'] guards(7) by simp
  have "v = 2 \<or> v = 3 \<or> v = 4"
  proof -
    have "unat v \<in> {2, 3, 4}" using guards(2,3) by (auto simp: word_le_nat_alt)
    then show ?thesis by (auto simp: word_unat_eq_iff)
  qed
  moreover have "default_spares d = d \<and> bytes = settings_bytes v d" if "v = 3 \<or> v = 4"
  proof -
    have "decode_body 4 (Some body) = (d, Some [])" using d' decode_body_later [OF that] guards(5,7) by simp
    from put_decode_body [OF this] have b: "default_spares d = d" "body = concat (body_pieces d)" by blast+
    have "unat t = 12 + length body" using guards(4) arg_cong [OF bytes, of length] guards(1) settings_magic_len by simp
    then have "t = word_of_nat (12 + length body)" by (metis of_nat_unat ucast_id)
    then show ?thesis using b bytes guards(1) by (simp add: settings_bytes_def Let_def)
  qed
  ultimately show ?thesis using shape guards(6,7) x(2) by (auto simp: Let_def)
qed

subsection \<open>Valid documents\<close>

lemma default_bindings_valid:
  "check_bindings [] (default_global_bindings @ default_session_bindings) = SACCADE_OK"
  by code_simp

lemma default_settings_valid: "validate_settings default_settings = SACCADE_OK"
  by code_simp


lemma default_settings_shape: "settings_shape default_settings"
  by code_simp

lemma reset_page_keeps_valid:
  assumes "validate_settings d = SACCADE_OK" "\<And>p. page \<noteq> Page_other p"
  shows "validate_settings (reset_page page d) = SACCADE_OK"
proof -
  note def_ok = default_settings_valid default_settings_shape
  have "hints_valid (sd_hints default_settings)" "pages_valid default_settings"
    "unat (sd_binding_count default_settings) \<le> length (sd_bindings default_settings)"
    "check_bindings [] (take (unat (sd_binding_count default_settings)) (sd_bindings default_settings)) = SACCADE_OK"
    "list_all (\<lambda>b. hk_physical_key b = 0 \<and> hk_modifiers b = 0 \<and> hk_flags b = 0 \<and> hk_logical_symbol b = 0)
       (drop (unat (sd_binding_count default_settings)) (sd_bindings default_settings))"
    "sd_flags default_settings AND NOT settings_flag_mask = 0" "enum_between (sd_source default_settings) 0 3"
    using def_ok(1) by (auto simp: validate_settings_def Let_def enum_between_def split: if_splits)
  moreover have "sd_scope default_settings = 0" "enum_between 0 0 2"
    by (simp_all add: default_settings_def initial_settings_def enum_between_def)
  ultimately show "validate_settings (reset_page page d) = SACCADE_OK" using assms
    by (cases page) (auto simp: validate_settings_def Let_def pages_valid_def split: if_splits)
qed

lemma reset_page_valid:
  assumes "settings_shape d" "validate_settings d = SACCADE_OK" "\<And>p. page \<noteq> Page_other p"
  shows "validate_settings (reset_page page d) = SACCADE_OK" "settings_shape (reset_page page d)"
  using assms default_settings_shape reset_page_keeps_valid [OF assms(2,3)]
  by (cases page; auto simp: settings_shape_def)+

subsection \<open>Alphabets\<close>

definition letter_ok :: "u16 \<times> u32 \<Rightarrow> bool" where
  "letter_ok = (\<lambda>(symbol, key). symbol_translated symbol \<and> hint_key_valid key)"

definition letter_clash :: "u16 \<times> u32 \<Rightarrow> u16 \<times> u32 \<Rightarrow> bool" where
  "letter_clash = (\<lambda>(s, k) (symbol, key). canonical_hint_symbol s = canonical_hint_symbol symbol \<or> k = key)"

lemma letters_valid_iff:
  "letters_valid previous letters \<longleftrightarrow> list_all letter_ok letters \<and> list_all (\<lambda>l. list_all (\<lambda>p. \<not> letter_clash p l) previous) letters \<and>
     sorted_wrt (\<lambda>p l. \<not> letter_clash p l) letters"
proof (induction letters arbitrary: previous)
  case Nil
  then show ?case by simp
next
  case (Cons l letters)
  obtain s k where l: "l = (s, k)" by fastforce
  have ok: "letter_ok l \<longleftrightarrow> \<not> (s = 0 \<or> (s \<ge> 0xd800 \<and> s \<le> 0xdfff) \<or> \<not> hint_key_valid k)"
    by (auto simp: letter_ok_def symbol_translated_def l not_less not_le)
  have clash: "list_ex (\<lambda>(s', k'). canonical_hint_symbol s' = canonical_hint_symbol s \<or> k' = k) previous \<longleftrightarrow>
      \<not> list_all (\<lambda>p. \<not> letter_clash p l) previous"
    by (auto simp: list_ex_iff list_all_iff letter_clash_def l)
  show ?case
    using Cons.IH [of "previous @ [l]"] ok clash unfolding l letters_valid.simps by (auto simp: list_all_iff)
qed

text \<open>The letters a settings document carries, and the distinctness the hint labels need.\<close>

lemma canonical_same: "canonical_hint_symbol = canonical_symbol"
  by (rule ext) (simp add: canonical_hint_symbol_def canonical_symbol_def)

lemma hints_valid_letters:
  assumes "hints_valid h" "length (hg_physical_keys h) = length (hg_alphabet h)"
  shows "2 \<le> unat (hg_alphabet_count h)" "unat (hg_alphabet_count h) \<le> length (hg_alphabet h)"
    "list_all symbol_translated (take (unat (hg_alphabet_count h)) (hg_alphabet h))"
    "distinct (map canonical_hint_symbol (take (unat (hg_alphabet_count h)) (hg_alphabet h)))"
proof -
  let ?n = "unat (hg_alphabet_count h)"
  have h: "2 \<le> ?n" "?n \<le> length (hg_alphabet h)" "letters_valid [] (take ?n (hint_letters h))"
    using assms(1) by (auto simp: hints_valid_def word_less_nat_alt not_less split: if_splits)
  show "2 \<le> ?n" "?n \<le> length (hg_alphabet h)" by (rule h)+
  have z: "take ?n (hint_letters h) = zip (take ?n (hg_alphabet h)) (take ?n (hg_physical_keys h))"
    by (simp add: hint_letters_def take_zip)
  have len: "length (take ?n (hg_alphabet h)) = length (take ?n (hg_physical_keys h))" using assms(2) by simp
  have lv: "list_all letter_ok (take ?n (hint_letters h))" "sorted_wrt (\<lambda>p l. \<not> letter_clash p l) (take ?n (hint_letters h))"
    using h(3) by (simp_all add: letters_valid_iff)
  show "list_all symbol_translated (take ?n (hg_alphabet h))"
    using lv(1) len unfolding z by (auto simp: list_all_length letter_ok_def)
  show "distinct (map canonical_hint_symbol (take ?n (hg_alphabet h)))"
    using lv(2) len unfolding z by (auto simp: sorted_wrt_iff_nth_less distinct_conv_nth letter_clash_def nat_neq_iff assms(2)) metis
qed

text \<open>The search for two equal letters, and the repair loop: it ends after at most one round per letter, and it
  never finds two equal letters that are both untranslated.\<close>

lemma first_clash_None:
  "first_clash al is = None \<Longrightarrow> list_all (\<lambda>i. list_all (\<lambda>p. canonical_hint_symbol (al ! p) \<noteq> canonical_hint_symbol (al ! i)) [0..<i]) is"
  by (induction "is") (auto simp: list_all_iff split: option.splits)

lemma first_clash_Some:
  "first_clash al is = Some (p, i) \<Longrightarrow> i \<in> set is \<and> p < i \<and> canonical_hint_symbol (al ! p) = canonical_hint_symbol (al ! i)"
  by (induction "is") (auto dest!: find_Some_iff_hd split: option.splits)

lemma resolve_clashes_ends:
  assumes "n \<le> length original" "distinct (map canonical_hint_symbol (take n original))" "length translated = n"
    "length al = length original" "list_all (\<lambda>i. translated ! i \<or> al ! i = original ! i) [0..<n]"
  shows "\<exists>al'. resolve_clashes original n translated al = Some (SACCADE_OK, al') \<and> length al' = length original \<and>
    drop n al' = drop n al \<and> first_clash al' [0..<n] = None \<and>
    list_all (\<lambda>i. al' ! i = original ! i \<or> translated ! i \<and> al' ! i = al ! i) [0..<n]"
  using assms(3-)
proof (induction "length (filter id translated)" arbitrary: translated al rule: less_induct)
  case less
  show ?case
  proof (cases "first_clash al [0..<n]")
    case None
    then show ?thesis using less.prems by (subst resolve_clashes.simps) (auto simp: list_all_iff)
  next
    case (Some c)
    obtain p i where c: "c = (p, i)" by fastforce
    note f = first_clash_Some [OF Some [unfolded c]]
    have pi: "p < i" "i < n" "canonical_hint_symbol (al ! p) = canonical_hint_symbol (al ! i)" using f by auto
    have "translated ! p \<or> translated ! i"
    proof (rule ccontr)
      assume "\<not> (translated ! p \<or> translated ! i)"
      then have "al ! p = original ! p" "al ! i = original ! i" using less.prems(3) pi by (auto simp: list_all_iff)
      then have "map canonical_hint_symbol (take n original) ! p = map canonical_hint_symbol (take n original) ! i"
        using pi assms(1) by simp
      then show False using nth_eq_iff_index_eq [OF assms(2), of p i] assms(1) pi by simp
    qed
    define k where "k = (if translated ! i then i else p)"
    have k: "k < n" "translated ! k" using pi \<open>translated ! p \<or> translated ! i\<close> by (auto simp: k_def)
    let ?tr = "translated[k := False]" and ?al = "al[k := original ! k]"
    have step: "resolve_clashes original n translated al = resolve_clashes original n ?tr ?al"
      using Some c \<open>translated ! p \<or> translated ! i\<close> by (subst resolve_clashes.simps) (auto simp: k_def Let_def)
    have fewer: "length (filter id ?tr) < length (filter id translated)"
      using length_filter_update [of k translated id False] k less.prems(1) by simp
    have inv: "list_all (\<lambda>i. ?tr ! i \<or> ?al ! i = original ! i) [0..<n]"
      using less.prems k assms(1) by (auto simp: list_all_iff nth_list_update)
    obtain al' where r: "resolve_clashes original n ?tr ?al = Some (SACCADE_OK, al')" "length al' = length original"
      "drop n al' = drop n ?al" "first_clash al' [0..<n] = None"
      "list_all (\<lambda>i. al' ! i = original ! i \<or> ?tr ! i \<and> al' ! i = ?al ! i) [0..<n]"
      using less.hyps [OF fewer, of ?al] less.prems(1,2) inv by auto
    have "list_all (\<lambda>i. al' ! i = original ! i \<or> translated ! i \<and> al' ! i = al ! i) [0..<n]"
      using r(5) less.prems(1,2) k assms(1) by (auto simp: list_all_iff nth_list_update split: if_splits)
    then show ?thesis using r(1-4) k step by auto
  qed
qed


lemma first_clash_distinct:
  assumes "first_clash al [0..<n] = None" "i < n" "j < n" "canonical_hint_symbol (al ! i) = canonical_hint_symbol (al ! j)"
  shows "i = j"
proof -
  have f: "p < k \<Longrightarrow> k < n \<Longrightarrow> canonical_hint_symbol (al ! p) \<noteq> canonical_hint_symbol (al ! k)" for p k
    using first_clash_None [OF assms(1)] by (auto simp: list_all_iff)
  show ?thesis using f [of i j] f [of j i] assms(2-4) by (cases i j rule: linorder_cases) auto
qed

text \<open>Letters over other symbols on the same keys.\<close>

lemma hints_valid_symbols:
  assumes "hints_valid h" "hints_shape h" "length al = length (hg_alphabet h)"
    "drop (unat (hg_alphabet_count h)) al = drop (unat (hg_alphabet_count h)) (hg_alphabet h)"
    "list_all (\<lambda>i. symbol_translated (al ! i)) [0..<unat (hg_alphabet_count h)]"
    "first_clash al [0..<unat (hg_alphabet_count h)] = None"
  shows "hints_valid (h\<lparr>hg_alphabet := al\<rparr>)"
proof -
  let ?n = "unat (hg_alphabet_count h)"
  have len: "length (hg_physical_keys h) = length (hg_alphabet h)" using assms(2) by (simp add: hints_shape_def)
  note n = hints_valid_letters(1,2) [OF assms(1) len]
  have old: "letters_valid [] (take ?n (hint_letters h))" "list_all (\<lambda>(symbol, key). symbol = 0 \<and> key = 0) (drop ?n (hint_letters h))"
    using assms(1) by (auto simp: hints_valid_def split: if_splits)
  have lv: "list_all letter_ok (take ?n (hint_letters h))" "sorted_wrt (\<lambda>p l. \<not> letter_clash p l) (take ?n (hint_letters h))"
    using old(1) by (simp_all add: letters_valid_iff)
  have at: "i < ?n \<Longrightarrow> take ?n (zip al (hg_physical_keys h)) ! i = (al ! i, hg_physical_keys h ! i)"
    "i < ?n \<Longrightarrow> take ?n (hint_letters h) ! i = (hg_alphabet h ! i, hg_physical_keys h ! i)" for i
    using n len assms(3) by (simp_all add: hint_letters_def)
  have lens: "length (take ?n (zip al (hg_physical_keys h))) = ?n" "length (take ?n (hint_letters h)) = ?n"
    using n len assms(3) by (simp_all add: hint_letters_def)
  have "list_all letter_ok (take ?n (zip al (hg_physical_keys h)))"
    using lv(1) assms(5) at lens unfolding list_all_length by (auto simp: letter_ok_def)
  moreover have "sorted_wrt (\<lambda>p l. \<not> letter_clash p l) (take ?n (zip al (hg_physical_keys h)))"
    unfolding sorted_wrt_iff_nth_less lens
  proof (intro allI impI)
    fix i j assume ij: "i < j" "j < ?n"
    then have "\<not> letter_clash (take ?n (hint_letters h) ! i) (take ?n (hint_letters h) ! j)"
      using lv(2) unfolding sorted_wrt_iff_nth_less lens by blast
    then have "hg_physical_keys h ! i \<noteq> hg_physical_keys h ! j" using at ij by (simp add: letter_clash_def)
    then show "\<not> letter_clash (take ?n (zip al (hg_physical_keys h)) ! i) (take ?n (zip al (hg_physical_keys h)) ! j)"
      using first_clash_distinct [OF assms(6), of i j] at ij by (auto simp: letter_clash_def)
  qed
  moreover have "drop ?n (zip al (hg_physical_keys h)) = drop ?n (hint_letters h)"
    using assms(4) by (simp add: hint_letters_def drop_zip)
  ultimately show ?thesis using assms(1,3) old(2)
    by (simp add: hints_valid_def letters_valid_iff hint_letters_def split: if_splits)
qed

lemma resolve_hint_alphabet_result:
  assumes "hints_shape h" "hints_valid h"
  obtains al where "resolve_hint_alphabet h (Some symbols) True = Some (SACCADE_OK, Some (h\<lparr>hg_alphabet := al\<rparr>))"
    "hints_valid (h\<lparr>hg_alphabet := al\<rparr>)" "hints_shape (h\<lparr>hg_alphabet := al\<rparr>)"
    "list_all (\<lambda>i. al ! i = hg_alphabet h ! i \<or> symbol_translated (symbols ! i) \<and> al ! i = symbols ! i) [0..<unat (hg_alphabet_count h)]"
proof -
  let ?n = "unat (hg_alphabet_count h)"
  let ?tr = "map (\<lambda>i. symbol_translated (symbols ! i)) [0..<?n]"
  let ?al = "map (\<lambda>i. if ?tr ! i then symbols ! i else hg_alphabet h ! i) [0..<?n] @ drop ?n (hg_alphabet h)"
  have len: "length (hg_physical_keys h) = length (hg_alphabet h)" using assms(1) by (simp add: hints_shape_def)
  note v = hints_valid_letters [OF assms(2) len]
  have inv: "list_all (\<lambda>i. ?tr ! i \<or> ?al ! i = hg_alphabet h ! i) [0..<?n]" by (simp add: list_all_iff nth_append)
  have "length ?al = length (hg_alphabet h)" using v(2) by simp
  then obtain al where r: "resolve_clashes (hg_alphabet h) ?n ?tr ?al = Some (SACCADE_OK, al)" "length al = length (hg_alphabet h)"
    "drop ?n al = drop ?n ?al" "first_clash al [0..<?n] = None"
    "list_all (\<lambda>i. al ! i = hg_alphabet h ! i \<or> ?tr ! i \<and> al ! i = ?al ! i) [0..<?n]"
    using resolve_clashes_ends [OF v(2,4) _ _ inv] by auto
  have now: "list_all (\<lambda>i. al ! i = hg_alphabet h ! i \<or> symbol_translated (symbols ! i) \<and> al ! i = symbols ! i) [0..<?n]"
    using r(5) by (auto simp: list_all_iff nth_append)
  have "list_all (\<lambda>i. symbol_translated (al ! i)) [0..<?n]"
  proof -
    have "symbol_translated (hg_alphabet h ! i)" if "i < ?n" for i using v(2,3) that by (simp add: list_all_length)
    then show ?thesis using now by (auto simp: list_all_iff)
  qed
  moreover have "drop ?n al = drop ?n (hg_alphabet h)" using r(3) by simp
  ultimately have valid: "hints_valid (h\<lparr>hg_alphabet := al\<rparr>)"
    using hints_valid_symbols [OF assms(2,1) r(2)] r(4) by blast
  have shape: "hints_shape (h\<lparr>hg_alphabet := al\<rparr>)" using assms(1) r(2) by (simp add: hints_shape_def)
  show ?thesis
  proof (rule that [OF _ valid shape now])
    show "resolve_hint_alphabet h (Some symbols) True = Some (SACCADE_OK, Some (h\<lparr>hg_alphabet := al\<rparr>))"
      using r(1) valid assms(2) by (simp add: resolve_hint_alphabet_def Let_def)
  qed
qed

text \<open>A valid document's profile has a valid hint configuration.\<close>

lemma profile_hints_valid:
  assumes "hints_valid (sd_hints d)" "hints_valid h" "hints_shape h"
  shows "hint_config_valid (ip_hints (make_interaction_profile d h px py cx cy seed))"
proof -
  have len: "length (hg_physical_keys h) = length (hg_alphabet h)" using assms(3) by (simp add: hints_shape_def)
  note v = hints_valid_letters [OF assms(2) len]
  have "hg_priority (sd_hints d) \<le> 3" using assms(1) by (auto simp: hints_valid_def enum_between_def split: if_splits)
  then have "unat (hg_priority (sd_hints d)) \<in> {0, 1, 2, 3}" by (auto simp: word_le_nat_alt)
  then have "hg_priority (sd_hints d) \<in> {0, 1, 2, 3}" by (auto simp: word_unat_eq_iff)
  then have p: "(case hint_priority_of (hg_priority (sd_hints d)) of Priority_other x \<Rightarrow> True | _ \<Rightarrow> False) = False"
    by (auto simp: hint_priority_of_def)
  have "0 \<notin> set (take (unat (hg_alphabet_count h)) (hg_alphabet h))" using v(3) by (auto simp: list_all_iff symbol_translated_def)
  then have "\<not> symbols_clash (take (unat (hg_alphabet_count h)) (hg_alphabet h))"
    using v(4) by (simp add: symbols_clash_iff canonical_def canonical_same)
  then show ?thesis using v(1,2) assms(3) p
    by (simp add: hint_config_valid_def make_interaction_profile_def Let_def hints_shape_def not_less)
qed


text \<open>Keys for a new alphabet: at most 32 letters, so one of the 36 keys the migration tries is always free.\<close>

lemma migrated_key_fresh:
  assumes "i < 36"
  shows "hint_key_valid (migrated_key ks i symbol) \<and> migrated_key ks i symbol \<notin> set (take i ks)"
proof (cases "\<not> hint_key_valid (us_physical_key symbol) \<or> key_used ks i (us_physical_key symbol)")
  case False
  then show ?thesis by (simp add: migrated_key_def key_used_def Let_def)
next
  case True
  let ?all = fallback_keys
  have "distinct ?all" "length ?all = 36" by code_simp+
  then have "card (set ?all) = 36" by (simp add: distinct_card)
  moreover have "card (set (take i ks)) \<le> i" using card_length [of "take i ks"] by simp
  ultimately have "\<not> set ?all \<subseteq> set (take i ks)" using assms card_mono [of "set (take i ks)" "set ?all"] by auto
  then obtain c where c: "List.find (\<lambda>candidate. \<not> key_used ks i candidate) ?all = Some c"
    by (cases "List.find (\<lambda>candidate. \<not> key_used ks i candidate) ?all") (auto simp: key_used_def)
  then have "c \<in> set ?all" "\<not> key_used ks i c" using find_Some_iff_hd by fast+
  moreover have "list_all hint_key_valid ?all" by code_simp
  ultimately show ?thesis using True c by (auto simp: migrated_key_def key_used_def list_all_iff)
qed

lemma migrate_hint_keys_fresh:
  assumes "unat (hg_alphabet_count h) \<le> 32" "unat (hg_alphabet_count h) \<le> length (hg_physical_keys h)"
  shows "list_all hint_key_valid (take (unat (hg_alphabet_count h)) (hg_physical_keys (migrate_hint_keys h)))"
    "distinct (take (unat (hg_alphabet_count h)) (hg_physical_keys (migrate_hint_keys h)))"
    "drop (unat (hg_alphabet_count h)) (hg_physical_keys (migrate_hint_keys h)) = drop (unat (hg_alphabet_count h)) (hg_physical_keys h)"
proof -
  let ?f = "\<lambda>ks i. ks[i := migrated_key ks i (hg_alphabet h ! i)]"
  have "k \<le> 32 \<Longrightarrow> k \<le> length ks \<Longrightarrow> length (foldl ?f ks [0..<k]) = length ks \<and> list_all hint_key_valid (take k (foldl ?f ks [0..<k])) \<and>
      distinct (take k (foldl ?f ks [0..<k])) \<and> drop k (foldl ?f ks [0..<k]) = drop k ks" for k ks
  proof (induction k)
    case 0
    then show ?case by simp
  next
    case (Suc k)
    let ?ks = "foldl ?f ks [0..<k]"
    have ih: "length ?ks = length ks" "list_all hint_key_valid (take k ?ks)" "distinct (take k ?ks)" "drop k ?ks = drop k ks"
      using Suc by simp_all
    let ?key = "migrated_key ?ks k (hg_alphabet h ! k)"
    have t: "take (Suc k) (?ks[k := ?key]) = take k ?ks @ [?key]" using ih(1) Suc.prems(2) by (simp add: take_Suc_conv_app_nth)
    have d: "drop (Suc k) (?ks[k := ?key]) = drop (Suc k) ks"
      using arg_cong [OF ih(4), of tl] by (simp add: drop_Suc [symmetric] tl_drop)
    show ?case using migrated_key_fresh [of k ?ks "hg_alphabet h ! k"] ih Suc.prems(1) t d by simp
  qed
  then have "list_all hint_key_valid (take (unat (hg_alphabet_count h)) (foldl ?f (hg_physical_keys h) [0..<unat (hg_alphabet_count h)])) \<and>
      distinct (take (unat (hg_alphabet_count h)) (foldl ?f (hg_physical_keys h) [0..<unat (hg_alphabet_count h)])) \<and>
      drop (unat (hg_alphabet_count h)) (foldl ?f (hg_physical_keys h) [0..<unat (hg_alphabet_count h)]) =
      drop (unat (hg_alphabet_count h)) (hg_physical_keys h)" using assms by blast
  then show "list_all hint_key_valid (take (unat (hg_alphabet_count h)) (hg_physical_keys (migrate_hint_keys h)))"
    "distinct (take (unat (hg_alphabet_count h)) (hg_physical_keys (migrate_hint_keys h)))"
    "drop (unat (hg_alphabet_count h)) (hg_physical_keys (migrate_hint_keys h)) = drop (unat (hg_alphabet_count h)) (hg_physical_keys h)"
    by (simp_all add: migrate_hint_keys_def)
qed

definition new_alphabet :: "hint_settings \<Rightarrow> u16 list \<Rightarrow> hint_settings" where
  "new_alphabet h symbols = migrate_hint_keys (h\<lparr>hg_alphabet := symbols @ replicate (length (hg_alphabet h) - length symbols) 0,
     hg_physical_keys := replicate (length (hg_alphabet h)) 0, hg_alphabet_count := word_of_nat (length symbols)\<rparr>)"

lemma new_alphabet_valid:
  assumes "hints_shape h" "hints_valid h" "2 \<le> length symbols" "length symbols \<le> 32"
  shows "hints_valid (new_alphabet h symbols) \<longleftrightarrow> list_all symbol_translated symbols \<and> distinct (map canonical_hint_symbol symbols)"
    "hints_shape (new_alphabet h symbols)"
proof -
  let ?n = "length symbols"
  let ?h = "h\<lparr>hg_alphabet := symbols @ replicate (length (hg_alphabet h) - ?n) 0,
     hg_physical_keys := replicate (length (hg_alphabet h)) 0, hg_alphabet_count := word_of_nat ?n\<rparr>"
  let ?ks = "hg_physical_keys (migrate_hint_keys ?h)"
  have u: "unat (word_of_nat ?n :: u32) = ?n" using assms(4) by (simp add: unat_of_nat)
  have a32: "length (hg_alphabet h) = 32" using assms(1) by (simp add: hints_shape_def)
  show "hints_shape (new_alphabet h symbols)"
    using assms(1,4) length_migrated [of ?h] by (simp add: new_alphabet_def hints_shape_def) (simp add: migrate_hint_keys_def)
  have ks: "list_all hint_key_valid (take ?n ?ks)" "distinct (take ?n ?ks)" "drop ?n ?ks = replicate (32 - ?n) 0" "length ?ks = 32"
    using migrate_hint_keys_fresh [of ?h] u a32 assms(4) length_migrated [of ?h] by simp_all
  have letters: "take ?n (hint_letters (new_alphabet h symbols)) = zip symbols (take ?n ?ks)"
    "drop ?n (hint_letters (new_alphabet h symbols)) = zip (replicate (32 - ?n) 0) (replicate (32 - ?n) 0)"
    using ks(3) a32 by (simp_all add: new_alphabet_def hint_letters_def take_zip drop_zip)
  have kat: "length (take ?n ?ks) = ?n" using ks(4) assms(4) by simp
  have "list_all letter_ok (zip symbols (take ?n ?ks)) \<longleftrightarrow> list_all symbol_translated symbols"
    using ks(1) kat unfolding list_all_length by (auto simp: letter_ok_def)
  moreover have "sorted_wrt (\<lambda>p l. \<not> letter_clash p l) (zip symbols (take ?n ?ks)) \<longleftrightarrow> distinct (map canonical_hint_symbol symbols)"
  proof -
    have "take ?n ?ks ! i \<noteq> take ?n ?ks ! j" if "i < j" "j < ?n" for i j
      using nth_eq_iff_index_eq [OF ks(2), of i j] that kat by simp
    then have "sorted_wrt (\<lambda>p l. \<not> letter_clash p l) (zip symbols (take ?n ?ks)) \<longleftrightarrow>
        (\<forall>i j. i < j \<longrightarrow> j < ?n \<longrightarrow> canonical_hint_symbol (symbols ! i) \<noteq> canonical_hint_symbol (symbols ! j))"
      using kat unfolding sorted_wrt_iff_nth_less by (auto simp: letter_clash_def)
    also have "\<dots> \<longleftrightarrow> distinct (map canonical_hint_symbol symbols)"
      by (auto simp: distinct_conv_nth nat_neq_iff) (metis)
    finally show ?thesis .
  qed
  moreover have "hg_language (new_alphabet h symbols) = hg_language h" "hg_priority (new_alphabet h symbols) = hg_priority h"
    "hg_placement (new_alphabet h symbols) = hg_placement h" "hg_sorting (new_alphabet h symbols) = hg_sorting h"
    "hg_alphabet_count (new_alphabet h symbols) = word_of_nat ?n" "length (hg_alphabet (new_alphabet h symbols)) = 32"
    using assms(4) a32 by (simp_all add: new_alphabet_def migrate_hint_keys_def)
  moreover have "\<not> (word_of_nat ?n :: u32) < 2" using u assms(3) by (simp add: word_less_nat_alt)
  moreover have "list_all (\<lambda>(symbol, key). symbol = 0 \<and> key = 0) (zip (replicate (32 - ?n) (0 :: u16)) (replicate (32 - ?n) (0 :: u32)))"
    by (simp add: list_all_length)
  ultimately show "hints_valid (new_alphabet h symbols) \<longleftrightarrow> list_all symbol_translated symbols \<and> distinct (map canonical_hint_symbol symbols)"
    using assms(2,4) u letters unfolding hints_valid_def [of "new_alphabet h symbols"] hints_valid_def [of h]
    by (simp add: letters_valid_iff split: if_splits)
qed

subsection \<open>The overlay style\<close>

lemma resolved_style_valid:
  assumes "unat (eg_font_size_q8 e) \<le> 32768"
  shows "overlay_style_valid (resolve_overlay_style e flags dark) \<longleftrightarrow> eg_font_size_q8 e \<ge> 16"
proof -
  let ?g = "q8_to_q3 (eg_font_size_q8 e)" let ?G = "(unat (eg_font_size_q8 e) + 16) div 32"
  have q3: "unat (q8_to_q3 v) = (unat v + 16) div 32" if "unat v \<le> 65535" for v
  proof -
    have "unat (v + 16) = unat v + 16" using that by (simp add: unat_word_ariths)
    moreover have "unat (drop_bit 5 (v + 16)) = drop_bit 5 (unat (v + 16))" by (rule unat_drop_bit_eq)
    ultimately have "unat (drop_bit 5 (v + 16)) = (unat v + 16) div 32" by (simp only: drop_bit_eq_div) simp
    then show ?thesis using that by (simp add: q8_to_q3_def unsigned_ucast_eq take_bit_eq_mod)
  qed
  have g: "unat ?g = ?G" "?G \<le> 1024" using q3 [of "eg_font_size_q8 e"] assms by simp_all
  let ?w = "ucast (((ucast ?g :: u32) * 5 + 3) div 7) :: u16"
  have "unat ((ucast ?g :: u32) * 5 + 3) = ?G * 5 + 3" using g by (simp add: unat_word_ariths)
  then have "unat (((ucast ?g :: u32) * 5 + 3) div 7) = (?G * 5 + 3) div 7" by (simp add: unat_div_distrib)
  then have w: "unat ?w = (?G * 5 + 3) div 7" using g(2) by (simp add: unsigned_ucast_eq take_bit_eq_mod)
  have max: "unat (max a b) = max (unat a) (unat b)" for a b :: u16 by (simp add: max_def word_le_nat_alt)
  have d: "unat (?g div 7) = ?G div 7" using g(1) by (simp add: unat_div_distrib)
  let ?pad = "max 16 (?g div 7)" and ?sp = "max 8 (?g div 7)"
  have pad: "unat ?pad = max 16 (?G div 7)" "unat ?sp = max 8 (?G div 7)" using d by (simp_all add: max)
  define m where "m = max 16 (?G div 7)"
  have m: "m \<le> 146" using g(2) by (simp add: m_def)
  have h: "unat (?g + ?pad * 2) = ?G + m * 2" using g pad(1) [folded m_def] m by (simp add: unat_word_ariths)
  define sp where "sp = max 8 (?G div 7)"
  define wn where "wn = (?G * 5 + 3) div 7"
  have b: "sp \<le> 146" "wn \<le> 740" using g(2) by (simp_all add: sp_def wn_def)
  have adv: "unat (?w + ?sp) = wn + sp" using w [folded wn_def] pad(2) [folded sp_def] b by (simp add: unat_word_ariths)
  have narrow: "unat (ucast (x :: u16) :: u32) \<le> 65535" for x
  proof -
    have "unat x < 65536" by simp
    then show ?thesis unfolding unat_widen_words by linarith
  qed
  let ?st = "max 1 (q8_to_q3 (ucast (eg_outline_width_q8 e)))" and ?gl = "q8_to_q3 (ucast (eg_glow_radius_q8 e))"
  have q3_le: "unat (q8_to_q3 (ucast (x :: u16))) \<le> 2048" for x
  proof -
    have "unat x < 65536" by simp
    then show ?thesis unfolding q3 [OF narrow] unat_widen_words by linarith
  qed
  have st: "1 \<le> unat ?st" "unat ?st \<le> 2048" "unat ?gl \<le> 2048"
    using q3_le [of "eg_outline_width_q8 e"] q3_le [of "eg_glow_radius_q8 e"] by (simp_all add: max)
  have act: "unat (?st + ?gl) = unat ?st + unat ?gl" using st by (simp add: unat_word_ariths)
  obtain p1 p2 p3 p4 p5 where pal: "overlay_palette e dark = (p1, p2, p3, p4, p5)" by (metis surj_pair)
  have "overlay_style_valid (resolve_overlay_style e flags dark) \<longleftrightarrow>
      ?st \<noteq> 0 \<and> ?g + ?pad * 2 \<noteq> 0 \<and> ?w \<noteq> 0 \<and> ?g \<noteq> 0 \<and> ?w + ?sp \<ge> ?w \<and> ?g + ?pad * 2 \<ge> ?g \<and> ?st + ?gl \<noteq> 0"
    by (simp add: resolve_overlay_style_def pal overlay_style_valid_def Let_def)
  also have "\<dots> \<longleftrightarrow> unat ?st \<noteq> 0 \<and> unat (?g + ?pad * 2) \<noteq> 0 \<and> unat ?w \<noteq> 0 \<and> unat ?g \<noteq> 0 \<and> unat (?w + ?sp) \<ge> unat ?w \<and>
      unat (?g + ?pad * 2) \<ge> unat ?g \<and> unat (?st + ?gl) \<noteq> 0"
    unfolding word_le_nat_alt unat_eq_0 ..
  also have "\<dots> \<longleftrightarrow> ?G \<noteq> 0" 
  proof -
    have "?G \<noteq> 0 \<Longrightarrow> wn \<noteq> 0" unfolding wn_def by linarith
    then show ?thesis unfolding h adv act w [folded wn_def] g(1) using st(1) by linarith
  qed
  also have "\<dots> \<longleftrightarrow> eg_font_size_q8 e \<ge> 16" by (simp add: word_le_nat_alt div_eq_0_iff not_less)
  finally show ?thesis .
qed

subsection \<open>Properties\<close>

text \<open>C14. Writing settings and reading them back: with an output of at most the capacity, encoding succeeds exactly for a
  valid document that fits, and decoding what was written gives the document back, its unused bindings value-initialised.
  Every valid document fits the capacity.\<close>

theorem settings_roundtrip:
  "if settings_shape d \<and> length data \<le> settings_encoded_capacity
   then (case encode_settings d (Some data) True of
       (SACCADE_OK, Some n, Some out) \<Rightarrow> validate_settings d = SACCADE_OK \<and> n = length (settings_bytes 4 d) \<and>
         length out = length data \<and> drop n out = drop n data \<and>
         decode_settings (Some (take n out)) True = (SACCADE_OK, Some (default_spares d))
     | (result, _) \<Rightarrow> (if validate_settings d \<noteq> SACCADE_OK then result = validate_settings d
         else result = SACCADE_ERROR_CAPACITY \<and> length data < length (settings_bytes 4 d) \<and>
           length (settings_bytes 4 d) \<le> settings_encoded_capacity))
   else True"
proof (cases "settings_shape d \<and> length data \<le> settings_encoded_capacity")
  case shape: True
  show ?thesis
  proof (cases "validate_settings d = SACCADE_OK")
    case True
    have small: "length (settings_bytes 4 d) \<le> settings_encoded_capacity"
      using settings_bytes_small validate_settings_counts(1) shape True by blast
    show ?thesis
    proof (cases "length (settings_bytes 4 d) \<le> length data")
      case fits: True
      then have "encode_settings d (Some data) True = (SACCADE_OK, Some (length (settings_bytes 4 d)),
          Some (settings_bytes 4 d @ drop (length (settings_bytes 4 d)) data))"
        using encode_settings_result [OF conjunct2 [OF shape] True] by simp
      then show ?thesis using decode_settings_bytes [of d 4] shape True fits by simp
    next
      case False
      then have "fst (encode_settings d (Some data) True) = SACCADE_ERROR_CAPACITY"
        using encode_settings_result [OF conjunct2 [OF shape] True] by simp
      then obtain x where "encode_settings d (Some data) True = (SACCADE_ERROR_CAPACITY, x)" by (metis prod.collapse)
      then show ?thesis using False True small by simp
    qed
  next
    case False
    then have "encode_settings d (Some data) True = (validate_settings d, Some 0, Some data)"
      using shape by (simp add: encode_settings_def Let_def)
    then show ?thesis using False by (cases "validate_settings d") auto
  qed
qed (simp only: if_False)

text \<open>C22. What the settings reader accepts: the document is valid and of the right shape, its version is 2, 3 or 4, and
  bytes of version 3 or 4 are exactly those the writer writes for the document it delivers.\<close>

theorem settings_reader_exact:
  "case decode_settings (Some bytes) True of
     (SACCADE_OK, Some d) \<Rightarrow> settings_shape d \<and> validate_settings d = SACCADE_OK \<and>
       (let version = fst (read_u32 (Some (drop 4 bytes))) in
        if version = 2 then True else (version = 3 \<or> version = 4) \<and> bytes = settings_bytes version d)
   | (result, _) \<Rightarrow> result \<in> {SACCADE_ERROR_INVALID_ARGUMENT, SACCADE_ERROR_VERSION, SACCADE_ERROR_ALREADY_EXISTS}"
proof -
  have v: "validate_settings d \<in> {SACCADE_OK, SACCADE_ERROR_INVALID_ARGUMENT, SACCADE_ERROR_ALREADY_EXISTS}" for d
  proof -
    have "check_bindings ps bs \<in> {SACCADE_OK, SACCADE_ERROR_INVALID_ARGUMENT, SACCADE_ERROR_ALREADY_EXISTS}" for ps bs
      by (induction ps bs rule: check_bindings.induct) simp_all
    from this [of "[]" "take (unat (sd_binding_count d)) (sd_bindings d)"] show ?thesis
      unfolding validate_settings_def Let_def by (auto split: if_split)
  qed
  obtain r out where r: "decode_settings (Some bytes) True = (r, out)" by fastforce
  have "r \<in> {SACCADE_OK, SACCADE_ERROR_INVALID_ARGUMENT, SACCADE_ERROR_VERSION, SACCADE_ERROR_ALREADY_EXISTS} \<and> (r = SACCADE_OK \<longrightarrow> out \<noteq> None)"
    using r v by (auto simp: decode_settings_def Let_def split: prod.splits if_splits)
  then show ?thesis using settings_bytes_read [of bytes] r by (cases out; cases r) (auto simp: Let_def)
qed

text \<open>C15. Hint letters: an alphabet is accepted exactly if it has 2 to 32 letters, none of them zero or a surrogate and
  no two equal up to case, and then every letter gets a key of its own. Translating a valid alphabet always ends with a valid
  alphabet of translated and original letters, and the profile built from it is one the hint labels accept.\<close>

theorem hint_alphabets:
  "if hints_shape h \<and> hints_valid h \<and> hints_valid (sd_hints d)
   then (case set_hint_alphabet (Some h) (Some symbols) of
       (SACCADE_OK, Some h') \<Rightarrow> length symbols \<in> {2..32} \<and> list_all symbol_translated symbols \<and>
         distinct (map canonical_hint_symbol symbols) \<and> hints_valid h' \<and> hints_shape h' \<and>
         take (length symbols) (hg_alphabet h') = symbols
     | (_, h') \<Rightarrow> h' = Some h \<and>
         \<not> (length symbols \<in> {2..32} \<and> list_all symbol_translated symbols \<and> distinct (map canonical_hint_symbol symbols))) \<and>
     (case resolve_hint_alphabet h (Some translated) True of
        Some (SACCADE_OK, Some h') \<Rightarrow> hints_valid h' \<and> h' = h\<lparr>hg_alphabet := hg_alphabet h'\<rparr> \<and>
          list_all (\<lambda>i. hg_alphabet h' ! i = hg_alphabet h ! i \<or>
            symbol_translated (translated ! i) \<and> hg_alphabet h' ! i = translated ! i) [0..<unat (hg_alphabet_count h)] \<and>
          hint_config_valid (ip_hints (make_interaction_profile d h' px py cx cy seed))
      | _ \<Rightarrow> False)
   else True"
proof (cases "hints_shape h \<and> hints_valid h \<and> hints_valid (sd_hints d)")
  case True
  then have h: "hints_shape h" "hints_valid h" "hints_valid (sd_hints d)" by simp_all
  have a32: "length (hg_alphabet h) = 32" using h(1) by (simp add: hints_shape_def)
  obtain al where al: "resolve_hint_alphabet h (Some translated) True = Some (SACCADE_OK, Some (h\<lparr>hg_alphabet := al\<rparr>))"
    "hints_valid (h\<lparr>hg_alphabet := al\<rparr>)" "hints_shape (h\<lparr>hg_alphabet := al\<rparr>)"
    "list_all (\<lambda>i. al ! i = hg_alphabet h ! i \<or> symbol_translated (translated ! i) \<and> al ! i = translated ! i)
       [0..<unat (hg_alphabet_count h)]"
    using resolve_hint_alphabet_result [OF h(1,2)] by blast
  have "case set_hint_alphabet (Some h) (Some symbols) of
       (SACCADE_OK, Some h') \<Rightarrow> length symbols \<in> {2..32} \<and> list_all symbol_translated symbols \<and>
         distinct (map canonical_hint_symbol symbols) \<and> hints_valid h' \<and> hints_shape h' \<and>
         take (length symbols) (hg_alphabet h') = symbols
     | (_, h') \<Rightarrow> h' = Some h \<and>
         \<not> (length symbols \<in> {2..32} \<and> list_all symbol_translated symbols \<and> distinct (map canonical_hint_symbol symbols))"
  proof (cases "length symbols \<in> {2..32}")
    case False
    then show ?thesis using a32 by (auto simp: set_hint_alphabet_def)
  next
    case True
    then have n: "2 \<le> length symbols" "length symbols \<le> 32" by simp_all
    have "set_hint_alphabet (Some h) (Some symbols) = (if \<not> hints_valid (new_alphabet h symbols)
        then (SACCADE_ERROR_INVALID_ARGUMENT, Some h) else (SACCADE_OK, Some (new_alphabet h symbols)))"
      using n a32 by (simp add: set_hint_alphabet_def new_alphabet_def Let_def)
    then show ?thesis using new_alphabet_valid [OF h(1,2) n] n by (simp add: new_alphabet_def)
  qed
  then show ?thesis using True al profile_hints_valid [OF h(3) al(2,3)] by simp
qed (simp only: if_False)

text \<open>C32. The defaults are valid, every page of a valid document can be reset, and the overlay style of a valid document
  is one the overlay accepts, exactly if its font is at least a sixteenth of a pixel high.\<close>

theorem settings_pages:
  "validate_settings default_settings = SACCADE_OK \<and>
   (if settings_shape d \<and> validate_settings d = SACCADE_OK
    then (case reset_settings_page page (Some d) of
        (SACCADE_OK, Some d') \<Rightarrow> settings_shape d' \<and> validate_settings d' = SACCADE_OK
      | (result, d') \<Rightarrow> result = SACCADE_ERROR_INVALID_ARGUMENT \<and> d' = Some d \<and> (case page of Page_other p \<Rightarrow> True | _ \<Rightarrow> False)) \<and>
      overlay_style_valid (resolve_overlay_style (sd_appearance d) (sd_flags d) dark) = (eg_font_size_q8 (sd_appearance d) \<ge> 16)
    else True)"
proof (cases "settings_shape d \<and> validate_settings d = SACCADE_OK")
  case True
  then have d: "settings_shape d" "validate_settings d = SACCADE_OK" by simp_all
  have "\<not> eg_font_size_q8 (sd_appearance d) > 128 * 256"
    using d(2) by (auto simp: validate_settings_def pages_valid_def Let_def split: if_splits)
  then have "unat (eg_font_size_q8 (sd_appearance d)) \<le> 32768" by (simp add: word_less_nat_alt)
  note style = resolved_style_valid [OF this]
  have "case reset_settings_page page (Some d) of
        (SACCADE_OK, Some d') \<Rightarrow> settings_shape d' \<and> validate_settings d' = SACCADE_OK
      | (result, d') \<Rightarrow> result = SACCADE_ERROR_INVALID_ARGUMENT \<and> d' = Some d \<and> (case page of Page_other p \<Rightarrow> True | _ \<Rightarrow> False)"
  proof (cases "\<exists>p. page = Page_other p")
    case True
    then show ?thesis by (auto simp: reset_settings_page_def)
  next
    case False
    then have "reset_settings_page page (Some d) = (validate_settings (reset_page page d), Some (reset_page page d))"
      by (cases page) (auto simp: reset_settings_page_def)
    then show ?thesis using reset_page_valid [OF d, of page] False by simp
  qed
  then show ?thesis using True default_settings_valid style by simp
qed (simp only: if_False default_settings_valid simp_thms)

end
