(* ===== verification/Settings_Controller.thy ===== *)
theory Settings_Controller
  imports Settings
begin

text \<open>
  Staged editing of settings, \<open>src/application/settings_controller.{hpp,cpp}\<close>: a document in force and one
  being edited. A commit offers the edited document to a sink of the host, and only what the sink accepts comes into force.

  The sink is a function of the host: the parameter \<open>sink\<close> gives its answer from the documents it was offered before and
  this one; the calls are logged in \<open>ct_offered\<close>, also those of an earlier sink. The sink is taken not to call back.
\<close>

type_synonym settings_sink = "settings_document list \<Rightarrow> settings_document \<Rightarrow> saccade_result"

record settings_controller_stats =
  cs_edits_started :: u64
  cs_stages :: u64
  cs_commits :: u64
  cs_cancellations :: u64
  cs_page_resets :: u64
  cs_full_resets :: u64
  cs_imports :: u64
  cs_exports :: u64
  cs_failures :: u64

record settings_controller =
  ct_current :: settings_document
  ct_staged :: settings_document
  ct_sink :: bool
  ct_stats :: settings_controller_stats
  ct_revision :: u64
  ct_initialized :: bool
  ct_editing :: bool
  ct_offered :: "settings_document list"

definition fresh_controller_stats :: settings_controller_stats where
  "fresh_controller_stats = \<lparr>cs_edits_started = 0, cs_stages = 0, cs_commits = 0, cs_cancellations = 0, cs_page_resets = 0,
     cs_full_resets = 0, cs_imports = 0, cs_exports = 0, cs_failures = 0\<rparr>"

definition fresh_controller :: settings_controller where
  "fresh_controller = \<lparr>ct_current = initial_settings, ct_staged = initial_settings, ct_sink = False,
     ct_stats = fresh_controller_stats, ct_revision = 0, ct_initialized = False, ct_editing = False, ct_offered = []\<rparr>"

definition controller_fail :: "saccade_result \<Rightarrow> settings_controller \<Rightarrow> saccade_result \<times> settings_controller" where
  "controller_fail result c =
     (result, if result \<noteq> SACCADE_OK then c\<lparr>ct_stats := (ct_stats c)\<lparr>cs_failures := cs_failures (ct_stats c) + 1\<rparr>\<rparr> else c)"

definition offer_settings :: "settings_sink \<Rightarrow> settings_controller \<Rightarrow> settings_document \<Rightarrow> saccade_result \<times> settings_controller" where
  "offer_settings sink c d = (sink (ct_offered c) d, c\<lparr>ct_offered := ct_offered c @ [d]\<rparr>)"

definition controller_initialize ::
  "settings_sink \<Rightarrow> settings_controller \<Rightarrow> settings_document \<Rightarrow> bool \<Rightarrow> saccade_result \<times> settings_controller" where
  "controller_initialize sink c settings has_sink =
     (if ct_initialized c then (SACCADE_ERROR_ALREADY_EXISTS, c)
      else if \<not> has_sink then (SACCADE_ERROR_INVALID_ARGUMENT, c)
      else let result = validate_settings settings in
        if result \<noteq> SACCADE_OK then (result, c)
        else let (result, c) = offer_settings sink c settings in
          if result \<noteq> SACCADE_OK then (result, c)
          else (SACCADE_OK, c\<lparr>ct_current := settings, ct_staged := settings, ct_sink := True, ct_revision := 1,
                 ct_initialized := True\<rparr>))"

definition begin_edit :: "settings_controller \<Rightarrow> saccade_result \<times> settings_controller" where
  "begin_edit c =
     (if \<not> ct_initialized c \<or> ct_editing c then (SACCADE_ERROR_STATE, c)
      else (SACCADE_OK, c\<lparr>ct_staged := ct_current c, ct_editing := True,
             ct_stats := (ct_stats c)\<lparr>cs_edits_started := cs_edits_started (ct_stats c) + 1\<rparr>\<rparr>))"

definition stage_settings :: "settings_controller \<Rightarrow> settings_document \<Rightarrow> saccade_result \<times> settings_controller" where
  "stage_settings c settings =
     (if \<not> ct_initialized c \<or> \<not> ct_editing c then (SACCADE_ERROR_STATE, c)
      else let result = validate_settings settings in
        if result \<noteq> SACCADE_OK then controller_fail result c
        else (SACCADE_OK, c\<lparr>ct_staged := settings, ct_stats := (ct_stats c)\<lparr>cs_stages := cs_stages (ct_stats c) + 1\<rparr>\<rparr>))"

text \<open>The page is reset in place; a failed reset leaves what it wrote.\<close>

definition controller_reset_page :: "settings_controller \<Rightarrow> settings_page \<Rightarrow> saccade_result \<times> settings_controller" where
  "controller_reset_page c page =
     (if \<not> ct_initialized c \<or> \<not> ct_editing c then (SACCADE_ERROR_STATE, c)
      else let (result, staged) = reset_settings_page page (Some (ct_staged c)); c = c\<lparr>ct_staged := the staged\<rparr> in
        if result \<noteq> SACCADE_OK then controller_fail result c
        else (SACCADE_OK, c\<lparr>ct_stats := (ct_stats c)\<lparr>cs_page_resets := cs_page_resets (ct_stats c) + 1\<rparr>\<rparr>))"

definition reset_all_settings :: "settings_controller \<Rightarrow> saccade_result \<times> settings_controller" where
  "reset_all_settings c =
     (if \<not> ct_initialized c \<or> \<not> ct_editing c then (SACCADE_ERROR_STATE, c)
      else (SACCADE_OK, c\<lparr>ct_staged := default_settings,
             ct_stats := (ct_stats c)\<lparr>cs_full_resets := cs_full_resets (ct_stats c) + 1\<rparr>\<rparr>))"

definition import_settings :: "settings_controller \<Rightarrow> u8 list option \<Rightarrow> saccade_result \<times> settings_controller" where
  "import_settings c encoded =
     (if \<not> ct_initialized c \<or> \<not> ct_editing c then (SACCADE_ERROR_STATE, c)
      else let (result, decoded) = decode_settings encoded True in
        if result \<noteq> SACCADE_OK then controller_fail result c
        else (SACCADE_OK, c\<lparr>ct_staged := the decoded, ct_stats := (ct_stats c)\<lparr>cs_imports := cs_imports (ct_stats c) + 1\<rparr>\<rparr>))"

definition export_settings ::
  "settings_controller \<Rightarrow> u8 list option \<Rightarrow> bool \<Rightarrow> (saccade_result \<times> nat option \<times> u8 list option) \<times> settings_controller" where
  "export_settings c buffer out_size =
     (if \<not> ct_initialized c then ((SACCADE_ERROR_STATE, None, buffer), c)
      else let source = (if ct_editing c then ct_staged c else ct_current c);
               (result, written, data) = encode_settings source buffer out_size in
        if result \<noteq> SACCADE_OK then ((result, written, data), snd (controller_fail result c))
        else ((SACCADE_OK, written, data), c\<lparr>ct_stats := (ct_stats c)\<lparr>cs_exports := cs_exports (ct_stats c) + 1\<rparr>\<rparr>))"

definition commit_settings :: "settings_sink \<Rightarrow> settings_controller \<Rightarrow> saccade_result \<times> settings_controller" where
  "commit_settings sink c =
     (if \<not> ct_initialized c \<or> \<not> ct_editing c then (SACCADE_ERROR_STATE, c)
      else let valid = validate_settings (ct_staged c) in
        if valid \<noteq> SACCADE_OK then controller_fail valid c
        else let (applied, c) = offer_settings sink c (ct_staged c) in
          if applied \<noteq> SACCADE_OK then controller_fail applied c
          else let revision = ct_revision c + 1 in
            (SACCADE_OK, c\<lparr>ct_current := ct_staged c, ct_revision := (if revision = 0 then revision + 1 else revision),
              ct_editing := False, ct_stats := (ct_stats c)\<lparr>cs_commits := cs_commits (ct_stats c) + 1\<rparr>\<rparr>))"

definition cancel_edit :: "settings_controller \<Rightarrow> saccade_result \<times> settings_controller" where
  "cancel_edit c =
     (if \<not> ct_initialized c \<or> \<not> ct_editing c then (SACCADE_ERROR_STATE, c)
      else (SACCADE_OK, c\<lparr>ct_staged := ct_current c, ct_editing := False,
             ct_stats := (ct_stats c)\<lparr>cs_cancellations := cs_cancellations (ct_stats c) + 1\<rparr>\<rparr>))"

definition controller_shutdown :: "settings_controller \<Rightarrow> saccade_result \<times> settings_controller" where
  "controller_shutdown c =
     (if \<not> ct_initialized c then (SACCADE_ERROR_STATE, c)
      else (SACCADE_OK, c\<lparr>ct_current := initial_settings, ct_staged := initial_settings, ct_sink := False, ct_revision := 0,
             ct_initialized := False, ct_editing := False\<rparr>))"

subsection \<open>The component\<close>

datatype controller_op =
    Controller_initialize settings_document bool
  | Controller_begin_edit
  | Controller_stage settings_document
  | Controller_reset_page settings_page
  | Controller_reset_all
  | Controller_import "u8 list option"
  | Controller_export "u8 list option" bool
  | Controller_commit
  | Controller_cancel
  | Controller_shutdown

primrec controller_call :: "settings_sink \<Rightarrow> settings_controller \<Rightarrow> controller_op \<Rightarrow> saccade_result \<times> settings_controller" where
  "controller_call sink c (Controller_initialize d has_sink) = controller_initialize sink c d has_sink"
| "controller_call sink c Controller_begin_edit = begin_edit c"
| "controller_call sink c (Controller_stage d) = stage_settings c d"
| "controller_call sink c (Controller_reset_page page) = controller_reset_page c page"
| "controller_call sink c Controller_reset_all = reset_all_settings c"
| "controller_call sink c (Controller_import encoded) = import_settings c encoded"
| "controller_call sink c (Controller_export buffer out_size) =
     (case export_settings c buffer out_size of ((result, written, data), c) \<Rightarrow> (result, c))"
| "controller_call sink c Controller_commit = commit_settings sink c"
| "controller_call sink c Controller_cancel = cancel_edit c"
| "controller_call sink c Controller_shutdown = controller_shutdown c"

definition controller_step :: "settings_sink \<Rightarrow> settings_controller \<Rightarrow> controller_op \<Rightarrow> settings_controller" where
  "controller_step sink c op = snd (controller_call sink c op)"

text \<open>The documents the sink accepted, in order.\<close>

definition accepted_settings :: "settings_sink \<Rightarrow> settings_document list \<Rightarrow> settings_document list" where
  "accepted_settings sink offered =
     map ((!) offered) (filter (\<lambda>i. sink (take i offered) (offered ! i) = SACCADE_OK) [0..<length offered])"

lemma accepted_settings_offer:
  "accepted_settings sink (offered @ [d]) =
     accepted_settings sink offered @ (if sink offered d = SACCADE_OK then [d] else [])"
proof -
  have "filter (\<lambda>i. sink (take i (offered @ [d])) ((offered @ [d]) ! i) = SACCADE_OK) [0..<length offered] =
      filter (\<lambda>i. sink (take i offered) (offered ! i) = SACCADE_OK) [0..<length offered]"
    by (rule filter_cong) (auto simp: nth_append)
  then show ?thesis by (simp add: accepted_settings_def nth_append)
qed

definition controller_inv :: "settings_sink \<Rightarrow> settings_controller \<Rightarrow> bool" where
  "controller_inv sink c \<longleftrightarrow>
     (if ct_initialized c
      then validate_settings (ct_current c) = SACCADE_OK \<and> validate_settings (ct_staged c) = SACCADE_OK \<and>
        ct_sink c \<and> ct_revision c \<noteq> 0 \<and> (if ct_editing c then True else ct_staged c = ct_current c) \<and>
        accepted_settings sink (ct_offered c) \<noteq> [] \<and> last (accepted_settings sink (ct_offered c)) = ct_current c
      else ct_current c = initial_settings \<and> ct_staged c = initial_settings \<and> \<not> ct_sink c \<and> ct_revision c = 0 \<and> \<not> ct_editing c) \<and>
     list_all (\<lambda>d. validate_settings d = SACCADE_OK) (ct_offered c)"

lemma decoded_valid: "decode_settings encoded True = (SACCADE_OK, d) \<Longrightarrow> validate_settings (the d) = SACCADE_OK"
  by (auto simp: decode_settings_def Let_def split: option.splits prod.splits if_splits)

lemma reset_settings_page_valid:
  assumes "validate_settings d = SACCADE_OK" "reset_settings_page page (Some d) = (result, d')"
  shows "validate_settings (the d') = SACCADE_OK"
proof (cases "\<exists>p. page = Page_other p")
  case True
  then show ?thesis using assms by (auto simp: reset_settings_page_def)
next
  case False
  then have "d' = Some (reset_page page d)" using assms(2) by (cases page) (auto simp: reset_settings_page_def)
  then show ?thesis using reset_page_keeps_valid [OF assms(1), of page] False by simp
qed

lemma controller_step_inv: "controller_inv sink c \<Longrightarrow> controller_inv sink (controller_step sink c op)"
  by (cases op)
    (auto simp: controller_inv_def controller_step_def controller_initialize_def begin_edit_def stage_settings_def
      controller_reset_page_def reset_all_settings_def import_settings_def export_settings_def commit_settings_def
      cancel_edit_def controller_shutdown_def controller_fail_def offer_settings_def accepted_settings_offer Let_def
      default_settings_valid decoded_valid reset_settings_page_valid split: prod.splits)

lemma fresh_controller_inv: "controller_inv sink fresh_controller"
  by (simp add: controller_inv_def fresh_controller_def)

interpretation controller: invariant_machine fresh_controller "controller_step sink" "controller_inv sink" for sink
  by unfold_locales (rule fresh_controller_inv, rule controller_step_inv)

subsection \<open>Properties\<close>

text \<open>C23. After any calls: the settings in force are valid and are the document the sink accepted last, so are the edited
  ones valid, outside an edit the two are the same, and the revision is not zero; the sink is only offered valid
  documents. A commit the sink refuses changes neither the settings in force nor the edited ones nor the revision, and a commit
  it accepts brings the edited ones into force under a new revision.\<close>

theorem settings_controlled:
  "let c = foldl (controller_step sink) fresh_controller ops in
     controller_inv sink c \<and>
     (case commit_settings sink c of (result, c') \<Rightarrow>
        if result = SACCADE_OK
        then ct_editing c \<and> ct_current c' = ct_staged c \<and> ct_staged c' = ct_staged c \<and> \<not> ct_editing c' \<and>
          ct_revision c' \<noteq> ct_revision c \<and> ct_offered c' = ct_offered c @ [ct_staged c]
        else ct_current c' = ct_current c \<and> ct_staged c' = ct_staged c \<and> ct_revision c' = ct_revision c \<and>
          ct_editing c' = ct_editing c \<and> (if result = SACCADE_ERROR_STATE then True else result = sink (ct_offered c) (ct_staged c)))"
proof -
  define c where "c = foldl (controller_step sink) fresh_controller ops"
  have inv: "controller_inv sink c" unfolding c_def by (rule controller.inv_run)
  have "ct_revision c + 1 + 1 \<noteq> ct_revision c" by (simp add: add.assoc)
  then show ?thesis using inv
    unfolding c_def [symmetric] Let_def commit_settings_def controller_inv_def controller_fail_def offer_settings_def
    by (auto split: if_splits)
qed

text \<open>Exporting the settings into a buffer of the full capacity succeeds after any calls, once the controller is
  initialised, and importing the exported bytes into any controller that is being edited stages the same settings.\<close>

theorem settings_exchange:
  "let c = foldl (controller_step sink) fresh_controller ops; d = (if ct_editing c then ct_staged c else ct_current c) in
   if ct_initialized c \<and> ct_editing other \<and> ct_initialized other \<and> settings_shape d \<and> length data = settings_encoded_capacity
   then (case export_settings c (Some data) True of
       ((SACCADE_OK, Some n, Some out), c') \<Rightarrow>
         (case import_settings other (Some (take n out)) of (result, other') \<Rightarrow>
            result = SACCADE_OK \<and> ct_staged other' = default_spares d \<and> ct_current other' = ct_current other) \<and>
         ct_current c' = ct_current c \<and> ct_staged c' = ct_staged c
     | _ \<Rightarrow> False)
   else True"
proof -
  define c where "c = foldl (controller_step sink) fresh_controller ops"
  define d where "d = (if ct_editing c then ct_staged c else ct_current c)"
  have inv: "controller_inv sink c" unfolding c_def by (rule controller.inv_run)
  show ?thesis
  proof (cases "ct_initialized c \<and> ct_editing other \<and> ct_initialized other \<and> settings_shape d \<and> length data = settings_encoded_capacity")
    case True
    have valid: "validate_settings d = SACCADE_OK" using inv True by (simp add: controller_inv_def d_def)
    have "unat (sd_binding_count d) \<le> maximum_hotkey_bindings" using validate_settings_counts(1) True valid by blast
    then have "length (settings_bytes 4 d) \<le> settings_encoded_capacity" using settings_bytes_small True by blast
    then have "encode_settings d (Some data) True = (SACCADE_OK, Some (length (settings_bytes 4 d)),
        Some (settings_bytes 4 d @ drop (length (settings_bytes 4 d)) data))"
      using encode_settings_result [of data d] True valid by simp
    then show ?thesis using True valid decode_settings_bytes [of d 4]
      unfolding c_def [symmetric] Let_def d_def [symmetric] export_settings_def import_settings_def by simp
  next
    case False
    then show ?thesis unfolding c_def [symmetric] Let_def d_def [symmetric] by (simp only: if_False)
  qed
qed

end
