(* ===== verification/Binding_Editor.thy ===== *)
theory Binding_Editor
  imports Settings
begin

text \<open>
  Editing of bindings, \<open>src/application/binding_editor.{hpp,cpp}\<close>: names of commands and keys, the layout of the
  drawn keyboard, and finding, setting and removing the binding of a command in a settings document.
\<close>

abbreviation binding_key_count :: nat where "binding_key_count \<equiv> 68"

definition binding_command_count :: nat where "binding_command_count = unat last_command"

record binding_conflict =
  bc_command :: u32
  bc_index :: u32

record key_rect =
  kr_usage :: u32
  kr_x :: i32
  kr_y :: i32
  kr_width :: i32
  kr_height :: i32

record key_placement =
  kp_usage :: u32
  kp_x_units :: u32
  kp_y_units :: u32
  kp_width_units :: u32

subsection \<open>Tables\<close>

definition command_names :: "string list" where
  "command_names = [''Pointer move'', ''Hover'', ''Left click'', ''Right click'', ''Middle click'', ''Double click'', ''Hold'',
     ''Drag and drop'', ''Vertical scroll'', ''Horizontal scroll'', ''Select text'', ''Repeat action'', ''Free pointer'',
     ''Window hints'', ''Next overlapping window'', ''Previous overlapping window'', ''Window behind'', ''Window left'',
     ''Window right'', ''Window up'', ''Window down'', ''Single mode'', ''Dual mode'', ''Multi mode'', ''Path mode'',
     ''Pixel source'', ''Semantic source'', ''Grid source'', ''Desktop scope'', ''Active-window scope'', ''Monitor scope'',
     ''Next target position'', ''Snap left'', ''Snap right'', ''Snap up'', ''Snap down'', ''Nudge left'', ''Nudge right'',
     ''Nudge up'', ''Nudge down'', ''Confirm'', ''Backspace'', ''Cancel'', ''Suspend hotkeys'', ''Open settings'', ''Restart'',
     ''Quit'', ''Type clipboard text'', ''Fused source'', ''Target position 1'', ''Target position 2'', ''Target position 3'',
     ''Target position 4'', ''Target position 5'', ''Target position 6'', ''Target position 7'', ''Target position 8'',
     ''Target position 9'', ''Scroll up'', ''Scroll down'', ''Scroll left'', ''Scroll right'', ''Scroll up continuously'',
     ''Scroll down continuously'', ''Scroll left continuously'', ''Scroll right continuously'', ''Toggle desktop/window scope'']"

text \<open>The keys: the usage number of the HID tables and the name.\<close>

definition binding_keys :: "(u32 \<times> string) list" where
  "binding_keys =
     [(0x04, ''A''), (0x05, ''B''), (0x06, ''C''), (0x07, ''D''), (0x08, ''E''), (0x09, ''F''),
      (0x0a, ''G''), (0x0b, ''H''), (0x0c, ''I''), (0x0d, ''J''), (0x0e, ''K''), (0x0f, ''L''),
      (0x10, ''M''), (0x11, ''N''), (0x12, ''O''), (0x13, ''P''), (0x14, ''Q''), (0x15, ''R''),
      (0x16, ''S''), (0x17, ''T''), (0x18, ''U''), (0x19, ''V''), (0x1a, ''W''), (0x1b, ''X''),
      (0x1c, ''Y''), (0x1d, ''Z''), (0x1e, ''1''), (0x1f, ''2''), (0x20, ''3''), (0x21, ''4''),
      (0x22, ''5''), (0x23, ''6''), (0x24, ''7''), (0x25, ''8''), (0x26, ''9''), (0x27, ''0''),
      (0x28, ''Enter''), (0x29, ''Escape''), (0x2a, ''Backspace''), (0x2b, ''Tab''), (0x2c, ''Space''), (0x2d, ''-''),
      (0x2e, ''=''), (0x2f, ''[''), (0x30, '']''), (0x31, [CHR 0x5C]), (0x33, '';''), (0x34, [CHR 0x27]),
      (0x35, [CHR 0x60]), (0x36, '',''), (0x37, ''.''), (0x38, ''/''), (0x3a, ''F1''), (0x3b, ''F2''),
      (0x3c, ''F3''), (0x3d, ''F4''), (0x3e, ''F5''), (0x3f, ''F6''), (0x40, ''F7''), (0x41, ''F8''),
      (0x42, ''F9''), (0x43, ''F10''), (0x44, ''F11''), (0x45, ''F12''), (0x4f, ''Right''), (0x50, ''Left''),
      (0x51, ''Down''), (0x52, ''Up'')]"

definition command_in_range :: "u32 \<Rightarrow> bool" where
  "command_in_range command \<longleftrightarrow> command \<ge> Command_pointer_move \<and> command \<le> last_command"

definition command_name :: "u32 \<Rightarrow> string option" where
  "command_name command = (if command_in_range command then Some (command_names ! unat (command - 1)) else None)"

subsection \<open>The drawn keyboard\<close>

definition keyboard_width_units :: u32 where "keyboard_width_units = 32"
definition keyboard_height_units :: u32 where "keyboard_height_units = 6"

definition place_key :: "u32 \<times> u32 \<times> u32 \<times> u32 \<Rightarrow> key_placement" where
  "place_key = (\<lambda>(usage, x, y, w). \<lparr>kp_usage = usage, kp_x_units = x, kp_y_units = y, kp_width_units = w\<rparr>)"

definition key_placements :: "key_placement list" where
  "key_placements = map place_key
     [(0x29, 0, 0, 2), (0x3a, 4, 0, 2), (0x3b, 6, 0, 2), (0x3c, 8, 0, 2), (0x3d, 10, 0, 2), (0x3e, 13, 0, 2),
      (0x3f, 15, 0, 2), (0x40, 17, 0, 2), (0x41, 19, 0, 2), (0x42, 22, 0, 2), (0x43, 24, 0, 2), (0x44, 26, 0, 2),
      (0x45, 28, 0, 2),
      (0x1e, 0, 1, 2), (0x1f, 2, 1, 2), (0x20, 4, 1, 2), (0x21, 6, 1, 2), (0x22, 8, 1, 2), (0x23, 10, 1, 2),
      (0x24, 12, 1, 2), (0x25, 14, 1, 2), (0x26, 16, 1, 2), (0x27, 18, 1, 2), (0x2d, 20, 1, 2), (0x2e, 22, 1, 2),
      (0x2a, 24, 1, 4),
      (0x2b, 0, 2, 3), (0x14, 3, 2, 2), (0x1a, 5, 2, 2), (0x08, 7, 2, 2), (0x15, 9, 2, 2), (0x17, 11, 2, 2),
      (0x1c, 13, 2, 2), (0x18, 15, 2, 2), (0x0c, 17, 2, 2), (0x12, 19, 2, 2), (0x13, 21, 2, 2), (0x2f, 23, 2, 2),
      (0x30, 25, 2, 2), (0x31, 27, 2, 2),
      (0x04, 2, 3, 2), (0x16, 4, 3, 2), (0x07, 6, 3, 2), (0x09, 8, 3, 2), (0x0a, 10, 3, 2), (0x0b, 12, 3, 2),
      (0x0d, 14, 3, 2), (0x0e, 16, 3, 2), (0x0f, 18, 3, 2), (0x33, 20, 3, 2), (0x34, 22, 3, 2), (0x28, 24, 3, 4),
      (0x1d, 3, 4, 2), (0x1b, 5, 4, 2), (0x06, 7, 4, 2), (0x19, 9, 4, 2), (0x05, 11, 4, 2), (0x11, 13, 4, 2),
      (0x10, 15, 4, 2), (0x36, 17, 4, 2), (0x37, 19, 4, 2), (0x38, 21, 4, 2), (0x52, 26, 4, 2),
      (0x35, 0, 5, 2), (0x2c, 6, 5, 12), (0x50, 24, 5, 2), (0x51, 26, 5, 2), (0x4f, 28, 5, 2)]"

text \<open>One key. The products and quotients are unsigned; the extents are \<open>int32_t\<close>.\<close>

definition layout_key :: "i32 \<Rightarrow> i32 \<Rightarrow> i32 \<Rightarrow> key_placement \<Rightarrow> key_rect" where
  "layout_key width height gap p =
     (let left = kp_x_units p * width div keyboard_width_units;
          right = (kp_x_units p + kp_width_units p) * width div keyboard_width_units;
          upper = kp_y_units p * height div keyboard_height_units;
          lower = (kp_y_units p + 1) * height div keyboard_height_units;
          extent = (\<lambda>v :: i32. if sint v < 1 then 1 else v)
      in \<lparr>kr_usage = kp_usage p, kr_x = left, kr_y = upper, kr_width = extent (right - left - gap),
        kr_height = extent (lower - upper - gap)\<rparr>)"

definition layout_binding_keyboard :: "i32 \<Rightarrow> i32 \<Rightarrow> i32 \<Rightarrow> bool \<Rightarrow> saccade_result \<times> key_rect list option" where
  "layout_binding_keyboard width height gap out =
     (if \<not> out \<or> sint width < sint keyboard_width_units \<or> sint height < sint keyboard_height_units \<or> sint gap < 0
      then (SACCADE_ERROR_INVALID_ARGUMENT, None)
      else (SACCADE_OK, Some (map (layout_key width height gap) key_placements)))"

subsection \<open>Symbols of keys\<close>

definition default_logical_symbol :: "u32 \<Rightarrow> u16" where
  "default_logical_symbol physical_key =
     (if physical_key \<ge> 0x04 \<and> physical_key \<le> 0x1d then ucast (65 + physical_key - 0x04)
      else if physical_key \<ge> 0x1e \<and> physical_key \<le> 0x26 then ucast (49 + physical_key - 0x1e)
      else if physical_key = 0x27 then 48
      else if physical_key = 0x2c then 32
      else if physical_key = 0x2d then 45
      else if physical_key = 0x2e then 61
      else if physical_key = 0x2f then 91
      else if physical_key = 0x30 then 93
      else if physical_key = 0x31 then 92
      else if physical_key = 0x33 then 59
      else if physical_key = 0x34 then 39
      else if physical_key = 0x35 then 96
      else if physical_key = 0x36 then 44
      else if physical_key = 0x37 then 46
      else if physical_key = 0x38 then 47
      else 0)"

subsection \<open>Bindings\<close>

definition used_bindings :: "settings_document \<Rightarrow> hotkey_binding list" where
  "used_bindings d = take (unat (sd_binding_count d)) (sd_bindings d)"

definition find_binding :: "settings_document \<Rightarrow> u32 \<Rightarrow> bool \<Rightarrow> saccade_result \<times> u32 option" where
  "find_binding d command out =
     (if \<not> command_in_range command \<or> \<not> out then (SACCADE_ERROR_INVALID_ARGUMENT, None)
      else case first_index (\<lambda>b. hk_command b = command) (used_bindings d) of
        Some i \<Rightarrow> (SACCADE_OK, Some (word_of_nat i))
      | None \<Rightarrow> (SACCADE_ERROR_NOT_FOUND, Some uint32_max))"

definition no_conflict :: binding_conflict where
  "no_conflict = \<lparr>bc_command = Command_pointer_move, bc_index = uint32_max\<rparr>"

text \<open>The binding is stored before the document is checked; a refused document keeps it.\<close>

definition set_binding ::
  "settings_document option \<Rightarrow> hotkey_binding \<Rightarrow> bool \<Rightarrow> saccade_result \<times> settings_document option \<times> binding_conflict option" where
  "set_binding settings binding out =
     (case settings of
        None \<Rightarrow> (SACCADE_ERROR_INVALID_ARGUMENT, None, None)
      | Some d \<Rightarrow>
          if \<not> out \<or> \<not> command_in_range (hk_command binding) \<or> hk_physical_key binding = 0
          then (SACCADE_ERROR_INVALID_ARGUMENT, Some d, None)
          else let replaced = the (snd (find_binding d (hk_command binding) True));
                   clash = first_index (\<lambda>(i, b). word_of_nat i \<noteq> replaced \<and> hk_physical_key b = hk_physical_key binding \<and>
                       hk_modifiers b = hk_modifiers binding) (enumerate 0 (used_bindings d))
          in case clash of
               Some i \<Rightarrow> (SACCADE_ERROR_ALREADY_EXISTS, Some d,
                 Some \<lparr>bc_command = hk_command (sd_bindings d ! i), bc_index = word_of_nat i\<rparr>)
             | None \<Rightarrow>
                 if replaced = uint32_max \<and> unat (sd_binding_count d) = length (sd_bindings d)
                 then (SACCADE_ERROR_CAPACITY, Some d, Some no_conflict)
                 else let (at, count) = (if replaced = uint32_max then (sd_binding_count d, sd_binding_count d + 1)
                            else (replaced, sd_binding_count d));
                          d = d\<lparr>sd_bindings := (sd_bindings d)[unat at := binding], sd_binding_count := count\<rparr>
                 in (validate_settings d, Some d, Some no_conflict))"

definition remove_binding :: "settings_document option \<Rightarrow> u32 \<Rightarrow> saccade_result \<times> settings_document option" where
  "remove_binding settings command =
     (case settings of
        None \<Rightarrow> (SACCADE_ERROR_INVALID_ARGUMENT, None)
      | Some d \<Rightarrow>
          if \<not> command_in_range command then (SACCADE_ERROR_INVALID_ARGUMENT, Some d)
          else case find_binding d command True of (found, index) \<Rightarrow>
            if found \<noteq> SACCADE_OK then (found, Some d)
            else let i = unat (the index); n = unat (sd_binding_count d); bs = sd_bindings d;
                     bs = take i bs @ take (n - (i + 1)) (drop (i + 1) bs) @ drop (n - 1) bs;
                     count = sd_binding_count d - 1;
                     d = d\<lparr>sd_bindings := bs[unat count := zero_binding], sd_binding_count := count\<rparr>
            in (validate_settings d, Some d))"

subsection \<open>Valid bindings\<close>

definition chord :: "hotkey_binding \<Rightarrow> u32 \<times> u32" where
  "chord b = (hk_physical_key b, hk_modifiers b)"

definition spare_binding :: "hotkey_binding \<Rightarrow> bool" where
  "spare_binding b \<longleftrightarrow> hk_physical_key b = 0 \<and> hk_modifiers b = 0 \<and> hk_flags b = 0 \<and> hk_logical_symbol b = 0"

lemma clash_chord:
  "list_ex (\<lambda>p. hk_physical_key p = hk_physical_key b \<and> hk_modifiers p = hk_modifiers b) previous \<longleftrightarrow> chord b \<in> chord ` set previous"
  by (auto simp: list_ex_iff chord_def image_iff eq_commute)

lemma check_bindings_ok:
  "check_bindings previous bs = SACCADE_OK \<longleftrightarrow>
     list_all binding_valid bs \<and> distinct (map chord bs) \<and> chord ` set previous \<inter> chord ` set bs = {}"
  by (induction previous bs rule: check_bindings.induct) (auto simp: clash_chord)

lemma check_bindings_distinct:
  "distinct (map chord bs) \<Longrightarrow> chord ` set previous \<inter> chord ` set bs = {} \<Longrightarrow>
     check_bindings previous bs = (if list_all binding_valid bs then SACCADE_OK else SACCADE_ERROR_INVALID_ARGUMENT)"
  by (induction previous bs rule: check_bindings.induct) (auto simp: clash_chord)

lemma validate_other_bindings:
  assumes "validate_settings d = SACCADE_OK" "unat n \<le> length bs" "distinct (map chord (take (unat n) bs))"
    "list_all spare_binding (drop (unat n) bs)"
  shows "validate_settings (d\<lparr>sd_bindings := bs, sd_binding_count := n\<rparr>) =
    (if list_all binding_valid (take (unat n) bs) then SACCADE_OK else SACCADE_ERROR_INVALID_ARGUMENT)"
proof -
  have "pages_valid (d\<lparr>sd_bindings := bs, sd_binding_count := n\<rparr>) = pages_valid d" by (simp add: pages_valid_def)
  then show ?thesis using assms check_bindings_distinct [OF assms(3), of "[]"]
    unfolding validate_settings_def Let_def spare_binding_def [abs_def] by (auto split: if_splits)
qed

lemma valid_bindings:
  assumes "validate_settings d = SACCADE_OK"
  shows "unat (sd_binding_count d) \<le> length (sd_bindings d)" "list_all binding_valid (used_bindings d)"
    "distinct (map chord (used_bindings d))" "list_all spare_binding (drop (unat (sd_binding_count d)) (sd_bindings d))"
  using assms check_bindings_ok [of "[]" "used_bindings d"]
  unfolding validate_settings_def Let_def spare_binding_def [abs_def] used_bindings_def by (auto split: if_splits)

lemma find_binding_result:
  assumes "command_in_range command" "settings_shape d"
  shows "find_binding d command True = (case first_index (\<lambda>b. hk_command b = command) (used_bindings d) of
      None \<Rightarrow> (SACCADE_ERROR_NOT_FOUND, Some uint32_max) | Some i \<Rightarrow> (SACCADE_OK, Some (word_of_nat i)))"
  using assms by (simp add: find_binding_def split: option.splits)

text \<open>The binding goes to slot \<open>at\<close> of a valid document, the first \<open>m\<close> slots of which are then used.\<close>

lemma set_slot:
  assumes "settings_shape d" "validate_settings d = SACCADE_OK" "at < length (sd_bindings d)"
    and m: "unat m = max (Suc at) (unat (sd_binding_count d))" "at \<le> unat (sd_binding_count d)"
    and clash: "\<And>i. i < length (used_bindings d) \<Longrightarrow> i \<noteq> at \<Longrightarrow> chord (used_bindings d ! i) \<noteq> chord b"
  shows "let d' = d\<lparr>sd_bindings := (sd_bindings d)[at := b], sd_binding_count := m\<rparr> in
    validate_settings d' = (if binding_valid b then SACCADE_OK else SACCADE_ERROR_INVALID_ARGUMENT) \<and> settings_shape d' \<and>
    used_bindings d' = (if at < length (used_bindings d) then (used_bindings d)[at := b] else used_bindings d @ [b])"
proof -
  let ?n = "unat (sd_binding_count d)" and ?bs = "sd_bindings d" and ?used = "used_bindings d"
  note v = valid_bindings [OF assms(2)]
  have len: "length ?used = ?n" using v(1) by (simp add: used_bindings_def)
  have used: "take (unat m) (?bs[at := b]) = (if at < ?n then ?used[at := b] else ?used @ [b])"
  proof (cases "at < ?n")
    case True
    then have "unat m = ?n" using m by simp
    then show ?thesis using True by (simp add: used_bindings_def take_update_swap)
  next
    case False
    then have "at = ?n" "unat m = Suc ?n" using m by simp_all
    then show ?thesis using assms(3) by (simp add: used_bindings_def take_Suc_conv_app_nth)
  qed
  have dist: "distinct (map chord (take (unat m) (?bs[at := b])))"
  proof (cases "at < ?n")
    case True
    have "chord b \<notin> set (map chord ?used) - {map chord ?used ! at}"
    proof
      assume "chord b \<in> set (map chord ?used) - {map chord ?used ! at}"
      then obtain i where "i < length ?used" "chord (?used ! i) = chord b" "chord b \<noteq> map chord ?used ! at"
        by (auto simp: in_set_conv_nth)
      then show False using clash [of i] True len by (cases "i = at") auto
    qed
    then show ?thesis using True v(3) unfolding used by (simp add: map_update distinct_list_update)
  next
    case False
    have "chord b \<notin> set (map chord ?used)"
    proof
      assume "chord b \<in> set (map chord ?used)"
      then obtain i where "i < length ?used" "chord (?used ! i) = chord b" by (auto simp: in_set_conv_nth)
      then show False using clash [of i] False len by simp
    qed
    then show ?thesis using False v(3) unfolding used by simp
  qed
  have spare: "list_all spare_binding (drop (unat m) (?bs[at := b]))"
  proof -
    have "drop (unat m) (?bs[at := b]) = drop (unat m) ?bs" using m(1) by (simp add: drop_update_cancel)
    moreover have "set (drop (unat m) ?bs) \<subseteq> set (drop ?n ?bs)" using m(1) by (intro set_drop_subset_set_drop) simp
    ultimately show ?thesis using v(4) by (auto simp: list_all_iff)
  qed
  have valid: "list_all binding_valid (take (unat m) (?bs[at := b])) \<longleftrightarrow> binding_valid b"
  proof (cases "at < ?n")
    case True
    then have "set (?used[at := b]) \<subseteq> insert b (set ?used)" "b \<in> set (?used[at := b])"
      using len by (simp_all add: set_update_subset_insert set_update_memI)
    then show ?thesis using True v(2) unfolding used by (auto simp: list_all_iff)
  next
    case False
    then show ?thesis using v(2) unfolding used by simp
  qed
  have "unat m \<le> length (?bs[at := b])" using m assms(3) v(1) by simp
  then show ?thesis
    using validate_other_bindings [OF assms(2) _ dist spare] valid used len assms(1)
    by (simp add: Let_def used_bindings_def [of "d\<lparr>sd_bindings := x, sd_binding_count := y\<rparr>" for x y] settings_shape_def)
qed

definition set_outcome :: "settings_document \<Rightarrow> hotkey_binding \<Rightarrow>
    saccade_result \<times> settings_document option \<times> binding_conflict option \<Rightarrow> bool" where
  "set_outcome d b w = (case w of
       (result, Some d', conflict) \<Rightarrow>
         (let used = used_bindings d; slot = first_index (\<lambda>u. hk_command u = hk_command b) used in
          if command_in_range (hk_command b) \<and> hk_physical_key b \<noteq> 0
          then if list_ex (\<lambda>i. slot \<noteq> Some i \<and> chord (used ! i) = chord b) [0..<length used]
            then result = SACCADE_ERROR_ALREADY_EXISTS \<and> d' = d \<and>
              (case conflict of None \<Rightarrow> False
               | Some k \<Rightarrow> unat (bc_index k) < length used \<and> slot \<noteq> Some (unat (bc_index k)) \<and>
                   chord (used ! unat (bc_index k)) = chord b \<and> hk_command (used ! unat (bc_index k)) = bc_command k)
            else if slot = None \<and> length used = maximum_hotkey_bindings
            then result = SACCADE_ERROR_CAPACITY \<and> d' = d
            else result = (if binding_valid b then SACCADE_OK else SACCADE_ERROR_INVALID_ARGUMENT) \<and>
              validate_settings d' = result \<and> settings_shape d' \<and>
              used_bindings d' = (case slot of None \<Rightarrow> used @ [b] | Some i \<Rightarrow> used[i := b]) \<and>
              d' = d\<lparr>sd_bindings := sd_bindings d', sd_binding_count := sd_binding_count d'\<rparr>
          else result = SACCADE_ERROR_INVALID_ARGUMENT \<and> d' = d)
     | _ \<Rightarrow> False)"

lemma set_binding_outcome:
  assumes "settings_shape d" "validate_settings d = SACCADE_OK"
  shows "set_outcome d b (set_binding (Some d) b True)"
proof (cases "command_in_range (hk_command b) \<and> hk_physical_key b \<noteq> 0")
  case False
  then show ?thesis by (auto simp: set_outcome_def set_binding_def Let_def)
next
  case True
  let ?n = "unat (sd_binding_count d)" and ?used = "used_bindings d"
  define found where "found = first_index (\<lambda>u. hk_command u = hk_command b) ?used"
  define replaced where "replaced = the (snd (find_binding d (hk_command b) True))"
  define clash where "clash = first_index (\<lambda>(i, u). word_of_nat i \<noteq> replaced \<and> hk_physical_key u = hk_physical_key b \<and>
    hk_modifiers u = hk_modifiers b) (enumerate 0 ?used)"
  have n: "?n \<le> 128" "length (sd_bindings d) = 128" "length ?used = ?n"
    using assms(1) valid_bindings(1) [OF assms(2)] by (simp_all add: settings_shape_def used_bindings_def)
  have small: "unat (word_of_nat i :: u32) = i" if "i \<le> 128" for i using that by (simp add: unsigned_of_nat take_bit_nat_eq_self)
  have replaced: "replaced = (case found of None \<Rightarrow> uint32_max | Some i \<Rightarrow> word_of_nat i)"
    using True assms(1) by (simp add: replaced_def found_def find_binding_result split: option.splits)
  have found_lt: "r < ?n" if "found = Some r" for r
    using first_index_Some [of _ ?used r] that n(3) by (auto simp: found_def)
  have not_max: "(word_of_nat i :: u32) \<noteq> uint32_max" if "i \<le> 128" for i
  proof
    assume "(word_of_nat i :: u32) = uint32_max"
    then have "unat (word_of_nat i :: u32) = 4294967295" by simp
    then show False using small [OF that] that by simp
  qed
  have other: "(word_of_nat i \<noteq> replaced) = (found \<noteq> Some i)" if "i < ?n" for i
  proof (cases found)
    case None
    then show ?thesis using not_max [of i] that n(1) replaced by simp
  next
    case (Some r)
    have "(word_of_nat i :: u32) = word_of_nat r \<longleftrightarrow> i = r"
      using small [of i] small [of r] that found_lt [OF Some] n(1) by (metis less_imp_le_nat order_trans)
    then show ?thesis using Some replaced by auto
  qed
  have set: "set_binding (Some d) b True = (case clash of
       Some i \<Rightarrow> (SACCADE_ERROR_ALREADY_EXISTS, Some d, Some \<lparr>bc_command = hk_command (sd_bindings d ! i), bc_index = word_of_nat i\<rparr>)
     | None \<Rightarrow>
         if replaced = uint32_max \<and> ?n = length (sd_bindings d) then (SACCADE_ERROR_CAPACITY, Some d, Some no_conflict)
         else let (at, count) = (if replaced = uint32_max then (sd_binding_count d, sd_binding_count d + 1)
                    else (replaced, sd_binding_count d));
                  d = d\<lparr>sd_bindings := (sd_bindings d)[unat at := b], sd_binding_count := count\<rparr>
         in (validate_settings d, Some d, Some no_conflict))"
    using True unfolding set_binding_def clash_def replaced_def Let_def by simp
  show ?thesis
  proof (cases clash)
    case (Some i)
    note first = first_index_Some [OF Some [unfolded clash_def]]
    then have lt: "i < ?n" by (simp add: n(3))
    then have "enumerate 0 ?used ! i = (i, ?used ! i)" by (simp add: n(3) nth_enumerate_eq)
    then have i: "i < ?n" "hk_physical_key (?used ! i) = hk_physical_key b" "hk_modifiers (?used ! i) = hk_modifiers b"
      using first lt by simp_all
    have elsewhere: "found \<noteq> Some i"
    proof -
      have "word_of_nat i \<noteq> replaced" using first \<open>enumerate 0 ?used ! i = (i, ?used ! i)\<close> by simp
      then show ?thesis using other [OF lt] by simp
    qed
    have same: "chord (?used ! i) = chord b" using i by (simp add: chord_def)
    have "list_ex (\<lambda>i. found \<noteq> Some i \<and> chord (?used ! i) = chord b) [0..<length ?used]"
      using lt elsewhere same n(3) by (auto simp: list_ex_iff)
    moreover have "sd_bindings d ! i = ?used ! i" using lt by (simp add: used_bindings_def)
    ultimately show ?thesis using set Some small [of i] True lt elsewhere same n
      unfolding set_outcome_def found_def [symmetric] Let_def by simp
  next
    case None
    have free: "chord (?used ! i) \<noteq> chord b" if "i < length ?used" "found \<noteq> Some i" for i
    proof -
      have "(i, ?used ! i) \<in> set (enumerate 0 ?used)" using that(1) by (metis add_0 in_set_conv_nth length_enumerate nth_enumerate_eq)
      then show ?thesis using None [unfolded clash_def first_index_None] other [of i] that n(3) by (auto simp: chord_def)
    qed
    then have untaken: "\<not> list_ex (\<lambda>i. found \<noteq> Some i \<and> chord (?used ! i) = chord b) [0..<length ?used]"
      by (auto simp: list_ex_iff)
    show ?thesis
    proof (cases found)
      case new: None
      show ?thesis
      proof (cases "?n = 128")
        case True
        then show ?thesis using set None new replaced n untaken True \<open>command_in_range (hk_command b) \<and> hk_physical_key b \<noteq> 0\<close>
          unfolding set_outcome_def found_def [symmetric] Let_def by simp
      next
        case False
        then have lt: "?n < 128" using n(1) by simp
        then have suc: "unat (sd_binding_count d + 1) = Suc ?n" by (simp add: unat_Suc_word)
        note slot = set_slot [OF assms, of ?n "sd_binding_count d + 1" b, unfolded Let_def]
        have "set_binding (Some d) b True = (validate_settings (d\<lparr>sd_bindings := (sd_bindings d)[?n := b],
            sd_binding_count := sd_binding_count d + 1\<rparr>), Some (d\<lparr>sd_bindings := (sd_bindings d)[?n := b],
            sd_binding_count := sd_binding_count d + 1\<rparr>), Some no_conflict)"
          using set None new replaced n lt by (simp add: Let_def)
        then show ?thesis using slot new lt suc free n untaken \<open>command_in_range (hk_command b) \<and> hk_physical_key b \<noteq> 0\<close>
          unfolding set_outcome_def found_def [symmetric] Let_def by simp
      qed
    next
      case old: (Some r)
      note r = found_lt [OF old]
      note slot = set_slot [OF assms, of r "sd_binding_count d" b, unfolded Let_def]
      have "unat replaced = r" "replaced \<noteq> uint32_max" using replaced old r n(1) small [of r] not_max [of r] by simp_all
      then have "set_binding (Some d) b True = (validate_settings (d\<lparr>sd_bindings := (sd_bindings d)[r := b],
          sd_binding_count := sd_binding_count d\<rparr>), Some (d\<lparr>sd_bindings := (sd_bindings d)[r := b],
          sd_binding_count := sd_binding_count d\<rparr>), Some no_conflict)"
        using set None by (simp add: Let_def)
      then show ?thesis using slot old r free n untaken True
        unfolding set_outcome_def found_def [symmetric] Let_def by simp
    qed
  qed
qed

definition remove_outcome :: "settings_document \<Rightarrow> u32 \<Rightarrow> saccade_result \<times> settings_document option \<Rightarrow> bool" where
  "remove_outcome d command w = (case w of
       (result, Some d') \<Rightarrow>
         (if result = SACCADE_OK
          then settings_shape d' \<and> validate_settings d' = SACCADE_OK \<and>
            (case first_index (\<lambda>u. hk_command u = command) (used_bindings d) of None \<Rightarrow> False
             | Some i \<Rightarrow> used_bindings d' = take i (used_bindings d) @ drop (Suc i) (used_bindings d)) \<and>
            d' = d\<lparr>sd_bindings := sd_bindings d', sd_binding_count := sd_binding_count d'\<rparr>
          else d' = d \<and> (if command_in_range command
            then result = SACCADE_ERROR_NOT_FOUND \<and> list_all (\<lambda>u. hk_command u \<noteq> command) (used_bindings d)
            else result = SACCADE_ERROR_INVALID_ARGUMENT))
     | _ \<Rightarrow> False)"

lemma remove_binding_outcome:
  assumes "settings_shape d" "validate_settings d = SACCADE_OK"
  shows "remove_outcome d command (remove_binding (Some d) command)"
proof (cases "command_in_range command")
  case False
  then show ?thesis by (simp add: remove_outcome_def remove_binding_def)
next
  case True
  let ?n = "unat (sd_binding_count d)" and ?used = "used_bindings d"
  have n: "?n \<le> 128" "length (sd_bindings d) = 128" "length ?used = ?n"
    using assms(1) valid_bindings(1) [OF assms(2)] by (simp_all add: settings_shape_def used_bindings_def)
  show ?thesis
  proof (cases "first_index (\<lambda>u. hk_command u = command) ?used")
    case None
    then show ?thesis using True assms(1) first_index_None [of "\<lambda>u. hk_command u = command" ?used]
      by (auto simp: remove_outcome_def remove_binding_def find_binding_result list_all_iff)
  next
    case (Some i)
    have i: "i < ?n" using first_index_Some [OF Some] n(3) by simp
    have ui: "unat (word_of_nat i :: u32) = i" using i n(1) by (simp add: unsigned_of_nat take_bit_nat_eq_self)
    have dec: "unat (sd_binding_count d - 1) = ?n - 1" using i by (simp add: unat_minus_one unat_gt_0 word_neq_0_conv unat_eq_zero flip: unat_eq_0)
    let ?moved = "take i (sd_bindings d) @ take (?n - (i + 1)) (drop (i + 1) (sd_bindings d)) @ drop (?n - 1) (sd_bindings d)"
    let ?d = "d\<lparr>sd_bindings := ?moved[?n - 1 := zero_binding], sd_binding_count := sd_binding_count d - 1\<rparr>"
    let ?rest = "take i ?used @ drop (Suc i) ?used"
    have pieces: "take i (sd_bindings d) @ take (?n - (i + 1)) (drop (i + 1) (sd_bindings d)) = ?rest"
      using i n by (simp add: used_bindings_def drop_take min_def)
    have len: "length ?rest = ?n - 1" using i n(3) by simp
    have split: "?moved[?n - 1 := zero_binding] = ?rest @ zero_binding # drop ?n (sd_bindings d)"
    proof -
      have "drop (?n - 1) (sd_bindings d) = sd_bindings d ! (?n - 1) # drop ?n (sd_bindings d)"
        using i n Cons_nth_drop_Suc [of "?n - 1" "sd_bindings d"] by simp
      then show ?thesis using pieces len by (simp add: list_update_append flip: append_assoc)
    qed
    have used: "take (unat (sd_binding_count d - 1)) (?moved[?n - 1 := zero_binding]) = ?rest"
    proof -
      have "take (length ?rest) (?rest @ zero_binding # drop ?n (sd_bindings d)) = ?rest" by (metis append_eq_conv_conj)
      then show ?thesis unfolding split dec len .
    qed
    have sub: "set ?rest \<subseteq> set ?used" by (auto dest: in_set_takeD in_set_dropD)
    have "distinct (map chord ?rest)"
    proof -
      have "map chord ?rest = take i (map chord ?used) @ drop (Suc i) (map chord ?used)" by (simp add: take_map drop_map)
      moreover have "distinct (take i (map chord ?used) @ drop (Suc i) (map chord ?used))"
        using valid_bindings(3) [OF assms(2)] by (simp add: set_take_disj_set_drop_if_distinct)
      ultimately show ?thesis by simp
    qed
    moreover have "list_all spare_binding (drop (unat (sd_binding_count d - 1)) (?moved[?n - 1 := zero_binding]))"
      unfolding split dec using len valid_bindings(4) [OF assms(2)] by (simp add: spare_binding_def zero_binding_def)
    moreover have "list_all binding_valid ?rest" using valid_bindings(2) [OF assms(2)] sub by (auto simp: list_all_iff)
    moreover have "unat (sd_binding_count d - 1) \<le> length (?moved[?n - 1 := zero_binding])"
      unfolding split dec using len by simp
    ultimately have valid: "validate_settings ?d = SACCADE_OK"
      using validate_other_bindings [OF assms(2), of "sd_binding_count d - 1" "?moved[?n - 1 := zero_binding]"] used by simp
    have shape: "settings_shape ?d" using assms(1) i n len unfolding split by (simp add: settings_shape_def)
    have "remove_binding (Some d) command = (validate_settings ?d, Some ?d)"
      using True Some assms(1) ui dec by (simp add: remove_binding_def find_binding_result Let_def)
    moreover have "used_bindings ?d = ?rest" unfolding used_bindings_def [of ?d] using used by simp
    ultimately show ?thesis using valid shape Some by (simp add: remove_outcome_def)
  qed
qed

text \<open>C31. Editing bindings of a valid document. Setting one is decided in this order: a command or key
  out of range is an invalid argument and changes nothing; a binding of another slot with the same
  keys is reported, with its place and command, and changes nothing; a new command in a full document
  is refused and changes nothing; otherwise the first binding of the command is replaced, or the
  binding is appended, nothing else changes, and the call succeeds exactly if the binding is
  valid. If it is not, the invalid argument is reported although the binding was stored, and the
  document is no longer valid. Removing a command takes out its first binding, keeps the order of
  the others and leaves a valid document; a command that has none, or is out of range, changes
  nothing.\<close>

theorem binding_edits:
  "if settings_shape d \<and> validate_settings d = SACCADE_OK
   then (case set_binding (Some d) b True of
       (result, Some d', conflict) \<Rightarrow>
         (let used = used_bindings d; slot = first_index (\<lambda>u. hk_command u = hk_command b) used in
          if command_in_range (hk_command b) \<and> hk_physical_key b \<noteq> 0
          then if list_ex (\<lambda>i. slot \<noteq> Some i \<and> chord (used ! i) = chord b) [0..<length used]
            then result = SACCADE_ERROR_ALREADY_EXISTS \<and> d' = d \<and>
              (case conflict of None \<Rightarrow> False
               | Some k \<Rightarrow> unat (bc_index k) < length used \<and> slot \<noteq> Some (unat (bc_index k)) \<and>
                   chord (used ! unat (bc_index k)) = chord b \<and> hk_command (used ! unat (bc_index k)) = bc_command k)
            else if slot = None \<and> length used = maximum_hotkey_bindings
            then result = SACCADE_ERROR_CAPACITY \<and> d' = d
            else result = (if binding_valid b then SACCADE_OK else SACCADE_ERROR_INVALID_ARGUMENT) \<and>
              validate_settings d' = result \<and> settings_shape d' \<and>
              used_bindings d' = (case slot of None \<Rightarrow> used @ [b] | Some i \<Rightarrow> used[i := b]) \<and>
              d' = d\<lparr>sd_bindings := sd_bindings d', sd_binding_count := sd_binding_count d'\<rparr>
          else result = SACCADE_ERROR_INVALID_ARGUMENT \<and> d' = d)
     | _ \<Rightarrow> False) \<and>
     (case remove_binding (Some d) command of
       (result, Some d') \<Rightarrow>
         (if result = SACCADE_OK
          then settings_shape d' \<and> validate_settings d' = SACCADE_OK \<and>
            (case first_index (\<lambda>u. hk_command u = command) (used_bindings d) of None \<Rightarrow> False
             | Some i \<Rightarrow> used_bindings d' = take i (used_bindings d) @ drop (Suc i) (used_bindings d)) \<and>
            d' = d\<lparr>sd_bindings := sd_bindings d', sd_binding_count := sd_binding_count d'\<rparr>
          else d' = d \<and> (if command_in_range command
            then result = SACCADE_ERROR_NOT_FOUND \<and> list_all (\<lambda>u. hk_command u \<noteq> command) (used_bindings d)
            else result = SACCADE_ERROR_INVALID_ARGUMENT))
     | _ \<Rightarrow> False)
   else True"
proof (cases "settings_shape d \<and> validate_settings d = SACCADE_OK")
  case True
  then show ?thesis using set_binding_outcome [of d b, unfolded set_outcome_def]
      remove_binding_outcome [of d command, unfolded remove_outcome_def] by (simp only: if_True simp_thms)
qed (simp only: if_False)

subsection \<open>The keyboard\<close>

definition units_ok :: "key_placement \<Rightarrow> bool" where
  "units_ok p \<longleftrightarrow> 1 \<le> unat (kp_width_units p) \<and> unat (kp_x_units p) + unat (kp_width_units p) \<le> 30 \<and> unat (kp_y_units p) < 6"

definition units_apart :: "key_placement \<Rightarrow> key_placement \<Rightarrow> bool" where
  "units_apart p q \<longleftrightarrow> kp_y_units p \<noteq> kp_y_units q \<or> unat (kp_x_units p) + unat (kp_width_units p) \<le> unat (kp_x_units q)
     \<or> unat (kp_x_units q) + unat (kp_width_units q) \<le> unat (kp_x_units p)"

lemma placements_ok: "list_all units_ok key_placements" by code_simp

lemma placements_apart: "sorted_wrt units_apart key_placements" by code_simp

lemma placements_usages: "sort (map kp_usage key_placements) = map fst binding_keys" by code_simp

lemma key_tables: "length command_names = binding_command_count" "length binding_keys = binding_key_count" "distinct command_names"
  "distinct (map snd binding_keys)"
  by code_simp+

lemma int_unat_sint: "0 \<le> sint (w :: i32) \<Longrightarrow> int (unat w) = sint w"
proof -
  assume w: "0 \<le> sint w"
  have "uint w = take_bit 32 (sint w)" using uint_word_of_int [of "sint w", where 'a = 32] by (simp add: take_bit_eq_mod)
  then have "uint w = sint w" using w sint32_lt [of w] by (simp add: take_bit_int_eq_self)
  then show ?thesis by simp
qed

text \<open>One extent of a key: it starts where it should and is never empty, and it ends before the next unit.\<close>

lemma key_extent:
  fixes units width_units extent divisor gap :: u32
  defines "L \<equiv> unat units * unat extent div unat divisor" and "R \<equiv> (unat units + unat width_units) * unat extent div unat divisor"
  assumes "(unat units + unat width_units) * unat extent < 4294967296" "R < 2147483648" "1 \<le> unat width_units"
    "0 < unat divisor" "unat divisor \<le> unat extent" "0 \<le> sint gap"
  shows "sint (units * extent div divisor) = int L"
    "let e = (units + width_units) * extent div divisor - units * extent div divisor - gap; k = (if sint e < 1 then 1 else e) in
      1 \<le> sint k \<and> int L + sint k \<le> int R"
proof -
  have small: "unat units * unat extent < 4294967296" using assms(3) unfolding add_mult_distrib by linarith
  have extent: "0 < unat extent" using assms(6,7) by linarith
  have "(unat units + unat width_units) * 1 \<le> (unat units + unat width_units) * unat extent"
    using extent by (intro mult_le_mono2) simp
  then have "unat units + unat width_units < 4294967296" unfolding mult_1_right using assms(3) by (rule le_less_trans)
  then have sum: "unat (units + width_units) = unat units + unat width_units" using unat_add_lem [of units width_units] by simp
  have prod: "unat (a * b) = unat a * unat b" if "unat a * unat b < 4294967296" for a b :: u32
    using that unat_mult_lem [of a b] by simp
  have l: "unat (units * extent div divisor) = L" unfolding unat_div_distrib prod [OF small] L_def ..
  have "unat ((units + width_units) * extent) = (unat units + unat width_units) * unat extent"
    using prod [of "units + width_units" extent, unfolded sum, OF assms(3)] .
  then have r: "unat ((units + width_units) * extent div divisor) = R" unfolding unat_div_distrib R_def by (rule arg_cong)
  have "L + 1 \<le> R"
  proof -
    have "unat units * unat extent + unat divisor \<le> (unat units + unat width_units) * unat extent"
    proof -
      have "unat divisor \<le> 1 * unat extent" using assms(7) by simp
      also have "\<dots> \<le> unat width_units * unat extent" using assms(5) by (rule mult_le_mono1)
      finally show ?thesis by (simp add: add_mult_distrib)
    qed
    then have "(unat units * unat extent + unat divisor) div unat divisor \<le> R" unfolding R_def by (rule div_le_mono)
    moreover have "(unat units * unat extent + unat divisor) div unat divisor = L + 1"
      unfolding L_def using assms(6) by (intro div_add_self2) (rule less_imp_neq [symmetric])
    ultimately show ?thesis by simp
  qed
  then have lt: "L < R" by simp
  have lw: "units * extent div divisor = word_of_int (int L)" unfolding l [symmetric] by simp
  have rw: "(units + width_units) * extent div divisor = word_of_int (int R)" unfolding r [symmetric] by simp
  show "sint (units * extent div divisor) = int L" unfolding lw using lt assms(4) by (intro sint_word_of_int32) simp_all
  define e where "e = (units + width_units) * extent div divisor - units * extent div divisor - gap"
  have "e = word_of_int (int R - int L - sint gap)" unfolding e_def lw rw wi_hom_sub [symmetric] by simp
  moreover have "sint gap \<le> 2147483647" by (rule sint32_bounds(2))
  moreover have "int32_min \<le> int R - int L - sint gap" "int R - int L - sint gap \<le> int32_max"
    using lt assms(4,8) \<open>sint gap \<le> 2147483647\<close> by linarith+
  ultimately have e: "sint e = int R - int L - sint gap" by (simp only: sint_word_of_int32)
  show "let e = (units + width_units) * extent div divisor - units * extent div divisor - gap; k = (if sint e < 1 then 1 else e) in
      1 \<le> sint k \<and> int L + sint k \<le> int R"
  proof (cases "sint e < 1")
    case True
    then show ?thesis using lt unfolding e_def [symmetric] Let_def by simp
  next
    case False
    then show ?thesis using e assms(8) unfolding e_def [symmetric] Let_def by (simp only: if_False) linarith
  qed
qed

definition rects_apart :: "key_rect \<Rightarrow> key_rect \<Rightarrow> bool" where
  "rects_apart a b \<longleftrightarrow> sint (kr_x a) + sint (kr_width a) \<le> sint (kr_x b) \<or> sint (kr_x b) + sint (kr_width b) \<le> sint (kr_x a) \<or>
     sint (kr_y a) + sint (kr_height a) \<le> sint (kr_y b) \<or> sint (kr_y b) + sint (kr_height b) \<le> sint (kr_y a)"

lemma layout_key_extent:
  assumes "units_ok p" "sint width \<in> {32..134217727}" "sint height \<in> {6..134217727}" "0 \<le> sint gap"
  shows "let k = layout_key width height gap p; W = unat width; H = unat height in
      sint (kr_x k) = int (unat (kp_x_units p) * W div 32) \<and> 1 \<le> sint (kr_width k) \<and>
      sint (kr_x k) + sint (kr_width k) \<le> int ((unat (kp_x_units p) + unat (kp_width_units p)) * W div 32) \<and>
      sint (kr_y k) = int (unat (kp_y_units p) * H div 6) \<and> 1 \<le> sint (kr_height k) \<and>
      sint (kr_y k) + sint (kr_height k) \<le> int ((unat (kp_y_units p) + 1) * H div 6)"
proof -
  have w: "int (unat width) = sint width" "int (unat height) = sint height"
    using assms(2,3) by (intro int_unat_sint, simp)+
  then have W: "32 \<le> unat width" "unat width \<le> 134217727" "6 \<le> unat height" "unat height \<le> 134217727"
    using assms(2,3) unfolding atLeastAtMost_iff by linarith+
  have u: "unat (kp_x_units p) + unat (kp_width_units p) \<le> 30" "unat (kp_y_units p) + 1 \<le> 6" "1 \<le> unat (kp_width_units p)"
    using assms(1) by (simp_all add: units_ok_def)
  have x: "(unat (kp_x_units p) + unat (kp_width_units p)) * unat width \<le> 30 * 134217727" by (rule mult_le_mono [OF u(1) W(2)])
  have y: "(unat (kp_y_units p) + 1) * unat height \<le> 6 * 134217727" by (rule mult_le_mono [OF u(2) W(4)])
  have xd: "(unat (kp_x_units p) + unat (kp_width_units p)) * unat width div 32 < 2147483648"
    by (rule le_less_trans [OF div_le_mono [OF x]]) simp
  have yd: "(unat (kp_y_units p) + 1) * unat height div 6 < 2147483648" by (rule le_less_trans [OF div_le_mono [OF y]]) simp
  have k: "unat keyboard_width_units = 32" "unat keyboard_height_units = 6" "unat (1 :: u32) = 1"
    by (simp_all add: keyboard_width_units_def keyboard_height_units_def)
  note kx = key_extent [of "kp_x_units p" "kp_width_units p" width keyboard_width_units gap, unfolded k]
  note ky = key_extent [of "kp_y_units p" 1 height keyboard_height_units gap, unfolded k]
  from kx [OF _ xd u(3) _ W(1) assms(4)] ky [OF _ yd _ _ W(3) assms(4)] x y
  show ?thesis unfolding layout_key_def Let_def by simp
qed

lemma layout_apart:
  assumes "units_ok p" "units_ok q" "units_apart p q" "sint width \<in> {32..134217727}" "sint height \<in> {6..134217727}" "0 \<le> sint gap"
  shows "rects_apart (layout_key width height gap p) (layout_key width height gap q)"
proof -
  note kp = layout_key_extent [OF assms(1,4,5,6), unfolded Let_def] and kq = layout_key_extent [OF assms(2,4,5,6), unfolded Let_def]
  have mono: "int (a * c div d) \<le> int (b * c div d)" if "a \<le> b" for a b c d :: nat
    using that by (simp add: div_le_mono)
  consider "unat (kp_y_units p) + 1 \<le> unat (kp_y_units q)" | "unat (kp_y_units q) + 1 \<le> unat (kp_y_units p)"
    | "unat (kp_x_units p) + unat (kp_width_units p) \<le> unat (kp_x_units q)"
    | "unat (kp_x_units q) + unat (kp_width_units q) \<le> unat (kp_x_units p)"
    using assms(3) unfolding units_apart_def by (metis Suc_eq_plus1 not_less_eq_eq nat_le_linear le_neq_implies_less word_unat_eq_iff Suc_leI)
  then show ?thesis
  proof cases
    case 1
    then show ?thesis using kp kq mono [OF 1, of "unat height" 6] unfolding rects_apart_def by linarith
  next
    case 2
    then show ?thesis using kp kq mono [OF 2, of "unat height" 6] unfolding rects_apart_def by linarith
  next
    case 3
    then show ?thesis using kp kq mono [OF 3, of "unat width" 32] unfolding rects_apart_def by linarith
  next
    case 4
    then show ?thesis using kp kq mono [OF 4, of "unat width" 32] unfolding rects_apart_def by linarith
  qed
qed

lemma sorted_wrt_on: "sorted_wrt P xs \<Longrightarrow> (\<And>x y. x \<in> set xs \<Longrightarrow> y \<in> set xs \<Longrightarrow> P x y \<Longrightarrow> Q x y) \<Longrightarrow> sorted_wrt Q xs"
  by (induction xs) auto

lemma layouts:
  assumes "sint width \<in> {32..134217727}" "sint height \<in> {6..134217727}" "0 \<le> sint gap"
  shows "sorted_wrt rects_apart (map (layout_key width height gap) key_placements)"
    "list_all (\<lambda>k. 0 \<le> sint (kr_x k) \<and> 0 \<le> sint (kr_y k) \<and> 1 \<le> sint (kr_width k) \<and> 1 \<le> sint (kr_height k) \<and>
       sint (kr_x k) + sint (kr_width k) \<le> sint width \<and> sint (kr_y k) + sint (kr_height k) \<le> sint height)
       (map (layout_key width height gap) key_placements)"
proof -
  have ok: "units_ok p" if "p \<in> set key_placements" for p using placements_ok that by (simp add: list_all_iff)
  show "sorted_wrt rects_apart (map (layout_key width height gap) key_placements)"
    unfolding sorted_wrt_map by (rule sorted_wrt_on [OF placements_apart]) (intro layout_apart ok assms)
  have inside: "int ((unat (kp_x_units p) + unat (kp_width_units p)) * unat width div 32) \<le> sint width"
      "int ((unat (kp_y_units p) + 1) * unat height div 6) \<le> sint height" if "units_ok p" for p
  proof -
    have w: "int (unat width) = sint width" "int (unat height) = sint height"
      using assms(1,2) by (intro int_unat_sint, simp)+
    have "unat (kp_x_units p) + unat (kp_width_units p) \<le> 32" "unat (kp_y_units p) + 1 \<le> 6"
      using that by (simp_all add: units_ok_def)
    from mult_le_mono1 [OF this(1), of "unat width"] mult_le_mono1 [OF this(2), of "unat height"]
    have "(unat (kp_x_units p) + unat (kp_width_units p)) * unat width div 32 \<le> unat width"
      "(unat (kp_y_units p) + 1) * unat height div 6 \<le> unat height" by linarith+
    then show "int ((unat (kp_x_units p) + unat (kp_width_units p)) * unat width div 32) \<le> sint width"
      "int ((unat (kp_y_units p) + 1) * unat height div 6) \<le> sint height" unfolding w [symmetric] by (simp_all only: of_nat_le_iff)
  qed
  show "list_all (\<lambda>k. 0 \<le> sint (kr_x k) \<and> 0 \<le> sint (kr_y k) \<and> 1 \<le> sint (kr_width k) \<and> 1 \<le> sint (kr_height k) \<and>
       sint (kr_x k) + sint (kr_width k) \<le> sint width \<and> sint (kr_y k) + sint (kr_height k) \<le> sint height)
       (map (layout_key width height gap) key_placements)"
    unfolding list_all_iff set_map
  proof (rule ballI)
    fix k assume "k \<in> layout_key width height gap ` set key_placements"
    then obtain p where p: "p \<in> set key_placements" "k = layout_key width height gap p" by blast
    note e = layout_key_extent [OF ok [OF p(1)] assms, unfolded Let_def, folded p(2)]
    note i = inside [OF ok [OF p(1)]]
    have "0 \<le> sint (kr_x k)" using e by (simp only: of_nat_0_le_iff)
    moreover have "0 \<le> sint (kr_y k)" using e by (simp only: of_nat_0_le_iff)
    moreover have "sint (kr_x k) + sint (kr_width k) \<le> sint width" using e i(1) by (blast intro: order_trans)
    moreover have "sint (kr_y k) + sint (kr_height k) \<le> sint height" using e i(2) by (blast intro: order_trans)
    ultimately show "0 \<le> sint (kr_x k) \<and> 0 \<le> sint (kr_y k) \<and> 1 \<le> sint (kr_width k) \<and> 1 \<le> sint (kr_height k) \<and>
        sint (kr_x k) + sint (kr_width k) \<le> sint width \<and> sint (kr_y k) + sint (kr_height k) \<le> sint height"
      using e by blast
  qed
qed

text \<open>The keys up to the last one with a symbol, by evaluation.\<close>

definition key_symbol_ok :: "u32 \<Rightarrow> bool" where
  "key_symbol_ok key \<longleftrightarrow> (if default_logical_symbol key = 0
    then \<not> ((key \<ge> 0x04 \<and> key \<le> 0x27) \<or> (key \<ge> 0x2c \<and> key \<le> 0x31) \<or> (key \<ge> 0x33 \<and> key \<le> 0x38))
    else us_physical_key (default_logical_symbol key) = key \<and>
      ((key \<ge> 0x04 \<and> key \<le> 0x27) \<or> (key \<ge> 0x2c \<and> key \<le> 0x31) \<or> (key \<ge> 0x33 \<and> key \<le> 0x38)))"

lemma low_key_symbols: "list_all (\<lambda>n. key_symbol_ok (word_of_nat n)) [0..<57]" by code_simp

lemma key_symbols:
  "if default_logical_symbol key = 0
    then \<not> ((key \<ge> 0x04 \<and> key \<le> 0x27) \<or> (key \<ge> 0x2c \<and> key \<le> 0x31) \<or> (key \<ge> 0x33 \<and> key \<le> 0x38))
    else us_physical_key (default_logical_symbol key) = key \<and>
      ((key \<ge> 0x04 \<and> key \<le> 0x27) \<or> (key \<ge> 0x2c \<and> key \<le> 0x31) \<or> (key \<ge> 0x33 \<and> key \<le> 0x38))"
proof (cases "unat key < 57")
  case True
  then have "unat key \<in> set [0..<57]" by simp
  from bspec [OF low_key_symbols [unfolded list_all_iff] this] have "key_symbol_ok key" by simp
  then show ?thesis unfolding key_symbol_ok_def .
next
  case False
  then have "default_logical_symbol key = 0" by (auto simp: default_logical_symbol_def word_le_nat_alt)
  then show ?thesis using False by (auto simp: word_le_nat_alt)
qed

text \<open>C39. The drawn keyboard: in a window of at least 32 by 6 and below 2^27 pixels, every key of the key table is laid out once,
  is not empty and lies inside the window, and no two keys overlap, whatever the gap. In every smaller window, or for a
  negative gap, there is no layout. The symbol of a key without modifiers is one the settings translate
  back to the key, and exactly the keys that a binding needs a symbol for have one.\<close>

theorem keyboard_layout:
  "(case layout_binding_keyboard width height gap True of
      (SACCADE_OK, Some keys) \<Rightarrow>
        sint width \<ge> 32 \<and> sint height \<ge> 6 \<and> sint gap \<ge> 0 \<and> sort (map kr_usage keys) = map fst binding_keys \<and>
        (if sint width \<le> 134217727 \<and> sint height \<le> 134217727
         then sorted_wrt rects_apart keys \<and>
           list_all (\<lambda>k. 0 \<le> sint (kr_x k) \<and> 0 \<le> sint (kr_y k) \<and> 1 \<le> sint (kr_width k) \<and> 1 \<le> sint (kr_height k) \<and>
             sint (kr_x k) + sint (kr_width k) \<le> sint width \<and> sint (kr_y k) + sint (kr_height k) \<le> sint height) keys
         else True)
    | (result, keys) \<Rightarrow> result = SACCADE_ERROR_INVALID_ARGUMENT \<and> keys = None \<and>
        \<not> (sint width \<ge> 32 \<and> sint height \<ge> 6 \<and> sint gap \<ge> 0)) \<and>
   (if default_logical_symbol key = 0
    then \<not> ((key \<ge> 0x04 \<and> key \<le> 0x27) \<or> (key \<ge> 0x2c \<and> key \<le> 0x31) \<or> (key \<ge> 0x33 \<and> key \<le> 0x38))
    else us_physical_key (default_logical_symbol key) = key \<and>
      ((key \<ge> 0x04 \<and> key \<le> 0x27) \<or> (key \<ge> 0x2c \<and> key \<le> 0x31) \<or> (key \<ge> 0x33 \<and> key \<le> 0x38)))"
proof (rule conjI)
  show "case layout_binding_keyboard width height gap True of
      (SACCADE_OK, Some keys) \<Rightarrow>
        sint width \<ge> 32 \<and> sint height \<ge> 6 \<and> sint gap \<ge> 0 \<and> sort (map kr_usage keys) = map fst binding_keys \<and>
        (if sint width \<le> 134217727 \<and> sint height \<le> 134217727
         then sorted_wrt rects_apart keys \<and>
           list_all (\<lambda>k. 0 \<le> sint (kr_x k) \<and> 0 \<le> sint (kr_y k) \<and> 1 \<le> sint (kr_width k) \<and> 1 \<le> sint (kr_height k) \<and>
             sint (kr_x k) + sint (kr_width k) \<le> sint width \<and> sint (kr_y k) + sint (kr_height k) \<le> sint height) keys
         else True)
    | (result, keys) \<Rightarrow> result = SACCADE_ERROR_INVALID_ARGUMENT \<and> keys = None \<and>
        \<not> (sint width \<ge> 32 \<and> sint height \<ge> 6 \<and> sint gap \<ge> 0)"
  proof (cases "sint width \<ge> 32 \<and> sint height \<ge> 6 \<and> sint gap \<ge> 0")
    case True
    let ?keys = "map (layout_key width height gap) key_placements"
    have keys: "layout_binding_keyboard width height gap True = (SACCADE_OK, Some ?keys)"
      using True by (simp add: layout_binding_keyboard_def keyboard_width_units_def keyboard_height_units_def)
    have "map kr_usage ?keys = map kp_usage key_placements" by (simp add: layout_key_def Let_def)
    then have usages: "sort (map kr_usage ?keys) = map fst binding_keys" by (simp only: placements_usages)
    have "sorted_wrt rects_apart ?keys \<and> list_all (\<lambda>k. 0 \<le> sint (kr_x k) \<and> 0 \<le> sint (kr_y k) \<and> 1 \<le> sint (kr_width k) \<and>
        1 \<le> sint (kr_height k) \<and> sint (kr_x k) + sint (kr_width k) \<le> sint width \<and>
        sint (kr_y k) + sint (kr_height k) \<le> sint height) ?keys"
      if "sint width \<le> 134217727 \<and> sint height \<le> 134217727"
      using layouts [of width height gap] that True by simp
    then show ?thesis unfolding keys using True usages by simp
  next
    case False
    then show ?thesis by (auto simp: layout_binding_keyboard_def keyboard_width_units_def keyboard_height_units_def)
  qed
  show "if default_logical_symbol key = 0
    then \<not> ((key \<ge> 0x04 \<and> key \<le> 0x27) \<or> (key \<ge> 0x2c \<and> key \<le> 0x31) \<or> (key \<ge> 0x33 \<and> key \<le> 0x38))
    else us_physical_key (default_logical_symbol key) = key \<and>
      ((key \<ge> 0x04 \<and> key \<le> 0x27) \<or> (key \<ge> 0x2c \<and> key \<le> 0x31) \<or> (key \<ge> 0x33 \<and> key \<le> 0x38))"
    by (rule key_symbols)
qed

end
