(* ===== verification/Spec2Isabelle.thy ===== *)
theory Spec2Isabelle
  imports Handle_Table Frame_Lease Mailbox Recovery_Schedule Dual_Rate_Scheduler Scene_Packet Coordinate_Transform Scene_Grid Scene_Windows Scene_Store Display_Catalog Scope_Atlas Scene_Fusion Hint_Session Execution_Preflight Physical_Reducer Selection_Reducer Action_Planner Session_Engine Target_Postprocess Overlay_Packet Overlay_Composer Composer_Reference Settings_Controller Binding_Editor
begin

text \<open>
  Saccade takes frames and descriptions of the screen, finds the targets a user could act on, labels them with short
  letter sequences, follows what the user types, and turns the chosen targets and the wanted action into a plan of
  pointer and keyboard commands, which it then plays. This development models the C++ code of that core, the parts of
  \<open>src/\<close> without system calls, and proves it correct. All definitions are executable; every theorem holds for them
  without oracles and without further axioms.

  How the parts work together.

    \<^item> Frames. A provider puts frames into \<open>Frame_Lease\<close> (owners of a frame and its one release) on top of the handle
      table \<open>Handle_Table\<close>; \<open>Mailbox\<close> keeps only the newest frame for the consumer. \<open>Dual_Rate_Scheduler\<close> decides when
      to look for a frame and when to run inference, \<open>Recovery_Schedule\<close> when to try a failed device again.
    \<^item> Geometry. \<open>Coordinate_Transform\<close> maps rectangles and points between desktop, display and surface in fixed point;
      \<open>Display_Catalog\<close> keeps the displays, \<open>Scope_Atlas\<close> the pieces of the desktop that fit a model input.
    \<^item> Scenes. A scene is a target packet (\<open>Scene_Packet\<close>, strings by \<open>Utf8\<close>). \<open>Target_Postprocess\<close> makes one of the
      candidates of a detector, \<open>Scene_Grid\<close> and \<open>Scene_Windows\<close> make one of a rectangle or a list of windows, and
      \<open>Scene_Fusion\<close> merges up to four. \<open>Scene_Store\<close> hands packets from one producer to one consumer.
    \<^item> Sessions. \<open>Hint_Session\<close> gives the targets of a scene their labels and follows typing; \<open>Selection_Reducer\<close> collects
      the targets an action needs; \<open>Action_Planner\<close> makes the input plan; \<open>Session_Engine\<close> runs these over the scene
      store and hands the plan to an executor.
    \<^item> Plans. \<open>Input_Plan\<close> is the format of a plan, \<open>Execution_Preflight\<close> the last check before it is played against the
      scene of that moment, \<open>Physical_Reducer\<close> plays it and keeps track of held keys and buttons.
    \<^item> What the user sees and sets. \<open>Overlay_Packet\<close> is the format of the drawn labels and its expansion to rectangles,
      \<open>Overlay_Composer\<close> places the labels; \<open>Settings\<close> holds the user's preferences and their file format, \<open>Settings_Controller\<close> and
      \<open>Binding_Editor\<close> change them.

  Which theory models which source, with the names of its main definitions.

    \<^item> \<open>Saccade_Prelude\<close>: \<open>include/saccade/saccade.h\<close>; machine integers, result codes, little-endian bytes, bounded search,
      the locales \<open>record_codec\<close>, \<open>invariant_machine\<close> and \<open>handle_space\<close>.
    \<^item> \<open>Handle_Table\<close>: \<open>src/core/handle_table.hpp\<close>; \<open>emplace\<close>, \<open>get\<close>, \<open>erase\<close>, \<open>for_each\<close>, \<open>clear_reverse\<close>.
    \<^item> \<open>Frame_Lease\<close>: \<open>src/core/frame_lease.hpp\<close>, \<open>frame_validation.hpp\<close>; \<open>import_host\<close>, \<open>import_native\<close>, \<open>add_owner\<close>,
      \<open>release_owner\<close>, \<open>pool_get\<close>, \<open>pool_clear\<close>.
    \<^item> \<open>Mailbox\<close>: \<open>src/core/newest_frame_mailbox.hpp\<close>; each atomic exchange is one step of \<open>run_step\<close>.
    \<^item> \<open>Recovery_Schedule\<close>: \<open>src/application/recovery_schedule.hpp\<close>. \<open>Dual_Rate_Scheduler\<close>:
      \<open>src/scheduler/dual_rate_scheduler.{hpp,cpp}\<close>.
    \<^item> \<open>Utf8\<close>: \<open>src/input/utf8.hpp\<close> and the reader in \<open>src/scene/packet.cpp\<close>. \<open>Scene_Packet\<close>:
      \<open>src/scene/packet.{hpp,cpp}\<close>, \<open>include/saccade/saccade_scene.h\<close>; \<open>validate_packet\<close>.
    \<^item> \<open>Coordinate_Transform\<close>, \<open>Display_Catalog\<close>, \<open>Scope_Atlas\<close>: the files of the same names in \<open>src/geometry\<close>.
    \<^item> \<open>Scene_Grid\<close>, \<open>Scene_Windows\<close>, \<open>Scene_Store\<close>, \<open>Scene_Fusion\<close>: \<open>grid\<close>, \<open>windows\<close>, \<open>store\<close> and \<open>fusion\<close> in
      \<open>src/scene\<close>. \<open>Target_Postprocess\<close>: \<open>src/kernels/targets/postprocess.{hpp,cpp}\<close>.
    \<^item> \<open>Hint_Session\<close>, \<open>Selection_Reducer\<close>, \<open>Action_Planner\<close>: \<open>hints\<close>, \<open>selection_reducer\<close> and \<open>action_planner\<close> in
      \<open>src/interaction\<close>. \<open>Session_Engine\<close>: \<open>src/application/session.{hpp,cpp}\<close>.
    \<^item> \<open>Input_Plan\<close>: \<open>src/input/plan.{hpp,cpp}\<close>, \<open>include/saccade/saccade_input.h\<close>; \<open>Execution_Preflight\<close> and
      \<open>Physical_Reducer\<close>: the files of the same names in \<open>src/input\<close>.
    \<^item> \<open>Overlay_Packet\<close>: \<open>src/overlay/packet.{hpp,cpp}\<close>, \<open>include/saccade/saccade_overlay.h\<close>; \<open>Overlay_Composer\<close> and
      \<open>Settings\<close>: \<open>overlay_composer\<close>, \<open>settings\<close> and \<open>hotkeys.hpp\<close> in \<open>src/application\<close>. \<open>Settings_Controller\<close>:
      \<open>src/application/settings_controller.{hpp,cpp}\<close>. \<open>Binding_Editor\<close>: \<open>src/application/binding_editor.{hpp,cpp}\<close>.

  How state and operations correspond to the code. A class is a record with a prefix per field; a method is a function
  from the record, and its arguments, to the result code, the outputs and the new record, with the checks in the order of the
  code. Unsigned integers are words of their width and wrap as in C++; an \<open>int32_t\<close> is a word read with \<open>sint\<close>, arithmetic
  done in \<open>int64_t\<close> is on \<open>int\<close> where it cannot overflow. An enumeration a caller can give any value has a constructor for
  the values without a name, or is the number itself. A pointer argument is an option, a pointer for a result the truth value
  that it is not null; an array with its length is a list. Loops over an index range are recursion or maps over the list;
  a loop whose end is not evident is a \<open>partial_function (option)\<close>, so that \<open>None\<close> means that it does not return, and it is
  proved that it returns (\<open>grid_search_exact\<close>, \<open>postprocess_exact\<close>, \<open>composed_overlay\<close>, \<open>hint_alphabets\<close>,
  \<open>reducer_advance_total\<close>). No fuel is used.

  What the lemmas show. Every stateful class has a datatype of its operations, a step function that dispatches to them, and
  an invariant; an interpretation of \<open>invariant_machine\<close> on them proves once and for all runs that reachable states are well
  formed (mailbox, scheduler, recovery, display catalog, scene store, reducer, selection, session). The two handle spaces
  interpret \<open>handle_space\<close>, which adds that a handle whose object died never comes back. Byte formats are pairs of a writer
  and a reader: each record interprets \<open>record_codec\<close> (or \<open>reader_codec\<close> where the reader keeps a failure), and the packet
  theorems say that the reader accepts exactly the well-formed packets and reads back what a writer wrote. The
  priority heap of the postprocessing is proved in the locale \<open>ranked\<close> and interpreted on its ranking. Optimised code is
  compared with a plain definition: the bucket search of the fusion and of the composer with the search of all candidates,
  the heap selection with sorting, the UTF-8 state machine with the standard's table. \<open>Composer_Reference\<close>, which models no
  further code, has the composer as a linear scan over the targets and proves that the two agree. The fusion is compared
  with groups of the candidates it read (\<open>fusion_groups\<close>), the progress of a plan with the effect of its commands one by one
  (\<open>command_effect\<close>), and the clocks of the scheduler with the multiples of their period (\<open>clock_exact\<close>). Properties that span
  components: a plan the planner returns is accepted by the plan reader and the preflight, and has on the input reducer the
  effect of its action, \<open>action_effect\<close> (\<open>planned_action_executes\<close>), a session hands to the executor only such plans (\<open>session_hands_over_plans\<close>), what the store
  publishes is what a session acquires (\<open>publish_then_acquire\<close>), and the labels of a session are drawn by the composer in
  a packet the overlay reader accepts (\<open>composed_from_hints\<close>, \<open>composed_overlay\<close>).

  Not modelled. Everything that talks to the operating system or to accelerators (\<open>platform\<close>, \<open>backends\<close>, \<open>apps\<close>, \<open>tools\<close>),
  the C entry points that only dispatch to providers, the JSON protocols over a vendored tokenizer, the vector code of the pixel
  conversion, and the wiring of the desktop application; PROJECT.json lists them part by part. Concurrency is modelled where
  the code has it, as interleavings of steps at the atomics of the mailbox and the store. Callbacks (the executor of a session,
  the release of a frame) are parameters or recorded calls. The sizes of arrays are invariants of the records, not types.
\<close>

end
